(* ===== verification/Memflow_Prelude.thy ===== *)
theory Memflow_Prelude
  imports Main "HOL-Library.Word" "HOL-Library.Monad_Syntax" "HOL-Library.Multiset"
begin

unbundle bit_operations_syntax

text \<open>
  Shared vocabulary of the development: the machine integers of the Rust sources, the
  shift operators as the release build computes them, the outcome convention, and the
  generic facts on words and lists the components use.

  Conventions.
  \<^item> \<open>usize\<close> is 64 bits wide and the host is little endian, so \<open>to_le\<close> is the identity.
  \<^item> Arithmetic is that of a release build (\<open>cargo build --release\<close>, as the README builds
    it): \<open>+\<close>, \<open>-\<close>, \<open>*\<close> wrap, a shift amount is taken modulo the width, and
    \<open>debug_assert!\<close> is compiled out.
  \<^item> A call that may panic (index out of range, \<open>unwrap\<close> of \<open>None\<close>, remainder by zero) or
    may not return has an \<open>option\<close> result: \<open>None\<close> is "no value is returned".
  \<^item> A Rust \<open>Result\<close> is a sum: \<open>Inl\<close> the error, \<open>Inr\<close> the value.
\<close>

section \<open>Machine integers\<close>

type_synonym u8 = "8 word"
type_synonym u16 = "16 word"
type_synonym u32 = "32 word"
type_synonym u64 = "64 word"
type_synonym usize = "64 word"

named_theorems word_facts \<open>transfer of word arithmetic to natural numbers\<close>
named_theorems flag_defs \<open>definitions of flag constants and flag operations\<close>

text \<open>\<open>x << n\<close> and \<open>x >> n\<close> on \<open>u64\<close>: the amount is masked to six bits.\<close>

definition shl64 :: "u64 \<Rightarrow> u64 \<Rightarrow> u64" where
  "shl64 x n = push_bit (unat n mod 64) x"

definition shr64 :: "u64 \<Rightarrow> u64 \<Rightarrow> u64" where
  "shr64 x n = drop_bit (unat n mod 64) x"

text \<open>\<open>core::cmp::Ordering\<close> and the comparison of integers.\<close>

datatype ordering = Less | Equal | Greater

definition cmp_of :: "'a::linorder \<Rightarrow> 'a \<Rightarrow> ordering" where
  "cmp_of a b = (if a < b then Less else if a = b then Equal else Greater)"

section \<open>Facts on words\<close>

lemma bit_shl64 [bit_simps]:
  "bit (shl64 x n) k \<longleftrightarrow> k < 64 \<and> unat n mod 64 \<le> k \<and> bit x (k - unat n mod 64)"
  by (auto simp: shl64_def bit_push_bit_iff)

lemma bit_shr64 [bit_simps]:
  "bit (shr64 x n) k \<longleftrightarrow> bit x (unat n mod 64 + k)"
  by (simp add: shr64_def bit_drop_bit_eq)

lemma unat_lt_64 [simp]: "unat (w :: u64) < 18446744073709551616"
  using unsigned_less [of w] by simp

lemma unat_le_64: "unat (w :: u64) \<le> 18446744073709551615"
  using unat_lt_64 [of w] by linarith

lemma unat_add_nowrap [word_facts]:
  "unat (a :: u64) + unat b < 18446744073709551616 \<Longrightarrow> unat (a + b) = unat a + unat b"
  by (simp add: unat_word_ariths)

lemma unat_add_wrap [word_facts]:
  "18446744073709551616 \<le> unat (a :: u64) + unat b \<Longrightarrow>
     unat (a + b) = unat a + unat b - 18446744073709551616"
proof -
  assume a: "18446744073709551616 \<le> unat a + unat b"
  have "unat a + unat b < 18446744073709551616 + 18446744073709551616"
    using unat_lt_64 [of a] unat_lt_64 [of b] by linarith
  with a show ?thesis by (simp add: unat_word_ariths le_mod_geq)
qed

lemma unat_sub_nowrap [word_facts]:
  "unat b \<le> unat a \<Longrightarrow> unat ((a :: u64) - b) = unat a - unat b"
  by (simp add: unat_sub word_le_nat_alt)

lemma unat_of_nat_64 [word_facts]:
  "n < 18446744073709551616 \<Longrightarrow> unat (of_nat n :: u64) = n"
  by (simp add: unat_of_nat)

lemma word_of_nat_unat: "of_nat (unat (w :: u64)) = w"
  by simp

lemma unat_Suc_64: "unat (w :: u64) \<noteq> 18446744073709551615 \<Longrightarrow> unat (w + 1) = unat w + 1"
proof -
  assume "unat w \<noteq> 18446744073709551615"
  with unat_lt_64 [of w] have "unat w + unat (1 :: u64) < 18446744073709551616"
    by (simp del: unat_lt_64)
  from unat_add_nowrap [OF this] show ?thesis by simp
qed

lemma unat_max_64 [simp]: "unat (- 1 :: u64) = 18446744073709551615"
  by (simp add: unsigned_minus_1_eq_mask mask_eq_exp_minus_1)

lemma word_add_sub_cancel_64: "(a :: u64) + (b - a) = b"
  by simp

lemma unat_exp_64 [word_facts]: "k < 64 \<Longrightarrow> unat ((2 :: u64) ^ k) = 2 ^ k"
  using unat_of_nat [of "2 ^ k", where 'a = 64] power_strict_increasing [of k 64 "2 :: nat"]
  by (simp add: of_nat_power)

lemma unat_ucast_8_64 [simp]: "unat (ucast (i :: u8) :: u64) = unat i"
proof -
  have "unat i < 2 ^ 8"
    using unsigned_less [where 'a = nat, of i] by simp
  then have "unat i < 2 ^ 64" by simp
  then show ?thesis
    by (simp add: unsigned_ucast_eq take_bit_nat_eq_self)
qed

text \<open>Aligning an address down is clearing the remainder.\<close>

lemma unat_align_down [word_facts]:
  "unat ((a :: u64) - a mod s) = unat a - unat a mod unat s"
proof -
  have m: "unat (a mod s) = unat a mod unat s"
    by (simp add: unat_mod_distrib)
  have "unat (a mod s) \<le> unat a"
    by (simp add: m)
  then show ?thesis
    by (simp add: unat_sub_nowrap m)
qed

lemma nat_align_down: "(n :: nat) - n mod s = n div s * s"
  by (simp add: minus_mod_eq_div_mult)

section \<open>Facts on lists\<close>

text \<open>\<open>Vec::swap_remove\<close>: the last element takes the place of the removed one.\<close>

definition swap_remove :: "'a list \<Rightarrow> nat \<Rightarrow> ('a \<times> 'a list) option" where
  "swap_remove xs i =
     (if i < length xs then Some (xs ! i, butlast (xs[i := last xs])) else None)"

lemma mset_butlast_last: "xs \<noteq> [] \<Longrightarrow> mset xs = add_mset (last xs) (mset (butlast xs))"
  by (metis append_butlast_last_id mset.simps(2) mset_append union_mset_add_mset_right add_cancel_left_right mset.simps(1))

lemma swap_remove_mset:
  assumes "swap_remove xs i = Some (x, ys)"
  shows "mset xs = add_mset x (mset ys)" and "x \<in> set xs" and "length xs = Suc (length ys)"
proof -
  from assms have i: "i < length xs" and x: "x = xs ! i"
    and ys: "ys = butlast (xs[i := last xs])"
    by (auto simp: swap_remove_def split: if_splits)
  from i have ne: "xs[i := last xs] \<noteq> []" by auto
  have l: "last (xs[i := last xs]) = last xs"
    using i ne last_list_update [of xs i "last xs"] by (auto split: if_splits)
  have "mset (xs[i := last xs]) = add_mset (last xs) (mset ys)"
    using mset_butlast_last [OF ne] l ys by simp
  moreover have "mset (xs[i := last xs]) = add_mset (last xs) (mset xs - {#xs ! i#})"
    using i by (simp add: mset_update)
  ultimately have "mset ys = mset xs - {#xs ! i#}" by simp
  with i x show "mset xs = add_mset x (mset ys)" by simp
  from i x show "x \<in> set xs" by simp
  from i ys show "length xs = Suc (length ys)" by simp
qed

text \<open>Removing at an index leaves the elements before it, and those behind it reordered.\<close>

lemma swap_remove_parts:
  assumes "i < length xs"
  obtains ys where "swap_remove xs i = Some (xs ! i, ys)" "take i ys = take i xs"
    "mset (drop i ys) = mset (drop (Suc i) xs)" "length ys = length xs - 1"
proof -
  let ?ys = "butlast (xs[i := last xs])"
  have "take i ?ys = take i xs"
    using assms by (simp add: take_butlast)
  moreover have "mset (drop i ?ys) = mset (drop (Suc i) xs)"
  proof (cases "drop (Suc i) xs")
    case Nil
    with assms have "Suc i = length xs" by simp
    then show ?thesis using Nil by simp
  next
    case (Cons d ds)
    then have ne: "drop (Suc i) xs \<noteq> []" by simp
    then have l: "last xs = last (drop (Suc i) xs)"
      by (metis last_drop drop_eq_Nil not_less)
    have "drop i (xs[i := last xs]) = last xs # drop (Suc i) xs"
      using assms by (simp add: Cons_nth_drop_Suc [symmetric] drop_update_swap)
    then have "drop i ?ys = last (drop (Suc i) xs) # butlast (drop (Suc i) xs)"
      using ne l by (simp add: drop_butlast)
    then show ?thesis
      using mset_butlast_last [OF ne] by simp
  qed
  ultimately show ?thesis
    using assms that [of ?ys] by (simp add: swap_remove_def)
qed

lemma swap_remove_Some: "i < length xs \<Longrightarrow> \<exists>ys. swap_remove xs i = Some (xs ! i, ys)"
  by (simp add: swap_remove_def)

text \<open>\<open>Vec::resize\<close>, and a checked index: an index out of range panics.\<close>

definition vec_resize :: "nat \<Rightarrow> 'a \<Rightarrow> 'a list \<Rightarrow> 'a list" where
  "vec_resize n v xs = take n xs @ replicate (n - length xs) v"

lemma length_vec_resize [simp]: "length (vec_resize n v xs) = n"
  by (simp add: vec_resize_def)

definition index_of :: "'a list \<Rightarrow> nat \<Rightarrow> 'a option" where
  "index_of xs i = (if i < length xs then Some (xs ! i) else None)"

definition index_put :: "'a list \<Rightarrow> nat \<Rightarrow> 'a \<Rightarrow> 'a list option" where
  "index_put xs i v = (if i < length xs then Some (xs[i := v]) else None)"

lemma index_of_Some [simp]: "i < length xs \<Longrightarrow> index_of xs i = Some (xs ! i)"
  by (simp add: index_of_def)

lemma index_put_Some [simp]: "i < length xs \<Longrightarrow> index_put xs i v = Some (xs[i := v])"
  by (simp add: index_put_def)

section \<open>Iterators\<close>

text \<open>
  \<open>Iterator::collect\<close>: call \<open>next\<close> until it returns nothing. An iterator that never
  ends, or whose \<open>next\<close> panics, has no collection.
\<close>

partial_function (option) collect :: "('s \<Rightarrow> ('a option \<times> 's) option) \<Rightarrow> 's \<Rightarrow> 'a list option" where
  "collect next s =
     Option.bind (next s) (\<lambda>r. case fst r of
         None \<Rightarrow> Some []
       | Some x \<Rightarrow> Option.bind (collect next (snd r)) (\<lambda>xs. Some (x # xs)))"

declare collect.simps [code]

lemma collect_done: "next s = Some (None, s') \<Longrightarrow> collect next s = Some []"
  by (subst collect.simps) simp

lemma collect_step:
  "next s = Some (Some x, s') \<Longrightarrow> collect next s' = Some xs \<Longrightarrow> collect next s = Some (x # xs)"
  by (subst collect.simps) simp

lemma collect_panic: "next s = None \<Longrightarrow> collect next s = None"
  by (subst collect.simps) simp

end
