(* ===== verification/Address_Ops.thy ===== *)
theory Address_Ops
  imports Memflow_Prelude
begin

text \<open>
  \<open>memflow/src/types/address.rs\<close> and \<open>memflow/src/types/size.rs\<close>. The newtype
  \<open>Address(u64)\<close> (\<open>repr(transparent)\<close>) is the word itself. The lemmas give the bits of a
  mask, the arithmetic of page alignment and the conversions.
\<close>

section \<open>Byte sizes\<close>

definition kb :: "usize \<Rightarrow> usize" where "kb n = n * 1024"
definition kib :: "usize \<Rightarrow> usize" where "kib n = kb n div 8"
definition mb :: "usize \<Rightarrow> usize" where "mb n = kb n * 1024"
definition mib :: "usize \<Rightarrow> usize" where "mib n = mb n div 8"
definition gb :: "usize \<Rightarrow> usize" where "gb n = mb n * 1024"
definition gib :: "usize \<Rightarrow> usize" where "gib n = gb n div 8"

lemmas size_defs = kb_def kib_def mb_def mib_def gb_def gib_def

section \<open>Addresses\<close>

type_synonym address = u64

text \<open>\<open>item as u64\<close> sign-extends an \<open>i32\<close> and zero-extends a \<open>u32\<close>.\<close>

definition address_from_i32 :: "u32 \<Rightarrow> address" where
  "address_from_i32 item = scast item"

definition address_from_u32 :: "u32 \<Rightarrow> address" where
  "address_from_u32 item = ucast item"

definition address_from_u64 :: "u64 \<Rightarrow> address" where
  "address_from_u64 item = item"

definition address_from_usize :: "usize \<Rightarrow> address" where
  "address_from_usize item = item"

definition ADDRESS_NULL :: address where "ADDRESS_NULL = 0"
definition ADDRESS_INVALID :: address where "ADDRESS_INVALID = NOT 0"

definition address_null :: address where "address_null = ADDRESS_NULL"
definition address_invalid :: address where "address_invalid = ADDRESS_INVALID"
definition address_default :: address where "address_default = address_null"

text \<open>
  The mask of a range of bits. The bounds are converted with \<open>try_into().ok().unwrap()\<close>,
  which panics for a value that is not a \<open>u64\<close>; \<open>bit_mask\<close> takes them as integers and
  \<open>bit_mask_u64\<close> is the computation on the converted bounds.
\<close>

definition bit_mask_u64 :: "u64 \<Rightarrow> u64 \<Rightarrow> address" where
  "bit_mask_u64 s e = shr64 0xFFFFFFFFFFFFFFFF (63 - e) AND NOT (shl64 1 s - 1)"

definition try_into_u64 :: "int \<Rightarrow> u64 option" where
  "try_into_u64 i = (if 0 \<le> i \<and> i < 2 ^ 64 then Some (word_of_int i) else None)"

definition bit_mask :: "int \<Rightarrow> int \<Rightarrow> address option" where
  "bit_mask s e = do {
     e' \<leftarrow> try_into_u64 e;
     s' \<leftarrow> try_into_u64 s;
     Some (bit_mask_u64 s' e')
   }"

definition is_null :: "address \<Rightarrow> bool" where "is_null a \<longleftrightarrow> a = 0"

definition non_null :: "address \<Rightarrow> address option" where
  "non_null a = (if is_null a then None else Some a)"

definition is_valid :: "address \<Rightarrow> bool" where "is_valid a \<longleftrightarrow> a \<noteq> NOT 0"

definition as_u32 :: "address \<Rightarrow> u32" where "as_u32 a = ucast a"
definition as_u64 :: "address \<Rightarrow> u64" where "as_u64 a = a"
definition as_usize :: "address \<Rightarrow> usize" where "as_usize a = a"

text \<open>
  \<open>self.0 - self.0 % page_size\<close>: the remainder panics for a zero page size, so
  \<open>as_page_aligned\<close> has no value there; \<open>page_align\<close> is the value it returns otherwise.
\<close>

definition page_align :: "address \<Rightarrow> usize \<Rightarrow> address" where
  "page_align a page_size = a - a mod page_size"

definition as_page_aligned :: "address \<Rightarrow> usize \<Rightarrow> address option" where
  "as_page_aligned a page_size = (if page_size = 0 then None else Some (page_align a page_size))"

definition bit_at :: "address \<Rightarrow> u8 \<Rightarrow> bool" where
  "bit_at a idx \<longleftrightarrow> a AND shl64 1 (ucast idx) \<noteq> 0"

definition extract_bits :: "address \<Rightarrow> int \<Rightarrow> int \<Rightarrow> address option" where
  "extract_bits a s e = map_option (\<lambda>m. a AND as_u64 m) (bit_mask s e)"

definition address_add :: "address \<Rightarrow> usize \<Rightarrow> address" where
  "address_add a n = a + n"

definition address_sub_addr :: "address \<Rightarrow> address \<Rightarrow> usize" where
  "address_sub_addr a b = a - b"

definition address_sub :: "address \<Rightarrow> usize \<Rightarrow> address" where
  "address_sub a n = a - n"

text \<open>
  The operators for a reference to any type that converts into a \<open>u64\<close>, and the assigning
  operators, as the new value of the address.
\<close>

definition address_add_ref :: "('t \<Rightarrow> u64) \<Rightarrow> address \<Rightarrow> 't \<Rightarrow> address" where
  "address_add_ref into a n = a + into n"

definition address_sub_ref :: "('t \<Rightarrow> u64) \<Rightarrow> address \<Rightarrow> 't \<Rightarrow> address" where
  "address_sub_ref into a n = a - into n"

definition address_add_assign :: "address \<Rightarrow> usize \<Rightarrow> address" where
  "address_add_assign a n = a + n"

definition address_sub_assign :: "address \<Rightarrow> usize \<Rightarrow> address" where
  "address_sub_assign a n = a - n"

lemma address_sub_add_assign: "address_sub_assign (address_add_assign a n) n = a"
  by (simp add: address_add_assign_def address_sub_assign_def)

section \<open>Facts\<close>

lemma all_ones_64: "(0xFFFFFFFFFFFFFFFF :: u64) = - 1"
  by simp

lemma exp_minus_one_mask: "(2 :: u64) ^ k - 1 = mask k"
  by (simp add: mask_eq_exp_minus_1)

text \<open>A mask covers both ends of its range: bit \<open>e\<close> is included.\<close>

lemma bit_bit_mask_u64:
  assumes "unat s < 64" and "unat e < 64"
  shows "bit (bit_mask_u64 s e) k \<longleftrightarrow> unat s \<le> k \<and> k \<le> unat e"
proof -
  have e: "unat (63 - e) = 63 - unat e"
    using assms(2) by (subst unat_sub_nowrap) auto
  have s: "shl64 1 s = 2 ^ unat s"
    using assms(1) by (simp add: shl64_def push_bit_eq_mult)
  have "bit (bit_mask_u64 s e) k \<longleftrightarrow> (63 - unat e) + k < 64 \<and> k < 64 \<and> \<not> k < unat s"
    using assms(2)
    unfolding bit_mask_u64_def all_ones_64
    by (auto simp: bit_and_iff bit_not_iff bit_shr64 e s exp_minus_one_mask bit_mask_iff)
  then show ?thesis
    using assms(2) by auto
qed

lemma try_into_u64_nat: "k < 64 \<Longrightarrow> try_into_u64 (int k) = Some (of_nat k)"
  by (simp add: try_into_u64_def)

lemma bit_mask_Some: "s < 64 \<Longrightarrow> e < 64 \<Longrightarrow>
   bit_mask (int s) (int e) = Some (bit_mask_u64 (of_nat s) (of_nat e))"
  by (simp add: bit_mask_def try_into_u64_nat)

lemma bit_mask_u64_low:
  assumes "unat e < 63"
  shows "bit_mask_u64 0 e = mask (Suc (unat e))"
  using assms by (intro bit_word_eqI) (auto simp: bit_bit_mask_u64 bit_mask_iff)

lemma bit_at_iff: "bit_at a i \<longleftrightarrow> bit a (unat i mod 64)"
proof -
  have u: "unat (ucast i :: u64) = unat i"
    by (rule unat_ucast_8_64)
  have p: "shl64 1 (ucast i) = 2 ^ (unat i mod 64)"
    by (simp add: shl64_def u push_bit_eq_mult)
  have "a AND 2 ^ n \<noteq> 0 \<longleftrightarrow> bit a n" if "n < 64" for n
    using that by (simp add: bit_iff_and_push_bit_not_eq_0 push_bit_eq_mult)
  then show ?thesis
    by (simp add: bit_at_def p)
qed

lemma unat_page_align: "unat (page_align a s) = unat a div unat s * unat s"
  unfolding page_align_def by (subst unat_align_down) (rule minus_mod_eq_div_mult)

lemma page_align_le: "unat (page_align a s) \<le> unat a"
  by (simp only: unat_page_align div_times_less_eq_dividend)

lemma page_align_aligned: "unat s dvd unat (page_align a s)"
  by (simp only: unat_page_align dvd_triv_right)

lemma page_align_off: "unat (a - page_align a s) = unat a mod unat s"
  by (simp only: unat_sub_nowrap [OF page_align_le] unat_page_align minus_div_mult_eq_mod)

lemma page_align_id_iff: "page_align a s = a \<longleftrightarrow> unat s dvd unat a"
proof
  show "page_align a s = a \<Longrightarrow> unat s dvd unat a"
    using page_align_aligned [of s a] by simp
  show "unat s dvd unat a \<Longrightarrow> page_align a s = a"
    by (intro word_unat_eq_iff [THEN iffD2]) (simp only: unat_page_align dvd_div_mult_self)
qed

lemma page_align_idem [simp]: "page_align (page_align a s) s = page_align a s"
  by (simp add: page_align_id_iff page_align_aligned)

text \<open>The slot of a page in a table of \<open>n\<close> slots.\<close>

lemma unat_page_slot:
  assumes "page_size \<noteq> 0" and "n < 18446744073709551616"
  shows "unat ((page_align a page_size div page_size) mod of_nat n) = (unat a div unat page_size) mod n"
proof -
  have p: "0 < unat page_size" using assms(1) by (simp add: unat_gt_0)
  show ?thesis
    using p by (simp only: unat_mod_distrib unat_div_distrib unat_page_align unat_of_nat_64 [OF assms(2)]
      nonzero_mult_div_cancel_right)
qed

section \<open>Properties\<close>

text \<open>
  For bounds below 64 the mask of a bit range has a one at every position from the start
  to the end \<^emph>\<open>inclusive\<close> (the comment of \<open>bit_mask\<close> calls the end exclusive, and its doc
  test asserts the inclusive value), extraction keeps these bits of the address, testing one
  bit is extracting the range of that bit alone, and a negative bound panics.
\<close>

lemma extract_bits_inclusive:
  assumes "s < 64" and "e < 64"
  shows "\<exists>m x. bit_mask (int s) (int e) = Some m \<and> extract_bits a (int s) (int e) = Some x \<and>
     (\<forall>k. bit m k \<longleftrightarrow> s \<le> k \<and> k \<le> e) \<and>
     (\<forall>k. bit x k \<longleftrightarrow> s \<le> k \<and> k \<le> e \<and> bit a k) \<and>
     (s = e \<longrightarrow> (bit_at a (of_nat s) \<longleftrightarrow> x \<noteq> 0)) \<and>
     bit_mask (- 1) (int e) = None"
proof -
  let ?m = "bit_mask_u64 (of_nat s) (of_nat e)"
  have m: "bit ?m k \<longleftrightarrow> s \<le> k \<and> k \<le> e" for k
    using assms by (subst bit_bit_mask_u64) (simp_all add: unat_of_nat_64)
  have x: "bit (a AND ?m) k \<longleftrightarrow> s \<le> k \<and> k \<le> e \<and> bit a k" for k
    by (auto simp: bit_and_iff m)
  have one: "bit_at a (of_nat s) \<longleftrightarrow> a AND ?m \<noteq> 0" if "s = e"
  proof -
    have "unat (of_nat s :: u8) mod 64 = s"
      using assms(1) by (simp add: unat_of_nat)
    then have "bit_at a (of_nat s) \<longleftrightarrow> bit a s"
      by (simp add: bit_at_iff)
    moreover have "bit a s \<longleftrightarrow> a AND ?m \<noteq> 0"
      using x that by (metis bit_0_eq bot_apply bot_bool_def bit_eqI order.refl dual_order.antisym)
    ultimately show ?thesis by simp
  qed
  have "bit_mask (- 1) (int e) = None"
    by (cases "try_into_u64 (int e)") (simp_all add: bit_mask_def try_into_u64_def)
  with m x one show ?thesis
    using assms by (simp add: bit_mask_Some extract_bits_def as_u64_def)
qed

theorem extract_bits_inclusive_witness:
  "\<exists>m x. bit_mask (int 12) (int 20) = Some m \<and> extract_bits 0x123456 (int 12) (int 20) = Some x \<and>
     (\<forall>k. bit m k \<longleftrightarrow> 12 \<le> k \<and> k \<le> 20) \<and>
     (\<forall>k. bit x k \<longleftrightarrow> 12 \<le> k \<and> k \<le> 20 \<and> bit (0x123456 :: address) k)"
  using extract_bits_inclusive [of 12 20 "0x123456"] by auto

text \<open>
  Aligning an address to a page of non-zero size gives the largest multiple of the page
  size that is not above the address; a zero page size panics.
\<close>

lemma as_page_aligned_largest_multiple:
  "as_page_aligned a page_size =
     (if page_size = 0 then None
      else Some (of_nat (Max {m. m \<le> unat a \<and> unat page_size dvd m})))"
proof (cases "page_size = 0")
  case False
  then have pos: "0 < unat page_size" by (simp add: unat_gt_0)
  have "Max {m. m \<le> unat a \<and> unat page_size dvd m} = unat (page_align a page_size)"
  proof (rule Max_eqI)
    show "finite {m. m \<le> unat a \<and> unat page_size dvd m}" by simp
    show "unat (page_align a page_size) \<in> {m. m \<le> unat a \<and> unat page_size dvd m}"
      by (simp add: page_align_le page_align_aligned)
    fix m assume "m \<in> {m. m \<le> unat a \<and> unat page_size dvd m}"
    then obtain q where m: "m = unat page_size * q" "m \<le> unat a" by auto
    then have "q \<le> unat a div unat page_size"
      using pos by (simp add: less_eq_div_iff_mult_less_eq mult.commute)
    then show "m \<le> unat (page_align a page_size)"
      by (simp only: m(1) unat_page_align mult.commute [of _ q] mult_le_mono1)
  qed
  with False show ?thesis by (simp add: as_page_aligned_def)
qed (simp add: as_page_aligned_def)

end
