(* ===== verification/Split_Index.thy ===== *)
theory Split_Index
  imports Address_Ops
begin

text \<open>
  The trait \<open>SplitAtIndex\<close> of \<open>memflow/src/iter/page_chunks.rs\<close> and its implementations
  for \<open>usize\<close>, shared slices, exclusive slices and pairs of an address and a splittable
  value. A trait object is a record of its methods; a method that takes \<open>&mut self\<close>
  returns the value of \<open>self\<close> after the call as its last component. The locale
  \<open>split_index\<close> is the contract the clients rely on, proved for each implementation.
\<close>

section \<open>The trait\<close>

record 't split_ops =
  so_split_at :: "'t \<Rightarrow> usize \<Rightarrow> ('t \<times> 't option \<times> 't) option"
  so_split_inclusive_at :: "'t \<Rightarrow> usize \<Rightarrow> ('t \<times> 't option \<times> 't) option"
  so_unsplit :: "'t \<Rightarrow> 't \<Rightarrow> 't option \<Rightarrow> 't"
  so_length :: "'t \<Rightarrow> usize"
  so_size_hint :: "'t \<Rightarrow> usize"

text \<open>The methods with a default body.\<close>

definition default_split_inclusive_at ::
  "('t \<Rightarrow> usize \<Rightarrow> ('t \<times> 't option \<times> 't) option) \<Rightarrow> ('t \<Rightarrow> usize)
     \<Rightarrow> 't \<Rightarrow> usize \<Rightarrow> ('t \<times> 't option \<times> 't) option" where
  "default_split_inclusive_at split_at len self idx =
     (if idx = - 1 \<and> len self \<noteq> 0
      then do {
        (_, right, self') \<leftarrow> split_at self 0;
        right' \<leftarrow> right;
        Some (right', None, self')
      }
      else split_at self (idx + 1))"

definition split_at_rev ::
  "'t split_ops \<Rightarrow> 't \<Rightarrow> usize \<Rightarrow> ('t option \<times> 't \<times> 't) option" where
  "split_at_rev ops self idx = do {
     (left, right, self') \<leftarrow> so_split_inclusive_at ops self (so_length ops self - idx);
     right' \<leftarrow> right;
     Some (if so_length ops left = 0 then None else Some left, right', self')
   }"

definition default_unsplit :: "'t \<Rightarrow> 't \<Rightarrow> 't option \<Rightarrow> 't" where
  "default_unsplit self left right = self"

section \<open>Implementations\<close>

definition usize_split_inclusive_at :: "usize \<Rightarrow> usize \<Rightarrow> usize \<times> usize option" where
  "usize_split_inclusive_at self idx =
     (if self = 0 \<or> self - 1 \<le> idx then (self, None) else (idx + 1, Some (self - idx - 1)))"

definition usize_split_at :: "usize \<Rightarrow> usize \<Rightarrow> usize \<times> usize option" where
  "usize_split_at self idx = (if self \<le> idx then (self, None) else (idx, Some (self - idx)))"

definition usize_ops :: "usize split_ops" where
  "usize_ops = \<lparr>
     so_split_at = (\<lambda>self idx. let (l, r) = usize_split_at self idx in Some (l, r, self)),
     so_split_inclusive_at =
       (\<lambda>self idx. let (l, r) = usize_split_inclusive_at self idx in Some (l, r, self)),
     so_unsplit = default_unsplit,
     so_length = (\<lambda>self. self),
     so_size_hint = (\<lambda>self. 1)\<rparr>"

text \<open>Shared slices \<open>&[T]\<close>: the list of the elements.\<close>

definition len_usize :: "'a list \<Rightarrow> usize" where
  "len_usize xs = of_nat (length xs)"

definition slice_split_inclusive_at :: "'a list \<Rightarrow> usize \<Rightarrow> 'a list \<times> 'a list option" where
  "slice_split_inclusive_at self idx =
     (let mid = min (len_usize self) (min (len_usize self) idx + 1);
          left = take (unat mid) self; right = drop (unat mid) self
      in (left, if right = [] then None else Some right))"

definition slice_split_at :: "'a list \<Rightarrow> usize \<Rightarrow> 'a list \<times> 'a list option" where
  "slice_split_at self idx =
     (let mid = min (len_usize self) idx;
          left = take (unat mid) self; right = drop (unat mid) self
      in (left, if right = [] then None else Some right))"

definition slice_ops :: "'a list split_ops" where
  "slice_ops = \<lparr>
     so_split_at = (\<lambda>self idx. let (l, r) = slice_split_at self idx in Some (l, r, self)),
     so_split_inclusive_at =
       (\<lambda>self idx. let (l, r) = slice_split_inclusive_at self idx in Some (l, r, self)),
     so_unsplit = default_unsplit,
     so_length = len_usize,
     so_size_hint = len_usize\<rparr>"

text \<open>
  Exclusive slices \<open>&mut [T]\<close>: a pointer (an allocation and the index of an element in
  it) and a length. The elements live in the store of whoever owns the allocation.
\<close>

record mut_slice =
  ms_alloc :: nat
  ms_ptr :: nat
  ms_len :: usize

definition mut_slice_split_inclusive_at ::
  "mut_slice \<Rightarrow> usize \<Rightarrow> mut_slice \<times> mut_slice option" where
  "mut_slice_split_inclusive_at self idx =
     (let mid = min (ms_len self) (min (ms_len self) idx + 1)
      in (self\<lparr>ms_len := mid\<rparr>,
          if mid \<noteq> ms_len self
          then Some (self\<lparr>ms_ptr := ms_ptr self + unat mid, ms_len := ms_len self - mid\<rparr>)
          else None))"

definition mut_slice_split_at ::
  "mut_slice \<Rightarrow> usize \<Rightarrow> mut_slice \<times> mut_slice option" where
  "mut_slice_split_at self idx =
     (let mid = min (ms_len self) idx
      in (self\<lparr>ms_len := mid\<rparr>,
          if mid \<noteq> ms_len self
          then Some (self\<lparr>ms_ptr := ms_ptr self + unat mid, ms_len := ms_len self - mid\<rparr>)
          else None))"

definition mut_slice_ops :: "mut_slice split_ops" where
  "mut_slice_ops = \<lparr>
     so_split_at = (\<lambda>self idx. let (l, r) = mut_slice_split_at self idx in Some (l, r, self)),
     so_split_inclusive_at =
       (\<lambda>self idx. let (l, r) = mut_slice_split_inclusive_at self idx in Some (l, r, self)),
     so_unsplit = default_unsplit,
     so_length = ms_len,
     so_size_hint = ms_len\<rparr>"

text \<open>Pairs \<open>(Address, T)\<close>; the value keeps the splits of its second component.\<close>

definition pair_split ::
  "'t split_ops \<Rightarrow> ('t \<Rightarrow> usize \<Rightarrow> ('t \<times> 't option \<times> 't) option)
     \<Rightarrow> address \<times> 't \<Rightarrow> usize
     \<Rightarrow> ((address \<times> 't) \<times> (address \<times> 't) option \<times> (address \<times> 't)) option" where
  "pair_split ops split self idx = do {
     (left, right, t') \<leftarrow> split (snd self) idx;
     let left_len = so_length ops left;
     Some ((fst self, left),
           map_option (\<lambda>r. (address_add (fst self) left_len, r)) right,
           (fst self, t'))
   }"

definition pair_ops :: "'t split_ops \<Rightarrow> (address \<times> 't) split_ops" where
  "pair_ops ops = \<lparr>
     so_split_at = pair_split ops (so_split_at ops),
     so_split_inclusive_at = pair_split ops (so_split_inclusive_at ops),
     so_unsplit = default_unsplit,
     so_length = (\<lambda>self. so_length ops (snd self)),
     so_size_hint = (\<lambda>self. so_size_hint ops (snd self))\<rparr>"

section \<open>The contract\<close>

text \<open>
  A value stands for a sequence of cells. Splitting at an index cuts the sequence there; a
  right part is returned exactly when it is not empty; \<open>self\<close> is unchanged (the marker
  trait \<open>SplitAtIndexNoMutation\<close>). \<open>ok\<close> is what the type itself guarantees (a slice is
  shorter than the address space).
\<close>

definition split_result :: "('t \<Rightarrow> bool) \<Rightarrow> ('t \<Rightarrow> 'c list) \<Rightarrow> 't \<Rightarrow> nat \<Rightarrow>
    't \<times> 't option \<times> 't \<Rightarrow> bool" where
  "split_result ok cells x n r \<longleftrightarrow>
     (case r of (left, right, x') \<Rightarrow>
        x' = x \<and> ok left \<and> cells left = take n (cells x) \<and>
        (case right of
           None \<Rightarrow> length (cells x) \<le> n
         | Some t \<Rightarrow> ok t \<and> n < length (cells x) \<and> cells t = drop n (cells x)))"

locale split_index =
  fixes ops :: "'t split_ops"
    and ok :: "'t \<Rightarrow> bool"
    and cells :: "'t \<Rightarrow> 'c list"
  assumes length_cells: "ok x \<Longrightarrow> unat (so_length ops x) = length (cells x)"
    and split_at_cells:
      "ok x \<Longrightarrow> \<exists>r. so_split_at ops x i = Some r \<and> split_result ok cells x (unat i) r"
    and split_inclusive_cells:
      "ok x \<Longrightarrow> \<exists>r. so_split_inclusive_at ops x i = Some r \<and>
                   split_result ok cells x (Suc (unat i)) r"
    and unsplit_same: "so_unsplit ops x l r = x"
begin

lemma length_lt: "ok x \<Longrightarrow> length (cells x) < 18446744073709551616"
  using length_cells [of x] unat_lt_64 [of "so_length ops x"] by simp

lemma split_at_obtain:
  assumes "ok x"
  obtains l r where "so_split_at ops x i = Some (l, r, x)" "ok l"
    "cells l = take (unat i) (cells x)"
    "r = None \<longleftrightarrow> length (cells x) \<le> unat i"
    "\<forall>t. r = Some t \<longrightarrow> ok t \<and> cells t = drop (unat i) (cells x)"
  using split_at_cells [OF assms, of i]
  by (fastforce simp: split_result_def split: option.splits)

lemma split_inclusive_obtain:
  assumes "ok x"
  obtains l r where "so_split_inclusive_at ops x i = Some (l, r, x)" "ok l"
    "cells l = take (Suc (unat i)) (cells x)"
    "r = None \<longleftrightarrow> length (cells x) \<le> Suc (unat i)"
    "\<forall>t. r = Some t \<longrightarrow> ok t \<and> cells t = drop (Suc (unat i)) (cells x)"
  using split_inclusive_cells [OF assms, of i]
  by (fastforce simp: split_result_def split: option.splits)

text \<open>
  The reverse split leaves \<open>idx - 1\<close> cells on the right, so it panics when it is asked for
  less than two or for more than there are.
\<close>

lemma split_at_rev_cells:
  assumes "ok x" and "2 \<le> unat idx" and "unat idx \<le> length (cells x)"
  obtains l r where "split_at_rev ops x idx = Some (Some l, r, x)" "ok l" "ok r"
    "cells l = take (Suc (length (cells x) - unat idx)) (cells x)"
    "cells r = drop (Suc (length (cells x) - unat idx)) (cells x)"
proof -
  let ?i = "so_length ops x - idx"
  have i: "unat ?i = length (cells x) - unat idx"
    using assms(1,3) by (simp add: length_cells unat_sub_nowrap)
  obtain l r where s: "so_split_inclusive_at ops x ?i = Some (l, r, x)" "ok l"
    "cells l = take (Suc (unat ?i)) (cells x)"
    "r = None \<longleftrightarrow> length (cells x) \<le> Suc (unat ?i)"
    "\<forall>t. r = Some t \<longrightarrow> ok t \<and> cells t = drop (Suc (unat ?i)) (cells x)"
    by (rule split_inclusive_obtain [OF assms(1), of ?i])
  from s(4) assms(2,3) obtain t where t: "r = Some t"
    unfolding i by (cases r) auto
  have "unat (so_length ops l) \<noteq> 0"
    using assms(2,3) s(2,3) by (auto simp: length_cells)
  then have "so_length ops l \<noteq> 0" by auto
  with s t have "split_at_rev ops x idx = Some (Some l, t, x)"
    by (simp add: split_at_rev_def)
  with s t show ?thesis
    by (intro that [of l t]) (auto simp: i)
qed

end

section \<open>The implementations meet the contract\<close>

lemma unat_min: "unat (min (a :: u64) b) = min (unat a) (unat b)"
  by (simp add: min_def word_le_nat_alt)

definition usize_cells :: "usize \<Rightarrow> unit list" where
  "usize_cells n = replicate (unat n) ()"

interpretation usize_split: split_index usize_ops "\<lambda>_. True" usize_cells
proof
  fix x i :: usize
  show "unat (so_length usize_ops x) = length (usize_cells x)"
    by (simp add: usize_ops_def usize_cells_def)
  show "\<exists>r. so_split_at usize_ops x i = Some r \<and>
          split_result (\<lambda>_. True) usize_cells x (unat i) r"
    by (simp add: usize_ops_def usize_split_at_def split_result_def usize_cells_def Let_def
        word_le_nat_alt unat_sub_nowrap take_replicate drop_replicate)
  have u1: "x = 0 \<or> x - 1 \<le> i \<longleftrightarrow> unat x \<le> Suc (unat i)"
  proof (cases "x = 0")
    case False
    then have "0 < unat x" by (simp add: unat_gt_0)
    then have "unat (x - 1) = unat x - 1"
      by (subst unat_sub_nowrap) auto
    with False \<open>0 < unat x\<close> show ?thesis
      by (auto simp: word_le_nat_alt)
  qed simp
  have u2: "unat (x - i - 1) = unat x - Suc (unat i) \<and> unat (i + 1) = Suc (unat i)"
    if "\<not> unat x \<le> Suc (unat i)"
  proof -
    from that have "unat i + unat (1 :: u64) < 18446744073709551616"
      using unat_lt_64 [of x] by (simp del: unat_lt_64)
    from unat_add_nowrap [OF this] have s: "unat (i + 1) = Suc (unat i)" by simp
    have "unat (x - (i + 1)) = unat x - unat (i + 1)"
      using that s by (intro unat_sub_nowrap) simp
    then show ?thesis using s by (simp add: diff_diff_eq)
  qed
  show "\<exists>r. so_split_inclusive_at usize_ops x i = Some r \<and>
          split_result (\<lambda>_. True) usize_cells x (Suc (unat i)) r"
    using u2
    by (auto simp: usize_ops_def usize_split_inclusive_at_def u1 split_result_def
        usize_cells_def Let_def take_replicate drop_replicate simp del: replicate.simps)
  show "so_unsplit usize_ops x l r = x" for l r
    by (simp add: usize_ops_def default_unsplit_def)
qed

text \<open>A slice has at most \<open>isize::MAX\<close> elements.\<close>

definition slice_ok :: "'a list \<Rightarrow> bool" where
  "slice_ok xs \<longleftrightarrow> length xs < 9223372036854775808"

lemma unat_mid:
  assumes "n < 9223372036854775808"
  shows "unat (min (of_nat n) i :: usize) = min n (unat i)"
    and "unat (min (of_nat n) (min (of_nat n) i + 1) :: usize) = min n (Suc (unat i))"
proof -
  show m: "unat (min (of_nat n) i :: usize) = min n (unat i)" for i
    using assms by (simp add: unat_min unat_of_nat_64)
  have "unat (min (of_nat n) i + 1 :: u64) = Suc (min n (unat i))"
    using assms unat_Suc_64 [of "min (of_nat n) i"] by (simp add: m)
  then show "unat (min (of_nat n) (min (of_nat n) i + 1) :: usize) = min n (Suc (unat i))"
    using assms by (simp add: unat_min unat_of_nat_64)
qed

interpretation slice_split: split_index slice_ops slice_ok "\<lambda>xs. xs"
proof
  fix x :: "'a list" and i :: usize
  assume "slice_ok x"
  then have x: "length x < 9223372036854775808" by (simp add: slice_ok_def)
  then show "unat (so_length slice_ops x) = length x"
    by (simp add: slice_ops_def len_usize_def unat_of_nat_64)
  have cut: "split_result slice_ok (\<lambda>xs. xs) x n
      (take k x, if drop k x = [] then None else Some (drop k x), x)"
    if "k = min (length x) n" for k n
    using that x by (auto simp: split_result_def slice_ok_def min_def)
  show "\<exists>r. so_split_at slice_ops x i = Some r \<and> split_result slice_ok (\<lambda>xs. xs) x (unat i) r"
    using cut [OF unat_mid(1) [OF x, of i]]
    by (simp add: slice_ops_def slice_split_at_def len_usize_def Let_def)
  show "\<exists>r. so_split_inclusive_at slice_ops x i = Some r \<and>
          split_result slice_ok (\<lambda>xs. xs) x (Suc (unat i)) r"
    using cut [OF unat_mid(2) [OF x, of i]]
    by (simp add: slice_ops_def slice_split_inclusive_at_def len_usize_def Let_def)
next
  show "so_unsplit slice_ops x l r = x" for x l :: "'a list" and r
    by (simp add: slice_ops_def default_unsplit_def)
qed

text \<open>The cells of an exclusive slice are the places it points to.\<close>

definition mut_slice_cells :: "mut_slice \<Rightarrow> (nat \<times> nat) list" where
  "mut_slice_cells s = map (Pair (ms_alloc s)) [ms_ptr s..<ms_ptr s + unat (ms_len s)]"

definition mut_slice_ok :: "mut_slice \<Rightarrow> bool" where
  "mut_slice_ok s \<longleftrightarrow> unat (ms_len s) < 9223372036854775808"

interpretation mut_slice_split: split_index mut_slice_ops mut_slice_ok mut_slice_cells
proof
  fix x :: mut_slice and i :: usize
  assume "mut_slice_ok x"
  then have x: "unat (ms_len x) < 9223372036854775808" by (simp add: mut_slice_ok_def)
  show "unat (so_length mut_slice_ops x) = length (mut_slice_cells x)"
    by (simp add: mut_slice_ops_def mut_slice_cells_def)
  have cut: "split_result mut_slice_ok mut_slice_cells x n
      (x\<lparr>ms_len := m\<rparr>,
       if m \<noteq> ms_len x
       then Some (x\<lparr>ms_ptr := ms_ptr x + unat m, ms_len := ms_len x - m\<rparr>) else None, x)"
    if "unat m = min (unat (ms_len x)) n" for m n
  proof (cases "n < unat (ms_len x)")
    case True
    with that have m: "unat m = n" by simp
    with True have "m \<noteq> ms_len x" by auto
    with m True x show ?thesis
      by (simp add: split_result_def mut_slice_ok_def mut_slice_cells_def take_map drop_map unat_sub_nowrap)
  next
    case False
    with that have "m = ms_len x" by (simp add: word_unat_eq_iff)
    with False x show ?thesis
      by (simp add: split_result_def mut_slice_ok_def mut_slice_cells_def)
  qed
  show "\<exists>r. so_split_at mut_slice_ops x i = Some r \<and>
          split_result mut_slice_ok mut_slice_cells x (unat i) r"
    using cut [of "min (ms_len x) i" "unat i"]
    by (simp add: mut_slice_ops_def mut_slice_split_at_def Let_def unat_min)
  have "unat (min (ms_len x) (min (ms_len x) i + 1)) = min (unat (ms_len x)) (Suc (unat i))"
    using unat_mid(2) [OF x, of i] by simp
  then show "\<exists>r. so_split_inclusive_at mut_slice_ops x i = Some r \<and>
          split_result mut_slice_ok mut_slice_cells x (Suc (unat i)) r"
    using cut [of "min (ms_len x) (min (ms_len x) i + 1)" "Suc (unat i)"]
    by (simp add: mut_slice_ops_def mut_slice_split_inclusive_at_def Let_def)
next
  show "so_unsplit mut_slice_ops x l r = x" for x l r
    by (simp add: mut_slice_ops_def default_unsplit_def)
qed

text \<open>The cells of a pair are the cells of its value, each at its own address.\<close>

primrec addr_cells :: "address \<Rightarrow> 'c list \<Rightarrow> (address \<times> 'c) list" where
  "addr_cells a [] = []"
| "addr_cells a (c # cs) = (a, c) # addr_cells (a + 1) cs"

lemma length_addr_cells [simp]: "length (addr_cells a cs) = length cs"
  by (induction cs arbitrary: a) auto

lemma take_addr_cells: "take n (addr_cells a cs) = addr_cells a (take n cs)"
  by (induction cs arbitrary: a n) (auto simp: take_Cons split: nat.splits)

lemma drop_addr_cells: "drop n (addr_cells a cs) = addr_cells (a + of_nat n) (drop n cs)"
  by (induction cs arbitrary: a n) (auto simp: drop_Cons algebra_simps split: nat.splits)

lemma addr_cells_nth: "k < length cs \<Longrightarrow> addr_cells a cs ! k = (a + of_nat k, cs ! k)"
  by (induction cs arbitrary: a k) (auto simp: nth_Cons algebra_simps split: nat.splits)

lemma addr_cells_append:
  "addr_cells a (xs @ ys) = addr_cells a xs @ addr_cells (a + of_nat (length xs)) ys"
  by (induction xs arbitrary: a) (auto simp: algebra_simps)

definition pair_cells :: "('t \<Rightarrow> 'c list) \<Rightarrow> address \<times> 't \<Rightarrow> (address \<times> 'c) list" where
  "pair_cells cells p = addr_cells (fst p) (cells (snd p))"

definition pair_ok :: "('t \<Rightarrow> bool) \<Rightarrow> address \<times> 't \<Rightarrow> bool" where
  "pair_ok ok p \<longleftrightarrow> ok (snd p)"

context split_index
begin

lemma pair_split_result:
  assumes x: "ok (snd x)" and r: "split (snd x) i = Some r" and s: "split_result ok cells (snd x) n r"
  shows "\<exists>r. pair_split ops split x i = Some r \<and>
           split_result (pair_ok ok) (pair_cells cells) x n r"
proof -
  obtain l t where lt: "r = (l, t, snd x)" "ok l" "cells l = take n (cells (snd x))"
    using s by (cases r) (auto simp: split_result_def)
  have l: "unat (so_length ops l) = min (length (cells (snd x))) n"
    using lt by (simp add: length_cells)
  have "so_length ops l = of_nat n" if "n < length (cells (snd x))"
    using l that length_lt [of "snd x"] x by (simp add: word_unat_eq_iff unat_of_nat_64)
  then show ?thesis
    using s r lt
    by (auto simp: pair_split_def split_result_def pair_ok_def pair_cells_def address_add_def
        take_addr_cells drop_addr_cells split: option.splits)
qed

lemma split_index_pair: "split_index (pair_ops ops) (pair_ok ok) (pair_cells cells)"
proof
  fix x i
  assume "pair_ok ok x"
  then have x: "ok (snd x)" by (simp add: pair_ok_def)
  then show "unat (so_length (pair_ops ops) x) = length (pair_cells cells x)"
    by (simp add: pair_ops_def pair_cells_def length_cells)
  show "\<exists>r. so_split_at (pair_ops ops) x i = Some r \<and>
          split_result (pair_ok ok) (pair_cells cells) x (unat i) r"
    using split_at_cells [OF x, of i] pair_split_result [OF x, of "so_split_at ops" i]
    by (fastforce simp: pair_ops_def)
  show "\<exists>r. so_split_inclusive_at (pair_ops ops) x i = Some r \<and>
          split_result (pair_ok ok) (pair_cells cells) x (Suc (unat i)) r"
    using split_inclusive_cells [OF x, of i]
      pair_split_result [OF x, of "so_split_inclusive_at ops" i]
    by (fastforce simp: pair_ops_def)
next
  show "so_unsplit (pair_ops ops) x l r = x" for x l r
    by (simp add: pair_ops_def default_unsplit_def)
qed

end

interpretation pair_usize_split:
  split_index "pair_ops usize_ops" "pair_ok (\<lambda>_. True)" "pair_cells usize_cells"
  by (rule usize_split.split_index_pair)

interpretation pair_slice_split:
  split_index "pair_ops slice_ops" "pair_ok slice_ok" "pair_cells (\<lambda>xs. xs)"
  by (rule slice_split.split_index_pair)

end
