(* ===== verification/Page_Chunks.thy ===== *)
theory Page_Chunks
  imports Split_Index
begin

text \<open>
  \<open>PageChunkIterator\<close> of \<open>memflow/src/iter/page_chunks.rs\<close> and the trait \<open>PageChunks\<close>
  of \<open>memflow/src/iter/mod.rs\<close>: cutting a splittable value at the page boundaries of the
  addresses it lies at. The split check is a closure with a state of its own. The lemmas
  give the refinement to \<open>page_split\<close>, the cutting of a list at multiples of the page
  size.
\<close>

section \<open>The iterator\<close>

record ('t, 's) page_chunk_iter =
  pci_v :: "'t option"
  pci_cur_address :: address
  pci_page_size :: usize
  pci_check :: 's
  pci_cur_off :: usize

type_synonym ('t, 's) split_check = "'s \<Rightarrow> address \<Rightarrow> 't \<Rightarrow> 't option \<Rightarrow> bool \<times> 's"

definition pci_new :: "'t \<Rightarrow> address \<Rightarrow> usize \<Rightarrow> 's \<Rightarrow> ('t, 's) page_chunk_iter" where
  "pci_new buf start_address page_size s = \<lparr>
     pci_v = Some buf, pci_cur_address = start_address, pci_page_size = page_size,
     pci_check = s, pci_cur_off = 0\<rparr>"

definition pci_end_len :: "('t, 's) page_chunk_iter \<Rightarrow> usize option" where
  "pci_end_len it = do {
     a \<leftarrow> as_page_aligned
            (address_from_u64 (as_u64 (pci_cur_address it) + pci_page_size it))
            (pci_page_size it);
     Some (as_usize a - as_usize (pci_cur_address it) - 1 + pci_cur_off it)
   }"

text \<open>The \<open>loop\<close> of \<open>next\<close>: it goes on while the check refuses to split.\<close>

partial_function (option) pci_loop ::
  "'t split_ops \<Rightarrow> ('t, 's) split_check \<Rightarrow> ('t, 's) page_chunk_iter \<Rightarrow> 't
     \<Rightarrow> ((address \<times> 't) \<times> ('t, 's) page_chunk_iter) option" where
  "pci_loop ops chk it buf =
     Option.bind (pci_end_len it) (\<lambda>end_len.
     Option.bind (so_split_inclusive_at ops buf end_len) (\<lambda>(head, tail, buf').
       let (split, s') =
             (if tail = None then (True, pci_check it)
              else chk (pci_check it) (pci_cur_address it) head tail)
       in if \<not> split
          then pci_loop ops chk (it\<lparr>pci_check := s', pci_cur_off := end_len + 1\<rparr>)
                 (so_unsplit ops buf' head tail)
          else Some ((pci_cur_address it, head),
                 it\<lparr>pci_v := tail, pci_check := s',
                    pci_cur_address := address_from_usize (as_usize (pci_cur_address it) + (end_len + 1)),
                    pci_cur_off := 0\<rparr>)))"

declare pci_loop.simps [code]

definition pci_next ::
  "'t split_ops \<Rightarrow> ('t, 's) split_check \<Rightarrow> ('t, 's) page_chunk_iter
     \<Rightarrow> ((address \<times> 't) option \<times> ('t, 's) page_chunk_iter) option" where
  "pci_next ops chk it =
     (case pci_v it of
        Some buf \<Rightarrow> do {
          (ret, it') \<leftarrow> pci_loop ops chk (it\<lparr>pci_v := None\<rparr>) buf;
          Some (Some ret, it')
        }
      | None \<Rightarrow> Some (None, it))"

definition pci_size_hint :: "'t split_ops \<Rightarrow> ('t, 's) page_chunk_iter \<Rightarrow> usize option" where
  "pci_size_hint ops it =
     (case pci_v it of
        Some buf \<Rightarrow> do {
          l \<leftarrow> as_page_aligned (address_add (pci_cur_address it) (so_size_hint ops buf) - 1)
                 (pci_page_size it);
          f \<leftarrow> as_page_aligned (pci_cur_address it) (pci_page_size it);
          Some (address_sub_addr l f div pci_page_size it + 1)
        }
      | None \<Rightarrow> Some 0)"

text \<open>\<open>TrueFunc\<close>: the check of \<open>page_chunks\<close>, which always splits.\<close>

definition true_func :: "('t, unit) split_check" where
  "true_func s addr head tail = (True, s)"

definition page_chunks :: "'t \<Rightarrow> address \<Rightarrow> usize \<Rightarrow> ('t, unit) page_chunk_iter" where
  "page_chunks self start_address page_size = pci_new self start_address page_size ()"

definition page_chunks_by :: "'t \<Rightarrow> address \<Rightarrow> usize \<Rightarrow> 's \<Rightarrow> ('t, 's) page_chunk_iter" where
  "page_chunks_by self start_address page_size split_fn =
     pci_new self start_address page_size split_fn"

text \<open>All chunks, the iterator driven to its end.\<close>

definition page_chunks_list ::
  "'t split_ops \<Rightarrow> 't \<Rightarrow> address \<Rightarrow> usize \<Rightarrow> (address \<times> 't) list option" where
  "page_chunks_list ops self start_address page_size =
     collect (pci_next ops true_func) (page_chunks self start_address page_size)"

definition page_chunks_by_list ::
  "'t split_ops \<Rightarrow> ('t, 's) split_check \<Rightarrow> 't \<Rightarrow> address \<Rightarrow> usize \<Rightarrow> 's
     \<Rightarrow> (address \<times> 't) list option" where
  "page_chunks_by_list ops chk self start_address page_size s =
     collect (pci_next ops chk) (page_chunks_by self start_address page_size s)"

section \<open>Cutting a list at page boundaries\<close>

text \<open>The bytes from an address to the end of its page.\<close>

definition page_room :: "nat \<Rightarrow> nat \<Rightarrow> nat" where
  "page_room p a = p - a mod p"

lemma page_room:
  assumes "0 < p"
  shows "0 < page_room p a" "page_room p a \<le> p" "a mod p + page_room p a = p"
    "a + page_room p a = Suc (a div p) * p" "p dvd a + page_room p a"
proof -
  have l: "a mod p < p" using assms by simp
  then show "0 < page_room p a" "page_room p a \<le> p" "a mod p + page_room p a = p"
    by (auto simp: page_room_def)
  have "a = a div p * p + a mod p" by simp
  with \<open>a mod p + page_room p a = p\<close> show e: "a + page_room p a = Suc (a div p) * p"
    by (metis add.assoc add.commute mult_Suc)
  show "p dvd a + page_room p a" by (simp only: e dvd_triv_right)
qed

function page_split :: "nat \<Rightarrow> nat \<Rightarrow> 'c list \<Rightarrow> (nat \<times> 'c list) list" where
  "page_split p a cs =
     (if p = 0 \<or> length cs \<le> page_room p a then [(a, cs)]
      else (a, take (page_room p a) cs) # page_split p (a + page_room p a) (drop (page_room p a) cs))"
  by pat_completeness auto
termination
proof (relation "measure (\<lambda>(p, a, cs). length cs)", goal_cases)
  case (2 p a cs)
  then show ?case using page_room(1) [of p a] by auto
qed simp

declare page_split.simps [simp del]

lemma page_split_last: "length cs \<le> page_room p a \<Longrightarrow> page_split p a cs = [(a, cs)]"
  by (subst page_split.simps) simp

lemma page_split_more:
  "0 < p \<Longrightarrow> page_room p a < length cs \<Longrightarrow>
     page_split p a cs = (a, take (page_room p a) cs)
       # page_split p (a + page_room p a) (drop (page_room p a) cs)"
  by (subst page_split.simps) simp

text \<open>Induction over the cutting, with the two equations at hand.\<close>

lemma page_split_induct [consumes 1, case_names last more]:
  assumes "0 < p"
    and "\<And>a cs. length cs \<le> page_room p a \<Longrightarrow> page_split p a cs = [(a, cs)] \<Longrightarrow> P a cs"
    and "\<And>a cs. page_room p a < length cs \<Longrightarrow>
           page_split p a cs = (a, take (page_room p a) cs)
             # page_split p (a + page_room p a) (drop (page_room p a) cs) \<Longrightarrow>
           P (a + page_room p a) (drop (page_room p a) cs) \<Longrightarrow> P a cs"
  shows "P a cs"
proof -
  have "0 < q \<Longrightarrow> q = p \<Longrightarrow> P a cs" for q
  proof (induction q a cs rule: page_split.induct)
    case (1 q a cs)
    then show ?case
      using assms(2) [of cs a] assms(3) [of a cs] page_split_last [of cs p a]
        page_split_more [of p a cs]
      by (cases "length cs \<le> page_room p a") auto
  qed
  with assms(1) show ?thesis by blast
qed

lemma page_split_concat: "0 < p \<Longrightarrow> concat (map snd (page_split p a cs)) = cs"
  by (induction a cs rule: page_split_induct) auto

lemma page_split_nonempty:
  assumes p: "0 < p"
  shows "cs \<noteq> [] \<longrightarrow> (b, bs) \<in> set (page_split p a cs) \<longrightarrow> bs \<noteq> []"
  using p
proof (induction a cs rule: page_split_induct)
  case (more a cs)
  with page_room(1) [OF \<open>0 < p\<close>, of a] show ?case by auto
qed simp

lemma page_split_page:
  assumes p: "0 < p"
  shows "(b, bs) \<in> set (page_split p a cs) \<longrightarrow> b mod p + length bs \<le> p"
  using p
proof (induction a cs rule: page_split_induct)
  case (last a cs)
  with page_room(3) [OF \<open>0 < p\<close>, of a] show ?case by auto
next
  case (more a cs)
  with page_room(3) [OF \<open>0 < p\<close>, of a] show ?case by auto
qed

lemma page_split_hd: "0 < p \<Longrightarrow> \<exists>bs rest. page_split p a cs = (a, bs) # rest"
  by (cases "length cs \<le> page_room p a") (simp_all add: page_split_last page_split_more)

lemma page_split_aligned:
  assumes p: "0 < p"
  shows "(b, bs) \<in> set (tl (page_split p a cs)) \<longrightarrow> p dvd b"
  using p
proof (induction a cs rule: page_split_induct)
  case (more a cs)
  obtain bs' rest where
    "page_split p (a + page_room p a) (drop (page_room p a) cs) = (a + page_room p a, bs') # rest"
    using page_split_hd [OF \<open>0 < p\<close>] by blast
  with more page_room(5) [OF \<open>0 < p\<close>, of a] show ?case by auto
qed simp

lemma page_split_addrs:
  assumes p: "0 < p"
  shows "\<forall>i < length (page_split p a cs).
     fst (page_split p a cs ! i) = a + length (concat (map snd (take i (page_split p a cs))))"
  using p
proof (induction a cs rule: page_split_induct)
  case (more a cs)
  then show ?case
    by (auto simp: nth_Cons take_Cons split: nat.split)
qed simp

lemma page_split_length:
  assumes p: "0 < p"
  shows "cs \<noteq> [] \<longrightarrow>
     length (page_split p a cs) = Suc ((a + length cs - 1) div p - a div p)"
  using p
proof (induction a cs rule: page_split_induct)
  case (last a cs)
  show ?case
  proof
    assume "cs \<noteq> []"
    with last(1) page_room(4) [OF \<open>0 < p\<close>, of a]
    have "a + length cs - 1 < Suc (a div p) * p" "a \<le> a + length cs - 1"
      by (cases cs; auto)+
    then have "(a + length cs - 1) div p = a div p"
      by (metis div_le_mono less_Suc_eq_le less_mult_imp_div_less order.antisym)
    with last show "length (page_split p a cs) = Suc ((a + length cs - 1) div p - a div p)"
      by simp
  qed
next
  case (more a cs)
  have k: "a + page_room p a = Suc (a div p) * p"
    by (rule page_room(4) [OF \<open>0 < p\<close>])
  have "length (page_split p (a + page_room p a) (drop (page_room p a) cs))
      = Suc ((a + length cs - 1) div p - Suc (a div p))"
  proof -
    have "a + page_room p a + length (drop (page_room p a) cs) - 1 = a + length cs - 1"
      and "drop (page_room p a) cs \<noteq> []"
      using more(1) by auto
    moreover have "(a + page_room p a) div p = Suc (a div p)"
      unfolding k using \<open>0 < p\<close> by (intro nonzero_mult_div_cancel_right) simp
    ultimately show ?thesis
      using more(3) by simp
  qed
  moreover have "Suc (a div p) * p \<le> a + length cs - 1"
    using more(1) k by linarith
  then have "Suc (a div p) \<le> (a + length cs - 1) div p"
    using \<open>0 < p\<close> by (metis div_le_mono nonzero_mult_div_cancel_right not_gr_zero)
  then have "Suc ((a + length cs - 1) div p - Suc (a div p)) = (a + length cs - 1) div p - a div p"
    by linarith
  ultimately show ?case
    using more(2) by simp
qed

section \<open>The iterator refines the cutting\<close>

text \<open>
  The page size divides the address space, or the pages above the address end below its end.
\<close>

definition pages_fit :: "nat \<Rightarrow> nat \<Rightarrow> bool" where
  "pages_fit p a \<longleftrightarrow> 0 < p \<and> (p dvd 18446744073709551616 \<or> a + p < 18446744073709551616)"

lemma unat_pci_end_len:
  assumes fit: "pages_fit (unat p) (unat a)"
    and it: "pci_page_size it = p" "pci_cur_address it = a" "pci_cur_off it = 0"
  obtains e where "pci_end_len it = Some e" "Suc (unat e) = page_room (unat p) (unat a)"
proof -
  have p: "0 < unat p" "p \<noteq> 0" using fit by (auto simp: pages_fit_def)
  note r = page_room [OF p(1), of "unat a"]
  let ?al = "page_align (a + p) p"
  have some: "pci_end_len it = Some (?al - a - 1)"
    using p by (simp add: pci_end_len_def it as_page_aligned_def address_from_u64_def as_u64_def
        as_usize_def)
  have "unat (?al - a - 1) = page_room (unat p) (unat a) - 1"
  proof (cases "unat a + unat p < 18446744073709551616")
    case True
    then have al: "unat ?al = unat a + page_room (unat p) (unat a)"
    proof -
      have "unat p \<noteq> 0" using p(1) by simp
      then have "(unat a + unat p) div unat p = Suc (unat a div unat p)"
        using div_add_self2 [of "unat p" "unat a"] by linarith
      then show ?thesis
        by (simp only: unat_page_align unat_add_nowrap [OF True] r(4))
    qed
    then have "unat (?al - a) = page_room (unat p) (unat a)"
      by (simp add: unat_sub_nowrap)
    then show ?thesis
      using r(1) by (subst unat_sub_nowrap) auto
  next
    case False
    with fit have d: "unat p dvd 18446744073709551616" by (simp add: pages_fit_def)
    from False have w: "unat (a + p) = unat a + unat p - 18446744073709551616"
      by (intro unat_add_wrap) simp
    then have "unat (a + p) < unat p"
      using unat_lt_64 [of a] False by linarith
    then have al: "?al = 0"
      by (simp add: word_unat_eq_iff unat_page_align)
    have "unat a + page_room (unat p) (unat a) = 18446744073709551616"
    proof -
      obtain q where q: "18446744073709551616 = unat p * q" using d by blast
      have "unat a < q * unat p"
        using unat_lt_64 [of a] q by (simp only: mult.commute)
      then have "unat a div unat p < q"
        using p(1) by (simp only: div_less_iff_less_mult)
      moreover have "(q - 1) * unat p \<le> unat a"
      proof -
        have "(q - 1) * unat p = 18446744073709551616 - unat p"
          by (simp only: q diff_mult_distrib mult.commute [of q] nat_mult_1)
        with False show ?thesis by linarith
      qed
      then have "q - 1 \<le> unat a div unat p"
        using p(1) by (simp only: less_eq_div_iff_mult_less_eq)
      ultimately have "Suc (unat a div unat p) = q" by linarith
      with r(4) q show ?thesis by (simp only: mult.commute)
    qed
    then have *: "page_room (unat p) (unat a) = 18446744073709551616 - unat a"
      using unat_lt_64 [of a] by linarith
    have "?al - a - 1 = (- 1) - a"
      unfolding al by simp
    then have "unat (?al - a - 1) = 18446744073709551615 - unat a"
      using unat_le_64 [of a] by (simp only:) (subst unat_sub_nowrap, simp_all)
    then show ?thesis
      unfolding * by simp
  qed
  with r(1) have "Suc (unat (?al - a - 1)) = page_room (unat p) (unat a)" by simp
  with some that show ?thesis by blast
qed

text \<open>A step of \<open>page_chunks\<close> is one split.\<close>

lemma pci_next_true:
  fixes it :: "('t, unit) page_chunk_iter"
  assumes "pci_v it = Some buf" and "pci_end_len it = Some e"
    and "so_split_inclusive_at ops buf e = Some (l, r, buf')"
  shows "pci_next ops true_func it = Some (Some (pci_cur_address it, l),
     it\<lparr>pci_v := r, pci_cur_address := pci_cur_address it + (e + 1), pci_cur_off := 0\<rparr>)"
proof -
  have e: "pci_end_len (it\<lparr>pci_v := None\<rparr>) = Some e"
    using assms(2) by (simp add: pci_end_len_def)
  have "pci_loop ops true_func (it\<lparr>pci_v := None\<rparr>) buf = Some ((pci_cur_address it, l),
     it\<lparr>pci_v := r, pci_cur_address := pci_cur_address it + (e + 1), pci_cur_off := 0\<rparr>)"
    by (subst pci_loop.simps)
      (simp add: e assms(3) true_func_def address_from_usize_def as_usize_def)
  then show ?thesis
    by (simp add: pci_next_def assms(1))
qed

lemma page_chunks_list_step:
  assumes "pci_end_len (page_chunks buf a p) = Some e"
    and "so_split_inclusive_at ops buf e = Some (l, r, buf')"
  shows "page_chunks_list ops buf a p =
     (case r of None \<Rightarrow> Some [(a, l)]
      | Some t \<Rightarrow> map_option (Cons (a, l)) (page_chunks_list ops t (a + (e + 1)) p))"
proof -
  have it: "(page_chunks buf a p)\<lparr>pci_v := r, pci_cur_address := a + (e + 1), pci_cur_off := 0\<rparr>
      = (case r of None \<Rightarrow> (page_chunks buf a p)\<lparr>pci_v := None, pci_cur_address := a + (e + 1)\<rparr>
         | Some t \<Rightarrow> page_chunks t (a + (e + 1)) p)"
    by (simp add: page_chunks_def pci_new_def split: option.split)
  have nx: "pci_next ops true_func (page_chunks buf a p) = Some (Some (a, l),
      (page_chunks buf a p)\<lparr>pci_v := r, pci_cur_address := a + (e + 1), pci_cur_off := 0\<rparr>)"
    using pci_next_true [where it = "page_chunks buf a p", OF _ assms]
    by (simp add: page_chunks_def pci_new_def)
  show ?thesis
  proof (cases r)
    case None
    then show ?thesis
      using nx unfolding it page_chunks_list_def
      by (auto intro!: collect_step collect_done simp: pci_next_def)
  next
    case (Some t)
    then show ?thesis
      using nx unfolding it page_chunks_list_def
      by (subst collect.simps) (cases "collect (pci_next ops true_func) (page_chunks t (a + (e + 1)) p)"; simp)
  qed
qed

text \<open>What \<open>collect\<close> returns, read as numbers and cells.\<close>

definition chunk_view :: "('t \<Rightarrow> 'c list) \<Rightarrow> address \<times> 't \<Rightarrow> nat \<times> 'c list" where
  "chunk_view cells ch = (unat (fst ch), cells (snd ch))"

context split_index
begin

lemma pci_next_step:
  assumes fit: "pages_fit (unat p) (unat a)" and buf: "ok buf"
    and it: "it = \<lparr>pci_v = Some buf, pci_cur_address = a, pci_page_size = p, pci_check = (),
                  pci_cur_off = 0\<rparr>"
  obtains l r e where
    "pci_next ops true_func it = Some (Some (a, l), it\<lparr>pci_v := r, pci_cur_address := a + (e + 1)\<rparr>)"
    "ok l" "cells l = take (page_room (unat p) (unat a)) (cells buf)"
    "Suc (unat e) = page_room (unat p) (unat a)"
    "r = None \<longleftrightarrow> length (cells buf) \<le> page_room (unat p) (unat a)"
    "\<forall>t. r = Some t \<longrightarrow> ok t \<and> cells t = drop (page_room (unat p) (unat a)) (cells buf)"
proof -
  let ?it = "\<lparr>pci_v = None, pci_cur_address = a, pci_page_size = p, pci_check = (),
               pci_cur_off = 0\<rparr> :: ('t, unit) page_chunk_iter"
  obtain e where e: "pci_end_len ?it = Some e" "Suc (unat e) = page_room (unat p) (unat a)"
    by (rule unat_pci_end_len [OF fit, of ?it]) simp_all
  obtain l r where s: "so_split_inclusive_at ops buf e = Some (l, r, buf)" "ok l"
    "cells l = take (Suc (unat e)) (cells buf)"
    "r = None \<longleftrightarrow> length (cells buf) \<le> Suc (unat e)"
    "\<forall>t. r = Some t \<longrightarrow> ok t \<and> cells t = drop (Suc (unat e)) (cells buf)"
    by (rule split_inclusive_obtain [OF buf, of e])
  have "pci_loop ops true_func ?it buf
      = Some ((a, l), it\<lparr>pci_v := r, pci_cur_address := a + (e + 1)\<rparr>)"
    by (subst pci_loop.simps)
      (simp add: e(1) s(1) true_func_def it address_from_usize_def as_usize_def)
  then have "pci_next ops true_func it
      = Some (Some (a, l), it\<lparr>pci_v := r, pci_cur_address := a + (e + 1)\<rparr>)"
    by (simp add: pci_next_def it)
  with s e show ?thesis by (intro that) (simp_all only:)
qed

lemma page_chunks_collect:
  assumes fit: "\<forall>b. unat a \<le> b \<and> b < unat a + length cs \<or> b = unat a \<longrightarrow> pages_fit (unat p) b"
    and top: "unat a + length cs \<le> 18446744073709551616"
    and buf: "ok buf" "cells buf = cs"
  shows "\<exists>chunks. page_chunks_list ops buf a p = Some chunks \<and>
           map (chunk_view cells) chunks = page_split (unat p) (unat a) cs \<and>
           (\<forall>ch \<in> set chunks. ok (snd ch))"
  using fit top buf
proof (induction "length cs" arbitrary: a cs buf rule: less_induct)
  case less
  let ?n = "page_room (unat p) (unat a)"
  let ?it = "page_chunks buf a p"
  have p: "0 < unat p" and fa: "pages_fit (unat p) (unat a)"
    using less.prems(1) by (auto simp: pages_fit_def)
  obtain l r e where nx:
    "pci_next ops true_func ?it = Some (Some (a, l), ?it\<lparr>pci_v := r, pci_cur_address := a + (e + 1)\<rparr>)"
    "ok l" "cells l = take ?n cs" "Suc (unat e) = ?n"
    "r = None \<longleftrightarrow> length cs \<le> ?n"
    "\<forall>t. r = Some t \<longrightarrow> ok t \<and> cells t = drop ?n cs"
    by (rule pci_next_step [OF fa less.prems(3), of ?it])
      (auto simp: page_chunks_def pci_new_def less.prems(4))
  show ?case
  proof (cases r)
    case None
    have "pci_next ops true_func (?it\<lparr>pci_v := r, pci_cur_address := a + (e + 1)\<rparr>)
        = Some (None, ?it\<lparr>pci_v := r, pci_cur_address := a + (e + 1)\<rparr>)"
      by (simp add: pci_next_def None)
    then have "page_chunks_list ops buf a p = Some [(a, l)]"
      unfolding page_chunks_list_def using nx(1) by (blast intro: collect_step collect_done)
    with None nx show ?thesis
      by (simp add: chunk_view_def page_split_last)
  next
    case (Some t)
    with nx have n: "?n < length cs" and t: "ok t" "cells t = drop ?n cs" by auto
    have next_it: "?it\<lparr>pci_v := r, pci_cur_address := a + (e + 1)\<rparr> = page_chunks t (a + (e + 1)) p"
      by (simp add: Some page_chunks_def pci_new_def)
    have e1: "unat (e + 1) = ?n"
      using nx(4) n less.prems(2) by (subst unat_Suc_64) auto
    have a': "unat (a + (e + 1)) = unat a + ?n"
      using n less.prems(2) e1 by (subst unat_add_nowrap) auto
    have len: "length (drop ?n cs) < length cs"
      using n nx(4) by auto
    obtain chunks where ch:
      "page_chunks_list ops t (a + (e + 1)) p = Some chunks"
      "map (chunk_view cells) chunks = page_split (unat p) (unat a + ?n) (drop ?n cs)"
      "\<forall>ch \<in> set chunks. ok (snd ch)"
      using less.hyps [OF len, of "a + (e + 1)" t] less.prems(1,2) n t a' by auto
    have "page_chunks_list ops buf a p = Some ((a, l) # chunks)"
      using nx(1) ch(1) unfolding page_chunks_list_def next_it by (rule collect_step)
    with ch nx n p show ?thesis
      by (simp add: chunk_view_def page_split_more)
  qed
qed

end

section \<open>Properties\<close>

text \<open>
  C5. Page chunks, for every type that meets the \<open>SplitAtIndex\<close> contract: the iteration ends
  without a panic, the chunks put together are the buffer, chunk addresses continue one
  another from the start address, no chunk crosses a page boundary, every chunk but the
  first starts at one, and only an empty buffer has an empty chunk. This holds when the
  pages of the buffer end below the end of the address space, or the page size divides it.
\<close>

theorem page_chunks_correct:
  assumes "split_index ops ok cells" and "ok buf" and "page_size \<noteq> 0"
    and "unat start + length (cells buf) + unat page_size < 18446744073709551616 \<or>
         unat page_size dvd 18446744073709551616 \<and>
         unat start + length (cells buf) \<le> 18446744073709551616"
  shows "\<exists>chunks. page_chunks_list ops buf start page_size = Some chunks \<and>
     concat (map (\<lambda>ch. cells (snd ch)) chunks) = cells buf \<and>
     (\<forall>i < length chunks. unat (fst (chunks ! i)) =
        unat start + length (concat (map (\<lambda>ch. cells (snd ch)) (take i chunks)))) \<and>
     (\<forall>ch \<in> set chunks.
        unat (fst ch) mod unat page_size + length (cells (snd ch)) \<le> unat page_size) \<and>
     (\<forall>ch \<in> set (tl chunks). unat page_size dvd unat (fst ch)) \<and>
     (cells buf \<noteq> [] \<longrightarrow> (\<forall>ch \<in> set chunks. cells (snd ch) \<noteq> []))"
proof -
  let ?p = "unat page_size" and ?cs = "cells buf"
  have p: "0 < ?p" using assms(3) by (simp add: unat_gt_0)
  have "\<forall>b. unat start \<le> b \<and> b < unat start + length ?cs \<or> b = unat start \<longrightarrow> pages_fit ?p b"
    using assms(4) p by (auto simp: pages_fit_def)
  moreover have "unat start + length ?cs \<le> 18446744073709551616"
    using assms(4) by auto
  ultimately obtain chunks where ch: "page_chunks_list ops buf start page_size = Some chunks"
    and v: "map (chunk_view cells) chunks = page_split ?p (unat start) ?cs"
    using split_index.page_chunks_collect [OF assms(1) _ _ assms(2) refl] by blast
  have cells: "map (\<lambda>ch. cells (snd ch)) xs = map snd (map (chunk_view cells) xs)" for xs
    by (simp add: chunk_view_def)
  have mem: "ch \<in> set xs \<Longrightarrow> chunk_view cells ch \<in> set (map (chunk_view cells) xs)" for ch xs
    by simp
  have "unat (fst (chunks ! i)) =
        unat start + length (concat (map (\<lambda>ch. cells (snd ch)) (take i chunks)))"
    if "i < length chunks" for i
    using page_split_addrs [OF p, of "unat start" ?cs] that
    unfolding cells v [symmetric] by (simp add: take_map) (simp add: chunk_view_def)
  moreover have "unat (fst ch) mod ?p + length (cells (snd ch)) \<le> ?p \<and>
      (?cs \<noteq> [] \<longrightarrow> cells (snd ch) \<noteq> [])" if "ch \<in> set chunks" for ch
    using page_split_page [OF p] page_split_nonempty [OF p] mem [OF that]
    unfolding v chunk_view_def by blast
  moreover have "?p dvd unat (fst ch)" if "ch \<in> set (tl chunks)" for ch
    using page_split_aligned [OF p] mem [OF that]
    unfolding map_tl v chunk_view_def by blast
  ultimately show ?thesis
    using ch page_split_concat [OF p, of "unat start" ?cs]
    by (intro exI [of _ chunks] conjI) (simp_all only: cells v simp_thms, blast+)
qed

theorem page_chunks_correct_witness:
  "\<exists>chunks. page_chunks_list slice_ops [1 :: u8, 2, 3, 4, 5] 6 4 = Some chunks \<and>
     concat (map snd chunks) = [1, 2, 3, 4, 5] \<and>
     (\<forall>ch \<in> set (tl chunks). unat (4 :: usize) dvd unat (fst ch))"
  using page_chunks_correct [OF slice_split.split_index_axioms, of "[1 :: u8, 2, 3, 4, 5]" 4 6]
  by (simp add: slice_ok_def) blast

text \<open>
  The size hint of a page chunk iterator over a non-empty slice below the end of the
  address space is exact.
\<close>

lemma page_chunks_size_hint:
  assumes "slice_ok buf" and "buf \<noteq> []" and "page_size \<noteq> 0"
    and "unat start + length buf + unat page_size < 18446744073709551616"
  shows "\<exists>chunks. page_chunks_list slice_ops buf start page_size = Some chunks \<and>
     pci_size_hint slice_ops (page_chunks buf start page_size) = Some (of_nat (length chunks))"
proof -
  let ?p = "unat page_size" and ?e = "start + of_nat (length buf) - 1"
  have p: "0 < ?p" using assms(3) by (simp add: unat_gt_0)
  have "\<forall>b. unat start \<le> b \<and> b < unat start + length buf \<or> b = unat start \<longrightarrow> pages_fit ?p b"
    using assms(4) p by (auto simp: pages_fit_def)
  moreover have "unat start + length buf \<le> 18446744073709551616"
    using assms(4) by auto
  ultimately obtain chunks where ch: "page_chunks_list slice_ops buf start page_size = Some chunks"
    and v: "map (chunk_view (\<lambda>xs. xs)) chunks = page_split ?p (unat start) buf"
    using slice_split.page_chunks_collect [OF _ _ assms(1) refl] by blast
  have n: "length chunks = Suc ((unat start + length buf - 1) div ?p - unat start div ?p)"
    using arg_cong [OF v, of length] page_split_length [OF p, of buf "unat start"] assms(2) by simp
  have l: "unat (of_nat (length buf) :: u64) = length buf"
    using assms(4) by (intro unat_of_nat_64) simp
  have e: "unat ?e = unat start + length buf - 1"
  proof -
    have "0 < length buf" using assms(2) by simp
    then show ?thesis
      using assms(4) l
      by (subst unat_sub_nowrap) (simp_all add: unat_add_nowrap Suc_le_eq del: length_greater_0_conv)
  qed
  have "unat ((page_align ?e page_size - page_align start page_size) div page_size)
      = (unat start + length buf - 1) div ?p - unat start div ?p"
  proof -
    have "unat start div ?p \<le> (unat start + length buf - 1) div ?p"
      using assms(2) by (intro div_le_mono) (cases buf; simp)
    then have "unat (page_align ?e page_size - page_align start page_size)
        = ((unat start + length buf - 1) div ?p - unat start div ?p) * ?p"
      by (subst unat_sub_nowrap) (simp_all only: unat_page_align e mult_le_mono1 diff_mult_distrib)
    then show ?thesis
      using p by (simp add: unat_div_distrib)
  qed
  then have "(page_align ?e page_size - page_align start page_size) div page_size + 1
      = of_nat (length chunks)"
    unfolding n by (metis of_nat_Suc word_of_nat_unat add.commute)
  with ch show ?thesis
    using assms(3)
    by (simp add: pci_size_hint_def page_chunks_def pci_new_def as_page_aligned_def
        address_add_def address_sub_addr_def slice_ops_def len_usize_def)
qed

text \<open>
  \<open>page_chunks_by\<close> with a check that refuses the first split of a buffer that does not
  start at a page boundary: the piece grows by the length of the first piece and not by a
  page, so the chunk ends, and the next one starts, inside a page.
\<close>

lemma page_chunks_by_splits_inside_page:
  "page_chunks_by_list usize_ops (\<lambda>s a h t. (s, True)) 0x3000 0x1800 0x1000 False =
     Some [(0x1800, 0x1000), (0x2800, 0x800), (0x3000, 0x1000), (0x4000, 0x800)]"
  by code_simp

end
