(* ===== verification/Translate_Data.thy ===== *)
theory Translate_Data
  imports Page_Chunks
begin

text \<open>
  \<open>memflow/src/architecture/mmu_spec/translate_data.rs\<close>: the requests of a page walk
  (\<open>TranslateData\<close>, an address and a buffer) and the groups of requests that share a page
  table entry (\<open>TranslationChunk\<close>), with their splitting. The bump arena only allocates,
  so it has no part in the model; the capacity of a vector, which \<open>merge_with\<close> compares,
  is a parameter. The lemmas show that splitting a chunk keeps every cell of its requests,
  on the side its address belongs to, and that cutting a chunk at pages ends.
\<close>

section \<open>TranslateData\<close>

record 't translate_data =
  td_addr :: address
  td_buf :: 't

definition td_cmp :: "'t translate_data \<Rightarrow> 't translate_data \<Rightarrow> ordering" where
  "td_cmp a b = cmp_of (td_addr a) (td_addr b)"

definition td_partial_cmp :: "'t translate_data \<Rightarrow> 't translate_data \<Rightarrow> ordering option" where
  "td_partial_cmp a b = Some (cmp_of (td_addr a) (td_addr b))"

definition td_eq :: "'t translate_data \<Rightarrow> 't translate_data \<Rightarrow> bool" where
  "td_eq a b \<longleftrightarrow> td_addr a = td_addr b"

definition td_split_inclusive_at ::
  "'t split_ops \<Rightarrow> 't translate_data \<Rightarrow> usize
     \<Rightarrow> ('t translate_data \<times> 't translate_data option \<times> 't translate_data) option" where
  "td_split_inclusive_at ops self idx = do {
     let addr = td_addr self;
     (bleft, bright, buf') \<leftarrow> so_split_inclusive_at ops (td_buf self) idx;
     let bl_len = so_length ops bleft;
     Some (\<lparr>td_addr = addr, td_buf = bleft\<rparr>,
           map_option (\<lambda>buf. \<lparr>td_addr = address_add addr bl_len, td_buf = buf\<rparr>) bright,
           self\<lparr>td_buf := buf'\<rparr>)
   }"

definition td_split_at ::
  "'t split_ops \<Rightarrow> 't translate_data \<Rightarrow> usize
     \<Rightarrow> ('t translate_data \<times> 't translate_data option \<times> 't translate_data) option" where
  "td_split_at ops self idx = do {
     let addr = td_addr self;
     (bleft, bright, buf') \<leftarrow> so_split_at ops (td_buf self) idx;
     let bl_len = so_length ops bleft;
     Some (\<lparr>td_addr = addr, td_buf = bleft\<rparr>,
           map_option (\<lambda>buf. \<lparr>td_addr = address_add addr bl_len, td_buf = buf\<rparr>) bright,
           self\<lparr>td_buf := buf'\<rparr>)
   }"

definition td_length :: "'t split_ops \<Rightarrow> 't translate_data \<Rightarrow> usize" where
  "td_length ops self = so_length ops (td_buf self)"

definition td_size_hint :: "'t split_ops \<Rightarrow> 't translate_data \<Rightarrow> usize" where
  "td_size_hint ops self = so_size_hint ops (td_buf self)"

definition td_ops :: "'t split_ops \<Rightarrow> 't translate_data split_ops" where
  "td_ops ops = \<lparr>
     so_split_at = td_split_at ops,
     so_split_inclusive_at = td_split_inclusive_at ops,
     so_unsplit = default_unsplit,
     so_length = td_length ops,
     so_size_hint = td_size_hint ops\<rparr>"

section \<open>TranslationChunk\<close>

record 't translation_chunk =
  tc_pt_addr :: address
  tc_vec :: "'t translate_data list"
  tc_min_addr :: address
  tc_max_addr :: address

definition tc_min_max :: "'t split_ops \<Rightarrow> 't translate_data list \<Rightarrow> u64 \<times> u64" where
  "tc_min_max ops vec =
     foldl (\<lambda>(cmin, cmax) elem.
        (min cmin (as_u64 (td_addr elem)), max cmax (as_u64 (td_addr elem) + td_length ops elem)))
       (NOT 0, 0) vec"

definition tc_with_minmax ::
  "address \<Rightarrow> 't translate_data list \<Rightarrow> address \<Rightarrow> address \<Rightarrow> 't translation_chunk" where
  "tc_with_minmax pt_addr vec min_addr max_addr =
     \<lparr>tc_pt_addr = pt_addr, tc_vec = vec, tc_min_addr = min_addr, tc_max_addr = max_addr\<rparr>"

definition tc_new :: "'t split_ops \<Rightarrow> address \<Rightarrow> 't translate_data list \<Rightarrow> 't translation_chunk" where
  "tc_new ops pt_addr vec =
     (let (mn, mx) = tc_min_max ops vec
      in tc_with_minmax pt_addr vec (address_from_u64 mn) (address_from_u64 mx))"

definition tc_recalc_minmax :: "'t split_ops \<Rightarrow> 't translation_chunk \<Rightarrow> 't translation_chunk" where
  "tc_recalc_minmax ops self =
     (let (mn, mx) = tc_min_max ops (tc_vec self)
      in self\<lparr>tc_min_addr := address_from_u64 mn, tc_max_addr := address_from_u64 mx\<rparr>)"

text \<open>The chunk that is taken out, and what is left in its place.\<close>

definition tc_empty :: "'t translation_chunk" where
  "tc_empty = \<lparr>tc_pt_addr = address_null, tc_vec = [], tc_min_addr = address_invalid,
               tc_max_addr = address_null\<rparr>"

definition tc_consume_mut :: "'t translation_chunk \<Rightarrow> 't translation_chunk \<times> 't translation_chunk" where
  "tc_consume_mut self = (self, tc_empty)"

text \<open>\<open>cap\<close> is the capacity of the vector of a chunk.\<close>

definition tc_merge_with ::
  "('t translation_chunk \<Rightarrow> nat) \<Rightarrow> 't translation_chunk \<Rightarrow> 't translation_chunk
     \<Rightarrow> 't translation_chunk" where
  "tc_merge_with cap self other =
     (let (self, other) = (if cap self < cap other then (other, self) else (self, other))
      in self\<lparr>tc_vec := tc_vec self @ tc_vec other,
              tc_min_addr := min (tc_min_addr self) (tc_min_addr other),
              tc_max_addr := max (tc_max_addr self) (tc_max_addr other)\<rparr>)"

text \<open>
  The loop of \<open>split_at_inclusive\<close>: from the last request to the first, with the bounds
  of both sides as they are found.
\<close>

record split_bounds =
  left_min :: address
  left_max :: address
  right_min :: address
  right_max :: address

fun tc_split_loop ::
  "'t split_ops \<Rightarrow> address \<Rightarrow> nat \<Rightarrow> 't translate_data list \<Rightarrow> 't translate_data list
     \<Rightarrow> split_bounds
     \<Rightarrow> ('t translate_data list \<times> 't translate_data list \<times> split_bounds) option" where
  "tc_split_loop ops end_addr 0 vec vec_right b = Some (vec, vec_right, b)"
| "tc_split_loop ops end_addr (Suc i) vec vec_right b =
     (if \<not> i < length vec then None else
      let data = vec ! i in
      if td_addr data \<le> end_addr
      then do {
        let idx = address_sub_addr end_addr (td_addr data);
        (left, right, data') \<leftarrow> td_split_inclusive_at ops data idx;
        (vec, b) \<leftarrow>
          (if 0 < td_length ops left
           then Some (vec[i := left],
                 b\<lparr>left_min := min (left_min b) (td_addr left),
                   left_max := max (left_max b) (address_add (td_addr left) (td_length ops left))\<rparr>)
           else map_option (\<lambda>(_, v). (v, b)) (swap_remove (vec[i := data']) i));
        (case right of
           Some right \<Rightarrow>
             tc_split_loop ops end_addr i vec (vec_right @ [right])
               (b\<lparr>right_min := min (right_min b) (td_addr right),
                  right_max := max (right_max b)
                    (address_add (td_addr right) (td_length ops right))\<rparr>)
         | None \<Rightarrow> tc_split_loop ops end_addr i vec vec_right b)
      }
      else do {
        (x, vec) \<leftarrow> swap_remove vec i;
        tc_split_loop ops end_addr i vec (vec_right @ [x])
          (b\<lparr>right_min := min (right_min b) (td_addr data),
             right_max := max (right_max b) (address_add (td_addr data) (td_length ops data))\<rparr>)
      })"

definition tc_split_at_inclusive ::
  "'t split_ops \<Rightarrow> 't translation_chunk \<Rightarrow> usize
     \<Rightarrow> ('t translation_chunk \<times> 't translation_chunk option) option" where
  "tc_split_at_inclusive ops self idx =
     (let len = address_sub_addr (tc_max_addr self) (tc_min_addr self) in
      if len \<le> idx then Some (self, None)
      else do {
        let end_addr = address_add (tc_min_addr self) (min (len - 1) idx);
        (vec, vec_right, b) \<leftarrow>
          tc_split_loop ops end_addr (length (tc_vec self)) (tc_vec self) []
            \<lparr>left_min = address_invalid, left_max = address_null,
             right_min = address_invalid, right_max = address_null\<rparr>;
        let left = self\<lparr>tc_vec := vec, tc_min_addr := left_min b, tc_max_addr := left_max b\<rparr>;
        Some (left,
              if vec_right = [] then None
              else Some (tc_with_minmax (tc_pt_addr self) vec_right (right_min b) (right_max b)))
      })"

text \<open>\<open>SplitAtIndex\<close> for a pair of the arena and a chunk.\<close>

definition tc_op_split_inclusive_at ::
  "'t split_ops \<Rightarrow> 't translation_chunk \<Rightarrow> usize
     \<Rightarrow> ('t translation_chunk \<times> 't translation_chunk option \<times> 't translation_chunk) option" where
  "tc_op_split_inclusive_at ops self idx = do {
     let (chunk, self) = tc_consume_mut self;
     (left, right) \<leftarrow> tc_split_at_inclusive ops chunk idx;
     Some (left, right, self)
   }"

definition tc_op_split_at ::
  "'t split_ops \<Rightarrow> 't translation_chunk \<Rightarrow> usize
     \<Rightarrow> ('t translation_chunk \<times> 't translation_chunk option \<times> 't translation_chunk) option" where
  "tc_op_split_at ops self idx =
     (if idx = 0
      then (let (chunk, self) = tc_consume_mut self; (left, self) = tc_consume_mut self
            in Some (left, Some chunk, self))
      else tc_op_split_inclusive_at ops self (idx - 1))"

definition tc_op_unsplit ::
  "('t translation_chunk \<Rightarrow> nat) \<Rightarrow> 't translation_chunk \<Rightarrow> 't translation_chunk
     \<Rightarrow> 't translation_chunk option \<Rightarrow> 't translation_chunk" where
  "tc_op_unsplit cap self left right =
     (let self = tc_merge_with cap self left
      in case right of Some chunk \<Rightarrow> tc_merge_with cap self chunk | None \<Rightarrow> self)"

definition tc_op_length :: "'t translation_chunk \<Rightarrow> usize" where
  "tc_op_length self = address_sub_addr (tc_max_addr self) (tc_min_addr self)"

definition tc_ops ::
  "('t translation_chunk \<Rightarrow> nat) \<Rightarrow> 't split_ops \<Rightarrow> 't translation_chunk split_ops" where
  "tc_ops cap ops = \<lparr>
     so_split_at = tc_op_split_at ops,
     so_split_inclusive_at = tc_op_split_inclusive_at ops,
     so_unsplit = tc_op_unsplit cap,
     so_length = tc_op_length,
     so_size_hint = tc_op_length\<rparr>"

section \<open>Requests meet the splitting contract\<close>

definition td_cells :: "('t \<Rightarrow> 'c list) \<Rightarrow> 't translate_data \<Rightarrow> (address \<times> 'c) list" where
  "td_cells cells x = addr_cells (td_addr x) (cells (td_buf x))"

definition td_ok :: "('t \<Rightarrow> bool) \<Rightarrow> 't translate_data \<Rightarrow> bool" where
  "td_ok ok x \<longleftrightarrow> ok (td_buf x)"

lemma length_td_cells [simp]: "length (td_cells cells x) = length (cells (td_buf x))"
  by (simp add: td_cells_def)

context split_index
begin

lemma td_length_cells: "td_ok ok x \<Longrightarrow> unat (td_length ops x) = length (td_cells cells x)"
  by (simp add: td_ok_def td_length_def length_cells)

lemma td_split_result:
  assumes x: "ok (td_buf x)" and s: "split_result ok cells (td_buf x) n (l, r, td_buf x)"
  shows "split_result (td_ok ok) (td_cells cells) x n
     (\<lparr>td_addr = td_addr x, td_buf = l\<rparr>,
      map_option (\<lambda>buf. \<lparr>td_addr = address_add (td_addr x) (so_length ops l), td_buf = buf\<rparr>) r,
      x\<lparr>td_buf := td_buf x\<rparr>)"
proof -
  have l: "unat (so_length ops l) = min (length (cells (td_buf x))) n"
    using s by (simp add: split_result_def length_cells)
  have "so_length ops l = of_nat n" if "n < length (cells (td_buf x))"
    using l that length_lt [OF x] by (simp add: word_unat_eq_iff unat_of_nat_64)
  then show ?thesis
    using s
    by (auto simp: split_result_def td_ok_def td_cells_def address_add_def
        take_addr_cells drop_addr_cells split: option.splits)
qed

lemma split_index_td: "split_index (td_ops ops) (td_ok ok) (td_cells cells)"
proof
  fix x i
  assume "td_ok ok x"
  then have x: "ok (td_buf x)" by (simp add: td_ok_def)
  then show "unat (so_length (td_ops ops) x) = length (td_cells cells x)"
    by (simp add: td_ops_def td_length_def length_cells)
  obtain l r where "so_split_at ops (td_buf x) i = Some (l, r, td_buf x)"
    "split_result ok cells (td_buf x) (unat i) (l, r, td_buf x)"
    using split_at_cells [OF x, of i] by (auto simp: split_result_def)
  then show "\<exists>r. so_split_at (td_ops ops) x i = Some r \<and>
          split_result (td_ok ok) (td_cells cells) x (unat i) r"
    using td_split_result [OF x] by (auto simp: td_ops_def td_split_at_def Let_def)
  obtain l r where "so_split_inclusive_at ops (td_buf x) i = Some (l, r, td_buf x)"
    "split_result ok cells (td_buf x) (Suc (unat i)) (l, r, td_buf x)"
    using split_inclusive_cells [OF x, of i] by (auto simp: split_result_def)
  then show "\<exists>r. so_split_inclusive_at (td_ops ops) x i = Some r \<and>
          split_result (td_ok ok) (td_cells cells) x (Suc (unat i)) r"
    using td_split_result [OF x] by (auto simp: td_ops_def td_split_inclusive_at_def Let_def)
next
  show "so_unsplit (td_ops ops) x l r = x" for x l r
    by (simp add: td_ops_def default_unsplit_def)
qed

end

interpretation td_usize_split:
  split_index "td_ops usize_ops" "td_ok (\<lambda>_. True)" "td_cells usize_cells"
  by (rule usize_split.split_index_td)

interpretation td_mut_slice_split:
  split_index "td_ops mut_slice_ops" "td_ok mut_slice_ok" "td_cells mut_slice_cells"
  by (rule mut_slice_split.split_index_td)

section \<open>Splitting a chunk\<close>

text \<open>
  A request of a walk: not empty, and ending below the end of the address space. Its end
  is the address behind its last byte.
\<close>

definition td_good :: "('t \<Rightarrow> bool) \<Rightarrow> ('t \<Rightarrow> 'c list) \<Rightarrow> 't translate_data \<Rightarrow> bool" where
  "td_good ok cells x \<longleftrightarrow> ok (td_buf x) \<and> cells (td_buf x) \<noteq> [] \<and>
     unat (td_addr x) + length (cells (td_buf x)) < 18446744073709551616"

definition td_end :: "('t \<Rightarrow> 'c list) \<Rightarrow> 't translate_data \<Rightarrow> nat" where
  "td_end cells x = unat (td_addr x) + length (cells (td_buf x))"

definition vec_cells :: "('t \<Rightarrow> 'c list) \<Rightarrow> 't translate_data list \<Rightarrow> (address \<times> 'c) multiset" where
  "vec_cells cells xs = (\<Sum>x \<in># mset xs. mset (td_cells cells x))"

lemma td_good_end: "td_good ok cells x \<Longrightarrow> unat (td_addr x) < td_end cells x"
  by (auto simp: td_good_def td_end_def)

lemma vec_cells_simps [simp]:
  "vec_cells cells [] = {#}"
  "vec_cells cells (x # xs) = mset (td_cells cells x) + vec_cells cells xs"
  "vec_cells cells (xs @ ys) = vec_cells cells xs + vec_cells cells ys"
  by (simp_all add: vec_cells_def)

lemma vec_cells_mset: "mset xs = mset ys \<Longrightarrow> vec_cells cells xs = vec_cells cells ys"
  by (simp add: vec_cells_def)

context split_index
begin

lemma td_split_obtain:
  assumes x: "td_good ok cells x" and e: "unat (td_addr x) \<le> unat e"
  obtains l r x' where
    "td_split_inclusive_at ops x (address_sub_addr e (td_addr x)) = Some (l, r, x')"
    "td_good ok cells l" "td_addr l = td_addr x" "td_end cells l \<le> Suc (unat e)"
    "td_end cells l = min (td_end cells x) (Suc (unat e))"
    "0 < td_length ops l"
    "r = None \<longleftrightarrow> td_end cells x \<le> Suc (unat e)"
    "\<forall>t. r = Some t \<longrightarrow> td_good ok cells t \<and> unat (td_addr t) = Suc (unat e) \<and>
         td_end cells t = td_end cells x"
    "mset (td_cells cells x) = mset (td_cells cells l) +
       (case r of None \<Rightarrow> {#} | Some t \<Rightarrow> mset (td_cells cells t))"
proof -
  let ?i = "address_sub_addr e (td_addr x)"
  have i: "unat ?i = unat e - unat (td_addr x)"
    using e by (simp add: address_sub_addr_def unat_sub_nowrap)
  have okx: "ok (td_buf x)" and ne: "cells (td_buf x) \<noteq> []"
    and top: "unat (td_addr x) + length (cells (td_buf x)) < 18446744073709551616"
    using x by (auto simp: td_good_def)
  obtain l r where s: "so_split_inclusive_at ops (td_buf x) ?i = Some (l, r, td_buf x)" "ok l"
    "cells l = take (Suc (unat ?i)) (cells (td_buf x))"
    "r = None \<longleftrightarrow> length (cells (td_buf x)) \<le> Suc (unat ?i)"
    "\<forall>t. r = Some t \<longrightarrow> ok t \<and> cells t = drop (Suc (unat ?i)) (cells (td_buf x))"
    by (rule split_inclusive_obtain [OF okx, of ?i])
  let ?l = "\<lparr>td_addr = td_addr x, td_buf = l\<rparr>"
  let ?mk = "\<lambda>t. \<lparr>td_addr = address_add (td_addr x) (so_length ops l), td_buf = t\<rparr>"
  have len: "unat (so_length ops l) = min (length (cells (td_buf x))) (Suc (unat ?i))"
    using s(2,3) by (simp add: length_cells)
  then have "unat (so_length ops l) \<noteq> 0" using ne by simp
  then have pos: "0 < td_length ops ?l"
    by (simp add: td_length_def word_less_nat_alt)
  have "td_split_inclusive_at ops x ?i = Some (?l, map_option ?mk r, x)"
    by (simp add: td_split_inclusive_at_def s(1) Let_def)
  moreover have "td_good ok cells ?l"
    using s(2,3) ne top by (auto simp: td_good_def)
  moreover have "td_end cells ?l = min (td_end cells x) (Suc (unat e))"
    using e i s(3) by (simp add: td_end_def min_def; arith)
  moreover have "td_good ok cells (?mk t) \<and> unat (td_addr (?mk t)) = Suc (unat e) \<and>
      td_end cells (?mk t) = td_end cells x \<and>
      mset (td_cells cells x) = mset (td_cells cells ?l) + mset (td_cells cells (?mk t))"
    if "r = Some t" for t
  proof -
    have n: "Suc (unat ?i) < length (cells (td_buf x))"
      using s(4) that by auto
    with len have len': "unat (so_length ops l) = Suc (unat ?i)" by simp
    then have a: "unat (td_addr (?mk t)) = Suc (unat e)"
      using n top e i by (simp add: address_add_def unat_add_nowrap)
    have "so_length ops l = of_nat (Suc (unat ?i))"
      using len' by (metis word_of_nat_unat)
    then have "td_cells cells x = td_cells cells ?l @ td_cells cells (?mk t)"
      using that s(3,5) addr_cells_append
          [of "td_addr x" "take (Suc (unat ?i)) (cells (td_buf x))" "drop (Suc (unat ?i)) (cells (td_buf x))"] n
      by (simp add: td_cells_def address_add_def min_def del: of_nat_Suc take_Suc_Cons drop_Suc_Cons)
    moreover have "cells t \<noteq> []" "length (cells t) = length (cells (td_buf x)) - Suc (unat ?i)"
      using that s(5) n by auto
    ultimately show ?thesis
      using that s(5) a top n e i by (auto simp: td_good_def td_end_def)
  qed
  moreover have "mset (td_cells cells x) = mset (td_cells cells ?l)" if "r = None"
    using that s(3,4) by (simp add: td_cells_def)
  ultimately show ?thesis
    using pos s(4) e i
    by (intro that [of ?l "map_option ?mk r" x]) (auto simp: td_end_def split: option.splits)
qed

end

text \<open>The bounds of a list of requests, folded in the order the code meets them.\<close>

definition fold_min :: "address \<Rightarrow> 't translate_data list \<Rightarrow> address" where
  "fold_min a xs = foldl (\<lambda>m x. min m (td_addr x)) a xs"

definition fold_max :: "'t split_ops \<Rightarrow> address \<Rightarrow> 't translate_data list \<Rightarrow> address" where
  "fold_max ops a xs = foldl (\<lambda>m x. max m (address_add (td_addr x) (td_length ops x))) a xs"

lemma fold_min_simps [simp]:
  "fold_min a [] = a" "fold_min a (x # xs) = fold_min (min a (td_addr x)) xs"
  by (simp_all add: fold_min_def)

lemma fold_max_simps [simp]:
  "fold_max ops a [] = a"
  "fold_max ops a (x # xs) = fold_max ops (max a (address_add (td_addr x) (td_length ops x))) xs"
  by (simp_all add: fold_max_def)

lemma tc_min_max_fold: "tc_min_max ops xs = (fold_min (NOT 0) xs, fold_max ops 0 xs)"
proof -
  have "foldl (\<lambda>(cmin, cmax) elem.
        (min cmin (as_u64 (td_addr elem)), max cmax (as_u64 (td_addr elem) + td_length ops elem)))
       (a, b) xs = (fold_min a xs, fold_max ops b xs)" for a b
    by (induction xs arbitrary: a b) (simp_all add: as_u64_def address_add_def)
  then show ?thesis by (simp add: tc_min_max_def)
qed

lemma fold_min_le: "fold_min a xs \<le> a \<and> (\<forall>x \<in> set xs. fold_min a xs \<le> td_addr x)"
proof (induction xs arbitrary: a)
  case (Cons x xs)
  from Cons [of "min a (td_addr x)"] show ?case
    by (simp only: fold_min_simps min.bounded_iff list.set) blast
qed simp

lemma unat_eq_Suc: "unat (a :: u64) = Suc (unat b) \<Longrightarrow> a = b + 1"
proof -
  assume a: "unat a = Suc (unat b)"
  then have "unat b + unat (1 :: u64) < 18446744073709551616"
    using unat_lt_64 [of a] by (simp del: unat_lt_64)
  from unat_add_nowrap [OF this] a show "a = b + 1"
    by (simp add: word_unat_eq_iff)
qed

lemma fold_min_cases: "fold_min a xs = a \<or> (\<exists>x \<in> set xs. fold_min a xs = td_addr x)"
proof (induction xs arbitrary: a)
  case (Cons x xs)
  from Cons [of "min a (td_addr x)"] show ?case by (auto simp: min_def split: if_splits)
qed simp

lemma fold_max_cases:
  "fold_max ops a xs = a \<or>
     (\<exists>x \<in> set xs. fold_max ops a xs = address_add (td_addr x) (td_length ops x))"
proof (induction xs arbitrary: a)
  case (Cons x xs)
  from Cons [of "max a (address_add (td_addr x) (td_length ops x))"] show ?case
    by (auto simp: max_def split: if_splits)
qed simp

lemma fold_max_ge:
  "a \<le> fold_max ops a xs \<and>
     (\<forall>x \<in> set xs. address_add (td_addr x) (td_length ops x) \<le> fold_max ops a xs)"
proof (induction xs arbitrary: a)
  case (Cons x xs)
  from Cons [of "max a (address_add (td_addr x) (td_length ops x))"] show ?case
    by (simp only: fold_max_simps max.bounded_iff list.set) blast
qed simp

context split_index
begin

lemma unat_td_end:
  "td_good ok cells x \<Longrightarrow> unat (address_add (td_addr x) (td_length ops x)) = td_end cells x"
  by (simp add: td_good_def td_end_def address_add_def td_length_def length_cells unat_add_nowrap)

lemma tc_split_loop_spec:
  assumes "i \<le> length vec" and "\<forall>x \<in> set (take i vec). td_good ok cells x"
  shows "\<exists>vec' lefts rights.
     tc_split_loop ops e i vec vr b = Some (vec', vr @ rights,
        \<lparr>left_min = fold_min (left_min b) lefts, left_max = fold_max ops (left_max b) lefts,
         right_min = fold_min (right_min b) rights, right_max = fold_max ops (right_max b) rights\<rparr>) \<and>
     mset vec' = mset (drop i vec) + mset lefts \<and>
     (\<forall>x \<in> set lefts. td_good ok cells x \<and> td_end cells x \<le> Suc (unat e) \<and>
        (\<exists>y \<in> set (take i vec). td_addr x = td_addr y \<and> td_addr y \<le> e \<and>
           td_end cells x \<le> td_end cells y)) \<and>
     (\<forall>x \<in> set rights. td_good ok cells x \<and> e < td_addr x \<and>
        (\<exists>y \<in> set (take i vec). td_end cells x = td_end cells y) \<and>
        (td_addr x = e + 1 \<or> td_addr x \<in> td_addr ` set (take i vec))) \<and>
     mset (map td_addr lefts) = mset (map td_addr (filter (\<lambda>x. td_addr x \<le> e) (take i vec))) \<and>
     (rights = [] \<longleftrightarrow> (\<forall>x \<in> set (take i vec). td_end cells x \<le> Suc (unat e))) \<and>
     vec_cells cells (take i vec) = vec_cells cells lefts + vec_cells cells rights \<and>
     length rights \<le> i"
  using assms
proof (induction i arbitrary: vec vr b)
  case 0
  show ?case
    by (intro exI [of _ vec] exI [of _ "[]"]) simp
next
  case (Suc i)
  let ?x = "vec ! i"
  have i: "i < length vec" using Suc.prems(1) by simp
  have tk: "take (Suc i) vec = take i vec @ [?x]"
    using i by (rule take_Suc_conv_app_nth)
  have good: "td_good ok cells ?x" and rest: "\<forall>x \<in> set (take i vec). td_good ok cells x"
    using Suc.prems(2) by (auto simp: tk)
  show ?case
  proof (cases "td_addr ?x \<le> e")
    case True
    then have le: "unat (td_addr ?x) \<le> unat e" by (simp add: word_le_nat_alt)
    obtain l r x' where s:
      "td_split_inclusive_at ops ?x (address_sub_addr e (td_addr ?x)) = Some (l, r, x')"
      "td_good ok cells l" "td_addr l = td_addr ?x" "td_end cells l \<le> Suc (unat e)"
      "td_end cells l = min (td_end cells ?x) (Suc (unat e))"
      "0 < td_length ops l"
      "r = None \<longleftrightarrow> td_end cells ?x \<le> Suc (unat e)"
      "\<forall>t. r = Some t \<longrightarrow> td_good ok cells t \<and> unat (td_addr t) = Suc (unat e) \<and>
           td_end cells t = td_end cells ?x"
      "mset (td_cells cells ?x) = mset (td_cells cells l) +
         (case r of None \<Rightarrow> {#} | Some t \<Rightarrow> mset (td_cells cells t))"
      by (rule td_split_obtain [OF good le])
    let ?vec = "vec[i := l]" and ?rs = "case r of None \<Rightarrow> [] | Some t \<Rightarrow> [t]"
    let ?b = "\<lparr>left_min = fold_min (left_min b) [l], left_max = fold_max ops (left_max b) [l],
         right_min = fold_min (right_min b) ?rs, right_max = fold_max ops (right_max b) ?rs\<rparr>"
    have step: "tc_split_loop ops e (Suc i) vec vr b = tc_split_loop ops e i ?vec (vr @ ?rs) ?b"
      using True i s(1,6) by (cases b; cases r) (simp_all add: Let_def)
    have tk': "take i ?vec = take i vec" and dr: "drop i ?vec = l # drop (Suc i) vec"
      using i by (simp_all add: Cons_nth_drop_Suc [symmetric] drop_update_swap)
    obtain vec' lefts rights where ih:
      "tc_split_loop ops e i ?vec (vr @ ?rs) ?b = Some (vec', (vr @ ?rs) @ rights,
        \<lparr>left_min = fold_min (left_min ?b) lefts, left_max = fold_max ops (left_max ?b) lefts,
         right_min = fold_min (right_min ?b) rights, right_max = fold_max ops (right_max ?b) rights\<rparr>)"
      "mset vec' = mset (drop i ?vec) + mset lefts"
      "\<forall>x \<in> set lefts. td_good ok cells x \<and> td_end cells x \<le> Suc (unat e) \<and>
        (\<exists>y \<in> set (take i vec). td_addr x = td_addr y \<and> td_addr y \<le> e \<and>
           td_end cells x \<le> td_end cells y)"
      "\<forall>x \<in> set rights. td_good ok cells x \<and> e < td_addr x \<and>
        (\<exists>y \<in> set (take i vec). td_end cells x = td_end cells y) \<and>
        (td_addr x = e + 1 \<or> td_addr x \<in> td_addr ` set (take i vec))"
      "mset (map td_addr lefts) = mset (map td_addr (filter (\<lambda>x. td_addr x \<le> e) (take i vec)))"
      "rights = [] \<longleftrightarrow> (\<forall>x \<in> set (take i vec). td_end cells x \<le> Suc (unat e))"
      "vec_cells cells (take i vec) = vec_cells cells lefts + vec_cells cells rights"
      "length rights \<le> i"
      using Suc.IH [of ?vec "vr @ ?rs" ?b] i rest unfolding tk' by auto
    show ?thesis
    proof (intro exI conjI)
      show "tc_split_loop ops e (Suc i) vec vr b = Some (vec', vr @ (?rs @ rights),
        \<lparr>left_min = fold_min (left_min b) (l # lefts),
         left_max = fold_max ops (left_max b) (l # lefts),
         right_min = fold_min (right_min b) (?rs @ rights),
         right_max = fold_max ops (right_max b) (?rs @ rights)\<rparr>)"
        unfolding step ih(1) by (cases r) simp_all
      show "mset vec' = mset (drop (Suc i) vec) + mset (l # lefts)"
        using ih(2) dr by simp
      show "\<forall>x \<in> set (l # lefts). td_good ok cells x \<and> td_end cells x \<le> Suc (unat e) \<and>
        (\<exists>y \<in> set (take (Suc i) vec). td_addr x = td_addr y \<and> td_addr y \<le> e \<and>
           td_end cells x \<le> td_end cells y)"
        using ih(3) s(2-5) True unfolding tk by auto
      have "\<forall>x \<in> set ?rs. td_good ok cells x \<and> e < td_addr x \<and> td_end cells x = td_end cells ?x \<and>
          td_addr x = e + 1"
        using s(8) by (auto simp: word_less_nat_alt unat_eq_Suc split: option.splits)
      then show "\<forall>x \<in> set (?rs @ rights). td_good ok cells x \<and> e < td_addr x \<and>
        (\<exists>y \<in> set (take (Suc i) vec). td_end cells x = td_end cells y) \<and>
        (td_addr x = e + 1 \<or> td_addr x \<in> td_addr ` set (take (Suc i) vec))"
        using ih(4) unfolding tk by auto
      show "mset (map td_addr (l # lefts))
          = mset (map td_addr (filter (\<lambda>x. td_addr x \<le> e) (take (Suc i) vec)))"
        using ih(5) True s(3) unfolding tk by simp
      show "?rs @ rights = [] \<longleftrightarrow> (\<forall>x \<in> set (take (Suc i) vec). td_end cells x \<le> Suc (unat e))"
        using ih(6) s(7) unfolding tk by (cases r) auto
      show "vec_cells cells (take (Suc i) vec)
          = vec_cells cells (l # lefts) + vec_cells cells (?rs @ rights)"
        using ih(7) s(9) unfolding tk by (cases r) simp_all
      show "length (?rs @ rights) \<le> Suc i"
        using ih(8) by (cases r) simp_all
    qed
  next
    case False
    obtain ys where ys: "swap_remove vec i = Some (?x, ys)" "take i ys = take i vec"
      "mset (drop i ys) = mset (drop (Suc i) vec)" "length ys = length vec - 1"
      by (rule swap_remove_parts [OF i])
    have il: "i \<le> length ys" using i ys(4) by linarith
    let ?b = "\<lparr>left_min = left_min b, left_max = left_max b,
         right_min = fold_min (right_min b) [?x], right_max = fold_max ops (right_max b) [?x]\<rparr>"
    have step: "tc_split_loop ops e (Suc i) vec vr b = tc_split_loop ops e i ys (vr @ [?x]) ?b"
      using False i ys(1) by (cases b) (simp add: Let_def)
    obtain vec' lefts rights where ih:
      "tc_split_loop ops e i ys (vr @ [?x]) ?b = Some (vec', (vr @ [?x]) @ rights,
        \<lparr>left_min = fold_min (left_min ?b) lefts, left_max = fold_max ops (left_max ?b) lefts,
         right_min = fold_min (right_min ?b) rights, right_max = fold_max ops (right_max ?b) rights\<rparr>)"
      "mset vec' = mset (drop i ys) + mset lefts"
      "\<forall>x \<in> set lefts. td_good ok cells x \<and> td_end cells x \<le> Suc (unat e) \<and>
        (\<exists>y \<in> set (take i vec). td_addr x = td_addr y \<and> td_addr y \<le> e \<and>
           td_end cells x \<le> td_end cells y)"
      "\<forall>x \<in> set rights. td_good ok cells x \<and> e < td_addr x \<and>
        (\<exists>y \<in> set (take i vec). td_end cells x = td_end cells y) \<and>
        (td_addr x = e + 1 \<or> td_addr x \<in> td_addr ` set (take i vec))"
      "mset (map td_addr lefts) = mset (map td_addr (filter (\<lambda>x. td_addr x \<le> e) (take i vec)))"
      "rights = [] \<longleftrightarrow> (\<forall>x \<in> set (take i vec). td_end cells x \<le> Suc (unat e))"
      "vec_cells cells (take i vec) = vec_cells cells lefts + vec_cells cells rights"
      "length rights \<le> i"
      using Suc.IH [of ys "vr @ [?x]" ?b] il rest unfolding ys(2) by auto
    show ?thesis
    proof (intro exI conjI)
      show "tc_split_loop ops e (Suc i) vec vr b = Some (vec', vr @ (?x # rights),
        \<lparr>left_min = fold_min (left_min b) lefts,
         left_max = fold_max ops (left_max b) lefts,
         right_min = fold_min (right_min b) (?x # rights),
         right_max = fold_max ops (right_max b) (?x # rights)\<rparr>)"
        unfolding step ih(1) by simp
      have "Suc (unat e) < td_end cells ?x"
        using False td_good_end [OF good] by (simp add: word_le_nat_alt)
      then show "?x # rights = [] \<longleftrightarrow> (\<forall>x \<in> set (take (Suc i) vec). td_end cells x \<le> Suc (unat e))"
        unfolding tk by auto
    qed (use ih(2-5,7,8) ys(3) good False in \<open>auto simp: tk not_le\<close>)
  qed
qed

end

text \<open>
  A chunk with requests and with the bounds of its requests: what \<open>new\<close>,
  \<open>recalc_minmax\<close> and the two sides of a split have.
\<close>

definition tc_wf :: "('t \<Rightarrow> bool) \<Rightarrow> ('t \<Rightarrow> 'c list) \<Rightarrow> 't translation_chunk \<Rightarrow> bool" where
  "tc_wf ok cells c \<longleftrightarrow>
     tc_vec c \<noteq> [] \<and> (\<forall>x \<in> set (tc_vec c). td_good ok cells x) \<and>
     (\<forall>x \<in> set (tc_vec c). tc_min_addr c \<le> td_addr x) \<and>
     (\<exists>x \<in> set (tc_vec c). td_addr x = tc_min_addr c) \<and>
     (\<forall>x \<in> set (tc_vec c). td_end cells x \<le> unat (tc_max_addr c)) \<and>
     (\<exists>x \<in> set (tc_vec c). td_end cells x = unat (tc_max_addr c))"

definition tc_span :: "'t translation_chunk \<Rightarrow> nat" where
  "tc_span c = unat (tc_max_addr c) - unat (tc_min_addr c)"

lemma tc_wf_min_max: "tc_wf ok cells c \<Longrightarrow> unat (tc_min_addr c) < unat (tc_max_addr c)"
  unfolding tc_wf_def word_le_nat_alt by (metis td_good_end order.strict_trans1 order.strict_trans2)

lemma tc_wf_cong:
  "mset vec = mset (tc_vec c) \<Longrightarrow> tc_wf ok cells c \<Longrightarrow> tc_wf ok cells (c\<lparr>tc_vec := vec\<rparr>)"
  unfolding tc_wf_def by (metis (no_types, lifting) mset_eq_setD mset_zero_iff
      translation_chunk.select_convs translation_chunk.update_convs(2) translation_chunk.surjective)

context split_index
begin

lemma fold_bounds:
  assumes ne: "xs \<noteq> []" and good: "\<forall>x \<in> set xs. td_good ok cells x"
  shows "tc_wf ok cells \<lparr>tc_pt_addr = p, tc_vec = xs, tc_min_addr = fold_min (NOT 0) xs,
     tc_max_addr = fold_max ops 0 xs\<rparr>"
proof -
  have mn: "\<exists>x \<in> set xs. td_addr x = fold_min (NOT 0) xs"
  proof (rule ccontr)
    assume a: "\<not> ?thesis"
    then have m: "fold_min (NOT 0) xs = NOT 0"
      using fold_min_cases [of "NOT 0" xs] by metis
    obtain y where y: "y \<in> set xs" using ne by (cases xs) auto
    with good have "unat (td_addr y) < 18446744073709551615"
      by (auto simp: td_good_def neq_Nil_conv)
    moreover have "unat (NOT 0 :: u64) \<le> unat (td_addr y)"
      using fold_min_le [of "NOT 0" xs] y unfolding m by (metis word_le_nat_alt)
    ultimately show False by simp
  qed
  have mx: "\<exists>x \<in> set xs. td_end cells x = unat (fold_max ops 0 xs)"
  proof (rule ccontr)
    assume a: "\<not> ?thesis"
    then have m: "fold_max ops 0 xs = 0"
      using fold_max_cases [of ops 0 xs] good unat_td_end by metis
    obtain y where y: "y \<in> set xs" using ne by (cases xs) auto
    then have "td_end cells y \<le> 0"
      using fold_max_ge [of 0 ops xs] good unat_td_end unfolding m
      by (metis unat_0 word_le_nat_alt)
    with good y show False using td_good_end by fastforce
  qed
  have "\<forall>x \<in> set xs. td_end cells x \<le> unat (fold_max ops 0 xs)"
    using fold_max_ge [of 0 ops xs] good by (simp add: word_le_nat_alt unat_td_end)
  with assms mn mx fold_min_le [of "NOT 0" xs] show ?thesis
    by (simp add: tc_wf_def)
qed

lemma tc_recalc_wf:
  assumes "tc_vec c \<noteq> []" and "\<forall>x \<in> set (tc_vec c). td_good ok cells x"
  shows "tc_wf ok cells (tc_recalc_minmax ops c)"
  using fold_bounds [OF assms, of "tc_pt_addr c"]
  by (cases c) (simp add: tc_recalc_minmax_def tc_min_max_fold address_from_u64_def)

lemma tc_split_wf:
  assumes wf: "tc_wf ok cells c"
  obtains l r where "tc_split_at_inclusive ops c idx = Some (l, r)"
    "tc_wf ok cells l" "tc_pt_addr l = tc_pt_addr c" "tc_min_addr l = tc_min_addr c"
    "unat (tc_max_addr l) \<le> unat (tc_max_addr c)"
    "\<forall>x \<in> set (tc_vec l). td_end cells x \<le> Suc (unat (tc_min_addr c) + unat idx)"
    "\<forall>t. r = Some t \<longrightarrow> tc_wf ok cells t \<and> tc_pt_addr t = tc_pt_addr c \<and>
       unat (tc_min_addr c) + unat idx < unat (tc_min_addr t) \<and>
       unat (tc_max_addr t) \<le> unat (tc_max_addr c) \<and> length (tc_vec t) \<le> length (tc_vec c) \<and>
       (tc_min_addr t = tc_min_addr c + (idx + 1) \<or> tc_min_addr t \<in> td_addr ` set (tc_vec c))"
    "vec_cells cells (tc_vec c) = vec_cells cells (tc_vec l) +
       (case r of None \<Rightarrow> {#} | Some t \<Rightarrow> vec_cells cells (tc_vec t))"
    "length (tc_vec l) = length (filter
       (\<lambda>x. unat (td_addr x) \<le> unat (tc_min_addr c) + unat idx) (tc_vec c))"
    "r = None \<longleftrightarrow> (\<forall>x \<in> set (tc_vec c). td_end cells x \<le> Suc (unat (tc_min_addr c) + unat idx))"
proof -
  let ?mn = "tc_min_addr c" and ?mx = "tc_max_addr c"
  have lt: "unat ?mn < unat ?mx" by (rule tc_wf_min_max [OF wf])
  have len: "unat (address_sub_addr ?mx ?mn) = unat ?mx - unat ?mn"
    using lt by (simp add: address_sub_addr_def unat_sub_nowrap)
  have good: "\<forall>x \<in> set (tc_vec c). td_good ok cells x"
    and ends: "\<forall>x \<in> set (tc_vec c). td_end cells x \<le> unat ?mx"
    using wf by (auto simp: tc_wf_def)
  show ?thesis
  proof (cases "address_sub_addr ?mx ?mn \<le> idx")
    case True
    then have le: "unat ?mx \<le> unat ?mn + unat idx"
      using len by (simp add: word_le_nat_alt)
    have "td_end cells x \<le> Suc (unat ?mn + unat idx) \<and> unat (td_addr x) \<le> unat ?mn + unat idx"
      if "x \<in> set (tc_vec c)" for x
      using le ends that td_good_end [of ok cells x] good by fastforce
    then show ?thesis
      using True wf by (intro that [of c None]) (auto simp: tc_split_at_inclusive_def)
  next
    case False
    then have idx: "unat ?mn + unat idx < unat ?mx"
      using len lt by (simp add: word_le_nat_alt)
    let ?e = "address_add ?mn (min (address_sub_addr ?mx ?mn - 1) idx)"
    have "unat (address_sub_addr ?mx ?mn - 1) = unat ?mx - unat ?mn - 1"
      using len lt by (subst unat_sub_nowrap) simp_all
    then have m: "min (address_sub_addr ?mx ?mn - 1) idx = idx"
      using idx by (simp add: min_def word_le_nat_alt word_unat_eq_iff; arith)
    have "unat ?mn + unat idx < 18446744073709551616"
      using idx unat_lt_64 [of ?mx] by linarith
    then have e: "unat ?e = unat ?mn + unat idx"
      by (simp only: m address_add_def unat_add_nowrap)
    let ?b0 = "\<lparr>left_min = address_invalid, left_max = address_null,
             right_min = address_invalid, right_max = address_null\<rparr>"
    obtain vec lefts rights where lp:
      "tc_split_loop ops ?e (length (tc_vec c)) (tc_vec c) [] ?b0 = Some (vec, rights,
        \<lparr>left_min = fold_min (NOT 0) lefts, left_max = fold_max ops 0 lefts,
         right_min = fold_min (NOT 0) rights, right_max = fold_max ops 0 rights\<rparr>)"
      "mset vec = mset lefts"
      "\<forall>x \<in> set lefts. td_good ok cells x \<and> td_end cells x \<le> Suc (unat ?e) \<and>
        (\<exists>y \<in> set (tc_vec c). td_addr x = td_addr y \<and> td_addr y \<le> ?e \<and>
           td_end cells x \<le> td_end cells y)"
      "\<forall>x \<in> set rights. td_good ok cells x \<and> ?e < td_addr x \<and>
        (\<exists>y \<in> set (tc_vec c). td_end cells x = td_end cells y) \<and>
        (td_addr x = ?e + 1 \<or> td_addr x \<in> td_addr ` set (tc_vec c))"
      "mset (map td_addr lefts) = mset (map td_addr (filter (\<lambda>x. td_addr x \<le> ?e) (tc_vec c)))"
      "rights = [] \<longleftrightarrow> (\<forall>x \<in> set (tc_vec c). td_end cells x \<le> Suc (unat ?e))"
      "vec_cells cells (tc_vec c) = vec_cells cells lefts + vec_cells cells rights"
      "length rights \<le> length (tc_vec c)"
      using tc_split_loop_spec [of "length (tc_vec c)" "tc_vec c" ?e "[]" ?b0] good
      by (auto simp: address_invalid_def ADDRESS_INVALID_def address_null_def ADDRESS_NULL_def)
    let ?l = "c\<lparr>tc_vec := vec, tc_min_addr := fold_min (NOT 0) lefts,
              tc_max_addr := fold_max ops 0 lefts\<rparr>"
    let ?r = "tc_with_minmax (tc_pt_addr c) rights (fold_min (NOT 0) rights) (fold_max ops 0 rights)"
    have split: "tc_split_at_inclusive ops c idx = Some (?l, if rights = [] then None else Some ?r)"
      using False lp(1) by (simp add: tc_split_at_inclusive_def Let_def)
    obtain y0 where y0: "y0 \<in> set (tc_vec c)" "td_addr y0 = ?mn" "?mn \<le> ?e"
      using wf e by (auto simp: tc_wf_def word_le_nat_alt)
    have addrs: "td_addr ` set lefts = td_addr ` {x \<in> set (tc_vec c). td_addr x \<le> ?e}"
      using arg_cong [OF lp(5), of set_mset] by (simp only: set_mset_mset set_map set_filter)
    then have mn: "?mn \<in> td_addr ` set lefts"
      using y0 by (metis (mono_tags, lifting) imageI mem_Collect_eq)
    then have ne: "lefts \<noteq> []" by auto
    have wf_lefts: "tc_wf ok cells \<lparr>tc_pt_addr = tc_pt_addr c, tc_vec = lefts,
        tc_min_addr = fold_min (NOT 0) lefts, tc_max_addr = fold_max ops 0 lefts\<rparr>"
      using lp(3) by (intro fold_bounds [OF ne]) blast
    then have wf_l: "tc_wf ok cells ?l"
      using tc_wf_cong [OF _ wf_lefts, of vec] lp(2) by (cases c) simp
    have "fold_min (NOT 0) lefts \<le> ?mn"
      using wf_lefts mn by (auto simp: tc_wf_def)
    moreover obtain x1 where "x1 \<in> set lefts" "td_addr x1 = fold_min (NOT 0) lefts"
      using wf_lefts by (auto simp: tc_wf_def)
    then have "?mn \<le> fold_min (NOT 0) lefts"
      using lp(3) wf unfolding tc_wf_def by metis
    ultimately have min_l: "fold_min (NOT 0) lefts = ?mn" by (rule order.antisym)
    have max_l: "unat (fold_max ops 0 lefts) \<le> unat ?mx"
    proof -
      obtain x where "x \<in> set lefts" "td_end cells x = unat (fold_max ops 0 lefts)"
        using wf_lefts by (auto simp: tc_wf_def)
      with lp(3) ends show ?thesis by (metis order.trans)
    qed
    have right: "tc_wf ok cells ?r \<and> unat ?mn + unat idx < unat (tc_min_addr ?r) \<and>
        unat (tc_max_addr ?r) \<le> unat ?mx \<and> length (tc_vec ?r) \<le> length (tc_vec c) \<and>
        (tc_min_addr ?r = ?mn + (idx + 1) \<or> tc_min_addr ?r \<in> td_addr ` set (tc_vec c))"
      if ner: "rights \<noteq> []"
    proof -
      have wf_r: "tc_wf ok cells ?r"
        using fold_bounds [OF ner, of "tc_pt_addr c"] lp(4) by (simp add: tc_with_minmax_def)
      obtain x where x: "x \<in> set rights" "td_addr x = tc_min_addr ?r"
        using wf_r by (auto simp: tc_wf_def tc_with_minmax_def)
      have "?e = ?mn + idx" by (simp only: m address_add_def)
      with lp(4) x have "tc_min_addr ?r = ?mn + (idx + 1) \<or> tc_min_addr ?r \<in> td_addr ` set (tc_vec c)"
        by (metis add.assoc)
      moreover from lp(4) x have "unat ?mn + unat idx < unat (tc_min_addr ?r)"
        unfolding e [symmetric] by (metis word_less_nat_alt)
      moreover obtain z where "z \<in> set rights" "td_end cells z = unat (tc_max_addr ?r)"
        using wf_r by (auto simp: tc_wf_def tc_with_minmax_def)
      then have "unat (tc_max_addr ?r) \<le> unat ?mx"
        using lp(4) ends by metis
      ultimately show ?thesis
        using wf_r lp(8) by (simp add: tc_with_minmax_def)
    qed
    have vec: "set vec = set lefts" using lp(2) by (rule mset_eq_setD)
    show ?thesis
    proof (rule that [OF split])
      show "length (tc_vec ?l) = length (filter
         (\<lambda>x. unat (td_addr x) \<le> unat ?mn + unat idx) (tc_vec c))"
        using mset_eq_length [OF lp(5)] mset_eq_length [OF lp(2)] e
        by (simp add: word_le_nat_alt)
      show "vec_cells cells (tc_vec c) = vec_cells cells (tc_vec ?l) +
         (case if rights = [] then None else Some ?r of None \<Rightarrow> {#}
            | Some t \<Rightarrow> vec_cells cells (tc_vec t))"
        using lp(7) vec_cells_mset [OF lp(2), of cells] by (simp add: tc_with_minmax_def)
    qed (use wf_l min_l max_l right lp(3,6) e vec in \<open>auto simp: tc_with_minmax_def\<close>)
  qed
qed

end

section \<open>Cutting a chunk at pages\<close>

context split_index
begin

text \<open>
  A chunk of any requests: the cutting ends, whatever the addresses it counts, since each
  remainder starts above the bytes that were split off; and it keeps every cell.
\<close>

lemma tc_page_chunks_cells:
  assumes "tc_wf ok cells c" and "page_size \<noteq> 0"
  shows "\<exists>chunks. page_chunks_list (tc_ops cap ops) c a page_size = Some chunks \<and>
     (\<forall>ch \<in> set chunks. tc_wf ok cells (snd ch) \<and> tc_pt_addr (snd ch) = tc_pt_addr c \<and>
        unat (tc_max_addr (snd ch)) \<le> unat (tc_max_addr c)) \<and>
     (\<Sum>ch \<leftarrow> chunks. vec_cells cells (tc_vec (snd ch))) = vec_cells cells (tc_vec c)"
  using assms(1)
proof (induction "tc_span c" arbitrary: a c rule: less_induct)
  case less
  obtain e where e: "pci_end_len (page_chunks c a page_size) = Some e"
    using assms(2) by (simp add: pci_end_len_def page_chunks_def pci_new_def as_page_aligned_def)
  obtain l r where s: "tc_split_at_inclusive ops c e = Some (l, r)"
    "tc_wf ok cells l" "tc_pt_addr l = tc_pt_addr c" "tc_min_addr l = tc_min_addr c"
    "unat (tc_max_addr l) \<le> unat (tc_max_addr c)"
    "\<forall>x \<in> set (tc_vec l). td_end cells x \<le> Suc (unat (tc_min_addr c) + unat e)"
    "\<forall>t. r = Some t \<longrightarrow> tc_wf ok cells t \<and> tc_pt_addr t = tc_pt_addr c \<and>
       unat (tc_min_addr c) + unat e < unat (tc_min_addr t) \<and>
       unat (tc_max_addr t) \<le> unat (tc_max_addr c) \<and> length (tc_vec t) \<le> length (tc_vec c) \<and>
       (tc_min_addr t = tc_min_addr c + (e + 1) \<or> tc_min_addr t \<in> td_addr ` set (tc_vec c))"
    "vec_cells cells (tc_vec c) = vec_cells cells (tc_vec l) +
       (case r of None \<Rightarrow> {#} | Some t \<Rightarrow> vec_cells cells (tc_vec t))"
    "length (tc_vec l) = length (filter
       (\<lambda>x. unat (td_addr x) \<le> unat (tc_min_addr c) + unat e) (tc_vec c))"
    "r = None \<longleftrightarrow> (\<forall>x \<in> set (tc_vec c). td_end cells x \<le> Suc (unat (tc_min_addr c) + unat e))"
    by (rule tc_split_wf [OF less.prems, of e])
  have sp: "so_split_inclusive_at (tc_ops cap ops) c e = Some (l, r, tc_empty)"
    by (simp add: tc_ops_def tc_op_split_inclusive_at_def tc_consume_mut_def s(1))
  show ?case
  proof (cases r)
    case None
    then show ?thesis
      using page_chunks_list_step [OF e sp] s by simp
  next
    case (Some t)
    have "tc_span t < tc_span c"
      using s(7) Some tc_wf_min_max [of ok cells t] by (auto simp: tc_span_def)
    note sp_t = this
    have t: "tc_wf ok cells t" "tc_pt_addr t = tc_pt_addr c"
      "unat (tc_max_addr t) \<le> unat (tc_max_addr c)"
      using s(7) Some by simp_all
    obtain chunks where ch:
      "page_chunks_list (tc_ops cap ops) t (a + (e + 1)) page_size = Some chunks"
      "\<forall>ch \<in> set chunks. tc_wf ok cells (snd ch) \<and> tc_pt_addr (snd ch) = tc_pt_addr t \<and>
        unat (tc_max_addr (snd ch)) \<le> unat (tc_max_addr t)"
      "(\<Sum>ch \<leftarrow> chunks. vec_cells cells (tc_vec (snd ch))) = vec_cells cells (tc_vec t)"
      using less.hyps [OF sp_t t(1)] by blast
    show ?thesis
    proof (intro exI conjI ballI)
      show "page_chunks_list (tc_ops cap ops) c a page_size = Some ((a, l) # chunks)"
        using page_chunks_list_step [OF e sp] ch(1) Some by simp
      show "(\<Sum>ch \<leftarrow> (a, l) # chunks. vec_cells cells (tc_vec (snd ch))) = vec_cells cells (tc_vec c)"
        using s(8) ch(3) Some by simp
      fix x assume x: "x \<in> set ((a, l) # chunks)"
      show "tc_wf ok cells (snd x)" "tc_pt_addr (snd x) = tc_pt_addr c"
        using x s(2,3) ch(2) t(2) by auto
      show "unat (tc_max_addr (snd x)) \<le> unat (tc_max_addr c)"
        using x s(5) ch(2) t(3) order.trans by fastforce
    qed
  qed
qed

text \<open>
  A chunk of one request, cut from its own start: one request per page, none crossing it.
\<close>

lemma tc_page_chunks_single:
  assumes "tc_wf ok cells c" and "tc_vec c = [x]" and "page_size \<noteq> 0"
    and "unat page_size dvd 18446744073709551616"
  shows "\<exists>chunks. page_chunks_list (tc_ops cap ops) c (tc_min_addr c) page_size = Some chunks \<and>
     (\<forall>ch \<in> set chunks. tc_wf ok cells (snd ch) \<and> tc_pt_addr (snd ch) = tc_pt_addr c \<and>
        tc_min_addr (snd ch) = fst ch \<and>
        (\<exists>y. tc_vec (snd ch) = [y] \<and> unat (td_addr x) \<le> unat (td_addr y) \<and>
           td_end cells y \<le> td_end cells x \<and>
           td_end cells y \<le> unat (td_addr y) + page_room (unat page_size) (unat (td_addr y))))"
  using assms(1,2)
proof (induction "tc_span c" arbitrary: c x rule: less_induct)
  case less
  let ?p = "unat page_size" and ?a = "tc_min_addr c"
  have a: "td_addr x = ?a" using less.prems by (simp add: tc_wf_def)
  have p: "0 < ?p" using assms(3) by (simp add: unat_gt_0)
  have "pages_fit ?p (unat ?a)"
    using p assms(4) by (simp add: pages_fit_def)
  then obtain e where e: "pci_end_len (page_chunks c ?a page_size) = Some e"
    "Suc (unat e) = page_room ?p (unat ?a)"
    by (rule unat_pci_end_len [where it = "page_chunks c ?a page_size"])
      (simp_all add: page_chunks_def pci_new_def)
  obtain l r where s: "tc_split_at_inclusive ops c e = Some (l, r)"
    "tc_wf ok cells l" "tc_pt_addr l = tc_pt_addr c" "tc_min_addr l = tc_min_addr c"
    "unat (tc_max_addr l) \<le> unat (tc_max_addr c)"
    "\<forall>x \<in> set (tc_vec l). td_end cells x \<le> Suc (unat (tc_min_addr c) + unat e)"
    "\<forall>t. r = Some t \<longrightarrow> tc_wf ok cells t \<and> tc_pt_addr t = tc_pt_addr c \<and>
       unat (tc_min_addr c) + unat e < unat (tc_min_addr t) \<and>
       unat (tc_max_addr t) \<le> unat (tc_max_addr c) \<and> length (tc_vec t) \<le> length (tc_vec c) \<and>
       (tc_min_addr t = tc_min_addr c + (e + 1) \<or> tc_min_addr t \<in> td_addr ` set (tc_vec c))"
    "vec_cells cells (tc_vec c) = vec_cells cells (tc_vec l) +
       (case r of None \<Rightarrow> {#} | Some t \<Rightarrow> vec_cells cells (tc_vec t))"
    "length (tc_vec l) = length (filter
       (\<lambda>x. unat (td_addr x) \<le> unat (tc_min_addr c) + unat e) (tc_vec c))"
    "r = None \<longleftrightarrow> (\<forall>x \<in> set (tc_vec c). td_end cells x \<le> Suc (unat (tc_min_addr c) + unat e))"
    by (rule tc_split_wf [OF less.prems(1), of e])
  from s(1) have sp: "so_split_inclusive_at (tc_ops cap ops) c e = Some (l, r, tc_empty)"
    by (simp add: tc_ops_def tc_op_split_inclusive_at_def tc_consume_mut_def)
  obtain y where y: "tc_vec l = [y]"
    using s(9) less.prems(2) a by (auto simp: length_Suc_conv)
  have ya: "td_addr y = ?a" and ym: "td_end cells y = unat (tc_max_addr l)"
    using s(2,4) y by (simp_all add: tc_wf_def)
  have xm: "td_end cells x = unat (tc_max_addr c)"
    using less.prems by (simp add: tc_wf_def)
  have yr: "td_end cells y \<le> unat ?a + page_room ?p (unat ?a)"
    using s(6) y unfolding e(2) [symmetric] by simp
  show ?case
  proof (cases r)
    case None
    then show ?thesis
      using page_chunks_list_step [OF e(1) sp] s(2-5) y ya ym xm yr a by simp
  next
    case (Some t)
    then have t: "tc_wf ok cells t" "tc_pt_addr t = tc_pt_addr c"
      "unat ?a + unat e < unat (tc_min_addr t)" "unat (tc_max_addr t) \<le> unat (tc_max_addr c)"
      "length (tc_vec t) \<le> 1"
      using s(7) less.prems(2) a by simp_all
    have t6: "tc_min_addr t = ?a + (e + 1)"
      using s(7) Some less.prems(2) a t(3) by auto
    obtain z where z: "tc_vec t = [z]"
      using t(1,5) by (cases "tc_vec t") (auto simp: tc_wf_def)
    have za: "td_addr z = tc_min_addr t" and zm: "td_end cells z = unat (tc_max_addr t)"
      using t(1) z by (simp_all add: tc_wf_def)
    have "tc_span t < tc_span c"
      using t(3,4) tc_wf_min_max [OF t(1)] by (auto simp: tc_span_def)
    from less.hyps [OF this t(1) z] obtain chunks where ch:
      "page_chunks_list (tc_ops cap ops) t (?a + (e + 1)) page_size = Some chunks"
      "\<forall>ch \<in> set chunks. tc_wf ok cells (snd ch) \<and> tc_pt_addr (snd ch) = tc_pt_addr t \<and>
        tc_min_addr (snd ch) = fst ch \<and>
        (\<exists>y. tc_vec (snd ch) = [y] \<and> unat (td_addr z) \<le> unat (td_addr y) \<and>
           td_end cells y \<le> td_end cells z \<and>
           td_end cells y \<le> unat (td_addr y) + page_room ?p (unat (td_addr y)))"
      unfolding t6 by blast
    have "unat (td_addr x) \<le> unat (td_addr z)" "td_end cells z \<le> td_end cells x"
      using t(3,4) za zm xm a by simp_all
    note zx = this
    show ?thesis
    proof (intro exI [of _ "(?a, l) # chunks"] conjI ballI)
      show "page_chunks_list (tc_ops cap ops) c ?a page_size = Some ((?a, l) # chunks)"
        using page_chunks_list_step [OF e(1) sp] ch(1) Some by simp
      fix w assume w: "w \<in> set ((?a, l) # chunks)"
      show "tc_wf ok cells (snd w)" "tc_pt_addr (snd w) = tc_pt_addr c"
        using w s(2,3) ch(2) t(2) by auto
      show "tc_min_addr (snd w) = fst w"
        using w s(4) ch(2) by auto
      show "\<exists>y. tc_vec (snd w) = [y] \<and> unat (td_addr x) \<le> unat (td_addr y) \<and>
           td_end cells y \<le> td_end cells x \<and>
           td_end cells y \<le> unat (td_addr y) + page_room ?p (unat (td_addr y))"
      proof (cases "w = (?a, l)")
        case True
        then show ?thesis using y ya ym xm yr a s(5) by simp
      next
        case False
        with w ch(2) obtain y' where y': "tc_vec (snd w) = [y']"
          "unat (td_addr z) \<le> unat (td_addr y')" "td_end cells y' \<le> td_end cells z"
          "td_end cells y' \<le> unat (td_addr y') + page_room ?p (unat (td_addr y'))"
          by auto
        from order.trans [OF zx(1) y'(2)] order.trans [OF y'(3) zx(2)] y'(1,4)
        show ?thesis by blast
      qed
    qed
  qed
qed

end

end
