(* ===== verification/Page_Info.thy ===== *)
theory Page_Info
  imports Address_Ops "HOL-Library.Product_Lexorder"
begin

text \<open>
  \<open>memflow/src/types/page.rs\<close> and \<open>memflow/src/types/physical_address.rs\<close>: page type
  flags, pages, and physical addresses that carry the type and the size of their page. The
  lemmas say which flags an update sets, and for which page sizes the size stored as a
  logarithm in a byte is read back unchanged.
\<close>

section \<open>Page types\<close>

text \<open>A \<open>bitflags\<close> struct over \<open>u8\<close>: \<open>!\<close> keeps the declared flags only.\<close>

type_synonym page_type = u8

definition PT_NONE :: page_type where [flag_defs]: "PT_NONE = 0x00"
definition PT_UNKNOWN :: page_type where [flag_defs]: "PT_UNKNOWN = 0x01"
definition PT_PAGE_TABLE :: page_type where [flag_defs]: "PT_PAGE_TABLE = 0x02"
definition PT_WRITEABLE :: page_type where [flag_defs]: "PT_WRITEABLE = 0x04"
definition PT_READ_ONLY :: page_type where [flag_defs]: "PT_READ_ONLY = 0x08"
definition PT_NOEXEC :: page_type where [flag_defs]: "PT_NOEXEC = 0x10"

definition page_type_all :: page_type where
  [flag_defs]: "page_type_all =
     PT_UNKNOWN OR PT_PAGE_TABLE OR PT_WRITEABLE OR PT_READ_ONLY OR PT_NOEXEC"

definition page_type_not :: "page_type \<Rightarrow> page_type" where
  [flag_defs]: "page_type_not t = NOT t AND page_type_all"

definition page_type_contains :: "page_type \<Rightarrow> page_type \<Rightarrow> bool" where
  "page_type_contains t f \<longleftrightarrow> t AND f = f"

definition page_type_default :: page_type where
  [flag_defs]: "page_type_default = PT_UNKNOWN"

definition pt_write :: "page_type \<Rightarrow> bool \<Rightarrow> page_type" where
  "pt_write t flag =
     (let t = t AND page_type_not (PT_WRITEABLE OR PT_READ_ONLY OR PT_UNKNOWN)
      in if flag then t OR PT_WRITEABLE else t OR PT_READ_ONLY)"

definition pt_noexec :: "page_type \<Rightarrow> bool \<Rightarrow> page_type" where
  "pt_noexec t flag =
     (let t = t AND page_type_not PT_NOEXEC
      in if flag then t OR PT_NOEXEC else t)"

definition pt_page_table :: "page_type \<Rightarrow> bool \<Rightarrow> page_type" where
  "pt_page_table t flag =
     (let t = t AND page_type_not (PT_PAGE_TABLE OR PT_UNKNOWN)
      in if flag then t OR PT_PAGE_TABLE else t)"

section \<open>Pages\<close>

record page =
  page_type_of :: page_type
  page_base_of :: address
  page_size_of :: usize

definition PAGE_INVALID :: page where
  "PAGE_INVALID = \<lparr>page_type_of = PT_UNKNOWN, page_base_of = ADDRESS_INVALID, page_size_of = 0\<rparr>"

definition page_invalid :: page where "page_invalid = PAGE_INVALID"

definition page_is_valid :: "page \<Rightarrow> bool" where
  "page_is_valid p \<longleftrightarrow> is_valid (page_base_of p) \<and> page_size_of p \<noteq> 0"

section \<open>Physical addresses\<close>

record phys_addr =
  pa_address :: address
  pa_page_type :: page_type
  pa_page_size_log2 :: u8

definition pa_from_address :: "address \<Rightarrow> phys_addr" where
  "pa_from_address a = \<lparr>pa_address = a, pa_page_type = PT_UNKNOWN, pa_page_size_log2 = 0\<rparr>"

definition pa_from_i32 :: "u32 \<Rightarrow> phys_addr" where
  "pa_from_i32 i = pa_from_address (address_from_i32 i)"

definition pa_from_u32 :: "u32 \<Rightarrow> phys_addr" where
  "pa_from_u32 i = pa_from_address (address_from_u32 i)"

definition pa_from_u64 :: "u64 \<Rightarrow> phys_addr" where
  "pa_from_u64 i = pa_from_address (address_from_u64 i)"

definition pa_from_usize :: "usize \<Rightarrow> phys_addr" where
  "pa_from_usize i = pa_from_address (address_from_usize i)"

definition address_from_pa :: "phys_addr \<Rightarrow> address" where
  "address_from_pa p = address_from_u64 (as_u64 (pa_address p))"

definition PA_NULL :: phys_addr where
  "PA_NULL = \<lparr>pa_address = address_null, pa_page_type = PT_UNKNOWN, pa_page_size_log2 = 0\<rparr>"

definition PA_INVALID :: phys_addr where
  "PA_INVALID = \<lparr>pa_address = ADDRESS_INVALID, pa_page_type = PT_UNKNOWN, pa_page_size_log2 = 0\<rparr>"

definition pa_null :: phys_addr where "pa_null = PA_NULL"
definition pa_invalid :: phys_addr where "pa_invalid = PA_INVALID"
definition pa_default :: phys_addr where "pa_default = PA_NULL"

text \<open>\<open>u64::leading_zeros\<close>: zero bits above the highest set bit.\<close>

definition leading_zeros :: "u64 \<Rightarrow> nat" where
  "leading_zeros w = length (takeWhile (\<lambda>k. \<not> bit w k) (rev [0..<64]))"

definition pa_with_page :: "address \<Rightarrow> page_type \<Rightarrow> usize \<Rightarrow> phys_addr" where
  "pa_with_page a t page_size =
     \<lparr>pa_address = a, pa_page_type = t,
      pa_page_size_log2 = of_nat (64 - leading_zeros page_size) - 2\<rparr>"

definition pa_is_null :: "phys_addr \<Rightarrow> bool" where
  "pa_is_null p \<longleftrightarrow> is_null (pa_address p)"

definition pa_is_valid :: "phys_addr \<Rightarrow> bool" where
  "pa_is_valid p \<longleftrightarrow> is_valid (pa_address p)"

definition pa_has_page :: "phys_addr \<Rightarrow> bool" where
  "pa_has_page p \<longleftrightarrow> pa_page_size_log2 p \<noteq> 0"

text \<open>
  \<open>(2 << self.page_size_log2) as usize\<close>: the literal defaults to \<open>i32\<close>, so the shift is a
  32-bit one (its amount modulo 32) and its result is sign-extended by the cast.
\<close>

definition pa_page_size :: "phys_addr \<Rightarrow> usize" where
  "pa_page_size p = scast (push_bit (unat (pa_page_size_log2 p) mod 32) (2 :: u32))"

definition pa_page_base :: "phys_addr \<Rightarrow> address option" where
  "pa_page_base p =
     (if \<not> pa_has_page p then Some ADDRESS_INVALID
      else as_page_aligned (pa_address p) (pa_page_size p))"

definition pa_containing_page :: "phys_addr \<Rightarrow> page option" where
  "pa_containing_page p = do {
     b \<leftarrow> pa_page_base p;
     Some \<lparr>page_type_of = pa_page_type p, page_base_of = b, page_size_of = pa_page_size p\<rparr>
   }"

definition pa_as_u32 :: "phys_addr \<Rightarrow> u32" where "pa_as_u32 p = as_u32 (pa_address p)"
definition pa_as_u64 :: "phys_addr \<Rightarrow> u64" where "pa_as_u64 p = as_u64 (pa_address p)"
definition pa_as_usize :: "phys_addr \<Rightarrow> usize" where "pa_as_usize p = as_usize (pa_address p)"

text \<open>\<open>derive(PartialOrd, Ord)\<close>: lexicographic in the order of the fields.\<close>

instantiation phys_addr_ext :: (linorder) linorder
begin

definition less_eq_phys_addr_ext :: "'a phys_addr_scheme \<Rightarrow> 'a phys_addr_scheme \<Rightarrow> bool" where
  "less_eq_phys_addr_ext p q \<longleftrightarrow>
     (pa_address p, pa_page_type p, pa_page_size_log2 p, phys_addr.more p)
       \<le> (pa_address q, pa_page_type q, pa_page_size_log2 q, phys_addr.more q)"

definition less_phys_addr_ext :: "'a phys_addr_scheme \<Rightarrow> 'a phys_addr_scheme \<Rightarrow> bool" where
  "less_phys_addr_ext p q \<longleftrightarrow>
     (pa_address p, pa_page_type p, pa_page_size_log2 p, phys_addr.more p)
       < (pa_address q, pa_page_type q, pa_page_size_log2 q, phys_addr.more q)"

instance
proof
  fix p q r :: "'a phys_addr_scheme"
  show "p < q \<longleftrightarrow> p \<le> q \<and> \<not> q \<le> p"
    unfolding less_eq_phys_addr_ext_def less_phys_addr_ext_def by (rule less_le_not_le)
  show "p \<le> p"
    unfolding less_eq_phys_addr_ext_def by (rule order.refl)
  show "p \<le> q \<Longrightarrow> q \<le> r \<Longrightarrow> p \<le> r"
    unfolding less_eq_phys_addr_ext_def by (rule order.trans)
  show "p \<le> q \<Longrightarrow> q \<le> p \<Longrightarrow> p = q"
    unfolding less_eq_phys_addr_ext_def by (cases p; cases q) (auto dest: order.antisym)
  show "p \<le> q \<or> q \<le> p"
    unfolding less_eq_phys_addr_ext_def by (rule linear)
qed

end

section \<open>Facts on page types\<close>

lemma less_8_cases:
  assumes "(k :: nat) < 8"
  obtains "k = 0" | "k = 1" | "k = 2" | "k = 3" | "k = 4" | "k = 5" | "k = 6" | "k = 7"
  using assms by linarith

lemma bit_u8_eqI:
  assumes "\<And>k. 8 \<le> k \<Longrightarrow> \<not> P k" and "\<And>k. k < 8 \<Longrightarrow> bit (w :: u8) k \<longleftrightarrow> P k"
  shows "bit w k \<longleftrightarrow> P k"
  using assms bit_imp_le_length [of w k] by (cases "k < 8") auto

lemma page_type_contains_iff: "page_type_contains t f \<longleftrightarrow> (\<forall>k. bit f k \<longrightarrow> bit t k)"
proof
  assume "page_type_contains t f"
  then show "\<forall>k. bit f k \<longrightarrow> bit t k"
    by (metis bit_and_iff page_type_contains_def)
next
  assume "\<forall>k. bit f k \<longrightarrow> bit t k"
  then show "page_type_contains t f"
    by (auto simp: page_type_contains_def bit_and_iff intro: bit_word_eqI)
qed

text \<open>The bits of the flags, one test per position.\<close>

lemma bit_all_but [simp]:
  "bit (page_type_not (PT_WRITEABLE OR PT_READ_ONLY OR PT_UNKNOWN)) k \<longleftrightarrow> k = 1 \<or> k = 4"
  "bit (page_type_not PT_NOEXEC) k \<longleftrightarrow> k = 0 \<or> k = 1 \<or> k = 2 \<or> k = 3"
  "bit (page_type_not (PT_PAGE_TABLE OR PT_UNKNOWN)) k \<longleftrightarrow> k = 2 \<or> k = 3 \<or> k = 4"
  by (rule bit_u8_eqI; (elim less_8_cases)?; simp add: flag_defs)+

lemma bit_flags [simp]:
  "bit PT_WRITEABLE k \<longleftrightarrow> k = 2"
  "bit PT_READ_ONLY k \<longleftrightarrow> k = 3"
  "bit PT_NOEXEC k \<longleftrightarrow> k = 4"
  "bit PT_PAGE_TABLE k \<longleftrightarrow> k = 1"
  "bit PT_UNKNOWN k \<longleftrightarrow> k = 0"
  by (rule bit_u8_eqI; (elim less_8_cases)?; simp add: flag_defs)+

lemma bit_pt_write:
  "bit (pt_write t f) k \<longleftrightarrow> k = (if f then 2 else 3) \<or> (k = 1 \<or> k = 4) \<and> bit t k"
  by (auto simp: pt_write_def Let_def bit_or_iff bit_and_iff)

lemma bit_pt_noexec:
  "bit (pt_noexec t f) k \<longleftrightarrow> f \<and> k = 4 \<or> (k = 0 \<or> k = 1 \<or> k = 2 \<or> k = 3) \<and> bit t k"
  by (auto simp: pt_noexec_def Let_def bit_or_iff bit_and_iff)

lemma bit_pt_page_table:
  "bit (pt_page_table t f) k \<longleftrightarrow> f \<and> k = 1 \<or> (k = 2 \<or> k = 3 \<or> k = 4) \<and> bit t k"
  by (auto simp: pt_page_table_def Let_def bit_or_iff bit_and_iff)

section \<open>Facts on page sizes\<close>

lemma leading_zeros_exp:
  assumes "k < 64"
  shows "leading_zeros (2 ^ k) = 63 - k"
proof -
  have split: "rev [0..<64] = rev [Suc k..<64] @ k # rev [0..<k]"
    using assms upt_add_eq_append [of 0 k "64 - k"] by (simp add: upt_conv_Cons)
  have "takeWhile (\<lambda>j. \<not> bit (2 ^ k :: u64) j) (rev [0..<64]) = rev [Suc k..<64]"
    unfolding split using assms by (subst takeWhile_append2) (auto simp: bit_exp_iff)
  then show ?thesis
    by (simp add: leading_zeros_def)
qed

lemma pa_log2_exp:
  assumes "0 < k" and "k < 64"
  shows "pa_page_size_log2 (pa_with_page a t (2 ^ k)) = of_nat (k - 1)"
proof -
  have "64 - leading_zeros (2 ^ k) = Suc k"
    using assms by (simp add: leading_zeros_exp)
  then show ?thesis
    using assms by (simp add: pa_with_page_def)
qed

lemma page_size_shift:
  assumes "1 \<le> k" and "k \<le> 30"
  shows "scast (push_bit (k - 1) (2 :: u32)) = (2 ^ k :: u64)"
proof (rule bit_word_eqI)
  fix n assume "n < LENGTH(64)"
  then have n: "n < 64" by simp
  have "push_bit (k - 1) (2 :: u32) = 2 ^ k"
    using assms by (cases k) (simp_all add: push_bit_eq_mult)
  then show "bit (scast (push_bit (k - 1) (2 :: u32)) :: u64) n \<longleftrightarrow> bit (2 ^ k :: u64) n"
    using assms n by (auto simp: bit_signed_iff bit_exp_iff min_def)
qed

lemma pa_page_size_exp:
  assumes "1 \<le> k" and "k \<le> 30"
  shows "pa_page_size (pa_with_page a t (2 ^ k)) = 2 ^ k"
proof -
  have "unat (of_nat (k - 1) :: u8) mod 32 = k - 1"
    using assms by (simp add: unat_of_nat del: of_nat_diff)
  then show ?thesis
    using assms page_size_shift [OF assms]
    by (simp only: pa_page_size_def pa_log2_exp)
qed

lemma pa_with_page_fields [simp]:
  "pa_address (pa_with_page a t s) = a"
  "pa_page_type (pa_with_page a t s) = t"
  by (simp_all add: pa_with_page_def)

lemma pa_has_page_exp:
  assumes "2 \<le> k" and "k \<le> 30"
  shows "pa_has_page (pa_with_page a t (2 ^ k))"
proof -
  have "unat (of_nat (k - 1) :: u8) = k - 1"
    using assms by (simp add: unat_of_nat del: of_nat_diff)
  then show ?thesis
    using assms by (auto simp: pa_has_page_def pa_log2_exp simp del: of_nat_diff)
qed

lemma exp_neq_zero_64: "k < 64 \<Longrightarrow> (2 :: u64) ^ k \<noteq> 0"
  by (simp add: exp_eq_zero_iff)

section \<open>Properties\<close>

text \<open>
  C31. A physical address built for a page of 4 bytes to 1 GiB (every page size of the three
  x86 modes) carries page information, gives the page size back, and its containing page is
  the aligned page of that size and type around the address.
\<close>

theorem phys_addr_page_roundtrip:
  assumes "2 \<le> k" and "k \<le> 30"
  shows "pa_has_page (pa_with_page a t (2 ^ k)) \<and>
         pa_page_size (pa_with_page a t (2 ^ k)) = 2 ^ k \<and>
         pa_containing_page (pa_with_page a t (2 ^ k)) =
           Some \<lparr>page_type_of = t, page_base_of = page_align a (2 ^ k), page_size_of = 2 ^ k\<rparr> \<and>
         unat (page_align a (2 ^ k)) \<le> unat a \<and>
         unat a < unat (page_align a (2 ^ k)) + 2 ^ k \<and> 2 ^ k dvd unat (page_align a (2 ^ k))"
proof -
  have u: "unat ((2 :: u64) ^ k) = 2 ^ k"
    using assms by (simp add: unat_exp_64)
  have "unat a mod 2 ^ k < 2 ^ k"
    by simp
  then have "unat a < unat a div 2 ^ k * 2 ^ k + 2 ^ k"
    using div_mult_mod_eq [of "unat a" "2 ^ k"] by linarith
  then have "unat a < unat (page_align a (2 ^ k)) + 2 ^ k"
    by (simp only: unat_page_align u)
  moreover have "(2 :: u64) ^ k \<noteq> 0"
    using assms by (simp add: exp_neq_zero_64)
  moreover note page_align_aligned [of "2 ^ k" a] page_align_le [of a "2 ^ k"]
  ultimately show ?thesis
    using assms
    by (simp add: pa_has_page_exp pa_page_size_exp pa_containing_page_def pa_page_base_def
        as_page_aligned_def u)
qed

theorem phys_addr_page_roundtrip_witness:
  "pa_containing_page (pa_with_page 0x1234567 PT_READ_ONLY (2 ^ 21)) =
     Some \<lparr>page_type_of = PT_READ_ONLY, page_base_of = 0x1200000, page_size_of = 0x200000\<rparr>"
  using phys_addr_page_roundtrip [of 21 "0x1234567" PT_READ_ONLY]
  by (simp add: page_align_def)

text \<open>
  The flag updates of a page type, flag by flag: \<open>write\<close> sets exactly one of the two
  access flags and clears the unknown flag, \<open>noexec\<close> changes that flag alone, and
  \<open>page_table\<close> sets or clears its flag and the unknown flag. Other flags are untouched, the
  first two commute, and a later update of the same kind overrides an earlier one.
\<close>

lemma page_type_updates:
  "(page_type_contains (pt_write t f) PT_WRITEABLE \<longleftrightarrow> f) \<and>
   (page_type_contains (pt_write t f) PT_READ_ONLY \<longleftrightarrow> \<not> f) \<and>
   \<not> page_type_contains (pt_write t f) PT_UNKNOWN \<and>
   (page_type_contains (pt_write t f) PT_NOEXEC \<longleftrightarrow> page_type_contains t PT_NOEXEC) \<and>
   (page_type_contains (pt_write t f) PT_PAGE_TABLE \<longleftrightarrow> page_type_contains t PT_PAGE_TABLE) \<and>
   (page_type_contains (pt_noexec t f) PT_NOEXEC \<longleftrightarrow> f) \<and>
   (page_type_contains (pt_noexec t f) PT_WRITEABLE \<longleftrightarrow> page_type_contains t PT_WRITEABLE) \<and>
   (page_type_contains (pt_noexec t f) PT_UNKNOWN \<longleftrightarrow> page_type_contains t PT_UNKNOWN) \<and>
   (page_type_contains (pt_page_table t f) PT_PAGE_TABLE \<longleftrightarrow> f) \<and>
   \<not> page_type_contains (pt_page_table t f) PT_UNKNOWN \<and>
   (page_type_contains (pt_page_table t f) PT_NOEXEC \<longleftrightarrow> page_type_contains t PT_NOEXEC) \<and>
   pt_write (pt_noexec t g) f = pt_noexec (pt_write t f) g \<and>
   pt_write (pt_write t g) f = pt_write t f \<and> pt_noexec (pt_noexec t g) f = pt_noexec t f"
proof -
  have c: "page_type_contains x PT_WRITEABLE \<longleftrightarrow> bit x 2"
    "page_type_contains x PT_READ_ONLY \<longleftrightarrow> bit x 3"
    "page_type_contains x PT_NOEXEC \<longleftrightarrow> bit x 4"
    "page_type_contains x PT_PAGE_TABLE \<longleftrightarrow> bit x 1"
    "page_type_contains x PT_UNKNOWN \<longleftrightarrow> bit x 0" for x
    by (simp_all add: page_type_contains_iff)
  have "pt_write (pt_noexec t g) f = pt_noexec (pt_write t f) g"
    by (rule bit_word_eqI) (auto simp: bit_pt_write bit_pt_noexec)
  moreover have "pt_write (pt_write t g) f = pt_write t f"
    by (rule bit_word_eqI) (auto simp: bit_pt_write)
  moreover have "pt_noexec (pt_noexec t g) f = pt_noexec t f"
    by (rule bit_word_eqI) (auto simp: bit_pt_noexec)
  ultimately show ?thesis
    by (simp add: c bit_pt_write bit_pt_noexec bit_pt_page_table)
qed

text \<open>
  Outside that range the stored logarithm does not give the size back: a 2 GiB page
  reads as a sign-extended negative number, a 4 GiB page reads as size 0 so that asking for
  its page panics (remainder by zero), and a 2 byte page loses its page information.
\<close>

lemma phys_addr_page_size_limits:
  "pa_page_size (pa_with_page a t (2 ^ 31)) = 0xFFFFFFFF80000000 \<and>
   pa_page_size (pa_with_page a t (2 ^ 32)) = 0 \<and>
   pa_containing_page (pa_with_page a t (2 ^ 32)) = None \<and>
   \<not> pa_has_page (pa_with_page a t 2)"
proof -
  have l31: "pa_page_size_log2 (pa_with_page a t (2 ^ 31)) = 30"
    by (subst pa_log2_exp) simp_all
  have l32: "pa_page_size_log2 (pa_with_page a t (2 ^ 32)) = 31"
    by (subst pa_log2_exp) simp_all
  have l1: "pa_page_size_log2 (pa_with_page a t 2) = 0"
    using pa_log2_exp [of 1 a t] by simp
  have s31: "scast (push_bit 30 (2 :: u32)) = (0xFFFFFFFF80000000 :: u64)"
    by (simp add: scast_eq)
  have "pa_page_size (pa_with_page a t (2 ^ 31)) = 0xFFFFFFFF80000000"
    unfolding pa_page_size_def l31 using s31 by simp
  moreover have s32: "pa_page_size (pa_with_page a t (2 ^ 32)) = 0"
    unfolding pa_page_size_def l32 by simp
  moreover have "pa_page_base (pa_with_page a t (2 ^ 32)) = None"
    unfolding pa_page_base_def pa_has_page_def l32 s32 as_page_aligned_def by simp
  ultimately show ?thesis
    by (simp add: pa_containing_page_def pa_has_page_def l1)
qed

end
