(* ===== verification/Result_Types.thy ===== *)
theory Result_Types
  imports Memflow_Prelude
begin

text \<open>
  \<open>memflow/src/error.rs\<close>: the error type, the recoverable \<open>PartialError\<close>, the
  \<open>Result\<close> types built on them and the \<open>PartialResultExt\<close> conversions. Rust strings
  are \<^typ>\<open>string\<close>. The lemmas say which information each conversion keeps.
\<close>

section \<open>Errors\<close>

datatype error =
    Other string
  | Partial
  | Bounds
  | IO string
  | InvalidArchitecture
  | Connector string
  | PhysicalMemory string
  | VirtualTranslate
  | VirtualMemory string
  | Encoding

fun error_to_str_pair :: "error \<Rightarrow> string \<times> string option" where
  "error_to_str_pair (Other e) = (''other error'', Some e)"
| "error_to_str_pair Partial = (''partial error'', None)"
| "error_to_str_pair Bounds = (''out of bounds'', None)"
| "error_to_str_pair (IO e) = (''io error'', Some e)"
| "error_to_str_pair InvalidArchitecture = (''invalid architecture'', None)"
| "error_to_str_pair (Connector e) = (''connector error'', Some e)"
| "error_to_str_pair (PhysicalMemory e) = (''physical memory error'', Some e)"
| "error_to_str_pair VirtualTranslate = (''virtual address translation failed'', None)"
| "error_to_str_pair (VirtualMemory e) = (''virtual memory error'', Some e)"
| "error_to_str_pair Encoding = (''encoding error'', None)"

definition error_to_str :: "error \<Rightarrow> string" where
  "error_to_str e = fst (error_to_str_pair e)"

text \<open>\<open>Display\<close>: \<open>"{}: {}"\<close> when there is a value, the description alone otherwise.\<close>

definition display_pair :: "string \<times> string option \<Rightarrow> string" where
  "display_pair p = (case snd p of Some v \<Rightarrow> fst p @ '': '' @ v | None \<Rightarrow> fst p)"

definition error_display :: "error \<Rightarrow> string" where
  "error_display e = display_pair (error_to_str_pair e)"

definition error_from_str :: "string \<Rightarrow> error" where
  "error_from_str s = Other s"

section \<open>Partial errors\<close>

datatype 'a partial_error =
    HardError error
  | PartialVirtualRead 'a
  | PartialVirtualWrite

fun partial_to_str_pair :: "'a partial_error \<Rightarrow> string \<times> string option" where
  "partial_to_str_pair (HardError e) = (''other error'', Some (fst (error_to_str_pair e)))"
| "partial_to_str_pair (PartialVirtualRead _) = (''partial virtual read error'', None)"
| "partial_to_str_pair PartialVirtualWrite = (''partial virtual write error'', None)"

definition partial_to_str :: "'a partial_error \<Rightarrow> string" where
  "partial_to_str e = fst (partial_to_str_pair e)"

definition partial_display :: "'a partial_error \<Rightarrow> string" where
  "partial_display e = display_pair (partial_to_str_pair e)"

definition error_from_partial :: "'a partial_error \<Rightarrow> error" where
  "error_from_partial _ = Partial"

definition partial_from_error :: "error \<Rightarrow> 'a partial_error" where
  "partial_from_error e = HardError e"

type_synonym 'a result = "error + 'a"
type_synonym 'a partial_result = "'a partial_error + 'a"

section \<open>PartialResultExt\<close>

fun pr_data :: "'a partial_result \<Rightarrow> 'a result" where
  "pr_data (Inr d) = Inr d"
| "pr_data (Inl _) = Inl Partial"

fun pr_data_part :: "'a partial_result \<Rightarrow> 'a result" where
  "pr_data_part (Inr d) = Inr d"
| "pr_data_part (Inl (PartialVirtualRead d)) = Inr d"
| "pr_data_part (Inl _) = Inl Partial"

fun pr_map_data :: "('a \<Rightarrow> 'b) \<Rightarrow> 'a partial_result \<Rightarrow> 'b partial_result" where
  "pr_map_data f (Inr d) = Inr (f d)"
| "pr_map_data f (Inl (HardError e)) = Inl (HardError e)"
| "pr_map_data f (Inl (PartialVirtualRead d)) = Inr (f d)"
| "pr_map_data f (Inl PartialVirtualWrite) = Inl PartialVirtualWrite"

text \<open>\<open>e?\<close> on a \<open>Result\<close> inside a function that returns a \<open>PartialResult\<close>.\<close>

definition to_partial :: "'a result \<Rightarrow> 'b partial_error + 'a" where
  "to_partial r = (case r of Inl e \<Rightarrow> Inl (partial_from_error e) | Inr d \<Rightarrow> Inr d)"

section \<open>Facts\<close>

lemma to_partial_simps [simp]:
  "to_partial (Inl e) = Inl (HardError e)"
  "to_partial (Inr d) = Inr d"
  by (simp_all add: to_partial_def partial_from_error_def)

lemma pr_data_part_refines_data: "pr_data r = Inr d \<Longrightarrow> pr_data_part r = Inr d"
  by (cases r) auto

lemma pr_data_part_Inr_iff:
  "pr_data_part r = Inr d \<longleftrightarrow> r = Inr d \<or> r = Inl (PartialVirtualRead d)"
  by (cases r rule: pr_data_part.cases) auto

lemma pr_map_data_id: "pr_map_data f (pr_map_data g r) = pr_map_data (f \<circ> g) r"
  by (cases r rule: pr_data_part.cases) auto

text \<open>
  What the three conversions keep of a result: \<open>data\<close> succeeds on a complete result
  only, \<open>data_part\<close> on a complete or a partially read one, and \<open>map_data\<close> returns a
  success exactly where \<open>data_part\<close> does. So after \<open>map_data\<close> a partial read can no
  longer be told from a complete one, although its comment says it keeps that information.
\<close>

lemma partial_result_conversions:
  "((\<exists>d. pr_data r = Inr d) \<longleftrightarrow> (\<exists>d. r = Inr d)) \<and>
   ((\<exists>d. pr_data_part r = Inr d) \<longleftrightarrow> (\<exists>d. r = Inr d) \<or> (\<exists>d. r = Inl (PartialVirtualRead d))) \<and>
   pr_map_data f r = (case pr_data_part r of Inr d \<Rightarrow> Inr (f d)
     | Inl _ \<Rightarrow> (case r of Inl (HardError e) \<Rightarrow> Inl (HardError e)
                          | _ \<Rightarrow> Inl PartialVirtualWrite)) \<and>
   pr_map_data f (Inl (PartialVirtualRead d)) = pr_map_data f (Inr d)"
  by (cases r rule: pr_data_part.cases) auto

end
