(* ===== verification/Mmu_Spec.thy ===== *)
theory Mmu_Spec
  imports Translate_Data Page_Info Result_Types
begin

text \<open>
  The parameters of a memory management unit and the steps of a page walk:
  \<open>memflow/src/architecture/mmu_spec.rs\<close> without the batch walk, the architectures of
  \<open>memflow/src/architecture/x86\<close>, and the traits of \<open>memflow/src/architecture/mod.rs\<close>.
  A step indexes \<open>virtual_address_splits\<close>, so it is a natural number; an index out of
  range panics. What the steps are for the three architectures is shown in \<open>X86_Paging\<close>.
\<close>

section \<open>The MMU specification\<close>

record arch_mmu_spec =
  virtual_address_splits :: "u8 list"
  valid_final_page_steps :: "nat list"
  address_space_bits :: u8
  addr_size :: u8
  pte_size :: usize
  present_bit :: u8
  writeable_bit :: u8
  nx_bit :: u8
  large_page_bit :: u8

definition nth_opt :: "'a list \<Rightarrow> nat \<Rightarrow> 'a option" where
  "nth_opt xs i = (if i < length xs then Some (xs ! i) else None)"

text \<open>\<open>trailing_zeros() as u8\<close>: zero bits below the lowest set bit, 64 for zero.\<close>

definition trailing_zeros :: "u64 \<Rightarrow> nat" where
  "trailing_zeros w = length (takeWhile (\<lambda>k. \<not> bit w k) [0..<64])"

definition pte_addr_mask :: "arch_mmu_spec \<Rightarrow> address \<Rightarrow> nat \<Rightarrow> u64 option" where
  "pte_addr_mask spec pte_addr step = do {
     let mx = address_space_bits spec - 1;
     split \<leftarrow> nth_opt (virtual_address_splits spec) step;
     let mn = split + (if Suc step = length (virtual_address_splits spec) then 0
                       else of_nat (trailing_zeros (pte_size spec)));
     let mask = bit_mask_u64 (ucast mn) (ucast mx);
     Some (as_u64 pte_addr AND as_u64 mask)
   }"

definition virt_addr_bit_range :: "arch_mmu_spec \<Rightarrow> nat \<Rightarrow> (u8 \<times> u8) option" where
  "virt_addr_bit_range spec step = do {
     split \<leftarrow> nth_opt (virtual_address_splits spec) step;
     let max_index_bits = sum_list (drop step (virtual_address_splits spec));
     let min_index_bits = max_index_bits - split;
     Some (min_index_bits, max_index_bits)
   }"

definition virt_addr_to_pte_offset :: "arch_mmu_spec \<Rightarrow> address \<Rightarrow> nat \<Rightarrow> u64 option" where
  "virt_addr_to_pte_offset spec virt_addr step = do {
     (mn, mx) \<leftarrow> virt_addr_bit_range spec step;
     let shifted = shr64 (as_u64 virt_addr) (ucast mn);
     let mask = bit_mask_u64 0 (ucast (mx - mn - 1));
     Some ((shifted AND as_u64 mask) * pte_size spec)
   }"

definition virt_addr_to_page_offset :: "arch_mmu_spec \<Rightarrow> address \<Rightarrow> nat \<Rightarrow> u64 option" where
  "virt_addr_to_page_offset spec virt_addr step = do {
     (_, mx) \<leftarrow> virt_addr_bit_range spec step;
     Some (as_u64 virt_addr AND as_u64 (bit_mask_u64 0 (ucast (mx - 1))))
   }"

definition split_count :: "arch_mmu_spec \<Rightarrow> nat" where
  "split_count spec = length (virtual_address_splits spec)"

definition pt_leaf_size :: "arch_mmu_spec \<Rightarrow> nat \<Rightarrow> usize option" where
  "pt_leaf_size spec step = do {
     (mn, mx) \<leftarrow> virt_addr_bit_range spec step;
     Some (shl64 1 (ucast (mx - mn)) * pte_size spec)
   }"

definition vtop_step :: "arch_mmu_spec \<Rightarrow> address \<Rightarrow> address \<Rightarrow> nat \<Rightarrow> address option" where
  "vtop_step spec pte_addr virt_addr step = do {
     base \<leftarrow> pte_addr_mask spec pte_addr step;
     off \<leftarrow> virt_addr_to_pte_offset spec virt_addr step;
     Some (address_from_u64 (base OR off))
   }"

text \<open>The slice \<open>[step..]\<close> may be empty, and panics only behind the end.\<close>

definition page_size_step_unchecked :: "arch_mmu_spec \<Rightarrow> nat \<Rightarrow> usize option" where
  "page_size_step_unchecked spec step =
     (if length (virtual_address_splits spec) < step then None
      else let max_index_bits = sum_list (drop step (virtual_address_splits spec))
           in Some (shl64 1 (ucast max_index_bits)))"

definition page_size_step :: "arch_mmu_spec \<Rightarrow> nat \<Rightarrow> usize option" where
  "page_size_step spec step = page_size_step_unchecked spec step"

text \<open>A level above the number of splits wraps to a slice index out of range.\<close>

definition page_size_level :: "arch_mmu_spec \<Rightarrow> nat \<Rightarrow> usize option" where
  "page_size_level spec level =
     (if length (virtual_address_splits spec) < level then None
      else page_size_step spec (length (virtual_address_splits spec) - level))"

definition get_phys_page :: "arch_mmu_spec \<Rightarrow> address \<Rightarrow> address \<Rightarrow> nat \<Rightarrow> phys_addr option" where
  "get_phys_page spec pte_addr virt_addr step = do {
     base \<leftarrow> pte_addr_mask spec pte_addr step;
     off \<leftarrow> virt_addr_to_page_offset spec virt_addr step;
     size \<leftarrow> page_size_step spec step;
     Some (pa_with_page (address_from_u64 (base OR off))
             (pt_noexec (pt_write page_type_default (bit_at pte_addr (writeable_bit spec)))
                (bit_at pte_addr (nx_bit spec)))
             size)
   }"

definition check_entry :: "arch_mmu_spec \<Rightarrow> address \<Rightarrow> nat \<Rightarrow> bool" where
  "check_entry spec pte_addr step \<longleftrightarrow> step = 0 \<or> bit_at pte_addr (present_bit spec)"

text \<open>\<open>slice::binary_search(..).is_ok()\<close> on a sorted slice, as its documentation asks for.\<close>

definition binary_search_is_ok :: "nat list \<Rightarrow> nat \<Rightarrow> bool" where
  "binary_search_is_ok xs x \<longleftrightarrow> x \<in> set xs"

definition is_final_mapping :: "arch_mmu_spec \<Rightarrow> address \<Rightarrow> nat \<Rightarrow> bool" where
  "is_final_mapping spec pte_addr step \<longleftrightarrow>
     Suc step = length (virtual_address_splits spec) \<or>
     bit_at pte_addr (large_page_bit spec) \<and>
       binary_search_is_ok (valid_final_page_steps spec) step"

text \<open>
  The filter of a request against the address space: it appends to the accepted requests
  and to the failures. The reverse split panics when the upper part is too short for it.
\<close>

type_synonym 't failure = "error \<times> address \<times> 't"

definition virt_addr_filter ::
  "'t split_ops \<Rightarrow> arch_mmu_spec \<Rightarrow> address \<times> 't
     \<Rightarrow> 't translate_data list \<Rightarrow> 't failure list
     \<Rightarrow> ('t translate_data list \<times> 't failure list) option" where
  "virt_addr_filter ops spec request valid_out fail_out = do {
     let tr_data = \<lparr>td_addr = fst request, td_buf = snd request\<rparr>;
     (left, reject, _) \<leftarrow> td_split_inclusive_at ops tr_data
        (as_usize (bit_mask_u64 0 (ucast (addr_size spec * 8 - 1))));
     let fail_out = (case reject of
         Some data \<Rightarrow> fail_out @ [(VirtualTranslate, td_addr data, td_buf data)]
       | None \<Rightarrow> fail_out);
     (_, virt_bit_range) \<leftarrow> virt_addr_bit_range spec 0;
     let virt_range = shl64 1 (ucast (virt_bit_range - 1));
     (lower, higher, _) \<leftarrow> td_split_at ops left virt_range;
     let valid_out = (if 0 < td_length ops lower then valid_out @ [lower] else valid_out);
     (case higher of
        None \<Rightarrow> Some (valid_out, fail_out)
      | Some data \<Rightarrow> do {
          (reject, higher, _) \<leftarrow> split_at_rev (td_ops ops) data virt_range;
          let lhs = as_u64 (bit_mask_u64 (ucast virt_bit_range) (ucast (addr_size spec * 8 - 1)));
          let rhs = as_u64 (td_addr higher) AND lhs;
          (if lhs XOR rhs \<noteq> 0 then Some (valid_out, fail_out)
           else do {
             let valid_out = (if 0 < td_length ops higher then valid_out @ [higher] else valid_out);
             let fail_out = (case reject of
                 Some data \<Rightarrow> fail_out @ [(VirtualTranslate, td_addr data, td_buf data)]
               | None \<Rightarrow> fail_out);
             Some (valid_out, fail_out)
           })
        })
   }"

section \<open>Architectures\<close>

datatype endianess = LittleEndian | BigEndian

record x86_architecture =
  x86_bits :: u8
  x86_endianess :: endianess
  x86_mmu :: arch_mmu_spec

definition arch_page_size :: "x86_architecture \<Rightarrow> usize option" where
  "arch_page_size arch = page_size_level (x86_mmu arch) 1"

definition arch_bits :: "x86_architecture \<Rightarrow> u8" where "arch_bits arch = x86_bits arch"

definition arch_endianess :: "x86_architecture \<Rightarrow> endianess" where
  "arch_endianess arch = x86_endianess arch"

definition arch_size_addr :: "x86_architecture \<Rightarrow> usize" where
  "arch_size_addr arch = ucast (addr_size (x86_mmu arch))"

definition arch_address_space_bits :: "x86_architecture \<Rightarrow> u8" where
  "arch_address_space_bits arch = address_space_bits (x86_mmu arch)"

definition x64_spec :: x86_architecture where
  "x64_spec = \<lparr>x86_bits = 64, x86_endianess = LittleEndian, x86_mmu = \<lparr>
     virtual_address_splits = [9, 9, 9, 9, 12], valid_final_page_steps = [2, 3, 4],
     address_space_bits = 52, addr_size = 8, pte_size = 8, present_bit = 0,
     writeable_bit = 1, nx_bit = 63, large_page_bit = 7\<rparr>\<rparr>"

definition x32_spec :: x86_architecture where
  "x32_spec = \<lparr>x86_bits = 32, x86_endianess = LittleEndian, x86_mmu = \<lparr>
     virtual_address_splits = [10, 10, 12], valid_final_page_steps = [1, 2],
     address_space_bits = 32, addr_size = 4, pte_size = 4, present_bit = 0,
     writeable_bit = 1, nx_bit = 31, large_page_bit = 7\<rparr>\<rparr>"

definition x32_pae_spec :: x86_architecture where
  "x32_pae_spec = \<lparr>x86_bits = 32, x86_endianess = LittleEndian, x86_mmu = \<lparr>
     virtual_address_splits = [2, 9, 9, 12], valid_final_page_steps = [2, 3],
     address_space_bits = 36, addr_size = 4, pte_size = 8, present_bit = 0,
     writeable_bit = 1, nx_bit = 63, large_page_bit = 7\<rparr>\<rparr>"

text \<open>
  \<open>ArchitectureObj\<close> is compared by the address of a static object: three names and a
  last one for an object from elsewhere.
\<close>

datatype architecture_obj = X64_ARCH | X32_ARCH | X32_PAE_ARCH | Other_ARCH nat

definition underlying_arch :: "architecture_obj \<Rightarrow> x86_architecture option" where
  "underlying_arch arch =
     (if arch = X64_ARCH then Some x64_spec
      else if arch = X32_ARCH then Some x32_spec
      else if arch = X32_PAE_ARCH then Some x32_pae_spec
      else None)"

record x86_scoped_translate =
  xst_arch :: x86_architecture
  xst_dtb :: address

definition xst_new :: "x86_architecture \<Rightarrow> address \<Rightarrow> x86_scoped_translate" where
  "xst_new arch dtb = \<lparr>xst_arch = arch, xst_dtb = dtb\<rparr>"

definition new_translator :: "address \<Rightarrow> architecture_obj \<Rightarrow> x86_scoped_translate result" where
  "new_translator dtb arch =
     (case underlying_arch arch of
        None \<Rightarrow> Inl InvalidArchitecture
      | Some a \<Rightarrow> Inr (xst_new a dtb))"

definition is_x86_arch :: "architecture_obj \<Rightarrow> bool" where
  "is_x86_arch arch \<longleftrightarrow> underlying_arch arch \<noteq> None"

definition translation_table_id :: "x86_scoped_translate \<Rightarrow> address \<Rightarrow> usize" where
  "translation_table_id t address = shr64 (as_u64 (xst_dtb t)) 12"

text \<open>The \<open>MMUTranslationBase\<close> of x86: one page table root.\<close>

definition get_initial_pt :: "address \<Rightarrow> address \<Rightarrow> address" where
  "get_initial_pt dtb a = dtb"

definition get_pt_by_index :: "address \<Rightarrow> nat \<Rightarrow> address" where
  "get_pt_by_index dtb i = dtb"

definition pt_count :: "address \<Rightarrow> nat" where
  "pt_count dtb = 1"

definition base_virt_addr_filter ::
  "'t split_ops \<Rightarrow> address \<Rightarrow> arch_mmu_spec \<Rightarrow> address \<times> 't
     \<Rightarrow> 't translation_chunk list \<Rightarrow> 't failure list
     \<Rightarrow> ('t translation_chunk list \<times> 't failure list) option" where
  "base_virt_addr_filter ops dtb spec request chunks out_fail = do {
     c \<leftarrow> nth_opt chunks 0;
     (vec, out_fail) \<leftarrow> virt_addr_filter ops spec request (tc_vec c) out_fail;
     Some (chunks[0 := c\<lparr>tc_vec := vec\<rparr>], out_fail)
   }"

end
