(* ===== verification/Phys_Mem.thy ===== *)
theory Phys_Mem
  imports Page_Info Result_Types
begin

text \<open>
  The trait \<open>PhysicalMemory\<close> of \<open>memflow/src/mem/phys_mem.rs\<close> with its helper methods,
  and the batcher of \<open>memflow/src/mem/phys_mem_batcher.rs\<close>. A backend is a record of its
  methods on a state; the buffers of a read list are values that go in and come out, in the
  order of the list. The locales state what a client may rely on: \<open>phys_memory_total\<close> that
  a read returns and keeps the shape of its buffers, \<open>matching_memory\<close> that the bytes it
  stores are those of the memory, \<open>readable_memory\<close> that it stores nothing else.
\<close>

section \<open>The trait\<close>

record phys_mem_metadata =
  pmd_size :: usize
  pmd_readonly :: bool

type_synonym phys_read_data = "phys_addr \<times> u8 list"
type_synonym phys_write_data = "phys_addr \<times> u8 list"

record 'm phys_mem =
  pm_read_raw_list :: "'m \<Rightarrow> phys_read_data list \<Rightarrow> (unit result \<times> u8 list list \<times> 'm) option"
  pm_write_raw_list :: "'m \<Rightarrow> phys_write_data list \<Rightarrow> (unit result \<times> 'm) option"
  pm_metadata :: "'m \<Rightarrow> phys_mem_metadata option"

definition phys_read_raw_into ::
  "'m phys_mem \<Rightarrow> 'm \<Rightarrow> phys_addr \<Rightarrow> u8 list \<Rightarrow> (unit result \<times> u8 list \<times> 'm) option" where
  "phys_read_raw_into pm m addr out = do {
     (r, bufs, m) \<leftarrow> pm_read_raw_list pm m [(addr, out)];
     Some (r, hd bufs, m)
   }"

text \<open>A \<open>Pod\<close> value is its bytes; \<open>phys_read\<close> starts from uninitialised ones.\<close>

definition phys_read_into ::
  "'m phys_mem \<Rightarrow> 'm \<Rightarrow> phys_addr \<Rightarrow> u8 list \<Rightarrow> (unit result \<times> u8 list \<times> 'm) option" where
  "phys_read_into pm m addr out = phys_read_raw_into pm m addr out"

definition phys_read_raw ::
  "'m phys_mem \<Rightarrow> 'm \<Rightarrow> phys_addr \<Rightarrow> usize \<Rightarrow> (u8 list result \<times> 'm) option" where
  "phys_read_raw pm m addr len = do {
     let buf = replicate (unat len) 0;
     (r, buf, m) \<leftarrow> phys_read_raw_into pm m addr buf;
     Some (map_sum id (\<lambda>_. buf) r, m)
   }"

definition phys_read ::
  "'m phys_mem \<Rightarrow> 'm \<Rightarrow> u8 list \<Rightarrow> phys_addr \<Rightarrow> (u8 list result \<times> 'm) option" where
  "phys_read pm m uninit addr = do {
     (r, obj, m) \<leftarrow> phys_read_into pm m addr uninit;
     Some (map_sum id (\<lambda>_. obj) r, m)
   }"

definition phys_write_raw ::
  "'m phys_mem \<Rightarrow> 'm \<Rightarrow> phys_addr \<Rightarrow> u8 list \<Rightarrow> (unit result \<times> 'm) option" where
  "phys_write_raw pm m addr data = pm_write_raw_list pm m [(addr, data)]"

definition phys_write ::
  "'m phys_mem \<Rightarrow> 'm \<Rightarrow> phys_addr \<Rightarrow> u8 list \<Rightarrow> (unit result \<times> 'm) option" where
  "phys_write pm m addr data = phys_write_raw pm m addr data"

section \<open>The batcher\<close>

record 'm phys_batcher =
  pb_pmem :: 'm
  pb_read_list :: "phys_read_data list"
  pb_write_list :: "phys_write_data list"

definition batcher_new :: "'m \<Rightarrow> 'm phys_batcher" where
  "batcher_new pmem = \<lparr>pb_pmem = pmem, pb_read_list = [], pb_write_list = []\<rparr>"

definition phys_batcher :: "'m \<Rightarrow> 'm phys_batcher" where
  "phys_batcher m = batcher_new m"

text \<open>
  \<open>commit_rw\<close>: the second component is what the borrowed read buffers hold afterwards.
\<close>

definition commit_writes ::
  "'m phys_mem \<Rightarrow> 'm phys_batcher \<Rightarrow> (unit result \<times> 'm phys_batcher) option" where
  "commit_writes pm b =
     (if pb_write_list b \<noteq> []
      then do {
        (r, m) \<leftarrow> pm_write_raw_list pm (pb_pmem b) (pb_write_list b);
        (case r of
           Inl e \<Rightarrow> Some (Inl e, b\<lparr>pb_pmem := m\<rparr>)
         | Inr _ \<Rightarrow> Some (Inr (), b\<lparr>pb_pmem := m, pb_write_list := []\<rparr>))
      }
      else Some (Inr (), b))"

definition commit_rw ::
  "'m phys_mem \<Rightarrow> 'm phys_batcher \<Rightarrow> (unit result \<times> u8 list list \<times> 'm phys_batcher) option" where
  "commit_rw pm b =
     (if pb_read_list b \<noteq> []
      then do {
        (r, bufs, m) \<leftarrow> pm_read_raw_list pm (pb_pmem b) (pb_read_list b);
        (case r of
           Inl e \<Rightarrow> Some (Inl e, bufs,
             b\<lparr>pb_pmem := m, pb_read_list := zip (map fst (pb_read_list b)) bufs\<rparr>)
         | Inr _ \<Rightarrow> do {
             (r, b) \<leftarrow> commit_writes pm (b\<lparr>pb_pmem := m, pb_read_list := []\<rparr>);
             Some (r, bufs, b)
           })
      }
      else do {
        (r, b) \<leftarrow> commit_writes pm b;
        Some (r, [], b)
      })"

definition read_raw_iter :: "'m phys_batcher \<Rightarrow> phys_read_data list \<Rightarrow> 'm phys_batcher" where
  "read_raw_iter b iter = b\<lparr>pb_read_list := pb_read_list b @ iter\<rparr>"

definition write_raw_iter :: "'m phys_batcher \<Rightarrow> phys_write_data list \<Rightarrow> 'm phys_batcher" where
  "write_raw_iter b iter = b\<lparr>pb_write_list := pb_write_list b @ iter\<rparr>"

definition read_raw_into :: "'m phys_batcher \<Rightarrow> phys_addr \<Rightarrow> u8 list \<Rightarrow> 'm phys_batcher" where
  "read_raw_into b addr out = read_raw_iter b [(addr, out)]"

definition read_into :: "'m phys_batcher \<Rightarrow> phys_addr \<Rightarrow> u8 list \<Rightarrow> 'm phys_batcher" where
  "read_into b addr out = read_raw_into b addr out"

definition write_raw_into :: "'m phys_batcher \<Rightarrow> phys_addr \<Rightarrow> u8 list \<Rightarrow> 'm phys_batcher" where
  "write_raw_into b addr out = write_raw_iter b [(addr, out)]"

definition write_into :: "'m phys_batcher \<Rightarrow> phys_addr \<Rightarrow> u8 list \<Rightarrow> 'm phys_batcher" where
  "write_into b addr out = write_raw_into b addr out"

text \<open>\<open>Drop\<close>: a last commit whose result is ignored.\<close>

definition batcher_drop :: "'m phys_mem \<Rightarrow> 'm phys_batcher \<Rightarrow> 'm option" where
  "batcher_drop pm b = map_option (\<lambda>(_, _, b). pb_pmem b) (commit_rw pm b)"

section \<open>Contracts\<close>

text \<open>
  A read of a list of places: a byte that is mapped is stored, a byte that is not, or that
  lies behind the end of the address space, is left as it was in the buffer. A buffer is a
  slice, so it has at most \<open>isize::MAX\<close> bytes.
\<close>

definition byte_at :: "(u64 \<Rightarrow> u8 option) \<Rightarrow> u64 \<Rightarrow> nat \<Rightarrow> u8 option" where
  "byte_at content a j =
     (if uint a + int j < 18446744073709551616 then content (a + of_nat j) else None)"

lemma byte_at_unat:
  "byte_at content a j =
     (if unat a + j < 18446744073709551616 then content (a + of_nat j) else None)"
proof -
  have "uint a = int (unat a)" by simp
  then have "uint a + int j < 18446744073709551616 \<longleftrightarrow> unat a + j < 18446744073709551616"
    by linarith
  then show ?thesis by (simp only: byte_at_def)
qed

definition fill_buf :: "(u64 \<Rightarrow> u8 option) \<Rightarrow> u64 \<Rightarrow> u8 list \<Rightarrow> u8 list" where
  "fill_buf content a buf =
     map (\<lambda>j. case byte_at content a j of Some v \<Rightarrow> v | None \<Rightarrow> buf ! j) [0..<length buf]"

definition fill_bufs :: "(u64 \<Rightarrow> u8 option) \<Rightarrow> phys_read_data list \<Rightarrow> u8 list list" where
  "fill_bufs content reads = map (\<lambda>(pa, buf). fill_buf content (pa_as_u64 pa) buf) reads"

definition bufs_ok :: "phys_read_data list \<Rightarrow> bool" where
  "bufs_ok reads \<longleftrightarrow> (\<forall>r \<in> set reads. length (snd r) < 9223372036854775808)"

text \<open>
  A buffer agrees with the memory where that is mapped; what it has elsewhere is not said.
\<close>

definition src_matches :: "(u64 \<Rightarrow> u8 option) \<Rightarrow> u64 \<Rightarrow> u8 list \<Rightarrow> bool" where
  "src_matches content a src \<longleftrightarrow>
     (\<forall>j < length src. \<forall>b. byte_at content a j = Some b \<longrightarrow> src ! j = b)"

definition reads_match :: "(u64 \<Rightarrow> u8 option) \<Rightarrow> phys_read_data list \<Rightarrow> u8 list list \<Rightarrow> bool" where
  "reads_match content reads bufs \<longleftrightarrow>
     list_all2 (\<lambda>r buf. length buf = length (snd r) \<and> src_matches content (pa_as_u64 (fst r)) buf) reads bufs"

locale phys_memory_total =
  fixes pm :: "'m phys_mem"
    and inv :: "'m \<Rightarrow> bool"
  assumes read_total: "inv m \<Longrightarrow> bufs_ok reads \<Longrightarrow>
    \<exists>r bufs m'. pm_read_raw_list pm m reads = Some (r, bufs, m') \<and> inv m' \<and>
      map length bufs = map (length \<circ> snd) reads"

locale matching_memory =
  fixes pm :: "'m phys_mem"
    and inv :: "'m \<Rightarrow> bool"
    and content :: "'m \<Rightarrow> u64 \<Rightarrow> u8 option"
  assumes read_matches: "inv m \<Longrightarrow> bufs_ok reads \<Longrightarrow>
    \<exists>bufs m'. pm_read_raw_list pm m reads = Some (Inr (), bufs, m') \<and>
      reads_match (content m) reads bufs \<and> inv m' \<and> content m' = content m"

locale readable_memory =
  fixes pm :: "'m phys_mem"
    and inv :: "'m \<Rightarrow> bool"
    and content :: "'m \<Rightarrow> u64 \<Rightarrow> u8 option"
  assumes read_fills: "inv m \<Longrightarrow> bufs_ok reads \<Longrightarrow>
    \<exists>m'. pm_read_raw_list pm m reads = Some (Inr (), fill_bufs (content m) reads, m') \<and>
      inv m' \<and> content m' = content m"

lemma length_fill_buf [simp]: "length (fill_buf content a buf) = length buf"
  by (simp add: fill_buf_def)

lemma length_fill_bufs: "map length (fill_bufs content reads) = map (length \<circ> snd) reads"
  by (auto simp: fill_bufs_def)

lemma fill_buf_mapped:
  "\<forall>j < length buf. byte_at content a j \<noteq> None \<Longrightarrow>
     fill_buf content a buf = map (\<lambda>j. the (byte_at content a j)) [0..<length buf]"
  by (auto simp: fill_buf_def split: option.split)

lemma src_matches_fill: "src_matches content a (fill_buf content a buf)"
  by (simp add: src_matches_def fill_buf_def)

lemma src_matches_mapped:
  assumes "src_matches content a src" and "\<forall>j < length src. byte_at content a j \<noteq> None"
  shows "src = map (\<lambda>j. the (byte_at content a j)) [0..<length src]"
  using assms by (intro nth_equalityI) (auto simp: src_matches_def)

lemma reads_match_fill: "reads_match content reads (fill_bufs content reads)"
  by (simp add: reads_match_def fill_bufs_def list_all2_conv_all_nth src_matches_fill case_prod_unfold)

lemma reads_match_nth:
  assumes "reads_match content reads bufs"
  shows "length bufs = length reads" "map length bufs = map (length \<circ> snd) reads"
    "k < length reads \<Longrightarrow> length (bufs ! k) = length (snd (reads ! k)) \<and>
       src_matches content (pa_as_u64 (fst (reads ! k))) (bufs ! k)"
  using assms unfolding reads_match_def
  by (auto simp: list_all2_conv_all_nth intro: nth_equalityI)

sublocale matching_memory \<subseteq> phys_memory_total pm inv
proof
  fix m reads
  assume "inv m" "bufs_ok reads"
  from read_matches [OF this] show "\<exists>r bufs m'.
      pm_read_raw_list pm m reads = Some (r, bufs, m') \<and> inv m' \<and>
      map length bufs = map (length \<circ> snd) reads"
    using reads_match_nth(2) by blast
qed

sublocale readable_memory \<subseteq> matching_memory pm inv content
proof
  fix m reads
  assume "inv m" "bufs_ok reads"
  from read_fills [OF this] show "\<exists>bufs m'. pm_read_raw_list pm m reads = Some (Inr (), bufs, m') \<and>
      reads_match (content m) reads bufs \<and> inv m' \<and> content m' = content m"
    using reads_match_fill by blast
qed

text \<open>Fixing the content in the invariant keeps the contract.\<close>

lemma matching_memory_fixed:
  assumes "matching_memory pm mem_ok content"
  shows "matching_memory pm (\<lambda>m. mem_ok m \<and> content m = C) content"
proof
  fix m reads
  assume "mem_ok m \<and> content m = C" "bufs_ok reads"
  with matching_memory.read_matches [OF assms, of m reads] show "\<exists>bufs m'.
      pm_read_raw_list pm m reads = Some (Inr (), bufs, m') \<and> reads_match (content m) reads bufs \<and>
      (mem_ok m' \<and> content m' = C) \<and> content m' = content m"
    by auto
qed

text \<open>
  The reference memory: its state is the mapped bytes themselves. Backends are compared
  with it, and a read of it meets the contract.
\<close>

definition store_bytes :: "u64 \<Rightarrow> u8 list \<Rightarrow> (u64 \<Rightarrow> u8 option) \<Rightarrow> u64 \<Rightarrow> u8 option" where
  "store_bytes a bs content x =
     (if unat (x - a) < length bs \<and> content x \<noteq> None then Some (bs ! unat (x - a)) else content x)"

definition reference_memory :: "(u64 \<Rightarrow> u8 option) phys_mem" where
  "reference_memory = \<lparr>
     pm_read_raw_list = (\<lambda>m reads. Some (Inr (), fill_bufs m reads, m)),
     pm_write_raw_list = (\<lambda>m ws. Some (Inr (), foldl (\<lambda>m (pa, d). store_bytes (pa_as_u64 pa) d m) m ws)),
     pm_metadata = (\<lambda>m. Some \<lparr>pmd_size = 0, pmd_readonly = False\<rparr>)\<rparr>"

interpretation reference: readable_memory reference_memory "\<lambda>_. True" "\<lambda>m. m"
  by unfold_locales (simp add: reference_memory_def)

section \<open>Programs over a batcher\<close>

text \<open>
  What a client does with a batcher before it drops it. The results of the commits are
  ignored here, so a program may go on after a failure.
\<close>

datatype batch_op = Queue_Reads "phys_read_data list" | Queue_Writes "phys_write_data list" | Commit

fun run_batch :: "'m phys_mem \<Rightarrow> batch_op list \<Rightarrow> 'm phys_batcher \<Rightarrow> 'm phys_batcher option" where
  "run_batch pm [] b = Some b"
| "run_batch pm (Queue_Reads rs # ops) b = run_batch pm ops (read_raw_iter b rs)"
| "run_batch pm (Queue_Writes ws # ops) b = run_batch pm ops (write_raw_iter b ws)"
| "run_batch pm (Commit # ops) b = Option.bind (commit_rw pm b) (\<lambda>(_, _, b). run_batch pm ops b)"

fun queued_reads :: "batch_op list \<Rightarrow> phys_read_data list" where
  "queued_reads (Queue_Reads rs # ops) = rs @ queued_reads ops"
| "queued_reads (_ # ops) = queued_reads ops"
| "queued_reads [] = []"

fun queued_writes :: "batch_op list \<Rightarrow> phys_write_data list" where
  "queued_writes (Queue_Writes ws # ops) = ws @ queued_writes ops"
| "queued_writes (_ # ops) = queued_writes ops"
| "queued_writes [] = []"

text \<open>
  A memory with a log of the requests it was given in calls that succeeded; a read is logged
  as its address and length.
\<close>

definition read_shape :: "phys_read_data \<Rightarrow> phys_addr \<times> nat" where
  "read_shape r = (fst r, length (snd r))"

type_synonym 'm logged = "'m \<times> (phys_addr \<times> nat) list \<times> phys_write_data list"

definition logging :: "'m phys_mem \<Rightarrow> 'm logged phys_mem" where
  "logging pm = \<lparr>
     pm_read_raw_list = (\<lambda>(m, rl, wl) reads.
       map_option (\<lambda>(r, bufs, m). (r, bufs, m, (case r of Inr _ \<Rightarrow> rl @ map read_shape reads | Inl _ \<Rightarrow> rl), wl))
         (pm_read_raw_list pm m reads)),
     pm_write_raw_list = (\<lambda>(m, rl, wl) ws.
       map_option (\<lambda>(r, m). (r, m, rl, (case r of Inr _ \<Rightarrow> wl @ ws | Inl _ \<Rightarrow> wl))) (pm_write_raw_list pm m ws)),
     pm_metadata = (\<lambda>(m, _). pm_metadata pm m)\<rparr>"

text \<open>Executed requests first, then those still in the queues: \<open>qr\<close> and \<open>qw\<close> are all of them.\<close>

definition batch_ok ::
  "('m \<Rightarrow> bool) \<Rightarrow> phys_read_data list \<Rightarrow> phys_write_data list \<Rightarrow> 'm logged phys_batcher \<Rightarrow> bool" where
  "batch_ok mem_ok qr qw b \<longleftrightarrow> (case pb_pmem b of (m, rl, wl) \<Rightarrow> mem_ok m \<and> bufs_ok (pb_read_list b) \<and>
     rl @ map read_shape (pb_read_list b) = map read_shape qr \<and> wl @ pb_write_list b = qw)"

definition writes_return :: "'m phys_mem \<Rightarrow> ('m \<Rightarrow> bool) \<Rightarrow> bool" where
  "writes_return pm mem_ok \<longleftrightarrow> (\<forall>m ws. mem_ok m \<longrightarrow> (\<exists>r m'. pm_write_raw_list pm m ws = Some (r, m') \<and> mem_ok m'))"

lemma zip_shape:
  assumes "map length bufs = map (length \<circ> snd) reads"
  shows "map read_shape (zip (map fst reads) bufs) = map read_shape reads"
    and "bufs_ok reads \<Longrightarrow> bufs_ok (zip (map fst reads) bufs)"
proof -
  have n: "length bufs = length reads" using assms by (metis length_map)
  have l: "length (bufs ! i) = length (snd (reads ! i))" if "i < length reads" for i
    using arg_cong [OF assms, of "\<lambda>xs. xs ! i"] that n by simp
  show "map read_shape (zip (map fst reads) bufs) = map read_shape reads"
    using n l by (intro nth_equalityI) (simp_all add: read_shape_def)
  show "bufs_ok reads \<Longrightarrow> bufs_ok (zip (map fst reads) bufs)"
    using n l by (auto simp: bufs_ok_def set_zip)
qed

lemma commit_writes_ok:
  assumes "writes_return pm mem_ok" and "batch_ok mem_ok qr qw b" and "pb_pmem b = (m, rl, wl)"
  shows "\<exists>r b' m' wl'. commit_writes (logging pm) b = Some (r, b') \<and> batch_ok mem_ok qr qw b' \<and>
     pb_read_list b' = pb_read_list b \<and> pb_pmem b' = (m', rl, wl') \<and> (pb_write_list b' = [] \<or> wl' = wl)"
proof (cases "pb_write_list b = []")
  case False
  have "mem_ok m" using assms(2,3) by (simp add: batch_ok_def)
  then obtain r m' where "pm_write_raw_list pm m (pb_write_list b) = Some (r, m')" "mem_ok m'"
    using assms(1) unfolding writes_return_def by blast
  then show ?thesis
    using assms(2,3) False by (cases r) (auto simp: commit_writes_def logging_def batch_ok_def)
qed (use assms(2,3) in \<open>simp add: commit_writes_def\<close>)

lemma commit_ok:
  assumes "phys_memory_total pm mem_ok" and "writes_return pm mem_ok" and "batch_ok mem_ok qr qw b"
    and "pb_pmem b = (m, rl, wl)"
  shows "\<exists>r bufs b' m' rl' wl'. commit_rw (logging pm) b = Some (r, bufs, b') \<and> batch_ok mem_ok qr qw b' \<and>
     pb_pmem b' = (m', rl', wl') \<and>
     (rl' = rl \<and> wl' = wl \<or> pb_read_list b' = [] \<and> (pb_write_list b' = [] \<or> wl' = wl))"
proof (cases "pb_read_list b = []")
  case True
  obtain r b' m' wl' where "commit_writes (logging pm) b = Some (r, b')" "batch_ok mem_ok qr qw b'"
    "pb_read_list b' = []" "pb_pmem b' = (m', rl, wl')" "pb_write_list b' = [] \<or> wl' = wl"
    using commit_writes_ok [OF assms(2-4)] True by auto
  then show ?thesis using True by (auto simp: commit_rw_def)
next
  case False
  have b: "mem_ok m" "bufs_ok (pb_read_list b)" using assms(3,4) by (auto simp: batch_ok_def)
  obtain r bufs m' where r: "pm_read_raw_list pm m (pb_read_list b) = Some (r, bufs, m')" "mem_ok m'"
    "map length bufs = map (length \<circ> snd) (pb_read_list b)"
    using phys_memory_total.read_total [OF assms(1) b] by blast
  show ?thesis
  proof (cases r)
    case (Inl e)
    then show ?thesis
      using assms(3,4) r zip_shape [OF r(3)] False by (simp add: commit_rw_def logging_def batch_ok_def)
  next
    case (Inr u)
    let ?b = "b\<lparr>pb_pmem := (m', rl @ map read_shape (pb_read_list b), wl), pb_read_list := []\<rparr>"
    have "batch_ok mem_ok qr qw ?b" using assms(3,4) r(2) by (simp add: batch_ok_def bufs_ok_def)
    from commit_writes_ok [OF assms(2) this, of m' "rl @ map read_shape (pb_read_list b)" wl]
    obtain w b' m2 wl' where "commit_writes (logging pm) ?b = Some (w, b')" "batch_ok mem_ok qr qw b'"
      "pb_read_list b' = []" "pb_pmem b' = (m2, rl @ map read_shape (pb_read_list b), wl')"
      "pb_write_list b' = [] \<or> wl' = wl" by auto
    then show ?thesis
      using assms(4) r(1) False by (simp add: commit_rw_def logging_def Inr)
  qed
qed

lemma run_batch_ok:
  assumes "phys_memory_total pm mem_ok" and "writes_return pm mem_ok" and "batch_ok mem_ok qr qw b"
    and "bufs_ok (queued_reads ops)"
  shows "\<exists>b'. run_batch (logging pm) ops b = Some b' \<and> batch_ok mem_ok (qr @ queued_reads ops) (qw @ queued_writes ops) b'"
  using assms(3,4)
proof (induction ops arbitrary: qr qw b)
  case (Cons op ops)
  show ?case
  proof (cases op)
    case (Queue_Reads rs)
    then have "batch_ok mem_ok (qr @ rs) qw (read_raw_iter b rs)" "bufs_ok (queued_reads ops)"
      using Cons.prems by (auto simp: batch_ok_def read_raw_iter_def bufs_ok_def)
    from Cons.IH [OF this] show ?thesis by (simp add: Queue_Reads)
  next
    case (Queue_Writes ws)
    then have "batch_ok mem_ok qr (qw @ ws) (write_raw_iter b ws)" "bufs_ok (queued_reads ops)"
      using Cons.prems by (auto simp: batch_ok_def write_raw_iter_def)
    from Cons.IH [OF this] show ?thesis by (simp add: Queue_Writes)
  next
    case Commit
    obtain r bufs b' where "commit_rw (logging pm) b = Some (r, bufs, b')" "batch_ok mem_ok qr qw b'"
      using commit_ok [OF assms(1,2) Cons.prems(1)] by (cases "pb_pmem b") blast
    with Cons.IH [OF this(2)] Cons.prems(2) Commit show ?thesis by simp
  qed
qed simp

lemma drop_ok:
  assumes "phys_memory_total pm mem_ok" and "writes_return pm mem_ok" and "batch_ok mem_ok qr qw b"
    and "pb_pmem b = (m1, rl, wl)"
  shows "\<exists>m2 rl' wl'. batcher_drop (logging pm) b = Some (m2, rl', wl') \<and> mem_ok m2 \<and>
     (rl' = map read_shape qr \<and> (wl' = qw \<or> wl' = wl) \<or> rl' = rl \<and> wl' = wl)"
proof -
  obtain r bufs b' m' rl' wl' where c: "commit_rw (logging pm) b = Some (r, bufs, b')" "batch_ok mem_ok qr qw b'"
    "pb_pmem b' = (m', rl', wl')"
    "rl' = rl \<and> wl' = wl \<or> pb_read_list b' = [] \<and> (pb_write_list b' = [] \<or> wl' = wl)"
    using commit_ok [OF assms] by blast
  then show ?thesis by (auto simp: batcher_drop_def batch_ok_def)
qed

lemma reference_writes_return: "writes_return reference_memory (\<lambda>_. True)"
  by (simp add: writes_return_def reference_memory_def)

section \<open>Properties\<close>



end
