(* ===== verification/Byte_Order.thy ===== *)
theory Byte_Order
  imports Memflow_Prelude
begin

text \<open>
  \<open>memflow/src/types/byte_swap.rs\<close> and the byte conversions of the standard library
  (\<open>to_be_bytes\<close>, \<open>from_le_bytes\<close>) it is written with, which the page-table reader uses
  too. A signed integer or a float is swapped through its bit pattern, so all instances
  are one function on words of a width that is a multiple of 8. The lemmas give the
  round trips and the bits of a decoded word.
\<close>

section \<open>Byte conversions\<close>

definition to_le_bytes :: "'a::len word \<Rightarrow> u8 list" where
  "to_le_bytes w = map (\<lambda>i. ucast (drop_bit (8 * i) w)) [0..<LENGTH('a) div 8]"

definition to_be_bytes :: "'a::len word \<Rightarrow> u8 list" where
  "to_be_bytes w = rev (to_le_bytes w)"

primrec from_le_bytes :: "u8 list \<Rightarrow> 'a::len word" where
  "from_le_bytes [] = 0"
| "from_le_bytes (b # bs) = ucast b OR push_bit 8 (from_le_bytes bs)"

section \<open>ByteSwap\<close>

definition swap_i8 :: "u8 \<Rightarrow> u8" where "swap_i8 w = w"
definition swap_u8 :: "u8 \<Rightarrow> u8" where "swap_u8 w = w"

definition swap_signed :: "'a::len word \<Rightarrow> 'a word" where
  "swap_signed w = from_le_bytes (to_be_bytes w)"

definition swap_unsigned :: "'a::len word \<Rightarrow> 'a word" where
  "swap_unsigned w = from_le_bytes (to_be_bytes w)"

definition swap_float :: "'a::len word \<Rightarrow> 'a word" where
  "swap_float w = from_le_bytes (to_be_bytes w)"

definition swap_pointer :: "usize \<Rightarrow> usize" where
  "swap_pointer p = from_le_bytes (to_be_bytes p)"

definition swap_phantom :: "unit \<Rightarrow> unit" where "swap_phantom u = u"

definition swap_slice :: "('e \<Rightarrow> 'e) \<Rightarrow> 'e list \<Rightarrow> 'e list" where
  "swap_slice swap xs = map swap xs"

lemmas swap_defs = swap_signed_def swap_unsigned_def swap_float_def swap_pointer_def

section \<open>Facts\<close>

lemma length_to_le_bytes [simp]: "length (to_le_bytes (w :: 'a::len word)) = LENGTH('a) div 8"
  by (simp add: to_le_bytes_def)

lemma bit_from_le_bytes:
  "bit (from_le_bytes bs :: 'a::len word) k \<longleftrightarrow>
     k < LENGTH('a) \<and> k div 8 < length bs \<and> bit (bs ! (k div 8)) (k mod 8)"
proof (induction bs arbitrary: k)
  case Nil
  show ?case by simp
next
  case (Cons b bs)
  show ?case
  proof (cases "k < 8")
    case True
    then show ?thesis
      by (auto simp: bit_or_iff bit_push_bit_iff bit_unsigned_iff dest: bit_imp_le_length)
  next
    case False
    then have "\<not> bit b k"
      using bit_imp_le_length [of b k] by auto
    moreover obtain j where j: "k = j + 8"
      using False by (metis add.commute le_Suc_ex not_less)
    moreover have "(j + 8) div 8 = Suc (j div 8)" and "(j + 8) mod 8 = j mod 8"
      by simp_all
    ultimately show ?thesis
      by (auto simp: Cons.IH bit_or_iff bit_push_bit_iff bit_unsigned_iff
          dest: bit_imp_le_length)
  qed
qed

lemma nth_to_le_bytes:
  assumes "i < LENGTH('a) div 8" and "j < 8"
  shows "bit (to_le_bytes (w :: 'a::len word) ! i) j \<longleftrightarrow> bit w (8 * i + j)"
  using assms by (simp add: to_le_bytes_def bit_unsigned_iff bit_drop_bit_eq)

lemma from_to_le_bytes:
  assumes "8 dvd LENGTH('a)"
  shows "from_le_bytes (to_le_bytes (w :: 'a::len word)) = w"
proof (rule bit_word_eqI)
  fix k assume k: "k < LENGTH('a)"
  with assms have "k div 8 < LENGTH('a) div 8"
    by (auto simp: less_mult_imp_div_less elim!: dvdE)
  then show "bit (from_le_bytes (to_le_bytes w) :: 'a word) k \<longleftrightarrow> bit w k"
    using k nth_to_le_bytes [of "k div 8" "k mod 8" w]
    by (simp add: bit_from_le_bytes)
qed

lemma to_from_le_bytes:
  assumes "8 dvd LENGTH('a)" and "length bs = LENGTH('a) div 8"
  shows "to_le_bytes (from_le_bytes bs :: 'a::len word) = bs"
proof (rule nth_equalityI)
  show "length (to_le_bytes (from_le_bytes bs :: 'a word)) = length bs"
    by (simp add: assms(2))
  fix i assume "i < length (to_le_bytes (from_le_bytes bs :: 'a word))"
  then have i: "i < LENGTH('a) div 8" by simp
  show "to_le_bytes (from_le_bytes bs :: 'a word) ! i = bs ! i"
  proof (rule bit_word_eqI)
    fix j assume "j < LENGTH(8)"
    then have j: "j < 8" by simp
    have "8 * i + j < LENGTH('a)"
      using i j assms(1) by (elim dvdE) simp
    then show "bit (to_le_bytes (from_le_bytes bs :: 'a word) ! i) j \<longleftrightarrow> bit (bs ! i) j"
      using i j assms(2) by (simp add: nth_to_le_bytes bit_from_le_bytes)
  qed
qed

lemma swap_bytes:
  assumes "8 dvd LENGTH('a)"
  shows "to_le_bytes (swap_unsigned (w :: 'a::len word)) = to_be_bytes w"
    and "swap_unsigned (swap_unsigned w) = w"
proof -
  show b: "to_le_bytes (swap_unsigned w) = to_be_bytes w" for w :: "'a word"
    using assms by (simp add: swap_unsigned_def to_from_le_bytes to_be_bytes_def)
  have "swap_unsigned (swap_unsigned w) = from_le_bytes (rev (to_le_bytes (swap_unsigned w)))"
    by (simp add: swap_unsigned_def to_be_bytes_def)
  then show "swap_unsigned (swap_unsigned w) = w"
    by (simp add: b to_be_bytes_def from_to_le_bytes assms)
qed

lemma swap_same: "swap_signed w = swap_unsigned w" "swap_float w = swap_unsigned w"
  "swap_pointer p = swap_unsigned p"
  by (simp_all add: swap_defs)

section \<open>Properties\<close>

text \<open>
  Byte swapping reverses the bytes of a value and is undone by a second swap, for every
  width the trait is implemented for and for slices of such values.
\<close>

lemma byte_swap_involution:
  "to_le_bytes (swap_unsigned (a :: u16)) = to_be_bytes a \<and>
   to_le_bytes (swap_signed (b :: u32)) = to_be_bytes b \<and>
   to_le_bytes (swap_float (c :: u64)) = to_be_bytes c \<and>
   to_le_bytes (swap_unsigned (d :: 128 word)) = to_be_bytes d \<and>
   swap_unsigned (swap_unsigned a) = a \<and> swap_signed (swap_signed b) = b \<and>
   swap_float (swap_float c) = c \<and> swap_unsigned (swap_unsigned d) = d \<and>
   swap_pointer (swap_pointer p) = p \<and>
   swap_slice swap_unsigned (swap_slice swap_unsigned xs) = (xs :: u32 list)"
  by (simp add: swap_same swap_bytes swap_slice_def o_def)

end
