(* ===== verification/Mmu_Translate.thy ===== *)
theory Mmu_Translate
  imports Mmu_Spec Phys_Mem Byte_Order
begin

text \<open>
  The batch page walk of \<open>memflow/src/architecture/mmu_spec.rs\<close> (\<open>virt_to_phys_iter\<close> and
  \<open>read_pt_address_iter\<close>) and the entry points that use it in
  \<open>memflow/src/architecture/mod.rs\<close> and \<open>memflow/src/mem/virt_translate.rs\<close>. The
  vectors of the bump arena are lists. The ordered map of the package \<open>vector_trees\<close> is a
  parameter, a record of the three methods the code calls. The physical memory is a
  parameter too, through its trait.
\<close>

section \<open>The walk in batches\<close>

record 's tree_map =
  tm_new :: 's
  tm_clear :: "'s \<Rightarrow> 's"
  tm_insert :: "address \<Rightarrow> 's \<Rightarrow> 's"
  tm_contains :: "address \<Rightarrow> 's \<Rightarrow> bool"

text \<open>\<open>chunks_exact_mut\<close>.\<close>

definition chunks_exact :: "nat \<Rightarrow> 'a list \<Rightarrow> 'a list list" where
  "chunks_exact k xs = map (\<lambda>i. take k (drop (i * k) xs)) [0..<length xs div k]"

definition chunk_failures :: "error \<Rightarrow> 't translation_chunk \<Rightarrow> 't failure list" where
  "chunk_failures e chunk = map (\<lambda>entry. (e, td_addr entry, td_buf entry)) (tc_vec chunk)"

definition pt_reads ::
  "address \<times> usize \<Rightarrow> u8 list \<Rightarrow> phys_read_data" where
  "pt_reads t buf = (pa_with_page (fst t) PT_PAGE_TABLE (snd t), buf)"

text \<open>
  The loop behind the read: from the last entry to the first, an entry whose table is not
  its own and that was not seen replaces its chunk at the back of the vector.
\<close>

fun read_pt_loop ::
  "arch_mmu_spec \<Rightarrow> 's tree_map \<Rightarrow> nat \<Rightarrow> nat \<Rightarrow> 't translation_chunk list \<Rightarrow> u8 list list
     \<Rightarrow> 's \<Rightarrow> address option \<Rightarrow> 't failure list
     \<Rightarrow> ('t translation_chunk list \<times> 's \<times> 't failure list) option" where
  "read_pt_loop spec tm step 0 addrs bufs addr_map prev_addr err_out =
     Some (addrs, addr_map, err_out)"
| "read_pt_loop spec tm step (Suc i) addrs bufs addr_map prev_addr err_out = do {
     (chunk, addrs) \<leftarrow> swap_remove addrs i;
     (buf, bufs) \<leftarrow> swap_remove bufs i;
     bytes \<leftarrow> (if length buf < 8 then None else Some (take 8 buf));
     let pt_addr = address_from_u64 (from_le_bytes bytes);
     a \<leftarrow> pte_addr_mask spec (tc_pt_addr chunk) step;
     b \<leftarrow> pte_addr_mask spec pt_addr step;
     (if a \<noteq> b \<and> (case prev_addr of None \<Rightarrow> True
                   | Some pa \<Rightarrow> pa \<noteq> pt_addr \<and> \<not> tm_contains tm pt_addr addr_map)
      then read_pt_loop spec tm step i (addrs @ [chunk\<lparr>tc_pt_addr := pt_addr\<rparr>]) bufs
             (case prev_addr of Some pa \<Rightarrow> tm_insert tm pa addr_map | None \<Rightarrow> addr_map)
             (Some pt_addr) err_out
      else read_pt_loop spec tm step i addrs bufs addr_map prev_addr
             (err_out @ chunk_failures VirtualTranslate chunk))
   }"

text \<open>What a walk carries from step to step.\<close>

record ('t, 'm, 's) walk_state =
  ws_mem :: 'm
  ws_map :: 's
  ws_chunks :: "'t translation_chunk list"
  ws_pt_buf :: "u8 list"
  ws_out :: "(phys_addr \<times> 't) list"
  ws_fail :: "'t failure list"

definition read_pt_address_iter ::
  "arch_mmu_spec \<Rightarrow> 's tree_map \<Rightarrow> 'm phys_mem \<Rightarrow> nat \<Rightarrow> ('t, 'm, 's) walk_state
     \<Rightarrow> (unit result \<times> ('t, 'm, 's) walk_state) option" where
  "read_pt_address_iter spec tm pm step st = do {
     let pte_size = 8;
     page_size \<leftarrow> pt_leaf_size spec step;
     let addrs = ws_chunks st;
     let pt_buf = vec_resize (pte_size * length addrs) 0 (ws_pt_buf st);
     let pt_read = map2 (\<lambda>chunk tr_chunk. pt_reads (tc_pt_addr tr_chunk, page_size) chunk)
                     (chunks_exact pte_size pt_buf) addrs;
     (r, bufs, m) \<leftarrow> pm_read_raw_list pm (ws_mem st) pt_read;
     let st = st\<lparr>ws_mem := m, ws_pt_buf := concat bufs\<rparr>;
     (case r of
        Inl e \<Rightarrow> Some (Inl e, st)
      | Inr _ \<Rightarrow> do {
          (addrs, addr_map, err_out) \<leftarrow>
            read_pt_loop spec tm step (length addrs) addrs bufs
              (tm_clear tm (ws_map st)) None (ws_fail st);
          Some (Inr (), st\<lparr>ws_chunks := addrs, ws_map := addr_map, ws_fail := err_out\<rparr>)
        })
   }"

text \<open>
  One step for every chunk, from the last to the first: it fails, is translated, or is cut
  at the pages of the next step and pushed to the back.
\<close>

definition chunk_translated ::
  "arch_mmu_spec \<Rightarrow> nat \<Rightarrow> 't translation_chunk \<Rightarrow> (phys_addr \<times> 't) list option" where
  "chunk_translated spec step chunk =
     those (map (\<lambda>entry. map_option (\<lambda>pa. (pa, td_buf entry))
                  (get_phys_page spec (tc_pt_addr chunk) (td_addr entry) step))
             (tc_vec chunk))"

definition chunk_next ::
  "('t translation_chunk \<Rightarrow> nat) \<Rightarrow> 't split_ops \<Rightarrow> arch_mmu_spec \<Rightarrow> nat \<Rightarrow> usize
     \<Rightarrow> 't translation_chunk \<Rightarrow> 't translation_chunk list option" where
  "chunk_next cap ops spec step next_page_size tr_chunk = do {
     let min_addr = tc_min_addr tr_chunk;
     chunks \<leftarrow> page_chunks_list (tc_ops cap ops) tr_chunk min_addr next_page_size;
     those (map (\<lambda>(_, chunk).
              map_option (\<lambda>pt_addr. chunk\<lparr>tc_pt_addr := pt_addr\<rparr>)
                (vtop_step spec (tc_pt_addr chunk) (tc_min_addr chunk) step))
            chunks)
   }"

fun walk_step_loop ::
  "('t translation_chunk \<Rightarrow> nat) \<Rightarrow> 't split_ops \<Rightarrow> arch_mmu_spec \<Rightarrow> nat \<Rightarrow> usize \<Rightarrow> nat
     \<Rightarrow> ('t, 'm, 's) walk_state \<Rightarrow> ('t, 'm, 's) walk_state option" where
  "walk_step_loop cap ops spec step next_page_size 0 st = Some st"
| "walk_step_loop cap ops spec step next_page_size (Suc i) st = do {
     (tr_chunk, chunks) \<leftarrow> swap_remove (ws_chunks st) i;
     st \<leftarrow>
       (if \<not> check_entry spec (tc_pt_addr tr_chunk) step
        then Some (st\<lparr>ws_chunks := chunks,
                      ws_fail := ws_fail st @ chunk_failures VirtualTranslate tr_chunk\<rparr>)
        else if is_final_mapping spec (tc_pt_addr tr_chunk) step
        then map_option (\<lambda>o'. st\<lparr>ws_chunks := chunks, ws_out := ws_out st @ o'\<rparr>)
               (chunk_translated spec step tr_chunk)
        else map_option (\<lambda>new. st\<lparr>ws_chunks := chunks @ new\<rparr>)
               (chunk_next cap ops spec step next_page_size tr_chunk));
     walk_step_loop cap ops spec step next_page_size i st
   }"

fun walk_steps ::
  "('t translation_chunk \<Rightarrow> nat) \<Rightarrow> 't split_ops \<Rightarrow> arch_mmu_spec \<Rightarrow> 's tree_map \<Rightarrow> 'm phys_mem
     \<Rightarrow> nat list \<Rightarrow> ('t, 'm, 's) walk_state \<Rightarrow> ('t, 'm, 's) walk_state option" where
  "walk_steps cap ops spec tm pm [] st = Some st"
| "walk_steps cap ops spec tm pm (pt_step # steps) st = do {
     next_page_size \<leftarrow> page_size_step_unchecked spec (pt_step + 1);
     st \<leftarrow> walk_step_loop cap ops spec pt_step next_page_size (length (ws_chunks st)) st;
     (if ws_chunks st = [] then Some st
      else do {
        (r, st) \<leftarrow> read_pt_address_iter spec tm pm pt_step st;
        (case r of
           Inl err \<Rightarrow> Some (st\<lparr>ws_fail := ws_fail st @
             concat (map (chunk_failures err) (ws_chunks st)), ws_chunks := []\<rparr>)
         | Inr _ \<Rightarrow> walk_steps cap ops spec tm pm steps st)
      })
   }"

fun filter_requests ::
  "'t split_ops \<Rightarrow> address \<Rightarrow> arch_mmu_spec \<Rightarrow> (address \<times> 't) list
     \<Rightarrow> 't translation_chunk list \<Rightarrow> 't failure list
     \<Rightarrow> ('t translation_chunk list \<times> 't failure list) option" where
  "filter_requests ops dtb spec [] chunks out_fail = Some (chunks, out_fail)"
| "filter_requests ops dtb spec (data # addrs) chunks out_fail = do {
     (chunks, out_fail) \<leftarrow> base_virt_addr_filter ops dtb spec data chunks out_fail;
     filter_requests ops dtb spec addrs chunks out_fail
   }"

text \<open>
  \<open>virt_to_phys_iter\<close> appends to the two output collections it is given.
\<close>

definition mmu_virt_to_phys_iter ::
  "('t translation_chunk \<Rightarrow> nat) \<Rightarrow> 't split_ops \<Rightarrow> arch_mmu_spec \<Rightarrow> 's tree_map \<Rightarrow> 'm phys_mem
     \<Rightarrow> 'm \<Rightarrow> address \<Rightarrow> (address \<times> 't) list \<Rightarrow> (phys_addr \<times> 't) list \<Rightarrow> 't failure list
     \<Rightarrow> ((phys_addr \<times> 't) list \<times> 't failure list \<times> 'm) option" where
  "mmu_virt_to_phys_iter cap ops spec tm pm m dtb addrs out out_fail = do {
     let chunks = map (\<lambda>idx. tc_new ops (get_pt_by_index dtb idx) []) [0..<pt_count dtb];
     (chunks, out_fail) \<leftarrow> filter_requests ops dtb spec addrs chunks out_fail;
     let chunks = map (tc_recalc_minmax ops) chunks;
     st \<leftarrow> walk_steps cap ops spec tm pm [0..<split_count spec]
            \<lparr>ws_mem = m, ws_map = tm_new tm, ws_chunks = chunks, ws_pt_buf = [],
             ws_out = out, ws_fail = out_fail\<rparr>;
     Some (ws_out st, ws_fail st, ws_mem st)
   }"

section \<open>Entry points\<close>

definition scoped_virt_to_phys_iter ::
  "('t translation_chunk \<Rightarrow> nat) \<Rightarrow> 't split_ops \<Rightarrow> 's tree_map \<Rightarrow> 'm phys_mem
     \<Rightarrow> x86_scoped_translate \<Rightarrow> 'm \<Rightarrow> (address \<times> 't) list \<Rightarrow> (phys_addr \<times> 't) list
     \<Rightarrow> 't failure list \<Rightarrow> ((phys_addr \<times> 't) list \<times> 't failure list \<times> 'm) option" where
  "scoped_virt_to_phys_iter cap ops tm pm t m addrs out out_fail =
     mmu_virt_to_phys_iter cap ops (x86_mmu (xst_arch t)) tm pm m (xst_dtb t) addrs out out_fail"

text \<open>
  \<open>ScopedVirtualTranslate::virt_to_phys\<close>: the closures keep the first success and the
  last failure; without either the \<open>unwrap\<close> panics.
\<close>

definition scoped_virt_to_phys ::
  "(usize translation_chunk \<Rightarrow> nat) \<Rightarrow> 's tree_map \<Rightarrow> 'm phys_mem \<Rightarrow> x86_scoped_translate \<Rightarrow> 'm
     \<Rightarrow> address \<Rightarrow> (phys_addr result \<times> 'm) option" where
  "scoped_virt_to_phys cap tm pm t m addr = do {
     (out, out_fail, m) \<leftarrow>
       scoped_virt_to_phys_iter cap usize_ops tm pm t m [(addr, 1)] [] [];
     (case out of
        (pa, _) # _ \<Rightarrow> Some (Inr pa, m)
      | [] \<Rightarrow> (if out_fail = [] then None else Some (Inl (fst (last out_fail)), m)))
   }"

text \<open>\<open>DirectTranslate\<close> only owns an arena; \<open>VirtualTranslate::virt_to_phys\<close> pops.\<close>

definition direct_virt_to_phys_iter ::
  "('t translation_chunk \<Rightarrow> nat) \<Rightarrow> 't split_ops \<Rightarrow> 's tree_map \<Rightarrow> 'm phys_mem \<Rightarrow> 'm
     \<Rightarrow> x86_scoped_translate \<Rightarrow> (address \<times> 't) list \<Rightarrow> (phys_addr \<times> 't) list
     \<Rightarrow> 't failure list \<Rightarrow> ((phys_addr \<times> 't) list \<times> 't failure list \<times> 'm) option" where
  "direct_virt_to_phys_iter cap ops tm pm m translator addrs out out_fail =
     scoped_virt_to_phys_iter cap ops tm pm translator m addrs out out_fail"

definition direct_virt_to_phys ::
  "(usize translation_chunk \<Rightarrow> nat) \<Rightarrow> 's tree_map \<Rightarrow> 'm phys_mem \<Rightarrow> 'm
     \<Rightarrow> x86_scoped_translate \<Rightarrow> address \<Rightarrow> (phys_addr result \<times> 'm) option" where
  "direct_virt_to_phys cap tm pm m translator vaddr = do {
     (vec, vec_fail, m) \<leftarrow>
       direct_virt_to_phys_iter cap usize_ops tm pm m translator [(vaddr, 1)] [] [];
     (if vec \<noteq> [] then Some (Inr (fst (last vec)), m)
      else if vec_fail \<noteq> [] then Some (Inl (fst (last vec_fail)), m)
      else None)
   }"

end
