(* ===== verification/Walk_Cells.thy ===== *)
theory Walk_Cells
  imports Mmu_Translate
begin

text \<open>
  Conservation in the batch walk: whatever the page tables hold, the walk returns, and the
  cells of the requests are the cells of the translated buffers and of the failures
  together, each exactly once. The locale \<open>batch_walk\<close> joins the contract of the buffers
  with that of the memory.
\<close>

section \<open>Totality of the steps\<close>

lemma pte_addr_mask_total: "step < split_count spec \<Longrightarrow> \<exists>a. pte_addr_mask spec p step = Some a"
  by (simp add: pte_addr_mask_def nth_opt_def split_count_def Let_def)

lemma virt_addr_bit_range_total:
  "step < split_count spec \<Longrightarrow>
     virt_addr_bit_range spec step =
       Some (sum_list (drop (Suc step) (virtual_address_splits spec)),
             sum_list (drop step (virtual_address_splits spec)))"
  by (simp add: virt_addr_bit_range_def nth_opt_def split_count_def Let_def
      Cons_nth_drop_Suc [symmetric])

lemma vtop_step_total: "step < split_count spec \<Longrightarrow> \<exists>a. vtop_step spec p v step = Some a"
  using pte_addr_mask_total [of step spec p]
  by (auto simp: vtop_step_def virt_addr_to_pte_offset_def virt_addr_bit_range_total Let_def)

lemma pt_leaf_size_total: "step < split_count spec \<Longrightarrow> \<exists>a. pt_leaf_size spec step = Some a"
  by (simp add: pt_leaf_size_def virt_addr_bit_range_total)

lemma get_phys_page_total: "step < split_count spec \<Longrightarrow> \<exists>a. get_phys_page spec p v step = Some a"
  using pte_addr_mask_total [of step spec p]
  by (auto simp: get_phys_page_def virt_addr_to_page_offset_def virt_addr_bit_range_total
      page_size_step_def page_size_step_unchecked_def split_count_def Let_def)

definition step_bits :: "arch_mmu_spec \<Rightarrow> nat \<Rightarrow> nat" where
  "step_bits spec step = unat (sum_list (drop step (virtual_address_splits spec))) mod 64"

lemma shl64_exp: "shl64 1 n = 2 ^ (unat n mod 64)"
  by (simp add: shl64_def push_bit_eq_mult)

lemma page_size_step_exp:
  "step \<le> split_count spec \<Longrightarrow> page_size_step_unchecked spec step = Some (2 ^ step_bits spec step)"
  by (simp add: page_size_step_unchecked_def split_count_def shl64_exp step_bits_def)

lemma step_size: "unat (2 ^ step_bits spec step :: u64) = 2 ^ step_bits spec step"
  "(2 :: u64) ^ step_bits spec step \<noteq> 0"
  "(2 :: nat) ^ step_bits spec step dvd 18446744073709551616"
proof -
  have l: "step_bits spec step < 64" by (simp add: step_bits_def)
  then show e: "unat (2 ^ step_bits spec step :: u64) = 2 ^ step_bits spec step"
    by (rule unat_exp_64)
  then show "(2 :: u64) ^ step_bits spec step \<noteq> 0"
    by (metis unat_0 power_not_zero zero_neq_numeral)
  have "(2 :: nat) ^ step_bits spec step dvd 2 ^ 64"
    using l by (intro le_imp_power_dvd) simp
  then show "(2 :: nat) ^ step_bits spec step dvd 18446744073709551616" by simp
qed

lemma those_map_Some: "(\<And>x. x \<in> set xs \<Longrightarrow> f x = Some (g x)) \<Longrightarrow> those (map f xs) = Some (map g xs)"
  by (induction xs) auto

lemma those_map_total:
  "(\<And>x. x \<in> set xs \<Longrightarrow> \<exists>y. f x = Some y \<and> P x y) \<Longrightarrow>
     \<exists>ys. those (map f xs) = Some ys \<and> list_all2 P xs ys"
  by (induction xs) fastforce+

section \<open>Cells of a walk\<close>

definition buf_cells :: "('t \<Rightarrow> 'c list) \<Rightarrow> 't list \<Rightarrow> 'c multiset" where
  "buf_cells cells bs = (\<Sum>b \<in># mset bs. mset (cells b))"

lemma buf_cells_simps [simp]:
  "buf_cells cells [] = {#}"
  "buf_cells cells (b # bs) = mset (cells b) + buf_cells cells bs"
  "buf_cells cells (bs @ cs) = buf_cells cells bs + buf_cells cells cs"
  by (simp_all add: buf_cells_def)

definition chunk_cells :: "('t \<Rightarrow> 'c list) \<Rightarrow> 't translation_chunk \<Rightarrow> 'c multiset" where
  "chunk_cells cells c = buf_cells cells (map td_buf (tc_vec c))"

lemma map_snd_addr_cells: "map snd (addr_cells a cs) = cs"
  by (induction cs arbitrary: a) auto

lemma chunk_cells_vec: "chunk_cells cells c = image_mset snd (vec_cells cells (tc_vec c))"
proof -
  have "buf_cells cells (map td_buf xs) = image_mset snd (vec_cells cells xs)" for xs
    by (induction xs) (simp_all add: td_cells_def map_snd_addr_cells flip: mset_map)
  then show ?thesis by (simp add: chunk_cells_def)
qed

definition chunks_cells :: "('t \<Rightarrow> 'c list) \<Rightarrow> 't translation_chunk list \<Rightarrow> 'c multiset" where
  "chunks_cells cells cs = (\<Sum>c \<in># mset cs. chunk_cells cells c)"

lemma chunks_cells_simps [simp]:
  "chunks_cells cells [] = {#}"
  "chunks_cells cells (c # cs) = chunk_cells cells c + chunks_cells cells cs"
  "chunks_cells cells (cs @ ds) = chunks_cells cells cs + chunks_cells cells ds"
  by (simp_all add: chunks_cells_def)

definition walk_cells :: "('t \<Rightarrow> 'c list) \<Rightarrow> ('t, 'm, 's) walk_state \<Rightarrow> 'c multiset" where
  "walk_cells cells st =
     chunks_cells cells (ws_chunks st) + buf_cells cells (map snd (ws_out st)) +
     buf_cells cells (map (\<lambda>(_, _, b). b) (ws_fail st))"

lemma chunk_failures_cells [simp]:
  "buf_cells cells (map (\<lambda>(_, _, b). b) (chunk_failures e c)) = chunk_cells cells c"
proof -
  have "map (\<lambda>(_, _, b). b) (chunk_failures e c) = map td_buf (tc_vec c)"
    by (simp add: chunk_failures_def)
  then show ?thesis by (simp add: chunk_cells_def)
qed

text \<open>The chunk of a walk in which every request was filtered out has no requests.\<close>

definition tc_any :: "('t \<Rightarrow> bool) \<Rightarrow> ('t \<Rightarrow> 'c list) \<Rightarrow> 't translation_chunk \<Rightarrow> bool" where
  "tc_any ok cells c \<longleftrightarrow>
     tc_wf ok cells c \<or> tc_vec c = [] \<and> tc_min_addr c = NOT 0 \<and> tc_max_addr c = 0"

lemma tc_any_pt [simp]: "tc_any ok cells (c\<lparr>tc_pt_addr := p\<rparr>) \<longleftrightarrow> tc_any ok cells c"
  by (simp add: tc_any_def tc_wf_def)

lemma chunk_cells_pt [simp]: "chunk_cells cells (c\<lparr>tc_pt_addr := p\<rparr>) = chunk_cells cells c"
  by (simp add: chunk_cells_def)

lemma chunk_translated_cells:
  assumes "step < split_count spec"
  shows "\<exists>o'. chunk_translated spec step c = Some o' \<and> buf_cells cells (map snd o') = chunk_cells cells c"
proof -
  let ?g = "\<lambda>entry. (the (get_phys_page spec (tc_pt_addr c) (td_addr entry) step), td_buf entry)"
  have "chunk_translated spec step c = Some (map ?g (tc_vec c))"
    unfolding chunk_translated_def
    using get_phys_page_total [OF assms] by (intro those_map_Some) force
  then show ?thesis
    by (simp add: chunk_cells_def o_def)
qed

context split_index
begin

lemma empty_chunk_split:
  assumes "tc_vec c = []" "tc_min_addr c = NOT 0" "tc_max_addr c = 0"
  shows "tc_split_at_inclusive ops c idx = Some (c, None)"
  using assms
  by (cases c) (simp add: tc_split_at_inclusive_def address_invalid_def ADDRESS_INVALID_def
      address_null_def ADDRESS_NULL_def Let_def)

lemma page_chunks_any:
  assumes "tc_any ok cells c" and "page_size \<noteq> 0"
  shows "\<exists>chunks. page_chunks_list (tc_ops cap ops) c a page_size = Some chunks \<and>
     (\<forall>ch \<in> set chunks. tc_any ok cells (snd ch)) \<and>
     chunks_cells cells (map snd chunks) = chunk_cells cells c"
proof (cases "tc_vec c = []")
  case True
  with assms(1) have c: "tc_min_addr c = NOT 0" "tc_max_addr c = 0"
    by (auto simp: tc_any_def tc_wf_def)
  obtain e where e: "pci_end_len (page_chunks c a page_size) = Some e"
    using assms(2) by (simp add: pci_end_len_def page_chunks_def pci_new_def as_page_aligned_def)
  have "so_split_inclusive_at (tc_ops cap ops) c e = Some (c, None, tc_empty)"
    by (simp add: tc_ops_def tc_op_split_inclusive_at_def tc_consume_mut_def
        empty_chunk_split [OF True c])
  from page_chunks_list_step [OF e this] assms(1) show ?thesis by simp
next
  case False
  with assms(1) have "tc_wf ok cells c" by (simp add: tc_any_def)
  then obtain chunks where ch: "page_chunks_list (tc_ops cap ops) c a page_size = Some chunks"
    "\<forall>ch \<in> set chunks. tc_wf ok cells (snd ch)"
    "(\<Sum>ch \<leftarrow> chunks. vec_cells cells (tc_vec (snd ch))) = vec_cells cells (tc_vec c)"
    using tc_page_chunks_cells [OF _ assms(2), of c cap a] by blast
  have "chunks_cells cells (map snd xs) = image_mset snd (\<Sum>ch \<leftarrow> xs. vec_cells cells (tc_vec (snd ch)))"
    for xs :: "(address \<times> 't translation_chunk) list"
    by (induction xs) (simp_all add: chunk_cells_vec)
  with ch show ?thesis
    by (simp add: chunk_cells_vec tc_any_def)
qed

lemma chunk_next_cells:
  assumes "tc_any ok cells c" and "step < split_count spec" and "page_size \<noteq> 0"
  shows "\<exists>new. chunk_next cap ops spec step page_size c = Some new \<and>
     (\<forall>n \<in> set new. tc_any ok cells n) \<and> chunks_cells cells new = chunk_cells cells c"
proof -
  obtain chunks where ch:
    "page_chunks_list (tc_ops cap ops) c (tc_min_addr c) page_size = Some chunks"
    "\<forall>ch \<in> set chunks. tc_any ok cells (snd ch)"
    "chunks_cells cells (map snd chunks) = chunk_cells cells c"
    using page_chunks_any [OF assms(1,3)] by blast
  let ?g = "\<lambda>ch. (snd ch)\<lparr>tc_pt_addr :=
     the (vtop_step spec (tc_pt_addr (snd ch)) (tc_min_addr (snd ch)) step)\<rparr>"
  have "those (map (\<lambda>(_, chunk). map_option (\<lambda>pt_addr. chunk\<lparr>tc_pt_addr := pt_addr\<rparr>)
                (vtop_step spec (tc_pt_addr chunk) (tc_min_addr chunk) step)) chunks)
      = Some (map ?g chunks)"
    using vtop_step_total [OF assms(2)] by (intro those_map_Some) (force split: prod.splits)
  moreover have "chunks_cells cells (map ?g xs) = chunks_cells cells (map snd xs)"
    for xs :: "(address \<times> 't translation_chunk) list"
    by (induction xs) simp_all
  ultimately show ?thesis
    using ch by (simp add: chunk_next_def)
qed

lemma walk_step_loop_cells:
  assumes "step < split_count spec" and "page_size \<noteq> 0"
    and "i \<le> length (ws_chunks st)" and "\<forall>c \<in> set (ws_chunks st). tc_any ok cells c"
  shows "\<exists>st'. walk_step_loop cap ops spec step page_size i st = Some st' \<and>
     walk_cells cells st' = walk_cells cells st \<and>
     (\<forall>c \<in> set (ws_chunks st'). tc_any ok cells c) \<and>
     ws_mem st' = ws_mem st \<and> ws_pt_buf st' = ws_pt_buf st \<and>
     (Suc step = split_count spec \<longrightarrow> mset (ws_chunks st') = mset (drop i (ws_chunks st)))"
  using assms(3,4)
proof (induction i arbitrary: st)
  case (Suc i)
  then have i: "i < length (ws_chunks st)" by simp
  let ?c = "ws_chunks st ! i"
  obtain ys where ys: "swap_remove (ws_chunks st) i = Some (?c, ys)"
    "take i ys = take i (ws_chunks st)"
    "mset (drop i ys) = mset (drop (Suc i) (ws_chunks st))" "length ys = length (ws_chunks st) - 1"
    by (rule swap_remove_parts [OF i])
  note ms = swap_remove_mset [OF ys(1)]
  have sub: "set ys \<subseteq> set (ws_chunks st)"
    using mset_eq_setD [of "ws_chunks st" "?c # ys"] ms(1) by auto
  have c: "tc_any ok cells ?c" using Suc.prems(2) ms(2) by blast
  have cells_c: "chunks_cells cells (ws_chunks st) = chunk_cells cells ?c + chunks_cells cells ys"
    by (simp add: chunks_cells_def ms(1))
  have "\<exists>st1. (if \<not> check_entry spec (tc_pt_addr ?c) step
        then Some (st\<lparr>ws_chunks := ys,
                      ws_fail := ws_fail st @ chunk_failures VirtualTranslate ?c\<rparr>)
        else if is_final_mapping spec (tc_pt_addr ?c) step
        then map_option (\<lambda>o'. st\<lparr>ws_chunks := ys, ws_out := ws_out st @ o'\<rparr>)
               (chunk_translated spec step ?c)
        else map_option (\<lambda>new. st\<lparr>ws_chunks := ys @ new\<rparr>)
               (chunk_next cap ops spec step page_size ?c)) = Some st1 \<and>
      walk_cells cells st1 = walk_cells cells st \<and>
      (\<exists>new. ws_chunks st1 = ys @ new \<and> (\<forall>n \<in> set new. tc_any ok cells n) \<and>
         (Suc step = split_count spec \<longrightarrow> new = [])) \<and>
      ws_mem st1 = ws_mem st \<and> ws_pt_buf st1 = ws_pt_buf st"
  proof -
    obtain o' where o': "chunk_translated spec step ?c = Some o'"
      "buf_cells cells (map snd o') = chunk_cells cells ?c"
      using chunk_translated_cells [OF assms(1)] by blast
    obtain new where new: "chunk_next cap ops spec step page_size ?c = Some new"
      "\<forall>n \<in> set new. tc_any ok cells n" "chunks_cells cells new = chunk_cells cells ?c"
      using chunk_next_cells [OF c assms(1,2)] by blast
    have "Suc step = split_count spec \<longrightarrow> is_final_mapping spec (tc_pt_addr ?c) step"
      by (simp add: is_final_mapping_def split_count_def)
    with o' new show ?thesis
      by (auto simp: walk_cells_def cells_c)
  qed
  then obtain st1 new where st1: "walk_step_loop cap ops spec step page_size (Suc i) st
        = walk_step_loop cap ops spec step page_size i st1"
      "walk_cells cells st1 = walk_cells cells st"
      "ws_chunks st1 = ys @ new" "\<forall>n \<in> set new. tc_any ok cells n"
      "Suc step = split_count spec \<longrightarrow> new = []"
      "ws_mem st1 = ws_mem st" "ws_pt_buf st1 = ws_pt_buf st"
    by (auto simp: ys(1))
  have "i \<le> length (ws_chunks st1)" using i ys(4) st1(3) by simp
  moreover have "\<forall>c \<in> set (ws_chunks st1). tc_any ok cells c"
    using st1(3,4) sub Suc.prems(2) by auto
  ultimately obtain st' where st': "walk_step_loop cap ops spec step page_size i st1 = Some st'"
     "walk_cells cells st' = walk_cells cells st1"
     "\<forall>c \<in> set (ws_chunks st'). tc_any ok cells c"
     "ws_mem st' = ws_mem st1" "ws_pt_buf st' = ws_pt_buf st1"
     "Suc step = split_count spec \<longrightarrow> mset (ws_chunks st') = mset (drop i (ws_chunks st1))"
    using Suc.IH [of st1] by blast
  show ?case
    using st' st1 ys(3) by (intro exI [of _ st']) simp
qed simp

end

section \<open>Reading the entries\<close>

lemma length_chunks_exact [simp]: "length (chunks_exact k xs) = length xs div k"
  by (simp add: chunks_exact_def)

lemma chunks_exact_length: "b \<in> set (chunks_exact k xs) \<Longrightarrow> length b = k"
proof -
  assume "b \<in> set (chunks_exact k xs)"
  then obtain i where i: "i < length xs div k" "b = take k (drop (i * k) xs)"
    by (auto simp: chunks_exact_def)
  then have "Suc i * k \<le> length xs div k * k" by (intro mult_le_mono1) simp
  also have "\<dots> \<le> length xs" by simp
  finally show "length b = k" using i(2) by simp
qed

lemma read_pt_loop_cells:
  assumes "step < split_count spec" and "i \<le> length addrs" and "i \<le> length bufs"
    and "\<forall>b \<in> set (take i bufs). 8 \<le> length b" and "\<forall>c \<in> set addrs. tc_any ok cells c"
  shows "\<exists>addrs' addr_map' err_out'.
     read_pt_loop spec tm step i addrs bufs addr_map prev err_out = Some (addrs', addr_map', err_out') \<and>
     chunks_cells cells addrs' + buf_cells cells (map (\<lambda>(_, _, b). b) err_out') =
       chunks_cells cells addrs + buf_cells cells (map (\<lambda>(_, _, b). b) err_out) \<and>
     (\<forall>c \<in> set addrs'. tc_any ok cells c)"
  using assms(2-)
proof (induction i arbitrary: addrs bufs addr_map prev err_out)
  case (Suc i)
  let ?c = "addrs ! i" and ?b = "bufs ! i"
  obtain ys where ys: "swap_remove addrs i = Some (?c, ys)" "length ys = length addrs - 1"
    using swap_remove_parts [of i addrs] Suc.prems(1) by (metis Suc_le_lessD)
  obtain bs where bs: "swap_remove bufs i = Some (?b, bs)" "take i bs = take i bufs"
     "length bs = length bufs - 1"
    using swap_remove_parts [of i bufs] Suc.prems(2) by (metis Suc_le_lessD)
  note ms = swap_remove_mset [OF ys(1)]
  have sub: "\<forall>c \<in> set ys. tc_any ok cells c"
    using mset_eq_setD [of addrs "?c # ys"] ms(1) Suc.prems(4) by auto
  have c: "tc_any ok cells ?c" using ms(2) Suc.prems(4) by blast
  have cells: "chunks_cells cells addrs = chunk_cells cells ?c + chunks_cells cells ys"
    by (simp add: chunks_cells_def ms(1))
  have b8: "\<not> length ?b < 8"
    using Suc.prems(2,3) by (auto simp: take_Suc_conv_app_nth Suc_le_lessD)
  have bs8: "\<forall>b \<in> set (take i bs). 8 \<le> length b"
    using Suc.prems(2,3) by (simp add: bs(2) take_Suc_conv_app_nth Suc_le_lessD)
  have len: "i \<le> length ys" "i \<le> length bs"
    using ys(2) bs(3) Suc.prems(1,2) by auto
  obtain a b where ab: "pte_addr_mask spec (tc_pt_addr ?c) step = Some a"
    "pte_addr_mask spec (address_from_u64 (from_le_bytes (take 8 ?b))) step = Some b"
    using pte_addr_mask_total [OF assms(1)] by metis
  let ?c' = "?c\<lparr>tc_pt_addr := address_from_u64 (from_le_bytes (take 8 ?b))\<rparr>"
  have keep: "\<exists>addrs' addr_map' err_out'.
     read_pt_loop spec tm step i (ys @ [?c']) bs m p err_out = Some (addrs', addr_map', err_out') \<and>
     chunks_cells cells addrs' + buf_cells cells (map (\<lambda>(_, _, b). b) err_out') =
       chunks_cells cells addrs + buf_cells cells (map (\<lambda>(_, _, b). b) err_out) \<and>
     (\<forall>c \<in> set addrs'. tc_any ok cells c)" for m p
    using Suc.IH [of "ys @ [?c']" bs m p err_out] len bs8 sub c by (simp add: cells add_ac)
  have fail: "\<exists>addrs' addr_map' err_out'.
     read_pt_loop spec tm step i ys bs addr_map prev
       (err_out @ chunk_failures VirtualTranslate ?c) = Some (addrs', addr_map', err_out') \<and>
     chunks_cells cells addrs' + buf_cells cells (map (\<lambda>(_, _, b). b) err_out') =
       chunks_cells cells addrs + buf_cells cells (map (\<lambda>(_, _, b). b) err_out) \<and>
     (\<forall>c \<in> set addrs'. tc_any ok cells c)"
    using Suc.IH [of ys bs addr_map prev "err_out @ chunk_failures VirtualTranslate ?c"] len bs8 sub
    by (simp add: cells add_ac)
  show ?case
    using keep fail by (simp add: ys(1) bs(1) b8 ab Let_def del: map_append)
qed simp

lemma pt_reads_ok:
  "bufs_ok (map2 (\<lambda>chunk tr_chunk. pt_reads (tc_pt_addr tr_chunk, page_size) chunk)
     (chunks_exact 8 buf) chunks)"
  by (auto simp: bufs_ok_def pt_reads_def dest!: set_zip_leftD dest: chunks_exact_length)

locale batch_walk = split_index ops ok cells + phys_memory_total pm inv
  for ops :: "'t split_ops" and ok :: "'t \<Rightarrow> bool" and cells :: "'t \<Rightarrow> 'c list"
    and pm :: "'m phys_mem" and inv :: "'m \<Rightarrow> bool"
begin

lemma read_pt_cells:
  assumes "step < split_count spec" and "inv (ws_mem st)"
    and "\<forall>c \<in> set (ws_chunks st). tc_any ok cells c"
  shows "\<exists>r st'. read_pt_address_iter spec tm pm step st = Some (r, st') \<and>
     inv (ws_mem st') \<and> walk_cells cells st' = walk_cells cells st \<and>
     (\<forall>c \<in> set (ws_chunks st'). tc_any ok cells c)"
proof -
  obtain page_size where ps: "pt_leaf_size spec step = Some page_size"
    using pt_leaf_size_total [OF assms(1)] by blast
  let ?n = "length (ws_chunks st)"
  let ?reads = "map2 (\<lambda>chunk tr_chunk. pt_reads (tc_pt_addr tr_chunk, page_size) chunk)
       (chunks_exact 8 (vec_resize (8 * ?n) 0 (ws_pt_buf st))) (ws_chunks st)"
  have reads8: "\<forall>x \<in> set ?reads. length (snd x) = 8"
    using chunks_exact_length [of _ 8] by (auto simp: pt_reads_def dest!: set_zip_leftD)
  obtain r bufs m where rd: "pm_read_raw_list pm (ws_mem st) ?reads = Some (r, bufs, m)" "inv m"
    "map length bufs = map (length \<circ> snd) ?reads"
    using read_total [OF assms(2) pt_reads_ok] by blast
  have n: "length bufs = ?n"
    using arg_cong [OF rd(3), of length] by simp
  from reads8 have "\<forall>l \<in> set (map length bufs). l = 8"
    unfolding rd(3) by simp
  then have b8: "\<forall>b \<in> set (take ?n bufs). 8 \<le> length b"
    by (auto dest: in_set_takeD)
  obtain addrs' addr_map' err_out' where lp:
    "read_pt_loop spec tm step ?n (ws_chunks st) bufs (tm_clear tm (ws_map st)) None (ws_fail st)
       = Some (addrs', addr_map', err_out')"
    "chunks_cells cells addrs' + buf_cells cells (map (\<lambda>(_, _, b). b) err_out') =
       chunks_cells cells (ws_chunks st) + buf_cells cells (map (\<lambda>(_, _, b). b) (ws_fail st))"
    "\<forall>c \<in> set addrs'. tc_any ok cells c"
    using read_pt_loop_cells [OF assms(1) _ _ b8 assms(3)] n by (metis order.refl)
  show ?thesis
  proof (cases r)
    case (Inl e)
    with ps rd(1,2) assms(3) show ?thesis
      by (simp add: read_pt_address_iter_def walk_cells_def Let_def)
  next
    case (Inr u)
    have "walk_cells cells (st\<lparr>ws_mem := m, ws_pt_buf := concat bufs, ws_chunks := addrs',
        ws_map := addr_map', ws_fail := err_out'\<rparr>) = walk_cells cells st"
      using lp(2) by (simp add: walk_cells_def add_ac)
    with Inr ps rd(1,2) lp(1,3) show ?thesis
      by (simp add: read_pt_address_iter_def Let_def)
  qed
qed

lemma walk_steps_cells:
  assumes "s < split_count spec" and "inv (ws_mem st)"
    and "\<forall>c \<in> set (ws_chunks st). tc_any ok cells c"
  shows "\<exists>st'. walk_steps cap ops spec tm pm [s..<split_count spec] st = Some st' \<and>
     ws_chunks st' = [] \<and> walk_cells cells st' = walk_cells cells st \<and> inv (ws_mem st')"
  using assms
proof (induction "split_count spec - s" arbitrary: s st)
  case (Suc n)
  let ?ps = "2 ^ step_bits spec (s + 1) :: u64"
  have upt: "[s..<split_count spec] = s # [Suc s..<split_count spec]"
    using Suc.prems(1) by (rule upt_conv_Cons)
  have ps: "page_size_step_unchecked spec (s + 1) = Some ?ps"
    using Suc.prems(1) by (intro page_size_step_exp) simp
  obtain st1 where st1:
    "walk_step_loop cap ops spec s ?ps (length (ws_chunks st)) st = Some st1"
    "walk_cells cells st1 = walk_cells cells st" "\<forall>c \<in> set (ws_chunks st1). tc_any ok cells c"
    "ws_mem st1 = ws_mem st"
    "Suc s = split_count spec \<longrightarrow> mset (ws_chunks st1) = mset (drop (length (ws_chunks st)) (ws_chunks st))"
    using walk_step_loop_cells [OF Suc.prems(1) step_size(2) order.refl Suc.prems(3)] by blast
  show ?case
  proof (cases "ws_chunks st1 = []")
    case True
    with st1 ps Suc.prems(2) show ?thesis
      by (simp add: upt)
  next
    case False
    with st1(5) have s: "Suc s < split_count spec" using Suc.prems(1) by fastforce
    obtain r st2 where st2: "read_pt_address_iter spec tm pm s st1 = Some (r, st2)"
      "inv (ws_mem st2)" "walk_cells cells st2 = walk_cells cells st1"
      "\<forall>c \<in> set (ws_chunks st2). tc_any ok cells c"
      using read_pt_cells [OF Suc.prems(1) _ st1(3)] st1(4) Suc.prems(2) by metis
    show ?thesis
    proof (cases r)
      case (Inl e)
      have "buf_cells cells (map (\<lambda>(_, _, b). b) (concat (map (chunk_failures e) cs)))
          = chunks_cells cells cs" for cs
        by (induction cs) (simp_all del: concat_map_singleton)
      then show ?thesis
        using Inl st1 st2 False ps by (simp add: upt walk_cells_def add_ac)
    next
      case (Inr u)
      have "n = split_count spec - Suc s" using Suc.hyps(2) by simp
      from Suc.hyps(1) [OF this s st2(2,4)] obtain st' where
        "walk_steps cap ops spec tm pm [Suc s..<split_count spec] st2 = Some st'"
        "ws_chunks st' = []" "walk_cells cells st' = walk_cells cells st2" "inv (ws_mem st')"
        by blast
      then show ?thesis
        using Inr st1 st2 False ps by (simp add: upt)
    qed
  qed
qed simp

end

section \<open>Filtering the requests\<close>

text \<open>
  The longest request the filter passes without splitting: half of the virtual address
  range of the first step.
\<close>

definition virt_range :: "arch_mmu_spec \<Rightarrow> nat" where
  "virt_range spec =
     min (2 ^ (unat (sum_list (virtual_address_splits spec) - 1) mod 64))
         (Suc (unat (bit_mask_u64 0 (ucast (addr_size spec * 8 - 1)))))"

definition good_request :: "('t \<Rightarrow> bool) \<Rightarrow> ('t \<Rightarrow> 'c list) \<Rightarrow> arch_mmu_spec \<Rightarrow> address \<times> 't \<Rightarrow> bool" where
  "good_request ok cells spec r \<longleftrightarrow>
     ok (snd r) \<and> length (cells (snd r)) \<le> virt_range spec \<and>
     unat (fst r) + length (cells (snd r)) < 18446744073709551616"

context split_index
begin

lemma td_split_inclusive_all:
  assumes "ok (td_buf x)" and "length (cells (td_buf x)) \<le> Suc (unat idx)"
  obtains l x' where "td_split_inclusive_at ops x idx = Some (l, None, x')"
    "td_addr l = td_addr x" "ok (td_buf l)" "cells (td_buf l) = cells (td_buf x)"
proof -
  obtain l r where "so_split_inclusive_at ops (td_buf x) idx = Some (l, r, td_buf x)" "ok l"
    "cells l = take (Suc (unat idx)) (cells (td_buf x))"
    "r = None \<longleftrightarrow> length (cells (td_buf x)) \<le> Suc (unat idx)"
    "\<forall>t. r = Some t \<longrightarrow> ok t \<and> cells t = drop (Suc (unat idx)) (cells (td_buf x))"
    by (rule split_inclusive_obtain [OF assms(1), of idx])
  with assms(2) show ?thesis
    by (intro that [of "\<lparr>td_addr = td_addr x, td_buf = l\<rparr>" x])
      (simp_all add: td_split_inclusive_at_def Let_def)
qed

lemma td_split_at_all:
  assumes "ok (td_buf x)" and "length (cells (td_buf x)) \<le> unat idx"
  obtains l x' where "td_split_at ops x idx = Some (l, None, x')"
    "td_addr l = td_addr x" "ok (td_buf l)" "cells (td_buf l) = cells (td_buf x)"
proof -
  obtain l r where "so_split_at ops (td_buf x) idx = Some (l, r, td_buf x)" "ok l"
    "cells l = take (unat idx) (cells (td_buf x))"
    "r = None \<longleftrightarrow> length (cells (td_buf x)) \<le> unat idx"
    "\<forall>t. r = Some t \<longrightarrow> ok t \<and> cells t = drop (unat idx) (cells (td_buf x))"
    by (rule split_at_obtain [OF assms(1), of idx])
  with assms(2) show ?thesis
    by (intro that [of "\<lparr>td_addr = td_addr x, td_buf = l\<rparr>" x])
      (simp_all add: td_split_at_def Let_def)
qed

lemma virt_addr_filter_good:
  assumes "0 < split_count spec" and "good_request ok cells spec r"
  obtains x where
    "virt_addr_filter ops spec r valid fail =
       Some (if cells (snd r) = [] then valid else valid @ [x], fail)"
    "td_addr x = fst r" "cells (td_buf x) = cells (snd r)"
    "cells (snd r) \<noteq> [] \<longrightarrow> td_good ok cells x"
proof -
  let ?x = "\<lparr>td_addr = fst r, td_buf = snd r\<rparr>"
  let ?m = "bit_mask_u64 0 (ucast (addr_size spec * 8 - 1))"
  let ?v = "shl64 1 (ucast (sum_list (virtual_address_splits spec) - 1))"
  have len: "length (cells (snd r)) \<le> Suc (unat ?m)" "length (cells (snd r)) \<le> unat ?v"
    using assms(2) by (simp_all add: good_request_def virt_range_def shl64_exp unat_exp_64)
  obtain l x1 where l: "td_split_inclusive_at ops ?x ?m = Some (l, None, x1)"
    "td_addr l = fst r" "ok (td_buf l)" "cells (td_buf l) = cells (snd r)"
    using td_split_inclusive_all [of ?x ?m] assms(2) len(1) by (auto simp: good_request_def)
  obtain w x2 where w: "td_split_at ops l ?v = Some (w, None, x2)"
    "td_addr w = fst r" "ok (td_buf w)" "cells (td_buf w) = cells (snd r)"
    using td_split_at_all [of l ?v] l(2-4) len(2) by auto
  have "unat (td_length ops w) = length (cells (snd r))"
    using w(3,4) by (simp add: td_length_def length_cells)
  then have pos: "0 < td_length ops w \<longleftrightarrow> cells (snd r) \<noteq> []"
    by (simp add: word_less_nat_alt)
  have br: "virt_addr_bit_range spec 0 = Some (sum_list (drop 1 (virtual_address_splits spec)),
      sum_list (virtual_address_splits spec))"
    using virt_addr_bit_range_total [OF assms(1)] by simp
  have "virt_addr_filter ops spec r valid fail =
      Some (if cells (snd r) = [] then valid else valid @ [w], fail)"
    using pos by (simp add: virt_addr_filter_def l(1) w(1) br as_usize_def)
  moreover have "cells (snd r) \<noteq> [] \<longrightarrow> td_good ok cells w"
    using w assms(2) by (simp add: td_good_def good_request_def)
  ultimately show ?thesis
    using w(2,4) that by blast
qed

lemma filter_requests_good:
  assumes "0 < split_count spec" and "\<forall>r \<in> set rs. good_request ok cells spec r"
    and "\<forall>x \<in> set (tc_vec c). td_good ok cells x"
  shows "\<exists>xs. filter_requests ops dtb spec rs [c] fail = Some ([c\<lparr>tc_vec := tc_vec c @ xs\<rparr>], fail) \<and>
     (\<forall>x \<in> set xs. td_good ok cells x) \<and>
     buf_cells cells (map td_buf xs) = buf_cells cells (map snd rs) \<and>
     map td_addr xs = map fst (filter (\<lambda>r. cells (snd r) \<noteq> []) rs) \<and>
     map (\<lambda>x. cells (td_buf x)) xs = map (\<lambda>r. cells (snd r)) (filter (\<lambda>r. cells (snd r) \<noteq> []) rs)"
  using assms(2,3)
proof (induction rs arbitrary: c)
  case Nil
  show ?case by (intro exI [of _ "[]"]) simp
next
  case (Cons r rs)
  obtain x where x: "virt_addr_filter ops spec r (tc_vec c) fail =
       Some (if cells (snd r) = [] then tc_vec c else tc_vec c @ [x], fail)"
    "td_addr x = fst r" "cells (td_buf x) = cells (snd r)"
    "cells (snd r) \<noteq> [] \<longrightarrow> td_good ok cells x"
    using virt_addr_filter_good [OF assms(1)] Cons.prems(1) by (metis list.set_intros(1))
  let ?xs = "if cells (snd r) = [] then [] else [x]"
  let ?c = "c\<lparr>tc_vec := tc_vec c @ ?xs\<rparr>"
  have step: "filter_requests ops dtb spec (r # rs) [c] fail = filter_requests ops dtb spec rs [?c] fail"
    by (simp add: base_virt_addr_filter_def nth_opt_def x(1))
  have good: "\<forall>x \<in> set (tc_vec ?c). td_good ok cells x"
    using Cons.prems(2) x(4) by auto
  obtain xs where xs:
    "filter_requests ops dtb spec rs [?c] fail = Some ([?c\<lparr>tc_vec := tc_vec ?c @ xs\<rparr>], fail)"
    "\<forall>x \<in> set xs. td_good ok cells x"
    "buf_cells cells (map td_buf xs) = buf_cells cells (map snd rs)"
    "map td_addr xs = map fst (filter (\<lambda>r. cells (snd r) \<noteq> []) rs)"
    "map (\<lambda>x. cells (td_buf x)) xs = map (\<lambda>r. cells (snd r)) (filter (\<lambda>r. cells (snd r) \<noteq> []) rs)"
    using Cons.IH [OF _ good] Cons.prems(1) by auto
  show ?case
    using xs x(2-4) unfolding step by (intro exI [of _ "?xs @ xs"]) auto
qed

end

lemma mmu_iter_unfold:
  assumes "filter_requests ops dtb spec rs [tc_new ops dtb []] fail = Some ([c], fail')"
  shows "mmu_virt_to_phys_iter cap ops spec tm pm m dtb rs out fail =
     map_option (\<lambda>st. (ws_out st, ws_fail st, ws_mem st))
       (walk_steps cap ops spec tm pm [0..<split_count spec]
          \<lparr>ws_mem = m, ws_map = tm_new tm, ws_chunks = [tc_recalc_minmax ops c], ws_pt_buf = [],
           ws_out = out, ws_fail = fail'\<rparr>)"
proof -
  have "map (\<lambda>idx. tc_new ops (get_pt_by_index dtb idx) []) [0..<pt_count dtb] = [tc_new ops dtb []]"
    by (simp add: get_pt_by_index_def pt_count_def)
  then show ?thesis
    unfolding mmu_virt_to_phys_iter_def Let_def
    by (simp add: assms map_conv_bind_option o_def)
qed

context batch_walk
begin

lemma start_chunk:
  assumes "\<forall>x \<in> set xs. td_good ok cells x"
  shows "tc_any ok cells (tc_recalc_minmax ops (c\<lparr>tc_vec := xs\<rparr>))"
    and "chunk_cells cells (tc_recalc_minmax ops (c\<lparr>tc_vec := xs\<rparr>)) = buf_cells cells (map td_buf xs)"
proof -
  show "tc_any ok cells (tc_recalc_minmax ops (c\<lparr>tc_vec := xs\<rparr>))"
  proof (cases "xs = []")
    case True
    then show ?thesis
      by (simp add: tc_any_def tc_recalc_minmax_def tc_min_max_def address_from_u64_def)
  next
    case False
    with tc_recalc_wf [of "c\<lparr>tc_vec := xs\<rparr>"] assms show ?thesis
      by (simp add: tc_any_def)
  qed
  show "chunk_cells cells (tc_recalc_minmax ops (c\<lparr>tc_vec := xs\<rparr>)) = buf_cells cells (map td_buf xs)"
    by (simp add: chunk_cells_def tc_recalc_minmax_def split: prod.split)
qed

lemma virt_to_phys_iter_cells:
  assumes "0 < split_count spec" and "inv m" and "\<forall>r \<in> set rs. good_request ok cells spec r"
  shows "\<exists>out' fail' m'.
     mmu_virt_to_phys_iter cap ops spec tm pm m dtb rs out fail = Some (out', fail', m') \<and>
     inv m' \<and>
     buf_cells cells (map snd out') + buf_cells cells (map (\<lambda>(_, _, b). b) fail') =
       buf_cells cells (map snd rs) + buf_cells cells (map snd out) +
       buf_cells cells (map (\<lambda>(_, _, b). b) fail)"
proof -
  let ?c = "tc_new ops dtb []"
  have vec: "tc_vec ?c = []" by (simp add: tc_new_def tc_with_minmax_def split: prod.split)
  then have "\<forall>x \<in> set (tc_vec ?c). td_good ok cells x" by simp
  from filter_requests_good [OF assms(1,3) this, of dtb fail] obtain xs where xs:
    "filter_requests ops dtb spec rs [?c] fail = Some ([?c\<lparr>tc_vec := xs\<rparr>], fail)"
    "\<forall>x \<in> set xs. td_good ok cells x"
    "buf_cells cells (map td_buf xs) = buf_cells cells (map snd rs)"
    unfolding vec by auto
  let ?st = "\<lparr>ws_mem = m, ws_map = tm_new tm,
     ws_chunks = [tc_recalc_minmax ops (?c\<lparr>tc_vec := xs\<rparr>)], ws_pt_buf = [],
     ws_out = out, ws_fail = fail\<rparr>"
  have "\<forall>c \<in> set (ws_chunks ?st). tc_any ok cells c"
    using start_chunk(1) [OF xs(2)] by simp
  then obtain st' where st':
    "walk_steps cap ops spec tm pm [0..<split_count spec] ?st = Some st'"
    "ws_chunks st' = []" "walk_cells cells st' = walk_cells cells ?st" "inv (ws_mem st')"
    using walk_steps_cells [OF assms(1), of ?st] assms(2) by auto
  have "mmu_virt_to_phys_iter cap ops spec tm pm m dtb rs out fail =
      Some (ws_out st', ws_fail st', ws_mem st')"
    by (simp only: mmu_iter_unfold [OF xs(1)] st'(1) option.map)
  moreover have "walk_cells cells ?st = buf_cells cells (map snd rs) +
      buf_cells cells (map snd out) + buf_cells cells (map (\<lambda>(_, _, b). b) fail)"
    by (simp add: walk_cells_def start_chunk(2) [OF xs(2)] xs(3))
  ultimately show ?thesis
    using st'(2-4) by (simp add: walk_cells_def)
qed

end

section \<open>The contract of the batch walk on the model\<close>

interpretation usize_walk: batch_walk usize_ops "\<lambda>_. True" usize_cells reference_memory "\<lambda>_. True"
  by unfold_locales

interpretation slice_walk: batch_walk mut_slice_ops mut_slice_ok mut_slice_cells reference_memory "\<lambda>_. True"
  by unfold_locales

lemma x86_virt_range:
  "virt_range (x86_mmu x64_spec) = 2 ^ 47"
  "virt_range (x86_mmu x32_spec) = 2 ^ 31"
  "virt_range (x86_mmu x32_pae_spec) = 2 ^ 31"
proof -
  have m: "bit_mask_u64 0 63 = - 1" "bit_mask_u64 0 31 = mask 32"
    using bit_mask_u64_low [of 31]
    by (auto intro!: bit_word_eqI simp: bit_bit_mask_u64)
  have u: "unat (mask 32 :: u64) = 4294967295" by (simp add: mask_eq_exp_minus_1)
  show "virt_range (x86_mmu x64_spec) = 2 ^ 47"
    "virt_range (x86_mmu x32_spec) = 2 ^ 31" "virt_range (x86_mmu x32_pae_spec) = 2 ^ 31"
    by (simp_all add: virt_range_def x64_spec_def x32_spec_def x32_pae_spec_def m u)
qed

lemma x86_split_count: "0 < split_count (x86_mmu x64_spec)" "0 < split_count (x86_mmu x32_spec)"
  "0 < split_count (x86_mmu x32_pae_spec)"
  by (simp_all add: split_count_def x64_spec_def x32_spec_def x32_pae_spec_def)

section \<open>Properties\<close>

text \<open>
  C3. Conservation and totality of batch translation. For any page tables, any batch of
  requests and any architecture: when no request is longer than half the virtual range or
  wraps the address space, the translation returns without a panic, and the bytes of the
  translated buffers together with the bytes of the failures are the bytes of the requests,
  each counted exactly once: nothing is lost, invented or reported twice.
\<close>

theorem translation_conserves_requests:
  assumes "batch_walk ops ok cells pm mem_ok" and "0 < split_count spec" and "mem_ok m"
    and "\<forall>r \<in> set rs. good_request ok cells spec r"
  shows "\<exists>out fail m'. mmu_virt_to_phys_iter cap ops spec tm pm m dtb rs [] [] = Some (out, fail, m') \<and>
     mem_ok m' \<and>
     buf_cells cells (map snd out) + buf_cells cells (map (\<lambda>(_, _, b). b) fail) =
       buf_cells cells (map snd rs)"
  using batch_walk.virt_to_phys_iter_cells [OF assms, of cap tm dtb "[]" "[]"] by simp

definition list_tree_map :: "address list tree_map" where
  "list_tree_map = \<lparr>tm_new = [], tm_clear = (\<lambda>_. []), tm_insert = (\<lambda>a xs. a # xs),
     tm_contains = (\<lambda>a xs. a \<in> set xs)\<rparr>"

theorem translation_conserves_requests_witness:
  "\<exists>out fail m'. mmu_virt_to_phys_iter (\<lambda>_. 0) usize_ops (x86_mmu x64_spec) list_tree_map
       reference_memory (\<lambda>a. Some (ucast a)) 0x1000 [(0x1000, 0x3000), (0x7fff0000, 16)] [] []
       = Some (out, fail, m') \<and>
     buf_cells usize_cells (map snd out) + buf_cells usize_cells (map (\<lambda>(_, _, b). b) fail) =
       buf_cells usize_cells [0x3000, 16]"
  using translation_conserves_requests [OF usize_walk.batch_walk_axioms x86_split_count(1), where m = "\<lambda>a. Some (ucast a)" and rs = "[(0x1000, 0x3000), (0x7fff0000, 16)]"
        and cap = "\<lambda>_. 0" and tm = list_tree_map and dtb = "0x1000"]
  by (simp add: good_request_def x86_virt_range usize_cells_def)

end
