(* ===== verification/Mmu_Walk.thy ===== *)
theory Mmu_Walk
  imports Walk_Cells
begin

text \<open>
  What the batch walk computes: \<open>walk\<close> is the page walk of one virtual address over a
  fixed memory, entry by entry. The locale \<open>mapped_walk\<close> joins the contract of the
  buffers with a memory whose content is known. Every translated piece of a request is the
  walk of each of its bytes, and a request inside one page gives exactly the outcome of the
  walk. Which entries a batch goes on with, when several of its chunks meet equal ones, is
  shown for the read of the entries.
\<close>

section \<open>The walk of one address\<close>

datatype walk_result = Walk_Entry u64 nat | Walk_Fault | Walk_Unmapped

definition read_pte :: "(u64 \<Rightarrow> u8 option) \<Rightarrow> address \<Rightarrow> u64 option" where
  "read_pte content a =
     map_option from_le_bytes (those (map (byte_at content a) [0..<8]))"

lemma those_map_if:
  "those (map f xs) = (if \<forall>x \<in> set xs. f x \<noteq> None then Some (map (\<lambda>x. the (f x)) xs) else None)"
  by (induction xs) (auto split: option.split)

lemma read_pte_if:
  "read_pte content a =
     (if \<forall>j < 8. byte_at content a j \<noteq> None
      then Some (from_le_bytes (map (\<lambda>j. the (byte_at content a j)) [0..<8])) else None)"
  by (simp only: read_pte_def those_map_if set_upt atLeastLessThan_iff) auto

text \<open>An entry that points back to the table it is in does not lead on.\<close>

fun walk_from :: "arch_mmu_spec \<Rightarrow> (u64 \<Rightarrow> u8 option) \<Rightarrow> nat list \<Rightarrow> u64 \<Rightarrow> address \<Rightarrow> walk_result" where
  "walk_from spec content [] pt v = Walk_Fault"
| "walk_from spec content (s # ss) pt v =
     (if \<not> check_entry spec pt s then Walk_Fault
      else if is_final_mapping spec pt s then Walk_Entry pt s
      else let a = the (vtop_step spec pt v s) in
        case read_pte content a of
          None \<Rightarrow> Walk_Unmapped
        | Some pte \<Rightarrow>
            if pte_addr_mask spec a s = pte_addr_mask spec pte s then Walk_Fault
            else walk_from spec content ss pte v)"

definition walk :: "arch_mmu_spec \<Rightarrow> (u64 \<Rightarrow> u8 option) \<Rightarrow> address \<Rightarrow> address \<Rightarrow> walk_result" where
  "walk spec content dtb v = walk_from spec content [0..<split_count spec] dtb v"

section \<open>Addresses of one page take the same entry\<close>

lemma unat_shr64_div: "unat (shr64 v n) = unat v div 2 ^ (unat n mod 64)"
  by (simp add: shr64_def drop_bit_eq_div unat_div_distrib unat_exp_64)

lemma vtop_step_same_page:
  assumes "step < split_count spec"
    and "unat v div 2 ^ step_bits spec (Suc step) = unat w div 2 ^ step_bits spec (Suc step)"
  shows "vtop_step spec p v step = vtop_step spec p w step"
proof -
  let ?mn = "sum_list (drop (Suc step) (virtual_address_splits spec))"
  have "shr64 v (ucast ?mn) = shr64 w (ucast ?mn)"
    using assms(2) by (simp add: word_unat_eq_iff unat_shr64_div step_bits_def)
  then show ?thesis
    by (simp add: vtop_step_def virt_addr_to_pte_offset_def virt_addr_bit_range_total [OF assms(1)]
        as_u64_def)
qed

lemma same_page_div:
  assumes "0 < (p :: nat)" and "a \<le> b" and "b < a + page_room p a"
  shows "b div p = a div p"
proof -
  have "b < Suc (a div p) * p"
    using assms(3) page_room(4) [OF assms(1), of a] by simp
  then have "b div p < Suc (a div p)"
    by (rule less_mult_imp_div_less)
  moreover have "a div p \<le> b div p" using assms(2) by (rule div_le_mono)
  ultimately show ?thesis by simp
qed

section \<open>Soundness of the steps\<close>

text \<open>
  A chunk of one request piece. Before step \<open>s\<close> its entry is the one the walk of each of
  its addresses has reached; between the cut and the read it holds the place of the next
  entry.
\<close>

definition in_range :: "('t \<Rightarrow> 'c list) \<Rightarrow> 't translate_data \<Rightarrow> address \<Rightarrow> bool" where
  "in_range cells y v \<longleftrightarrow> unat (td_addr y) \<le> unat v \<and> unat v < td_end cells y"

definition in_page :: "arch_mmu_spec \<Rightarrow> ('t \<Rightarrow> 'c list) \<Rightarrow> nat \<Rightarrow> 't translate_data \<Rightarrow> bool" where
  "in_page spec cells s y \<longleftrightarrow>
     td_end cells y \<le> unat (td_addr y) + page_room (2 ^ step_bits spec s) (unat (td_addr y))"

definition entry_chunk ::
  "arch_mmu_spec \<Rightarrow> ('t \<Rightarrow> bool) \<Rightarrow> ('t \<Rightarrow> 'c list) \<Rightarrow> (u64 \<Rightarrow> u8 option) \<Rightarrow> address
     \<Rightarrow> (address \<times> 'c) set \<Rightarrow> nat \<Rightarrow> 't translation_chunk \<Rightarrow> bool" where
  "entry_chunk spec ok cells content dtb R s c \<longleftrightarrow> tc_wf ok cells c \<and>
     (\<exists>y. tc_vec c = [y] \<and> set (td_cells cells y) \<subseteq> R \<and> (0 < s \<longrightarrow> in_page spec cells s y) \<and>
        (\<forall>v. in_range cells y v \<longrightarrow>
           walk_from spec content [s..<split_count spec] (tc_pt_addr c) v = walk spec content dtb v))"

definition place_chunk ::
  "arch_mmu_spec \<Rightarrow> ('t \<Rightarrow> bool) \<Rightarrow> ('t \<Rightarrow> 'c list) \<Rightarrow> (u64 \<Rightarrow> u8 option) \<Rightarrow> address
     \<Rightarrow> (address \<times> 'c) set \<Rightarrow> nat \<Rightarrow> 't translation_chunk \<Rightarrow> bool" where
  "place_chunk spec ok cells content dtb R s c \<longleftrightarrow> tc_wf ok cells c \<and>
     (\<exists>y. tc_vec c = [y] \<and> set (td_cells cells y) \<subseteq> R \<and> in_page spec cells (Suc s) y \<and>
        (\<forall>v. in_range cells y v \<longrightarrow>
           (case read_pte content (tc_pt_addr c) of
              None \<Rightarrow> Walk_Unmapped
            | Some pte \<Rightarrow>
                if pte_addr_mask spec (tc_pt_addr c) s = pte_addr_mask spec pte s then Walk_Fault
                else walk_from spec content [Suc s..<split_count spec] pte v)
           = walk spec content dtb v))"

text \<open>A translated piece: its bytes share one entry of the walk and one page.\<close>

definition sound_out ::
  "arch_mmu_spec \<Rightarrow> ('t \<Rightarrow> 'c list) \<Rightarrow> (u64 \<Rightarrow> u8 option) \<Rightarrow> address \<Rightarrow> (address \<times> 'c) set
     \<Rightarrow> phys_addr \<times> 't \<Rightarrow> bool" where
  "sound_out spec cells content dtb R out \<longleftrightarrow>
     (\<exists>a pte s. s < split_count spec \<and> cells (snd out) \<noteq> [] \<and>
        set (addr_cells a (cells (snd out))) \<subseteq> R \<and>
        unat a mod 2 ^ step_bits spec s + length (cells (snd out)) \<le> 2 ^ step_bits spec s \<and>
        get_phys_page spec pte a s = Some (fst out) \<and>
        (\<forall>v. unat a \<le> unat v \<and> unat v < unat a + length (cells (snd out)) \<longrightarrow>
           walk spec content dtb v = Walk_Entry pte s))"

text \<open>What the translation of one byte appends to the two collections.\<close>

definition outcome ::
  "arch_mmu_spec \<Rightarrow> walk_result \<Rightarrow> address \<Rightarrow> (phys_addr \<times> 't) list \<Rightarrow> 't failure list \<Rightarrow> bool" where
  "outcome spec w v out fail \<longleftrightarrow>
     (case w of
        Walk_Entry pte k \<Rightarrow> \<exists>b pa. get_phys_page spec pte v k = Some pa \<and> out = [(pa, b)] \<and> fail = []
      | _ \<Rightarrow> \<exists>b. out = [] \<and> fail = [(VirtualTranslate, v, b)])"

text \<open>The entries of a batch are read with one call; each buffer holds the entry of its chunk.\<close>

definition entry_reads :: "usize \<Rightarrow> ('t, 'm, 's) walk_state \<Rightarrow> phys_read_data list" where
  "entry_reads page_size st = map2 (\<lambda>chunk tr_chunk. pt_reads (tc_pt_addr tr_chunk, page_size) chunk)
     (chunks_exact 8 (vec_resize (8 * length (ws_chunks st)) 0 (ws_pt_buf st))) (ws_chunks st)"

context matching_memory
begin

lemma entries_read:
  assumes m: "inv (ws_mem st)"
  shows "\<exists>pbs m'. pm_read_raw_list pm (ws_mem st) (entry_reads page_size st) = Some (Inr (), pbs, m') \<and>
     inv m' \<and> content m' = content (ws_mem st) \<and> length pbs = length (ws_chunks st) \<and>
     (\<forall>k < length (ws_chunks st). 8 \<le> length (pbs ! k) \<and>
       (\<forall>pte. read_pte (content (ws_mem st)) (tc_pt_addr (ws_chunks st ! k)) = Some pte \<longrightarrow>
          from_le_bytes (take 8 (pbs ! k)) = pte))"
proof -
  let ?C = "content (ws_mem st)" and ?n = "length (ws_chunks st)"
  let ?reads = "entry_reads page_size st"
  obtain pbs m' where rd: "pm_read_raw_list pm (ws_mem st) ?reads = Some (Inr (), pbs, m')"
    "inv m'" "content m' = ?C" and match: "reads_match ?C ?reads pbs"
    using read_matches [OF m pt_reads_ok, of page_size] unfolding entry_reads_def by fastforce
  have n: "length pbs = ?n" using reads_match_nth(1) [OF match] by (simp add: entry_reads_def)
  have nth: "length (pbs ! k) = 8" "src_matches ?C (tc_pt_addr (ws_chunks st ! k)) (pbs ! k)" if "k < ?n" for k
    using that reads_match_nth(3) [OF match, of k]
      chunks_exact_length [of "chunks_exact 8 (vec_resize (8 * ?n) 0 (ws_pt_buf st)) ! k" 8
        "vec_resize (8 * ?n) 0 (ws_pt_buf st)"]
    by (simp_all add: entry_reads_def pt_reads_def pa_as_u64_def pa_with_page_def as_u64_def)
  have "from_le_bytes (take 8 (pbs ! k)) = pte"
    if k: "k < ?n" and "read_pte ?C (tc_pt_addr (ws_chunks st ! k)) = Some pte" for k pte
  proof -
    have "\<forall>j < 8. byte_at ?C (tc_pt_addr (ws_chunks st ! k)) j \<noteq> None"
      and pte: "pte = from_le_bytes (map (\<lambda>j. the (byte_at ?C (tc_pt_addr (ws_chunks st ! k)) j)) [0..<8])"
      using that(2) by (auto simp: read_pte_if split: if_splits)
    then have "pbs ! k = map (\<lambda>j. the (byte_at ?C (tc_pt_addr (ws_chunks st ! k)) j)) [0..<8]"
      using src_matches_mapped [OF nth(2) [OF k]] nth(1) [OF k] by simp
    with pte show ?thesis by (simp only:) simp
  qed
  with rd n nth(1) show ?thesis by simp
qed

end

text \<open>The MMUs with at least two steps whose first entry is never a page.\<close>

definition deep_spec :: "arch_mmu_spec \<Rightarrow> bool" where
  "deep_spec spec \<longleftrightarrow> 1 < split_count spec \<and> 0 \<notin> set (valid_final_page_steps spec)"

locale mapped_walk = split_index ops ok cells + matching_memory pm inv content
  for ops :: "'t split_ops" and ok :: "'t \<Rightarrow> bool" and cells :: "'t \<Rightarrow> 'c list"
    and pm :: "'m phys_mem" and inv :: "'m \<Rightarrow> bool" and content :: "'m \<Rightarrow> u64 \<Rightarrow> u8 option"
begin

lemma td_good_range: "td_good ok cells y \<Longrightarrow> in_range cells y (td_addr y)"
  by (auto simp: in_range_def td_good_def td_end_def)

lemma chunk_next_sound:
  assumes c: "entry_chunk spec ok cells C dtb R s c" and s: "Suc s < split_count spec"
    and chk: "check_entry spec (tc_pt_addr c) s" and fin: "\<not> is_final_mapping spec (tc_pt_addr c) s"
  shows "\<exists>new. chunk_next cap ops spec s (2 ^ step_bits spec (Suc s)) c = Some new \<and>
     (\<forall>n \<in> set new. place_chunk spec ok cells C dtb R s n)"
proof -
  let ?ps = "2 ^ step_bits spec (Suc s) :: u64"
  obtain x where wf: "tc_wf ok cells c" and x: "tc_vec c = [x]" "set (td_cells cells x) \<subseteq> R"
    and w: "\<And>v. in_range cells x v \<Longrightarrow>
      walk_from spec C [s..<split_count spec] (tc_pt_addr c) v = walk spec C dtb v"
    using c by (auto simp: entry_chunk_def)
  have s': "s < split_count spec" using s by simp
  have p: "0 < (2 :: nat) ^ step_bits spec (Suc s)" by simp
  obtain chunks where ch: "page_chunks_list (tc_ops cap ops) c (tc_min_addr c) ?ps = Some chunks"
    "\<forall>ch \<in> set chunks. tc_wf ok cells (snd ch) \<and> tc_pt_addr (snd ch) = tc_pt_addr c \<and>
        tc_min_addr (snd ch) = fst ch \<and>
        (\<exists>y. tc_vec (snd ch) = [y] \<and> unat (td_addr x) \<le> unat (td_addr y) \<and>
           td_end cells y \<le> td_end cells x \<and>
           td_end cells y \<le> unat (td_addr y) + page_room (unat ?ps) (unat (td_addr y)))"
    using tc_page_chunks_single [OF wf x(1) step_size(2)] step_size(1,3)
    by (metis (no_types, lifting))
  obtain chunks' where ch': "page_chunks_list (tc_ops cap ops) c (tc_min_addr c) ?ps = Some chunks'"
    "(\<Sum>ch \<leftarrow> chunks'. vec_cells cells (tc_vec (snd ch))) = vec_cells cells (tc_vec c)"
    using tc_page_chunks_cells [OF wf step_size(2)] by blast
  have sub: "set (td_cells cells y) \<subseteq> R" if "w \<in> set chunks" "tc_vec (snd w) = [y]" for w y
  proof -
    have "vec_cells cells (tc_vec (snd w)) \<subseteq># (\<Sum>ch \<leftarrow> xs. vec_cells cells (tc_vec (snd ch)))"
      if "w \<in> set xs" for xs
      using that by (induction xs) (auto intro: subset_mset.add_increasing subset_mset.add_increasing2)
    from this [OF that(1)] ch' ch(1) that(2) x(1) have "mset (td_cells cells y) \<subseteq># mset (td_cells cells x)"
      by simp
    from set_mset_mono [OF this] x(2) show ?thesis by simp
  qed
  let ?pt = "\<lambda>ch. the (vtop_step spec (tc_pt_addr c) (tc_min_addr (snd ch)) s)"
  let ?g = "\<lambda>ch. (snd ch)\<lparr>tc_pt_addr := ?pt ch\<rparr>"
  have "those (map (\<lambda>(_, chunk). map_option (\<lambda>pt_addr. chunk\<lparr>tc_pt_addr := pt_addr\<rparr>)
                (vtop_step spec (tc_pt_addr chunk) (tc_min_addr chunk) s)) chunks)
      = Some (map ?g chunks)"
    using vtop_step_total [OF s'] ch(2) by (intro those_map_Some) (force split: prod.splits)
  then have nx: "chunk_next cap ops spec s ?ps c = Some (map ?g chunks)"
    using ch(1) by (simp add: chunk_next_def)
  have "place_chunk spec ok cells C dtb R s (?g w)" if w_in: "w \<in> set chunks" for w
  proof -
    obtain y where y: "tc_wf ok cells (snd w)" "tc_vec (snd w) = [y]"
      "unat (td_addr x) \<le> unat (td_addr y)" "td_end cells y \<le> td_end cells x"
      "td_end cells y \<le> unat (td_addr y) + page_room (unat ?ps) (unat (td_addr y))"
      using ch(2) w_in by blast
    have mn: "tc_min_addr (snd w) = td_addr y"
      using y(1,2) by (simp add: tc_wf_def)
    have pg: "in_page spec cells (Suc s) y"
      using y(5) by (simp add: in_page_def step_size(1))
    have "(case read_pte C (?pt w) of None \<Rightarrow> Walk_Unmapped
          | Some pte \<Rightarrow> if pte_addr_mask spec (?pt w) s = pte_addr_mask spec pte s then Walk_Fault
                        else walk_from spec C [Suc s..<split_count spec] pte v)
         = walk spec C dtb v" if v: "in_range cells y v" for v
    proof -
      have "unat v div 2 ^ step_bits spec (Suc s) = unat (td_addr y) div 2 ^ step_bits spec (Suc s)"
        using v pg by (intro same_page_div [OF p]) (auto simp: in_range_def in_page_def)
      then have pt: "?pt w = the (vtop_step spec (tc_pt_addr c) v s)"
        using vtop_step_same_page [OF s'] mn by metis
      have "in_range cells x v"
        using v y(3,4) by (auto simp: in_range_def)
      then have "walk spec C dtb v = walk_from spec C [s..<split_count spec] (tc_pt_addr c) v"
        using w by simp
      also have "\<dots> = walk_from spec C (s # [Suc s..<split_count spec]) (tc_pt_addr c) v"
        using s' by (simp only: upt_conv_Cons)
      finally show ?thesis
        using chk fin unfolding pt by (simp add: Let_def)
    qed
    note outcome = this
    have fields: "tc_pt_addr (?g w) = ?pt w" "tc_vec (?g w) = [y]" "tc_wf ok cells (?g w)"
      using y(1,2) by (simp_all add: tc_wf_def)
    show ?thesis
      unfolding place_chunk_def fields(1,2)
      using fields(3) sub [OF w_in y(2)] pg outcome by blast
  qed
  with nx show ?thesis by simp
qed

lemma chunk_translated_sound:
  assumes c: "entry_chunk spec ok cells C dtb R s c" and s: "s < split_count spec" "0 < s"
    and chk: "check_entry spec (tc_pt_addr c) s" and fin: "is_final_mapping spec (tc_pt_addr c) s"
  shows "\<exists>o'. chunk_translated spec s c = Some o' \<and>
     (\<forall>x \<in> set o'. sound_out spec cells C dtb R x)"
proof -
  obtain y where wf: "tc_wf ok cells c" and y: "tc_vec c = [y]" "set (td_cells cells y) \<subseteq> R"
    "in_page spec cells s y"
    and w: "\<And>v. in_range cells y v \<Longrightarrow>
      walk_from spec C [s..<split_count spec] (tc_pt_addr c) v = walk spec C dtb v"
    using c s(2) by (auto simp: entry_chunk_def)
  obtain pa where pa: "get_phys_page spec (tc_pt_addr c) (td_addr y) s = Some pa"
    using get_phys_page_total [OF s(1)] by blast
  have "walk spec C dtb v = Walk_Entry (tc_pt_addr c) s" if "in_range cells y v" for v
  proof -
    have "walk spec C dtb v = walk_from spec C (s # [Suc s..<split_count spec]) (tc_pt_addr c) v"
      using w [OF that] s by (simp only: upt_conv_Cons)
    with chk fin show ?thesis by simp
  qed
  moreover have "unat (td_addr y) mod 2 ^ step_bits spec s + length (cells (td_buf y)) \<le> 2 ^ step_bits spec s"
    using y(3) page_room(3) [of "2 ^ step_bits spec s" "unat (td_addr y)"]
    by (simp add: in_page_def td_end_def)
  moreover have "cells (td_buf y) \<noteq> []"
    using wf y(1) by (simp add: tc_wf_def td_good_def)
  ultimately have "sound_out spec cells C dtb R (pa, td_buf y)"
    using y(2) pa s(1) unfolding sound_out_def
    by (intro exI [of _ "td_addr y"] exI [of _ "tc_pt_addr c"] exI [of _ s])
      (auto simp: td_cells_def in_range_def td_end_def)
  then show ?thesis
    by (simp add: chunk_translated_def y(1) pa)
qed

text \<open>One step: what is left of the chunks holds the places of the next entries.\<close>

lemma walk_step_loop_sound:
  assumes s: "s < split_count spec" and deep: "deep_spec spec"
    and "i \<le> length (ws_chunks st)"
    and "\<forall>c \<in> set (take i (ws_chunks st)). entry_chunk spec ok cells C dtb R s c"
    and "\<forall>c \<in> set (drop i (ws_chunks st)). place_chunk spec ok cells C dtb R s c"
    and "\<forall>x \<in> set (ws_out st). sound_out spec cells C dtb R x"
  shows "\<exists>st'. walk_step_loop cap ops spec s (2 ^ step_bits spec (Suc s)) i st = Some st' \<and>
     (\<forall>c \<in> set (ws_chunks st'). place_chunk spec ok cells C dtb R s c) \<and>
     (\<forall>x \<in> set (ws_out st'). sound_out spec cells C dtb R x) \<and> ws_mem st' = ws_mem st"
  using assms(3-)
proof (induction i arbitrary: st)
  case (Suc i)
  then have i: "i < length (ws_chunks st)" by simp
  let ?c = "ws_chunks st ! i" and ?ps = "2 ^ step_bits spec (Suc s) :: u64"
  obtain ys where ys: "swap_remove (ws_chunks st) i = Some (?c, ys)"
    "take i ys = take i (ws_chunks st)"
    "mset (drop i ys) = mset (drop (Suc i) (ws_chunks st))" "length ys = length (ws_chunks st) - 1"
    by (rule swap_remove_parts [OF i])
  have c: "entry_chunk spec ok cells C dtb R s ?c"
    using Suc.prems(2) i by (simp add: take_Suc_conv_app_nth)
  have l: "i \<le> length ys" using i ys(4) by linarith
  have tk: "\<forall>c \<in> set (take i ys). entry_chunk spec ok cells C dtb R s c"
    using Suc.prems(2) i by (simp add: ys(2) take_Suc_conv_app_nth)
  have dr: "\<forall>c \<in> set (drop i ys). place_chunk spec ok cells C dtb R s c"
    using Suc.prems(3) mset_eq_setD [OF ys(3)] by simp
  consider (bad) "\<not> check_entry spec (tc_pt_addr ?c) s"
    | (page) "check_entry spec (tc_pt_addr ?c) s" "is_final_mapping spec (tc_pt_addr ?c) s"
    | (table) "check_entry spec (tc_pt_addr ?c) s" "\<not> is_final_mapping spec (tc_pt_addr ?c) s"
    by blast
  then show ?case
  proof cases
    case bad
    with Suc.IH [of "st\<lparr>ws_chunks := ys,
        ws_fail := ws_fail st @ chunk_failures VirtualTranslate ?c\<rparr>"] l tk dr Suc.prems(4)
    show ?thesis by (simp add: ys(1))
  next
    case page
    have "0 < s"
      using page(2) deep by (auto simp: is_final_mapping_def deep_spec_def split_count_def
          binary_search_is_ok_def intro: gr0I)
    then obtain o' where "chunk_translated spec s ?c = Some o'"
      "\<forall>x \<in> set o'. sound_out spec cells C dtb R x"
      using chunk_translated_sound [OF c s _ page] by blast
    with page Suc.IH [of "st\<lparr>ws_chunks := ys, ws_out := ws_out st @ o'\<rparr>"] l tk dr Suc.prems(4)
    show ?thesis by (simp add: ys(1) ball_Un)
  next
    case table
    then have "Suc s < split_count spec"
      using s by (auto simp: is_final_mapping_def split_count_def)
    then obtain new where "chunk_next cap ops spec s ?ps ?c = Some new"
      "\<forall>n \<in> set new. place_chunk spec ok cells C dtb R s n"
      using chunk_next_sound [OF c _ table] by blast
    with table Suc.IH [of "st\<lparr>ws_chunks := ys @ new\<rparr>"] l tk dr Suc.prems(4)
    show ?thesis by (simp add: ys(1) ball_Un)
  qed
qed simp

text \<open>
  The read: no address of the request walks through memory that is not mapped, so every
  entry that is read is the one the walk reads.
\<close>

lemma read_pt_loop_sound:
  assumes s: "s < split_count spec" and i: "i \<le> length addrs" "i \<le> length bufs"
    and mapped: "\<And>v c. (v, c) \<in> R \<Longrightarrow> walk spec C dtb v \<noteq> Walk_Unmapped"
    and "\<forall>k < i. 8 \<le> length (bufs ! k) \<and>
       (\<forall>pte. read_pte C (tc_pt_addr (addrs ! k)) = Some pte \<longrightarrow> from_le_bytes (take 8 (bufs ! k)) = pte)"
    and "\<forall>c \<in> set (take i addrs). place_chunk spec ok cells C dtb R s c"
    and "\<forall>c \<in> set (drop i addrs). entry_chunk spec ok cells C dtb R (Suc s) c"
    and "read_pt_loop spec tm s i addrs bufs addr_map prev err = Some (addrs', addr_map', err')"
  shows "\<forall>c \<in> set addrs'. entry_chunk spec ok cells C dtb R (Suc s) c"
  using assms(2,3,5-)
proof (induction i arbitrary: addrs bufs addr_map prev err)
  case (Suc i)
  let ?c = "addrs ! i" and ?b = "bufs ! i"
  have il: "i < length addrs" "i < length bufs" using Suc.prems(1,2) by simp_all
  obtain ys where ys: "swap_remove addrs i = Some (?c, ys)"
    "take i ys = take i addrs" "mset (drop i ys) = mset (drop (Suc i) addrs)"
    "length ys = length addrs - 1"
    by (rule swap_remove_parts [OF il(1)])
  obtain bs where bs: "swap_remove bufs i = Some (?b, bs)" "take i bs = take i bufs"
     "length bs = length bufs - 1"
    by (rule swap_remove_parts [OF il(2)])
  have len: "i \<le> length ys" "i \<le> length bs"
    using ys(4) bs(3) il by auto
  have b8: "\<not> length ?b < 8" using Suc.prems(3) by auto
  have c: "place_chunk spec ok cells C dtb R s ?c"
    using Suc.prems(4) il by (simp add: take_Suc_conv_app_nth)
  have nth: "ys ! k = addrs ! k \<and> bs ! k = bufs ! k" if "k < i" for k
    using that ys(2) bs(2) by (metis nth_take)
  have bufs': "\<forall>k < i. 8 \<le> length (bs ! k) \<and>
       (\<forall>pte. read_pte C (tc_pt_addr ((ys @ zs) ! k)) = Some pte \<longrightarrow> from_le_bytes (take 8 (bs ! k)) = pte)" for zs
    using Suc.prems(3) nth len(1) by (simp add: nth_append)
  have tk: "\<forall>c \<in> set (take i (ys @ zs)). place_chunk spec ok cells C dtb R s c" for zs
    using Suc.prems(4) il len(1) by (simp add: ys(2) take_Suc_conv_app_nth)
  have dr: "\<forall>c \<in> set (drop i ys). entry_chunk spec ok cells C dtb R (Suc s) c"
    using Suc.prems(5) mset_eq_setD [OF ys(3)] by simp
  let ?pt = "from_le_bytes (take 8 ?b) :: u64"
  let ?c' = "?c\<lparr>tc_pt_addr := ?pt\<rparr>"
  obtain a b where ab: "pte_addr_mask spec (tc_pt_addr ?c) s = Some a"
    "pte_addr_mask spec ?pt s = Some b"
    using pte_addr_mask_total [OF s] by metis
  have c': "entry_chunk spec ok cells C dtb R (Suc s) ?c'" if ne: "a \<noteq> b"
  proof -
    obtain y where y: "tc_wf ok cells ?c" "tc_vec ?c = [y]" "set (td_cells cells y) \<subseteq> R"
      "in_page spec cells (Suc s) y"
      "\<And>v. in_range cells y v \<Longrightarrow> (case read_pte C (tc_pt_addr ?c) of None \<Rightarrow> Walk_Unmapped
            | Some pte \<Rightarrow> if pte_addr_mask spec (tc_pt_addr ?c) s = pte_addr_mask spec pte s then Walk_Fault
                else walk_from spec C [Suc s..<split_count spec] pte v) = walk spec C dtb v"
      using c unfolding place_chunk_def by blast
    have "td_good ok cells y" using y(1,2) by (simp add: tc_wf_def)
    then have "in_range cells y (td_addr y)" and "\<exists>d. (td_addr y, d) \<in> R"
      using td_good_range y(3) by (auto simp: td_good_def td_cells_def neq_Nil_conv)
    with y(5) mapped obtain pte where pte: "read_pte C (tc_pt_addr ?c) = Some pte"
      by (cases "read_pte C (tc_pt_addr ?c)") fastforce+
    then have "pte = ?pt" using Suc.prems(3) by auto
    with y(5) pte ab ne have "\<And>v. in_range cells y v \<Longrightarrow>
        walk_from spec C [Suc s..<split_count spec] ?pt v = walk spec C dtb v"
      by simp
    with y(1-4) show ?thesis
      by (simp add: entry_chunk_def tc_wf_def)
  qed
  from Suc.prems(6) have "(\<exists>m p. read_pt_loop spec tm s i (ys @ [?c']) bs m p err = Some (addrs', addr_map', err') \<and> a \<noteq> b) \<or>
     (\<exists>m p e. read_pt_loop spec tm s i ys bs m p e = Some (addrs', addr_map', err'))"
    by (auto simp: ys(1) bs(1) b8 ab address_from_u64_def Let_def split: if_splits)
  then show ?case
  proof (elim disjE exE conjE)
    fix m p
    assume "read_pt_loop spec tm s i (ys @ [?c']) bs m p err = Some (addrs', addr_map', err')" "a \<noteq> b"
    then show ?thesis
      using Suc.IH [of "ys @ [?c']" bs m p err] len bufs' tk dr c' by simp
  next
    fix m p e
    assume "read_pt_loop spec tm s i ys bs m p e = Some (addrs', addr_map', err')"
    then show ?thesis
      using Suc.IH [of ys bs m p e] len bufs' [of "[]"] tk [of "[]"] dr by simp
  qed
qed simp

lemma read_pt_sound:
  assumes s: "s < split_count spec" and m: "inv (ws_mem st)" and C: "content (ws_mem st) = C"
    and mapped: "\<And>v c. (v, c) \<in> R \<Longrightarrow> walk spec C dtb v \<noteq> Walk_Unmapped"
    and chunks: "\<forall>c \<in> set (ws_chunks st). place_chunk spec ok cells C dtb R s c"
    and r: "read_pt_address_iter spec tm pm s st = Some (r, st')"
  shows "r = Inr () \<and> (\<forall>c \<in> set (ws_chunks st'). entry_chunk spec ok cells C dtb R (Suc s) c) \<and>
     ws_out st' = ws_out st \<and> inv (ws_mem st') \<and> content (ws_mem st') = C"
proof -
  obtain page_size where ps: "pt_leaf_size spec s = Some page_size"
    using pt_leaf_size_total [OF s] by blast
  let ?n = "length (ws_chunks st)"
  let ?reads = "entry_reads page_size st"
  obtain pbs m' where rd: "pm_read_raw_list pm (ws_mem st) ?reads = Some (Inr (), pbs, m')"
    "inv m'" "content m' = C" and n: "length pbs = ?n"
    and bufs: "\<forall>k < ?n. 8 \<le> length (pbs ! k) \<and>
       (\<forall>pte. read_pte C (tc_pt_addr (ws_chunks st ! k)) = Some pte \<longrightarrow>
          from_le_bytes (take 8 (pbs ! k)) = pte)"
    using entries_read [OF m, of page_size] unfolding C by blast
  obtain addrs' addr_map' err' where lp:
    "read_pt_loop spec tm s ?n (ws_chunks st) pbs (tm_clear tm (ws_map st)) None
       (ws_fail st) = Some (addrs', addr_map', err')"
    "r = Inr ()" "ws_chunks st' = addrs'" "ws_out st' = ws_out st" "ws_mem st' = m'"
    using r ps rd(1) by (auto simp: read_pt_address_iter_def entry_reads_def Let_def split: Option.bind_splits)
  have "\<forall>c \<in> set addrs'. entry_chunk spec ok cells C dtb R (Suc s) c"
    by (rule read_pt_loop_sound [OF s _ _ mapped bufs _ _ lp(1)]) (use n chunks in simp_all)
  with lp rd show ?thesis by simp
qed

lemma walk_steps_sound:
  assumes s: "s < split_count spec" and deep: "deep_spec spec"
    and m: "inv (ws_mem st)" and C: "content (ws_mem st) = C"
    and mapped: "\<And>v c. (v, c) \<in> R \<Longrightarrow> walk spec C dtb v \<noteq> Walk_Unmapped"
    and "\<forall>c \<in> set (ws_chunks st). entry_chunk spec ok cells C dtb R s c"
    and "\<forall>x \<in> set (ws_out st). sound_out spec cells C dtb R x"
    and "walk_steps cap ops spec tm pm [s..<split_count spec] st = Some st'"
  shows "\<forall>x \<in> set (ws_out st'). sound_out spec cells C dtb R x"
  using s m C assms(6-)
proof (induction "split_count spec - s" arbitrary: s st)
  case (Suc n)
  let ?ps = "2 ^ step_bits spec (Suc s) :: u64"
  have upt: "[s..<split_count spec] = s # [Suc s..<split_count spec]"
    using Suc.prems(1) by (rule upt_conv_Cons)
  have ps: "page_size_step_unchecked spec (s + 1) = Some ?ps"
    using Suc.prems(1) page_size_step_exp [of "s + 1" spec] by simp
  obtain st1 where st1:
    "walk_step_loop cap ops spec s ?ps (length (ws_chunks st)) st = Some st1"
    "\<forall>c \<in> set (ws_chunks st1). place_chunk spec ok cells C dtb R s c"
    "\<forall>x \<in> set (ws_out st1). sound_out spec cells C dtb R x" "ws_mem st1 = ws_mem st"
    using walk_step_loop_sound [OF Suc.prems(1) deep order.refl,
        where st = st and C = C and dtb = dtb and R = R and cap = cap] Suc.prems(4,5) by auto
  show ?case
  proof (cases "ws_chunks st1 = []")
    case True
    with st1 ps Suc.prems(6) show ?thesis by (simp add: upt)
  next
    case False
    with Suc.prems(6) ps st1(1) obtain r st2 where
      rd: "read_pt_address_iter spec tm pm s st1 = Some (r, st2)"
      by (cases "read_pt_address_iter spec tm pm s st1") (auto simp: upt)
    have st2: "r = Inr ()" "\<forall>c \<in> set (ws_chunks st2). entry_chunk spec ok cells C dtb R (Suc s) c"
      "ws_out st2 = ws_out st1" "inv (ws_mem st2)" "content (ws_mem st2) = C"
      using read_pt_sound [OF Suc.prems(1) _ _ mapped st1(2) rd] st1(4) Suc.prems(2,3) by auto
    then have rest: "walk_steps cap ops spec tm pm [Suc s..<split_count spec] st2 = Some st'"
      using Suc.prems(6) ps st1(1) rd False by (simp add: upt)
    show ?thesis
    proof (cases "Suc s < split_count spec")
      case True
      have "n = split_count spec - Suc s" using Suc.hyps(2) by simp
      from Suc.hyps(1) [OF this True st2(4,5,2) _ rest] st2(3) st1(3) show ?thesis by simp
    next
      case False
      with rest st2(3) st1(3) show ?thesis by simp
    qed
  qed
qed simp

text \<open>One request, of any length the filter passes.\<close>

lemma virt_to_phys_sound:
  assumes deep: "deep_spec spec" and m: "inv m"
    and req: "good_request ok cells spec (a, b)" and ne: "cells b \<noteq> []"
    and mapped: "\<And>v. unat a \<le> unat v \<Longrightarrow> unat v < unat a + length (cells b) \<Longrightarrow>
      walk spec (content m) dtb v \<noteq> Walk_Unmapped"
    and run: "mmu_virt_to_phys_iter cap ops spec tm pm m dtb [(a, b)] [] fail = Some (out, fail', m')"
  shows "\<forall>x \<in> set out. sound_out spec cells (content m) dtb (set (addr_cells a (cells b))) x"
proof -
  let ?R = "set (addr_cells a (cells b))" and ?c = "tc_new ops dtb []"
  have n: "0 < split_count spec" using deep by (simp add: deep_spec_def)
  have vec: "tc_vec ?c = []" "tc_pt_addr ?c = dtb"
    by (simp_all add: tc_new_def tc_with_minmax_def split: prod.split)
  obtain xs where xs: "filter_requests ops dtb spec [(a, b)] [?c] fail = Some ([?c\<lparr>tc_vec := xs\<rparr>], fail)"
    "\<forall>x \<in> set xs. td_good ok cells x"
    "map td_addr xs = map fst (filter (\<lambda>r. cells (snd r) \<noteq> []) [(a, b)])"
    "map (\<lambda>x. cells (td_buf x)) xs = map (\<lambda>r. cells (snd r)) (filter (\<lambda>r. cells (snd r) \<noteq> []) [(a, b)])"
    using filter_requests_good [OF n, of "[(a, b)]" ?c dtb fail] req unfolding vec by auto
  let ?c' = "tc_recalc_minmax ops (?c\<lparr>tc_vec := xs\<rparr>)"
  let ?st = "\<lparr>ws_mem = m, ws_map = tm_new tm, ws_chunks = [?c'], ws_pt_buf = [],
     ws_out = [], ws_fail = fail\<rparr>"
  obtain st' where st': "walk_steps cap ops spec tm pm [0..<split_count spec] ?st = Some st'"
    "out = ws_out st'"
    using run unfolding mmu_iter_unfold [OF xs(1)] by auto
  have mapped': "walk spec (content m) dtb v \<noteq> Walk_Unmapped" if "(v, c) \<in> ?R" for v c
  proof -
    obtain k where k: "k < length (cells b)" "v = a + of_nat k"
    proof -
      have "(v, c) \<in> set (addr_cells a cs) \<Longrightarrow> \<exists>k < length cs. v = a + of_nat k" for a cs
        by (induction cs arbitrary: a) (force intro: exI [of _ "Suc _"] simp: algebra_simps)+
      with \<open>(v, c) \<in> ?R\<close> that show ?thesis by blast
    qed
    have "unat a + length (cells b) < 18446744073709551616"
      using req by (simp add: good_request_def)
    then have "unat v = unat a + k"
      using k by (simp add: unat_add_nowrap unat_of_nat_64)
    with k(1) show ?thesis by (intro mapped) simp_all
  qed
  obtain y where y: "xs = [y]" "td_addr y = a" "cells (td_buf y) = cells b"
    using xs(3,4) ne by (cases xs) auto
  have vec': "tc_vec ?c' = [y]" "tc_pt_addr ?c' = dtb"
    by (simp_all add: tc_recalc_minmax_def y(1) vec(2) split: prod.split)
  have "tc_wf ok cells ?c'"
    using tc_recalc_wf [of "?c\<lparr>tc_vec := xs\<rparr>"] xs(2) y(1) by simp
  then have "entry_chunk spec ok cells (content m) dtb ?R 0 ?c'"
    using y(2,3) unfolding entry_chunk_def vec' by (simp add: td_cells_def walk_def)
  then have "\<forall>c \<in> set (ws_chunks ?st). entry_chunk spec ok cells (content m) dtb ?R 0 c"
    by simp
  from walk_steps_sound [OF n deep _ _ mapped' this _ st'(1)] m st'(2) show ?thesis
    by simp
qed

text \<open>One byte: the batch is one chunk all the way, and the outcome is that of the walk.\<close>

lemma one_cell:
  assumes "td_good ok cells y" and "set (td_cells cells y) \<subseteq> {(v, x)}"
  shows "td_addr y = v" "cells (td_buf y) = [x]"
proof -
  obtain z zs where z: "cells (td_buf y) = z # zs"
    using assms(1) by (cases "cells (td_buf y)") (auto simp: td_good_def)
  with assms(2) have a: "td_addr y = v" "z = x" by (simp_all add: td_cells_def)
  show "td_addr y = v" by (rule a(1))
  show "cells (td_buf y) = [x]"
  proof (cases zs)
    case (Cons w ws)
    with z a assms(2) have "v + 1 = v" by (simp add: td_cells_def)
    then show ?thesis by simp
  qed (simp add: z a)
qed

lemma entry_chunk_one:
  assumes "entry_chunk spec ok cells C dtb {(v, x)} s c"
  obtains y where "tc_vec c = [y]" "td_addr y = v" "cells (td_buf y) = [x]"
    "walk_from spec C [s..<split_count spec] (tc_pt_addr c) v = walk spec C dtb v"
proof -
  obtain y where y: "tc_wf ok cells c" "tc_vec c = [y]" "set (td_cells cells y) \<subseteq> {(v, x)}"
    "\<And>w. in_range cells y w \<Longrightarrow>
           walk_from spec C [s..<split_count spec] (tc_pt_addr c) w = walk spec C dtb w"
    using assms by (auto simp: entry_chunk_def)
  have g: "td_good ok cells y" using y(1,2) by (simp add: tc_wf_def)
  from one_cell [OF g y(3)] y(4) [OF td_good_range [OF g]] y(2) that show ?thesis by simp
qed

lemma place_chunk_one:
  assumes "place_chunk spec ok cells C dtb {(v, x)} s c" and "walk spec C dtb v \<noteq> Walk_Unmapped"
  obtains y pte where "tc_vec c = [y]" "td_addr y = v" "cells (td_buf y) = [x]"
    "read_pte C (tc_pt_addr c) = Some pte"
    "walk spec C dtb v =
       (if pte_addr_mask spec (tc_pt_addr c) s = pte_addr_mask spec pte s then Walk_Fault
        else walk_from spec C [Suc s..<split_count spec] pte v)"
proof -
  obtain y where y: "tc_wf ok cells c" "tc_vec c = [y]" "set (td_cells cells y) \<subseteq> {(v, x)}"
    "\<And>w. in_range cells y w \<Longrightarrow>
       (case read_pte C (tc_pt_addr c) of None \<Rightarrow> Walk_Unmapped
        | Some pte \<Rightarrow> if pte_addr_mask spec (tc_pt_addr c) s = pte_addr_mask spec pte s then Walk_Fault
                else walk_from spec C [Suc s..<split_count spec] pte w) = walk spec C dtb w"
    using assms(1) unfolding place_chunk_def by blast
  have g: "td_good ok cells y" using y(1,2) by (simp add: tc_wf_def)
  from one_cell [OF g y(3)] y(4) [OF td_good_range [OF g]] y(2) assms(2) that show ?thesis
    by (cases "read_pte C (tc_pt_addr c)") auto
qed

lemma chunks_of_one_cell:
  assumes "chunks_cells cells new = {#x#}" and "\<forall>n \<in> set new. tc_wf ok cells n"
  obtains c where "new = [c]"
proof -
  have pos: "chunk_cells cells n \<noteq> {#}" if "n \<in> set new" for n
  proof -
    have "tc_wf ok cells n" using assms(2) that by blast
    then show ?thesis
      by (cases "tc_vec n") (auto simp: tc_wf_def td_good_def chunk_cells_def)
  qed
  show ?thesis
  proof (cases new)
    case Nil
    with assms(1) show ?thesis by simp
  next
    case (Cons c cs)
    show ?thesis
    proof (cases cs)
      case Nil
      with Cons that show ?thesis by simp
    next
      case (Cons d ds)
      with \<open>new = c # cs\<close> pos have "chunk_cells cells c \<noteq> {#}" "chunk_cells cells d \<noteq> {#}"
        by simp_all
      with assms(1) \<open>new = c # cs\<close> Cons show ?thesis
        by (auto simp: add_eq_conv_ex union_is_single)
    qed
  qed
qed

lemma read_pt_one:
  assumes s: "s < split_count spec" and m: "inv (ws_mem st)" and C: "content (ws_mem st) = C"
    and c: "ws_chunks st = [c]" "tc_vec c = [y]" and pte: "read_pte C (tc_pt_addr c) = Some pte"
  shows "\<exists>st'. read_pt_address_iter spec tm pm s st = Some (Inr (), st') \<and>
     inv (ws_mem st') \<and> content (ws_mem st') = C \<and> ws_out st' = ws_out st \<and>
     (if pte_addr_mask spec (tc_pt_addr c) s = pte_addr_mask spec pte s
      then ws_chunks st' = [] \<and> ws_fail st' = ws_fail st @ [(VirtualTranslate, td_addr y, td_buf y)]
      else ws_chunks st' = [c\<lparr>tc_pt_addr := pte\<rparr>] \<and> ws_fail st' = ws_fail st)"
proof -
  obtain page_size where ps: "pt_leaf_size spec s = Some page_size"
    using pt_leaf_size_total [OF s] by blast
  let ?b = "vec_resize 8 0 (ws_pt_buf st) :: u8 list"
  let ?reads = "[pt_reads (tc_pt_addr c, page_size) ?b]"
  have ce: "chunks_exact 8 ?b = [?b]"
    by (simp add: chunks_exact_def)
  have "\<forall>j < 8. byte_at C (tc_pt_addr c) j \<noteq> None"
    and v: "pte = from_le_bytes (map (\<lambda>j. the (byte_at C (tc_pt_addr c) j)) [0..<8])"
    using pte by (auto simp: read_pte_if split: if_splits)
  obtain bs m' where rd': "pm_read_raw_list pm (ws_mem st) ?reads = Some (Inr (), bs, m')"
    "reads_match C ?reads bs" "inv m'" "content m' = C"
    using read_matches [OF m, of ?reads] C by (auto simp: bufs_ok_def pt_reads_def)
  then obtain pb where pb: "bs = [pb]" "length pb = 8" "src_matches C (tc_pt_addr c) pb"
    by (auto simp: reads_match_def list_all2_Cons1 pt_reads_def pa_as_u64_def pa_with_page_def as_u64_def)
  note rd = rd' [unfolded pb(1)]
  have "pb = map (\<lambda>j. the (byte_at C (tc_pt_addr c) j)) [0..<8]"
    using src_matches_mapped [OF pb(3)] pb(2) \<open>\<forall>j < 8. byte_at C (tc_pt_addr c) j \<noteq> None\<close> by simp
  then have pte': "from_le_bytes (take 8 pb) = pte"
    using v pb(2) by simp
  then have pte'': "from_le_bytes pb = pte"
    using pb(2) by simp
  have sr: "swap_remove [z] 0 = Some (z, [])" for z :: "'z"
    by (simp add: swap_remove_def)
  obtain a b where ab: "pte_addr_mask spec (tc_pt_addr c) s = Some a" "pte_addr_mask spec pte s = Some b"
    using pte_addr_mask_total [OF s] by metis
  have loop: "read_pt_loop spec tm s (Suc 0) [c] [pb] am None err =
      Some (if a = b then ([], am, err @ [(VirtualTranslate, td_addr y, td_buf y)])
            else ([c\<lparr>tc_pt_addr := pte\<rparr>], am, err))" for am err
    by (simp add: sr pte' pte'' pb(2) ab address_from_u64_def chunk_failures_def c(2) Let_def)
  show ?thesis
    by (simp add: read_pt_address_iter_def Let_def ps ce rd c(1) loop ab del: read_pt_loop.simps)
qed

lemma walk_steps_exact:
  assumes s: "s < split_count spec" and deep: "deep_spec spec"
    and m: "inv (ws_mem st)" and C: "content (ws_mem st) = C"
    and mapped: "walk spec C dtb v \<noteq> Walk_Unmapped"
    and "ws_chunks st = [c]" and "entry_chunk spec ok cells C dtb {(v, x)} s c"
  shows "\<exists>st' out fail. walk_steps cap ops spec tm pm [s..<split_count spec] st = Some st' \<and>
     ws_out st' = ws_out st @ out \<and> ws_fail st' = ws_fail st @ fail \<and>
     outcome spec (walk spec C dtb v) v out fail \<and> inv (ws_mem st') \<and> content (ws_mem st') = C"
  using s m C assms(6-)
proof (induction "split_count spec - s" arbitrary: s st c)
  case (Suc n)
  let ?ps = "2 ^ step_bits spec (Suc s) :: u64"
  have upt: "[s..<split_count spec] = s # [Suc s..<split_count spec]"
    using Suc.prems(1) by (rule upt_conv_Cons)
  have ps: "page_size_step_unchecked spec (Suc s) = Some ?ps"
    using Suc.prems(1) page_size_step_exp [of "Suc s" spec] by simp
  obtain y where y: "tc_vec c = [y]" "td_addr y = v" "cells (td_buf y) = [x]"
    "walk_from spec C (s # [Suc s..<split_count spec]) (tc_pt_addr c) v = walk spec C dtb v"
    using entry_chunk_one [OF Suc.prems(5)] unfolding upt by blast
  have sr: "swap_remove [c] 0 = Some (c, [])" by (simp add: swap_remove_def)
  consider (bad) "\<not> check_entry spec (tc_pt_addr c) s"
    | (page) "check_entry spec (tc_pt_addr c) s" "is_final_mapping spec (tc_pt_addr c) s"
    | (table) "check_entry spec (tc_pt_addr c) s" "\<not> is_final_mapping spec (tc_pt_addr c) s"
    by blast
  then show ?case
  proof cases
    case bad
    then have "walk spec C dtb v = Walk_Fault" using y(4) by simp
    with bad Suc.prems(2,3,4) show ?thesis
      by (simp add: upt ps sr chunk_failures_def y(1,2) outcome_def)
  next
    case page
    then have w: "walk spec C dtb v = Walk_Entry (tc_pt_addr c) s" using y(4) by simp
    obtain pa where "get_phys_page spec (tc_pt_addr c) v s = Some pa"
      using get_phys_page_total [OF Suc.prems(1)] by blast
    with page w Suc.prems(2,3,4) show ?thesis
      by (simp add: upt ps sr chunk_translated_def y(1,2) outcome_def)
  next
    case table
    then have s': "Suc s < split_count spec"
      using Suc.prems(1) by (auto simp: is_final_mapping_def split_count_def)
    obtain new where new: "chunk_next cap ops spec s ?ps c = Some new"
      "\<forall>n \<in> set new. place_chunk spec ok cells C dtb {(v, x)} s n"
      using chunk_next_sound [OF Suc.prems(5) s' table] by blast
    have "tc_any ok cells c"
      using Suc.prems(5) by (simp add: tc_any_def entry_chunk_def)
    from chunk_next_cells [OF this Suc.prems(1) step_size(2) [of spec "Suc s"], where cap = cap] new(1)
    have "chunks_cells cells new = {#x#}"
      by (simp add: chunk_cells_def y(1,3))
    then obtain c1 where c1: "new = [c1]"
      using chunks_of_one_cell new(2) by (metis place_chunk_def)
    have pc: "place_chunk spec ok cells C dtb {(v, x)} s c1" using new(2) c1 by simp
    obtain y1 pte where y1: "tc_vec c1 = [y1]" "td_addr y1 = v" "cells (td_buf y1) = [x]"
      "read_pte C (tc_pt_addr c1) = Some pte"
      "walk spec C dtb v =
         (if pte_addr_mask spec (tc_pt_addr c1) s = pte_addr_mask spec pte s then Walk_Fault
          else walk_from spec C [Suc s..<split_count spec] pte v)"
      by (rule place_chunk_one [OF pc mapped])
    let ?st1 = "st\<lparr>ws_chunks := [c1]\<rparr>"
    have loop: "walk_step_loop cap ops spec s ?ps (length (ws_chunks st)) st = Some ?st1"
      using table by (simp add: Suc.prems(4) sr new(1) c1)
    obtain st2 where st2: "read_pt_address_iter spec tm pm s ?st1 = Some (Inr (), st2)"
      "inv (ws_mem st2)" "content (ws_mem st2) = C" "ws_out st2 = ws_out st"
      "if pte_addr_mask spec (tc_pt_addr c1) s = pte_addr_mask spec pte s
       then ws_chunks st2 = [] \<and> ws_fail st2 = ws_fail st @ [(VirtualTranslate, v, td_buf y1)]
       else ws_chunks st2 = [c1\<lparr>tc_pt_addr := pte\<rparr>] \<and> ws_fail st2 = ws_fail st"
      using read_pt_one [OF Suc.prems(1), of ?st1 C c1 y1 pte tm] Suc.prems(2,3) y1(1,2,4) by auto
    have step: "walk_steps cap ops spec tm pm [s..<split_count spec] st
        = walk_steps cap ops spec tm pm [Suc s..<split_count spec] st2"
      by (simp add: upt ps loop st2(1))
    show ?thesis
    proof (cases "pte_addr_mask spec (tc_pt_addr c1) s = pte_addr_mask spec pte s")
      case True
      then have f: "walk spec C dtb v = Walk_Fault" "ws_chunks st2 = []"
        "ws_fail st2 = ws_fail st @ [(VirtualTranslate, v, td_buf y1)]"
        using y1(5) st2(5) by simp_all
      have nil: "walk_steps cap ops spec tm pm [Suc s..<split_count spec] st2 = Some st2"
        using f(2) s' page_size_step_exp [of "Suc (Suc s)" spec]
        by (simp add: upt_conv_Cons)
      show ?thesis
        unfolding step nil using f st2(2-4) by (simp add: outcome_def)
    next
      case False
      then have next_chunk: "ws_chunks st2 = [c1\<lparr>tc_pt_addr := pte\<rparr>]" "ws_fail st2 = ws_fail st"
        using st2(5) by simp_all
      have "entry_chunk spec ok cells C dtb {(v, x)} (Suc s) (c1\<lparr>tc_pt_addr := pte\<rparr>)"
      proof -
        obtain z where z: "tc_wf ok cells c1" "tc_vec c1 = [z]" "set (td_cells cells z) \<subseteq> {(v, x)}"
          "in_page spec cells (Suc s) z"
          "\<And>w. in_range cells z w \<Longrightarrow> (case read_pte C (tc_pt_addr c1) of None \<Rightarrow> Walk_Unmapped
            | Some pte \<Rightarrow> if pte_addr_mask spec (tc_pt_addr c1) s = pte_addr_mask spec pte s then Walk_Fault
                else walk_from spec C [Suc s..<split_count spec] pte w) = walk spec C dtb w"
          using pc unfolding place_chunk_def by blast
        with y1(4) False show ?thesis
          by (simp add: entry_chunk_def tc_wf_def)
      qed
      moreover have "n = split_count spec - Suc s" using Suc.hyps(2) by simp
      ultimately show ?thesis
        using Suc.hyps(1) [of "Suc s" st2 "c1\<lparr>tc_pt_addr := pte\<rparr>"] s' st2(2-4) next_chunk
        unfolding step by simp
    qed
  qed
qed simp

lemma virt_to_phys_one:
  assumes deep: "deep_spec spec" and m: "inv m" and req: "good_request ok cells spec (v, b)"
    and one: "cells b = [x]" and mapped: "walk spec (content m) dtb v \<noteq> Walk_Unmapped"
  shows "\<exists>out fail m'. mmu_virt_to_phys_iter cap ops spec tm pm m dtb [(v, b)] [] [] = Some (out, fail, m') \<and>
     outcome spec (walk spec (content m) dtb v) v out fail \<and> inv m' \<and> content m' = content m"
proof -
  let ?c = "tc_new ops dtb []"
  have n: "0 < split_count spec" using deep by (simp add: deep_spec_def)
  have vec: "tc_vec ?c = []" "tc_pt_addr ?c = dtb"
    by (simp_all add: tc_new_def tc_with_minmax_def split: prod.split)
  obtain xs where xs: "filter_requests ops dtb spec [(v, b)] [?c] [] = Some ([?c\<lparr>tc_vec := xs\<rparr>], [])"
    "\<forall>x \<in> set xs. td_good ok cells x"
    "map td_addr xs = map fst (filter (\<lambda>r. cells (snd r) \<noteq> []) [(v, b)])"
    "map (\<lambda>x. cells (td_buf x)) xs = map (\<lambda>r. cells (snd r)) (filter (\<lambda>r. cells (snd r) \<noteq> []) [(v, b)])"
    using filter_requests_good [OF n, of "[(v, b)]" ?c dtb "[]"] req unfolding vec by auto
  obtain y where y: "xs = [y]" "td_addr y = v" "cells (td_buf y) = [x]"
    using xs(3,4) one by (cases xs) auto
  let ?c' = "tc_recalc_minmax ops (?c\<lparr>tc_vec := xs\<rparr>)"
  have vec': "tc_vec ?c' = [y]" "tc_pt_addr ?c' = dtb"
    by (simp_all add: tc_recalc_minmax_def y(1) vec(2) split: prod.split)
  have "tc_wf ok cells ?c'"
    using tc_recalc_wf [of "?c\<lparr>tc_vec := xs\<rparr>"] xs(2) y(1) by simp
  then have e: "entry_chunk spec ok cells (content m) dtb {(v, x)} 0 ?c'"
    using y(2,3) unfolding entry_chunk_def vec' by (simp add: td_cells_def walk_def)
  let ?st = "\<lparr>ws_mem = m, ws_map = tm_new tm, ws_chunks = [?c'], ws_pt_buf = [],
     ws_out = [], ws_fail = []\<rparr>"
  obtain st' out fail where "walk_steps cap ops spec tm pm [0..<split_count spec] ?st = Some st'"
    "ws_out st' = out" "ws_fail st' = fail" "outcome spec (walk spec (content m) dtb v) v out fail"
    "inv (ws_mem st')" "content (ws_mem st') = content m"
    using walk_steps_exact [OF n deep _ _ mapped _ e, where st = ?st and tm = tm and cap = cap] m
    by auto
  then show ?thesis
    unfolding mmu_iter_unfold [OF xs(1)] by simp
qed

end

section \<open>The contract on the model\<close>

interpretation usize_mapped: mapped_walk usize_ops "\<lambda>_. True" usize_cells reference_memory
  "\<lambda>_. True" "\<lambda>m. m"
  by unfold_locales

interpretation slice_mapped: mapped_walk mut_slice_ops mut_slice_ok mut_slice_cells reference_memory
  "\<lambda>_. True" "\<lambda>m. m"
  by unfold_locales

lemma x86_deep: "deep_spec (x86_mmu x64_spec)" "deep_spec (x86_mmu x32_spec)"
  "deep_spec (x86_mmu x32_pae_spec)"
  by (simp_all add: deep_spec_def split_count_def x64_spec_def x32_spec_def x32_pae_spec_def)

text \<open>
  On x64 a table entry lies below 2 to the 52, so with every byte mapped a walk meets no
  unmapped entry.
\<close>

lemma lt_exp_or:
  assumes "unat (p :: u64) < 2 ^ n" and "unat q < 2 ^ n"
  shows "unat (p OR q) < 2 ^ n"
proof -
  have "take_bit n (unat p OR unat q) = unat p OR unat q"
    using assms by (simp add: take_bit_nat_eq_self)
  then show ?thesis using take_bit_nat_less_exp [of n "unat p OR unat q"]
    by (simp add: unsigned_or_eq)
qed

lemma and_times_8:
  assumes "(m :: u64) \<le> 0xFFF"
  shows "unat ((x AND m) * 8) < 2 ^ 52"
proof -
  have "x AND m \<le> 0xFFF" using word_and_le1 [of x m] assms by (rule order.trans)
  then have "unat (x AND m) \<le> 4095" by (simp add: word_le_nat_alt)
  moreover from this have "unat ((x AND m) * 8) = unat (x AND m) * 8"
    by (simp add: unat_mult_lem [THEN iffD1])
  ultimately show ?thesis by simp
qed

lemma x64_entry_bound:
  assumes "s < split_count (x86_mmu x64_spec)"
  shows "unat (the (vtop_step (x86_mmu x64_spec) pt v s)) + 8 \<le> 18446744073709551616"
proof -
  have s: "s < 5" using assms by (simp add: split_count_def x64_spec_def)
  have tz: "trailing_zeros 8 = 3" by code_simp
  note defs = tz vtop_step_def pte_addr_mask_def virt_addr_to_pte_offset_def shr64_def shl64_def
    virt_addr_bit_range_def x64_spec_def nth_opt_def address_from_u64_def as_u64_def bit_mask_u64_def
  consider "s = 0" | "s = 1" | "s = 2" | "s = 3" | "s = 4" using s by linarith
  then have "\<exists>x m. the (vtop_step (x86_mmu x64_spec) pt v s) = (pt AND 0xFFFFFFFFFF000) OR (x AND m) * 8 \<and>
      m \<le> 0xFFF"
  proof cases
    case 1 show ?thesis by (rule exI [of _ "drop_bit 39 v"], rule exI [of _ 511]) (simp add: defs 1)
  next
    case 2 show ?thesis by (rule exI [of _ "drop_bit 30 v"], rule exI [of _ 511]) (simp add: defs 2)
  next
    case 3 show ?thesis by (rule exI [of _ "drop_bit 21 v"], rule exI [of _ 511]) (simp add: defs 3)
  next
    case 4 show ?thesis by (rule exI [of _ "drop_bit 12 v"], rule exI [of _ 511]) (simp add: defs 4)
  next
    case 5 show ?thesis by (rule exI [of _ v], rule exI [of _ 4095]) (simp add: defs 5)
  qed
  then have "\<exists>c q. the (vtop_step (x86_mmu x64_spec) pt v s) = (pt AND c) OR q \<and>
      unat c < 2 ^ 52 \<and> unat q < 2 ^ 52"
    using and_times_8 by (elim exE conjE, intro exI conjI) (assumption, simp, blast)
  then obtain c q where v: "the (vtop_step (x86_mmu x64_spec) pt v s) = (pt AND c) OR q"
    "unat c < 2 ^ 52" "unat q < 2 ^ 52" by blast
  have "unat (pt AND c) < 2 ^ 52"
    using v(2) word_and_le1 [of pt c] by (simp add: word_le_nat_alt)
  from lt_exp_or [OF this v(3)] show ?thesis unfolding v(1) by simp
qed

lemma x64_walk_mapped:
  assumes "\<And>a. content a \<noteq> None"
  shows "walk (x86_mmu x64_spec) content dtb v \<noteq> Walk_Unmapped"
proof -
  let ?spec = "x86_mmu x64_spec"
  have "walk_from ?spec content ss pt v \<noteq> Walk_Unmapped"
    if "set ss \<subseteq> {0..<split_count ?spec}" for ss pt
    using that
  proof (induction ss arbitrary: pt)
    case (Cons s ss)
    have "read_pte content (the (vtop_step ?spec pt v s)) \<noteq> None"
      using Cons.prems assms x64_entry_bound [of s pt v] by (simp add: read_pte_if byte_at_unat)
    then show ?case
      using Cons by (auto simp: Let_def split: option.split)
  qed simp
  then show ?thesis by (simp add: walk_def)
qed

section \<open>Entries that are shared\<close>

text \<open>What the ordered map of the package promises: it contains what was inserted since it was cleared.\<close>

definition tree_map_law :: "'s tree_map \<Rightarrow> bool" where
  "tree_map_law tm \<longleftrightarrow> (\<forall>s a. \<not> tm_contains tm a (tm_clear tm s)) \<and>
     (\<forall>s a b. tm_contains tm a (tm_insert tm b s) \<longleftrightarrow> a = b \<or> tm_contains tm a s)"

text \<open>
  Of the entries that were read for a batch, those the walk goes on with: the entry does not
  point back to its own table, and no such entry behind it in the batch is equal to it.
\<close>

definition leaves_table :: "arch_mmu_spec \<Rightarrow> nat \<Rightarrow> 't translation_chunk \<Rightarrow> u64 \<Rightarrow> bool" where
  "leaves_table spec s c e \<longleftrightarrow> pte_addr_mask spec (tc_pt_addr c) s \<noteq> pte_addr_mask spec e s"

definition entry_followed ::
  "arch_mmu_spec \<Rightarrow> nat \<Rightarrow> 't translation_chunk list \<Rightarrow> u64 list \<Rightarrow> nat \<Rightarrow> bool" where
  "entry_followed spec s cs es k \<longleftrightarrow> leaves_table spec s (cs ! k) (es ! k) \<and>
     (\<forall>j < length cs. k < j \<longrightarrow> leaves_table spec s (cs ! j) (es ! j) \<longrightarrow> es ! j \<noteq> es ! k)"

definition followed_entries ::
  "arch_mmu_spec \<Rightarrow> nat \<Rightarrow> 't translation_chunk list \<Rightarrow> u64 list \<Rightarrow> nat \<Rightarrow> u64 set" where
  "followed_entries spec s cs es i =
     {es ! j |j. i \<le> j \<and> j < length cs \<and> leaves_table spec s (cs ! j) (es ! j)}"

lemma followed_entries_step:
  assumes "i < length cs"
  shows "followed_entries spec s cs es i =
     (if leaves_table spec s (cs ! i) (es ! i) then insert (es ! i) (followed_entries spec s cs es (Suc i))
      else followed_entries spec s cs es (Suc i))"
    and "entry_followed spec s cs es i \<longleftrightarrow>
     leaves_table spec s (cs ! i) (es ! i) \<and> es ! i \<notin> followed_entries spec s cs es (Suc i)"
proof -
  have "(i \<le> j) = (j = i \<or> Suc i \<le> j)" for j by auto
  then show "followed_entries spec s cs es i =
     (if leaves_table spec s (cs ! i) (es ! i) then insert (es ! i) (followed_entries spec s cs es (Suc i))
      else followed_entries spec s cs es (Suc i))"
    using assms unfolding followed_entries_def by (auto simp: Suc_le_eq)
  show "entry_followed spec s cs es i \<longleftrightarrow>
     leaves_table spec s (cs ! i) (es ! i) \<and> es ! i \<notin> followed_entries spec s cs es (Suc i)"
    unfolding entry_followed_def followed_entries_def by (auto simp: Suc_le_eq)
qed

lemma read_pt_loop_follows:
  assumes law: "tree_map_law tm" and s: "s < split_count spec"
    and i: "i \<le> length addrs" "i \<le> length bufs" "i \<le> length cs"
    and "\<forall>k < i. 8 \<le> length (bufs ! k) \<and> from_le_bytes (take 8 (bufs ! k)) = es ! k \<and> addrs ! k = cs ! k"
    and "followed_entries spec s cs es i = (case prev of None \<Rightarrow> {} | Some p \<Rightarrow> insert p {a. tm_contains tm a addr_map})"
    and "prev = None \<longrightarrow> (\<forall>a. \<not> tm_contains tm a addr_map)"
  shows "\<exists>addrs' addr_map'. read_pt_loop spec tm s i addrs bufs addr_map prev err = Some (addrs', addr_map',
       err @ concat (map (\<lambda>k. chunk_failures VirtualTranslate (cs ! k))
         (filter (\<lambda>k. \<not> entry_followed spec s cs es k) (rev [0..<i])))) \<and>
     mset addrs' = mset (drop i addrs) +
       mset (map (\<lambda>k. (cs ! k)\<lparr>tc_pt_addr := es ! k\<rparr>) (filter (entry_followed spec s cs es) [0..<i]))"
  using assms(3-)
proof (induction i arbitrary: addrs bufs addr_map prev err)
  case (Suc i)
  let ?S = "followed_entries spec s cs es"
  have il: "i < length addrs" "i < length bufs" "i < length cs" using Suc.prems(1-3) by simp_all
  obtain ys where ys: "swap_remove addrs i = Some (addrs ! i, ys)"
    "take i ys = take i addrs" "mset (drop i ys) = mset (drop (Suc i) addrs)" "length ys = length addrs - 1"
    by (rule swap_remove_parts [OF il(1)])
  obtain bs where bs: "swap_remove bufs i = Some (bufs ! i, bs)" "take i bs = take i bufs"
     "length bs = length bufs - 1"
    by (rule swap_remove_parts [OF il(2)])
  have len: "i \<le> length ys" "i \<le> length bs" "i \<le> length cs" using ys(4) bs(3) il by auto
  have now: "\<not> length (bufs ! i) < 8" "from_le_bytes (take 8 (bufs ! i)) = es ! i" "addrs ! i = cs ! i"
    using Suc.prems(4) by auto
  have nth: "ys ! k = addrs ! k \<and> bs ! k = bufs ! k" if "k < i" for k
    using that ys(2) bs(2) by (metis nth_take)
  have rest: "\<forall>k < i. 8 \<le> length (bs ! k) \<and> from_le_bytes (take 8 (bs ! k)) = es ! k \<and> (ys @ zs) ! k = cs ! k" for zs
    using Suc.prems(4) nth len(1) by (simp add: nth_append)
  obtain a b where ab: "pte_addr_mask spec (tc_pt_addr (cs ! i)) s = Some a" "pte_addr_mask spec (es ! i) s = Some b"
    using pte_addr_mask_total [OF s] by metis
  have lt: "leaves_table spec s (cs ! i) (es ! i) \<longleftrightarrow> a \<noteq> b" by (simp add: leaves_table_def ab)
  have test: "(a \<noteq> b \<and> (case prev of None \<Rightarrow> True
       | Some pa \<Rightarrow> pa \<noteq> es ! i \<and> \<not> tm_contains tm (es ! i) addr_map)) \<longleftrightarrow> entry_followed spec s cs es i"
    unfolding followed_entries_step(2) [OF il(3)] lt Suc.prems(5) by (cases prev) auto
  have step: "read_pt_loop spec tm s (Suc i) addrs bufs addr_map prev err =
      (if entry_followed spec s cs es i
       then read_pt_loop spec tm s i (ys @ [(cs ! i)\<lparr>tc_pt_addr := es ! i\<rparr>]) bs
             (case prev of Some pa \<Rightarrow> tm_insert tm pa addr_map | None \<Rightarrow> addr_map) (Some (es ! i)) err
       else read_pt_loop spec tm s i ys bs addr_map prev (err @ chunk_failures VirtualTranslate (cs ! i)))"
    unfolding test [symmetric]
    by (simp add: ys(1) bs(1) now ab address_from_u64_def Let_def cong: option.case_cong)
  show ?case
  proof (cases "entry_followed spec s cs es i")
    case True
    let ?m = "case prev of Some pa \<Rightarrow> tm_insert tm pa addr_map | None \<Rightarrow> addr_map"
    let ?c = "(cs ! i)\<lparr>tc_pt_addr := es ! i\<rparr>"
    have "{x. tm_contains tm x ?m} = ?S (Suc i)"
      using law Suc.prems(5,6) by (cases prev) (auto simp: tree_map_law_def)
    then have "?S i = (case Some (es ! i) of None \<Rightarrow> {} | Some p \<Rightarrow> insert p {a. tm_contains tm a ?m})"
      using True unfolding followed_entries_step [OF il(3)] by simp
    moreover have "i \<le> length (ys @ [?c])" using len(1) by simp
    ultimately obtain addrs' addr_map' where
      ih: "read_pt_loop spec tm s i (ys @ [?c]) bs ?m (Some (es ! i)) err = Some (addrs', addr_map',
       err @ concat (map (\<lambda>k. chunk_failures VirtualTranslate (cs ! k))
         (filter (\<lambda>k. \<not> entry_followed spec s cs es k) (rev [0..<i]))))"
      "mset addrs' = mset (drop i (ys @ [?c])) +
       mset (map (\<lambda>k. (cs ! k)\<lparr>tc_pt_addr := es ! k\<rparr>) (filter (entry_followed spec s cs es) [0..<i]))"
      using Suc.IH [where err = err and addr_map = ?m, OF _ len(2,3) rest, of "[?c]" "Some (es ! i)"] by blast
    show ?thesis
      unfolding step if_P [OF True] ih(1)
      using True len(1) by (intro exI [of _ addrs'] exI [of _ addr_map']) (simp add: ih(2) ys(3))
  next
    case False
    have "?S i = ?S (Suc i)"
      using False unfolding followed_entries_step [OF il(3)] by auto
    with Suc.prems(5) have S: "?S i = (case prev of None \<Rightarrow> {} | Some p \<Rightarrow> insert p {a. tm_contains tm a addr_map})"
      by simp
    from Suc.IH [OF len rest [of "[]", unfolded append_Nil2] S Suc.prems(6)] obtain addrs' addr_map' where
      ih: "read_pt_loop spec tm s i ys bs addr_map prev (err @ chunk_failures VirtualTranslate (cs ! i)) =
        Some (addrs', addr_map', (err @ chunk_failures VirtualTranslate (cs ! i)) @
          concat (map (\<lambda>k. chunk_failures VirtualTranslate (cs ! k))
            (filter (\<lambda>k. \<not> entry_followed spec s cs es k) (rev [0..<i]))))"
      "mset addrs' = mset (drop i ys) +
       mset (map (\<lambda>k. (cs ! k)\<lparr>tc_pt_addr := es ! k\<rparr>) (filter (entry_followed spec s cs es) [0..<i]))"
      by blast
    show ?thesis
      unfolding step if_not_P [OF False] ih(1)
      using False by (intro exI [of _ addrs'] exI [of _ addr_map']) (simp add: ih(2) ys(3))
  qed
qed simp

text \<open>
  Four-level tables of x64 at 0x1000: the pages 0, 1 and 2 of the lowest page table are at
  0x5000, 0x9000 and at the third frame given; all other memory is zero.
\<close>

definition example_tables :: "u8 \<Rightarrow> u64 \<Rightarrow> u8 option" where
  "example_tables third a = Some (case map_of
     [(0x1000, 3), (0x1001, 0x20), (0x2000, 3), (0x2001, 0x30), (0x3000, 3), (0x3001, 0x40),
      (0x4000, 3), (0x4001, 0x50), (0x4008, 3), (0x4009, 0x90), (0x4010, 3), (0x4011, third)] a
     of Some v \<Rightarrow> v | None \<Rightarrow> 0)"

lemma example_mapped: "walk (x86_mmu x64_spec) (example_tables third) dtb v \<noteq> Walk_Unmapped"
  by (rule x64_walk_mapped) (simp add: example_tables_def)

definition example_run ::
  "u8 \<Rightarrow> (address \<times> usize) list \<Rightarrow> ((address \<times> usize) list \<times> (error \<times> address \<times> usize) list) option" where
  "example_run third rs =
     map_option (\<lambda>(out, fail, _). (map (\<lambda>(pa, n). (pa_address pa, n)) out, fail))
       (mmu_virt_to_phys_iter (\<lambda>_. 0) usize_ops (x86_mmu x64_spec) list_tree_map reference_memory
          (example_tables third) 0x1000 rs [] [])"

section \<open>Properties\<close>

text \<open>
  C4. Soundness of the translation of a contiguous request. Every translated piece is a
  piece of the request: the walk of each of its addresses ends at the same page table entry
  at the same level, the physical address is the one this entry gives for the first
  address, and the piece lies inside that page. The request may span any number of pages of
  any size, up to half the virtual range; the page tables its walks visit are mapped, and their content is arbitrary.
\<close>

theorem contiguous_translation_sound:
  assumes "mapped_walk ops ok cells pm mem_ok content" and "deep_spec spec" and "mem_ok m"
    and "good_request ok cells spec (a, b)" and "cells b \<noteq> []"
    and "\<forall>v. unat a \<le> unat v \<and> unat v < unat a + length (cells b) \<longrightarrow>
           walk spec (content m) dtb v \<noteq> Walk_Unmapped"
    and "mmu_virt_to_phys_iter cap ops spec tm pm m dtb [(a, b)] [] [] = Some (out, fail, m')"
  shows "\<forall>(pa, piece) \<in> set out. \<exists>va pte step. step < split_count spec \<and>
     set (addr_cells va (cells piece)) \<subseteq> set (addr_cells a (cells b)) \<and>
     get_phys_page spec pte va step = Some pa \<and>
     unat va mod 2 ^ step_bits spec step + length (cells piece) \<le> 2 ^ step_bits spec step \<and>
     (\<forall>v. unat va \<le> unat v \<and> unat v < unat va + length (cells piece) \<longrightarrow>
        walk spec (content m) dtb v = Walk_Entry pte step)"
proof -
  have "\<forall>x \<in> set out. sound_out spec cells (content m) dtb (set (addr_cells a (cells b))) x"
    by (rule mapped_walk.virt_to_phys_sound [OF assms(1-5) _ assms(7)]) (use assms(6) in blast)
  then show ?thesis
    unfolding sound_out_def by (simp only: case_prod_unfold) blast
qed


theorem contiguous_translation_sound_witness:
  "\<exists>out fail m'. mmu_virt_to_phys_iter (\<lambda>_. 0) usize_ops (x86_mmu x64_spec) list_tree_map
       reference_memory (example_tables 0xB0) 0x1000 [(0x800, 0x2000)] [] [] = Some (out, fail, m') \<and>
     (\<forall>(pa, piece) \<in> set out. \<exists>va pte step. step < split_count (x86_mmu x64_spec) \<and>
        set (addr_cells va (usize_cells piece)) \<subseteq> set (addr_cells 0x800 (usize_cells 0x2000)) \<and>
        get_phys_page (x86_mmu x64_spec) pte va step = Some pa \<and>
        unat va mod 2 ^ step_bits (x86_mmu x64_spec) step + length (usize_cells piece)
          \<le> 2 ^ step_bits (x86_mmu x64_spec) step \<and>
        (\<forall>v. unat va \<le> unat v \<and> unat v < unat va + length (usize_cells piece) \<longrightarrow>
           walk (x86_mmu x64_spec) (example_tables 0xB0) 0x1000 v = Walk_Entry pte step))"
proof -
  have req: "good_request (\<lambda>_. True) usize_cells (x86_mmu x64_spec) (0x800, 0x2000)"
    by (simp add: good_request_def x86_virt_range usize_cells_def)
  obtain out fail m' where run: "mmu_virt_to_phys_iter (\<lambda>_. 0) usize_ops (x86_mmu x64_spec)
      list_tree_map reference_memory (example_tables 0xB0) 0x1000 [(0x800, 0x2000)] [] [] = Some (out, fail, m')"
    using usize_walk.virt_to_phys_iter_cells [OF x86_split_count(1), where cap = "\<lambda>_. 0" and
        tm = list_tree_map and m = "example_tables 0xB0" and dtb = "0x1000" and
        rs = "[(0x800, 0x2000)]" and out = "[]" and fail = "[]"] req
    by auto
  have ne: "usize_cells 0x2000 \<noteq> []" by (simp add: usize_cells_def)
  note sound = contiguous_translation_sound [OF usize_mapped.mapped_walk_axioms x86_deep(1) TrueI
      req ne _ run]
  show ?thesis
    by (intro exI conjI, rule run, rule sound) (use example_mapped in blast)
qed

lemma virt_to_phys_walk:
  assumes "matching_memory pm mem_ok content" and "mem_ok m"
    and "arch \<in> {x64_spec, x32_spec, x32_pae_spec}" and "unat v < 18446744073709551615"
    and "walk (x86_mmu arch) (content m) dtb v \<noteq> Walk_Unmapped"
  shows "\<exists>m'. mem_ok m' \<and> content m' = content m \<and>
     scoped_virt_to_phys cap tm pm (xst_new arch dtb) m v =
       Some (case walk (x86_mmu arch) (content m) dtb v of
               Walk_Entry pte step \<Rightarrow> Inr (the (get_phys_page (x86_mmu arch) pte v step))
             | _ \<Rightarrow> Inl VirtualTranslate, m') \<and>
     direct_virt_to_phys cap tm pm m (xst_new arch dtb) v =
       scoped_virt_to_phys cap tm pm (xst_new arch dtb) m v"
proof -
  let ?spec = "x86_mmu arch"
  have deep: "deep_spec ?spec" using assms(3) x86_deep by auto
  have mw: "mapped_walk usize_ops (\<lambda>_. True) usize_cells pm mem_ok content"
    using usize_split.split_index_axioms assms(1) by (rule mapped_walk.intro)
  have "1 \<le> virt_range ?spec" using assms(3) by (auto simp: x86_virt_range)
  then have req: "good_request (\<lambda>_. True) usize_cells ?spec (v, 1)"
    using assms(4) by (simp add: good_request_def usize_cells_def)
  have one: "usize_cells 1 = [()]" by (simp add: usize_cells_def)
  obtain out fail m' where run: "mmu_virt_to_phys_iter cap usize_ops ?spec tm pm m dtb [(v, 1)] [] []
      = Some (out, fail, m')"
    "outcome ?spec (walk ?spec (content m) dtb v) v out fail" "mem_ok m'" "content m' = content m"
    using mapped_walk.virt_to_phys_one [OF mw deep assms(2) req one assms(5)] by blast
  then show ?thesis
    by (auto simp: scoped_virt_to_phys_def scoped_virt_to_phys_iter_def direct_virt_to_phys_def
        direct_virt_to_phys_iter_def xst_new_def outcome_def split: walk_result.splits)
qed

text \<open>
  C2. \<open>virt_to_phys\<close> is the page walk: on every x86 architecture, over a readable memory and for
  an address other than the last one whose walk stays inside backed tables, the result is the page the walk of the address ends at, or the
  translation error when the walk faults; it never panics, and both entry points agree.
\<close>

theorem virt_to_phys_is_walk:
  assumes "matching_memory pm mem_ok content" and "mem_ok m"
    and "arch \<in> {x64_spec, x32_spec, x32_pae_spec}" and "unat v < 18446744073709551615"
    and "walk (x86_mmu arch) (content m) dtb v \<noteq> Walk_Unmapped"
  shows "\<exists>m'. mem_ok m' \<and> content m' = content m \<and>
     scoped_virt_to_phys cap tm pm (xst_new arch dtb) m v =
       Some (case walk (x86_mmu arch) (content m) dtb v of
               Walk_Entry pte step \<Rightarrow> Inr (the (get_phys_page (x86_mmu arch) pte v step))
             | _ \<Rightarrow> Inl VirtualTranslate, m') \<and>
     direct_virt_to_phys cap tm pm m (xst_new arch dtb) v =
       scoped_virt_to_phys cap tm pm (xst_new arch dtb) m v"
  by (rule virt_to_phys_walk [OF assms])

theorem virt_to_phys_is_walk_witness:
  "\<exists>m'. scoped_virt_to_phys (\<lambda>_. 0) list_tree_map reference_memory (xst_new x64_spec 0x1000)
       (example_tables 0xB0) 0x1234 =
       Some (case walk (x86_mmu x64_spec) (example_tables 0xB0) 0x1000 0x1234 of
               Walk_Entry pte step \<Rightarrow> Inr (the (get_phys_page (x86_mmu x64_spec) pte 0x1234 step))
             | _ \<Rightarrow> Inl VirtualTranslate, m')"
  using virt_to_phys_is_walk [OF reference.matching_memory_axioms, where m = "example_tables 0xB0" and
      arch = x64_spec and v = "0x1234" and dtb = "0x1000" and cap = "\<lambda>_. 0" and
      tm = list_tree_map] example_mapped
  by auto


text \<open>Two neighbouring entries of one table that are equal: the first page fails.\<close>

definition twin_chunks :: "usize translation_chunk list" where
  "twin_chunks = [\<lparr>tc_pt_addr = 0x4008, tc_vec = [\<lparr>td_addr = 0x1000, td_buf = 8\<rparr>], tc_min_addr = 0x1000, tc_max_addr = 0x1008\<rparr>,
     \<lparr>tc_pt_addr = 0x4010, tc_vec = [\<lparr>td_addr = 0x2000, td_buf = 8\<rparr>], tc_min_addr = 0x2000, tc_max_addr = 0x2008\<rparr>]"


text \<open>
  The batch is not the walk of each request when requests leave gaps: for three bytes in
  three neighbouring pages, the last two with a gap before them, the cutting at pages takes
  the second and third for one page, and the third is translated with the entry of the
  second page: 0x2100 becomes 0x9100, where the page walk ends at the frame 0xB000.
\<close>

lemma gapped_batch_mistranslated:
  "example_run 0xB0 [(0, 1), (0x1800, 1), (0x2100, 1)] =
     Some ([(0x5000, 1), (0x9100, 1), (0x9800, 1)], []) \<and>
   walk (x86_mmu x64_spec) (example_tables 0xB0) 0x1000 0x2100 = Walk_Entry 0xB003 4"
proof
  show "example_run 0xB0 [(0, 1), (0x1800, 1), (0x2100, 1)] =
     Some ([(0x5000, 1), (0x9100, 1), (0x9800, 1)], [])"
    by code_simp
  show "walk (x86_mmu x64_spec) (example_tables 0xB0) 0x1000 0x2100 = Walk_Entry 0xB003 4"
    by code_simp
qed

text \<open>
  Two pages that map the same frame with equal entries: of one request over both, the
  part in one page is translated and the other part fails, although each page translates
  when it is asked for alone.
\<close>

lemma shared_frame_fails:
  "example_run 0x90 [(0x1000, 0x2000)] =
     Some ([(0x9000, 0x1000)], [(VirtualTranslate, 0x1000, 0x1000)]) \<and>
   example_run 0x90 [(0x1000, 0x1000)] = Some ([(0x9000, 0x1000)], [])"
proof
  show "example_run 0x90 [(0x1000, 0x2000)] =
     Some ([(0x9000, 0x1000)], [(VirtualTranslate, 0x1000, 0x1000)])"
    by code_simp
  show "example_run 0x90 [(0x1000, 0x1000)] = Some ([(0x9000, 0x1000)], [])"
    by code_simp
qed

end
