(* ===== verification/Pointer_Ops.thy ===== *)
theory Pointer_Ops
  imports Address_Ops Byte_Order
begin

text \<open>
  \<open>memflow/src/types/pointer32.rs\<close> and \<open>pointer64.rs\<close>: typed pointers of the target. The
  phantom type is represented by the size of the pointee, an argument of the operations
  that scale by it. Dereferencing reads virtual memory and is modelled with that trait.
\<close>

section \<open>Pointer32\<close>

record pointer32 =
  p32_address :: u32

definition P32_NULL :: pointer32 where "P32_NULL = \<lparr>p32_address = 0\<rparr>"
definition p32_null :: pointer32 where "p32_null = P32_NULL"
definition p32_is_null :: "pointer32 \<Rightarrow> bool" where "p32_is_null p \<longleftrightarrow> p32_address p = 0"
definition p32_into_raw :: "pointer32 \<Rightarrow> u32" where "p32_into_raw p = p32_address p"

definition p32_decay :: "pointer32 \<Rightarrow> pointer32" where
  "p32_decay p = \<lparr>p32_address = p32_address p\<rparr>"

definition p32_at :: "usize \<Rightarrow> pointer32 \<Rightarrow> usize \<Rightarrow> pointer32" where
  "p32_at size_of p i = \<lparr>p32_address = p32_address p + ucast (i * size_of)\<rparr>"

definition p32_cmp :: "pointer32 \<Rightarrow> pointer32 \<Rightarrow> ordering" where
  "p32_cmp p q = cmp_of (p32_address p) (p32_address q)"

definition p32_from_u32 :: "u32 \<Rightarrow> pointer32" where
  "p32_from_u32 a = \<lparr>p32_address = a\<rparr>"

definition address_from_p32 :: "pointer32 \<Rightarrow> address" where
  "address_from_p32 p = address_from_u32 (p32_address p)"

definition u32_from_p32 :: "pointer32 \<Rightarrow> u32" where
  "u32_from_p32 p = p32_address p"

definition p32_add :: "usize \<Rightarrow> pointer32 \<Rightarrow> usize \<Rightarrow> pointer32" where
  "p32_add size_of p other = p\<lparr>p32_address := p32_address p + ucast (other * size_of)\<rparr>"

definition p32_sub :: "usize \<Rightarrow> pointer32 \<Rightarrow> usize \<Rightarrow> pointer32" where
  "p32_sub size_of p other = p\<lparr>p32_address := p32_address p - ucast (other * size_of)\<rparr>"

definition p32_byte_swap :: "pointer32 \<Rightarrow> pointer32" where
  "p32_byte_swap p = p\<lparr>p32_address := swap_unsigned (p32_address p)\<rparr>"

section \<open>Pointer64\<close>

record pointer64 =
  p64_address :: u64

definition P64_NULL :: pointer64 where "P64_NULL = \<lparr>p64_address = 0\<rparr>"
definition p64_null :: pointer64 where "p64_null = P64_NULL"
definition p64_is_null :: "pointer64 \<Rightarrow> bool" where "p64_is_null p \<longleftrightarrow> p64_address p = 0"
definition p64_into_raw :: "pointer64 \<Rightarrow> u64" where "p64_into_raw p = p64_address p"

definition p64_decay :: "pointer64 \<Rightarrow> pointer64" where
  "p64_decay p = \<lparr>p64_address = p64_address p\<rparr>"

definition p64_at :: "usize \<Rightarrow> pointer64 \<Rightarrow> usize \<Rightarrow> pointer64" where
  "p64_at size_of p i = \<lparr>p64_address = p64_address p + i * size_of\<rparr>"

definition p64_cmp :: "pointer64 \<Rightarrow> pointer64 \<Rightarrow> ordering" where
  "p64_cmp p q = cmp_of (p64_address p) (p64_address q)"

definition p64_from_u64 :: "u64 \<Rightarrow> pointer64" where
  "p64_from_u64 a = \<lparr>p64_address = a\<rparr>"

definition address_from_p64 :: "pointer64 \<Rightarrow> address" where
  "address_from_p64 p = address_from_u64 (p64_address p)"

definition u64_from_p64 :: "pointer64 \<Rightarrow> u64" where
  "u64_from_p64 p = p64_address p"

definition p64_add :: "usize \<Rightarrow> pointer64 \<Rightarrow> usize \<Rightarrow> pointer64" where
  "p64_add size_of p other = p\<lparr>p64_address := p64_address p + other * size_of\<rparr>"

definition p64_sub :: "usize \<Rightarrow> pointer64 \<Rightarrow> usize \<Rightarrow> pointer64" where
  "p64_sub size_of p other = p\<lparr>p64_address := p64_address p - other * size_of\<rparr>"

definition p64_byte_swap :: "pointer64 \<Rightarrow> pointer64" where
  "p64_byte_swap p = p\<lparr>p64_address := swap_unsigned (p64_address p)\<rparr>"

lemmas p32_defs = p32_at_def p32_add_def p32_sub_def p32_decay_def p32_byte_swap_def
  address_from_p32_def p32_from_u32_def u32_from_p32_def p32_into_raw_def address_from_u32_def
lemmas p64_defs = p64_at_def p64_add_def p64_sub_def p64_decay_def p64_byte_swap_def
  address_from_p64_def p64_from_u64_def u64_from_p64_def p64_into_raw_def address_from_u64_def

lemma unat_ucast_32_64 [simp]: "unat (ucast (w :: u32) :: u64) = unat w"
proof -
  have "unat w < 2 ^ 32"
    using unsigned_less [where 'a = nat, of w] by simp
  then have "unat w < 2 ^ 64" by simp
  then show ?thesis
    by (simp add: unsigned_ucast_eq take_bit_nat_eq_self)
qed

lemma ucast_plus_32: "(ucast ((a :: u64) + b) :: u32) = ucast a + ucast b"
proof -
  have *: "take_bit 32 (take_bit 64 i + take_bit 64 j) = take_bit 32 (i + j)" for i j :: int
  proof -
    have "take_bit 32 (take_bit 64 i + take_bit 64 j)
        = take_bit 32 (take_bit 32 (take_bit 64 i) + take_bit 32 (take_bit 64 j))"
      by (rule take_bit_add [symmetric])
    also have "\<dots> = take_bit 32 (i + j)"
      by (simp add: take_bit_take_bit take_bit_add)
    finally show ?thesis .
  qed
  show ?thesis
    by transfer (simp add: take_bit_add *)
qed

lemma p32_add_add: "p32_add s (p32_add s p i) j = p32_add s p (i + j)"
  by (simp add: p32_add_def distrib_right ucast_plus_32)

lemma p64_add_add: "p64_add s (p64_add s p i) j = p64_add s p (i + j)"
  by (simp add: p64_add_def distrib_right)

lemma p32_swap_swap: "p32_byte_swap (p32_byte_swap p) = p"
  by (simp add: p32_byte_swap_def swap_bytes)

lemma p64_swap_swap: "p64_byte_swap (p64_byte_swap p) = p"
  by (simp add: p64_byte_swap_def swap_bytes)

section \<open>Properties\<close>

text \<open>
  Pointer arithmetic: an element pointer is the decayed array pointer advanced by its
  index, steps accumulate and are undone by the opposite step (modulo the pointer width),
  swapping twice restores a pointer, and the address of a 32-bit pointer is its value
  extended by zeros.
\<close>

lemma pointer_arithmetic:
  "p32_at s p i = p32_add s (p32_decay p) i \<and>
   p32_sub s (p32_add s p i) i = p \<and>
   p32_add s (p32_add s p i) j = p32_add s p (i + j) \<and>
   p32_byte_swap (p32_byte_swap p) = p \<and>
   unat (address_from_p32 p) = unat (p32_into_raw p) \<and>
   p64_at s q i = p64_add s (p64_decay q) i \<and>
   p64_sub s (p64_add s q i) i = q \<and>
   p64_add s (p64_add s q i) j = p64_add s q (i + j) \<and>
   p64_byte_swap (p64_byte_swap q) = q \<and>
   address_from_p64 (p64_from_u64 a) = a"
  unfolding p32_add_add p64_add_add p32_swap_swap p64_swap_swap
  by (simp add: p32_defs p64_defs)

end
