(* ===== verification/Iter_Loops.thy ===== *)
theory Iter_Loops
  imports Memflow_Prelude
begin

text \<open>
  Rust \<open>for\<close> loops over an iterator, as the components write them: the iterator is a
  \<open>next\<close> function on a state, the body updates the state of the loop and may leave the
  loop with an early return. The lemmas run a loop over an iterator whose items are known
  (\<open>yields\<close>), so that a component proves once what its iterator yields.
\<close>

section \<open>Loops\<close>

text \<open>
  The body gets an item and the loop state and gives the new state and, for an early
  return, the value to return; \<open>None\<close> is a panic. The result has the final state of the
  iterator too.
\<close>

partial_function (option) for_loop ::
  "('s \<Rightarrow> ('a option \<times> 's) option) \<Rightarrow> ('a \<Rightarrow> 'b \<Rightarrow> ('e option \<times> 'b) option) \<Rightarrow> 's \<Rightarrow> 'b
     \<Rightarrow> ('e option \<times> 'b \<times> 's) option" where
  "for_loop next body s b =
     Option.bind (next s) (\<lambda>r. case fst r of
         None \<Rightarrow> Some (None, b, snd r)
       | Some x \<Rightarrow> Option.bind (body x b) (\<lambda>q. case fst q of
             Some e \<Rightarrow> Some (Some e, snd q, snd r)
           | None \<Rightarrow> for_loop next body (snd r) (snd q)))"

declare for_loop.simps [code]

text \<open>A loop over a list of items.\<close>

fun each :: "('a \<Rightarrow> 'b \<Rightarrow> ('e option \<times> 'b) option) \<Rightarrow> 'a list \<Rightarrow> 'b \<Rightarrow> ('e option \<times> 'b) option" where
  "each body [] b = Some (None, b)"
| "each body (x # xs) b = do {
     (e, b') \<leftarrow> body x b;
     (case e of Some _ \<Rightarrow> Some (e, b') | None \<Rightarrow> each body xs b')
   }"

text \<open>\<open>collect\<close> with the final state of the iterator.\<close>

definition drain :: "('s \<Rightarrow> ('a option \<times> 's) option) \<Rightarrow> 's \<Rightarrow> ('a list \<times> 's) option" where
  "drain next s =
     map_option (\<lambda>(_, xs, s'). (xs, s'))
       (for_loop next (\<lambda>x xs. Some (None :: unit option, xs @ [x])) s [])"

section \<open>What an iterator yields\<close>

fun yields :: "('s \<Rightarrow> ('a option \<times> 's) option) \<Rightarrow> 's \<Rightarrow> 'a list \<Rightarrow> 's \<Rightarrow> bool" where
  "yields next s [] s' \<longleftrightarrow> next s = Some (None, s')"
| "yields next s (x # xs) s' \<longleftrightarrow> (\<exists>s1. next s = Some (Some x, s1) \<and> yields next s1 xs s')"

lemma yields_cong: "next s = next s1 \<Longrightarrow> yields next s xs s' = yields next s1 xs s'"
  by (cases xs) auto

lemma yields_for_loop:
  "yields next s xs s' \<Longrightarrow>
     (case each body xs b of
        None \<Rightarrow> for_loop next body s b = None
      | Some (None, b') \<Rightarrow> for_loop next body s b = Some (None, b', s')
      | Some (Some e, b') \<Rightarrow> \<exists>s''. for_loop next body s b = Some (Some e, b', s''))"
proof (induction xs arbitrary: s b)
  case Nil
  then show ?case by (subst for_loop.simps) simp
next
  case (Cons x xs)
  then obtain s1 where s1: "next s = Some (Some x, s1)" "yields next s1 xs s'" by auto
  show ?case
  proof (cases "body x b")
    case None
    then show ?thesis by (subst for_loop.simps) (simp add: s1)
  next
    case (Some q)
    obtain e b1 where q: "q = (e, b1)" by (cases q) auto
    have f: "for_loop next body s b =
        (case e of Some e \<Rightarrow> Some (Some e, b1, s1) | None \<Rightarrow> for_loop next body s1 b1)"
      by (subst for_loop.simps) (simp add: s1 Some q split: option.splits)
    show ?thesis
      using Cons.IH [OF s1(2), of b1] by (cases e) (auto simp: f Some q split: option.splits)
  qed
qed

lemma each_append:
  "each body (xs @ ys) b = do {
     (e, b') \<leftarrow> each body xs b;
     (case e of Some _ \<Rightarrow> Some (e, b') | None \<Rightarrow> each body ys b')
   }"
  by (induction xs arbitrary: b) (auto split: option.splits Option.bind_splits)

lemma each_collects: "each (\<lambda>x ys. Some (None, ys @ [x])) xs b = Some (None, b @ xs)"
  by (induction xs arbitrary: b) auto

lemma each_foldl: "each (\<lambda>x b. Some (None, f b x)) xs b = Some (None, foldl f b xs)"
  by (induction xs arbitrary: b) auto

lemma yields_drain: "yields next s xs s' \<Longrightarrow> drain next s = Some (xs, s')"
  using yields_for_loop [of "next" s xs s' "\<lambda>x ys. Some (None :: unit option, ys @ [x])" "[]"]
  by (simp add: drain_def each_collects)

end
