(* ===== verification/Mem_Map.thy ===== *)
theory Mem_Map
  imports Split_Index Page_Info Iter_Loops
begin

text \<open>
  \<open>memflow/src/mem/mem_map.rs\<close>: the map from the linear physical address space to the
  regions of a backend. A map is a vector of mappings; \<open>push\<close> inserts one and panics when
  it sees an overlap; \<open>MemoryMapIterator\<close> cuts requests at the mappings. The lemmas
  compare the iterator with the lookup of one address, and say when \<open>push\<close> keeps the
  mappings in order.
\<close>

section \<open>The map\<close>

record 'm mapping =
  mp_base :: address
  mp_output :: 'm

type_synonym 'm memory_map = "'m mapping list"

definition mm_new :: "'m memory_map" where "mm_new = []"

definition mm_into_iter :: "'m memory_map \<Rightarrow> (address \<times> 'm) list" where
  "mm_into_iter maps = map (\<lambda>m. (mp_base m, mp_output m)) maps"

definition mp_end :: "'m split_ops \<Rightarrow> 'm mapping \<Rightarrow> address" where
  "mp_end mops m = address_add (mp_base m) (so_length mops (mp_output m))"

text \<open>
  The bounds check of \<open>push\<close> from the last mapping to the first; \<open>n\<close> mappings are left to
  look at. It panics at an overlap, and stops at a mapping that ends below the new one.
\<close>

definition push_overlap :: "'m split_ops \<Rightarrow> address \<Rightarrow> address \<Rightarrow> 'm mapping \<Rightarrow> bool" where
  "push_overlap mops start end m \<longleftrightarrow>
     mp_base m \<le> start \<and> start < mp_end mops m \<or> mp_base m \<le> end \<and> end < mp_end mops m"

fun push_scan ::
  "'m split_ops \<Rightarrow> 'm memory_map \<Rightarrow> address \<Rightarrow> address \<Rightarrow> nat \<Rightarrow> nat \<Rightarrow> nat option" where
  "push_scan mops maps start end shift_idx 0 = Some shift_idx"
| "push_scan mops maps start end shift_idx (Suc i) =
     (if push_overlap mops start end (maps ! i) then None
      else if mp_end mops (maps ! i) \<le> start then Some (i + 1)
      else push_scan mops maps start end shift_idx i)"

definition mm_push ::
  "'m split_ops \<Rightarrow> 'm memory_map \<Rightarrow> address \<Rightarrow> 'm \<Rightarrow> 'm memory_map option" where
  "mm_push mops maps base output = do {
     idx \<leftarrow> push_scan mops maps base (address_add base (so_length mops output))
              (length maps) (length maps);
     Some (take idx maps @ [\<lparr>mp_base = base, mp_output = output\<rparr>] @ drop idx maps)
   }"

fun mm_push_all ::
  "'m split_ops \<Rightarrow> 'm memory_map \<Rightarrow> (address \<times> 'm) list \<Rightarrow> 'm memory_map option" where
  "mm_push_all mops maps [] = Some maps"
| "mm_push_all mops maps ((base, buf) # bufs) = do {
     maps \<leftarrow> mm_push mops maps base buf;
     mm_push_all mops maps bufs
   }"

text \<open>Maps to address ranges; the outputs are pairs of an address and a size.\<close>

definition push_remap ::
  "(address \<times> usize) memory_map \<Rightarrow> address \<Rightarrow> usize \<Rightarrow> address \<Rightarrow> (address \<times> usize) memory_map option" where
  "push_remap maps base sz real_base = mm_push (pair_ops usize_ops) maps base (real_base, sz)"

definition push_range ::
  "(address \<times> usize) memory_map \<Rightarrow> address \<Rightarrow> address \<Rightarrow> address \<Rightarrow> (address \<times> usize) memory_map option" where
  "push_range maps base end real_base =
     (if end > base then push_remap maps base (address_sub_addr end base) real_base else Some maps)"

text \<open>
  The raw slices are built from the memory of the process: a shared slice is the list of
  the bytes it points at, an exclusive slice keeps its place (allocation 0 is the process
  memory).
\<close>

definition from_raw_parts :: "(nat \<Rightarrow> u8) \<Rightarrow> address \<Rightarrow> usize \<Rightarrow> u8 list" where
  "from_raw_parts host real_base sz = map (\<lambda>i. host (unat real_base + i)) [0..<unat sz]"

definition from_raw_parts_mut :: "address \<Rightarrow> usize \<Rightarrow> mut_slice" where
  "from_raw_parts_mut real_base sz = \<lparr>ms_alloc = 0, ms_ptr = unat real_base, ms_len = sz\<rparr>"

definition into_bufmap_mut :: "(address \<times> usize) memory_map \<Rightarrow> mut_slice memory_map option" where
  "into_bufmap_mut maps =
     mm_push_all mut_slice_ops mm_new
       (map (\<lambda>(base, (real_base, sz)). (base, from_raw_parts_mut real_base sz)) (mm_into_iter maps))"

definition into_bufmap ::
  "(nat \<Rightarrow> u8) \<Rightarrow> (address \<times> usize) memory_map \<Rightarrow> u8 list memory_map option" where
  "into_bufmap host maps =
     mm_push_all slice_ops mm_new
       (map (\<lambda>(base, (real_base, sz)). (base, from_raw_parts host real_base sz)) (mm_into_iter maps))"

section \<open>The binary search of the standard library\<close>

text \<open>
  \<open>slice::binary_search_by\<close>, as the standard library of the time of the sources has it; on
  a sorted slice with at most one equal element any version returns the same.
\<close>

function bs_loop :: "('a \<Rightarrow> ordering) \<Rightarrow> 'a list \<Rightarrow> nat \<Rightarrow> nat \<Rightarrow> nat" where
  "bs_loop f xs base sz =
     (if sz \<le> 1 then base
      else let half = sz div 2; mid = base + half
           in bs_loop f xs (if f (xs ! mid) = Greater then base else mid) (sz - half))"
  by auto
termination by (relation "measure (\<lambda>(f, xs, base, sz). sz)") auto

declare bs_loop.simps [simp del]

definition binary_search_by :: "('a \<Rightarrow> ordering) \<Rightarrow> 'a list \<Rightarrow> nat + nat" where
  "binary_search_by f xs =
     (if xs = [] then Inl 0
      else let base = bs_loop f xs 0 (length xs)
           in case f (xs ! base) of
                Equal \<Rightarrow> Inr base
              | Less \<Rightarrow> Inl (base + 1)
              | Greater \<Rightarrow> Inl base)"

section \<open>The iterator\<close>

definition MIN_BSEARCH_THRESH :: nat where "MIN_BSEARCH_THRESH = 32"

record ('m, 't) map_iter =
  mi_map :: "'m memory_map"
  mi_in :: "(address \<times> 't) list"
  mi_fail :: "(address \<times> 't) list"
  mi_cur :: "(address \<times> 't) option"
  mi_pos :: nat

definition mi_new :: "'m memory_map \<Rightarrow> (address \<times> 't) list \<Rightarrow> (address \<times> 't) list \<Rightarrow> ('m, 't) map_iter" where
  "mi_new maps in_iter fail_out =
     \<lparr>mi_map = maps, mi_in = in_iter, mi_fail = fail_out, mi_cur = None, mi_pos = 0\<rparr>"

text \<open>\<open>cur_elem = in_iter.next()\<close>.\<close>

definition mi_advance :: "('m, 't) map_iter \<Rightarrow> ('m, 't) map_iter" where
  "mi_advance it =
     (case mi_in it of
        [] \<Rightarrow> it\<lparr>mi_cur := None\<rparr>
      | x # xs \<Rightarrow> it\<lparr>mi_cur := Some x, mi_in := xs\<rparr>)"

definition mi_cmp :: "'m split_ops \<Rightarrow> address \<Rightarrow> 'm mapping \<Rightarrow> ordering" where
  "mi_cmp mops addr m =
     (if mp_base m > addr then Greater else if mp_end mops m \<le> addr then Less else Equal)"

definition mi_start_pos :: "'m split_ops \<Rightarrow> 'm memory_map \<Rightarrow> nat \<Rightarrow> address \<Rightarrow> nat" where
  "mi_start_pos mops maps pos addr =
     (if length maps \<ge> MIN_BSEARCH_THRESH \<and> pos = 0
      then (case binary_search_by (mi_cmp mops addr) maps of Inr idx \<Rightarrow> idx | Inl idx \<Rightarrow> idx)
      else pos)"

text \<open>The first mapping from \<open>pos\<close> on that ends above the address.\<close>

definition mi_find :: "'m split_ops \<Rightarrow> 'm memory_map \<Rightarrow> nat \<Rightarrow> address \<Rightarrow> nat option" where
  "mi_find mops maps pos addr =
     find (\<lambda>i. mp_end mops (maps ! i) > addr) [pos..<length maps]"

text \<open>\<open>usize::saturating_sub\<close>.\<close>

definition saturating_sub :: "usize \<Rightarrow> usize \<Rightarrow> usize" where
  "saturating_sub a b = (if b \<le> a then a - b else 0)"

definition mi_get_next ::
  "'m split_ops \<Rightarrow> 't split_ops \<Rightarrow> ('m, 't) map_iter \<Rightarrow> (('m \<times> 't) option \<times> ('m, 't) map_iter) option" where
  "mi_get_next mops tops it =
     (case mi_cur it of
        None \<Rightarrow> Some (None, it)
      | Some (addr, buf) \<Rightarrow>
          let it = it\<lparr>mi_cur := None, mi_pos := mi_start_pos mops (mi_map it) (mi_pos it) addr\<rparr>
          in (case mi_find mops (mi_map it) (mi_pos it) addr of
                None \<Rightarrow> Some (None, it)
              | Some i \<Rightarrow> do {
                  let elem = mi_map it ! i;
                  let output = mp_output elem;
                  let offset = saturating_sub (as_usize (mp_base elem)) (as_usize addr);
                  (left_reject, right, _) \<leftarrow> so_split_at tops buf offset;
                  let it = (if so_length tops left_reject > 0
                            then it\<lparr>mi_fail := mi_fail it @ [(addr, left_reject)]\<rparr> else it);
                  let addr = address_add addr offset;
                  (case right of
                     None \<Rightarrow> Some (None, it)
                   | Some leftover \<Rightarrow> do {
                       let off = address_sub_addr (mp_end mops elem) addr;
                       (ret, keep, _) \<leftarrow> so_split_at tops leftover off;
                       let it = (case keep of
                           Some x \<Rightarrow> it\<lparr>mi_pos := i + 1, mi_cur := Some (address_add addr (so_length tops ret), x)\<rparr>
                         | None \<Rightarrow> mi_advance (it\<lparr>mi_pos := 0\<rparr>));
                       let off = address_sub_addr addr (mp_base elem);
                       (_, right, output) \<leftarrow> so_split_at mops output off;
                       right \<leftarrow> right;
                       (mapped, _, _) \<leftarrow> so_split_at mops right (so_length tops ret);
                       Some (Some (mapped, ret),
                             it\<lparr>mi_map := (mi_map it)[i := elem\<lparr>mp_output := output\<rparr>]\<rparr>)
                     })
                }))"

text \<open>The loop of \<open>next\<close>: a request that gives nothing more makes room for the next one.\<close>

partial_function (option) mi_loop ::
  "'m split_ops \<Rightarrow> 't split_ops \<Rightarrow> ('m, 't) map_iter \<Rightarrow> (('m \<times> 't) option \<times> ('m, 't) map_iter) option" where
  "mi_loop mops tops it =
     (if mi_cur it = None then Some (None, it)
      else Option.bind (mi_get_next mops tops it) (\<lambda>r.
        case fst r of
          Some x \<Rightarrow> Some (Some x, snd r)
        | None \<Rightarrow> mi_loop mops tops ((mi_advance (snd r))\<lparr>mi_pos := 0\<rparr>)))"

declare mi_loop.simps [code]

definition mi_next ::
  "'m split_ops \<Rightarrow> 't split_ops \<Rightarrow> ('m, 't) map_iter \<Rightarrow> (('m \<times> 't) option \<times> ('m, 't) map_iter) option" where
  "mi_next mops tops it =
     mi_loop mops tops (if mi_cur it = None then mi_advance it else it)"

text \<open>\<open>map\<close> and \<open>map_iter\<close>, with all they yield and what they report as failed.\<close>

definition mm_map :: "'m memory_map \<Rightarrow> address \<Rightarrow> 't \<Rightarrow> (address \<times> 't) list \<Rightarrow> ('m, 't) map_iter" where
  "mm_map maps addr buf out_fail = mi_new maps [(addr, buf)] out_fail"

definition mm_map_iter ::
  "'m memory_map \<Rightarrow> (phys_addr \<times> 't) list \<Rightarrow> (address \<times> 't) list \<Rightarrow> ('m, 't) map_iter" where
  "mm_map_iter maps iter out_fail =
     mi_new maps (map (\<lambda>(pa, buf). (pa_address pa, buf)) iter) out_fail"

definition mapped_all ::
  "'m split_ops \<Rightarrow> 't split_ops \<Rightarrow> ('m, 't) map_iter \<Rightarrow> (('m \<times> 't) list \<times> (address \<times> 't) list) option" where
  "mapped_all mops tops it = map_option (\<lambda>(xs, it'). (xs, mi_fail it')) (drain (mi_next mops tops) it)"

section \<open>Lookup of one address\<close>

text \<open>
  The reference: which cell of which mapping backs an address. Addresses are natural
  numbers here, so that the end of a mapping needs no wrap-around.
\<close>

definition mp_hi :: "('m \<Rightarrow> 'mc list) \<Rightarrow> 'm mapping \<Rightarrow> nat" where
  "mp_hi mcells m = unat (mp_base m) + length (mcells (mp_output m))"

definition mm_at :: "('m \<Rightarrow> 'mc list) \<Rightarrow> 'm memory_map \<Rightarrow> nat \<Rightarrow> 'mc option" where
  "mm_at mcells maps a =
     map_option (\<lambda>m. mcells (mp_output m) ! (a - unat (mp_base m)))
       (find (\<lambda>m. unat (mp_base m) \<le> a \<and> a < mp_hi mcells m) maps)"

text \<open>
  Mappings in increasing order without overlap, none of them empty or reaching the end of
  the address space.
\<close>

definition mm_wf :: "('m \<Rightarrow> bool) \<Rightarrow> ('m \<Rightarrow> 'mc list) \<Rightarrow> 'm memory_map \<Rightarrow> bool" where
  "mm_wf mok mcells maps \<longleftrightarrow>
     (\<forall>m \<in> set maps. mok (mp_output m) \<and> mcells (mp_output m) \<noteq> [] \<and>
        mp_hi mcells m < 18446744073709551616) \<and>
     sorted_wrt (\<lambda>m m'. mp_hi mcells m \<le> unat (mp_base m')) maps"

text \<open>The bytes of a request that are backed, and those that are not but lie below an end.\<close>

definition mm_hits :: "('m \<Rightarrow> 'mc list) \<Rightarrow> 'm memory_map \<Rightarrow> nat \<Rightarrow> 'c list \<Rightarrow> ('mc \<times> 'c) list" where
  "mm_hits mcells maps a cs =
     List.map_filter (\<lambda>(x, c). map_option (\<lambda>mc. (mc, c)) (mm_at mcells maps x)) (enumerate a cs)"

definition mm_misses :: "('m \<Rightarrow> 'mc list) \<Rightarrow> 'm memory_map \<Rightarrow> nat \<Rightarrow> 'c list \<Rightarrow> (nat \<times> 'c) list" where
  "mm_misses mcells maps a cs =
     filter (\<lambda>(x, c). mm_at mcells maps x = None \<and> (\<exists>m \<in> set maps. x < mp_hi mcells m))
       (enumerate a cs)"

lemma map_filter_append: "List.map_filter f (xs @ ys) = List.map_filter f xs @ List.map_filter f ys"
  by (simp add: List.map_filter_def)

lemma mm_hits_append:
  "mm_hits mcells maps a (xs @ ys) =
     mm_hits mcells maps a xs @ mm_hits mcells maps (a + length xs) ys"
  by (simp add: mm_hits_def enumerate_append_eq map_filter_append)

lemma mm_misses_append:
  "mm_misses mcells maps a (xs @ ys) =
     mm_misses mcells maps a xs @ mm_misses mcells maps (a + length xs) ys"
  by (simp add: mm_misses_def enumerate_append_eq)

lemma mm_wf_nth:
  assumes "mm_wf mok mcells maps" and "i < length maps"
  shows "mok (mp_output (maps ! i))" and "mcells (mp_output (maps ! i)) \<noteq> []"
    and "mp_hi mcells (maps ! i) < 18446744073709551616"
    and "j < i \<Longrightarrow> mp_hi mcells (maps ! j) \<le> unat (mp_base (maps ! i))"
  using assms by (auto simp: mm_wf_def sorted_wrt_iff_nth_less)

lemma mp_hi_gt: "mcells (mp_output m) \<noteq> [] \<Longrightarrow> unat (mp_base m) < mp_hi mcells m"
  by (simp add: mp_hi_def)

lemma mm_hi_mono:
  assumes "mm_wf mok mcells maps" and "j \<le> i" and "i < length maps"
  shows "mp_hi mcells (maps ! j) \<le> mp_hi mcells (maps ! i)"
proof (cases "j = i")
  case False
  then have "mp_hi mcells (maps ! j) \<le> unat (mp_base (maps ! i))"
    using mm_wf_nth(4) [OF assms(1,3), of j] assms(2) by simp
  then show ?thesis by (simp add: mp_hi_def)
qed simp

lemma mm_at_hit:
  assumes "mm_wf mok mcells maps" and "i < length maps"
    and "unat (mp_base (maps ! i)) \<le> x" and "x < mp_hi mcells (maps ! i)"
  shows "mm_at mcells maps x = Some (mcells (mp_output (maps ! i)) ! (x - unat (mp_base (maps ! i))))"
proof -
  have "find (\<lambda>m. unat (mp_base m) \<le> x \<and> x < mp_hi mcells m) maps = Some (maps ! i)"
    unfolding find_Some_iff
  proof (intro exI [of _ i] conjI allI impI)
    fix j assume "j < i"
    then show "\<not> (unat (mp_base (maps ! j)) \<le> x \<and> x < mp_hi mcells (maps ! j))"
      using mm_wf_nth(4) [OF assms(1,2), of j] assms(3) by simp
  qed (use assms in auto)
  then show ?thesis by (simp add: mm_at_def)
qed

lemma mm_at_miss:
  assumes "mm_wf mok mcells maps" and "i \<le> length maps"
    and "\<And>j. j < i \<Longrightarrow> mp_hi mcells (maps ! j) \<le> x"
    and "i < length maps \<Longrightarrow> x < unat (mp_base (maps ! i))"
  shows "mm_at mcells maps x = None"
proof -
  have "\<not> (unat (mp_base (maps ! j)) \<le> x \<and> x < mp_hi mcells (maps ! j))" if j: "j < length maps" for j
  proof (cases "j < i")
    case False
    then have i: "i < length maps" using j by simp
    have "unat (mp_base (maps ! i)) \<le> unat (mp_base (maps ! j))"
    proof (cases "i = j")
      case False
      with \<open>\<not> j < i\<close> have "mp_hi mcells (maps ! i) \<le> unat (mp_base (maps ! j))"
        using mm_wf_nth(4) [OF assms(1) j, of i] by simp
      then show ?thesis by (simp add: mp_hi_def)
    qed simp
    then show ?thesis using assms(4) [OF i] by simp
  qed (use assms(3) in force)
  then show ?thesis
    by (auto simp: mm_at_def find_None_iff in_set_conv_nth)
qed

lemma mm_hits_none:
  assumes "\<And>x. a \<le> x \<Longrightarrow> x < a + length cs \<Longrightarrow> mm_at mcells maps x = None"
  shows "mm_hits mcells maps a cs = []"
  using assms
proof (induction cs arbitrary: a)
  case (Cons c cs)
  have "mm_at mcells maps a = None" by (rule Cons.prems) auto
  moreover have "mm_hits mcells maps (Suc a) cs = []"
    by (rule Cons.IH) (auto intro: Cons.prems)
  ultimately show ?case by (simp add: mm_hits_def List.map_filter_simps)
qed (simp add: mm_hits_def List.map_filter_simps)

lemma mm_misses_all:
  assumes "\<And>x. a \<le> x \<Longrightarrow> x < a + length cs \<Longrightarrow> mm_at mcells maps x = None"
    and "m \<in> set maps" and "a + length cs \<le> mp_hi mcells m"
  shows "mm_misses mcells maps a cs = enumerate a cs"
  unfolding mm_misses_def
  by (rule filter_True) (use assms in \<open>auto simp: in_set_enumerate_eq intro!: bexI [of _ m]\<close>)

lemma mm_misses_hit:
  assumes "\<And>x. a \<le> x \<Longrightarrow> x < a + length cs \<Longrightarrow> mm_at mcells maps x \<noteq> None"
  shows "mm_misses mcells maps a cs = []"
  unfolding mm_misses_def
  by (rule filter_False) (use assms in \<open>fastforce simp: in_set_enumerate_eq add.commute\<close>)

lemma mm_hits_run:
  assumes "\<And>j. j < length cs \<Longrightarrow> mm_at mcells maps (a + j) = Some (ms ! j)"
    and "length ms = length cs"
  shows "mm_hits mcells maps a cs = zip ms cs"
  using assms
proof (induction cs arbitrary: a ms)
  case (Cons c cs)
  then obtain m ms' where ms: "ms = m # ms'" by (cases ms) auto
  have "mm_at mcells maps a = Some m" using Cons.prems(1) [of 0] ms by simp
  moreover have "mm_hits mcells maps (Suc a) cs = zip ms' cs"
  proof (rule Cons.IH)
    fix j assume "j < length cs"
    then show "mm_at mcells maps (Suc a + j) = Some (ms' ! j)"
      using Cons.prems(1) [of "Suc j"] by (simp add: ms)
  qed (use Cons.prems(2) ms in simp)
  ultimately show ?case by (simp add: mm_hits_def List.map_filter_simps ms)
qed (simp add: mm_hits_def List.map_filter_simps)

lemma mm_beyond:
  assumes "\<And>m. m \<in> set maps \<Longrightarrow> mp_hi mcells m \<le> a"
  shows "mm_hits mcells maps a cs = []" and "mm_misses mcells maps a cs = []"
proof -
  show "mm_hits mcells maps a cs = []"
    using assms by (intro mm_hits_none) (fastforce simp: mm_at_def find_None_iff)
  show "mm_misses mcells maps a cs = []"
    unfolding mm_misses_def
    by (rule filter_False) (use assms in \<open>fastforce simp: in_set_enumerate_eq\<close>)
qed

text \<open>The binary search starts at or before the mapping the linear search finds.\<close>

lemma bs_loop_below:
  assumes "\<And>j. j < length xs \<Longrightarrow> f (xs ! j) \<noteq> Greater \<Longrightarrow> \<forall>k < j. P k"
    and "\<forall>k < base. P k" and "base + n \<le> length xs"
  shows "\<forall>k < bs_loop f xs base n. P k"
  using assms
proof (induction f xs base n rule: bs_loop.induct)
  case (1 f xs base n)
  show ?case
  proof (cases "n \<le> 1")
    case False
    let ?mid = "base + n div 2"
    have m: "?mid < length xs" using False 1(4) by linarith
    have "\<forall>k < bs_loop f xs (if f (xs ! ?mid) = Greater then base else ?mid) (n - n div 2). P k"
    proof (rule 1(1) [OF False refl refl])
      show "\<forall>k < (if f (xs ! ?mid) = Greater then base else ?mid). P k"
        using 1(2) [OF m] 1(3) by simp
      show "(if f (xs ! ?mid) = Greater then base else ?mid) + (n - n div 2) \<le> length xs"
        using 1(4) by (simp, linarith)
    qed (use 1(2) in blast)
    then show ?thesis using False by (subst bs_loop.simps) (simp add: Let_def)
  qed (use 1(3) in \<open>subst bs_loop.simps, simp\<close>)
qed

lemma bs_loop_bound: "0 < n \<Longrightarrow> bs_loop f xs base n < base + n"
proof (induction f xs base n rule: bs_loop.induct)
  case (1 f xs base n)
  show ?case
  proof (cases "n \<le> 1")
    case False
    then show ?thesis
      using 1(1) [OF False refl refl] by (subst bs_loop.simps) (auto simp: Let_def split: if_splits)
  qed (use 1(2) in \<open>subst bs_loop.simps, simp\<close>)
qed

lemma binary_search_below:
  assumes "\<And>j. j < length xs \<Longrightarrow> f (xs ! j) \<noteq> Greater \<Longrightarrow> \<forall>k < j. P k"
    and "\<And>j. j < length xs \<Longrightarrow> f (xs ! j) = Less \<Longrightarrow> P j"
    and "k < (case binary_search_by f xs of Inr i \<Rightarrow> i | Inl i \<Rightarrow> i)"
  shows "P k"
proof (cases "xs = []")
  case False
  let ?b = "bs_loop f xs 0 (length xs)"
  have "\<forall>k < ?b. P k"
    using assms(1) by (intro bs_loop_below) simp_all
  moreover have "?b < length xs" using bs_loop_bound [of "length xs" f xs 0] False by simp
  ultimately show ?thesis
    using assms(2) [of ?b] assms(3) False
    by (auto simp: binary_search_by_def Let_def less_Suc_eq split: ordering.splits)
qed (use assms(3) in \<open>simp add: binary_search_by_def\<close>)

section \<open>The iterator against the lookup\<close>

definition out_view :: "('m \<Rightarrow> 'mc list) \<Rightarrow> ('t \<Rightarrow> 'c list) \<Rightarrow> ('m \<times> 't) list \<Rightarrow> ('mc \<times> 'c) list" where
  "out_view mcells tcells outs = concat (map (\<lambda>(m, t). zip (mcells m) (tcells t)) outs)"

definition fail_view :: "('t \<Rightarrow> 'c list) \<Rightarrow> (address \<times> 't) list \<Rightarrow> (nat \<times> 'c) list" where
  "fail_view tcells fs = concat (map (\<lambda>(a, t). enumerate (unat a) (tcells t)) fs)"

definition req_hits ::
  "('m \<Rightarrow> 'mc list) \<Rightarrow> ('t \<Rightarrow> 'c list) \<Rightarrow> 'm memory_map \<Rightarrow> (address \<times> 't) list \<Rightarrow> ('mc \<times> 'c) list" where
  "req_hits mcells tcells maps q =
     concat (map (\<lambda>(a, t). mm_hits mcells maps (unat a) (tcells t)) q)"

definition req_misses ::
  "('m \<Rightarrow> 'mc list) \<Rightarrow> ('t \<Rightarrow> 'c list) \<Rightarrow> 'm memory_map \<Rightarrow> (address \<times> 't) list \<Rightarrow> (nat \<times> 'c) list" where
  "req_misses mcells tcells maps q =
     concat (map (\<lambda>(a, t). mm_misses mcells maps (unat a) (tcells t)) q)"

lemma zip_take_length: "zip (take (length ys) xs) ys = zip xs ys"
  using take_zip [of "length ys" xs ys] by simp

text \<open>
  The cut of a request at the first mapping that ends above it: a part below the mapping,
  a part inside it, and the rest, which starts at the end of the mapping.
\<close>

lemma cut_below:
  assumes "mm_wf mok mcells maps" and "i < length maps" and "a < mp_hi mcells (maps ! i)"
    and "\<forall>j < i. mp_hi mcells (maps ! j) \<le> a"
    and "length xs \<le> unat (mp_base (maps ! i)) - a"
  shows "mm_hits mcells maps a xs = []" and "mm_misses mcells maps a xs = enumerate a xs"
proof -
  have below: "mm_at mcells maps x = None" if "a \<le> x" "x < a + length xs" for x
  proof (rule mm_at_miss [OF assms(1), of i])
    show "mp_hi mcells (maps ! j) \<le> x" if "j < i" for j
      using assms(4) that \<open>a \<le> x\<close> by (meson order.trans)
  qed (use assms(2,5) that in linarith)+
  show "mm_hits mcells maps a xs = []" using below by (rule mm_hits_none)
  have "a + length xs \<le> mp_hi mcells (maps ! i)"
    using assms(3,5) by (simp add: mp_hi_def)
  then show "mm_misses mcells maps a xs = enumerate a xs"
    using assms(2) by (intro mm_misses_all [OF below, where m = "maps ! i"]) simp_all
qed

lemma cut_inside:
  assumes "mm_wf mok mcells maps" and "i < length maps"
    and "unat (mp_base (maps ! i)) \<le> a" and "a + length xs \<le> mp_hi mcells (maps ! i)"
  shows "mm_hits mcells maps a xs =
      zip (drop (a - unat (mp_base (maps ! i))) (mcells (mp_output (maps ! i)))) xs"
    and "mm_misses mcells maps a xs = []"
proof -
  let ?b = "unat (mp_base (maps ! i))" and ?out = "mcells (mp_output (maps ! i))"
  have hit: "mm_at mcells maps x = Some (?out ! (x - ?b))" if "a \<le> x" "x < a + length xs" for x
    by (rule mm_at_hit [OF assms(1,2)]) (use assms(3,4) that in linarith)+
  let ?ms = "take (length xs) (drop (a - ?b) ?out)"
  have l: "length ?ms = length xs" using assms(3,4) by (simp add: mp_hi_def)
  have "mm_at mcells maps (a + j) = Some (?ms ! j)" if "j < length xs" for j
    using hit [of "a + j"] that l assms(3) by (simp add: nth_drop)
  from mm_hits_run [OF this l] have "mm_hits mcells maps a xs = zip ?ms xs" .
  also have "zip ?ms xs = zip (drop (a - ?b) ?out) xs"
    by (simp add: zip_take_length)
  finally show "mm_hits mcells maps a xs = zip (drop (a - ?b) ?out) xs" .
  show "mm_misses mcells maps a xs = []"
    by (rule mm_misses_hit) (simp add: hit)
qed

locale memory_mapping =
  m: split_index mops mok mcells + t: split_index tops tok tcells
  for mops :: "'m split_ops" and mok and mcells :: "'m \<Rightarrow> 'mc list"
    and tops :: "'t split_ops" and tok and tcells :: "'t \<Rightarrow> 'c list"
begin

lemma unat_mp_end:
  assumes "mok (mp_output e)" and "mp_hi mcells e < 18446744073709551616"
  shows "unat (mp_end mops e) = mp_hi mcells e"
  using assms by (simp add: mp_end_def mp_hi_def address_add_def m.length_cells unat_add_nowrap)

lemma start_pos:
  assumes wf: "mm_wf mok mcells maps" and pos: "\<forall>j < pos. mp_hi mcells (maps ! j) \<le> unat addr"
  shows "\<forall>j < mi_start_pos mops maps pos addr. mp_hi mcells (maps ! j) \<le> unat addr"
    and "pos \<le> mi_start_pos mops maps pos addr"
proof -
  let ?P = "\<lambda>j. mp_hi mcells (maps ! j) \<le> unat addr"
  have le: "mp_end mops (maps ! j) \<le> addr \<longleftrightarrow> ?P j" if "j < length maps" for j
    using mm_wf_nth [OF wf that] by (simp add: word_le_nat_alt unat_mp_end)
  have 1: "\<forall>k < j. ?P k" if "j < length maps" "mi_cmp mops addr (maps ! j) \<noteq> Greater" for j
  proof (intro allI impI)
    fix k assume "k < j"
    from that have "mp_base (maps ! j) \<le> addr"
      by (simp add: mi_cmp_def not_less split: if_splits)
    then show "?P k"
      using mm_wf_nth(4) [OF wf that(1) \<open>k < j\<close>] by (simp add: word_le_nat_alt)
  qed
  have 2: "?P j" if "j < length maps" "mi_cmp mops addr (maps ! j) = Less" for j
    using that le by (simp add: mi_cmp_def split: if_splits)
  show "\<forall>j < mi_start_pos mops maps pos addr. ?P j"
  proof (intro allI impI)
    fix j assume j: "j < mi_start_pos mops maps pos addr"
    show "?P j"
    proof (cases "length maps \<ge> MIN_BSEARCH_THRESH \<and> pos = 0")
      case True
      then have "j < (case binary_search_by (mi_cmp mops addr) maps of Inr i \<Rightarrow> i | Inl i \<Rightarrow> i)"
        using j unfolding mi_start_pos_def by (simp only: if_True simp_thms)
      then show ?thesis
        by (rule binary_search_below [where P = ?P, rotated 2]) (blast dest: 1, erule (1) 2)
    next
      case False
      then have "j < pos" using j unfolding mi_start_pos_def by (simp only: if_False)
      then show ?thesis using pos by blast
    qed
  qed
  show "pos \<le> mi_start_pos mops maps pos addr" by (simp add: mi_start_pos_def)
qed

lemma find_pos:
  assumes wf: "mm_wf mok mcells maps" and pos: "\<forall>j < pos. mp_hi mcells (maps ! j) \<le> unat addr"
  obtains (none) "mi_find mops maps pos addr = None"
      "\<forall>e \<in> set maps. mp_hi mcells e \<le> unat addr"
    | (some) i where "mi_find mops maps pos addr = Some i" "pos \<le> i" "i < length maps"
      "unat addr < mp_hi mcells (maps ! i)" "\<forall>j < i. mp_hi mcells (maps ! j) \<le> unat addr"
proof (cases "mi_find mops maps pos addr")
  have le: "mp_end mops (maps ! j) > addr \<longleftrightarrow> unat addr < mp_hi mcells (maps ! j)"
    if "j < length maps" for j
    using mm_wf_nth [OF wf that] by (simp add: word_less_nat_alt unat_mp_end)
  case None
  have "\<forall>j < length maps. mp_hi mcells (maps ! j) \<le> unat addr"
  proof (intro allI impI)
    fix j assume j: "j < length maps"
    show "mp_hi mcells (maps ! j) \<le> unat addr"
      using None le [OF j] pos j by (cases "j < pos") (auto simp: mi_find_def find_None_iff)
  qed
  then have "\<forall>e \<in> set maps. mp_hi mcells e \<le> unat addr" by (metis in_set_conv_nth)
  then show ?thesis by (rule none [OF None])
next
  have le: "mp_end mops (maps ! j) > addr \<longleftrightarrow> unat addr < mp_hi mcells (maps ! j)"
    if "j < length maps" for j
    using mm_wf_nth [OF wf that] by (simp add: word_less_nat_alt unat_mp_end)
  case (Some i)
  then obtain k where k: "k < length [pos..<length maps]" "i = pos + k"
    "mp_end mops (maps ! i) > addr" "\<forall>l < k. \<not> mp_end mops (maps ! (pos + l)) > addr"
    by (auto simp: mi_find_def find_Some_iff)
  have i: "i < length maps" using k by simp
  have "\<forall>j < i. mp_hi mcells (maps ! j) \<le> unat addr"
  proof (intro allI impI)
    fix j assume j: "j < i"
    show "mp_hi mcells (maps ! j) \<le> unat addr"
    proof (cases "j < pos")
      case False
      then have "\<not> mp_end mops (maps ! j) > addr"
        using k(4) j k(2) by (metis add_diff_inverse_nat nat_add_left_cancel_less)
      then show ?thesis using le [of j] j i by simp
    qed (use pos in simp)
  qed
  then show ?thesis using some [OF Some _ i] k(2,3) le [OF i] by simp
qed

text \<open>
  One call. \<open>req\<close> is the state before it. With no mapping above the address nothing
  happens; otherwise the part below the mapping is reported, the part inside it is returned
  with the part of the mapping that backs it, and what is left is kept for the next call.
\<close>

definition req ::
  "'m memory_map \<Rightarrow> (address \<times> 't) list \<Rightarrow> (address \<times> 't) list \<Rightarrow> (address \<times> 't) option \<Rightarrow> nat
     \<Rightarrow> ('m, 't) map_iter" where
  "req maps q f c p = \<lparr>mi_map = maps, mi_in = q, mi_fail = f, mi_cur = c, mi_pos = p\<rparr>"

definition reject :: "address \<Rightarrow> 't \<Rightarrow> (address \<times> 't) list" where
  "reject addr l = (if so_length tops l > 0 then [(addr, l)] else [])"

lemma reject_view: "tok l \<Longrightarrow> fail_view tcells (reject addr l) = enumerate (unat addr) (tcells l)"
proof (cases "so_length tops l > 0")
  case False
  assume "tok l"
  with False have "tcells l = []" using t.length_cells [of l] by (simp add: word_gt_0)
  then show ?thesis using False by (simp add: fail_view_def reject_def)
qed (simp add: fail_view_def reject_def)

definition offset_to :: "'m mapping \<Rightarrow> address \<Rightarrow> usize" where
  "offset_to e addr = saturating_sub (as_usize (mp_base e)) (as_usize addr)"

lemma unat_offset_to: "unat (offset_to e addr) = unat (mp_base e) - unat addr"
  by (simp add: offset_to_def saturating_sub_def as_usize_def word_le_nat_alt unat_sub_nowrap)

lemma get_next_none:
  "mi_find mops maps (mi_start_pos mops maps pos addr) addr = None \<Longrightarrow>
     mi_get_next mops tops (req maps q f (Some (addr, buf)) pos) =
     Some (None, req maps q f None (mi_start_pos mops maps pos addr))"
  by (simp add: mi_get_next_def req_def Let_def)

lemma get_next_reject:
  "mi_find mops maps (mi_start_pos mops maps pos addr) addr = Some i \<Longrightarrow>
   so_split_at tops buf (offset_to (maps ! i) addr) = Some (l, None, buf) \<Longrightarrow>
     mi_get_next mops tops (req maps q f (Some (addr, buf)) pos) =
     Some (None, req maps q (f @ reject addr l) None (mi_start_pos mops maps pos addr))"
  by (simp add: mi_get_next_def req_def Let_def reject_def offset_to_def)

lemma get_next_piece:
  assumes "mi_find mops maps (mi_start_pos mops maps pos addr) addr = Some i"
    and "so_split_at tops buf (offset_to (maps ! i) addr) = Some (l, Some lo, buf)"
    and "a1 = address_add addr (offset_to (maps ! i) addr)"
    and "so_split_at tops lo (address_sub_addr (mp_end mops (maps ! i)) a1) = Some (ret, keep, lo)"
    and "so_split_at mops (mp_output (maps ! i)) (address_sub_addr a1 (mp_base (maps ! i))) =
      Some (ml, Some mr, mp_output (maps ! i))"
    and "so_split_at mops mr (so_length tops ret) = Some (mapped, mk, mr)"
  shows "mi_get_next mops tops (req maps q f (Some (addr, buf)) pos) =
     Some (Some (mapped, ret), case keep of
         None \<Rightarrow> mi_advance (req maps q (f @ reject addr l) None 0)
       | Some x \<Rightarrow> req maps q (f @ reject addr l) (Some (address_add a1 (so_length tops ret), x)) (i + 1))"
  using assms
  by (cases keep; cases q) (simp_all add: mi_get_next_def req_def Let_def reject_def offset_to_def mi_advance_def)

text \<open>The two splits inside the mapping at index \<open>i\<close>, on cells.\<close>

lemma piece_splits:
  assumes e: "mok (mp_output e)" "mp_hi mcells e < 18446744073709551616"
    and lo: "tok lo" and b: "unat (mp_base e) \<le> unat a1" and h: "unat a1 < mp_hi mcells e"
  obtains ret keep ml mr mapped mk where
    "so_split_at tops lo (address_sub_addr (mp_end mops e) a1) = Some (ret, keep, lo)"
    "so_split_at mops (mp_output e) (address_sub_addr a1 (mp_base e)) = Some (ml, Some mr, mp_output e)"
    "so_split_at mops mr (so_length tops ret) = Some (mapped, mk, mr)"
    "tok ret" "tcells ret = take (mp_hi mcells e - unat a1) (tcells lo)"
    "keep = None \<longleftrightarrow> length (tcells lo) \<le> mp_hi mcells e - unat a1"
    "\<forall>t. keep = Some t \<longrightarrow> tok t \<and> tcells t = drop (mp_hi mcells e - unat a1) (tcells lo)"
    "mok mapped" "mcells mapped =
       take (length (tcells ret)) (drop (unat a1 - unat (mp_base e)) (mcells (mp_output e)))"
proof -
  let ?off = "address_sub_addr (mp_end mops e) a1" and ?off2 = "address_sub_addr a1 (mp_base e)"
  have off: "unat ?off = mp_hi mcells e - unat a1"
    using unat_sub_nowrap [of a1 "mp_end mops e"] h
    unfolding address_sub_addr_def unat_mp_end [OF e] by linarith
  have off2: "unat ?off2 = unat a1 - unat (mp_base e)"
    unfolding address_sub_addr_def by (rule unat_sub_nowrap [OF b])
  obtain ret keep where r: "so_split_at tops lo ?off = Some (ret, keep, lo)" "tok ret"
    "tcells ret = take (mp_hi mcells e - unat a1) (tcells lo)"
    "keep = None \<longleftrightarrow> length (tcells lo) \<le> mp_hi mcells e - unat a1"
    "\<forall>t. keep = Some t \<longrightarrow> tok t \<and> tcells t = drop (mp_hi mcells e - unat a1) (tcells lo)"
    by (rule t.split_at_obtain [OF lo, of ?off, unfolded off])
  obtain ml mr where m: "so_split_at mops (mp_output e) ?off2 = Some (ml, mr, mp_output e)"
    "mr = None \<longleftrightarrow> length (mcells (mp_output e)) \<le> unat a1 - unat (mp_base e)"
    "\<forall>t. mr = Some t \<longrightarrow> mok t \<and> mcells t = drop (unat a1 - unat (mp_base e)) (mcells (mp_output e))"
    by (rule m.split_at_obtain [OF e(1), of ?off2, unfolded off2])
  have "\<not> length (mcells (mp_output e)) \<le> unat a1 - unat (mp_base e)"
    using b h unfolding mp_hi_def by linarith
  with m(2) have "mr \<noteq> None" by blast
  then obtain mr' where mr1: "mr = Some mr'" by blast
  note mr = mr1 m(3) [rule_format, OF mr1, THEN conjunct1] m(3) [rule_format, OF mr1, THEN conjunct2]
  obtain mapped mk where x: "so_split_at mops mr' (so_length tops ret) = Some (mapped, mk, mr')"
    "mok mapped" "mcells mapped = take (length (tcells ret)) (mcells mr')"
    by (rule m.split_at_obtain [OF mr(2), of "so_length tops ret", unfolded t.length_cells [OF r(2)]])
  show ?thesis
    by (rule that [OF r(1) m(1) [unfolded mr(1)] x(1) r(2-5) x(2) x(3) [unfolded mr(3)]])
qed

definition kept :: "(address \<times> 't) option \<Rightarrow> (address \<times> 't) list" where
  "kept k = (case k of None \<Rightarrow> [] | Some r \<Rightarrow> [r])"

lemma kept_view [simp]:
  "req_hits mcells tcells maps (kept None) = []" "req_misses mcells tcells maps (kept None) = []"
  "req_hits mcells tcells maps (kept (Some (a, t))) = mm_hits mcells maps (unat a) (tcells t)"
  "req_misses mcells tcells maps (kept (Some (a, t))) = mm_misses mcells maps (unat a) (tcells t)"
  by (simp_all add: kept_def req_hits_def req_misses_def)

text \<open>A request that reaches into the mapping, cell by cell.\<close>

lemma piece_cells:
  assumes wf: "mm_wf mok mcells maps" and i: "i < length maps" and a: "a < mp_hi mcells (maps ! i)"
    and below: "\<forall>j < i. mp_hi mcells (maps ! j) \<le> a" and b: "b = unat (mp_base (maps ! i))"
    and cs: "cs = xs @ ys @ zs" and xs: "a + length xs = max a b" and ys: "max a b + length ys \<le> mp_hi mcells (maps ! i)"
  shows "mm_hits mcells maps a cs = zip (drop (max a b - b) (mcells (mp_output (maps ! i)))) ys @
           mm_hits mcells maps (max a b + length ys) zs"
    and "mm_misses mcells maps a cs = enumerate a xs @ mm_misses mcells maps (max a b + length ys) zs"
proof -
  have x: "mm_hits mcells maps a xs = []" "mm_misses mcells maps a xs = enumerate a xs"
    using cut_below [OF wf i a below, of xs] xs b by auto
  have y: "mm_hits mcells maps (max a b) ys =
      zip (drop (max a b - b) (mcells (mp_output (maps ! i)))) ys"
    "mm_misses mcells maps (max a b) ys = []"
    using cut_inside [OF wf i, of "max a b" ys] ys b by auto
  show "mm_hits mcells maps a cs = zip (drop (max a b - b) (mcells (mp_output (maps ! i)))) ys @
           mm_hits mcells maps (max a b + length ys) zs"
    unfolding cs mm_hits_append xs x y by simp
  show "mm_misses mcells maps a cs = enumerate a xs @ mm_misses mcells maps (max a b + length ys) zs"
    unfolding cs mm_misses_append xs x y by simp
qed

lemma get_next_cases:
  assumes wf: "mm_wf mok mcells maps" and r: "tok buf"
    and pos: "\<forall>j < pos. mp_hi mcells (maps ! j) \<le> unat addr"
  obtains (stop) p fs where
    "\<And>q f. mi_get_next mops tops (req maps q f (Some (addr, buf)) pos) = Some (None, req maps q (f @ fs) None p)"
    "fail_view tcells fs = mm_misses mcells maps (unat addr) (tcells buf)"
    "mm_hits mcells maps (unat addr) (tcells buf) = []"
  | (piece) p fs mapped ret keep where
    "\<And>q f. mi_get_next mops tops (req maps q f (Some (addr, buf)) pos) =
       Some (Some (mapped, ret), case keep of
           None \<Rightarrow> mi_advance (req maps q (f @ fs) None 0)
         | Some x \<Rightarrow> req maps q (f @ fs) (Some x) p)"
    "mok mapped" "tok ret" "length (mcells mapped) = length (tcells ret)"
    "fail_view tcells fs @ req_misses mcells tcells maps (kept keep) =
       mm_misses mcells maps (unat addr) (tcells buf)"
    "zip (mcells mapped) (tcells ret) @ req_hits mcells tcells maps (kept keep) =
       mm_hits mcells maps (unat addr) (tcells buf)"
    "\<forall>x. keep = Some x \<longrightarrow> tok (snd x) \<and> pos < p \<and> p \<le> length maps \<and>
       (\<forall>j < p. mp_hi mcells (maps ! j) \<le> unat (fst x))"
proof -
  let ?p = "mi_start_pos mops maps pos addr" and ?cs = "tcells buf" and ?a = "unat addr"
  have tok: "tok buf" using r by simp
  note sp = start_pos [OF wf pos]
  show ?thesis
  proof (rule find_pos [OF wf sp(1)])
    assume n: "mi_find mops maps ?p addr = None" "\<forall>e \<in> set maps. mp_hi mcells e \<le> ?a"
    show thesis
    proof (rule stop [where p = ?p and fs = "[]"])
      show "fail_view tcells [] = mm_misses mcells maps ?a ?cs"
        using mm_beyond(2) [of maps mcells ?a ?cs] n(2) by (simp add: fail_view_def)
      show "mm_hits mcells maps ?a ?cs = []"
        using mm_beyond(1) [of maps mcells ?a ?cs] n(2) by simp
    qed (simp add: get_next_none [OF n(1)])
  next
    fix i
    assume i: "mi_find mops maps ?p addr = Some i" "?p \<le> i" "i < length maps"
      "?a < mp_hi mcells (maps ! i)" "\<forall>j < i. mp_hi mcells (maps ! j) \<le> ?a"
    let ?e = "maps ! i" and ?h = "mp_hi mcells (maps ! i)" and ?b = "unat (mp_base (maps ! i))"
    let ?M = "max ?a ?b"
    note e = mm_wf_nth [OF wf i(3)]
    obtain l k where s: "so_split_at tops buf (offset_to ?e addr) = Some (l, k, buf)" "tok l"
      "tcells l = take (?b - ?a) ?cs" "k = None \<longleftrightarrow> length ?cs \<le> ?b - ?a"
      "\<forall>t. k = Some t \<longrightarrow> tok t \<and> tcells t = drop (?b - ?a) ?cs"
      by (rule t.split_at_obtain [OF tok, of "offset_to ?e addr", unfolded unat_offset_to])
    have fv: "fail_view tcells (reject addr l) = enumerate ?a (take (?b - ?a) ?cs)"
      unfolding reject_view [OF s(2)] s(3) ..
    show thesis
    proof (cases k)
      case None
      then have "length ?cs \<le> ?b - ?a" using s(4) by simp
      with cut_below [OF wf i(3,4,5) this] fv show thesis
        by (intro stop [where p = ?p and fs = "reject addr l"])
          (simp_all add: get_next_reject [OF i(1) s(1) [unfolded None]])
    next
      case (Some lo)
      have b: "?b - ?a < length ?cs" and lo: "tok lo" "tcells lo = drop (?b - ?a) ?cs"
        using s(4,5) Some by auto
      define a1 where "a1 = address_add addr (offset_to ?e addr)"
      have M: "?M < ?h" using i(4) mp_hi_gt [of mcells ?e, OF e(2)] by simp
      have a1: "unat a1 = ?M"
        using M e(3) unat_add_nowrap [of addr "offset_to ?e addr"]
        unfolding a1_def address_add_def unat_offset_to by linarith
      have b1: "?b \<le> unat a1" "unat a1 < ?h" using a1 M by linarith+
      obtain ret keep ml mr mapped mk where ps:
        "so_split_at tops lo (address_sub_addr (mp_end mops ?e) a1) = Some (ret, keep, lo)"
        "so_split_at mops (mp_output ?e) (address_sub_addr a1 (mp_base ?e)) = Some (ml, Some mr, mp_output ?e)"
        "so_split_at mops mr (so_length tops ret) = Some (mapped, mk, mr)"
        "tok ret" "tcells ret = take (?h - unat a1) (tcells lo)"
        "keep = None \<longleftrightarrow> length (tcells lo) \<le> ?h - unat a1"
        "\<forall>t. keep = Some t \<longrightarrow> tok t \<and> tcells t = drop (?h - unat a1) (tcells lo)"
        "mok mapped" "mcells mapped =
           take (length (tcells ret)) (drop (unat a1 - ?b) (mcells (mp_output ?e)))"
        by (rule piece_splits [OF e(1,3) lo(1) b1])
      let ?keep = "map_option (\<lambda>x. (address_add a1 (so_length tops ret), x)) keep"
      have run: "mi_get_next mops tops (req maps q f (Some (addr, buf)) pos) =
         Some (Some (mapped, ret), case ?keep of
             None \<Rightarrow> mi_advance (req maps q (f @ reject addr l) None 0)
           | Some x \<Rightarrow> req maps q (f @ reject addr l) (Some x) (i + 1))" for q f
        unfolding get_next_piece [OF i(1) s(1) [unfolded Some] a1_def ps(1-3)]
        by (cases keep) simp_all
      let ?zs = "drop (?h - ?M) (tcells lo)"
      have cs: "?cs = take (?b - ?a) ?cs @ tcells ret @ ?zs"
        unfolding ps(5) a1 lo(2) append_take_drop_id ..
      have xs: "?a + length (take (?b - ?a) ?cs) = ?M" using b by simp
      have ys: "?M + length (tcells ret) \<le> ?h"
        using M unfolding ps(5) a1 length_take by linarith
      note cells = piece_cells [OF wf i(3-5) refl cs xs ys]
      have next_addr: "unat (address_add a1 (so_length tops ret)) = ?M + length (tcells ret)"
        using unat_add_nowrap [of a1 "so_length tops ret"] t.length_cells [OF ps(4)] a1 ys e(3)
        unfolding address_add_def by linarith
      have none: "?zs = []" if "keep = None"
        unfolding drop_eq_Nil using ps(6) that unfolding a1 by blast
      have some: "tok t" "tcells t = ?zs" "length (tcells ret) = ?h - ?M" "?h - ?M < length (tcells lo)" if k: "keep = Some t" for t
      proof -
        show "tok t" "tcells t = ?zs"
          using ps(7) [rule_format, OF k] unfolding a1 by blast+
        have "keep \<noteq> None" using k by simp
        then have "\<not> length (tcells lo) \<le> ?h - ?M" using ps(6) unfolding a1 by blast
        then show "length (tcells ret) = ?h - ?M" "?h - ?M < length (tcells lo)"
          unfolding ps(5) a1 length_take by linarith+
      qed
      have "req_hits mcells tcells maps (kept ?keep) = mm_hits mcells maps (?M + length (tcells ret)) ?zs \<and>
        req_misses mcells tcells maps (kept ?keep) = mm_misses mcells maps (?M + length (tcells ret)) ?zs"
      proof (cases keep)
        case None
        show ?thesis
          unfolding none [OF None] by (simp add: None mm_hits_def mm_misses_def List.map_filter_simps)
      next
        case (Some t)
        show ?thesis
          unfolding some(2) [OF Some, symmetric] by (simp add: Some next_addr)
      qed
      then have rest: "req_hits mcells tcells maps (kept ?keep) = mm_hits mcells maps (?M + length (tcells ret)) ?zs"
        "req_misses mcells tcells maps (kept ?keep) = mm_misses mcells maps (?M + length (tcells ret)) ?zs"
        by blast+
      have lret: "length (tcells ret) \<le> length (mcells (mp_output ?e)) - (?M - ?b)"
        using ys M by (simp add: mp_hi_def)
      show thesis
      proof (rule piece [OF run ps(8,4)])
        show "length (mcells mapped) = length (tcells ret)"
          using lret unfolding ps(9) a1 by simp
        show "fail_view tcells (reject addr l) @ req_misses mcells tcells maps (kept ?keep) =
            mm_misses mcells maps ?a ?cs"
          unfolding cells(2) rest fv ..
        show "zip (mcells mapped) (tcells ret) @ req_hits mcells tcells maps (kept ?keep) =
            mm_hits mcells maps ?a ?cs"
          unfolding cells(1) rest ps(9) a1 zip_take_length ..
        show "\<forall>x. ?keep = Some x \<longrightarrow> tok (snd x) \<and> pos < i + 1 \<and>
            i + 1 \<le> length maps \<and> (\<forall>j < i + 1. mp_hi mcells (maps ! j) \<le> unat (fst x))"
        proof (intro allI impI)
          fix x assume "?keep = Some x"
          then obtain t where t: "keep = Some t" "x = (address_add a1 (so_length tops ret), t)" by auto
          have h: "unat (fst x) = ?h" using t(2) next_addr some(3) [OF t(1)] M by simp
          have "tok (snd x)" using some(1) [OF t(1)] t(2) by simp
          moreover have "\<forall>j < i + 1. mp_hi mcells (maps ! j) \<le> unat (fst x)"
            using mm_hi_mono [OF wf _ i(3)] h by simp
          ultimately show "tok (snd x) \<and> pos < i + 1 \<and>
            i + 1 \<le> length maps \<and> (\<forall>j < i + 1. mp_hi mcells (maps ! j) \<le> unat (fst x))"
            using i(2,3) sp(2) by simp
        qed
      qed
    qed
  qed
qed

lemma req_simps [simp]:
  "mi_map (req maps q f c p) = maps" "mi_in (req maps q f c p) = q" "mi_fail (req maps q f c p) = f"
  "mi_cur (req maps q f c p) = c" "mi_pos (req maps q f c p) = p"
  "(req maps q f c p)\<lparr>mi_pos := p'\<rparr> = req maps q f c p'"
  "mi_advance (req maps [] f c p) = req maps [] f None p"
  "mi_advance (req maps (r # q) f c p) = req maps q f (Some r) p"
  by (simp_all add: req_def mi_advance_def)

lemma next_some: "mi_next mops tops (req maps q f (Some c) p) = mi_loop mops tops (req maps q f (Some c) p)"
  by (simp add: mi_next_def)

lemma next_request:
  "mi_next mops tops (req maps (r # q) f None p) = mi_next mops tops (req maps q f (Some r) p)"
  by (simp add: mi_next_def)

lemma next_empty: "mi_next mops tops (req maps [] f None p) = Some (None, req maps [] f None p)"
  by (simp add: mi_next_def) (subst mi_loop.simps, simp)

lemma next_advance:
  "mi_next mops tops (mi_advance (req maps q f None p)) = mi_next mops tops (req maps q f None p)"
  by (cases q) (simp_all add: next_request)

lemma loop_stop:
  "mi_get_next mops tops (req maps q f (Some c) pos) = Some (None, req maps q f' None p) \<Longrightarrow>
     mi_next mops tops (req maps q f (Some c) pos) = mi_next mops tops (req maps q f' None 0)"
  unfolding next_some
  by (subst mi_loop.simps) (cases q; simp add: mi_next_def)

lemma loop_piece:
  "mi_get_next mops tops (req maps q f (Some c) pos) = Some (Some x, s') \<Longrightarrow>
     mi_next mops tops (req maps q f (Some c) pos) = Some (Some x, s')"
  unfolding next_some by (subst mi_loop.simps) simp

text \<open>What the iterator gives from a state on, whatever was reported before.\<close>

definition gives ::
  "'m memory_map \<Rightarrow> (address \<times> 't) list \<Rightarrow> (address \<times> 't) option \<Rightarrow> nat
     \<Rightarrow> ('mc \<times> 'c) list \<Rightarrow> (nat \<times> 'c) list \<Rightarrow> bool" where
  "gives maps q c p hits misses \<longleftrightarrow>
     (\<forall>f. \<exists>outs fs s'.
        yields (mi_next mops tops) (req maps q f c p) outs s' \<and> mi_fail s' = f @ fs \<and> mi_map s' = maps \<and>
        (\<forall>(m, t) \<in> set outs. mok m \<and> tok t \<and> length (mcells m) = length (tcells t)) \<and>
        out_view mcells tcells outs = hits \<and> fail_view tcells fs = misses)"

lemma fail_view_append: "fail_view tcells (xs @ ys) = fail_view tcells xs @ fail_view tcells ys"
  by (simp add: fail_view_def)

lemma gives_stop:
  assumes "\<And>f. mi_next mops tops (req maps q f c p) = mi_next mops tops (req maps q' (f @ fs) c' p')"
    and "gives maps q' c' p' hits misses"
  shows "gives maps q c p hits (fail_view tcells fs @ misses)"
  unfolding gives_def
proof
  fix f
  obtain outs gs s' where g: "yields (mi_next mops tops) (req maps q' (f @ fs) c' p') outs s'"
    "mi_fail s' = (f @ fs) @ gs" "mi_map s' = maps"
    "\<forall>(m, t) \<in> set outs. mok m \<and> tok t \<and> length (mcells m) = length (tcells t)"
    "out_view mcells tcells outs = hits" "fail_view tcells gs = misses"
    using assms(2) unfolding gives_def by blast
  have "yields (mi_next mops tops) (req maps q f c p) outs s'"
    using g(1) yields_cong [OF assms(1)] by blast
  then show "\<exists>outs fsa s'. yields (mi_next mops tops) (req maps q f c p) outs s' \<and> mi_fail s' = f @ fsa \<and> mi_map s' = maps \<and>
      (\<forall>(m, t) \<in> set outs. mok m \<and> tok t \<and> length (mcells m) = length (tcells t)) \<and>
      out_view mcells tcells outs = hits \<and> fail_view tcells fsa = fail_view tcells fs @ misses"
    using g(2-6) by (intro exI [of _ outs] exI [of _ "fs @ gs"] exI [of _ s']) (simp add: fail_view_append)
qed

lemma gives_piece:
  assumes "\<And>f. \<exists>s. mi_next mops tops (req maps q f c p) = Some (Some (m, t), s) \<and>
      mi_next mops tops s = mi_next mops tops (req maps q' (f @ fs) c' p')"
    and "mok m" "tok t" "length (mcells m) = length (tcells t)"
    and "gives maps q' c' p' hits misses"
  shows "gives maps q c p (zip (mcells m) (tcells t) @ hits) (fail_view tcells fs @ misses)"
  unfolding gives_def
proof
  fix f
  obtain s where s: "mi_next mops tops (req maps q f c p) = Some (Some (m, t), s)"
    "mi_next mops tops s = mi_next mops tops (req maps q' (f @ fs) c' p')"
    using assms(1) by blast
  obtain outs gs s' where g: "yields (mi_next mops tops) (req maps q' (f @ fs) c' p') outs s'"
    "mi_fail s' = (f @ fs) @ gs" "mi_map s' = maps"
    "\<forall>(m, t) \<in> set outs. mok m \<and> tok t \<and> length (mcells m) = length (tcells t)"
    "out_view mcells tcells outs = hits" "fail_view tcells gs = misses"
    using assms(5) unfolding gives_def by blast
  have "yields (mi_next mops tops) (req maps q f c p) ((m, t) # outs) s'"
    using g(1) yields_cong [OF s(2)] s(1) by auto
  then show "\<exists>outs fsa s'. yields (mi_next mops tops) (req maps q f c p) outs s' \<and> mi_fail s' = f @ fsa \<and> mi_map s' = maps \<and>
      (\<forall>(m, t) \<in> set outs. mok m \<and> tok t \<and> length (mcells m) = length (tcells t)) \<and>
      out_view mcells tcells outs = zip (mcells m) (tcells t) @ hits \<and>
      fail_view tcells fsa = fail_view tcells fs @ misses"
    using g(2-6) assms(2-4)
    by (intro exI [of _ "(m, t) # outs"] exI [of _ "fs @ gs"] exI [of _ s'])
      (simp add: fail_view_append out_view_def)
qed

lemma gives_request:
  assumes wf: "mm_wf mok mcells maps" and q: "gives maps q None 0 H M"
  shows "tok buf \<Longrightarrow> \<forall>j < pos. mp_hi mcells (maps ! j) \<le> unat addr \<Longrightarrow>
     gives maps q (Some (addr, buf)) pos
       (mm_hits mcells maps (unat addr) (tcells buf) @ H)
       (mm_misses mcells maps (unat addr) (tcells buf) @ M)"
proof (induction "length maps - pos" arbitrary: addr buf pos rule: less_induct)
  case less
  show ?case
  proof (rule get_next_cases [OF wf less.prems])
    fix p fs
    assume s: "\<And>q f. mi_get_next mops tops (req maps q f (Some (addr, buf)) pos) = Some (None, req maps q (f @ fs) None p)"
      "fail_view tcells fs = mm_misses mcells maps (unat addr) (tcells buf)"
      "mm_hits mcells maps (unat addr) (tcells buf) = []"
    show ?thesis
      using gives_stop [OF loop_stop [OF s(1)] q] unfolding s(2,3) by simp
  next
    fix p fs mapped ret keep
    assume s: "\<And>q f. mi_get_next mops tops (req maps q f (Some (addr, buf)) pos) =
       Some (Some (mapped, ret), case keep of
           None \<Rightarrow> mi_advance (req maps q (f @ fs) None 0)
         | Some x \<Rightarrow> req maps q (f @ fs) (Some x) p)"
      and m: "mok mapped" "tok ret" "length (mcells mapped) = length (tcells ret)"
      and v: "fail_view tcells fs @ req_misses mcells tcells maps (kept keep) =
        mm_misses mcells maps (unat addr) (tcells buf)"
      "zip (mcells mapped) (tcells ret) @ req_hits mcells tcells maps (kept keep) =
        mm_hits mcells maps (unat addr) (tcells buf)"
      and k: "\<forall>x. keep = Some x \<longrightarrow> tok (snd x) \<and> pos < p \<and> p \<le> length maps \<and>
       (\<forall>j < p. mp_hi mcells (maps ! j) \<le> unat (fst x))"
    have "\<exists>c' p'. gives maps q c' p' (req_hits mcells tcells maps (kept keep) @ H)
            (req_misses mcells tcells maps (kept keep) @ M) \<and>
          (\<forall>f. \<exists>s. mi_next mops tops (req maps q f (Some (addr, buf)) pos) = Some (Some (mapped, ret), s) \<and>
            mi_next mops tops s = mi_next mops tops (req maps q (f @ fs) c' p'))"
    proof (cases keep)
      case None
      have "\<exists>s. mi_next mops tops (req maps q f (Some (addr, buf)) pos) = Some (Some (mapped, ret), s) \<and>
          mi_next mops tops s = mi_next mops tops (req maps q (f @ fs) None 0)" for f
        using loop_piece [OF s [of q f]] next_advance unfolding None option.case(1) by blast
      then show ?thesis using q unfolding None kept_view append_Nil by blast
    next
      case (Some x)
      obtain a' b' where x: "x = (a', b')" by (cases x)
      note kx = k [rule_format, OF Some]
      have "length maps - p < length maps - pos" using kx by linarith
      then have g: "gives maps q (Some x) p (req_hits mcells tcells maps (kept keep) @ H)
            (req_misses mcells tcells maps (kept keep) @ M)"
        using less.hyps [of p b' a'] kx unfolding Some x kept_view fst_conv snd_conv by blast
      have "\<exists>s. mi_next mops tops (req maps q f (Some (addr, buf)) pos) = Some (Some (mapped, ret), s) \<and>
          mi_next mops tops s = mi_next mops tops (req maps q (f @ fs) (Some x) p)" for f
        using loop_piece [OF s [of q f]] unfolding Some option.case(2) by blast
      then show ?thesis using g by blast
    qed
    then obtain c' p' where g: "gives maps q c' p' (req_hits mcells tcells maps (kept keep) @ H)
            (req_misses mcells tcells maps (kept keep) @ M)"
      "\<And>f. \<exists>s. mi_next mops tops (req maps q f (Some (addr, buf)) pos) = Some (Some (mapped, ret), s) \<and>
            mi_next mops tops s = mi_next mops tops (req maps q (f @ fs) c' p')"
      by blast
    show ?thesis
      using gives_piece [OF g(2) m g(1)] unfolding append_assoc [symmetric] v .
  qed
qed

lemma gives_requests:
  assumes wf: "mm_wf mok mcells maps"
  shows "\<forall>r \<in> set q. tok (snd r) \<Longrightarrow>
     gives maps q None 0 (req_hits mcells tcells maps q) (req_misses mcells tcells maps q)"
proof (induction q)
  case Nil
  show ?case unfolding gives_def
  proof
    fix f
    show "\<exists>outs fs s'. yields (mi_next mops tops) (req maps [] f None 0) outs s' \<and> mi_fail s' = f @ fs \<and> mi_map s' = maps \<and>
        (\<forall>(m, t) \<in> set outs. mok m \<and> tok t \<and> length (mcells m) = length (tcells t)) \<and>
        out_view mcells tcells outs = req_hits mcells tcells maps [] \<and>
        fail_view tcells fs = req_misses mcells tcells maps []"
      by (rule exI [of _ "[]"], rule exI [of _ "[]"], rule exI [of _ "req maps [] f None 0"])
        (simp add: next_empty out_view_def fail_view_def req_hits_def req_misses_def)
  qed
next
  case (Cons r q)
  obtain a b where r: "r = (a, b)" by (cases r)
  have "gives maps q None 0 (req_hits mcells tcells maps q) (req_misses mcells tcells maps q)"
    using Cons by simp
  then have "gives maps q (Some (a, b)) 0
       (mm_hits mcells maps (unat a) (tcells b) @ req_hits mcells tcells maps q)
       (mm_misses mcells maps (unat a) (tcells b) @ req_misses mcells tcells maps q)"
    using Cons.prems r by (intro gives_request [OF wf]) simp_all
  from gives_stop [OF _ this, of "r # q" None 0 "[]"] show ?case
    by (simp add: next_request r fail_view_def req_hits_def req_misses_def)
qed

text \<open>
  The whole iteration: it ends without a panic, and what it yields and reports is what the
  lookup of each address says.
\<close>

lemma map_yields:
  assumes "mm_wf mok mcells maps" and "\<forall>r \<in> set q. tok (snd r)"
  obtains outs fs s' where "yields (mi_next mops tops) (mi_new maps q f) outs s'"
    "mi_fail s' = f @ fs" "mi_map s' = maps"
    "\<forall>(m, t) \<in> set outs. mok m \<and> tok t \<and> length (mcells m) = length (tcells t)"
    "out_view mcells tcells outs = req_hits mcells tcells maps q"
    "fail_view tcells fs = req_misses mcells tcells maps q"
proof -
  have n: "mi_new maps q f = req maps q f None 0" by (simp add: mi_new_def req_def)
  show thesis
    using spec [OF gives_requests [OF assms, unfolded gives_def], of f]
    by (elim exE conjE) (rule that [unfolded n])
qed

end

text \<open>
  The instances of the code: maps to address ranges (\<open>FileIOMemory\<close>), to shared and to
  exclusive slices (\<open>MappedPhysicalMemory\<close>), each for buffers to read into and to write
  from.
\<close>

interpretation remap_read: memory_mapping "pair_ops usize_ops" "pair_ok (\<lambda>_. True)"
  "pair_cells usize_cells" mut_slice_ops mut_slice_ok mut_slice_cells
  by (intro memory_mapping.intro usize_split.split_index_pair mut_slice_split.split_index_axioms)

interpretation remap_write: memory_mapping "pair_ops usize_ops" "pair_ok (\<lambda>_. True)"
  "pair_cells usize_cells" slice_ops slice_ok "\<lambda>xs. xs"
  by (intro memory_mapping.intro usize_split.split_index_pair slice_split.split_index_axioms)

interpretation shared_read: memory_mapping slice_ops slice_ok "\<lambda>xs. xs"
  mut_slice_ops mut_slice_ok mut_slice_cells
  by (intro memory_mapping.intro slice_split.split_index_axioms mut_slice_split.split_index_axioms)

interpretation exclusive_read: memory_mapping mut_slice_ops mut_slice_ok mut_slice_cells
  mut_slice_ops mut_slice_ok mut_slice_cells
  by (intro memory_mapping.intro mut_slice_split.split_index_axioms)

interpretation exclusive_write: memory_mapping mut_slice_ops mut_slice_ok mut_slice_cells
  slice_ops slice_ok "\<lambda>xs. xs"
  by (intro memory_mapping.intro slice_split.split_index_axioms mut_slice_split.split_index_axioms)

section \<open>Insertion\<close>

lemma mm_at_in:
  assumes "mm_wf mok mcells maps" and "m \<in> set maps"
    and "unat (mp_base m) \<le> x" and "x < mp_hi mcells m"
  shows "mm_at mcells maps x = Some (mcells (mp_output m) ! (x - unat (mp_base m)))"
  using assms(2-4) mm_at_hit [OF assms(1)] by (metis in_set_conv_nth)

lemma mm_at_out:
  assumes "\<And>m. m \<in> set maps \<Longrightarrow> \<not> (unat (mp_base m) \<le> x \<and> x < mp_hi mcells m)"
  shows "mm_at mcells maps x = None"
  using assms by (auto simp: mm_at_def find_None_iff)

lemma mm_at_insert:
  assumes "mm_wf mok mcells maps" and "mm_wf mok mcells maps'" and "set maps' = insert m (set maps)"
  shows "mm_at mcells maps' x =
     (if unat (mp_base m) \<le> x \<and> x < mp_hi mcells m
      then Some (mcells (mp_output m) ! (x - unat (mp_base m))) else mm_at mcells maps x)"
proof (cases "\<exists>e \<in> set maps'. unat (mp_base e) \<le> x \<and> x < mp_hi mcells e")
  case True
  then obtain e where e: "e \<in> set maps'" "unat (mp_base e) \<le> x" "x < mp_hi mcells e" by blast
  show ?thesis
  proof (cases "unat (mp_base m) \<le> x \<and> x < mp_hi mcells m")
    case True
    then show ?thesis using mm_at_in [OF assms(2), of m x] assms(3) by simp
  next
    case False
    then have "e \<in> set maps" using e assms(3) by auto
    then show ?thesis
      using mm_at_in [OF assms(2) e] mm_at_in [OF assms(1) _ e(2,3)]
      unfolding if_not_P [OF False] by simp
  qed
next
  case False
  then have "mm_at mcells maps' x = None" "mm_at mcells maps x = None"
    using assms(3) by (intro mm_at_out; blast)+
  then show ?thesis using False assms(3) by simp
qed

definition new_overlap :: "('m \<Rightarrow> 'mc list) \<Rightarrow> nat \<Rightarrow> nat \<Rightarrow> 'm mapping \<Rightarrow> bool" where
  "new_overlap mcells a e m \<longleftrightarrow>
     unat (mp_base m) \<le> a \<and> a < mp_hi mcells m \<or> unat (mp_base m) \<le> e \<and> e < mp_hi mcells m"

text \<open>Where the scan of the first \<open>n\<close> mappings inserts, when none of them overlaps.\<close>

definition insert_pos :: "('m \<Rightarrow> 'mc list) \<Rightarrow> 'm memory_map \<Rightarrow> nat \<Rightarrow> nat \<Rightarrow> nat \<Rightarrow> nat \<Rightarrow> bool" where
  "insert_pos mcells maps a sh n idx \<longleftrightarrow>
     idx = sh \<and> (\<forall>j < n. \<not> mp_hi mcells (maps ! j) \<le> a) \<or>
     0 < idx \<and> idx \<le> n \<and> mp_hi mcells (maps ! (idx - 1)) \<le> a \<and>
       (\<forall>j. idx \<le> j \<and> j < n \<longrightarrow> \<not> mp_hi mcells (maps ! j) \<le> a)"

context split_index
begin

lemma map_end:
  assumes "mm_wf ok cells maps" and "j < length maps"
  shows "unat (mp_end ops (maps ! j)) = mp_hi cells (maps ! j)"
  using mm_wf_nth [OF assms]
  by (simp add: mp_end_def mp_hi_def address_add_def length_cells unat_add_nowrap)

lemma push_overlap_nat:
  assumes "mm_wf ok cells maps" and "j < length maps"
  shows "push_overlap ops a e (maps ! j) = new_overlap cells (unat a) (unat e) (maps ! j)"
  by (simp add: push_overlap_def new_overlap_def word_le_nat_alt word_less_nat_alt map_end [OF assms])

lemma insert_pos_Suc:
  "insert_pos cells maps a sh n idx \<Longrightarrow> \<not> mp_hi cells (maps ! n) \<le> a \<Longrightarrow> insert_pos cells maps a sh (Suc n) idx"
  unfolding insert_pos_def by (metis le_SucI less_Suc_eq)

lemma push_scan_step:
  assumes "mm_wf ok cells maps" and "i < length maps"
  shows "push_scan ops maps a e sh (Suc i) =
     (if new_overlap cells (unat a) (unat e) (maps ! i) then None
      else if mp_hi cells (maps ! i) \<le> unat a then Some (i + 1) else push_scan ops maps a e sh i)"
  by (simp add: push_overlap_nat [OF assms] word_le_nat_alt map_end [OF assms])

lemma below_no_overlap:
  assumes "mm_wf ok cells maps" and "i < length maps" and "j \<le> i"
    and "mp_hi cells (maps ! i) \<le> a" and "a \<le> e"
  shows "\<not> new_overlap cells a e (maps ! j)"
  using mm_hi_mono [OF assms(1,3,2)] assms(4,5) by (simp add: new_overlap_def)

lemma push_scan_panics:
  assumes "mm_wf ok cells maps" and "unat a \<le> unat e" and "n \<le> length maps"
    and "\<exists>j < n. new_overlap cells (unat a) (unat e) (maps ! j)"
  shows "push_scan ops maps a e sh n = None"
  using assms(3,4)
proof (induction n)
  case (Suc i)
  then have i: "i < length maps" by simp
  show ?case
  proof (cases "new_overlap cells (unat a) (unat e) (maps ! i)")
    case False
    then have j: "\<exists>j < i. new_overlap cells (unat a) (unat e) (maps ! j)"
      using Suc.prems(2) less_Suc_eq by blast
    then have "\<not> mp_hi cells (maps ! i) \<le> unat a"
      using below_no_overlap [OF assms(1) i _ _ assms(2)] less_imp_le by blast
    then show ?thesis
      using Suc.IH j i False by (simp add: push_scan_step [OF assms(1) i] del: push_scan.simps)
  qed (simp add: push_scan_step [OF assms(1) i] del: push_scan.simps)
qed simp

lemma push_scan_inserts:
  assumes "mm_wf ok cells maps" and "unat a \<le> unat e" and "n \<le> length maps"
    and "\<forall>j < n. \<not> new_overlap cells (unat a) (unat e) (maps ! j)"
  shows "\<exists>idx. push_scan ops maps a e sh n = Some idx \<and> insert_pos cells maps (unat a) sh n idx"
  using assms(3,4)
proof (induction n)
  case (Suc i)
  then have i: "i < length maps" by simp
  have no: "\<not> new_overlap cells (unat a) (unat e) (maps ! i)" using Suc.prems(2) by simp
  show ?case
  proof (cases "mp_hi cells (maps ! i) \<le> unat a")
    case True
    then show ?thesis
      using no by (simp add: push_scan_step [OF assms(1) i] insert_pos_def del: push_scan.simps)
  next
    case False
    obtain idx where "push_scan ops maps a e sh i = Some idx" "insert_pos cells maps (unat a) sh i idx"
      using Suc by force
    then show ?thesis
      using False no insert_pos_Suc by (simp add: push_scan_step [OF assms(1) i] del: push_scan.simps)
  qed
qed (simp add: insert_pos_def)

lemma insert_keeps_order:
  assumes wf: "mm_wf ok cells maps" and m: "ok (mp_output m)" "cells (mp_output m) \<noteq> []"
    "mp_hi cells m < 18446744073709551616"
    and apart: "\<forall>e \<in> set maps. mp_hi cells e \<le> unat (mp_base m) \<or> mp_hi cells m \<le> unat (mp_base e)"
    and idx: "insert_pos cells maps (unat (mp_base m)) sh (length maps) idx"
    and sh: "maps = [] \<or> (\<exists>e \<in> set maps. mp_hi cells e \<le> unat (mp_base m))"
  shows "mm_wf ok cells (take idx maps @ [m] @ drop idx maps)"
proof -
  let ?a = "unat (mp_base m)"
  have lo: "mp_hi cells e \<le> ?a" if e: "e \<in> set (take idx maps)" for e
  proof -
    obtain j where "j < length (take idx maps)" "e = take idx maps ! j"
      using e unfolding in_set_conv_nth by blast
    then have j: "j < idx" "j < length maps" "e = maps ! j" by simp_all
    have "maps \<noteq> []" using j(2) by auto
    with sh obtain e0 where e0: "e0 \<in> set maps" "mp_hi cells e0 \<le> ?a" by blast
    obtain k where k: "k < length maps" "maps ! k = e0"
      using e0(1) unfolding in_set_conv_nth by blast
    have "\<not> (idx = sh \<and> (\<forall>j < length maps. \<not> mp_hi cells (maps ! j) \<le> ?a))"
      using k e0(2) by blast
    with idx have i: "0 < idx" "idx \<le> length maps" "mp_hi cells (maps ! (idx - 1)) \<le> ?a"
      unfolding insert_pos_def by argo+
    have "j \<le> idx - 1" "idx - 1 < length maps" using i j by linarith+
    then show ?thesis using mm_hi_mono [OF wf, of j "idx - 1"] i(3) j(3) by simp
  qed
  have hi: "mp_hi cells m \<le> unat (mp_base e)" if e: "e \<in> set (drop idx maps)" for e
  proof -
    obtain j where "j < length (drop idx maps)" "e = drop idx maps ! j"
      using e unfolding in_set_conv_nth by blast
    then have j: "idx + j < length maps" "e = maps ! (idx + j)" by simp_all
    then have "\<not> mp_hi cells e \<le> ?a"
      using idx unfolding insert_pos_def by auto
    then show ?thesis using apart in_set_dropD [OF e] by blast
  qed
  let ?P = "\<lambda>x y. mp_hi cells x \<le> unat (mp_base y)"
  have "sorted_wrt ?P (take idx maps @ drop idx maps)"
    using wf by (simp add: mm_wf_def)
  then have "sorted_wrt ?P (take idx maps)" "sorted_wrt ?P (drop idx maps)"
    "\<forall>x \<in> set (take idx maps). \<forall>y \<in> set (drop idx maps). ?P x y"
    unfolding sorted_wrt_append by blast+
  then have "sorted_wrt ?P (take idx maps @ [m] @ drop idx maps)"
    using lo hi by (simp add: sorted_wrt_append ball_Un)
  then show ?thesis
    using wf m by (auto simp: mm_wf_def dest: in_set_takeD in_set_dropD)
qed

end

section \<open>Properties\<close>

text \<open>
  C14. Mapping requests, for every pair of types that meet the \<open>SplitAtIndex\<close> contract: over
  mappings in order, the iteration over any requests ends without a panic;
  each yielded pair has equal lengths; the pairs joined byte by byte are exactly the bytes
  of the requests that a mapping backs, each with the byte of the mapping that backs it, in
  request order; and the failures are the bytes no mapping backs, save those above the last
  mapping, which are reported nowhere. The binary search used from 32 mappings on changes
  nothing.
\<close>

theorem mem_map_is_lookup:
  assumes "split_index mops mok mcells" and "split_index tops tok tcells"
    and "mm_wf mok mcells maps"
    and "\<forall>r \<in> set reqs. tok (snd r)"
  shows "\<exists>outs fails. mapped_all mops tops (mi_new maps reqs []) = Some (outs, fails) \<and>
     (\<forall>(m, t) \<in> set outs. length (mcells m) = length (tcells t)) \<and>
     concat (map (\<lambda>(m, t). zip (mcells m) (tcells t)) outs) =
       concat (map (\<lambda>(a, t). mm_hits mcells maps (unat a) (tcells t)) reqs) \<and>
     concat (map (\<lambda>(a, t). enumerate (unat a) (tcells t)) fails) =
       concat (map (\<lambda>(a, t). mm_misses mcells maps (unat a) (tcells t)) reqs)"
proof -
  obtain outs fs s' where y: "yields (mi_next mops tops) (mi_new maps reqs []) outs s'"
    "mi_fail s' = [] @ fs" "mi_map s' = maps"
    "\<forall>(m, t) \<in> set outs. mok m \<and> tok t \<and> length (mcells m) = length (tcells t)"
    "out_view mcells tcells outs = req_hits mcells tcells maps reqs"
    "fail_view tcells fs = req_misses mcells tcells maps reqs"
    by (rule memory_mapping.map_yields [OF memory_mapping.intro [OF assms(1,2)] assms(3,4)])
  show ?thesis
    using yields_drain [OF y(1)] y(2-6)
    by (intro exI [of _ outs] exI [of _ fs])
      (auto simp: mapped_all_def out_view_def fail_view_def req_hits_def req_misses_def)
qed

definition example_map :: "u8 list memory_map" where
  "example_map = [\<lparr>mp_base = 0x10, mp_output = [1, 2, 3]\<rparr>, \<lparr>mp_base = 0x20, mp_output = [4, 5]\<rparr>]"

lemma example_map_wf: "mm_wf slice_ok (\<lambda>xs. xs) example_map"
  by (simp add: mm_wf_def example_map_def slice_ok_def mp_hi_def)

theorem mem_map_is_lookup_witness:
  "\<exists>outs fails. mapped_all slice_ops slice_ops
       (mi_new example_map [(0x12, replicate 20 (7 :: u8))] []) = Some (outs, fails) \<and>
     concat (map (\<lambda>(m, t). zip m t) outs) = [(3, 7), (4, 7), (5, 7)] \<and>
     concat (map (\<lambda>(a, t). enumerate (unat a) t) fails) = map (\<lambda>x. (x, 7)) [0x13..<0x20]"
proof -
  have "\<forall>r \<in> set [(0x12 :: address, replicate 20 (7 :: u8))]. slice_ok (snd r)"
    by (simp add: slice_ok_def)
  from mem_map_is_lookup [OF slice_split.split_index_axioms slice_split.split_index_axioms
      example_map_wf this]
  have "\<exists>outs fails. mapped_all slice_ops slice_ops
       (mi_new example_map [(0x12, replicate 20 (7 :: u8))] []) = Some (outs, fails) \<and>
     concat (map (\<lambda>(m, t). zip m t) outs) = mm_hits (\<lambda>xs. xs) example_map 18 (replicate 20 7) \<and>
     concat (map (\<lambda>(a, t). enumerate (unat a) t) fails) =
       mm_misses (\<lambda>xs. xs) example_map 18 (replicate 20 7)"
    by auto
  moreover have "mm_hits (\<lambda>xs. xs) example_map 18 (replicate 20 (7 :: u8)) = [(3, 7), (4, 7), (5, 7)]"
    by code_simp
  moreover have "mm_misses (\<lambda>xs. xs) example_map 18 (replicate 20 (7 :: u8)) = map (\<lambda>x. (x, 7)) [0x13..<0x20]"
    by code_simp
  ultimately show ?thesis by simp
qed

text \<open>
  C19. \<open>push\<close> on mappings in order: it panics exactly when an end point of the new region
  lies in a mapping (the end counts, so a region that ends where a mapping starts is
  refused). When the new region is apart from every mapping and some mapping lies below it,
  or the map is empty, the result is in order again and the lookup is the old one extended
  by the new region.
\<close>

theorem mem_map_push:
  assumes "split_index mops mok mcells" and "mm_wf mok mcells maps"
    and "mok output" and "mcells output \<noteq> []"
    and "unat base + length (mcells output) < 18446744073709551616"
  shows "(mm_push mops maps base output = None \<longleftrightarrow>
      (\<exists>m \<in> set maps.
         unat (mp_base m) \<le> unat base \<and> unat base < mp_hi mcells m \<or>
         unat (mp_base m) \<le> unat base + length (mcells output) \<and>
           unat base + length (mcells output) < mp_hi mcells m)) \<and>
    ((\<forall>m \<in> set maps. mp_hi mcells m \<le> unat base \<or>
         unat base + length (mcells output) < unat (mp_base m)) \<and>
     (maps = [] \<or> (\<exists>m \<in> set maps. mp_hi mcells m \<le> unat base)) \<longrightarrow>
       (\<exists>maps'. mm_push mops maps base output = Some maps' \<and> mm_wf mok mcells maps' \<and>
          (\<forall>x. mm_at mcells maps' x =
             (if unat base \<le> x \<and> x < unat base + length (mcells output)
              then Some (mcells output ! (x - unat base)) else mm_at mcells maps x))))"
proof -
  let ?e = "address_add base (so_length mops output)" and ?m = "\<lparr>mp_base = base, mp_output = output\<rparr>"
  let ?n = "length maps"
  have e: "unat ?e = unat base + length (mcells output)"
    using assms(3,5) by (simp add: address_add_def split_index.length_cells [OF assms(1)] unat_add_nowrap)
  have hi: "mp_hi mcells ?m = unat base + length (mcells output)" by (simp add: mp_hi_def)
  have le: "unat base \<le> unat ?e" by (simp add: e)
  have all: "(\<forall>j < ?n. \<not> new_overlap mcells (unat base) (unat ?e) (maps ! j)) \<longleftrightarrow>
      (\<forall>m \<in> set maps. \<not> new_overlap mcells (unat base) (unat ?e) m)"
    by (auto simp: all_set_conv_all_nth)
  show ?thesis
  proof (cases "\<forall>m \<in> set maps. \<not> new_overlap mcells (unat base) (unat ?e) m")
    case False
    then have "push_scan mops maps base ?e ?n ?n = None"
      using all by (intro split_index.push_scan_panics [OF assms(1,2) le]) auto
    moreover have "\<not> (\<forall>m \<in> set maps. mp_hi mcells m \<le> unat base \<or>
         unat base + length (mcells output) < unat (mp_base m))"
      using False e by (fastforce simp: new_overlap_def)
    ultimately show ?thesis
      using False by (auto simp: mm_push_def new_overlap_def e)
  next
    case True
    then obtain idx where idx: "push_scan mops maps base ?e ?n ?n = Some idx"
      "insert_pos mcells maps (unat base) ?n ?n idx"
      using split_index.push_scan_inserts [OF assms(1,2) le order.refl] all by blast
    have p: "mm_push mops maps base output = Some (take idx maps @ [?m] @ drop idx maps)"
      by (simp add: mm_push_def idx(1))
    let ?maps' = "take idx maps @ [?m] @ drop idx maps"
    have "mm_wf mok mcells ?maps' \<and>
        (\<forall>x. mm_at mcells ?maps' x =
             (if unat base \<le> x \<and> x < unat base + length (mcells output)
              then Some (mcells output ! (x - unat base)) else mm_at mcells maps x))"
      if apart: "\<forall>m \<in> set maps. mp_hi mcells m \<le> unat base \<or>
           unat base + length (mcells output) < unat (mp_base m)"
        and some: "maps = [] \<or> (\<exists>m \<in> set maps. mp_hi mcells m \<le> unat base)"
    proof
      have "\<forall>e \<in> set maps. mp_hi mcells e \<le> unat (mp_base ?m) \<or> mp_hi mcells ?m \<le> unat (mp_base e)"
        using apart hi by auto
      then show wf: "mm_wf mok mcells ?maps'"
        using assms(3-5) idx(2) some hi
        by (intro split_index.insert_keeps_order [OF assms(1,2), where sh = ?n]) simp_all
      have "set ?maps' = insert ?m (set maps)"
        using set_append [of "take idx maps" "drop idx maps"] by auto
      from mm_at_insert [OF assms(2) wf this] show "\<forall>x. mm_at mcells ?maps' x =
             (if unat base \<le> x \<and> x < unat base + length (mcells output)
              then Some (mcells output ! (x - unat base)) else mm_at mcells maps x)"
        by (simp add: hi)
    qed
    then show ?thesis
      using True p by (auto simp: new_overlap_def e)
  qed
qed

theorem mem_map_push_witness:
  "\<exists>maps'. mm_push slice_ops example_map 0x14 [9, 9 :: u8] = Some maps' \<and>
     mm_wf slice_ok (\<lambda>xs. xs) maps' \<and> mm_at (\<lambda>xs. xs) maps' 0x15 = Some 9"
proof -
  have w: "slice_ok [9, 9 :: u8]" "[9, 9 :: u8] \<noteq> []"
    "unat (0x14 :: address) + length [9, 9 :: u8] < 18446744073709551616"
    by (simp_all add: slice_ok_def)
  have a: "\<forall>m \<in> set example_map. mp_hi (\<lambda>xs. xs) m \<le> unat (0x14 :: address) \<or>
         unat (0x14 :: address) + length [9, 9 :: u8] < unat (mp_base m)"
    "example_map = [] \<or> (\<exists>m \<in> set example_map. mp_hi (\<lambda>xs. xs) m \<le> unat (0x14 :: address))"
    by (simp_all add: example_map_def mp_hi_def)
  from mem_map_push [OF slice_split.split_index_axioms example_map_wf w, THEN conjunct2,
      rule_format, OF conjI [OF a]]
  show ?thesis by auto
qed

text \<open>
  Where \<open>push\<close> and the iterator depart from their comments. A region pushed below
  every mapping is appended, so the map is out of order and a lookup in the new region is
  reported as unmapped; a region that contains a mapping is not noticed, although the
  comment says that overlapping regions panic; two regions that only touch panic when the
  lower one comes second; a request above the last mapping is neither mapped nor reported;
  and an empty region makes the lookup of the byte below it panic.
\<close>

lemma mem_map_push_limits:
  "do { m \<leftarrow> push_remap mm_new 0x3000 0x1000 0x2000; push_remap m 0x1000 0x1000 0 } =
     Some [\<lparr>mp_base = 0x3000, mp_output = (0x2000, 0x1000)\<rparr>, \<lparr>mp_base = 0x1000, mp_output = (0, 0x1000)\<rparr>] \<and>
   mapped_all (pair_ops usize_ops) slice_ops
     (mm_map [\<lparr>mp_base = 0x3000, mp_output = (0x2000, 0x1000)\<rparr>, \<lparr>mp_base = 0x1000, mp_output = (0, 0x1000)\<rparr>]
        0x10FF [0 :: u8] []) = Some ([], [(0x10FF, [0])]) \<and>
   do { m \<leftarrow> push_remap mm_new 0x1000 0x1000 0; m \<leftarrow> push_remap m 0x3000 0x1000 0;
        push_remap m 0x2800 0x2000 0x8000 } =
     Some [\<lparr>mp_base = 0x1000, mp_output = (0, 0x1000)\<rparr>, \<lparr>mp_base = 0x2800, mp_output = (0x8000, 0x2000)\<rparr>,
           \<lparr>mp_base = 0x3000, mp_output = (0, 0x1000)\<rparr>] \<and>
   do { m \<leftarrow> push_range mm_new 0x2000 0x3000 0; push_range m 0x1000 0x2000 0 } = None \<and>
   mapped_all (pair_ops usize_ops) slice_ops
     (mm_map [\<lparr>mp_base = 0x1000, mp_output = (0, 0x1000)\<rparr>] 0x4000 [0 :: u8] []) = Some ([], []) \<and>
   mapped_all (pair_ops usize_ops) slice_ops
     (mm_map [\<lparr>mp_base = 0x1000, mp_output = (0, 0)\<rparr>] 0xFFF [0 :: u8, 0] []) = None"
  by code_simp

end
