(* ===== verification/Buf_Store.thy ===== *)
theory Buf_Store
  imports Split_Index Phys_Mem
begin

text \<open>
  The buffers of a read list as a store of byte lists, and the exclusive slices cut from
  them as places in it. Connectors and the page cache fill their callers' buffers through
  such slices. The lemmas give what a copy into a slice changes.
\<close>

section \<open>Buffers\<close>

text \<open>The exclusive slices over the buffers of a read list.\<close>

definition read_slices :: "('a \<times> u8 list) list \<Rightarrow> ('a \<times> mut_slice) list" where
  "read_slices reads =
     map (\<lambda>(i, (pa, buf)). (pa, \<lparr>ms_alloc = i, ms_ptr = 0, ms_len = len_usize buf\<rparr>)) (enumerate 0 reads)"

text \<open>\<open>copy_from_slice\<close>, which panics when the lengths differ.\<close>

definition copy_from_slice :: "mut_slice \<Rightarrow> u8 list \<Rightarrow> u8 list list \<Rightarrow> u8 list list option" where
  "copy_from_slice dst src store =
     (if unat (ms_len dst) \<noteq> length src then None
      else let b = store ! ms_alloc dst
           in Some (store[ms_alloc dst := take (ms_ptr dst) b @ src @ drop (ms_ptr dst + length src) b]))"

section \<open>Cells\<close>

text \<open>
  A store of buffers, cell by cell. A cell is the index of a buffer and an index in it.
\<close>

definition set_cell :: "u8 list list \<Rightarrow> u8 \<times> nat \<times> nat \<Rightarrow> u8 list list" where
  "set_cell st x = st[fst (snd x) := (st ! fst (snd x))[snd (snd x) := fst x]]"

definition cell_ok :: "nat list \<Rightarrow> nat \<times> nat \<Rightarrow> bool" where
  "cell_ok lens c \<longleftrightarrow> fst c < length lens \<and> snd c < lens ! fst c"

lemma set_cell_shape [simp]: "map length (set_cell st x) = map length st"
proof (rule nth_equalityI)
  fix i assume "i < length (map length (set_cell st x))"
  then show "map length (set_cell st x) ! i = map length st ! i"
    by (cases "fst (snd x) = i") (simp_all add: set_cell_def)
qed (simp add: set_cell_def)

lemma set_cells_shape: "map length (foldl set_cell st xs) = map length st"
  by (induction xs arbitrary: st) simp_all

lemma set_cells_run:
  assumes "i < length st" and "p + length src \<le> length (st ! i)"
  shows "foldl set_cell st (zip src (map (Pair i) [p..<p + length src])) =
     st[i := take p (st ! i) @ src @ drop (p + length src) (st ! i)]"
  using assms
proof (induction src arbitrary: p st)
  case (Cons v src)
  let ?b = "st ! i" and ?st = "st[i := (st ! i)[p := v]]"
  have p: "p < length ?b" using Cons.prems by simp
  have "[p..<p + length (v # src)] = p # [Suc p..<Suc p + length src]"
    by (simp add: upt_rec)
  then have "foldl set_cell st (zip (v # src) (map (Pair i) [p..<p + length (v # src)])) =
      foldl set_cell ?st (zip src (map (Pair i) [Suc p..<Suc p + length src]))"
    by (simp add: set_cell_def)
  also have "\<dots> = ?st[i := take (Suc p) (?st ! i) @ src @ drop (Suc p + length src) (?st ! i)]"
    using Cons.prems by (intro Cons.IH) simp_all
  also have "\<dots> = st[i := take p ?b @ (v # src) @ drop (p + length (v # src)) ?b]"
    using Cons.prems p by (simp add: take_Suc_conv_app_nth)
  finally show ?case .
qed simp

lemma copy_from_slice_cells:
  assumes "length src = length (mut_slice_cells dst)"
    and "\<forall>c \<in> set (mut_slice_cells dst). cell_ok (map length st) c"
  shows "copy_from_slice dst src st = Some (foldl set_cell st (zip src (mut_slice_cells dst)))"
proof -
  have n: "unat (ms_len dst) = length src" using assms(1) by (simp add: mut_slice_cells_def)
  show ?thesis
  proof (cases "src = []")
    case True
    then show ?thesis using n by (simp add: copy_from_slice_def Let_def)
  next
    case False
    let ?i = "ms_alloc dst" and ?p = "ms_ptr dst"
    have "(?i, ?p + length src - 1) \<in> set (mut_slice_cells dst)"
      using False n by (cases "length src") (auto simp: mut_slice_cells_def intro!: imageI)
    then have c: "cell_ok (map length st) (?i, ?p + length src - 1)" using assms(2) by blast
    then have "?i < length st" "?p + length src \<le> length (st ! ?i)"
      using False by (auto simp: cell_ok_def)
    from set_cells_run [OF this] show ?thesis
      using n by (simp add: copy_from_slice_def Let_def mut_slice_cells_def)
  qed
qed

text \<open>The buffers a read returned, written back through their slices.\<close>

fun write_back :: "mut_slice list \<Rightarrow> u8 list list \<Rightarrow> u8 list list \<Rightarrow> u8 list list option" where
  "write_back (s # ss) (b # bs) store = do {
     store \<leftarrow> copy_from_slice s b store;
     write_back ss bs store
   }"
| "write_back _ _ store = Some store"

text \<open>What a slice holds.\<close>

definition slice_bytes :: "mut_slice \<Rightarrow> u8 list list \<Rightarrow> u8 list" where
  "slice_bytes s store = take (unat (ms_len s)) (drop (ms_ptr s) (store ! ms_alloc s))"

lemma slice_bytes_length:
  assumes "\<forall>c \<in> set (mut_slice_cells t). cell_ok (map length st) c"
  shows "length (slice_bytes t st) = unat (ms_len t)"
proof (cases "unat (ms_len t) = 0")
  case False
  have "(ms_alloc t, ms_ptr t + unat (ms_len t) - 1) \<in> set (mut_slice_cells t)"
    using False by (cases "unat (ms_len t)") (auto simp: mut_slice_cells_def intro!: imageI)
  then have "cell_ok (map length st) (ms_alloc t, ms_ptr t + unat (ms_len t) - 1)"
    using assms by blast
  then have "ms_ptr t + unat (ms_len t) \<le> length (st ! ms_alloc t)"
    using False by (auto simp: cell_ok_def)
  then show ?thesis by (simp add: slice_bytes_def)
qed (simp add: slice_bytes_def)

section \<open>What a sequence of writes leaves in a cell\<close>

definition cell_at :: "u8 list list \<Rightarrow> nat \<times> nat \<Rightarrow> u8" where
  "cell_at st c = st ! fst c ! snd c"

lemma cell_at_set:
  "cell_ok (map length st) c \<Longrightarrow> cell_at (set_cell st (x, c)) c' = (if c' = c then x else cell_at st c')"
  by (cases c; cases c') (auto simp: cell_at_def set_cell_def cell_ok_def nth_list_update)

lemma cell_at_others:
  "\<forall>x \<in> set xs. cell_ok (map length st) (snd x) \<Longrightarrow> c \<notin> snd ` set xs \<Longrightarrow>
     cell_at (foldl set_cell st xs) c = cell_at st c"
proof (induction xs arbitrary: st)
  case (Cons x xs)
  then show ?case by (cases x) (auto simp: cell_at_set)
qed simp

lemma cell_at_written:
  assumes "distinct (map snd xs)" and "(v, c) \<in> set xs" and "\<forall>x \<in> set xs. cell_ok (map length st) (snd x)"
  shows "cell_at (foldl set_cell st xs) c = v"
  using assms
proof (induction xs arbitrary: st)
  case (Cons x xs)
  have ok: "\<forall>y \<in> set xs. cell_ok (map length (set_cell st x)) (snd y)" using Cons.prems(3) by simp
  show ?case
  proof (cases "(v, c) \<in> set xs")
    case True
    with Cons.prems(1) show ?thesis by (simp add: Cons.IH [OF _ _ ok])
  next
    case False
    then have x: "x = (v, c)" using Cons.prems(2) by simp
    have "c \<notin> snd ` set xs" using Cons.prems(1) by (simp add: x)
    from cell_at_others [OF ok this] show ?thesis
      using Cons.prems(3) by (simp add: cell_at_set x)
  qed
qed simp

definition slice_writes :: "mut_slice list \<Rightarrow> u8 list list \<Rightarrow> (u8 \<times> nat \<times> nat) list" where
  "slice_writes ss bs = concat (map2 (\<lambda>s b. zip b (mut_slice_cells s)) ss bs)"

lemma length_mut_slice_cells: "length (mut_slice_cells s) = unat (ms_len s)"
  by (simp add: mut_slice_cells_def)

lemma slice_writes_snd:
  "list_all2 (\<lambda>s b. length b = unat (ms_len s)) ss bs \<Longrightarrow>
     map snd (slice_writes ss bs) = concat (map mut_slice_cells ss)"
  by (induction rule: list_all2_induct) (simp_all add: slice_writes_def length_mut_slice_cells)

lemma write_back_cells:
  assumes "list_all2 (\<lambda>s b. length b = unat (ms_len s)) ss bs"
    and "\<forall>s \<in> set ss. \<forall>c \<in> set (mut_slice_cells s). cell_ok (map length st) c"
  shows "write_back ss bs st = Some (foldl set_cell st (slice_writes ss bs))"
  using assms
proof (induction arbitrary: st rule: list_all2_induct)
  case (Cons s ss b bs)
  have "copy_from_slice s b st = Some (foldl set_cell st (zip b (mut_slice_cells s)))"
    using Cons.prems Cons.hyps by (intro copy_from_slice_cells) (simp_all add: length_mut_slice_cells)
  moreover have "write_back ss bs (foldl set_cell st (zip b (mut_slice_cells s))) =
      Some (foldl set_cell (foldl set_cell st (zip b (mut_slice_cells s))) (slice_writes ss bs))"
    using Cons.prems by (intro Cons.IH) (simp add: set_cells_shape)
  ultimately show ?case by (simp add: slice_writes_def)
qed (simp add: slice_writes_def)

text \<open>What a slice holds is what its cells hold.\<close>

lemma slice_bytes_at:
  assumes "i < unat (ms_len s)" and "\<forall>c \<in> set (mut_slice_cells s). cell_ok (map length st) c"
  shows "slice_bytes s st ! i = cell_at st (mut_slice_cells s ! i)"
proof -
  have c: "mut_slice_cells s ! i = (ms_alloc s, ms_ptr s + i)" using assms(1) by (simp add: mut_slice_cells_def)
  then have "(ms_alloc s, ms_ptr s + i) \<in> set (mut_slice_cells s)"
    using assms(1) nth_mem [of i "mut_slice_cells s"] by (simp add: length_mut_slice_cells)
  with assms(2) have "cell_ok (map length st) (ms_alloc s, ms_ptr s + i)" by blast
  then have "ms_ptr s + i < length (st ! ms_alloc s)" by (auto simp: cell_ok_def)
  with assms(1) show ?thesis by (simp add: slice_bytes_def cell_at_def c)
qed

lemma slice_writes_mem:
  assumes "x \<in> set out" and "length (f x) = unat (ms_len (g x))" and "i < unat (ms_len (g x))"
  shows "(f x ! i, mut_slice_cells (g x) ! i) \<in> set (slice_writes (map g out) (map f out))"
proof -
  have "(f x ! i, mut_slice_cells (g x) ! i) \<in> set (zip (f x) (mut_slice_cells (g x)))"
    using assms(2,3) by (auto simp: in_set_zip length_mut_slice_cells)
  moreover have "map2 (\<lambda>s b. zip b (mut_slice_cells s)) (map g out) (map f out) =
      map (\<lambda>x. zip (f x) (mut_slice_cells (g x))) out"
    by (induction out) simp_all
  ultimately show ?thesis using assms(1) by (auto simp: slice_writes_def)
qed

end
