(* ===== verification/Connectors.thy ===== *)
theory Connectors
  imports Mem_Map Buf_Store
begin

text \<open>
  The connectors over a memory map: \<open>memflow/src/connector/mmap.rs\<close> (memory that is mapped
  into the process, shared or exclusive), \<open>filemap.rs\<close> (a file mapped by the package
  \<open>memmap\<close>, whose result is a parameter) and \<open>fileio.rs\<close> (a reader with the standard
  traits \<open>Seek\<close>, \<open>Read\<close> and \<open>Write\<close>). The lemmas show that a read is the
  lookup of every byte, which makes the connectors instances of \<open>readable_memory\<close>, that a write through an
  exclusive mapping stores into it, and how a map of a file is cut.
\<close>

section \<open>Copying\<close>

text \<open>The body of the read loops: \<open>buf.copy_from_slice(mapped_buf.as_ref())\<close>.\<close>

definition copy_body ::
  "('m \<Rightarrow> u8 list) \<Rightarrow> 'm \<times> mut_slice \<Rightarrow> u8 list list \<Rightarrow> (error option \<times> u8 list list) option" where
  "copy_body as_ref = (\<lambda>(mapped_buf, buf) store.
     map_option (Pair None) (copy_from_slice buf (as_ref mapped_buf) store))"

section \<open>Memory mapped into the process\<close>

text \<open>
  \<open>MappedPhysicalMemory\<close> over shared slices: the state is the map. Over exclusive slices
  the state has the memory of the process too.
\<close>

definition mapped_metadata ::
  "'m split_ops \<Rightarrow> bool \<Rightarrow> 'm memory_map \<Rightarrow> phys_mem_metadata option" where
  "mapped_metadata mops readonly maps =
     (if maps = [] then None
      else Some \<lparr>pmd_size = as_usize (mp_base (last maps)) + so_length mops (mp_output (last maps)),
                 pmd_readonly = readonly\<rparr>)"

definition shared_read_raw_list ::
  "u8 list memory_map \<Rightarrow> phys_read_data list \<Rightarrow> (unit result \<times> u8 list list \<times> u8 list memory_map) option" where
  "shared_read_raw_list maps reads = do {
     (_, bufs, it) \<leftarrow> for_loop (mi_next slice_ops mut_slice_ops) (copy_body (\<lambda>b. b))
         (mm_map_iter maps (read_slices reads) []) (map snd reads);
     Some (Inr (), bufs, mi_map it)
   }"

definition shared_write_raw_list ::
  "u8 list memory_map \<Rightarrow> phys_write_data list \<Rightarrow> (unit result \<times> u8 list memory_map) option" where
  "shared_write_raw_list maps data = Some (Inl (Connector ''Target mapping is not writeable''), maps)"

definition shared_mapped_memory :: "u8 list memory_map phys_mem" where
  "shared_mapped_memory = \<lparr>
     pm_read_raw_list = shared_read_raw_list,
     pm_write_raw_list = shared_write_raw_list,
     pm_metadata = mapped_metadata slice_ops True\<rparr>"

record mapped_mut =
  mx_map :: "mut_slice memory_map"
  mx_host :: "nat \<Rightarrow> u8"

definition host_bytes :: "(nat \<Rightarrow> u8) \<Rightarrow> mut_slice \<Rightarrow> u8 list" where
  "host_bytes host s = map (\<lambda>(_, p). host p) (mut_slice_cells s)"

definition host_copy :: "mut_slice \<Rightarrow> u8 list \<Rightarrow> (nat \<Rightarrow> u8) \<Rightarrow> (nat \<Rightarrow> u8) option" where
  "host_copy dst src host =
     (if unat (ms_len dst) \<noteq> length src then None
      else Some (\<lambda>p. if ms_ptr dst \<le> p \<and> p < ms_ptr dst + length src then src ! (p - ms_ptr dst) else host p))"

definition mut_read_raw_list ::
  "mapped_mut \<Rightarrow> phys_read_data list \<Rightarrow> (unit result \<times> u8 list list \<times> mapped_mut) option" where
  "mut_read_raw_list m reads = do {
     (_, bufs, it) \<leftarrow> for_loop (mi_next mut_slice_ops mut_slice_ops) (copy_body (host_bytes (mx_host m)))
         (mm_map_iter (mx_map m) (read_slices reads) []) (map snd reads);
     Some (Inr (), bufs, m\<lparr>mx_map := mi_map it\<rparr>)
   }"

definition mut_write_raw_list ::
  "mapped_mut \<Rightarrow> phys_write_data list \<Rightarrow> (unit result \<times> mapped_mut) option" where
  "mut_write_raw_list m data = do {
     (_, host, it) \<leftarrow> for_loop (mi_next mut_slice_ops slice_ops)
         (\<lambda>(mapped_buf, buf) host.
            map_option (Pair (None :: error option)) (host_copy mapped_buf buf host))
         (mm_map_iter (mx_map m) data []) (mx_host m);
     Some (Inr (), \<lparr>mx_map = mi_map it, mx_host = host\<rparr>)
   }"

definition mut_mapped_memory :: "mapped_mut phys_mem" where
  "mut_mapped_memory = \<lparr>
     pm_read_raw_list = mut_read_raw_list,
     pm_write_raw_list = mut_write_raw_list,
     pm_metadata = (\<lambda>m. mapped_metadata mut_slice_ops False (mx_map m))\<rparr>"

text \<open>The constructors from a map to addresses of the process.\<close>

definition from_addrmap_mut ::
  "(nat \<Rightarrow> u8) \<Rightarrow> (address \<times> usize) memory_map \<Rightarrow> mapped_mut option" where
  "from_addrmap_mut host maps = do {
     ret_map \<leftarrow> mm_push_all mut_slice_ops mm_new
       (map (\<lambda>(base, (real_base, size)). (base, from_raw_parts_mut real_base size)) (mm_into_iter maps));
     Some \<lparr>mx_map = ret_map, mx_host = host\<rparr>
   }"

definition from_addrmap ::
  "(nat \<Rightarrow> u8) \<Rightarrow> (address \<times> usize) memory_map \<Rightarrow> u8 list memory_map option" where
  "from_addrmap host maps =
     mm_push_all slice_ops mm_new
       (map (\<lambda>(base, (real_base, size)). (base, from_raw_parts host real_base size)) (mm_into_iter maps))"

section \<open>A mapped file\<close>

text \<open>
  The file is mapped at \<open>buf_ptr\<close> with \<open>buf_len\<close> bytes. \<open>slice_at\<close> builds the slice: the
  bytes for a shared map, the place for an exclusive one.
\<close>

fun bufmap_loop ::
  "'m split_ops \<Rightarrow> (address \<Rightarrow> usize \<Rightarrow> 'm) \<Rightarrow> address \<Rightarrow> usize \<Rightarrow> (address \<times> address \<times> usize) list
     \<Rightarrow> 'm memory_map \<Rightarrow> (error + 'm memory_map) option" where
  "bufmap_loop mops slice_at buf_ptr buf_len [] new_map = Some (Inr new_map)"
| "bufmap_loop mops slice_at buf_ptr buf_len ((base, (output_base, sz)) # rest) new_map =
     (if as_usize output_base \<ge> buf_len then Some (Inl (Connector ''Memory map is out of range''))
      else do {
        let output_end = min (as_usize output_base + sz) buf_len;
        new_map \<leftarrow> mm_push mops new_map base
          (slice_at (buf_ptr + as_usize output_base) (output_end - as_usize output_base));
        bufmap_loop mops slice_at buf_ptr buf_len rest new_map
      })"

definition try_with_bufmap ::
  "(nat \<Rightarrow> u8) \<Rightarrow> address \<Rightarrow> usize \<Rightarrow> (address \<times> usize) memory_map \<Rightarrow> (error + u8 list memory_map) option" where
  "try_with_bufmap host buf_ptr buf_len maps =
     bufmap_loop slice_ops (from_raw_parts host) buf_ptr buf_len (mm_into_iter maps) mm_new"

definition try_with_bufmap_mut ::
  "(nat \<Rightarrow> u8) \<Rightarrow> address \<Rightarrow> usize \<Rightarrow> (address \<times> usize) memory_map \<Rightarrow> (error + mapped_mut) option" where
  "try_with_bufmap_mut host buf_ptr buf_len maps =
     map_option (map_sum id (\<lambda>m. \<lparr>mx_map = m, mx_host = host\<rparr>))
       (bufmap_loop mut_slice_ops from_raw_parts_mut buf_ptr buf_len (mm_into_iter maps) mm_new)"

text \<open>The result of the call that maps the file is a parameter: its place, or a failure.\<close>

definition try_with_filemap ::
  "(nat \<Rightarrow> u8) \<Rightarrow> (address \<times> usize) option \<Rightarrow> (address \<times> usize) memory_map
     \<Rightarrow> (error + u8 list memory_map) option" where
  "try_with_filemap host file_map maps =
     (case file_map of
        None \<Rightarrow> Some (Inl (Connector ''unable to map file''))
      | Some (buf_ptr, buf_len) \<Rightarrow> try_with_bufmap host buf_ptr buf_len maps)"

definition try_with_filemap_mut ::
  "(nat \<Rightarrow> u8) \<Rightarrow> (address \<times> usize) option \<Rightarrow> (address \<times> usize) memory_map
     \<Rightarrow> (error + mapped_mut) option" where
  "try_with_filemap_mut host file_map maps =
     (case file_map of
        None \<Rightarrow> Some (Inl (Connector ''unable to map file''))
      | Some (buf_ptr, buf_len) \<Rightarrow> try_with_bufmap_mut host buf_ptr buf_len maps)"

section \<open>A reader with a position\<close>

text \<open>
  \<open>Seek\<close>, \<open>Read\<close> and \<open>Write\<close>: each call returns whether it succeeded. \<open>read_exact\<close> gives
  the content of the buffer after the call, which a failure leaves unspecified; \<open>write\<close>
  may write a part and returns its length.
\<close>

record 'r reader_ops =
  rd_seek :: "'r \<Rightarrow> u64 \<Rightarrow> bool \<times> 'r"
  rd_read_exact :: "'r \<Rightarrow> u8 list \<Rightarrow> bool \<times> u8 list \<times> 'r"
  rd_write :: "'r \<Rightarrow> u8 list \<Rightarrow> usize option \<times> 'r"

record 'r file_io =
  fio_reader :: 'r
  fio_map :: "(address \<times> usize) memory_map"

definition try_with_reader :: "'r \<Rightarrow> (address \<times> usize) memory_map \<Rightarrow> error + 'r file_io" where
  "try_with_reader reader mem_map = Inr \<lparr>fio_reader = reader, fio_map = mem_map\<rparr>"

definition fio_read_body ::
  "'r reader_ops \<Rightarrow> (address \<times> usize) \<times> mut_slice \<Rightarrow> 'r \<times> u8 list list
     \<Rightarrow> (error option \<times> 'r \<times> u8 list list) option" where
  "fio_read_body rd = (\<lambda>((file_off, _), buf) (reader, store).
     (case rd_seek rd reader (as_u64 file_off) of
        (False, reader) \<Rightarrow> Some (Some (Connector ''Seek failed''), reader, store)
      | (True, reader) \<Rightarrow>
          (case rd_read_exact rd reader (slice_bytes buf store) of
             (ok, bytes, reader) \<Rightarrow>
               map_option (\<lambda>store. (if ok then None else Some (Connector ''Read failed''), reader, store))
                 (copy_from_slice buf bytes store))))"

definition fio_write_body ::
  "'r reader_ops \<Rightarrow> (address \<times> usize) \<times> u8 list \<Rightarrow> 'r \<Rightarrow> (error option \<times> 'r) option" where
  "fio_write_body rd = (\<lambda>((file_off, _), buf) reader.
     (case rd_seek rd reader (as_u64 file_off) of
        (False, reader) \<Rightarrow> Some (Some (Connector ''Seek failed''), reader)
      | (True, reader) \<Rightarrow>
          (case rd_write rd reader buf of
             (None, reader) \<Rightarrow> Some (Some (Connector ''Write failed''), reader)
           | (Some _, reader) \<Rightarrow> Some (None, reader))))"

definition fio_result :: "error option \<Rightarrow> unit result" where
  "fio_result e = (case e of Some e \<Rightarrow> Inl e | None \<Rightarrow> Inr ())"

definition fio_read_raw_list ::
  "'r reader_ops \<Rightarrow> 'r file_io \<Rightarrow> phys_read_data list \<Rightarrow> (unit result \<times> u8 list list \<times> 'r file_io) option" where
  "fio_read_raw_list rd m reads = do {
     (e, (reader, bufs), it) \<leftarrow> for_loop (mi_next (pair_ops usize_ops) mut_slice_ops) (fio_read_body rd)
         (mm_map_iter (fio_map m) (read_slices reads) []) (fio_reader m, map snd reads);
     Some (fio_result e, bufs, \<lparr>fio_reader = reader, fio_map = mi_map it\<rparr>)
   }"

definition fio_write_raw_list ::
  "'r reader_ops \<Rightarrow> 'r file_io \<Rightarrow> phys_write_data list \<Rightarrow> (unit result \<times> 'r file_io) option" where
  "fio_write_raw_list rd m data = do {
     (e, reader, it) \<leftarrow> for_loop (mi_next (pair_ops usize_ops) slice_ops) (fio_write_body rd)
         (mm_map_iter (fio_map m) data []) (fio_reader m);
     Some (fio_result e, \<lparr>fio_reader = reader, fio_map = mi_map it\<rparr>)
   }"

definition file_io_memory :: "'r reader_ops \<Rightarrow> 'r file_io phys_mem" where
  "file_io_memory rd = \<lparr>
     pm_read_raw_list = fio_read_raw_list rd,
     pm_write_raw_list = fio_write_raw_list rd,
     pm_metadata = (\<lambda>m. mapped_metadata (pair_ops usize_ops) False (fio_map m))\<rparr>"

section \<open>Reading fills the buffers\<close>

text \<open>A loop that copies into slices sets the cells of what the iterator yields.\<close>

lemma each_copies:
  assumes "\<forall>(m, t) \<in> set outs. length (mcells m) = length (mut_slice_cells t) \<and>
      (\<forall>c \<in> set (mut_slice_cells t). cell_ok (map length st) c)"
    and "\<And>m t st. (m, t) \<in> set outs \<Longrightarrow>
      body (m, t) st = map_option (Pair None) (copy_from_slice t (map val (mcells m)) st)"
  shows "each body outs st =
     Some (None, foldl set_cell st (map (apfst val) (out_view mcells mut_slice_cells outs)))"
  using assms
proof (induction outs arbitrary: st)
  case (Cons x outs)
  obtain m t where x: "x = (m, t)" by (cases x)
  let ?st = "foldl set_cell st (zip (map val (mcells m)) (mut_slice_cells t))"
  have "copy_from_slice t (map val (mcells m)) st = Some ?st"
    using Cons.prems(1) by (intro copy_from_slice_cells) (auto simp: x)
  then have b: "body (m, t) st = Some (None, ?st)"
    using Cons.prems(2) [of m t st] by (simp add: x)
  have "each body outs ?st =
      Some (None, foldl set_cell ?st (map (apfst val) (out_view mcells mut_slice_cells outs)))"
    using Cons.prems by (intro Cons.IH) (auto simp: set_cells_shape)
  then show ?case
    by (simp add: b x out_view_def zip_map1 apfst_def map_prod_def case_prod_unfold)
qed (simp add: out_view_def)

text \<open>The hits of a whole buffer set exactly the mapped bytes.\<close>

lemma hits_snoc:
  "mm_hits mcells maps a (cs @ [c]) =
     mm_hits mcells maps a cs @
       (case mm_at mcells maps (a + length cs) of None \<Rightarrow> [] | Some mc \<Rightarrow> [(mc, c)])"
  unfolding mm_hits_append by (simp add: mm_hits_def List.map_filter_simps split: option.split)

lemma hits_fill:
  assumes "n \<le> length buf"
  shows "foldl set_cell (pre @ buf # rest)
      (map (apfst val) (mm_hits mcells maps a (map (Pair (length pre)) [0..<n]))) =
    pre @ map (\<lambda>j. if j < n then (case mm_at mcells maps (a + j) of Some mc \<Rightarrow> val mc | None \<Rightarrow> buf ! j)
                   else buf ! j) [0..<length buf] # rest"
  using assms
proof (induction n)
  case 0
  then show ?case by (simp add: mm_hits_def List.map_filter_simps map_nth)
next
  case (Suc n)
  let ?f = "\<lambda>n j. if j < n then (case mm_at mcells maps (a + j) of Some mc \<Rightarrow> val mc | None \<Rightarrow> buf ! j) else buf ! j"
  have upd: "(map (?f n) [0..<length buf])[n := v] = map (\<lambda>j. if j = n then v else ?f n j) [0..<length buf]" for v
    using Suc.prems by (intro nth_equalityI) (auto simp: nth_list_update)
  show ?case
  proof (cases "mm_at mcells maps (a + n)")
    case None
    have "map (?f n) [0..<length buf] = map (?f (Suc n)) [0..<length buf]"
      using None by (auto simp: less_Suc_eq)
    then show ?thesis using Suc None by (simp add: hits_snoc)
  next
    case (Some mc)
    have "map (\<lambda>j. if j = n then val mc else ?f n j) [0..<length buf] = map (?f (Suc n)) [0..<length buf]"
      using Some by (auto simp: less_Suc_eq)
    then show ?thesis using Suc Some upd by (simp add: hits_snoc set_cell_def)
  qed
qed

text \<open>What a map and the bytes behind its cells hold.\<close>

definition map_content :: "('m \<Rightarrow> 'mc list) \<Rightarrow> ('mc \<Rightarrow> u8) \<Rightarrow> 'm memory_map \<Rightarrow> u64 \<Rightarrow> u8 option" where
  "map_content mcells val maps a = map_option val (mm_at mcells maps (unat a))"

lemma byte_at_map:
  assumes "mm_wf mok mcells maps"
  shows "byte_at (map_content mcells val maps) a j = map_option val (mm_at mcells maps (unat a + j))"
proof (cases "unat a + j < 18446744073709551616")
  case True
  then have "unat (a + of_nat j) = unat a + j"
    using unat_add_nowrap [of a "of_nat j"] by (simp add: unat_of_nat_64)
  then show ?thesis using True by (simp add: byte_at_unat map_content_def)
next
  case False
  have "mm_at mcells maps (unat a + j) = None"
    using assms False by (intro mm_at_out) (fastforce simp: mm_wf_def)
  then show ?thesis using False by (simp add: byte_at_unat)
qed

lemma hits_fill_buf:
  assumes "mm_wf mok mcells maps"
  shows "foldl set_cell (pre @ buf # rest)
      (map (apfst val) (mm_hits mcells maps (unat a) (map (Pair (length pre)) [0..<length buf]))) =
    pre @ fill_buf (map_content mcells val maps) a buf # rest"
  by (simp add: hits_fill fill_buf_def byte_at_map [OF assms] option.case_eq_if map_option_case
      cong: map_cong)

text \<open>The requests of a read list.\<close>

definition read_reqs :: "nat \<Rightarrow> phys_read_data list \<Rightarrow> (address \<times> mut_slice) list" where
  "read_reqs n reads =
     map (\<lambda>(i, (pa, buf)). (pa_address pa, \<lparr>ms_alloc = i, ms_ptr = 0, ms_len = len_usize buf\<rparr>)) (enumerate n reads)"

lemma read_slices_reqs:
  "mm_map_iter maps (read_slices reads) f = mi_new maps (read_reqs 0 reads) f"
  by (simp add: mm_map_iter_def read_slices_def read_reqs_def case_prod_unfold comp_def)

lemma reqs_fill_bufs:
  assumes "mm_wf mok mcells maps" and "bufs_ok reads"
  shows "foldl set_cell (pre @ map snd reads)
      (map (apfst val) (req_hits mcells mut_slice_cells maps (read_reqs (length pre) reads))) =
    pre @ fill_bufs (map_content mcells val maps) reads"
  using assms(2)
proof (induction reads arbitrary: pre)
  case (Cons r reads)
  obtain pa buf where r: "r = (pa, buf)" by (cases r)
  have n: "unat (len_usize buf) = length buf"
    using Cons.prems by (simp add: r bufs_ok_def len_usize_def unat_of_nat_64)
  have "req_hits mcells mut_slice_cells maps (read_reqs (length pre) (r # reads)) =
      mm_hits mcells maps (unat (pa_address pa)) (map (Pair (length pre)) [0..<length buf]) @
      req_hits mcells mut_slice_cells maps (read_reqs (Suc (length pre)) reads)"
    by (simp add: read_reqs_def req_hits_def r mut_slice_cells_def n)
  moreover have "foldl set_cell ((pre @ [fill_buf (map_content mcells val maps) (pa_address pa) buf]) @ map snd reads)
      (map (apfst val) (req_hits mcells mut_slice_cells maps (read_reqs (Suc (length pre)) reads))) =
      (pre @ [fill_buf (map_content mcells val maps) (pa_address pa) buf]) @
        fill_bufs (map_content mcells val maps) reads"
    using Cons.IH [of "pre @ [fill_buf (map_content mcells val maps) (pa_address pa) buf]"] Cons.prems
    by (simp add: bufs_ok_def)
  ultimately show ?case
    using hits_fill_buf [OF assms(1), of pre buf "map snd reads" val "pa_address pa"]
    by (simp add: r fill_bufs_def pa_as_u64_def as_u64_def)
qed (simp add: read_reqs_def req_hits_def fill_bufs_def)

lemma hits_cells:
  "(mc, c) \<in> set (mm_hits mcells maps a cs) \<Longrightarrow> c \<in> set cs"
  by (auto simp: mm_hits_def List.map_filter_def enumerate_eq_zip dest: set_zip_rightD)

lemma req_hits_cells:
  "(mc, c) \<in> set (req_hits mcells tcells maps q) \<Longrightarrow> \<exists>r \<in> set q. c \<in> set (tcells (snd r))"
  unfolding req_hits_def by (auto simp: case_prod_unfold dest: hits_cells)

lemma out_view_cell:
  assumes "(m, t) \<in> set outs" and "length (mcells m) = length (tcells t)" and "c \<in> set (tcells t)"
  shows "\<exists>mc. (mc, c) \<in> set (out_view mcells tcells outs)"
proof -
  obtain k where k: "k < length (tcells t)" "c = tcells t ! k"
    using assms(3) by (auto simp: in_set_conv_nth)
  then have "(mcells m ! k, c) \<in> set (zip (mcells m) (tcells t))"
    using assms(2) by (auto simp: set_zip)
  then show ?thesis using assms(1) by (auto simp: out_view_def)
qed

lemma req_hits_mapped:
  "(mc, c) \<in> set (req_hits mcells tcells maps q) \<Longrightarrow> \<exists>x. mm_at mcells maps x = Some mc"
  by (auto simp: req_hits_def mm_hits_def List.map_filter_def split: option.splits)

lemma out_view_mapped:
  assumes "(m, t) \<in> set outs" and "length (mcells m) = length (tcells t)" and "mc \<in> set (mcells m)"
  shows "\<exists>c. (mc, c) \<in> set (out_view mcells tcells outs)"
proof -
  obtain k where k: "k < length (mcells m)" "mc = mcells m ! k"
    using assms(3) by (auto simp: in_set_conv_nth)
  then have "(mc, tcells t ! k) \<in> set (zip (mcells m) (tcells t))"
    using assms(2) by (auto simp: set_zip)
  then show ?thesis using assms(1) by (auto simp: out_view_def)
qed

lemma read_reqs_cells:
  assumes "r \<in> set (read_reqs 0 reads)" and "bufs_ok reads"
  shows "mut_slice_ok (snd r)"
    and "c \<in> set (mut_slice_cells (snd r)) \<Longrightarrow> cell_ok (map length (map snd reads)) c"
proof -
  obtain i where i: "i < length reads" "snd r = \<lparr>ms_alloc = i, ms_ptr = 0, ms_len = len_usize (snd (reads ! i))\<rparr>"
    using assms(1) by (auto simp: read_reqs_def in_set_enumerate_eq case_prod_unfold)
  have l: "length (snd (reads ! i)) < 9223372036854775808"
    using assms(2) nth_mem [OF i(1)] by (simp add: bufs_ok_def)
  then have n: "unat (len_usize (snd (reads ! i))) = length (snd (reads ! i))"
    by (simp add: len_usize_def unat_of_nat_64)
  show "mut_slice_ok (snd r)" using l by (simp add: mut_slice_ok_def i(2) n)
  show "c \<in> set (mut_slice_cells (snd r)) \<Longrightarrow> cell_ok (map length (map snd reads)) c"
    using i(1) by (auto simp: mut_slice_cells_def cell_ok_def i(2) n)
qed

lemma read_loop_fills:
  assumes mm: "memory_mapping mops mok mcells mut_slice_ops mut_slice_ok mut_slice_cells"
    and wf: "mm_wf mok mcells maps" and bufs: "bufs_ok reads"
    and body: "\<And>m. as_ref m = map val (mcells m)"
  obtains it where "for_loop (mi_next mops mut_slice_ops) (copy_body as_ref) (mm_map_iter maps (read_slices reads) [])
      (map snd reads) = Some (None, fill_bufs (map_content mcells val maps) reads, it)"
    "mi_map it = maps"
proof -
  have q: "\<forall>r \<in> set (read_reqs 0 reads). mut_slice_ok (snd r)"
    using read_reqs_cells(1) [OF _ bufs] by blast
  obtain outs fs s' where y: "yields (mi_next mops mut_slice_ops) (mi_new maps (read_reqs 0 reads) []) outs s'"
    "mi_fail s' = [] @ fs" "mi_map s' = maps"
    "\<forall>(m, t) \<in> set outs. mok m \<and> mut_slice_ok t \<and> length (mcells m) = length (mut_slice_cells t)"
    "out_view mcells mut_slice_cells outs = req_hits mcells mut_slice_cells maps (read_reqs 0 reads)"
    "fail_view mut_slice_cells fs = req_misses mcells mut_slice_cells maps (read_reqs 0 reads)"
    by (rule memory_mapping.map_yields [OF mm wf q])
  have ok: "\<forall>(m, t) \<in> set outs. length (mcells m) = length (mut_slice_cells t) \<and>
      (\<forall>c \<in> set (mut_slice_cells t). cell_ok (map length (map snd reads)) c)"
  proof (clarify, intro conjI ballI)
    fix m t assume mt: "(m, t) \<in> set outs"
    then show l: "length (mcells m) = length (mut_slice_cells t)" using y(4) by blast
    fix c assume "c \<in> set (mut_slice_cells t)"
    from out_view_cell [where mcells = mcells and tcells = mut_slice_cells, OF mt l this]
    obtain mc where "(mc, c) \<in> set (req_hits mcells mut_slice_cells maps (read_reqs 0 reads))"
      unfolding y(5) by blast
    from req_hits_cells [OF this] obtain r where
      "r \<in> set (read_reqs 0 reads)" "c \<in> set (mut_slice_cells (snd r))"
      by blast
    then show "cell_ok (map length (map snd reads)) c" by (rule read_reqs_cells(2) [OF _ bufs])
  qed
  have "each (copy_body as_ref) outs (map snd reads) = Some (None, foldl set_cell (map snd reads)
      (map (apfst val) (out_view mcells mut_slice_cells outs)))"
    by (rule each_copies [OF ok]) (simp add: copy_body_def body)
  also have "\<dots> = Some (None, fill_bufs (map_content mcells val maps) reads)"
    using reqs_fill_bufs [OF wf bufs, of "[]" val] by (simp add: y(5))
  finally show ?thesis
    using yields_for_loop [OF y(1), of "copy_body as_ref" "map snd reads"] y(3) that
    by (simp add: read_slices_reqs)
qed

section \<open>The connectors are readable memories\<close>

interpretation shared: readable_memory shared_mapped_memory "mm_wf slice_ok (\<lambda>xs. xs)"
  "map_content (\<lambda>xs. xs) id"
proof
  fix m :: "u8 list memory_map" and reads
  assume a: "mm_wf slice_ok (\<lambda>xs. xs) m" "bufs_ok reads"
  obtain it where "for_loop (mi_next slice_ops mut_slice_ops) (copy_body (\<lambda>b. b))
         (mm_map_iter m (read_slices reads) []) (map snd reads) =
      Some (None, fill_bufs (map_content (\<lambda>xs. xs) id m) reads, it)" "mi_map it = m"
    by (rule read_loop_fills [OF shared_read.memory_mapping_axioms a]) (rule list.map_id [symmetric])
  then show "\<exists>m'. pm_read_raw_list shared_mapped_memory m reads =
      Some (Inr (), fill_bufs (map_content (\<lambda>xs. xs) id m) reads, m') \<and>
      mm_wf slice_ok (\<lambda>xs. xs) m' \<and> map_content (\<lambda>xs. xs) id m' = map_content (\<lambda>xs. xs) id m"
    using a(1) by (simp add: shared_mapped_memory_def shared_read_raw_list_def)
qed

definition mut_content :: "mapped_mut \<Rightarrow> u64 \<Rightarrow> u8 option" where
  "mut_content m = map_content mut_slice_cells (\<lambda>(_, p). mx_host m p) (mx_map m)"

interpretation exclusive: readable_memory mut_mapped_memory
  "\<lambda>m. mm_wf mut_slice_ok mut_slice_cells (mx_map m)" mut_content
proof
  fix m :: mapped_mut and reads
  assume a: "mm_wf mut_slice_ok mut_slice_cells (mx_map m)" "bufs_ok reads"
  obtain it where "for_loop (mi_next mut_slice_ops mut_slice_ops) (copy_body (host_bytes (mx_host m)))
         (mm_map_iter (mx_map m) (read_slices reads) []) (map snd reads) =
      Some (None, fill_bufs (mut_content m) reads, it)" "mi_map it = mx_map m"
    unfolding mut_content_def
    by (rule read_loop_fills [OF exclusive_read.memory_mapping_axioms a,
          where as_ref = "host_bytes (mx_host m)" and val = "\<lambda>(_, p). mx_host m p"])
      (simp add: host_bytes_def)
  then show "\<exists>m'. pm_read_raw_list mut_mapped_memory m reads =
      Some (Inr (), fill_bufs (mut_content m) reads, m') \<and>
      mm_wf mut_slice_ok mut_slice_cells (mx_map m') \<and> mut_content m' = mut_content m"
    using a(1) by (simp add: mut_mapped_memory_def mut_read_raw_list_def)
qed

section \<open>Writing\<close>

definition host_cell :: "(nat \<Rightarrow> u8) \<Rightarrow> (nat \<times> nat) \<times> u8 \<Rightarrow> nat \<Rightarrow> u8" where
  "host_cell host x = host(snd (fst x) := snd x)"

lemma host_cells_run:
  "foldl host_cell host (zip (map (Pair i) [p..<p + length src]) src) =
     (\<lambda>q. if p \<le> q \<and> q < p + length src then src ! (q - p) else host q)"
proof (induction src arbitrary: p host)
  case (Cons v src)
  have u: "[p..<p + length (v # src)] = p # [Suc p..<Suc p + length src]"
    by (simp add: upt_rec)
  have h: "host_cell host ((i, p), v) = host(p := v)" by (simp add: host_cell_def)
  have "foldl host_cell host (zip (map (Pair i) [p..<p + length (v # src)]) (v # src)) =
      (\<lambda>q. if Suc p \<le> q \<and> q < Suc p + length src then src ! (q - Suc p) else (host(p := v)) q)"
    unfolding u list.map zip_Cons_Cons foldl.simps h by (rule Cons.IH)
  also have "\<dots> = (\<lambda>q. if p \<le> q \<and> q < p + length (v # src) then (v # src) ! (q - p) else host q)"
    by (rule ext) (auto simp: nth_Cons')
  finally show ?case .
qed (auto intro!: ext)

lemma host_copy_cells:
  "length (mut_slice_cells dst) = length src \<Longrightarrow>
     host_copy dst src host = Some (foldl host_cell host (zip (mut_slice_cells dst) src))"
  using host_cells_run [of host "ms_alloc dst" "ms_ptr dst" src]
  by (simp add: host_copy_def mut_slice_cells_def)

definition host_body :: "mut_slice \<times> u8 list \<Rightarrow> (nat \<Rightarrow> u8) \<Rightarrow> (error option \<times> (nat \<Rightarrow> u8)) option" where
  "host_body = (\<lambda>(mapped_buf, buf) host. map_option (Pair None) (host_copy mapped_buf buf host))"

lemma each_host_copies:
  "\<forall>(m, t) \<in> set outs. length (mut_slice_cells m) = length t \<Longrightarrow>
     each host_body outs host = Some (None, foldl host_cell host (out_view mut_slice_cells (\<lambda>b. b) outs))"
proof (induction outs arbitrary: host)
  case (Cons x outs)
  obtain m t where x: "x = (m, t)" by (cases x)
  show ?case
    using Cons by (simp add: x host_body_def host_copy_cells out_view_def)
qed (simp add: out_view_def)

definition write_reqs :: "phys_write_data list \<Rightarrow> (address \<times> u8 list) list" where
  "write_reqs ws = map (\<lambda>(pa, buf). (pa_address pa, buf)) ws"

lemma mut_write_hits:
  assumes wf: "mm_wf mut_slice_ok mut_slice_cells (mx_map m)" and bufs: "bufs_ok ws"
  shows "mut_write_raw_list m ws = Some (Inr (), m\<lparr>mx_host :=
     foldl host_cell (mx_host m) (req_hits mut_slice_cells (\<lambda>b. b) (mx_map m) (write_reqs ws))\<rparr>)"
proof -
  have q: "\<forall>r \<in> set (write_reqs ws). slice_ok (snd r)"
    using bufs by (auto simp: write_reqs_def bufs_ok_def slice_ok_def)
  obtain outs fs s' where y: "yields (mi_next mut_slice_ops slice_ops) (mi_new (mx_map m) (write_reqs ws) []) outs s'"
    "mi_fail s' = [] @ fs" "mi_map s' = mx_map m"
    "\<forall>(c, t) \<in> set outs. mut_slice_ok c \<and> slice_ok t \<and> length (mut_slice_cells c) = length t"
    "out_view mut_slice_cells (\<lambda>b. b) outs = req_hits mut_slice_cells (\<lambda>b. b) (mx_map m) (write_reqs ws)"
    "fail_view (\<lambda>b. b) fs = req_misses mut_slice_cells (\<lambda>b. b) (mx_map m) (write_reqs ws)"
    by (rule exclusive_write.map_yields [OF wf q])
  have "each host_body outs (mx_host m) =
      Some (None, foldl host_cell (mx_host m) (out_view mut_slice_cells (\<lambda>b. b) outs))"
    by (rule each_host_copies) (use y(4) in blast)
  then show ?thesis
    using yields_for_loop [OF y(1), of host_body "mx_host m"] y(3,5)
    by (simp add: mut_write_raw_list_def mm_map_iter_def write_reqs_def case_prod_unfold host_body_def)
qed

text \<open>
  With no byte of the process behind two addresses, a write stores into the content, as it
  does in the reference memory.
\<close>

definition backed_once :: "mut_slice memory_map \<Rightarrow> bool" where
  "backed_once maps \<longleftrightarrow> (\<forall>x y i j p. mm_at mut_slice_cells maps x = Some (i, p) \<longrightarrow>
     mm_at mut_slice_cells maps y = Some (j, p) \<longrightarrow> x = y)"

lemma host_hits:
  assumes "backed_once maps" and "mm_at mut_slice_cells maps x = Some (i, p)"
  shows "foldl host_cell host (mm_hits mut_slice_cells maps a bs) p =
     (if a \<le> x \<and> x < a + length bs then bs ! (x - a) else host p)"
proof (induction bs rule: rev_induct)
  case (snoc b bs)
  show ?case
  proof (cases "mm_at mut_slice_cells maps (a + length bs)")
    case None
    then have "x \<noteq> a + length bs" using assms(2) by auto
    then show ?thesis using snoc None by (auto simp: hits_snoc nth_append)
  next
    case (Some c)
    obtain j q where c: "c = (j, q)" by (cases c)
    have "q = p \<longleftrightarrow> a + length bs = x"
      using assms Some unfolding backed_once_def c by (metis option.inject prod.inject)
    then show ?thesis
      using snoc Some by (auto simp: hits_snoc nth_append host_cell_def c)
  qed
qed (auto simp: mm_hits_def List.map_filter_simps)

lemma mut_content_store:
  assumes "backed_once (mx_map m)" and "unat a + length bs \<le> 18446744073709551616"
  shows "mut_content (m\<lparr>mx_host := foldl host_cell (mx_host m)
       (mm_hits mut_slice_cells (mx_map m) (unat a) bs)\<rparr>) = store_bytes a bs (mut_content m)"
proof
  fix x :: u64
  have sub: "unat (x - a) < length bs \<longleftrightarrow> unat a \<le> unat x \<and> unat x < unat a + length bs"
  proof (cases "unat a \<le> unat x")
    case True
    then show ?thesis by (simp add: unat_sub_nowrap) linarith
  next
    case False
    then have "unat (x - a) = 18446744073709551616 + unat x - unat a"
      using unat_sub_if' [of x a] by simp
    then show ?thesis using False assms(2) by linarith
  qed
  show "mut_content (m\<lparr>mx_host := foldl host_cell (mx_host m)
       (mm_hits mut_slice_cells (mx_map m) (unat a) bs)\<rparr>) x = store_bytes a bs (mut_content m) x"
  proof (cases "mm_at mut_slice_cells (mx_map m) (unat x)")
    case None
    then show ?thesis by (simp add: mut_content_def map_content_def store_bytes_def)
  next
    case (Some c)
    obtain i p where c: "c = (i, p)" by (cases c)
    show ?thesis
      using host_hits [OF assms(1) Some [unfolded c]] sub Some
      by (auto simp: mut_content_def map_content_def store_bytes_def c unat_sub_nowrap)
  qed
qed

lemma mut_content_stores:
  assumes "backed_once (mx_map m)"
    and "\<forall>(pa, bs) \<in> set ws. unat (pa_address pa) + length bs \<le> 18446744073709551616"
  shows "mut_content (m\<lparr>mx_host := foldl host_cell (mx_host m)
       (req_hits mut_slice_cells (\<lambda>b. b) (mx_map m) (write_reqs ws))\<rparr>) =
     foldl (\<lambda>c (pa, d). store_bytes (pa_as_u64 pa) d c) (mut_content m) ws"
  using assms
proof (induction ws arbitrary: m)
  case (Cons w ws)
  obtain pa bs where w: "w = (pa, bs)" by (cases w)
  let ?m = "m\<lparr>mx_host := foldl host_cell (mx_host m)
       (mm_hits mut_slice_cells (mx_map m) (unat (pa_address pa)) bs)\<rparr>"
  have "mut_content ?m = store_bytes (pa_as_u64 pa) bs (mut_content m)"
    using mut_content_store [OF Cons.prems(1), of "pa_address pa" bs] Cons.prems(2)
    by (simp add: w pa_as_u64_def as_u64_def)
  then show ?case
    using Cons.IH [of ?m] Cons.prems by (simp add: w req_hits_def write_reqs_def)
qed (simp add: req_hits_def write_reqs_def)

section \<open>Files\<close>

text \<open>
  What the file connector relies on: a seek sets the position, and reading a range that
  lies inside the data gives these bytes.
\<close>

locale seek_read =
  fixes rd :: "'r reader_ops"
    and rd_ok :: "'r \<Rightarrow> bool"
    and rd_data :: "'r \<Rightarrow> u8 list"
    and rd_pos :: "'r \<Rightarrow> u64"
  assumes seek_law: "rd_ok r \<Longrightarrow> \<exists>r'. rd_seek rd r p = (True, r') \<and> rd_ok r' \<and>
      rd_data r' = rd_data r \<and> rd_pos r' = p"
    and read_law: "rd_ok r \<Longrightarrow> buf = [] \<or> unat (rd_pos r) + length buf \<le> length (rd_data r) \<Longrightarrow>
      \<exists>r'. rd_read_exact rd r buf = (True, take (length buf) (drop (unat (rd_pos r)) (rd_data r)), r') \<and>
        rd_ok r' \<and> rd_data r' = rd_data r"

text \<open>
  \<open>std::io::Cursor<Vec<u8>>\<close>: reading behind the end fails with the buffer filled as far as
  there are bytes, writing extends the data. At most \<open>limit\<close> bytes are written by a call.
\<close>

record cursor =
  cur_data :: "u8 list"
  cur_pos :: u64

definition cursor_ops :: "nat \<Rightarrow> cursor reader_ops" where
  "cursor_ops limit = \<lparr>
     rd_seek = (\<lambda>r p. (True, r\<lparr>cur_pos := p\<rparr>)),
     rd_read_exact = (\<lambda>r buf.
        let got = take (length buf) (drop (unat (cur_pos r)) (cur_data r))
        in (length got = length buf, got @ drop (length got) buf,
            r\<lparr>cur_pos := cur_pos r + len_usize got\<rparr>)),
     rd_write = (\<lambda>r buf.
        let n = min limit (length buf); p = unat (cur_pos r);
            old = cur_data r @ replicate (p - length (cur_data r)) 0
        in (Some (of_nat n), \<lparr>cur_data = take p old @ take n buf @ drop (p + n) old,
                              cur_pos = cur_pos r + of_nat n\<rparr>))\<rparr>"

interpretation cursor: seek_read "cursor_ops limit" "\<lambda>_. True" cur_data cur_pos for limit
  by unfold_locales (auto simp: cursor_ops_def Let_def)

text \<open>The file offsets behind a map, and the content they give.\<close>

definition file_val :: "u8 list \<Rightarrow> address \<times> unit \<Rightarrow> u8" where
  "file_val data c = data ! unat (fst c)"

definition file_content :: "u8 list \<Rightarrow> (address \<times> usize) memory_map \<Rightarrow> u64 \<Rightarrow> u8 option" where
  "file_content data maps = map_content (pair_cells usize_cells) (file_val data) maps"

definition inside_file :: "u8 list \<Rightarrow> (address \<times> usize) memory_map \<Rightarrow> bool" where
  "inside_file data maps \<longleftrightarrow> length data < 9223372036854775808 \<and>
     (\<forall>x p u. mm_at (pair_cells usize_cells) maps x = Some (p, u) \<longrightarrow> unat p < length data)"

lemma file_range:
  assumes "\<forall>c \<in> set (pair_cells usize_cells (off, n)). unat (fst c) < length data"
    and "length data < 9223372036854775808" and "0 < unat n"
  shows "k < unat n \<Longrightarrow> unat (off + of_nat k) = unat off + k"
    and "unat off + unat n \<le> length data"
proof -
  have c: "unat (off + of_nat k) < length data" if "k < unat n" for k
  proof -
    have "pair_cells usize_cells (off, n) ! k = (off + of_nat k, ())"
      using that by (simp add: pair_cells_def usize_cells_def addr_cells_nth)
    then have "(off + of_nat k, ()) \<in> set (pair_cells usize_cells (off, n))"
      using that nth_mem [of k "pair_cells usize_cells (off, n)"]
      by (simp add: pair_cells_def usize_cells_def)
    then show ?thesis using assms(1) by fastforce
  qed
  have e: "unat (off + of_nat k) = unat off + k" if "k < unat n" for k
    using that
  proof (induction k)
    case (Suc k)
    then have k: "unat (off + of_nat k) = unat off + k" by simp
    have "unat (off + of_nat k) < length data" using c [of k] Suc.prems by simp
    then have "unat (off + of_nat k) \<noteq> 18446744073709551615" using assms(2) by linarith
    from unat_Suc_64 [OF this] show ?case using k by (simp add: algebra_simps)
  qed simp
  show "k < unat n \<Longrightarrow> unat (off + of_nat k) = unat off + k" by (rule e)
  show "unat off + unat n \<le> length data"
    using c [of "unat n - 1"] e [of "unat n - 1"] assms(3) by simp
qed

lemma file_bytes:
  assumes "\<forall>c \<in> set (pair_cells usize_cells (off, n)). unat (fst c) < length data"
    and "length data < 9223372036854775808"
  shows "map (file_val data) (pair_cells usize_cells (off, n)) = take (unat n) (drop (unat off) data)"
proof (cases "unat n = 0")
  case False
  then have n: "0 < unat n" by simp
  note r = file_range [OF assms n]
  show ?thesis
  proof (rule nth_equalityI)
    fix k assume "k < length (map (file_val data) (pair_cells usize_cells (off, n)))"
    then have k: "k < unat n" by (simp add: pair_cells_def usize_cells_def)
    then show "map (file_val data) (pair_cells usize_cells (off, n)) ! k = take (unat n) (drop (unat off) data) ! k"
      using r(1) [OF k] r(2) by (simp add: pair_cells_def usize_cells_def addr_cells_nth file_val_def)
  qed (use r(2) in \<open>simp add: pair_cells_def usize_cells_def\<close>)
qed (simp add: pair_cells_def usize_cells_def)

context seek_read
begin

lemma fio_body:
  assumes r: "rd_ok r" "rd_data r = data" "length data < 9223372036854775808"
    and m: "\<forall>c \<in> set (pair_cells usize_cells m). unat (fst c) < length data"
    and l: "length (pair_cells usize_cells m) = length (mut_slice_cells t)"
    and t: "\<forall>c \<in> set (mut_slice_cells t). cell_ok (map length st) c"
  shows "\<exists>r'. fio_read_body rd (m, t) (r, st) = Some (None, r', foldl set_cell st
      (zip (map (file_val data) (pair_cells usize_cells m)) (mut_slice_cells t))) \<and>
    rd_ok r' \<and> rd_data r' = data"
proof -
  obtain off n where mn: "m = (off, n)" by (cases m)
  have n: "unat (ms_len t) = unat n"
    using l by (simp add: mn pair_cells_def usize_cells_def mut_slice_cells_def)
  let ?buf = "slice_bytes t st"
  have bl: "length ?buf = unat n" using slice_bytes_length [OF t] n by simp
  obtain r1 where r1: "rd_seek rd r off = (True, r1)" "rd_ok r1" "rd_data r1 = data" "rd_pos r1 = off"
    using seek_law [OF r(1), of off] r(2) by auto
  have "?buf = [] \<or> unat (rd_pos r1) + length ?buf \<le> length (rd_data r1)"
    using file_range(2) [OF m [unfolded mn] r(3)] bl r1(3,4) by (cases "unat n") auto
  from read_law [OF r1(2) this] obtain r2 where r2:
    "rd_read_exact rd r1 ?buf = (True, take (unat n) (drop (unat off) data), r2)"
    "rd_ok r2" "rd_data r2 = data"
    unfolding bl r1(3,4) by blast
  have "copy_from_slice t (map (file_val data) (pair_cells usize_cells m)) st =
      Some (foldl set_cell st (zip (map (file_val data) (pair_cells usize_cells m)) (mut_slice_cells t)))"
    using l t by (intro copy_from_slice_cells) simp_all
  then have "copy_from_slice t (take (unat n) (drop (unat off) data)) st =
      Some (foldl set_cell st (zip (map (file_val data) (pair_cells usize_cells m)) (mut_slice_cells t)))"
    using file_bytes [OF m [unfolded mn] r(3)] by (simp add: mn)
  then show ?thesis
    using r1(1) r2 by (simp add: fio_read_body_def mn as_u64_def)
qed

lemma each_fio:
  assumes "rd_ok r" and "rd_data r = data" and "length data < 9223372036854775808"
    and "\<forall>(m, t) \<in> set outs. length (pair_cells usize_cells m) = length (mut_slice_cells t) \<and>
      (\<forall>c \<in> set (pair_cells usize_cells m). unat (fst c) < length data) \<and>
      (\<forall>c \<in> set (mut_slice_cells t). cell_ok (map length st) c)"
  shows "\<exists>r'. each (fio_read_body rd) outs (r, st) = Some (None, r', foldl set_cell st
      (map (apfst (file_val data)) (out_view (pair_cells usize_cells) mut_slice_cells outs))) \<and>
    rd_ok r' \<and> rd_data r' = data"
  using assms
proof (induction outs arbitrary: r st)
  case (Cons x outs)
  obtain m t where x: "x = (m, t)" by (cases x)
  let ?st = "foldl set_cell st (zip (map (file_val data) (pair_cells usize_cells m)) (mut_slice_cells t))"
  obtain r1 where r1: "fio_read_body rd (m, t) (r, st) = Some (None, r1, ?st)" "rd_ok r1" "rd_data r1 = data"
    using fio_body [OF Cons.prems(1-3), of m t st] Cons.prems(4) by (auto simp: x)
  obtain r2 where r2: "each (fio_read_body rd) outs (r1, ?st) = Some (None, r2, foldl set_cell ?st
      (map (apfst (file_val data)) (out_view (pair_cells usize_cells) mut_slice_cells outs)))"
    "rd_ok r2" "rd_data r2 = data"
    using Cons.IH [OF r1(2,3) Cons.prems(3), of ?st] Cons.prems(4)
    by (auto simp: set_cells_shape)
  have "each (fio_read_body rd) (x # outs) (r, st) = Some (None, r2, foldl set_cell st
      (map (apfst (file_val data)) (out_view (pair_cells usize_cells) mut_slice_cells (x # outs))))"
    using r1(1) r2(1) by (simp add: x out_view_def zip_map1 apfst_def map_prod_def case_prod_unfold)
  then show ?case using r2(2,3) by blast
qed (simp add: out_view_def)

lemma fio_read_fills:
  assumes "rd_ok (fio_reader m)" and wf: "mm_wf (pair_ok (\<lambda>_. True)) (pair_cells usize_cells) (fio_map m)"
    and ins: "inside_file (rd_data (fio_reader m)) (fio_map m)" and bufs: "bufs_ok reads"
  shows "\<exists>r'. fio_read_raw_list rd m reads = Some (Inr (),
       fill_bufs (file_content (rd_data (fio_reader m)) (fio_map m)) reads, m\<lparr>fio_reader := r'\<rparr>) \<and>
     rd_ok r' \<and> rd_data r' = rd_data (fio_reader m)"
proof -
  let ?data = "rd_data (fio_reader m)" and ?maps = "fio_map m"
  have q: "\<forall>r \<in> set (read_reqs 0 reads). mut_slice_ok (snd r)"
    using read_reqs_cells(1) [OF _ bufs] by blast
  obtain outs fs s' where y:
    "yields (mi_next (pair_ops usize_ops) mut_slice_ops) (mi_new ?maps (read_reqs 0 reads) []) outs s'"
    "mi_fail s' = [] @ fs" "mi_map s' = ?maps"
    "\<forall>(m, t) \<in> set outs. pair_ok (\<lambda>_. True) m \<and> mut_slice_ok t \<and>
       length (pair_cells usize_cells m) = length (mut_slice_cells t)"
    "out_view (pair_cells usize_cells) mut_slice_cells outs =
       req_hits (pair_cells usize_cells) mut_slice_cells ?maps (read_reqs 0 reads)"
    "fail_view mut_slice_cells fs = req_misses (pair_cells usize_cells) mut_slice_cells ?maps (read_reqs 0 reads)"
    by (rule remap_read.map_yields [OF wf q])
  have ok: "length (pair_cells usize_cells e) = length (mut_slice_cells t) \<and>
      (\<forall>c \<in> set (pair_cells usize_cells e). unat (fst c) < length ?data) \<and>
      (\<forall>c \<in> set (mut_slice_cells t). cell_ok (map length (map snd reads)) c)"
    if mt: "(e, t) \<in> set outs" for e t
  proof (intro conjI ballI)
    show l: "length (pair_cells usize_cells e) = length (mut_slice_cells t)" using y(4) mt by blast
    fix c assume "c \<in> set (mut_slice_cells t)"
    from out_view_cell [where mcells = "pair_cells usize_cells" and tcells = mut_slice_cells, OF mt l this]
    obtain mc where "(mc, c) \<in> set (req_hits (pair_cells usize_cells) mut_slice_cells ?maps (read_reqs 0 reads))"
      unfolding y(5) by blast
    from req_hits_cells [OF this] obtain r where
      "r \<in> set (read_reqs 0 reads)" "c \<in> set (mut_slice_cells (snd r))" by blast
    then show "cell_ok (map length (map snd reads)) c" by (rule read_reqs_cells(2) [OF _ bufs])
  next
    fix c assume c: "c \<in> set (pair_cells usize_cells e)"
    have l: "length (pair_cells usize_cells e) = length (mut_slice_cells t)" using y(4) mt by blast
    from out_view_mapped [where mcells = "pair_cells usize_cells" and tcells = mut_slice_cells, OF mt l c]
    obtain d where "(c, d) \<in> set (req_hits (pair_cells usize_cells) mut_slice_cells ?maps (read_reqs 0 reads))"
      unfolding y(5) by blast
    from req_hits_mapped [OF this] obtain x where "mm_at (pair_cells usize_cells) ?maps x = Some c"
      by blast
    then show "unat (fst c) < length ?data"
      using ins unfolding inside_file_def by (cases c) auto
  qed
  have d: "length ?data < 9223372036854775808" using ins by (simp add: inside_file_def)
  obtain r' where r': "each (fio_read_body rd) outs (fio_reader m, map snd reads) = Some (None, r',
      foldl set_cell (map snd reads) (map (apfst (file_val ?data)) (out_view (pair_cells usize_cells) mut_slice_cells outs)))"
    "rd_ok r'" "rd_data r' = ?data"
    using each_fio [OF assms(1) refl d, of outs "map snd reads"] ok by blast
  have "foldl set_cell (map snd reads) (map (apfst (file_val ?data)) (out_view (pair_cells usize_cells) mut_slice_cells outs))
      = fill_bufs (file_content ?data ?maps) reads"
    using reqs_fill_bufs [OF wf bufs, of "[]" "file_val ?data"] by (simp add: y(5) file_content_def)
  with r' yields_for_loop [OF y(1), of "fio_read_body rd" "(fio_reader m, map snd reads)"] y(3)
  have "fio_read_raw_list rd m reads = Some (Inr (),
       fill_bufs (file_content ?data ?maps) reads, m\<lparr>fio_reader := r'\<rparr>)"
    by (simp add: fio_read_raw_list_def read_slices_reqs fio_result_def)
  then show ?thesis using r'(2,3) by blast
qed

end

text \<open>A map whose file offsets lie inside the file: the connector is a readable memory.\<close>

sublocale seek_read \<subseteq> fio: readable_memory "file_io_memory rd"
  "\<lambda>m. rd_ok (fio_reader m) \<and> mm_wf (pair_ok (\<lambda>_. True)) (pair_cells usize_cells) (fio_map m) \<and>
     inside_file (rd_data (fio_reader m)) (fio_map m)"
  "\<lambda>m. file_content (rd_data (fio_reader m)) (fio_map m)"
proof
  fix m :: "'r file_io" and reads
  assume "rd_ok (fio_reader m) \<and> mm_wf (pair_ok (\<lambda>_. True)) (pair_cells usize_cells) (fio_map m) \<and>
     inside_file (rd_data (fio_reader m)) (fio_map m)" "bufs_ok reads"
  then show "\<exists>m'. pm_read_raw_list (file_io_memory rd) m reads =
      Some (Inr (), fill_bufs (file_content (rd_data (fio_reader m)) (fio_map m)) reads, m') \<and>
      (rd_ok (fio_reader m') \<and> mm_wf (pair_ok (\<lambda>_. True)) (pair_cells usize_cells) (fio_map m') \<and>
       inside_file (rd_data (fio_reader m')) (fio_map m')) \<and>
      file_content (rd_data (fio_reader m')) (fio_map m') = file_content (rd_data (fio_reader m)) (fio_map m)"
    using fio_read_fills [of m reads] by (force simp: file_io_memory_def)
qed

section \<open>The slices of a mapped file\<close>

definition slice_inside :: "address \<Rightarrow> usize \<Rightarrow> mut_slice \<Rightarrow> bool" where
  "slice_inside buf_ptr buf_len s \<longleftrightarrow>
     unat buf_ptr \<le> ms_ptr s \<and> ms_ptr s + unat (ms_len s) \<le> unat buf_ptr + unat buf_len"

lemma slice_inside_from_raw:
  assumes "\<not> buf_len \<le> o_base" and "unat o_base + unat sz < 18446744073709551616"
    and "unat buf_ptr + unat buf_len \<le> 18446744073709551616"
  shows "slice_inside buf_ptr buf_len
     (from_raw_parts_mut (buf_ptr + o_base) (min (o_base + sz) buf_len - o_base))"
proof -
  have o: "unat o_base < unat buf_len" using assms(1) by (simp add: word_le_nat_alt)
  have e: "unat (o_base + sz) = unat o_base + unat sz" by (rule unat_add_nowrap [OF assms(2)])
  have m: "unat (min (o_base + sz) buf_len) = min (unat o_base + unat sz) (unat buf_len)"
    by (simp add: unat_min e)
  have "unat (min (o_base + sz) buf_len - o_base) = min (unat o_base + unat sz) (unat buf_len) - unat o_base"
    using o m by (subst unat_sub_nowrap) simp_all
  moreover have "unat (buf_ptr + o_base) = unat buf_ptr + unat o_base"
    using o assms(3) by (intro unat_add_nowrap) linarith
  ultimately show ?thesis
    using o by (simp add: slice_inside_def from_raw_parts_mut_def)
qed

lemma mm_push_set:
  "mm_push mops maps base out = Some maps' \<Longrightarrow> e \<in> set maps' \<Longrightarrow>
     e \<in> set maps \<or> mp_output e = out"
  by (auto simp: mm_push_def split: Option.bind_splits dest: in_set_takeD in_set_dropD)

lemma bufmap_inside:
  assumes "bufmap_loop mut_slice_ops from_raw_parts_mut buf_ptr buf_len regions new_map = Some (Inr m)"
    and "\<forall>(base, o_base, sz) \<in> set regions. unat o_base + unat sz < 18446744073709551616"
    and "unat buf_ptr + unat buf_len \<le> 18446744073709551616"
    and "\<forall>e \<in> set new_map. slice_inside buf_ptr buf_len (mp_output e)"
  shows "\<forall>e \<in> set m. slice_inside buf_ptr buf_len (mp_output e)"
  using assms
proof (induction mut_slice_ops from_raw_parts_mut buf_ptr buf_len regions new_map
    rule: bufmap_loop.induct)
  case (2 buf_ptr buf_len base o_base sz rest new_map)
  have n: "\<not> buf_len \<le> o_base" using 2(2) by (auto simp: as_usize_def split: if_splits)
  let ?s = "from_raw_parts_mut (buf_ptr + o_base) (min (o_base + sz) buf_len - o_base)"
  obtain maps' where p: "mm_push mut_slice_ops new_map base ?s = Some maps'"
    "bufmap_loop mut_slice_ops from_raw_parts_mut buf_ptr buf_len rest maps' = Some (Inr m)"
    using 2(2) n by (auto simp: as_usize_def Let_def split: Option.bind_splits)
  have "slice_inside buf_ptr buf_len ?s"
    using 2(3,4) n by (intro slice_inside_from_raw) auto
  then have "\<forall>e \<in> set maps'. slice_inside buf_ptr buf_len (mp_output e)"
    using mm_push_set [OF p(1)] 2(5) by metis
  then show ?case
    using 2(1) [OF _ refl, of maps'] p 2(3,4) n by (simp add: as_usize_def)
qed simp

lemma bufmap_starts:
  "bufmap_loop mops slice_at buf_ptr buf_len regions new_map = Some (Inr m) \<Longrightarrow>
     \<forall>(base, o_base, sz) \<in> set regions. o_base < buf_len"
  by (induction mops slice_at buf_ptr buf_len regions new_map rule: bufmap_loop.induct)
    (auto simp: as_usize_def Let_def split: Option.bind_splits if_splits)

text \<open>A region above the last mapping is appended.\<close>

lemma mm_push_above:
  assumes "maps = [] \<or> mp_end mops (last maps) \<le> base"
    and "base \<le> address_add base (so_length mops out)"
  shows "mm_push mops maps base out = Some (maps @ [\<lparr>mp_base = base, mp_output = out\<rparr>])"
proof (cases maps rule: rev_cases)
  case (snoc ms m)
  then have "\<not> push_overlap mops base (address_add base (so_length mops out)) m" "mp_end mops m \<le> base"
    using assms by (auto simp: push_overlap_def)
  then show ?thesis by (simp add: snoc mm_push_def)
qed (simp add: mm_push_def)

definition cut_region :: "address \<Rightarrow> usize \<Rightarrow> (address \<times> usize) mapping \<Rightarrow> mut_slice mapping" where
  "cut_region buf_ptr buf_len e = \<lparr>mp_base = mp_base e, mp_output =
     \<lparr>ms_alloc = 0, ms_ptr = unat buf_ptr + unat (fst (mp_output e)),
      ms_len = min (snd (mp_output e)) (buf_len - fst (mp_output e))\<rparr>\<rparr>"

lemma cut_slice:
  assumes "o_base < buf_len" and "unat o_base + unat sz < 18446744073709551616"
    and "unat buf_ptr + unat buf_len \<le> 18446744073709551616"
  shows "from_raw_parts_mut (buf_ptr + o_base) (min (o_base + sz) buf_len - o_base) =
     \<lparr>ms_alloc = 0, ms_ptr = unat buf_ptr + unat o_base, ms_len = min sz (buf_len - o_base)\<rparr>"
proof -
  have o: "unat o_base < unat buf_len" using assms(1) by (simp add: word_less_nat_alt)
  have e: "unat (o_base + sz) = unat o_base + unat sz" by (rule unat_add_nowrap [OF assms(2)])
  have d: "unat (buf_len - o_base) = unat buf_len - unat o_base"
    using o by (intro unat_sub_nowrap) simp
  have "unat (min (o_base + sz) buf_len - o_base) = min (unat o_base + unat sz) (unat buf_len) - unat o_base"
    using o by (subst unat_sub_nowrap) (simp_all add: unat_min e)
  then have "unat (min (o_base + sz) buf_len - o_base) = unat (min sz (buf_len - o_base))"
    using o by (simp add: unat_min d)
  moreover have "unat (buf_ptr + o_base) = unat buf_ptr + unat o_base"
    using o assms(3) by (intro unat_add_nowrap) linarith
  ultimately show ?thesis by (simp add: from_raw_parts_mut_def word_unat_eq_iff)
qed

lemma cut_end:
  assumes "mp_hi (pair_cells usize_cells) e < 18446744073709551616"
  shows "unat (mp_end mut_slice_ops (cut_region buf_ptr buf_len e)) \<le> mp_hi (pair_cells usize_cells) e"
    and "mp_base e \<le> address_add (mp_base e) (ms_len (mp_output (cut_region buf_ptr buf_len e)))"
proof -
  let ?n = "min (snd (mp_output e)) (buf_len - fst (mp_output e))"
  have h: "mp_hi (pair_cells usize_cells) e = unat (mp_base e) + unat (snd (mp_output e))"
    by (cases "mp_output e") (simp add: mp_hi_def pair_cells_def usize_cells_def)
  have n: "unat ?n \<le> unat (snd (mp_output e))" by (simp add: unat_min)
  then have "unat (mp_base e + ?n) = unat (mp_base e) + unat ?n"
    using assms unfolding h by (intro unat_add_nowrap) linarith
  then show "unat (mp_end mut_slice_ops (cut_region buf_ptr buf_len e)) \<le> mp_hi (pair_cells usize_cells) e"
    "mp_base e \<le> address_add (mp_base e) (ms_len (mp_output (cut_region buf_ptr buf_len e)))"
    using n by (simp_all add: h mp_end_def cut_region_def address_add_def mut_slice_ops_def word_le_nat_alt)
qed

lemma bufmap_cut:
  assumes "\<forall>e \<in> set (ds @ maps). mp_hi (pair_cells usize_cells) e < 18446744073709551616"
    and "sorted_wrt (\<lambda>e e'. mp_hi (pair_cells usize_cells) e \<le> unat (mp_base e')) (ds @ maps)"
    and "\<forall>e \<in> set maps. unat (fst (mp_output e)) + unat (snd (mp_output e)) < 18446744073709551616"
    and "unat buf_ptr + unat buf_len \<le> 18446744073709551616"
  shows "bufmap_loop mut_slice_ops from_raw_parts_mut buf_ptr buf_len (mm_into_iter maps)
      (map (cut_region buf_ptr buf_len) ds) =
     Some (if \<exists>e \<in> set maps. buf_len \<le> fst (mp_output e)
           then Inl (Connector ''Memory map is out of range'')
           else Inr (map (cut_region buf_ptr buf_len) (ds @ maps)))"
  using assms(1-3)
proof (induction maps arbitrary: ds)
  case Nil
  then show ?case by (simp add: mm_into_iter_def)
next
  case (Cons e maps)
  obtain off sz where o: "mp_output e = (off, sz)" by (cases "mp_output e")
  show ?case
  proof (cases "buf_len \<le> off")
    case True
    then show ?thesis by (simp add: mm_into_iter_def o as_usize_def)
  next
    case False
    then have off: "off < buf_len" by simp
    let ?s = "from_raw_parts_mut (buf_ptr + off) (min (off + sz) buf_len - off)"
    have s: "?s = mp_output (cut_region buf_ptr buf_len e)"
      using cut_slice [OF off _ assms(4), of sz] Cons.prems(3) by (simp add: cut_region_def o)
    have "map (cut_region buf_ptr buf_len) ds = [] \<or>
        mp_end mut_slice_ops (last (map (cut_region buf_ptr buf_len) ds)) \<le> mp_base e"
    proof (cases ds rule: rev_cases)
      case (snoc ds' d)
      then have "mp_hi (pair_cells usize_cells) d \<le> unat (mp_base e)" "mp_hi (pair_cells usize_cells) d < 18446744073709551616"
        using Cons.prems by (auto simp: sorted_wrt_append)
      then show ?thesis using cut_end(1) [of d buf_ptr buf_len] by (simp add: snoc word_le_nat_alt)
    qed simp
    moreover have "mp_base e \<le> address_add (mp_base e) (so_length mut_slice_ops ?s)"
      using cut_end(2) [of e buf_ptr buf_len] Cons.prems(1) by (simp add: s mut_slice_ops_def)
    ultimately have "mm_push mut_slice_ops (map (cut_region buf_ptr buf_len) ds) (mp_base e) ?s =
        Some (map (cut_region buf_ptr buf_len) (ds @ [e]))"
      by (simp add: mm_push_above s) (simp add: cut_region_def)
    then show ?thesis
      using Cons.IH [of "ds @ [e]"] Cons.prems False
      by (simp add: mm_into_iter_def o as_usize_def Let_def)
  qed
qed

section \<open>Properties\<close>

text \<open>
  C40. Reading through a shared mapping whose regions are in ascending order, not empty and end
  below the end of the address space (as for the exclusive one), into buffers no longer than
  the largest size of an allocation: the read succeeds, fills every byte of the requests that
  the map backs with the byte behind it, leaves the other bytes of the buffers as they were,
  and keeps the map. A write is refused with an error and changes nothing.
\<close>

theorem shared_mapping_reads:
  assumes "mm_wf slice_ok (\<lambda>xs. xs) maps" and "bufs_ok reads"
  shows "shared_read_raw_list maps reads = Some (Inr (), map (\<lambda>(pa, buf).
      map (\<lambda>j. case mm_at (\<lambda>xs. xs) maps (unat (pa_address pa) + j) of Some v \<Rightarrow> v | None \<Rightarrow> buf ! j)
        [0..<length buf]) reads, maps) \<and>
    shared_write_raw_list maps ws = Some (Inl (Connector ''Target mapping is not writeable''), maps)"
proof -
  obtain it where it: "for_loop (mi_next slice_ops mut_slice_ops) (copy_body (\<lambda>b. b))
         (mm_map_iter maps (read_slices reads) []) (map snd reads) =
      Some (None, fill_bufs (map_content (\<lambda>xs. xs) id maps) reads, it)" "mi_map it = maps"
    by (rule read_loop_fills [OF shared_read.memory_mapping_axioms assms]) (rule list.map_id [symmetric])
  then show ?thesis
    by (simp add: shared_read_raw_list_def shared_write_raw_list_def fill_bufs_def fill_buf_def
        byte_at_map [OF assms(1)] pa_as_u64_def as_u64_def option.map_id)
qed

theorem shared_mapping_reads_witness:
  "shared_read_raw_list example_map [(pa_from_address 0x11, [7, 7, 7]), (pa_from_address 0x20, [7])] =
     Some (Inr (), [[2, 3, 7], [4]], example_map)"
  using shared_mapping_reads [OF example_map_wf,
      of "[(pa_from_address 0x11, [7, 7, 7]), (pa_from_address 0x20, [7])]" "[]"]
  by (simp add: bufs_ok_def pa_from_address_def mm_at_def example_map_def mp_hi_def upt_rec)

text \<open>
  C16. A write through an exclusive mapping whose regions are in ascending order, not empty
  and end below the end of the address space (the order that \<open>push\<close> keeps for a region with
  another one below it, and loses for a region pushed below all others), and that maps no
  byte twice: when no buffer exceeds the largest size of an allocation and no request wraps
  past the end of the address space, the write succeeds, keeps the map, and refines the
  reference memory: the mapped bytes of each request are stored in order, and nothing else
  changes.
\<close>

theorem exclusive_mapping_writes:
  assumes "mm_wf mut_slice_ok mut_slice_cells (mx_map m)" and "backed_once (mx_map m)"
    and "bufs_ok ws"
    and "\<forall>(pa, bs) \<in> set ws. unat (pa_address pa) + length bs \<le> 18446744073709551616"
  shows "\<exists>m'. mut_write_raw_list m ws = Some (Inr (), m') \<and> mx_map m' = mx_map m \<and>
     pm_write_raw_list reference_memory (mut_content m) ws = Some (Inr (), mut_content m')"
  using mut_write_hits [OF assms(1,3)] mut_content_stores [OF assms(2,4)]
  by (simp add: reference_memory_def)

definition example_mut :: mapped_mut where
  "example_mut = \<lparr>mx_map = [\<lparr>mp_base = 0x10, mp_output = \<lparr>ms_alloc = 0, ms_ptr = 100, ms_len = 2\<rparr>\<rparr>],
     mx_host = (\<lambda>_. 0)\<rparr>"

lemma example_mut_at:
  "mm_at mut_slice_cells (mx_map example_mut) x =
     (if 16 \<le> x \<and> x < 18 then Some (0, 100 + (x - 16)) else None)"
proof -
  have "16 \<le> x \<and> x < 18 \<longleftrightarrow> x = 16 \<or> x = 17" by linarith
  then show ?thesis
    by (auto simp: mm_at_def example_mut_def mp_hi_def mut_slice_cells_def)
qed

lemma example_mut_ok:
  "mm_wf mut_slice_ok mut_slice_cells (mx_map example_mut)" "backed_once (mx_map example_mut)"
  by (simp add: example_mut_def mm_wf_def mut_slice_ok_def mut_slice_cells_def mp_hi_def)
    (simp add: backed_once_def example_mut_at)

theorem exclusive_mapping_writes_witness:
  "\<exists>m'. mut_write_raw_list example_mut [(pa_from_address 0xF, [1, 2])] = Some (Inr (), m') \<and>
     mut_content m' 0x10 = Some 2"
proof -
  have "\<exists>m'. mut_write_raw_list example_mut [(pa_from_address 0xF, [1, 2])] = Some (Inr (), m') \<and>
     mx_map m' = mx_map example_mut \<and>
     pm_write_raw_list reference_memory (mut_content example_mut) [(pa_from_address 0xF, [1, 2])] =
       Some (Inr (), mut_content m')"
    by (rule exclusive_mapping_writes [OF example_mut_ok]) (simp_all add: bufs_ok_def pa_from_address_def)
  moreover have "mut_content example_mut 0x10 \<noteq> None"
    by (simp add: mut_content_def map_content_def example_mut_at)
  then have "store_bytes 0xF [1, 2] (mut_content example_mut) 0x10 = Some 2"
    by (simp add: store_bytes_def)
  ultimately show ?thesis
    by (auto simp: reference_memory_def pa_as_u64_def as_u64_def pa_from_address_def)
qed

text \<open>
  C18. A map of a file, for offsets that do not wrap and a mapping of the file inside the
  address space. Whatever the order of the regions: when a map is made, every region starts
  inside the file and every slice of the result lies inside the mapping of the file. When the
  regions are in order, not empty and end below the top of the address space, the call does
  not panic: it is refused with the error that the map is out of range exactly when some
  region starts at or behind the end of the file, and otherwise keeps every region, at its
  base, as the bytes from its offset on, cut at the end of the file.
\<close>

theorem file_map_is_cut:
  assumes "\<forall>e \<in> set maps. unat (fst (mp_output e)) + unat (snd (mp_output e)) < 18446744073709551616"
    and "unat buf_ptr + unat buf_len \<le> 18446744073709551616"
  shows "(\<forall>m. try_with_bufmap_mut host buf_ptr buf_len maps = Some (Inr m) \<longrightarrow>
      (\<forall>e \<in> set maps. fst (mp_output e) < buf_len) \<and>
      (\<forall>e \<in> set (mx_map m). unat buf_ptr \<le> ms_ptr (mp_output e) \<and>
         ms_ptr (mp_output e) + unat (ms_len (mp_output e)) \<le> unat buf_ptr + unat buf_len)) \<and>
    (mm_wf (pair_ok (\<lambda>_. True)) (pair_cells usize_cells) maps \<longrightarrow>
      try_with_bufmap_mut host buf_ptr buf_len maps =
        Some (if \<exists>e \<in> set maps. buf_len \<le> fst (mp_output e)
              then Inl (Connector ''Memory map is out of range'')
              else Inr \<lparr>mx_map = map (\<lambda>e. \<lparr>mp_base = mp_base e, mp_output =
                     \<lparr>ms_alloc = 0, ms_ptr = unat buf_ptr + unat (fst (mp_output e)),
                      ms_len = min (snd (mp_output e)) (buf_len - fst (mp_output e))\<rparr>\<rparr>) maps,
                   mx_host = host\<rparr>))"
proof (intro conjI impI allI)
  fix m
  assume "try_with_bufmap_mut host buf_ptr buf_len maps = Some (Inr m)"
  then obtain z where z: "bufmap_loop mut_slice_ops from_raw_parts_mut buf_ptr buf_len
      (mm_into_iter maps) [] = Some z" "map_sum id (\<lambda>m. \<lparr>mx_map = m, mx_host = host\<rparr>) z = Inr m"
    by (auto simp: try_with_bufmap_mut_def mm_new_def)
  then have mm: "bufmap_loop mut_slice_ops from_raw_parts_mut buf_ptr buf_len
      (mm_into_iter maps) [] = Some (Inr (mx_map m))" by (cases z) auto
  have nowrap: "\<forall>(base, o_base, sz) \<in> set (mm_into_iter maps). unat o_base + unat sz < 18446744073709551616"
    using assms(1) by (auto simp: mm_into_iter_def)
  show "(\<forall>e \<in> set maps. fst (mp_output e) < buf_len)"
    using bufmap_starts [OF mm] by (force simp: mm_into_iter_def)
  show "\<forall>e \<in> set (mx_map m). unat buf_ptr \<le> ms_ptr (mp_output e) \<and>
         ms_ptr (mp_output e) + unat (ms_len (mp_output e)) \<le> unat buf_ptr + unat buf_len"
    using bufmap_inside [OF mm nowrap assms(2)] by (simp add: slice_inside_def)
next
  assume wf: "mm_wf (pair_ok (\<lambda>_. True)) (pair_cells usize_cells) maps"
  have "\<forall>e \<in> set ([] @ maps). mp_hi (pair_cells usize_cells) e < 18446744073709551616"
    "sorted_wrt (\<lambda>e e'. mp_hi (pair_cells usize_cells) e \<le> unat (mp_base e')) ([] @ maps)"
    using wf by (auto simp: mm_wf_def)
  from bufmap_cut [OF this assms]
  show "try_with_bufmap_mut host buf_ptr buf_len maps =
        Some (if \<exists>e \<in> set maps. buf_len \<le> fst (mp_output e)
              then Inl (Connector ''Memory map is out of range'')
              else Inr \<lparr>mx_map = map (\<lambda>e. \<lparr>mp_base = mp_base e, mp_output =
                     \<lparr>ms_alloc = 0, ms_ptr = unat buf_ptr + unat (fst (mp_output e)),
                      ms_len = min (snd (mp_output e)) (buf_len - fst (mp_output e))\<rparr>\<rparr>) maps,
                   mx_host = host\<rparr>)"
    by (simp add: try_with_bufmap_mut_def mm_new_def cut_region_def [abs_def])
qed

lemma file_map_is_cut_witness:
  "try_with_bufmap_mut (\<lambda>_. 0) 0x7000 0x100 [\<lparr>mp_base = 0x1000, mp_output = (0x80, 0x1000)\<rparr>] =
     Some (Inr \<lparr>mx_map = [\<lparr>mp_base = 0x1000, mp_output = \<lparr>ms_alloc = 0, ms_ptr = 0x7080, ms_len = 0x80\<rparr>\<rparr>],
       mx_host = (\<lambda>_. 0)\<rparr>)"
proof -
  have l: "length (pair_cells usize_cells (0x80 :: address, 0x1000 :: usize)) = 0x1000"
    by (simp add: pair_cells_def usize_cells_def)
  then have "pair_cells usize_cells (0x80 :: address, 0x1000 :: usize) \<noteq> []"
    by (metis length_0_conv zero_neq_numeral)
  then have "mm_wf (pair_ok (\<lambda>_. True)) (pair_cells usize_cells) [\<lparr>mp_base = 0x1000, mp_output = (0x80, 0x1000)\<rparr>]"
    by (simp add: mm_wf_def pair_ok_def mp_hi_def l)
  then show ?thesis
    using conjunct2 [OF file_map_is_cut [of "[\<lparr>mp_base = 0x1000, mp_output = (0x80, 0x1000)\<rparr>]" "0x7000" "0x100" "\<lambda>_. 0"]]
    by simp
qed

text \<open>
  C17. The file connector over any reader that seeks and reads as the standard traits
  promise: with a map whose offsets lie inside the file and whose regions are in ascending
  order, not empty and end below the end of the address space (not so when a region was
  pushed below all others), and buffers no longer than the largest size of an allocation, a
  read succeeds, fills every mapped byte with the byte of the file at the mapped offset,
  leaves the other bytes, and keeps the file and the map.
\<close>

theorem file_connector_reads:
  assumes "seek_read rd rd_ok rd_data rd_pos" and "rd_ok (fio_reader m)"
    and "mm_wf (pair_ok (\<lambda>_. True)) (pair_cells usize_cells) (fio_map m)"
    and "inside_file (rd_data (fio_reader m)) (fio_map m)" and "bufs_ok reads"
  shows "\<exists>r'. fio_read_raw_list rd m reads = Some (Inr (), map (\<lambda>(pa, buf).
       map (\<lambda>j. case mm_at (pair_cells usize_cells) (fio_map m) (unat (pa_address pa) + j) of
            Some (off, _) \<Rightarrow> rd_data (fio_reader m) ! unat off | None \<Rightarrow> buf ! j) [0..<length buf]) reads,
       m\<lparr>fio_reader := r'\<rparr>) \<and> rd_ok r' \<and> rd_data r' = rd_data (fio_reader m)"
proof -
  have "fill_bufs (file_content (rd_data (fio_reader m)) (fio_map m)) reads = map (\<lambda>(pa, buf).
       map (\<lambda>j. case mm_at (pair_cells usize_cells) (fio_map m) (unat (pa_address pa) + j) of
            Some (off, _) \<Rightarrow> rd_data (fio_reader m) ! unat off | None \<Rightarrow> buf ! j) [0..<length buf]) reads"
    by (auto simp: fill_bufs_def fill_buf_def file_content_def byte_at_map [OF assms(3)]
        pa_as_u64_def as_u64_def file_val_def split: option.splits)
  then show ?thesis
    using seek_read.fio_read_fills [OF assms] by simp
qed

definition example_file :: "cursor file_io" where
  "example_file = \<lparr>fio_reader = \<lparr>cur_data = [1, 2, 3], cur_pos = 0\<rparr>,
     fio_map = [\<lparr>mp_base = 0x10, mp_output = (1, 2)\<rparr>]\<rparr>"

lemma example_file_cells: "pair_cells usize_cells (1, 2) = [(1, ()), (2, ())]"
  by code_simp

lemma example_file_at:
  "mm_at (pair_cells usize_cells) (fio_map example_file) x =
     (if 16 \<le> x \<and> x < 18 then Some ([(1, ()), (2, ())] ! (x - 16)) else None)"
  by (simp add: mm_at_def example_file_def mp_hi_def example_file_cells)

lemma example_file_ok:
  "mm_wf (pair_ok (\<lambda>_. True)) (pair_cells usize_cells) (fio_map example_file)"
  "inside_file (cur_data (fio_reader example_file)) (fio_map example_file)"
proof -
  show "mm_wf (pair_ok (\<lambda>_. True)) (pair_cells usize_cells) (fio_map example_file)"
    by (simp add: example_file_def mm_wf_def pair_ok_def mp_hi_def example_file_cells)
  have "x = 16 \<or> x = 17" if "16 \<le> x" "x < 18" for x :: nat using that by linarith
  then show "inside_file (cur_data (fio_reader example_file)) (fio_map example_file)"
    unfolding inside_file_def example_file_at by (force simp: example_file_def)
qed

theorem file_connector_reads_witness:
  "\<exists>r'. fio_read_raw_list (cursor_ops 0) example_file [(pa_from_address 0x11, [9, 9])] =
     Some (Inr (), [[3, 9]], example_file\<lparr>fio_reader := r'\<rparr>)"
  using file_connector_reads [OF cursor.seek_read_axioms TrueI example_file_ok,
      of "[(pa_from_address 0x11, [9, 9])]" 0]
  by (simp add: bufs_ok_def pa_from_address_def example_file_at upt_rec)
    (auto simp: example_file_def)

text \<open>
  Errors of the file connector: a read behind the end of the file fails with the earlier
  buffers already filled and the later ones untouched; a write that the reader only does in
  part is reported as a success, because the connector calls \<open>write\<close> and drops the count.
\<close>

lemma file_connector_errors:
  "fio_read_raw_list (cursor_ops 100)
     \<lparr>fio_reader = \<lparr>cur_data = [1, 2, 3], cur_pos = 0\<rparr>,
      fio_map = [\<lparr>mp_base = 0x10, mp_output = (0, 8)\<rparr>]\<rparr>
     [(pa_from_address 0x11, [9, 9]), (pa_from_address 0x12, [9, 9]), (pa_from_address 0x10, [9])] =
   Some (Inl (Connector ''Read failed''), [[2, 3], [3, 9], [9]],
     \<lparr>fio_reader = \<lparr>cur_data = [1, 2, 3], cur_pos = 3\<rparr>,
      fio_map = [\<lparr>mp_base = 0x10, mp_output = (0, 8)\<rparr>]\<rparr>) \<and>
   fio_write_raw_list (cursor_ops 1)
     \<lparr>fio_reader = \<lparr>cur_data = [1, 2, 3], cur_pos = 0\<rparr>,
      fio_map = [\<lparr>mp_base = 0x10, mp_output = (0, 8)\<rparr>]\<rparr>
     [(pa_from_address 0x10, [7, 7])] =
   Some (Inr (), \<lparr>fio_reader = \<lparr>cur_data = [7, 2, 3], cur_pos = 1\<rparr>,
      fio_map = [\<lparr>mp_base = 0x10, mp_output = (0, 8)\<rparr>]\<rparr>)"
  by code_simp

end
