(* ===== verification/Cache_Validators.thy ===== *)
theory Cache_Validators
  imports Memflow_Prelude
begin

text \<open>
  The trait \<open>CacheValidator\<close> of \<open>memflow/src/mem/cache/mod.rs\<close> and its implementations
  \<open>count_validator.rs\<close> and \<open>timed_validator.rs\<close>. The clock of the package \<open>coarsetime\<close> is
  a parameter. The locale \<open>cache_validator\<close> is what the caches rely on, and
  \<open>expiring_validator\<close> adds that a slot can be made invalid, which the timed validator
  does not keep.
\<close>

section \<open>The trait\<close>

record 'v validator_ops =
  cv_allocate_slots :: "'v \<Rightarrow> nat \<Rightarrow> 'v"
  cv_update_validity :: "'v \<Rightarrow> 'v"
  cv_is_slot_valid :: "'v \<Rightarrow> nat \<Rightarrow> bool option"
  cv_validate_slot :: "'v \<Rightarrow> nat \<Rightarrow> 'v option"
  cv_invalidate_slot :: "'v \<Rightarrow> nat \<Rightarrow> 'v option"

section \<open>Counting\<close>

record count_validator =
  cc_count :: "usize list"
  cc_valid_count :: usize
  cc_last_count :: usize

definition count_new :: "usize \<Rightarrow> count_validator" where
  "count_new valid_count = \<lparr>cc_count = [], cc_valid_count = valid_count, cc_last_count = 0\<rparr>"

definition count_default :: count_validator where "count_default = count_new 10"

definition count_allocate_slots :: "count_validator \<Rightarrow> nat \<Rightarrow> count_validator" where
  "count_allocate_slots v slot_count =
     v\<lparr>cc_count := vec_resize slot_count (cc_last_count v - cc_valid_count v) (cc_count v)\<rparr>"

definition count_update_validity :: "count_validator \<Rightarrow> count_validator" where
  "count_update_validity v = v\<lparr>cc_last_count := cc_last_count v + 1\<rparr>"

definition count_is_slot_valid :: "count_validator \<Rightarrow> nat \<Rightarrow> bool option" where
  "count_is_slot_valid v slot_id = do {
     c \<leftarrow> index_of (cc_count v) slot_id;
     Some (cc_last_count v - c < cc_valid_count v)
   }"

definition count_validate_slot :: "count_validator \<Rightarrow> nat \<Rightarrow> count_validator option" where
  "count_validate_slot v slot_id =
     map_option (\<lambda>cs. v\<lparr>cc_count := cs\<rparr>) (index_put (cc_count v) slot_id (cc_last_count v))"

text \<open>A plain subtraction, which the release build computes modulo the word size.\<close>

definition count_invalidate_slot :: "count_validator \<Rightarrow> nat \<Rightarrow> count_validator option" where
  "count_invalidate_slot v slot_id =
     map_option (\<lambda>cs. v\<lparr>cc_count := cs\<rparr>)
       (index_put (cc_count v) slot_id (cc_last_count v - cc_valid_count v))"

definition count_ops :: "count_validator validator_ops" where
  "count_ops = \<lparr>
     cv_allocate_slots = count_allocate_slots,
     cv_update_validity = count_update_validity,
     cv_is_slot_valid = count_is_slot_valid,
     cv_validate_slot = count_validate_slot,
     cv_invalidate_slot = count_invalidate_slot\<rparr>"

section \<open>Time\<close>

text \<open>
  A clock: reading it, going back by a duration, the duration between two instants, the
  order of durations, and the duration of a number of milliseconds.
\<close>

record ('k, 'i, 'd) clock =
  ck_now :: "'k \<Rightarrow> 'i \<times> 'k"
  ck_sub :: "'i \<Rightarrow> 'd \<Rightarrow> 'i"
  ck_duration_since :: "'i \<Rightarrow> 'i \<Rightarrow> 'd"
  ck_le :: "'d \<Rightarrow> 'd \<Rightarrow> bool"
  ck_from_millis :: "nat \<Rightarrow> 'd"

record ('k, 'i, 'd) timed_validator =
  tv_time :: "'i list"
  tv_valid_time :: 'd
  tv_last_time :: 'i
  tv_clock :: 'k

definition timed_new :: "('k, 'i, 'd) clock \<Rightarrow> 'k \<Rightarrow> 'd \<Rightarrow> ('k, 'i, 'd) timed_validator" where
  "timed_new ck k valid_time =
     (case ck_now ck k of (now, k) \<Rightarrow>
        \<lparr>tv_time = [], tv_valid_time = valid_time, tv_last_time = now, tv_clock = k\<rparr>)"

definition timed_default :: "('k, 'i, 'd) clock \<Rightarrow> 'k \<Rightarrow> ('k, 'i, 'd) timed_validator" where
  "timed_default ck k = timed_new ck k (ck_from_millis ck 1000)"

definition timed_allocate_slots ::
  "('k, 'i, 'd) clock \<Rightarrow> ('k, 'i, 'd) timed_validator \<Rightarrow> nat \<Rightarrow> ('k, 'i, 'd) timed_validator" where
  "timed_allocate_slots ck v slot_count =
     v\<lparr>tv_time := vec_resize slot_count (ck_sub ck (tv_last_time v) (tv_valid_time v)) (tv_time v)\<rparr>"

definition timed_update_validity ::
  "('k, 'i, 'd) clock \<Rightarrow> ('k, 'i, 'd) timed_validator \<Rightarrow> ('k, 'i, 'd) timed_validator" where
  "timed_update_validity ck v =
     (case ck_now ck (tv_clock v) of (now, k) \<Rightarrow> v\<lparr>tv_last_time := now, tv_clock := k\<rparr>)"

definition timed_is_slot_valid ::
  "('k, 'i, 'd) clock \<Rightarrow> ('k, 'i, 'd) timed_validator \<Rightarrow> nat \<Rightarrow> bool option" where
  "timed_is_slot_valid ck v slot_id = do {
     t \<leftarrow> index_of (tv_time v) slot_id;
     Some (ck_le ck (ck_duration_since ck (tv_last_time v) t) (tv_valid_time v))
   }"

definition timed_validate_slot ::
  "('k, 'i, 'd) timed_validator \<Rightarrow> nat \<Rightarrow> ('k, 'i, 'd) timed_validator option" where
  "timed_validate_slot v slot_id =
     map_option (\<lambda>ts. v\<lparr>tv_time := ts\<rparr>) (index_put (tv_time v) slot_id (tv_last_time v))"

definition timed_invalidate_slot ::
  "('k, 'i, 'd) clock \<Rightarrow> ('k, 'i, 'd) timed_validator \<Rightarrow> nat \<Rightarrow> ('k, 'i, 'd) timed_validator option" where
  "timed_invalidate_slot ck v slot_id =
     map_option (\<lambda>ts. v\<lparr>tv_time := ts\<rparr>)
       (index_put (tv_time v) slot_id (ck_sub ck (tv_last_time v) (tv_valid_time v)))"

definition timed_ops :: "('k, 'i, 'd) clock \<Rightarrow> ('k, 'i, 'd) timed_validator validator_ops" where
  "timed_ops ck = \<lparr>
     cv_allocate_slots = timed_allocate_slots ck,
     cv_update_validity = timed_update_validity ck,
     cv_is_slot_valid = timed_is_slot_valid ck,
     cv_validate_slot = timed_validate_slot,
     cv_invalidate_slot = timed_invalidate_slot ck\<rparr>"

section \<open>The contract\<close>

text \<open>
  Slots below \<open>slots v\<close> can be asked and changed, a slot that has just been validated is
  valid, and validating one slot does not touch another.
\<close>

locale cache_validator =
  fixes ops :: "'v validator_ops"
    and v_ok :: "'v \<Rightarrow> bool"
    and slots :: "'v \<Rightarrow> nat"
  assumes allocate: "v_ok v \<Longrightarrow> v_ok (cv_allocate_slots ops v n) \<and> slots (cv_allocate_slots ops v n) = n"
    and update: "v_ok v \<Longrightarrow> v_ok (cv_update_validity ops v) \<and> slots (cv_update_validity ops v) = slots v"
    and ask: "v_ok v \<Longrightarrow> i < slots v \<Longrightarrow> \<exists>b. cv_is_slot_valid ops v i = Some b"
    and validate: "v_ok v \<Longrightarrow> i < slots v \<Longrightarrow> \<exists>v'. cv_validate_slot ops v i = Some v' \<and> v_ok v' \<and>
      slots v' = slots v \<and> cv_is_slot_valid ops v' i = Some True \<and>
      (\<forall>j < slots v. j \<noteq> i \<longrightarrow> cv_is_slot_valid ops v' j = cv_is_slot_valid ops v j)"
    and invalidate: "v_ok v \<Longrightarrow> i < slots v \<Longrightarrow> \<exists>v'. cv_invalidate_slot ops v i = Some v' \<and> v_ok v' \<and>
      slots v' = slots v"

locale expiring_validator = cache_validator +
  assumes expires: "v_ok v \<Longrightarrow> i < slots v \<Longrightarrow> cv_invalidate_slot ops v i = Some v' \<Longrightarrow>
      cv_is_slot_valid ops v' i = Some False"

interpretation count: expiring_validator count_ops "\<lambda>v. cc_valid_count v \<noteq> 0" "\<lambda>v. length (cc_count v)"
proof
qed (auto simp: count_ops_def count_allocate_slots_def count_update_validity_def count_is_slot_valid_def
    count_validate_slot_def count_invalidate_slot_def length_vec_resize word_neq_0_conv)

text \<open>The law of a clock: no time passes between an instant and itself.\<close>

locale clock_law =
  fixes ck :: "('k, 'i, 'd) clock"
  assumes same_instant: "ck_le ck (ck_duration_since ck t t) d"

sublocale clock_law \<subseteq> timed: cache_validator "timed_ops ck" "\<lambda>_. True" "\<lambda>v. length (tv_time v)"
proof
qed (auto simp: timed_ops_def timed_allocate_slots_def timed_update_validity_def timed_is_slot_valid_def
    timed_validate_slot_def timed_invalidate_slot_def length_vec_resize same_instant split: prod.split)

text \<open>A clock that ticks at every reading.\<close>

definition tick_clock :: "(nat, nat, nat) clock" where
  "tick_clock = \<lparr>ck_now = (\<lambda>k. (k, k + 1)), ck_sub = (-), ck_duration_since = (-), ck_le = (\<le>),
     ck_from_millis = (\<lambda>n. n)\<rparr>"

interpretation tick: clock_law tick_clock
  by unfold_locales (simp add: tick_clock_def)

section \<open>Properties\<close>

text \<open>The counter after \<open>k\<close> updates, and when a slot that is as old as it can be is valid again.\<close>

lemma count_updates: "(count_update_validity ^^ k) w = w\<lparr>cc_last_count := cc_last_count w + of_nat k\<rparr>"
  by (induction k) (simp_all add: count_update_validity_def algebra_simps)

lemma late_count:
  assumes "c \<noteq> (0 :: u64)"
  shows "(of_nat k + c < c) = (18446744073709551616 - unat c \<le> k mod 18446744073709551616)"
proof -
  have k: "unat (of_nat k :: u64) = k mod 18446744073709551616" by (simp add: unat_of_nat)
  have c: "0 < unat c" using assms by (simp add: unat_gt_0)
  show ?thesis
  proof (cases "unat (of_nat k :: u64) + unat c < 18446744073709551616")
    case True
    then show ?thesis
      using unat_add_nowrap [OF True] k by (simp add: word_less_nat_alt)
  next
    case False
    then have "unat (of_nat k + c) = unat (of_nat k :: u64) + unat c - 18446744073709551616"
      using unat_add_wrap [of "of_nat k" c] by simp
    then show ?thesis
      using False c k unat_lt_64 [of "of_nat k"] unat_lt_64 [of c]
      by (simp add: word_less_nat_alt del: unat_lt_64) linarith
  qed
qed

text \<open>
  C21. The counting validator built with a count above zero, exactly. A slot validated and then
  updated \<open>k\<close> times is valid if and only if \<open>k\<close>, modulo the range of the counter, is below that
  count. A slot that was invalidated, and every slot that an allocation adds, is valid only
  when the counter, which wraps, is at most that count away from its value at that time.
  Validating or invalidating a slot and allocating more of them leave the validity of every
  other slot as it was, now and after any number of updates.
\<close>

theorem count_validator_lifetime:
  assumes "i < length (cc_count v)" and "cc_valid_count v \<noteq> 0" and "length (cc_count v) \<le> n"
  shows "\<exists>v1 v2. count_validate_slot v i = Some v1 \<and> count_invalidate_slot v i = Some v2 \<and>
     (\<forall>k. count_is_slot_valid ((count_update_validity ^^ k) v1) i =
        Some (k mod 18446744073709551616 < unat (cc_valid_count v))) \<and>
     (\<forall>k. count_is_slot_valid ((count_update_validity ^^ k) v2) i =
        Some (18446744073709551616 - unat (cc_valid_count v) \<le> k mod 18446744073709551616)) \<and>
     (\<forall>k. \<forall>j \<in> {length (cc_count v)..<n}.
        count_is_slot_valid ((count_update_validity ^^ k) (count_allocate_slots v n)) j =
        Some (18446744073709551616 - unat (cc_valid_count v) \<le> k mod 18446744073709551616)) \<and>
     (\<forall>k. \<forall>j < length (cc_count v). j \<noteq> i \<longrightarrow>
        count_is_slot_valid ((count_update_validity ^^ k) v1) j = count_is_slot_valid ((count_update_validity ^^ k) v) j \<and>
        count_is_slot_valid ((count_update_validity ^^ k) v2) j = count_is_slot_valid ((count_update_validity ^^ k) v) j) \<and>
     (\<forall>k. \<forall>j < length (cc_count v).
        count_is_slot_valid ((count_update_validity ^^ k) (count_allocate_slots v n)) j =
        count_is_slot_valid ((count_update_validity ^^ k) v) j)"
proof -
  let ?c = "cc_valid_count v" and ?l = "cc_last_count v"
  let ?v1 = "v\<lparr>cc_count := (cc_count v)[i := ?l]\<rparr>"
  let ?v2 = "v\<lparr>cc_count := (cc_count v)[i := ?l - ?c]\<rparr>"
  let ?v3 = "v\<lparr>cc_count := cc_count v @ replicate (n - length (cc_count v)) (?l - ?c)\<rparr>"
  have later: "count_is_slot_valid ((count_update_validity ^^ k) w) j =
      Some (?l + of_nat k - cc_count w ! j < ?c)"
    if "j < length (cc_count w)" "cc_last_count w = ?l" "cc_valid_count w = ?c" for k w j
    using that by (simp add: count_updates count_is_slot_valid_def)
  note late = late_count [OF assms(2)]
  have "count_validate_slot v i = Some ?v1" "count_invalidate_slot v i = Some ?v2"
    using assms(1) by (simp_all add: count_validate_slot_def count_invalidate_slot_def)
  moreover have alloc: "count_allocate_slots v n = ?v3"
    using assms(3) by (simp add: count_allocate_slots_def vec_resize_def)
  moreover have "count_is_slot_valid ((count_update_validity ^^ k) ?v1) i =
      Some (k mod 18446744073709551616 < unat ?c)" for k
    using assms(1) by (simp add: later word_less_nat_alt unat_of_nat)
  moreover have "count_is_slot_valid ((count_update_validity ^^ k) ?v2) i =
      Some (18446744073709551616 - unat ?c \<le> k mod 18446744073709551616)" for k
    using assms(1) by (simp add: later late)
  moreover have "count_is_slot_valid ((count_update_validity ^^ k) ?v3) j =
      Some (18446744073709551616 - unat ?c \<le> k mod 18446744073709551616)"
    if "j \<in> {length (cc_count v)..<n}" for k j
  proof -
    have "j - length (cc_count v) < n - length (cc_count v)" using that by auto
    then show ?thesis using that by (simp add: later late nth_append)
  qed
  moreover have "count_is_slot_valid ((count_update_validity ^^ k) ?v3) j =
      count_is_slot_valid ((count_update_validity ^^ k) v) j" if "j < length (cc_count v)" for k j
    using that by (simp add: later nth_append)
  moreover have "count_is_slot_valid ((count_update_validity ^^ k) ?v1) j =
        count_is_slot_valid ((count_update_validity ^^ k) v) j"
      "count_is_slot_valid ((count_update_validity ^^ k) ?v2) j =
        count_is_slot_valid ((count_update_validity ^^ k) v) j"
    if "j < length (cc_count v)" "j \<noteq> i" for k j
    using that by (simp_all add: later)
  ultimately show ?thesis by simp
qed

lemma count_validator_lifetime_witness:
  "\<exists>v1 v2. count_validate_slot (count_allocate_slots (count_new 10) 2) 1 = Some v1 \<and>
     count_invalidate_slot (count_allocate_slots (count_new 10) 2) 1 = Some v2 \<and>
     count_is_slot_valid ((count_update_validity ^^ 9) v1) 1 = Some True \<and>
     count_is_slot_valid ((count_update_validity ^^ 10) v1) 1 = Some False \<and>
     count_is_slot_valid ((count_update_validity ^^ 3) v2) 1 = Some False \<and>
     count_is_slot_valid ((count_update_validity ^^ 3)
       (count_allocate_slots (count_allocate_slots (count_new 10) 2) 4)) 3 = Some False"
proof -
  let ?v = "count_allocate_slots (count_new 10) 2"
  have v: "1 < length (cc_count ?v)" "cc_valid_count ?v \<noteq> 0" "length (cc_count ?v) \<le> 4"
    and c: "unat (cc_valid_count ?v) = 10" "length (cc_count ?v) = 2"
    by (simp_all add: count_allocate_slots_def count_new_def length_vec_resize)
  have three: "(3 :: nat) \<in> {length (cc_count ?v)..<4}" using c(2) by simp
  from count_validator_lifetime [OF v] obtain v1 v2
    where v: "count_validate_slot ?v 1 = Some v1" "count_invalidate_slot ?v 1 = Some v2"
      and v1: "\<And>k. count_is_slot_valid ((count_update_validity ^^ k) v1) 1 =
        Some (k mod 18446744073709551616 < unat (cc_valid_count ?v))"
      and v2: "\<And>k. count_is_slot_valid ((count_update_validity ^^ k) v2) 1 =
        Some (18446744073709551616 - unat (cc_valid_count ?v) \<le> k mod 18446744073709551616)"
      and v3: "\<And>k j. j \<in> {length (cc_count ?v)..<4} \<Longrightarrow>
        count_is_slot_valid ((count_update_validity ^^ k) (count_allocate_slots ?v 4)) j =
        Some (18446744073709551616 - unat (cc_valid_count ?v) \<le> k mod 18446744073709551616)"
    by blast
  show ?thesis
    using v v1 [of 9] v1 [of 10] v2 [of 3] v3 [OF three, of 3] unfolding c by simp
qed

text \<open>
  The timed validator cannot invalidate: when the distance between an instant and the
  instant a duration before it is that duration, a slot stays valid right after
  \<open>invalidate_slot\<close>, and freshly allocated slots are valid although nothing was stored in
  them, until the clock is read again.
\<close>

lemma timed_invalidate_stays_valid:
  assumes "ck_duration_since ck (tv_last_time v) (ck_sub ck (tv_last_time v) (tv_valid_time v)) = tv_valid_time v"
    and "ck_le ck (tv_valid_time v) (tv_valid_time v)"
    and "i < length (tv_time v)" and "length (tv_time v) \<le> j" and "j < n"
  shows "(\<exists>v'. timed_invalidate_slot ck v i = Some v' \<and> timed_is_slot_valid ck v' i = Some True) \<and>
     timed_is_slot_valid ck (timed_allocate_slots ck v n) j = Some True"
  using assms
  by (simp add: timed_invalidate_slot_def timed_allocate_slots_def timed_is_slot_valid_def vec_resize_def
      nth_append)

lemma timed_invalidate_stays_valid_witness:
  "(\<exists>v'. timed_invalidate_slot tick_clock (timed_allocate_slots tick_clock (timed_new tick_clock 5 3) 1) 0 = Some v' \<and>
        timed_is_slot_valid tick_clock v' 0 = Some True) \<and>
     timed_is_slot_valid tick_clock (timed_allocate_slots tick_clock
       (timed_allocate_slots tick_clock (timed_new tick_clock 5 3) 1) 4) 2 = Some True"
  by (rule timed_invalidate_stays_valid)
    (simp_all add: tick_clock_def timed_new_def timed_allocate_slots_def vec_resize_def)

end
