(* ===== verification/Tlb_Cache.thy ===== *)
theory Tlb_Cache
  imports Cache_Validators Mmu_Spec
begin

text \<open>
  The direct mapped translation cache of \<open>memflow/src/mem/cache/tlb_cache.rs\<close>. The
  translator is only asked for the id of the page table of an address, a parameter \<open>tt\<close>
  here. The lemmas give what a lookup returns after each update, and that the cache keeps
  agreeing with a translation of pages.
\<close>

section \<open>Data\<close>

record tlb_entry =
  te_pt_index :: usize
  te_virt_addr :: address
  te_phys_addr :: phys_addr

definition te_create_invalid :: tlb_entry where
  "te_create_invalid = \<lparr>te_pt_index = NOT 0, te_virt_addr = ADDRESS_INVALID, te_phys_addr = PA_INVALID\<rparr>"

record cached_entry =
  ce_pt_index :: usize
  ce_virt_page :: address
  ce_phys_page :: phys_addr

definition CE_INVALID :: cached_entry where
  "CE_INVALID = \<lparr>ce_pt_index = NOT 0, ce_virt_page = ADDRESS_INVALID, ce_phys_page = PA_INVALID\<rparr>"

record 'v tlb_cache =
  tlb_entries :: "cached_entry list"
  tlb_validator :: 'v

section \<open>Operations\<close>

definition tlb_new :: "'v validator_ops \<Rightarrow> usize \<Rightarrow> 'v \<Rightarrow> 'v tlb_cache" where
  "tlb_new vops sz validator =
     \<lparr>tlb_entries = replicate (unat sz) CE_INVALID,
      tlb_validator = cv_allocate_slots vops validator (unat sz)\<rparr>"

text \<open>A division or a remainder by zero panics.\<close>

definition get_cache_index :: "'v tlb_cache \<Rightarrow> address \<Rightarrow> usize \<Rightarrow> nat option" where
  "get_cache_index tlb page_addr page_size =
     (if page_size = 0 \<or> tlb_entries tlb = [] then None
      else Some (unat ((as_u64 page_addr div page_size) mod of_nat (length (tlb_entries tlb)))))"

definition is_read_too_long :: "'v tlb_cache \<Rightarrow> x86_architecture \<Rightarrow> usize \<Rightarrow> bool option" where
  "is_read_too_long tlb arch sz = do {
     page_size \<leftarrow> arch_page_size arch;
     (if page_size = 0 then None else Some (sz div page_size > of_nat (length (tlb_entries tlb))))
   }"

text \<open>The outer \<open>option\<close> is a panic, the inner one says whether the page is cached.\<close>

definition entry_result :: "usize \<Rightarrow> cached_entry \<Rightarrow> address \<Rightarrow> address \<Rightarrow> tlb_entry result" where
  "entry_result page_size entry addr page_address =
     (if pa_is_valid (ce_phys_page entry) \<and> pa_has_page (ce_phys_page entry)
      then Inr \<lparr>te_pt_index = ce_pt_index entry, te_virt_addr = addr,
             te_phys_addr = pa_with_page
               (address_add (page_align (pa_address (ce_phys_page entry)) page_size)
                 (address_sub_addr addr page_address))
               (pa_page_type (ce_phys_page entry)) page_size\<rparr>
      else Inl VirtualTranslate)"

definition try_entry ::
  "'v validator_ops \<Rightarrow> 'v tlb_cache \<Rightarrow> (address \<Rightarrow> usize) \<Rightarrow> address \<Rightarrow> x86_architecture
     \<Rightarrow> tlb_entry result option option" where
  "try_entry vops tlb tt addr arch = do {
     let pt_index = tt addr;
     page_size \<leftarrow> arch_page_size arch;
     page_address \<leftarrow> as_page_aligned addr page_size;
     idx \<leftarrow> get_cache_index tlb page_address page_size;
     entry \<leftarrow> index_of (tlb_entries tlb) idx;
     valid \<leftarrow> (if ce_pt_index entry = pt_index \<and> ce_virt_page entry = page_address
               then cv_is_slot_valid vops (tlb_validator tlb) idx else Some False);
     Some (if valid then Some (entry_result page_size entry addr page_address) else None)
   }"

definition cache_entry ::
  "'v validator_ops \<Rightarrow> 'v tlb_cache \<Rightarrow> (address \<Rightarrow> usize) \<Rightarrow> address \<Rightarrow> phys_addr
     \<Rightarrow> x86_architecture \<Rightarrow> 'v tlb_cache option" where
  "cache_entry vops tlb tt in_addr out_page arch = do {
     let pt_index = tt in_addr;
     page_size \<leftarrow> arch_page_size arch;
     page \<leftarrow> as_page_aligned in_addr page_size;
     idx \<leftarrow> get_cache_index tlb page page_size;
     entries \<leftarrow> index_put (tlb_entries tlb) idx
       \<lparr>ce_pt_index = pt_index, ce_virt_page = page, ce_phys_page = out_page\<rparr>;
     validator \<leftarrow> cv_validate_slot vops (tlb_validator tlb) idx;
     Some (tlb\<lparr>tlb_entries := entries, tlb_validator := validator\<rparr>)
   }"

text \<open>\<open>(start..end).step_by(step).take(n)\<close> for a step that is not zero.\<close>

definition range_step :: "u64 \<Rightarrow> u64 \<Rightarrow> usize \<Rightarrow> nat \<Rightarrow> u64 list" where
  "range_step s e step n =
     map (\<lambda>k. s + of_nat k * step)
       [0..<min n ((unat e - unat s + unat step - 1) div unat step)]"

definition cache_invalid_page ::
  "'v validator_ops \<Rightarrow> usize \<Rightarrow> usize \<Rightarrow> u64 \<Rightarrow> 'v tlb_cache \<Rightarrow> 'v tlb_cache option" where
  "cache_invalid_page vops pt_index page_size i tlb = do {
     let cur_page = address_from_u64 i;
     idx \<leftarrow> get_cache_index tlb cur_page page_size;
     entry \<leftarrow> index_of (tlb_entries tlb) idx;
     free \<leftarrow> (if ce_pt_index entry = NOT 0 \<or> \<not> pa_is_valid (ce_phys_page entry) then Some True
              else map_option Not (cv_is_slot_valid vops (tlb_validator tlb) idx));
     (if free
      then do {
        validator \<leftarrow> cv_validate_slot vops (tlb_validator tlb) idx;
        Some (tlb\<lparr>tlb_entries := (tlb_entries tlb)
                    [idx := \<lparr>ce_pt_index = pt_index, ce_virt_page = cur_page, ce_phys_page = PA_INVALID\<rparr>],
                  tlb_validator := validator\<rparr>)
      }
      else Some tlb)
   }"

fun cache_invalid_loop ::
  "'v validator_ops \<Rightarrow> usize \<Rightarrow> usize \<Rightarrow> u64 list \<Rightarrow> 'v tlb_cache \<Rightarrow> 'v tlb_cache option" where
  "cache_invalid_loop vops pt_index page_size [] tlb = Some tlb"
| "cache_invalid_loop vops pt_index page_size (i # is) tlb = do {
     tlb \<leftarrow> cache_invalid_page vops pt_index page_size i tlb;
     cache_invalid_loop vops pt_index page_size is tlb
   }"

definition cache_invalid_if_uncached ::
  "'v validator_ops \<Rightarrow> 'v tlb_cache \<Rightarrow> (address \<Rightarrow> usize) \<Rightarrow> address \<Rightarrow> usize
     \<Rightarrow> x86_architecture \<Rightarrow> 'v tlb_cache option" where
  "cache_invalid_if_uncached vops tlb tt in_addr invalid_len arch = do {
     let pt_index = tt in_addr;
     page_size \<leftarrow> arch_page_size arch;
     page_addr \<leftarrow> as_page_aligned in_addr page_size;
     end_addr \<leftarrow> as_page_aligned (address_add (address_add in_addr invalid_len) 1) page_size;
     cache_invalid_loop vops pt_index page_size
       (range_step (as_u64 page_addr) (as_u64 end_addr) page_size (length (tlb_entries tlb))) tlb
   }"

section \<open>Well-formed caches\<close>

definition tlb_ok :: "('v \<Rightarrow> bool) \<Rightarrow> ('v \<Rightarrow> nat) \<Rightarrow> 'v tlb_cache \<Rightarrow> bool" where
  "tlb_ok v_ok slots tlb \<longleftrightarrow>
     tlb_entries tlb \<noteq> [] \<and> length (tlb_entries tlb) < 18446744073709551616 \<and>
     v_ok (tlb_validator tlb) \<and> slots (tlb_validator tlb) = length (tlb_entries tlb)"

definition tlb_slot :: "'v tlb_cache \<Rightarrow> usize \<Rightarrow> address \<Rightarrow> nat" where
  "tlb_slot tlb page_size a = (unat a div unat page_size) mod length (tlb_entries tlb)"

text \<open>
  A translation of pages: the table id and the address give the physical address, and all
  addresses of a page go to one frame. A cache agrees with it when every entry, valid or
  not, has the translation of each address it answers for.
\<close>

definition paged :: "usize \<Rightarrow> (usize \<Rightarrow> address \<Rightarrow> address option) \<Rightarrow> bool" where
  "paged page_size tr \<longleftrightarrow>
     (\<forall>t a. tr t a = map_option (\<lambda>f. f + (a - page_align a page_size)) (tr t (page_align a page_size)) \<and>
        (\<forall>f. tr t (page_align a page_size) = Some f \<longrightarrow> page_align f page_size = f \<and> unat f + unat page_size \<le> 18446744073709551616))"

definition agreed :: "address option \<Rightarrow> tlb_entry result \<Rightarrow> bool" where
  "agreed p r \<longleftrightarrow> (case r of Inr e \<Rightarrow> p = Some (pa_address (te_phys_addr e)) | Inl e \<Rightarrow> p = None \<and> e = VirtualTranslate)"

definition tlb_agrees :: "usize \<Rightarrow> (usize \<Rightarrow> address \<Rightarrow> address option) \<Rightarrow> cached_entry list \<Rightarrow> bool" where
  "tlb_agrees page_size tr entries \<longleftrightarrow>
     (\<forall>entry \<in> set entries. \<forall>a. ce_virt_page entry = page_align a page_size \<longrightarrow>
        agreed (tr (ce_pt_index entry) a) (entry_result page_size entry a (page_align a page_size)))"

section \<open>Slots\<close>

lemma get_cache_index_slot:
  assumes "page_size \<noteq> 0" and "tlb_ok v_ok slots tlb"
  shows "get_cache_index tlb (page_align a page_size) page_size = Some (tlb_slot tlb page_size a)"
    and "tlb_slot tlb page_size a < length (tlb_entries tlb)"
proof -
  let ?n = "length (tlb_entries tlb)"
  have n: "0 < ?n" "?n < 18446744073709551616" "tlb_entries tlb \<noteq> []"
    using assms(2) by (auto simp: tlb_ok_def)
  have "unat (page_align a page_size div page_size mod of_nat ?n) = unat a div unat page_size mod ?n"
    by (rule unat_page_slot [OF assms(1) n(2)])
  then show "get_cache_index tlb (page_align a page_size) page_size = Some (tlb_slot tlb page_size a)"
    using assms(1) n(3) by (simp add: get_cache_index_def tlb_slot_def as_u64_def)
  show "tlb_slot tlb page_size a < ?n"
    using n(1) by (simp add: tlb_slot_def)
qed

lemma tlb_slot_page_align [simp]:
  "tlb_slot tlb page_size (page_align a page_size) = tlb_slot tlb page_size a"
  by (cases "unat page_size = 0") (simp_all add: tlb_slot_def unat_page_align)

lemma tlb_slot_update [simp]:
  "tlb_slot (tlb\<lparr>tlb_entries := (tlb_entries tlb)[i := e], tlb_validator := v\<rparr>) page_size a
     = tlb_slot tlb page_size a"
  by (simp add: tlb_slot_def)

lemma try_entry_slot:
  assumes "arch_page_size arch = Some page_size" and "page_size \<noteq> 0" and "tlb_ok v_ok slots tlb"
  shows "try_entry vops tlb tt a arch =
     (let entry = tlb_entries tlb ! tlb_slot tlb page_size a in
      if ce_pt_index entry = tt a \<and> ce_virt_page entry = page_align a page_size
      then map_option (\<lambda>v. if v then Some (entry_result page_size entry a (page_align a page_size)) else None)
             (cv_is_slot_valid vops (tlb_validator tlb) (tlb_slot tlb page_size a))
      else Some None)"
  using get_cache_index_slot [OF assms(2,3), of a] assms(1,2)
  by (simp add: try_entry_def as_page_aligned_def Let_def map_option_case split: Option.bind_splits option.splits)

context cache_validator
begin

lemma cache_entry_slot:
  assumes "arch_page_size arch = Some page_size" and "page_size \<noteq> 0" and "tlb_ok v_ok slots tlb"
  obtains v' where
    "cache_entry ops tlb tt a out arch = Some (tlb\<lparr>
       tlb_entries := (tlb_entries tlb)[tlb_slot tlb page_size a :=
         \<lparr>ce_pt_index = tt a, ce_virt_page = page_align a page_size, ce_phys_page = out\<rparr>],
       tlb_validator := v'\<rparr>)"
    "v_ok v'" "slots v' = slots (tlb_validator tlb)"
    "cv_is_slot_valid ops v' (tlb_slot tlb page_size a) = Some True"
    "\<And>j. j < length (tlb_entries tlb) \<Longrightarrow> j \<noteq> tlb_slot tlb page_size a \<Longrightarrow>
       cv_is_slot_valid ops v' j = cv_is_slot_valid ops (tlb_validator tlb) j"
proof -
  have v: "v_ok (tlb_validator tlb)" "slots (tlb_validator tlb) = length (tlb_entries tlb)"
    using assms(3) by (simp_all add: tlb_ok_def)
  note idx = get_cache_index_slot [OF assms(2,3), of a]
  obtain v' where v': "cv_validate_slot ops (tlb_validator tlb) (tlb_slot tlb page_size a) = Some v'"
    "v_ok v'" "slots v' = slots (tlb_validator tlb)"
    "cv_is_slot_valid ops v' (tlb_slot tlb page_size a) = Some True"
    "\<forall>j < slots (tlb_validator tlb). j \<noteq> tlb_slot tlb page_size a \<longrightarrow>
       cv_is_slot_valid ops v' j = cv_is_slot_valid ops (tlb_validator tlb) j"
    using validate [OF v(1), of "tlb_slot tlb page_size a"] idx(2) v(2) by auto
  show ?thesis
  proof (rule that)
    show "cache_entry ops tlb tt a out arch = Some (tlb\<lparr>
       tlb_entries := (tlb_entries tlb)[tlb_slot tlb page_size a :=
         \<lparr>ce_pt_index = tt a, ce_virt_page = page_align a page_size, ce_phys_page = out\<rparr>],
       tlb_validator := v'\<rparr>)"
      using assms idx v'(1) by (simp add: cache_entry_def as_page_aligned_def)
  qed (use v' v(2) in auto)
qed

end

section \<open>Agreement\<close>

lemma page_align_add_off:
  assumes "page_align f s = f" and "s \<noteq> 0" and "unat f + unat s \<le> 18446744073709551616"
  shows "page_align (f + (a - page_align a s)) s = f"
proof -
  let ?o = "a - page_align a s"
  have "unat s dvd unat f" using assms(1) by (simp only: page_align_id_iff)
  then obtain q where q: "unat f = unat s * q" by blast
  have o: "unat ?o < unat s"
    using assms(2) by (simp add: page_align_off unat_gt_0)
  then have "unat (f + ?o) div unat s * unat s = unat f"
    using assms(3) q by (simp add: unat_add_nowrap)
  then show ?thesis by (intro word_unat_eq_iff [THEN iffD2]) (simp only: unat_page_align)
qed

text \<open>An entry with the translation of one address of its page agrees for all of them.\<close>

lemma agreed_page:
  assumes "paged page_size tr" and "page_size \<noteq> 0"
    and "tr t a = Some (pa_address out)" and "pa_is_valid out" and "pa_has_page out"
    and "page_align b page_size = page_align a page_size"
  shows "agreed (tr t b) (entry_result page_size
    \<lparr>ce_pt_index = t, ce_virt_page = page_align a page_size, ce_phys_page = out\<rparr> b (page_align b page_size))"
proof -
  have tr: "tr t x = map_option (\<lambda>f. f + (x - page_align x page_size)) (tr t (page_align x page_size))" for x
    using assms(1) unfolding paged_def by blast
  obtain f where f: "tr t (page_align a page_size) = Some f" "pa_address out = f + (a - page_align a page_size)"
    using assms(3) tr [of a] by auto
  then have "page_align f page_size = f" "unat f + unat page_size \<le> 18446744073709551616"
    using assms(1) unfolding paged_def by blast+
  then have "page_align (pa_address out) page_size = f"
    unfolding f(2) using assms(2) by (intro page_align_add_off)
  moreover have "tr t b = Some (f + (b - page_align b page_size))"
    using tr [of b] f(1) assms(6) by simp
  ultimately show ?thesis
    using assms(4,5) by (simp add: agreed_def entry_result_def address_add_def address_sub_addr_def)
qed

lemma agreed_invalid:
  "\<not> pa_is_valid (ce_phys_page entry) \<Longrightarrow> agreed p (entry_result page_size entry a b) = (p = None)"
  by (simp add: agreed_def entry_result_def)

lemma tlb_agrees_update:
  assumes "tlb_agrees page_size tr entries"
    and "\<And>b. ce_virt_page e = page_align b page_size \<Longrightarrow>
      agreed (tr (ce_pt_index e) b) (entry_result page_size e b (page_align b page_size))"
  shows "tlb_agrees page_size tr (entries[i := e])"
  using assms unfolding tlb_agrees_def by (auto dest!: subsetD [OF set_update_subset_insert])

text \<open>The pages the loop of \<open>cache_invalid_if_uncached\<close> visits.\<close>

lemma range_step_pages:
  assumes "i \<in> set (range_step (page_align a s) (page_align e s) s n)" and "s \<noteq> 0"
  shows "page_align i s = i" and "unat (page_align a s) \<le> unat i" and "unat i < unat (page_align e s)"
proof -
  let ?a = "unat (page_align a s)" and ?e = "unat (page_align e s)" and ?s = "unat s"
  have s: "0 < ?s" using assms(2) by (simp add: unat_gt_0)
  obtain k where k: "k < (?e - ?a + ?s - 1) div ?s" "i = page_align a s + of_nat k * s"
    using assms(1) by (auto simp: range_step_def)
  have "Suc k * ?s \<le> (?e - ?a + ?s - 1) div ?s * ?s"
    using k(1) by (intro mult_le_mono1) simp
  also have "\<dots> \<le> ?e - ?a + ?s - 1" by (rule div_times_less_eq_dividend)
  finally have b: "?a + k * ?s < ?e" using s by simp
  have i: "i = of_nat (?a + k * ?s)" by (simp add: k(2))
  have u: "unat i = ?a + k * ?s"
    unfolding i using b unat_lt_64 [of "page_align e s"] by (intro unat_of_nat_64) linarith
  show "unat (page_align a s) \<le> unat i" "unat i < ?e" using b u by simp_all
  show "page_align i s = i"
    unfolding page_align_id_iff u using page_align_aligned [of s a] by simp
qed

context cache_validator
begin

lemma cache_invalid_page_step:
  assumes "page_size \<noteq> 0" and "tlb_ok v_ok slots tlb" and "page_align i page_size = i"
    and "tlb_agrees page_size tr (tlb_entries tlb)"
    and "\<And>b. page_align b page_size = i \<Longrightarrow> tr t b = None"
  shows "\<exists>tlb'. cache_invalid_page ops t page_size i tlb = Some tlb' \<and> tlb_ok v_ok slots tlb' \<and>
     tlb_agrees page_size tr (tlb_entries tlb') \<and> length (tlb_entries tlb') = length (tlb_entries tlb)"
proof -
  let ?s = "tlb_slot tlb page_size i"
  let ?entry = "tlb_entries tlb ! ?s"
  let ?e = "\<lparr>ce_pt_index = t, ce_virt_page = i, ce_phys_page = PA_INVALID\<rparr>"
  have idx: "get_cache_index tlb (address_from_u64 i) page_size = Some ?s" "?s < length (tlb_entries tlb)"
    using get_cache_index_slot [OF assms(1,2), of i] assms(3) by (simp_all add: address_from_u64_def)
  have v: "v_ok (tlb_validator tlb)" "slots (tlb_validator tlb) = length (tlb_entries tlb)"
    using assms(2) by (simp_all add: tlb_ok_def)
  obtain b where b: "cv_is_slot_valid ops (tlb_validator tlb) ?s = Some b"
    using ask [OF v(1)] idx(2) v(2) by auto
  obtain v' where v': "cv_validate_slot ops (tlb_validator tlb) ?s = Some v'" "v_ok v'"
    "slots v' = slots (tlb_validator tlb)"
    using validate [OF v(1), of ?s] idx(2) v(2) by auto
  have ag: "tlb_agrees page_size tr ((tlb_entries tlb)[?s := ?e])"
    using assms(4) by (rule tlb_agrees_update)
      (simp add: assms(5) agreed_invalid PA_INVALID_def pa_is_valid_def is_valid_def ADDRESS_INVALID_def)
  define free where "free \<longleftrightarrow> ce_pt_index ?entry = NOT 0 \<or> \<not> pa_is_valid (ce_phys_page ?entry) \<or> \<not> b"
  have "cache_invalid_page ops t page_size i tlb =
      Some (if free then tlb\<lparr>tlb_entries := (tlb_entries tlb)[?s := ?e], tlb_validator := v'\<rparr> else tlb)"
    using idx b v'(1) by (auto simp: cache_invalid_page_def address_from_u64_def free_def)
  then show ?thesis
    using ag assms(2,4) v'(2,3) v(2) by (simp add: tlb_ok_def)
qed

lemma cache_invalid_loop_agrees:
  assumes "page_size \<noteq> 0" and "tlb_ok v_ok slots tlb" and "tlb_agrees page_size tr (tlb_entries tlb)"
    and "\<And>i. i \<in> set is \<Longrightarrow> page_align i page_size = i \<and> (\<forall>b. page_align b page_size = i \<longrightarrow> tr t b = None)"
  shows "\<exists>tlb'. cache_invalid_loop ops t page_size is tlb = Some tlb' \<and> tlb_ok v_ok slots tlb' \<and>
     tlb_agrees page_size tr (tlb_entries tlb') \<and> length (tlb_entries tlb') = length (tlb_entries tlb)"
  using assms(2-4)
proof (induction "is" arbitrary: tlb)
  case (Cons i "is")
  have i: "page_align i page_size = i" "\<And>b. page_align b page_size = i \<Longrightarrow> tr t b = None"
    using Cons.prems(3) by auto
  obtain tlb1 where t1: "cache_invalid_page ops t page_size i tlb = Some tlb1" "tlb_ok v_ok slots tlb1"
    "tlb_agrees page_size tr (tlb_entries tlb1)" "length (tlb_entries tlb1) = length (tlb_entries tlb)"
    using cache_invalid_page_step [OF assms(1) Cons.prems(1) i(1) Cons.prems(2) i(2)] by auto
  from Cons.IH [OF t1(2,3)] Cons.prems(3) t1 show ?case by auto
qed simp

lemma cache_invalid_agrees:
  assumes "arch_page_size arch = Some page_size" and "page_size \<noteq> 0" and "tlb_ok v_ok slots tlb"
    and "tlb_agrees page_size tr (tlb_entries tlb)"
    and "\<And>b. unat (page_align a page_size) \<le> unat b \<Longrightarrow>
      unat b < unat (page_align (a + len + 1) page_size) \<Longrightarrow> tr (tt a) b = None"
  shows "\<exists>tlb'. cache_invalid_if_uncached ops tlb tt a len arch = Some tlb' \<and> tlb_ok v_ok slots tlb' \<and>
     tlb_agrees page_size tr (tlb_entries tlb') \<and> length (tlb_entries tlb') = length (tlb_entries tlb)"
proof -
  let ?is = "range_step (page_align a page_size) (page_align (a + len + 1) page_size) page_size
      (length (tlb_entries tlb))"
  have "page_align i page_size = i \<and> (\<forall>b. page_align b page_size = i \<longrightarrow> tr (tt a) b = None)"
    if i: "i \<in> set ?is" for i
  proof (intro conjI allI impI)
    show "page_align i page_size = i" by (rule range_step_pages [OF i assms(2)])
    fix b assume b: "page_align b page_size = i"
    let ?e = "unat (page_align (a + len + 1) page_size)"
    have "unat i \<le> unat b" using page_align_le [of b page_size] b by simp
    have "unat b div unat page_size * unat page_size < ?e"
      using range_step_pages(3) [OF i assms(2)] by (simp only: b [symmetric] unat_page_align)
    moreover have "?e = unat (a + len + 1) div unat page_size * unat page_size"
      by (rule unat_page_align)
    moreover have "0 < unat page_size" using assms(2) by (simp add: unat_gt_0)
    ultimately have "unat b < ?e"
      by (simp only: div_less_iff_less_mult mult_less_cancel2)
    with range_step_pages(2) [OF i assms(2)] \<open>unat i \<le> unat b\<close> show "tr (tt a) b = None"
      by (intro assms(5)) simp_all
  qed
  from cache_invalid_loop_agrees [OF assms(2,3,4) this] show ?thesis
    using assms(1,2)
    by (simp add: cache_invalid_if_uncached_def as_page_aligned_def address_add_def as_u64_def)
qed

end

section \<open>Reachable caches\<close>

text \<open>
  What the users of the cache do to it, when every address given to \<open>cache_entry\<close> is
  translated to the address stored for it, and every range given to
  \<open>cache_invalid_if_uncached\<close> has no translation.
\<close>

inductive tlb_run ::
  "'v validator_ops \<Rightarrow> ('v \<Rightarrow> bool) \<Rightarrow> x86_architecture \<Rightarrow> usize \<Rightarrow> (usize \<Rightarrow> address \<Rightarrow> address option)
     \<Rightarrow> 'v tlb_cache \<Rightarrow> bool"
  for vops v_ok arch page_size tr where
  start: "v_ok v \<Longrightarrow> sz \<noteq> 0 \<Longrightarrow> tlb_run vops v_ok arch page_size tr (tlb_new vops sz v)"
| tick: "tlb_run vops v_ok arch page_size tr tlb \<Longrightarrow> tlb_run vops v_ok arch page_size tr
    (tlb\<lparr>tlb_validator := cv_update_validity vops (tlb_validator tlb)\<rparr>)"
| store: "tlb_run vops v_ok arch page_size tr tlb \<Longrightarrow> tr (tt a) a = Some (pa_address out) \<Longrightarrow>
    pa_is_valid out \<Longrightarrow> pa_has_page out \<Longrightarrow> cache_entry vops tlb tt a out arch = Some tlb' \<Longrightarrow>
    tlb_run vops v_ok arch page_size tr tlb'"
| fault: "tlb_run vops v_ok arch page_size tr tlb \<Longrightarrow>
    \<forall>b. unat (page_align a page_size) \<le> unat b \<and> unat b < unat (page_align (a + len + 1) page_size) \<longrightarrow>
      tr (tt a) b = None \<Longrightarrow>
    cache_invalid_if_uncached vops tlb tt a len arch = Some tlb' \<Longrightarrow>
    tlb_run vops v_ok arch page_size tr tlb'"

context cache_validator
begin

lemma tlb_new_ok:
  assumes "v_ok v" and "sz \<noteq> 0"
  shows "tlb_ok v_ok slots (tlb_new ops sz v)"
  using assms allocate [OF assms(1)] by (simp add: tlb_ok_def tlb_new_def unat_gt_0)

lemma tlb_new_agrees:
  "page_align ADDRESS_INVALID page_size \<noteq> ADDRESS_INVALID \<Longrightarrow>
     tlb_agrees page_size tr (tlb_entries (tlb_new ops sz v))"
  by (auto simp: tlb_agrees_def tlb_new_def CE_INVALID_def) (metis page_align_idem)

lemma cache_entry_agrees:
  assumes "arch_page_size arch = Some page_size" and "page_size \<noteq> 0" and "paged page_size tr"
    and "tlb_ok v_ok slots tlb" and "tlb_agrees page_size tr (tlb_entries tlb)"
    and "tr (tt a) a = Some (pa_address out)" and "pa_is_valid out" and "pa_has_page out"
  shows "\<exists>tlb'. cache_entry ops tlb tt a out arch = Some tlb' \<and> tlb_ok v_ok slots tlb' \<and>
     tlb_agrees page_size tr (tlb_entries tlb')"
proof -
  let ?e = "\<lparr>ce_pt_index = tt a, ce_virt_page = page_align a page_size, ce_phys_page = out\<rparr>"
  obtain v' where "cache_entry ops tlb tt a out arch = Some (tlb\<lparr>
      tlb_entries := (tlb_entries tlb)[tlb_slot tlb page_size a := ?e], tlb_validator := v'\<rparr>)"
    "v_ok v'" "slots v' = slots (tlb_validator tlb)"
    using cache_entry_slot [OF assms(1,2,4)] by metis
  moreover have "tlb_agrees page_size tr ((tlb_entries tlb)[i := ?e])" for i
    using assms(5) by (rule tlb_agrees_update) (use agreed_page [OF assms(3,2,6-8)] in fastforce)
  ultimately show ?thesis
    using assms(4) by (simp add: tlb_ok_def)
qed

lemma tlb_run_invariant:
  assumes "tlb_run ops v_ok arch page_size tr tlb"
    and "arch_page_size arch = Some page_size" and "page_size \<noteq> 0" and "paged page_size tr"
    and "page_align ADDRESS_INVALID page_size \<noteq> ADDRESS_INVALID"
  shows "tlb_ok v_ok slots tlb \<and> tlb_agrees page_size tr (tlb_entries tlb)"
  using assms(1)
proof induction
  case (start v sz)
  then show ?case using tlb_new_ok tlb_new_agrees [OF assms(5)] by blast
next
  case (tick tlb)
  then show ?case using update by (simp add: tlb_ok_def)
next
  case (store tlb tt a out tlb')
  then show ?case
    using cache_entry_agrees [OF assms(2,3,4), of tlb tt a out] by auto
next
  case (fault tlb a len tt tlb')
  then show ?case
    using cache_invalid_agrees [OF assms(2,3), of tlb tr a len tt] by auto
qed

lemma tlb_run_lookup:
  assumes "tlb_run ops v_ok arch page_size tr tlb"
    and "arch_page_size arch = Some page_size" and "page_size \<noteq> 0" and "paged page_size tr"
    and "page_align ADDRESS_INVALID page_size \<noteq> ADDRESS_INVALID"
  shows "\<exists>r. try_entry ops tlb tt a arch = Some r \<and>
     (\<forall>e. r = Some (Inr e) \<longrightarrow> tr (tt a) a = Some (pa_address (te_phys_addr e)) \<and> te_virt_addr e = a \<and>
        te_pt_index e = tt a) \<and>
     (\<forall>e. r = Some (Inl e) \<longrightarrow> tr (tt a) a = None \<and> e = VirtualTranslate)"
proof -
  have inv: "tlb_ok v_ok slots tlb" "tlb_agrees page_size tr (tlb_entries tlb)"
    using tlb_run_invariant [OF assms] by blast+
  let ?s = "tlb_slot tlb page_size a"
  let ?e = "tlb_entries tlb ! ?s"
  note lt = get_cache_index_slot(2) [OF assms(3) inv(1), of a]
  then have e: "?e \<in> set (tlb_entries tlb)" by simp
  obtain b where "cv_is_slot_valid ops (tlb_validator tlb) ?s = Some b"
    using ask [of "tlb_validator tlb" ?s] inv(1) lt by (auto simp: tlb_ok_def)
  then have r: "try_entry ops tlb tt a arch =
      Some (if ce_pt_index ?e = tt a \<and> ce_virt_page ?e = page_align a page_size \<and> b
            then Some (entry_result page_size ?e a (page_align a page_size)) else None)"
    by (simp add: try_entry_slot [OF assms(2,3) inv(1)] Let_def)
  have "agreed (tr (tt a) a) (entry_result page_size ?e a (page_align a page_size))"
    if "ce_pt_index ?e = tt a" "ce_virt_page ?e = page_align a page_size"
    using inv(2) e that unfolding tlb_agrees_def by metis
  then show ?thesis
    unfolding r by (auto simp: agreed_def entry_result_def split: if_splits)
qed

end

section \<open>Properties\<close>

text \<open>
  C20. What the cache answers after an entry was stored, for every address: an address in the
  slot of the stored page gets the stored translation when it is in that page of that page
  table, with its own offset, a translation error when the stored address is invalid or has
  no page, and is a miss otherwise (the old entry is gone); every other address is answered
  as before. Storing never panics and keeps the cache well formed.
\<close>

theorem tlb_store_lookup:
  assumes "cache_validator vops v_ok slots" and "tlb_ok v_ok slots tlb"
    and "arch_page_size arch = Some page_size" and "page_size \<noteq> 0"
  shows "\<exists>tlb'. cache_entry vops tlb tt a out arch = Some tlb' \<and> tlb_ok v_ok slots tlb' \<and>
     (\<forall>b. try_entry vops tlb' tt b arch =
        (if tlb_slot tlb page_size b \<noteq> tlb_slot tlb page_size a then try_entry vops tlb tt b arch
         else if tt b = tt a \<and> page_align b page_size = page_align a page_size
         then Some (Some (if pa_is_valid out \<and> pa_has_page out
           then Inr \<lparr>te_pt_index = tt b, te_virt_addr = b,
             te_phys_addr = pa_with_page
               (page_align (pa_address out) page_size + (b - page_align b page_size))
               (pa_page_type out) page_size\<rparr>
           else Inl VirtualTranslate))
         else Some None))"
proof -
  let ?s = "tlb_slot tlb page_size a"
  let ?e = "\<lparr>ce_pt_index = tt a, ce_virt_page = page_align a page_size, ce_phys_page = out\<rparr>"
  obtain v' where st: "cache_entry vops tlb tt a out arch =
      Some (tlb\<lparr>tlb_entries := (tlb_entries tlb)[?s := ?e], tlb_validator := v'\<rparr>)"
    and v': "v_ok v'" "slots v' = slots (tlb_validator tlb)" "cv_is_slot_valid vops v' ?s = Some True"
      "\<And>j. j < length (tlb_entries tlb) \<Longrightarrow> j \<noteq> ?s \<Longrightarrow>
         cv_is_slot_valid vops v' j = cv_is_slot_valid vops (tlb_validator tlb) j"
    using cache_validator.cache_entry_slot [OF assms(1,3,4,2), of tt a out] by blast
  let ?tlb = "tlb\<lparr>tlb_entries := (tlb_entries tlb)[?s := ?e], tlb_validator := v'\<rparr>"
  have ok: "tlb_ok v_ok slots ?tlb"
    using assms(2) v' by (simp add: tlb_ok_def)
  note lt = get_cache_index_slot(2) [OF assms(4,2)]
  have hit: "try_entry vops ?tlb tt b arch =
      (if tt b = tt a \<and> page_align b page_size = page_align a page_size
       then Some (Some (entry_result page_size ?e b (page_align b page_size))) else Some None)"
    if "tlb_slot tlb page_size b = ?s" for b
    using that lt [of a] v'(3) by (auto simp: try_entry_slot [OF assms(3,4) ok] Let_def)
  have other: "try_entry vops ?tlb tt b arch = try_entry vops tlb tt b arch"
    if "tlb_slot tlb page_size b \<noteq> ?s" for b
    using v'(4) [OF lt [of b] that] that
    by (simp add: try_entry_slot [OF assms(3,4) ok] try_entry_slot [OF assms(3,4,2)] Let_def
        cong: if_cong)
  show ?thesis
    by (intro exI [of _ ?tlb] conjI allI st ok)
      (auto simp: hit other entry_result_def address_add_def address_sub_addr_def)
qed

lemma tlb_store_lookup_witness:
  "\<exists>tlb'. cache_entry count_ops (tlb_new count_ops 4 (count_new 10)) (\<lambda>_. 7) 0x5123 (pa_with_page 0x9123 PT_UNKNOWN 0x1000)
       x64_spec = Some tlb' \<and>
     try_entry count_ops tlb' (\<lambda>_. 7) 0x5FFF x64_spec = Some (Some (Inr \<lparr>te_pt_index = 7,
       te_virt_addr = 0x5FFF, te_phys_addr = pa_with_page 0x9FFF PT_UNKNOWN 0x1000\<rparr>)) \<and>
     try_entry count_ops tlb' (\<lambda>_. 7) 0x1000 x64_spec = Some None"
proof -
  let ?tlb = "tlb_new count_ops 4 (count_new 10)"
  let ?pa = "pa_with_page 0x9123 PT_UNKNOWN 0x1000"
  have ok: "tlb_ok (\<lambda>v. cc_valid_count v \<noteq> 0) (\<lambda>v. length (cc_count v)) ?tlb"
    by (rule count.tlb_new_ok) (simp_all add: count_new_def)
  have ps: "arch_page_size x64_spec = Some 0x1000"
    by code_simp
  have pa: "pa_is_valid ?pa" "pa_has_page ?pa"
    using pa_has_page_exp [of 12] by (simp_all add: pa_is_valid_def is_valid_def)
  have slot: "tlb_slot ?tlb 0x1000 x = (unat x div 4096) mod 4" for x
    by (simp add: tlb_slot_def tlb_new_def)
  obtain tlb' where t: "cache_entry count_ops ?tlb (\<lambda>_. 7) 0x5123 ?pa x64_spec = Some tlb'"
    and l: "\<And>b. try_entry count_ops tlb' (\<lambda>_. 7) b x64_spec =
        (if (unat b div 4096) mod 4 \<noteq> (unat (0x5123 :: u64) div 4096) mod 4
         then try_entry count_ops ?tlb (\<lambda>_. 7) b x64_spec
         else if (7 :: usize) = 7 \<and> page_align b 0x1000 = page_align 0x5123 0x1000
         then Some (Some (if pa_is_valid ?pa \<and> pa_has_page ?pa
           then Inr \<lparr>te_pt_index = 7, te_virt_addr = b,
             te_phys_addr = pa_with_page (page_align (pa_address ?pa) 0x1000 + (b - page_align b 0x1000))
               (pa_page_type ?pa) 0x1000\<rparr>
           else Inl VirtualTranslate))
         else Some None)"
    using tlb_store_lookup [OF count.cache_validator_axioms ok ps, of "\<lambda>_. 7" "0x5123" ?pa]
    unfolding slot by auto
  have "try_entry count_ops tlb' (\<lambda>_. 7) 0x5FFF x64_spec = Some (Some (Inr \<lparr>te_pt_index = 7,
       te_virt_addr = 0x5FFF, te_phys_addr = pa_with_page 0x9FFF PT_UNKNOWN 0x1000\<rparr>))"
    using pa unfolding l by (simp add: page_align_def)
  moreover have "try_entry count_ops tlb' (\<lambda>_. 7) 0x1000 x64_spec = Some None"
    unfolding l by (simp add: page_align_def)
  ultimately show ?thesis using t by blast
qed

text \<open>
  C15. Soundness of the cache. Whatever was stored, marked and expired before, as long as what
  was stored are translations and what was marked are faults: a lookup never panics, a hit
  has the physical address of the address that was asked, and a cached fault is a fault.
\<close>

theorem tlb_hits_are_translations:
  assumes "cache_validator vops v_ok slots" and "tlb_run vops v_ok arch page_size tr tlb"
    and "arch_page_size arch = Some page_size" and "page_size \<noteq> 0" and "paged page_size tr"
    and "page_align ADDRESS_INVALID page_size \<noteq> ADDRESS_INVALID"
  shows "\<exists>r. try_entry vops tlb tt a arch = Some r \<and>
     (\<forall>e. r = Some (Inr e) \<longrightarrow> tr (tt a) a = Some (pa_address (te_phys_addr e)) \<and> te_virt_addr e = a \<and>
        te_pt_index e = tt a) \<and>
     (\<forall>e. r = Some (Inl e) \<longrightarrow> tr (tt a) a = None \<and> e = VirtualTranslate)"
  by (rule cache_validator.tlb_run_lookup [OF assms])

lemma tlb_hits_are_translations_witness:
  "\<exists>tlb. cache_entry count_ops (tlb_new count_ops 4 (count_new 10)) (\<lambda>_. 7) 0x5123
       (pa_with_page 0x9123 PT_UNKNOWN 0x1000) x64_spec = Some tlb \<and>
     (\<exists>r. try_entry count_ops tlb (\<lambda>_. 7) 0x5FFF x64_spec = Some r \<and>
       (\<forall>e. r = Some (Inr e) \<longrightarrow> pa_address (te_phys_addr e) = 0x9FFF))"
proof -
  let ?tlb = "tlb_new count_ops 4 (count_new 10)"
  let ?pa = "pa_with_page 0x9123 PT_UNKNOWN 0x1000"
  let ?tr = "\<lambda>t a. Some (0x9000 + (a - page_align a 0x1000))"
  let ?run = "tlb_run count_ops (\<lambda>v. cc_valid_count v \<noteq> 0) x64_spec 0x1000 ?tr"
  have ps: "arch_page_size x64_spec = Some 0x1000"
    by code_simp
  have pa: "pa_is_valid ?pa" "pa_has_page ?pa"
    using pa_has_page_exp [of 12] by (simp_all add: pa_is_valid_def is_valid_def)
  have start: "?run ?tlb"
    by (rule tlb_run.start) (simp_all add: count_new_def)
  have ok: "tlb_ok (\<lambda>v. cc_valid_count v \<noteq> 0) (\<lambda>v. length (cc_count v)) ?tlb"
    by (rule count.tlb_new_ok) (simp_all add: count_new_def)
  obtain v' where t: "cache_entry count_ops ?tlb (\<lambda>_. 7) 0x5123 ?pa x64_spec = Some (?tlb\<lparr>
       tlb_entries := (tlb_entries ?tlb)[tlb_slot ?tlb 0x1000 0x5123 :=
         \<lparr>ce_pt_index = 7, ce_virt_page = page_align 0x5123 0x1000, ce_phys_page = ?pa\<rparr>],
       tlb_validator := v'\<rparr>)"
    using count.cache_entry_slot [OF ps _ ok, of "\<lambda>_. 7" "0x5123" ?pa] by auto
  have run: "?run (?tlb\<lparr>tlb_entries := (tlb_entries ?tlb)[tlb_slot ?tlb 0x1000 0x5123 :=
         \<lparr>ce_pt_index = 7, ce_virt_page = page_align 0x5123 0x1000, ce_phys_page = ?pa\<rparr>],
       tlb_validator := v'\<rparr>)"
    using start _ pa t by (rule tlb_run.store) (simp add: page_align_def)
  have paged: "paged 0x1000 ?tr"
    by (simp add: paged_def) (simp add: page_align_def)
  have inv: "page_align ADDRESS_INVALID 0x1000 \<noteq> ADDRESS_INVALID"
    by (simp add: page_align_def ADDRESS_INVALID_def)
  obtain r where r: "try_entry count_ops (?tlb\<lparr>
       tlb_entries := (tlb_entries ?tlb)[tlb_slot ?tlb 0x1000 0x5123 :=
         \<lparr>ce_pt_index = 7, ce_virt_page = page_align 0x5123 0x1000, ce_phys_page = ?pa\<rparr>],
       tlb_validator := v'\<rparr>) (\<lambda>_. 7) 0x5FFF x64_spec = Some r"
    and "\<forall>e. r = Some (Inr e) \<longrightarrow>
       Some (0x9000 + (0x5FFF - page_align 0x5FFF 0x1000)) = Some (pa_address (te_phys_addr e))"
    using tlb_hits_are_translations [OF count.cache_validator_axioms run ps _ paged inv,
        where tt = "\<lambda>_. 7" and a = "0x5FFF"] by fastforce
  then have "\<forall>e. r = Some (Inr e) \<longrightarrow> pa_address (te_phys_addr e) = 0x9FFF"
    by (simp add: page_align_def)
  with t r show ?thesis by blast
qed

end
