(* ===== verification/Walk_Frames.thy ===== *)
theory Walk_Frames
  imports Mmu_Walk Tlb_Cache
begin

text \<open>
  The page walk as a translation of 4 KiB pages, which is how the translation cache stores
  it: on the three x86 modes all addresses of such a page take the same walk, and their
  physical addresses differ by their offset in the page, also inside large pages.
\<close>

definition x86_archs :: "x86_architecture set" where
  "x86_archs = {x64_spec, x32_spec, x32_pae_spec}"

definition final_step :: "arch_mmu_spec \<Rightarrow> nat \<Rightarrow> bool" where
  "final_step spec k \<longleftrightarrow> Suc k = split_count spec \<or> k \<in> set (valid_final_page_steps spec)"

lemma final_steps:
  assumes "arch \<in> x86_archs" and "final_step (x86_mmu arch) k"
  obtains "arch = x64_spec" "k = 2" | "arch = x64_spec" "k = 3" | "arch = x64_spec" "k = 4"
    | "arch = x32_spec" "k = 1" | "arch = x32_spec" "k = 2"
    | "arch = x32_pae_spec" "k = 2" | "arch = x32_pae_spec" "k = 3"
  using assms
  by (auto simp: x86_archs_def final_step_def split_count_def x64_spec_def x32_spec_def x32_pae_spec_def)

lemma phys_page_shape:
  assumes "arch \<in> x86_archs" and "final_step (x86_mmu arch) k"
  shows "\<exists>c m j. (\<forall>v. get_phys_page (x86_mmu arch) pte v k =
       Some (pa_with_page ((pte AND c) OR (v AND m))
         (pt_noexec (pt_write page_type_default (bit_at pte (writeable_bit (x86_mmu arch))))
           (bit_at pte (nx_bit (x86_mmu arch)))) (2 ^ j))) \<and>
     c AND 0xFFF = 0 \<and> c \<le> 0xFFFFFFFFFFFFF \<and> m AND 0xFFF = 0xFFF \<and> m \<le> 0xFFFFFFFFFFFFF \<and>
     2 \<le> j \<and> j \<le> 30"
proof -
  have tz: "trailing_zeros 8 = 3" "trailing_zeros 4 = 2" by code_simp+
  note defs = tz get_phys_page_def pte_addr_mask_def virt_addr_to_page_offset_def page_size_step_def
    page_size_step_unchecked_def shr64_def shl64_def virt_addr_bit_range_def nth_opt_def
    address_from_u64_def as_u64_def bit_mask_u64_def x64_spec_def x32_spec_def x32_pae_spec_def
  show ?thesis
    using assms
  proof (cases rule: final_steps)
    case 1 show ?thesis
      by (rule exI [of _ "0xFFFFFFFFFF000"], rule exI [of _ "0x3FFFFFFF"], rule exI [of _ 30]) (simp add: 1 defs)
  next
    case 2 show ?thesis
      by (rule exI [of _ "0xFFFFFFFFFF000"], rule exI [of _ "0x1FFFFF"], rule exI [of _ 21]) (simp add: 2 defs)
  next
    case 3 show ?thesis
      by (rule exI [of _ "0xFFFFFFFFFF000"], rule exI [of _ "0xFFF"], rule exI [of _ 12]) (simp add: 3 defs)
  next
    case 4 show ?thesis
      by (rule exI [of _ "0xFFFFF000"], rule exI [of _ "0x3FFFFF"], rule exI [of _ 22]) (simp add: 4 defs)
  next
    case 5 show ?thesis
      by (rule exI [of _ "0xFFFFF000"], rule exI [of _ "0xFFF"], rule exI [of _ 12]) (simp add: 5 defs)
  next
    case 6 show ?thesis
      by (rule exI [of _ "0xFFFFFF000"], rule exI [of _ "0x1FFFFF"], rule exI [of _ 21]) (simp add: 6 defs)
  next
    case 7 show ?thesis
      by (rule exI [of _ "0xFFFFFF000"], rule exI [of _ "0xFFF"], rule exI [of _ 12]) (simp add: 7 defs)
  qed
qed

lemma page_off_4k: "v - page_align v 0x1000 = take_bit 12 (v :: u64)"
  by (simp add: page_align_def take_bit_eq_mod)

lemma bit_page_align_4k: "bit (page_align v 0x1000) n \<longleftrightarrow> 12 \<le> n \<and> bit (v :: u64) n"
proof -
  have "page_align v 0x1000 = v - take_bit 12 v" by (simp add: page_align_def take_bit_eq_mod)
  also have "\<dots> = push_bit 12 (drop_bit 12 v)"
    using bits_ident [of 12 v] by (metis add_diff_cancel_right')
  finally show ?thesis
    using bit_imp_le_length [of v n] by (auto simp: bit_push_bit_iff bit_drop_bit_eq)
qed

lemma shape_paged:
  fixes pte c m v :: u64
  assumes "c AND 0xFFF = 0" and "c \<le> 0xFFFFFFFFFFFFF" and "m AND 0xFFF = 0xFFF" and "m \<le> 0xFFFFFFFFFFFFF"
  defines "p \<equiv> \<lambda>v. (pte AND c) OR (v AND m)"
  shows "p v = p (page_align v 0x1000) + (v - page_align v 0x1000)"
    and "page_align (p (page_align v 0x1000)) 0x1000 = p (page_align v 0x1000)"
    and "unat (p v) < 2 ^ 52"
proof -
  let ?q = "p (page_align v 0x1000)"
  have low: "bit (0xFFF :: u64) n \<longleftrightarrow> n < 12" for n
  proof -
    have "(0xFFF :: u64) = mask 12" by (simp add: mask_eq_exp_minus_1)
    then show ?thesis by (auto simp only: bit_mask_iff) simp
  qed
  have c: "n < 12 \<Longrightarrow> \<not> bit c n" and m: "n < 12 \<Longrightarrow> bit m n" for n
    using assms(1,3) low [of n] by (metis bit_and_iff bit_0_eq bot_apply bot_bool_def)+
  have q: "bit ?q n \<longleftrightarrow> bit (p v) n \<and> 12 \<le> n" for n
    by (cases "n < 12") (auto simp: c p_def bit_page_align_4k bit_or_iff bit_and_iff)
  have lo: "n < 12 \<Longrightarrow> bit (p v) n = bit v n" for n
    by (simp add: c m p_def bit_or_iff bit_and_iff)
  have "p v = ?q OR take_bit 12 v"
  proof (rule bit_word_eqI)
    fix n
    show "bit (p v) n = bit (?q OR take_bit 12 v) n"
      by (cases "n < 12") (simp_all add: lo q bit_or_iff bit_take_bit_iff)
  qed
  moreover have "?q + take_bit 12 v = ?q OR take_bit 12 v"
    by (rule disjunctive_add) (auto simp: q bit_take_bit_iff)
  ultimately show "p v = ?q + (v - page_align v 0x1000)" by (simp add: page_off_4k)
  show "page_align ?q 0x1000 = ?q"
    by (rule bit_word_eqI) (auto simp: bit_page_align_4k q)
  have "unat (pte AND c) < 2 ^ 52" "unat (v AND m) < 2 ^ 52"
    using assms(2,4) word_and_le1 [of pte c] word_and_le1 [of v m] by (simp_all add: word_le_nat_alt)
  from lt_exp_or [OF this] show "unat (p v) < 2 ^ 52" by (simp add: p_def)
qed

lemma step_bits_x86:
  assumes "arch \<in> x86_archs" and "Suc s < split_count (x86_mmu arch)"
  shows "12 \<le> step_bits (x86_mmu arch) (Suc s)"
proof -
  have "s = 0 \<or> s = 1 \<or> s = 2 \<or> s = 3"
    using assms by (auto simp: x86_archs_def split_count_def x64_spec_def x32_spec_def x32_pae_spec_def)
  then show ?thesis
    using assms
    by (elim disjE) (auto simp: x86_archs_def split_count_def x64_spec_def x32_spec_def x32_pae_spec_def
        step_bits_def)
qed

lemma walk_same_page:
  assumes "arch \<in> x86_archs" and "page_align v 0x1000 = page_align w 0x1000"
  shows "walk (x86_mmu arch) content dtb v = walk (x86_mmu arch) content dtb w"
proof -
  let ?spec = "x86_mmu arch"
  have "unat v div 4096 * 4096 = unat w div 4096 * 4096"
    using arg_cong [OF assms(2), of unat] by (simp add: unat_page_align)
  then have d: "unat v div 2 ^ 12 = unat w div 2 ^ 12" by simp
  have div: "unat v div 2 ^ b = unat w div 2 ^ b" if "12 \<le> b" for b
  proof -
    have e: "x div 2 ^ b = x div 2 ^ 12 div 2 ^ (b - 12)" for x :: nat
      using that by (simp only: div_mult2_eq [symmetric] power_add [symmetric] le_add_diff_inverse)
    show ?thesis by (simp only: e d)
  qed
  have vt: "vtop_step ?spec pt v s = vtop_step ?spec pt w s"
    if "s < split_count ?spec" "\<not> is_final_mapping ?spec pt s" for pt s
  proof -
    have "Suc s < split_count ?spec"
      using that by (auto simp: is_final_mapping_def split_count_def)
    then show ?thesis
      using vtop_step_same_page [OF that(1) div [OF step_bits_x86 [OF assms(1)]]] by simp
  qed
  have "walk_from ?spec content ss pt v = walk_from ?spec content ss pt w"
    if "set ss \<subseteq> {0..<split_count ?spec}" for ss pt
    using that
  proof (induction ss arbitrary: pt)
    case (Cons s ss)
    then have "walk_from ?spec content ss pte v = walk_from ?spec content ss pte w" for pte by simp
    then show ?case
      using vt [of s pt] Cons.prems by (simp add: Let_def cong: option.case_cong if_cong)
  qed simp
  then show ?thesis by (simp add: walk_def)
qed

lemma walk_entry_final:
  assumes "walk spec content dtb v = Walk_Entry pte k"
  shows "final_step spec k"
proof -
  have "walk_from spec content ss pt v = Walk_Entry pte k \<Longrightarrow> final_step spec k" for ss pt
    by (induction ss arbitrary: pt)
      (auto simp: Let_def is_final_mapping_def final_step_def split_count_def binary_search_is_ok_def
        split: if_splits option.splits)
  then show ?thesis using assms by (simp add: walk_def)
qed

definition walk_phys :: "x86_architecture \<Rightarrow> (u64 \<Rightarrow> u8 option) \<Rightarrow> address \<Rightarrow> address \<Rightarrow> address option" where
  "walk_phys arch content dtb v =
     (case walk (x86_mmu arch) content dtb v of
        Walk_Entry pte k \<Rightarrow> map_option pa_address (get_phys_page (x86_mmu arch) pte v k)
      | _ \<Rightarrow> None)"

lemma walk_phys_paged:
  assumes "arch \<in> x86_archs"
  shows "paged 0x1000 (\<lambda>_. walk_phys arch content dtb)"
proof -
  have "walk_phys arch content dtb a =
      map_option (\<lambda>f. f + (a - page_align a 0x1000)) (walk_phys arch content dtb (page_align a 0x1000)) \<and>
    (\<forall>f. walk_phys arch content dtb (page_align a 0x1000) = Some f \<longrightarrow>
       page_align f 0x1000 = f \<and> unat f + unat (0x1000 :: u64) \<le> 18446744073709551616)" for a
  proof -
    have w: "walk (x86_mmu arch) content dtb (page_align a 0x1000) = walk (x86_mmu arch) content dtb a"
      by (rule walk_same_page [OF assms]) simp
    show ?thesis
    proof (cases "walk (x86_mmu arch) content dtb a")
      case (Walk_Entry pte k)
      let ?p = "\<lambda>c m v. (pte AND c) OR (v AND m)"
      obtain c m j where g: "\<And>v. map_option pa_address (get_phys_page (x86_mmu arch) pte v k) = Some (?p c m v)"
        and cm: "c AND 0xFFF = 0" "c \<le> 0xFFFFFFFFFFFFF" "m AND 0xFFF = 0xFFF" "m \<le> 0xFFFFFFFFFFFFF"
        using phys_page_shape [OF assms walk_entry_final [OF Walk_Entry], of pte] by auto
      show ?thesis
        using shape_paged [OF cm, of pte a] shape_paged(3) [OF cm, of pte "page_align a 0x1000"]
        by (simp add: walk_phys_def w Walk_Entry g)
    qed (simp_all add: walk_phys_def w)
  qed
  then show ?thesis unfolding paged_def by blast
qed

end
