(* ===== verification/Cached_Vat.thy ===== *)
theory Cached_Vat
  imports Walk_Frames Page_Chunks Iter_Loops
begin

text \<open>
  \<open>CachedVirtualTranslate\<close> and its builder, \<open>memflow/src/mem/cache/cached_vat.rs\<close>. The
  translator behind the cache is a parameter, the two instances of its \<open>virt_to_phys_iter\<close>
  that the code uses: for values tagged with their address and for plain ones. It consumes
  the iterator it is given, as the page walk does with its first statement, so the lazy
  chain of adapters in front of it is a loop over the requests. The lemmas show that the
  cached translation of an address is its page walk.
\<close>

section \<open>State\<close>

record ('w, 'v) cached_vat =
  cvat_vat :: 'w
  cvat_tlb :: "'v tlb_cache"
  cvat_arch :: x86_architecture
  cvat_hitc :: usize
  cvat_misc :: usize

type_synonym ('w, 'm, 't) vat_iter =
  "'w \<Rightarrow> 'm \<Rightarrow> (address \<times> 't) list \<Rightarrow> (phys_addr \<times> 't) list \<Rightarrow> 't failure list
     \<Rightarrow> ((phys_addr \<times> 't) list \<times> 't failure list \<times> 'w \<times> 'm) option"

definition cached_vat_new :: "'w \<Rightarrow> 'v tlb_cache \<Rightarrow> x86_architecture \<Rightarrow> ('w, 'v) cached_vat" where
  "cached_vat_new vat tlb arch =
     \<lparr>cvat_vat = vat, cvat_tlb = tlb, cvat_arch = arch, cvat_hitc = 0, cvat_misc = 0\<rparr>"

section \<open>The requests\<close>

text \<open>
  The closure of \<open>page_chunks_by\<close>. Its state remembers a panic, after which it lets the
  iterator end.
\<close>

definition cached_split ::
  "'v validator_ops \<Rightarrow> 't split_ops \<Rightarrow> 'v tlb_cache \<Rightarrow> (address \<Rightarrow> usize) \<Rightarrow> x86_architecture
     \<Rightarrow> ('t, bool) split_check" where
  "cached_split vops ops tlb tt arch panicked addr split tail =
     (case try_entry vops tlb tt (address_add addr (so_length ops split)) arch of
        None \<Rightarrow> (True, True)
      | Some (Some _) \<Rightarrow> (True, panicked)
      | Some None \<Rightarrow>
          (case try_entry vops tlb tt addr arch of
             None \<Rightarrow> (True, True)
           | Some r \<Rightarrow> (r \<noteq> None, panicked)))"

record 't cached_run =
  cr_out :: "(phys_addr \<times> 't) list"
  cr_out_fail :: "'t failure list"
  cr_uncached_in :: "(address \<times> 't) list"
  cr_addrs :: "(address \<times> address \<times> 't) list"
  cr_hitc :: usize
  cr_misc :: usize

definition cached_chunk ::
  "'v validator_ops \<Rightarrow> 't split_ops \<Rightarrow> 'v tlb_cache \<Rightarrow> (address \<Rightarrow> usize) \<Rightarrow> x86_architecture
     \<Rightarrow> address \<times> 't \<Rightarrow> 't cached_run \<Rightarrow> 't cached_run option" where
  "cached_chunk vops ops tlb tt arch p run =
     (case p of (addr, buf) \<Rightarrow> do {
        entry \<leftarrow> try_entry vops tlb tt addr arch;
        page_size \<leftarrow> arch_page_size arch;
        Some (case entry of
           Some (Inr entry) \<Rightarrow>
             run\<lparr>cr_hitc := cr_hitc run + 1, cr_out := cr_out run @ [(te_phys_addr entry, buf)]\<rparr>
         | Some (Inl error) \<Rightarrow>
             run\<lparr>cr_hitc := cr_hitc run + 1, cr_out_fail := cr_out_fail run @ [(error, addr, buf)]\<rparr>
         | None \<Rightarrow>
             run\<lparr>cr_misc := cr_misc run + max 1 (so_length ops buf div page_size),
                 cr_addrs := cr_addrs run @ [(addr, addr, buf)]\<rparr>)
      })"

fun cached_chunks ::
  "'v validator_ops \<Rightarrow> 't split_ops \<Rightarrow> 'v tlb_cache \<Rightarrow> (address \<Rightarrow> usize) \<Rightarrow> x86_architecture
     \<Rightarrow> (address \<times> 't) list \<Rightarrow> 't cached_run \<Rightarrow> 't cached_run option" where
  "cached_chunks vops ops tlb tt arch [] run = Some run"
| "cached_chunks vops ops tlb tt arch (p # ps) run = do {
     run \<leftarrow> cached_chunk vops ops tlb tt arch p run;
     cached_chunks vops ops tlb tt arch ps run
   }"

definition cached_request ::
  "'v validator_ops \<Rightarrow> 't split_ops \<Rightarrow> 'v tlb_cache \<Rightarrow> (address \<Rightarrow> usize) \<Rightarrow> x86_architecture
     \<Rightarrow> address \<times> 't \<Rightarrow> 't cached_run \<Rightarrow> 't cached_run option" where
  "cached_request vops ops tlb tt arch p run =
     (case p of (addr, buf) \<Rightarrow> do {
        too_long \<leftarrow> is_read_too_long tlb arch (so_length ops buf);
        (if too_long then Some (run\<lparr>cr_uncached_in := cr_uncached_in run @ [(addr, buf)]\<rparr>)
         else do {
           page_size \<leftarrow> arch_page_size arch;
           (chunks, it) \<leftarrow> drain (pci_next ops (cached_split vops ops tlb tt arch))
             (page_chunks_by buf addr page_size False);
           (if pci_check it then None else cached_chunks vops ops tlb tt arch chunks run)
         })
      })"

fun cached_requests ::
  "'v validator_ops \<Rightarrow> 't split_ops \<Rightarrow> 'v tlb_cache \<Rightarrow> (address \<Rightarrow> usize) \<Rightarrow> x86_architecture
     \<Rightarrow> (address \<times> 't) list \<Rightarrow> 't cached_run \<Rightarrow> 't cached_run option" where
  "cached_requests vops ops tlb tt arch [] run = Some run"
| "cached_requests vops ops tlb tt arch (p # ps) run = do {
     run \<leftarrow> cached_request vops ops tlb tt arch p run;
     cached_requests vops ops tlb tt arch ps run
   }"

section \<open>The translation\<close>

fun cache_results ::
  "'v validator_ops \<Rightarrow> (address \<Rightarrow> usize) \<Rightarrow> x86_architecture \<Rightarrow> (phys_addr \<times> address \<times> 't) list
     \<Rightarrow> 'v tlb_cache \<Rightarrow> (phys_addr \<times> 't) list \<Rightarrow> ((phys_addr \<times> 't) list \<times> 'v tlb_cache) option" where
  "cache_results vops tt arch [] tlb out = Some (out, tlb)"
| "cache_results vops tt arch ((paddr, addr, buf) # rs) tlb out = do {
     tlb \<leftarrow> cache_entry vops tlb tt addr paddr arch;
     cache_results vops tt arch rs tlb (out @ [(paddr, buf)])
   }"

fun cache_failures ::
  "'v validator_ops \<Rightarrow> 't split_ops \<Rightarrow> (address \<Rightarrow> usize) \<Rightarrow> x86_architecture
     \<Rightarrow> (error \<times> address \<times> address \<times> 't) list \<Rightarrow> 'v tlb_cache \<Rightarrow> 't failure list
     \<Rightarrow> ('t failure list \<times> 'v tlb_cache) option" where
  "cache_failures vops ops tt arch [] tlb out_fail = Some (out_fail, tlb)"
| "cache_failures vops ops tt arch ((err, vaddr, _, buf) # fs) tlb out_fail = do {
     tlb \<leftarrow> cache_invalid_if_uncached vops tlb tt vaddr (so_length ops buf) arch;
     cache_failures vops ops tt arch fs tlb (out_fail @ [(err, vaddr, buf)])
   }"

definition cached_virt_to_phys_iter ::
  "'v validator_ops \<Rightarrow> 't split_ops \<Rightarrow> ('w, 'm, address \<times> 't) vat_iter \<Rightarrow> ('w, 'm, 't) vat_iter
     \<Rightarrow> (address \<Rightarrow> usize) \<Rightarrow> (('w, 'v) cached_vat, 'm, 't) vat_iter" where
  "cached_virt_to_phys_iter vops ops vat_tagged vat_plain tt self phys_mem addrs out out_fail = do {
     let tlb = (cvat_tlb self)\<lparr>tlb_validator := cv_update_validity vops (tlb_validator (cvat_tlb self))\<rparr>;
     let arch = cvat_arch self;
     run \<leftarrow> cached_requests vops ops tlb tt arch addrs
       \<lparr>cr_out = out, cr_out_fail = out_fail, cr_uncached_in = [], cr_addrs = [], cr_hitc = 0, cr_misc = 0\<rparr>;
     (uncached_out, uncached_out_fail, vat, phys_mem) \<leftarrow>
       (if cr_addrs run \<noteq> [] then vat_tagged (cvat_vat self) phys_mem (cr_addrs run) [] []
        else Some ([], [], cvat_vat self, phys_mem));
     (out, out_fail, vat, phys_mem) \<leftarrow>
       (if cr_uncached_in run \<noteq> []
        then vat_plain vat phys_mem (cr_uncached_in run) (cr_out run) (cr_out_fail run)
        else Some (cr_out run, cr_out_fail run, vat, phys_mem));
     (out, tlb) \<leftarrow> cache_results vops tt arch uncached_out tlb out;
     (out_fail, tlb) \<leftarrow> cache_failures vops ops tt arch uncached_out_fail tlb out_fail;
     Some (out, out_fail,
       self\<lparr>cvat_vat := vat, cvat_tlb := tlb, cvat_hitc := cvat_hitc self + cr_hitc run,
            cvat_misc := cvat_misc self + cr_misc run\<rparr>, phys_mem)
   }"

text \<open>\<open>VirtualTranslate::virt_to_phys\<close>, the provided method, over this translation.\<close>

definition cached_virt_to_phys ::
  "'v validator_ops \<Rightarrow> ('w, 'm, address \<times> usize) vat_iter \<Rightarrow> ('w, 'm, usize) vat_iter
     \<Rightarrow> (address \<Rightarrow> usize) \<Rightarrow> ('w, 'v) cached_vat \<Rightarrow> 'm \<Rightarrow> address
     \<Rightarrow> (phys_addr result \<times> ('w, 'v) cached_vat \<times> 'm) option" where
  "cached_virt_to_phys vops vat_tagged vat_plain tt self phys_mem vaddr = do {
     (vec, vec_fail, self, phys_mem) \<leftarrow>
       cached_virt_to_phys_iter vops usize_ops vat_tagged vat_plain tt self phys_mem [(vaddr, 1)] [] [];
     (if vec \<noteq> [] then Some (Inr (fst (last vec)), self, phys_mem)
      else if vec_fail \<noteq> [] then Some (Inl (fst (last vec_fail)), self, phys_mem)
      else None)
   }"

section \<open>The builder\<close>

record ('w, 'v) vat_builder =
  cvb_vat :: 'w
  cvb_validator :: 'v
  cvb_entries :: "usize option"
  cvb_arch :: "x86_architecture option"

text \<open>\<open>DefaultCacheValidator\<close> is the timed validator in a build with \<open>std\<close>.\<close>

definition cvb_new ::
  "('k, 'i, 'd) clock \<Rightarrow> 'k \<Rightarrow> 'w \<Rightarrow> ('w, ('k, 'i, 'd) timed_validator) vat_builder" where
  "cvb_new ck k vat =
     \<lparr>cvb_vat = vat, cvb_validator = timed_default ck k, cvb_entries = Some 2048, cvb_arch = None\<rparr>"

definition cached_vat_builder ::
  "('k, 'i, 'd) clock \<Rightarrow> 'k \<Rightarrow> 'w \<Rightarrow> ('w, ('k, 'i, 'd) timed_validator) vat_builder" where
  "cached_vat_builder ck k vat = cvb_new ck k vat"

definition cvb_build ::
  "'v validator_ops \<Rightarrow> ('w, 'v) vat_builder \<Rightarrow> ('w, 'v) cached_vat result" where
  "cvb_build vops b =
     (case cvb_entries b of
        None \<Rightarrow> Inl (error_from_str ''entries must be initialized'')
      | Some entries \<Rightarrow>
          let tlb = tlb_new vops entries (cvb_validator b)
          in (case cvb_arch b of
                None \<Rightarrow> Inl (error_from_str ''arch must be initialized'')
              | Some arch \<Rightarrow> Inr (cached_vat_new (cvb_vat b) tlb arch)))"

definition cvb_with_validator :: "'u \<Rightarrow> ('w, 'v) vat_builder \<Rightarrow> ('w, 'u) vat_builder" where
  "cvb_with_validator validator b =
     \<lparr>cvb_vat = cvb_vat b, cvb_validator = validator, cvb_entries = cvb_entries b, cvb_arch = cvb_arch b\<rparr>"

definition cvb_with_entries :: "usize \<Rightarrow> ('w, 'v) vat_builder \<Rightarrow> ('w, 'v) vat_builder" where
  "cvb_with_entries entries b = b\<lparr>cvb_entries := Some entries\<rparr>"

definition cvb_with_arch :: "x86_architecture \<Rightarrow> ('w, 'v) vat_builder \<Rightarrow> ('w, 'v) vat_builder" where
  "cvb_with_arch arch b = b\<lparr>cvb_arch := Some arch\<rparr>"

section \<open>One address\<close>

lemma x86_page_size: "arch \<in> x86_archs \<Longrightarrow> arch_page_size arch = Some 0x1000"
proof -
  have "arch_page_size x64_spec = Some 0x1000" "arch_page_size x32_spec = Some 0x1000"
    "arch_page_size x32_pae_spec = Some 0x1000"
    by code_simp+
  then show "arch \<in> x86_archs \<Longrightarrow> ?thesis" by (auto simp: x86_archs_def)
qed

lemma page_4k_facts:
  "(0x1000 :: usize) \<noteq> 0" "page_align ADDRESS_INVALID 0x1000 \<noteq> ADDRESS_INVALID"
  by (simp_all add: page_align_def ADDRESS_INVALID_def)

lemma usize_cells_one: "usize_cells b = [()] \<longleftrightarrow> b = 1"
proof -
  have "usize_cells b = [()] \<longleftrightarrow> unat b = 1"
    by (metis length_replicate list.size(3,4) One_nat_def add_0 replicate_Suc replicate_0 usize_cells_def)
  then show ?thesis by (metis unat_1 word_unat_eq_iff)
qed

text \<open>A value of length one is one chunk, and the check is not asked.\<close>

lemma one_chunk:
  "drain (pci_next usize_ops chk) (page_chunks_by 1 v 0x1000 s) =
     Some ([(v, 1)], \<lparr>pci_v = None, pci_cur_address = v + (page_align (v + 0x1000) 0x1000 - v - 1 + 1),
       pci_page_size = 0x1000, pci_check = s, pci_cur_off = 0\<rparr>)"
proof -
  let ?it = "page_chunks_by (1 :: usize) v 0x1000 s"
  let ?e = "page_align (v + 0x1000) 0x1000 - v - 1"
  have e: "pci_end_len (?it\<lparr>pci_v := None\<rparr>) = Some ?e"
    by (simp add: pci_end_len_def page_chunks_by_def pci_new_def as_page_aligned_def address_from_u64_def
        as_u64_def as_usize_def)
  obtain l r where sp: "so_split_inclusive_at usize_ops 1 ?e = Some (l, r, 1)"
    "usize_cells l = take (Suc (unat ?e)) (usize_cells 1)"
    "r = None \<longleftrightarrow> length (usize_cells 1) \<le> Suc (unat ?e)"
    by (rule usize_split.split_inclusive_obtain [of 1 ?e]) simp_all
  have "usize_cells 1 = [()]" by (simp add: usize_cells_one)
  with sp have lr: "l = 1" "r = None" by (simp_all add: usize_cells_one)
  let ?it' = "?it\<lparr>pci_v := None, pci_cur_address := v + (?e + 1)\<rparr>"
  have "pci_loop usize_ops chk (?it\<lparr>pci_v := None\<rparr>) 1 = Some ((v, 1), ?it')"
    by (subst pci_loop.simps)
      (simp add: e sp(1) lr, simp add: page_chunks_by_def pci_new_def address_from_usize_def as_usize_def)
  then have n: "pci_next usize_ops chk ?it = Some (Some (v, 1), ?it')"
    by (simp add: pci_next_def page_chunks_by_def pci_new_def)
  have "pci_next usize_ops chk ?it' = Some (None, ?it')"
    by (simp add: pci_next_def)
  with n have "yields (pci_next usize_ops chk) ?it [(v, 1)] ?it'" by simp
  from yields_drain [OF this] show ?thesis
    by (simp add: page_chunks_by_def pci_new_def)
qed

lemma one_request:
  assumes "arch \<in> x86_archs" and "tlb_ok v_ok slots tlb" and "try_entry vops tlb tt v arch = Some r"
  shows "cached_requests vops usize_ops tlb tt arch [(v, 1)] run =
     Some (case r of
         Some (Inr entry) \<Rightarrow>
           run\<lparr>cr_hitc := cr_hitc run + 1, cr_out := cr_out run @ [(te_phys_addr entry, 1)]\<rparr>
       | Some (Inl error) \<Rightarrow>
           run\<lparr>cr_hitc := cr_hitc run + 1, cr_out_fail := cr_out_fail run @ [(error, v, 1)]\<rparr>
       | None \<Rightarrow> run\<lparr>cr_misc := cr_misc run + 1, cr_addrs := cr_addrs run @ [(v, v, 1)]\<rparr>)"
proof -
  have n: "length (tlb_entries tlb) < 18446744073709551616" using assms(2) by (simp add: tlb_ok_def)
  have ps: "arch_page_size arch = Some 0x1000" using assms(1) by (rule x86_page_size)
  have "is_read_too_long tlb arch 1 = Some False"
    using n by (simp add: is_read_too_long_def ps)
  moreover have "so_length usize_ops 1 = 1" by (simp add: usize_ops_def)
  ultimately have "cached_requests vops usize_ops tlb tt arch [(v, 1)] run =
      cached_chunk vops usize_ops tlb tt arch (v, 1) run"
    by (simp add: cached_request_def one_chunk ps)
  then show ?thesis
    using \<open>so_length usize_ops 1 = 1\<close>
    by (simp add: cached_chunk_def assms(3) ps split: option.split sum.split)
qed

text \<open>The uncached translator behind the cache.\<close>

definition direct_vat ::
  "('t translation_chunk \<Rightarrow> nat) \<Rightarrow> 't split_ops \<Rightarrow> 's tree_map \<Rightarrow> 'm phys_mem \<Rightarrow> x86_scoped_translate
     \<Rightarrow> (unit, 'm, 't) vat_iter" where
  "direct_vat cap ops tm pm t w m addrs out out_fail =
     map_option (\<lambda>(out, out_fail, m). (out, out_fail, (), m))
       (direct_virt_to_phys_iter cap ops tm pm m t addrs out out_fail)"

context matching_memory
begin

lemma memory_total: "phys_memory_total pm inv"
  by (rule phys_memory_total_axioms)

end

lemma direct_vat_one:
  assumes "matching_memory pm mem_ok content" and "mem_ok m" and "arch \<in> x86_archs"
    and "unat v < 18446744073709551615" and "walk (x86_mmu arch) (content m) dtb v \<noteq> Walk_Unmapped"
  shows "\<exists>out fail m'. direct_vat cap (pair_ops usize_ops) tm pm (xst_new arch dtb) () m [(v, v, 1)] [] [] =
       Some (out, fail, (), m') \<and> mem_ok m' \<and> content m' = content m \<and>
     (case walk (x86_mmu arch) (content m) dtb v of
        Walk_Entry pte k \<Rightarrow> out = [(the (get_phys_page (x86_mmu arch) pte v k), v, 1)] \<and> fail = []
      | _ \<Rightarrow> out = [] \<and> fail = [(VirtualTranslate, v, v, 1)])"
proof -
  let ?spec = "x86_mmu arch" and ?ops = "pair_ops usize_ops"
  let ?ok = "pair_ok (\<lambda>_. True)" and ?cells = "pair_cells usize_cells"
  have deep: "deep_spec ?spec" using assms(3) x86_deep by (auto simp: x86_archs_def)
  have mw: "mapped_walk ?ops ?ok ?cells pm mem_ok content"
    using pair_usize_split.split_index_axioms assms(1) by (rule mapped_walk.intro)
  have bw: "batch_walk ?ops ?ok ?cells pm mem_ok"
    using pair_usize_split.split_index_axioms
    by (rule batch_walk.intro) (rule matching_memory.memory_total [OF assms(1)])
  have c: "usize_cells 1 = [()]" by (simp add: usize_cells_one)
  have one: "?cells (v, 1) = [(v, ())]" by (simp add: pair_cells_def c)
  have "1 \<le> virt_range ?spec" using assms(3) by (auto simp: x86_archs_def x86_virt_range)
  then have req: "good_request ?ok ?cells ?spec (v, v, 1)"
    using assms(4) by (simp add: good_request_def one pair_ok_def)
  obtain out fail m' where run: "mmu_virt_to_phys_iter cap ?ops ?spec tm pm m dtb [(v, v, 1)] [] []
      = Some (out, fail, m')"
    "outcome ?spec (walk ?spec (content m) dtb v) v out fail" "mem_ok m'" "content m' = content m"
    using mapped_walk.virt_to_phys_one [OF mw deep assms(2) req one assms(5)] by blast
  have n: "0 < split_count ?spec" using deep by (simp add: deep_spec_def)
  have "\<forall>r \<in> set [(v, v, 1)]. good_request ?ok ?cells ?spec r" using req by simp
  from batch_walk.virt_to_phys_iter_cells [OF bw n assms(2) this, of cap tm dtb "[]" "[]"]
  have sum: "buf_cells ?cells (map snd out) + buf_cells ?cells (map (\<lambda>(_, _, b). b) fail) = {#(v, ())#}"
    by (simp add: run(1) one)
  have whole: "b = (v, 1)" if "mset (?cells b) = {#(v, ())#}" for b
  proof -
    have ac: "a = v \<and> xs = [()]" if "addr_cells a xs = [(v, ())]" for a and xs :: "unit list"
      using that by (cases xs; cases "tl xs") auto
    from that have "addr_cells (fst b) (usize_cells (snd b)) = [(v, ())]"
      by (simp add: pair_cells_def)
    from ac [OF this] have "fst b = v" "snd b = 1" by (simp_all add: usize_cells_one)
    then show ?thesis by (cases b) simp
  qed
  have "case walk ?spec (content m) dtb v of
        Walk_Entry pte k \<Rightarrow> out = [(the (get_phys_page ?spec pte v k), v, 1)] \<and> fail = []
      | _ \<Rightarrow> out = [] \<and> fail = [(VirtualTranslate, v, v, 1)]"
  proof (cases "walk ?spec (content m) dtb v")
    case (Walk_Entry pte k)
    with run(2) obtain b pa where o: "get_phys_page ?spec pte v k = Some pa" "out = [(pa, b)]" "fail = []"
      by (auto simp: outcome_def)
    with sum have "b = (v, 1)" by (intro whole) simp
    with o Walk_Entry show ?thesis by simp
  next
    case Walk_Fault
    with run(2) obtain b where o: "out = []" "fail = [(VirtualTranslate, v, b)]"
      by (auto simp: outcome_def)
    with sum have "b = (v, 1)" by (intro whole) simp
    with o Walk_Fault show ?thesis by simp
  qed (use assms(5) in simp)
  with run show ?thesis
    by (simp add: direct_vat_def direct_virt_to_phys_iter_def scoped_virt_to_phys_iter_def xst_new_def)
qed

lemma fault_pages:
  assumes "unat v < 18446744073709551615" and "unat (page_align v 0x1000) \<le> unat b"
    and "unat b < unat (page_align (v + 1 + 1) 0x1000)"
  shows "page_align b 0x1000 = page_align v 0x1000"
proof -
  have two: "v + 1 + 1 = v + 2" by simp
  have lo: "unat v div 4096 * 4096 \<le> unat b" and hi: "unat b < unat (v + 2) div 4096 * 4096"
    using assms(2,3) unfolding two unat_page_align by simp_all
  have "unat v + 2 < 18446744073709551616"
  proof (rule ccontr)
    assume "\<not> unat v + 2 < 18446744073709551616"
    then have "unat (v + 2) = unat v + 2 - 18446744073709551616"
      using unat_add_wrap [of v 2] by simp
    then have "unat (v + 2) div 4096 = 0" using assms(1) by simp
    with hi show False by simp
  qed
  then have "unat (v + 2) = unat v + 2"
    using unat_add_nowrap [of v 2] by simp
  then have "unat b div 4096 < (unat v + 2) div 4096"
    using hi by (simp add: div_less_iff_less_mult)
  also have "\<dots> \<le> (unat v + 4096) div 4096" by (intro div_le_mono) simp
  also have "\<dots> = Suc (unat v div 4096)" by simp
  finally have "unat b div 4096 \<le> unat v div 4096" by simp
  moreover have "unat v div 4096 \<le> unat b div 4096"
    using lo by (simp add: less_eq_div_iff_mult_less_eq)
  ultimately have "unat b div 4096 = unat v div 4096" by (rule order.antisym)
  then show ?thesis
    by (intro word_unat_eq_iff [THEN iffD2]) (simp add: unat_page_align)
qed

lemma walk_phys_entry:
  assumes "arch \<in> x86_archs" and "walk (x86_mmu arch) content dtb v = Walk_Entry pte k"
  shows "\<exists>pa. get_phys_page (x86_mmu arch) pte v k = Some pa \<and>
     walk_phys arch content dtb v = Some (pa_address pa) \<and> pa_is_valid pa \<and> pa_has_page pa"
proof -
  let ?p = "\<lambda>c m v. (pte AND c) OR (v AND m)"
  obtain c m j t where g: "get_phys_page (x86_mmu arch) pte v k = Some (pa_with_page (?p c m v) t (2 ^ j))"
    and cm: "c AND 0xFFF = 0" "c \<le> 0xFFFFFFFFFFFFF" "m AND 0xFFF = 0xFFF" "m \<le> 0xFFFFFFFFFFFFF"
    and j: "2 \<le> j" "j \<le> 30"
    using phys_page_shape [OF assms(1) walk_entry_final [OF assms(2)], of pte] by blast
  have "?p c m v \<noteq> NOT 0"
    using shape_paged(3) [OF cm, of pte v] by auto
  then have "pa_is_valid (pa_with_page (?p c m v) t (2 ^ j))"
    by (simp add: pa_is_valid_def is_valid_def)
  then show ?thesis
    using g pa_has_page_exp [OF j] by (simp add: walk_phys_def assms(2))
qed

context cache_validator
begin

text \<open>What one miss does, for any outcome of the translator behind the cache.\<close>

lemma cached_results_run:
  assumes "arch \<in> x86_archs" and "paged 0x1000 (\<lambda>_. tr)" and "tlb_run ops v_ok arch 0x1000 (\<lambda>_. tr) tlb"
    and "tr v = Some (pa_address pa)" and "pa_is_valid pa" and "pa_has_page pa"
  shows "\<exists>tlb'. cache_results ops tt arch [(pa, v, b)] tlb out = Some (out @ [(pa, b)], tlb') \<and>
     tlb_run ops v_ok arch 0x1000 (\<lambda>_. tr) tlb'"
proof -
  note ps = x86_page_size [OF assms(1)]
  have inv: "tlb_ok v_ok slots tlb" "tlb_agrees 0x1000 (\<lambda>_. tr) (tlb_entries tlb)"
    using tlb_run_invariant [OF assms(3) ps page_4k_facts(1) assms(2) page_4k_facts(2)] by blast+
  obtain tlb' where t: "cache_entry ops tlb tt v pa arch = Some tlb'"
    using cache_entry_agrees [where tt = tt, OF ps page_4k_facts(1) assms(2) inv assms(4-6)] by (elim exE conjE)
  have "tlb_run ops v_ok arch 0x1000 (\<lambda>_. tr) tlb'"
    by (rule tlb_run.store [where tr = "\<lambda>_. tr" and tt = tt and a = v and out = pa, OF assms(3-6) t])
  with t show ?thesis by simp
qed

lemma cached_failures_run:
  assumes "arch \<in> x86_archs" and "paged 0x1000 (\<lambda>_. tr)" and "tlb_run ops v_ok arch 0x1000 (\<lambda>_. tr) tlb"
    and "unat v < 18446744073709551615"
    and "\<And>b. page_align b 0x1000 = page_align v 0x1000 \<Longrightarrow> tr b = None"
  shows "\<exists>tlb'. cache_failures ops usize_ops tt arch [(e, v, a, 1)] tlb fail = Some (fail @ [(e, v, 1)], tlb') \<and>
     tlb_run ops v_ok arch 0x1000 (\<lambda>_. tr) tlb'"
proof -
  note ps = x86_page_size [OF assms(1)]
  have inv: "tlb_ok v_ok slots tlb" "tlb_agrees 0x1000 (\<lambda>_. tr) (tlb_entries tlb)"
    using tlb_run_invariant [OF assms(3) ps page_4k_facts(1) assms(2) page_4k_facts(2)] by blast+
  have none: "tr b = None" if "unat (page_align v 0x1000) \<le> unat b" "unat b < unat (page_align (v + 1 + 1) 0x1000)" for b
    using fault_pages [OF assms(4) that] by (rule assms(5))
  have "\<exists>tlb'. cache_invalid_if_uncached ops tlb tt v 1 arch = Some tlb' \<and> tlb_ok v_ok slots tlb' \<and>
      tlb_agrees 0x1000 (\<lambda>_. tr) (tlb_entries tlb') \<and> length (tlb_entries tlb') = length (tlb_entries tlb)"
    by (rule cache_invalid_agrees [OF ps page_4k_facts(1) inv]) (rule none)
  then obtain tlb' where t: "cache_invalid_if_uncached ops tlb tt v 1 arch = Some tlb'" by blast
  have "tlb_run ops v_ok arch 0x1000 (\<lambda>_. tr) tlb'"
    by (rule tlb_run.fault [where tr = "\<lambda>_. tr" and tt = tt and a = v and len = 1, OF assms(3) _ t])
      (use none in blast)
  with t show ?thesis by (simp add: usize_ops_def)
qed

lemma cached_one:
  assumes arch: "cvat_arch self \<in> x86_archs" and paged: "paged 0x1000 (\<lambda>_. tr)"
    and run: "tlb_run ops v_ok (cvat_arch self) 0x1000 (\<lambda>_. tr) (cvat_tlb self)"
    and v: "unat v < 18446744073709551615"
    and vat: "vat_tagged (cvat_vat self) m [(v, v, 1)] [] [] = Some (out, fail, w', m')"
    and hit: "\<And>p. tr v = Some p \<Longrightarrow> fail = [] \<and>
      (\<exists>pa. out = [(pa, v, 1)] \<and> p = pa_address pa \<and> pa_is_valid pa \<and> pa_has_page pa)"
    and flt: "tr v = None \<Longrightarrow> out = [] \<and> fail = [(VirtualTranslate, v, v, 1)] \<and>
      (\<forall>b. page_align b 0x1000 = page_align v 0x1000 \<longrightarrow> tr b = None)"
  shows "\<exists>r tlb' h q w2 m2.
     cached_virt_to_phys ops vat_tagged vat_plain tt self m v =
       Some (r, self\<lparr>cvat_vat := w2, cvat_tlb := tlb', cvat_hitc := cvat_hitc self + h,
                  cvat_misc := cvat_misc self + q\<rparr>, m2) \<and>
     (case r of Inr pa \<Rightarrow> tr v = Some (pa_address pa) | Inl e \<Rightarrow> tr v = None \<and> e = VirtualTranslate) \<and>
     tlb_run ops v_ok (cvat_arch self) 0x1000 (\<lambda>_. tr) tlb' \<and>
     ((h, q, w2, m2) = (1, 0, cvat_vat self, m) \<or> (h, q, w2, m2) = (0, 1, w', m'))"
proof -
  let ?arch = "cvat_arch self"
  let ?tlb = "(cvat_tlb self)\<lparr>tlb_validator := cv_update_validity ops (tlb_validator (cvat_tlb self))\<rparr>"
  let ?run0 = "\<lparr>cr_out = [], cr_out_fail = [], cr_uncached_in = [], cr_addrs = [], cr_hitc = 0, cr_misc = 0\<rparr>
      :: usize cached_run"
  note ps = x86_page_size [OF arch]
  have run': "tlb_run ops v_ok ?arch 0x1000 (\<lambda>_. tr) ?tlb"
    using run by (rule tlb_run.tick)
  have ok: "tlb_ok v_ok slots ?tlb"
    using tlb_run_invariant [OF run' ps page_4k_facts(1) paged page_4k_facts(2)] by blast
  obtain r where r: "try_entry ops ?tlb tt v ?arch = Some r"
    "\<And>e. r = Some (Inr e) \<Longrightarrow> tr v = Some (pa_address (te_phys_addr e))"
    "\<And>e. r = Some (Inl e) \<Longrightarrow> tr v = None \<and> e = VirtualTranslate"
    using tlb_run_lookup [OF run' ps page_4k_facts(1) paged page_4k_facts(2), of tt v] by blast
  note reqs = one_request [OF arch ok r(1), of ?run0]
  show ?thesis
  proof (cases r)
    case None
    show ?thesis
    proof (cases "tr v")
      case (Some p)
      with hit obtain pa where o: "out = [(pa, v, 1)]" "fail = []" "p = pa_address pa"
        "pa_is_valid pa" "pa_has_page pa" by blast
      obtain tlb' where t: "cache_results ops tt ?arch [(pa, v, 1 :: usize)] ?tlb [] = Some ([] @ [(pa, 1)], tlb')"
        "tlb_run ops v_ok ?arch 0x1000 (\<lambda>_. tr) tlb'"
        using cached_results_run [OF arch paged run' _ o(4,5), of v tt 1 "[]"] Some o(3) by auto
      have "cached_virt_to_phys ops vat_tagged vat_plain tt self m v = Some (Inr pa,
          self\<lparr>cvat_vat := w', cvat_tlb := tlb', cvat_hitc := cvat_hitc self + 0,
            cvat_misc := cvat_misc self + 1\<rparr>, m')"
        using None vat t(1) o by (simp add: cached_virt_to_phys_def cached_virt_to_phys_iter_def Let_def reqs
          del: cached_requests.simps(2) cache_results.simps(2) cache_failures.simps(2))
      then show ?thesis by (intro exI conjI, assumption) (use Some o t(2) in simp_all)
    next
      case tr: None
      with flt have o: "out = []" "fail = [(VirtualTranslate, v, v, 1)]"
        and none: "\<And>b. page_align b 0x1000 = page_align v 0x1000 \<Longrightarrow> tr b = None" by blast+
      obtain tlb' where t: "cache_failures ops usize_ops tt ?arch [(VirtualTranslate, v, v, 1)] ?tlb [] =
          Some ([] @ [(VirtualTranslate, v, 1)], tlb')" "tlb_run ops v_ok ?arch 0x1000 (\<lambda>_. tr) tlb'"
        using cached_failures_run [OF arch paged run' v none, of tt VirtualTranslate v "[]"] by blast
      have "cached_virt_to_phys ops vat_tagged vat_plain tt self m v = Some (Inl VirtualTranslate,
          self\<lparr>cvat_vat := w', cvat_tlb := tlb', cvat_hitc := cvat_hitc self + 0,
            cvat_misc := cvat_misc self + 1\<rparr>, m')"
        using None vat t(1) o by (simp add: cached_virt_to_phys_def cached_virt_to_phys_iter_def Let_def reqs
          del: cached_requests.simps(2) cache_results.simps(2) cache_failures.simps(2))
      then show ?thesis by (intro exI conjI, assumption) (use tr t(2) in simp_all)
    qed
  next
    case (Some res)
    show ?thesis
    proof (cases res)
      case (Inr e)
      have "cached_virt_to_phys ops vat_tagged vat_plain tt self m v = Some (Inr (te_phys_addr e),
          self\<lparr>cvat_vat := cvat_vat self, cvat_tlb := ?tlb, cvat_hitc := cvat_hitc self + 1,
            cvat_misc := cvat_misc self + 0\<rparr>, m)"
        using Some Inr by (simp add: cached_virt_to_phys_def cached_virt_to_phys_iter_def Let_def reqs
          del: cached_requests.simps(2) cache_results.simps(2) cache_failures.simps(2))
      then show ?thesis by (intro exI conjI, assumption) (use r(2) [of e] Some Inr run' in simp_all)
    next
      case (Inl e)
      have "cached_virt_to_phys ops vat_tagged vat_plain tt self m v = Some (Inl VirtualTranslate,
          self\<lparr>cvat_vat := cvat_vat self, cvat_tlb := ?tlb, cvat_hitc := cvat_hitc self + 1,
            cvat_misc := cvat_misc self + 0\<rparr>, m)"
        using Some Inl r(3) [of e] by (simp add: cached_virt_to_phys_def cached_virt_to_phys_iter_def Let_def reqs
          del: cached_requests.simps(2) cache_results.simps(2) cache_failures.simps(2))
      then show ?thesis by (intro exI conjI, assumption) (use r(3) [of e] Some Inl run' in simp_all)
    qed
  qed
qed

end

section \<open>The cached walk\<close>

lemma cached_virt_run:
  assumes "cache_validator vops v_ok slots" and "matching_memory pm mem_ok content" and "mem_ok m"
    and "cvat_arch self \<in> {x64_spec, x32_spec, x32_pae_spec}"
    and "tlb_run vops v_ok (cvat_arch self) 0x1000 (\<lambda>_. walk_phys (cvat_arch self) (content m) dtb) (cvat_tlb self)"
    and "unat v < 18446744073709551615"
    and "walk (x86_mmu (cvat_arch self)) (content m) dtb v \<noteq> Walk_Unmapped"
  shows "\<exists>r self' m'.
     cached_virt_to_phys vops (direct_vat cap (pair_ops usize_ops) tm pm (xst_new (cvat_arch self) dtb))
       (direct_vat cap' usize_ops tm pm (xst_new (cvat_arch self) dtb))
       (translation_table_id (xst_new (cvat_arch self) dtb)) self m v = Some (r, self', m') \<and>
     (case r of
        Inr pa \<Rightarrow> walk_phys (cvat_arch self) (content m) dtb v = Some (pa_address pa)
      | Inl e \<Rightarrow> walk_phys (cvat_arch self) (content m) dtb v = None \<and> e = VirtualTranslate) \<and>
     mem_ok m' \<and> content m' = content m \<and> cvat_arch self' = cvat_arch self \<and>
     tlb_run vops v_ok (cvat_arch self') 0x1000 (\<lambda>_. walk_phys (cvat_arch self') (content m') dtb) (cvat_tlb self') \<and>
     (cvat_hitc self' = cvat_hitc self + 1 \<and> cvat_misc self' = cvat_misc self \<and> m' = m \<or>
      cvat_hitc self' = cvat_hitc self \<and> cvat_misc self' = cvat_misc self + 1)"
proof -
  let ?arch = "cvat_arch self"
  let ?tr = "walk_phys ?arch (content m) dtb"
  have arch: "?arch \<in> x86_archs" using assms(4) by (simp add: x86_archs_def)
  obtain out fail m1 where vat: "direct_vat cap (pair_ops usize_ops) tm pm (xst_new ?arch dtb) (cvat_vat self) m
      [(v, v, 1)] [] [] = Some (out, fail, (), m1)" "mem_ok m1" "content m1 = content m"
    and res: "case walk (x86_mmu ?arch) (content m) dtb v of
        Walk_Entry pte k \<Rightarrow> out = [(the (get_phys_page (x86_mmu ?arch) pte v k), v, 1)] \<and> fail = []
      | _ \<Rightarrow> out = [] \<and> fail = [(VirtualTranslate, v, v, 1)]"
    using direct_vat_one [OF assms(2,3) arch assms(6,7), of cap tm] by auto
  have hit: "fail = [] \<and> (\<exists>pa. out = [(pa, v, 1)] \<and> p = pa_address pa \<and> pa_is_valid pa \<and> pa_has_page pa)"
    if p: "?tr v = Some p" for p
  proof (cases "walk (x86_mmu ?arch) (content m) dtb v")
    case (Walk_Entry pte k)
    with walk_phys_entry [OF arch Walk_Entry] res p show ?thesis by auto
  qed (use p in \<open>simp_all add: walk_phys_def\<close>)
  have flt: "out = [] \<and> fail = [(VirtualTranslate, v, v, 1)] \<and>
      (\<forall>b. page_align b 0x1000 = page_align v 0x1000 \<longrightarrow> ?tr b = None)" if p: "?tr v = None"
  proof (cases "walk (x86_mmu ?arch) (content m) dtb v")
    case (Walk_Entry pte k)
    with walk_phys_entry [OF arch Walk_Entry] p show ?thesis by auto
  next
    case Walk_Fault
    then have "walk (x86_mmu ?arch) (content m) dtb b = Walk_Fault"
      if "page_align b 0x1000 = page_align v 0x1000" for b
      using walk_same_page [OF arch that] by simp
    with res Walk_Fault show ?thesis by (simp add: walk_phys_def)
  qed (use assms(7) in simp)
  from cache_validator.cached_one [where self = self and tr = ?tr and v = v and m = m and
      vat_tagged = "direct_vat cap (pair_ops usize_ops) tm pm (xst_new ?arch dtb)",
       OF assms(1) arch walk_phys_paged [OF arch, of "content m" dtb] assms(5,6) vat(1) hit flt]
  obtain r tlb' h q w2 m2 where one: "cached_virt_to_phys vops
       (direct_vat cap (pair_ops usize_ops) tm pm (xst_new ?arch dtb))
       (direct_vat cap' usize_ops tm pm (xst_new ?arch dtb))
       (translation_table_id (xst_new ?arch dtb)) self m v =
       Some (r, self\<lparr>cvat_vat := w2, cvat_tlb := tlb', cvat_hitc := cvat_hitc self + h,
                  cvat_misc := cvat_misc self + q\<rparr>, m2)"
    "case r of Inr pa \<Rightarrow> ?tr v = Some (pa_address pa) | Inl e \<Rightarrow> ?tr v = None \<and> e = VirtualTranslate"
    "tlb_run vops v_ok ?arch 0x1000 (\<lambda>_. ?tr) tlb'"
    "(h, q, w2, m2) = (1, 0, cvat_vat self, m) \<or> (h, q, w2, m2) = (0, 1, (), m1)"
    by blast
  let ?self = "self\<lparr>cvat_vat := w2, cvat_tlb := tlb', cvat_hitc := cvat_hitc self + h,
      cvat_misc := cvat_misc self + q\<rparr>"
  have m2: "mem_ok m2" "content m2 = content m"
    using one(4) assms(3) vat(2,3) by auto
  show ?thesis
    by (intro exI conjI, rule one(1), rule one(2), rule m2(1), rule m2(2))
      (use one(3,4) m2(2) in auto)
qed

section \<open>Properties\<close>

text \<open>
  C6. The cached translation refines the page walk. On the three x86 modes, over any
  readable memory, and whatever the cache was used for before as long as it was filled with
  translations of these tables: \<open>virt_to_phys\<close> through the cache returns the physical
  address of the walk, or the translation error where the walk faults. It keeps the cache in
  this state, counts one hit or one miss, and on a hit the memory is not read.
\<close>

theorem cached_virt_to_phys_is_walk:
  assumes "cache_validator vops v_ok slots" and "matching_memory pm mem_ok content" and "mem_ok m"
    and "cvat_arch self \<in> {x64_spec, x32_spec, x32_pae_spec}"
    and "tlb_run vops v_ok (cvat_arch self) 0x1000 (\<lambda>_. walk_phys (cvat_arch self) (content m) dtb) (cvat_tlb self)"
    and "unat v < 18446744073709551615"
    and "walk (x86_mmu (cvat_arch self)) (content m) dtb v \<noteq> Walk_Unmapped"
  shows "\<exists>r self' m'.
     cached_virt_to_phys vops (direct_vat cap (pair_ops usize_ops) tm pm (xst_new (cvat_arch self) dtb))
       (direct_vat cap' usize_ops tm pm (xst_new (cvat_arch self) dtb))
       (translation_table_id (xst_new (cvat_arch self) dtb)) self m v = Some (r, self', m') \<and>
     (case r of
        Inr pa \<Rightarrow> walk_phys (cvat_arch self) (content m) dtb v = Some (pa_address pa)
      | Inl e \<Rightarrow> walk_phys (cvat_arch self) (content m) dtb v = None \<and> e = VirtualTranslate) \<and>
     mem_ok m' \<and> content m' = content m \<and> cvat_arch self' = cvat_arch self \<and>
     tlb_run vops v_ok (cvat_arch self') 0x1000 (\<lambda>_. walk_phys (cvat_arch self') (content m') dtb) (cvat_tlb self') \<and>
     (cvat_hitc self' = cvat_hitc self + 1 \<and> cvat_misc self' = cvat_misc self \<and> m' = m \<or>
      cvat_hitc self' = cvat_hitc self \<and> cvat_misc self' = cvat_misc self + 1)"
  by (rule cached_virt_run [OF assms])

lemma cached_virt_to_phys_is_walk_witness:
  "\<exists>r self' m'.
     cached_virt_to_phys count_ops
       (direct_vat (\<lambda>_. 0) (pair_ops usize_ops) list_tree_map reference_memory (xst_new x64_spec 0x1000))
       (direct_vat (\<lambda>_. 0) usize_ops list_tree_map reference_memory (xst_new x64_spec 0x1000))
       (translation_table_id (xst_new x64_spec 0x1000))
       (cached_vat_new () (tlb_new count_ops 4 (count_new 10)) x64_spec) (example_tables 0xB0) 0x1234
       = Some (r, self', m') \<and>
     (case r of
        Inr pa \<Rightarrow> walk_phys x64_spec (example_tables 0xB0) 0x1000 0x1234 = Some (pa_address pa)
      | Inl e \<Rightarrow> walk_phys x64_spec (example_tables 0xB0) 0x1000 0x1234 = None \<and> e = VirtualTranslate)"
proof -
  let ?self = "cached_vat_new () (tlb_new count_ops 4 (count_new 10)) x64_spec"
  have self: "cvat_arch ?self = x64_spec" "cvat_tlb ?self = tlb_new count_ops 4 (count_new 10)"
    by (simp_all add: cached_vat_new_def)
  have start: "tlb_run count_ops (\<lambda>v. cc_valid_count v \<noteq> 0) x64_spec 0x1000 tr
      (tlb_new count_ops 4 (count_new 10))" for tr
    by (rule tlb_run.start) (simp_all add: count_new_def)
  have v: "unat (0x1234 :: u64) < 18446744073709551615" by simp
  from cached_virt_to_phys_is_walk [OF count.cache_validator_axioms reference.matching_memory_axioms,
      where m = "example_tables 0xB0" and self = ?self and dtb = "0x1000" and v = "0x1234" and
        cap = "\<lambda>_. 0" and cap' = "\<lambda>_. 0" and tm = list_tree_map, unfolded self,
      OF TrueI _ start v example_mapped]
  show ?thesis by auto
qed

end
