(* ===== verification/Page_Cache.thy ===== *)
theory Page_Cache
  imports Cache_Validators Page_Chunks Buf_Store Mmu_Spec
begin

text \<open>
  The physical page cache of \<open>memflow/src/mem/cache/page_cache.rs\<close>. The cache owns one
  block of memory with a page per slot; the code hands the pages around as exclusive slices
  that are taken out of \<open>page_refs\<close> and put back. A page is its slot here, the block a list
  of pages, so a page that is dropped instead of put back is visible as a missing reference.
  The buffers of the caller are a store of byte lists.
\<close>

section \<open>Data\<close>

datatype page_validity = Invalid | Validatable nat | ToBeValidated | Valid nat

record page_entry =
  en_address :: address
  en_validity :: page_validity

record 'v page_cache =
  pc_address :: "address list"
  pc_page_refs :: "nat option list"
  pc_address_once_validated :: "address list"
  pc_page_size :: usize
  pc_page_type_mask :: page_type
  pc_validator :: 'v
  pc_block :: "u8 list list"

definition entry_with :: "address \<Rightarrow> page_validity \<Rightarrow> page_entry" where
  "entry_with a v = \<lparr>en_address = a, en_validity = v\<rparr>"

text \<open>
  \<open>Layout::from_size_align(..).unwrap()\<close> panics unless the alignment is a power of two and
  the size is at most \<open>isize::MAX\<close>, both up to the alignment.
\<close>

definition layout_ok :: "usize \<Rightarrow> usize \<Rightarrow> bool" where
  "layout_ok sz align \<longleftrightarrow>
     align \<noteq> 0 \<and> align AND (align - 1) = 0 \<and> uint sz + uint align \<le> 9223372036854775808"

definition pc_with_page_size ::
  "'v validator_ops \<Rightarrow> usize \<Rightarrow> usize \<Rightarrow> page_type \<Rightarrow> 'v \<Rightarrow> 'v page_cache option" where
  "pc_with_page_size vops page_size sz page_type_mask validator =
     (if page_size = 0 then None
      else let cache_entries = sz div page_size in
        if \<not> layout_ok (cache_entries * page_size) page_size then None
        else let n = unat cache_entries in
          Some \<lparr>pc_address = replicate n ADDRESS_INVALID,
                pc_page_refs = map Some [0..<n],
                pc_address_once_validated = replicate n ADDRESS_INVALID,
                pc_page_size = page_size,
                pc_page_type_mask = page_type_mask,
                pc_validator = cv_allocate_slots vops validator n,
                pc_block = replicate n (replicate (unat page_size) 0)\<rparr>)"

definition pc_new ::
  "'v validator_ops \<Rightarrow> x86_architecture \<Rightarrow> usize \<Rightarrow> page_type \<Rightarrow> 'v \<Rightarrow> 'v page_cache option" where
  "pc_new vops arch sz page_type_mask validator = do {
     page_size \<leftarrow> arch_page_size arch;
     pc_with_page_size vops page_size sz page_type_mask validator
   }"

section \<open>Pages\<close>

text \<open>A division or a remainder by zero panics.\<close>

definition page_index :: "'v page_cache \<Rightarrow> address \<Rightarrow> nat option" where
  "page_index c addr = do {
     a \<leftarrow> as_page_aligned addr (pc_page_size c);
     (if pc_address c = [] then None
      else Some (unat ((as_usize a div pc_page_size c) mod of_nat (length (pc_address c)))))
   }"

definition take_page ::
  "'v validator_ops \<Rightarrow> 'v page_cache \<Rightarrow> address \<Rightarrow> bool \<Rightarrow> (page_validity \<times> 'v page_cache) option" where
  "take_page vops c addr skip_validator = do {
     i \<leftarrow> page_index c addr;
     bufopt \<leftarrow> index_of (pc_page_refs c) i;
     refs \<leftarrow> index_put (pc_page_refs c) i None;
     let c = c\<lparr>pc_page_refs := refs\<rparr>;
     aligned \<leftarrow> as_page_aligned addr (pc_page_size c);
     once \<leftarrow> index_of (pc_address_once_validated c) i;
     (case bufopt of
        Some buf \<Rightarrow> do {
          cached \<leftarrow> index_of (pc_address c) i;
          valid \<leftarrow> (if cached = aligned
                    then (if skip_validator then Some True else cv_is_slot_valid vops (pc_validator c) i)
                    else Some False);
          Some (if valid then Valid buf
                else if once = aligned \<or> once = ADDRESS_INVALID then Validatable buf
                else Invalid, c)
        }
      | None \<Rightarrow> Some (if once = aligned then ToBeValidated else Invalid, c))
   }"

definition put_page :: "'v page_cache \<Rightarrow> address \<Rightarrow> nat \<Rightarrow> 'v page_cache option" where
  "put_page c addr page = do {
     i \<leftarrow> page_index c addr;
     refs \<leftarrow> index_put (pc_page_refs c) i (Some page);
     Some (c\<lparr>pc_page_refs := refs\<rparr>)
   }"

definition is_cached_page_type :: "'v page_cache \<Rightarrow> page_type \<Rightarrow> bool" where
  "is_cached_page_type c page_type = page_type_contains (pc_page_type_mask c) page_type"

definition cached_page_mut ::
  "'v validator_ops \<Rightarrow> 'v page_cache \<Rightarrow> address \<Rightarrow> bool \<Rightarrow> (page_entry \<times> 'v page_cache) option" where
  "cached_page_mut vops c addr skip_validator = do {
     aligned_addr \<leftarrow> as_page_aligned addr (pc_page_size c);
     (v, c) \<leftarrow> take_page vops c addr skip_validator;
     Some (\<lparr>en_address = aligned_addr, en_validity = v\<rparr>, c)
   }"

definition put_entry :: "'v page_cache \<Rightarrow> page_entry \<Rightarrow> 'v page_cache option" where
  "put_entry c entry =
     (case en_validity entry of
        Valid buf \<Rightarrow> put_page c (en_address entry) buf
      | Validatable buf \<Rightarrow> put_page c (en_address entry) buf
      | _ \<Rightarrow> Some c)"

definition mark_page_for_validation :: "'v page_cache \<Rightarrow> address \<Rightarrow> 'v page_cache option" where
  "mark_page_for_validation c addr = do {
     i \<leftarrow> page_index c addr;
     aligned_addr \<leftarrow> as_page_aligned addr (pc_page_size c);
     once \<leftarrow> index_put (pc_address_once_validated c) i aligned_addr;
     Some (c\<lparr>pc_address_once_validated := once\<rparr>)
   }"

definition validate_page ::
  "'v validator_ops \<Rightarrow> 'v page_cache \<Rightarrow> address \<Rightarrow> nat \<Rightarrow> 'v page_cache option" where
  "validate_page vops c addr page_buf = do {
     i \<leftarrow> page_index c addr;
     as \<leftarrow> index_put (pc_address c) i addr;
     once \<leftarrow> index_put (pc_address_once_validated c) i ADDRESS_INVALID;
     v \<leftarrow> cv_validate_slot vops (pc_validator c) i;
     put_page (c\<lparr>pc_address := as, pc_address_once_validated := once, pc_validator := v\<rparr>) addr page_buf
   }"

definition invalidate_page ::
  "'v validator_ops \<Rightarrow> 'v page_cache \<Rightarrow> address \<Rightarrow> page_type \<Rightarrow> 'v page_cache option" where
  "invalidate_page vops c addr page_type =
     (if page_type_contains (pc_page_type_mask c) page_type
      then do {
        i \<leftarrow> page_index c addr;
        v \<leftarrow> cv_invalidate_slot vops (pc_validator c) i;
        as \<leftarrow> index_put (pc_address c) i ADDRESS_INVALID;
        once \<leftarrow> index_put (pc_address_once_validated c) i ADDRESS_INVALID;
        Some (c\<lparr>pc_validator := v, pc_address := as, pc_address_once_validated := once\<rparr>)
      }
      else Some c)"

definition split_to_chunks ::
  "phys_addr \<times> mut_slice \<Rightarrow> usize \<Rightarrow> (phys_addr \<times> mut_slice) list option" where
  "split_to_chunks rd page_size =
     (case rd of (addr, out) \<Rightarrow>
        map_option (map (\<lambda>(paddr, chunk). (pa_with_page paddr (pa_page_type addr) (pa_page_size addr), chunk)))
          (page_chunks_list mut_slice_ops out (pa_address addr) page_size))"

section \<open>Reading\<close>

text \<open>The locals of \<open>cached_read\<close>, with the cache, the memory and the caller's buffers.\<close>

record ('v, 'm) cache_run =
  ru_cache :: "'v page_cache"
  ru_mem :: 'm
  ru_store :: "u8 list list"
  ru_clist :: "(phys_addr \<times> mut_slice) list"
  ru_wlist :: "(phys_addr \<times> mut_slice) list"
  ru_wlistcache :: "(phys_addr \<times> nat) list"

text \<open>
  \<open>buf.split_at_mut(start).1.split_at_mut(len).0\<close> panics when the page is too short, and
  \<open>copy_from_slice\<close> when the lengths differ.
\<close>

definition copy_from_page :: "u8 list list \<Rightarrow> nat \<Rightarrow> usize \<Rightarrow> mut_slice \<Rightarrow> u8 list list \<Rightarrow> u8 list list option" where
  "copy_from_page block page start out store = do {
     buf \<leftarrow> index_of block page;
     (if unat start + unat (ms_len out) \<le> length buf
      then copy_from_slice out (take (unat (ms_len out)) (drop (unat start) buf)) store
      else None)
   }"

definition read_chunk ::
  "'v validator_ops \<Rightarrow> phys_addr \<Rightarrow> address \<times> mut_slice \<Rightarrow> ('v, 'm) cache_run \<Rightarrow> ('v, 'm) cache_run option" where
  "read_chunk vops addr p ru =
     (case p of (paddr, chunk) \<Rightarrow> do {
        let prd = (pa_with_page paddr (pa_page_type addr) (pa_page_size addr), chunk);
        (entry, c) \<leftarrow> cached_page_mut vops (ru_cache ru) (pa_address (fst prd)) False;
        let ru = ru\<lparr>ru_cache := c\<rparr>;
        (case en_validity entry of
           Valid buf \<Rightarrow> do {
             aligned_addr \<leftarrow> as_page_aligned paddr (pc_page_size c);
             let start = address_sub_addr paddr aligned_addr;
             store \<leftarrow> copy_from_page (pc_block c) buf start (snd prd) (ru_store ru);
             c \<leftarrow> put_page c (en_address entry) buf;
             Some (ru\<lparr>ru_store := store, ru_cache := c\<rparr>)
           }
         | Validatable buf \<Rightarrow> do {
             c \<leftarrow> mark_page_for_validation c (en_address entry);
             Some (ru\<lparr>ru_clist := ru_clist ru @ [prd],
                      ru_wlistcache := ru_wlistcache ru @ [(pa_from_address (en_address entry), buf)],
                      ru_cache := c\<rparr>)
           }
         | ToBeValidated \<Rightarrow> Some (ru\<lparr>ru_clist := ru_clist ru @ [prd]\<rparr>)
         | Invalid \<Rightarrow> Some (ru\<lparr>ru_wlist := ru_wlist ru @ [prd]\<rparr>))
      })"

fun read_chunks ::
  "'v validator_ops \<Rightarrow> phys_addr \<Rightarrow> (address \<times> mut_slice) list \<Rightarrow> ('v, 'm) cache_run
     \<Rightarrow> ('v, 'm) cache_run option" where
  "read_chunks vops addr [] ru = Some ru"
| "read_chunks vops addr (p # ps) ru = do {
     ru \<leftarrow> read_chunk vops addr p ru;
     read_chunks vops addr ps ru
   }"

definition read_request ::
  "'v validator_ops \<Rightarrow> phys_addr \<times> mut_slice \<Rightarrow> ('v, 'm) cache_run \<Rightarrow> ('v, 'm) cache_run option" where
  "read_request vops rd ru =
     (case rd of (addr, out) \<Rightarrow>
        (if is_cached_page_type (ru_cache ru) (pa_page_type addr)
         then do {
           chunks \<leftarrow> page_chunks_list mut_slice_ops out (pa_address addr) (pc_page_size (ru_cache ru));
           read_chunks vops addr chunks ru
         }
         else Some (ru\<lparr>ru_wlist := ru_wlist ru @ [(addr, out)]\<rparr>)))"

fun put_pages :: "nat list \<Rightarrow> u8 list list \<Rightarrow> u8 list list \<Rightarrow> u8 list list option" where
  "put_pages (i # is) (b # bs) block = do {
     block \<leftarrow> index_put block i b;
     put_pages is bs block
   }"
| "put_pages _ _ block = Some block"

definition flush_wlist ::
  "'m phys_mem \<Rightarrow> ('v, 'm) cache_run \<Rightarrow> (unit result \<times> ('v, 'm) cache_run) option" where
  "flush_wlist pm ru =
     (if ru_wlist ru = [] then Some (Inr (), ru)
      else do {
        (r, bufs, m) \<leftarrow> pm_read_raw_list pm (ru_mem ru)
          (map (\<lambda>(pa, s). (pa, slice_bytes s (ru_store ru))) (ru_wlist ru));
        store \<leftarrow> write_back (map snd (ru_wlist ru)) bufs (ru_store ru);
        let ru = ru\<lparr>ru_mem := m, ru_store := store\<rparr>;
        Some (case r of
            Inl e \<Rightarrow> (Inl e, ru)
          | Inr _ \<Rightarrow> (Inr (), ru\<lparr>ru_wlist := []\<rparr>))
      })"

fun validate_pages ::
  "'v validator_ops \<Rightarrow> (phys_addr \<times> nat) list \<Rightarrow> 'v page_cache \<Rightarrow> 'v page_cache option" where
  "validate_pages vops [] c = Some c"
| "validate_pages vops ((addr, buf) # ps) c = do {
     c \<leftarrow> validate_page vops c (pa_address addr) buf;
     validate_pages vops ps c
   }"

definition flush_pages ::
  "'v validator_ops \<Rightarrow> 'm phys_mem \<Rightarrow> ('v, 'm) cache_run \<Rightarrow> (unit result \<times> ('v, 'm) cache_run) option" where
  "flush_pages vops pm ru =
     (if ru_wlistcache ru = [] then Some (Inr (), ru)
      else do {
        let c = ru_cache ru;
        pages \<leftarrow> those (map (\<lambda>(pa, i). map_option (Pair pa) (index_of (pc_block c) i)) (ru_wlistcache ru));
        (r, bufs, m) \<leftarrow> pm_read_raw_list pm (ru_mem ru) pages;
        block \<leftarrow> put_pages (map snd (ru_wlistcache ru)) bufs (pc_block c);
        let c = c\<lparr>pc_block := block\<rparr>;
        let ru = ru\<lparr>ru_mem := m, ru_cache := c\<rparr>;
        (case r of
           Inl e \<Rightarrow> Some (Inl e, ru)
         | Inr _ \<Rightarrow> do {
             c \<leftarrow> validate_pages vops (ru_wlistcache ru) c;
             Some (Inr (), ru\<lparr>ru_cache := c, ru_wlistcache := []\<rparr>)
           })
      })"

text \<open>\<open>while let Some(..) = clist.pop()\<close>: from the last to the first.\<close>

fun flush_clist ::
  "'v validator_ops \<Rightarrow> (phys_addr \<times> mut_slice) list \<Rightarrow> 'v page_cache \<Rightarrow> u8 list list
     \<Rightarrow> ('v page_cache \<times> u8 list list) option" where
  "flush_clist vops [] c store = Some (c, store)"
| "flush_clist vops ((addr, out) # rest) c store = do {
     (entry, c) \<leftarrow> cached_page_mut vops c (pa_address addr) False;
     aligned_addr \<leftarrow> as_page_aligned (en_address entry) (pc_page_size c);
     let start = address_sub_addr (pa_address addr) aligned_addr;
     (c, store) \<leftarrow>
       (case en_validity entry of
          Valid buf \<Rightarrow> do {
            store \<leftarrow> copy_from_page (pc_block c) buf start out store;
            c \<leftarrow> put_page c (en_address entry) buf;
            Some (c, store)
          }
        | _ \<Rightarrow> Some (c, store));
     flush_clist vops rest c store
   }"

definition flush ::
  "'v validator_ops \<Rightarrow> 'm phys_mem \<Rightarrow> ('v, 'm) cache_run \<Rightarrow> (unit result \<times> ('v, 'm) cache_run) option" where
  "flush vops pm ru = do {
     (r, ru) \<leftarrow> flush_wlist pm ru;
     (case r of
        Inl e \<Rightarrow> Some (Inl e, ru)
      | Inr _ \<Rightarrow> do {
          (r, ru) \<leftarrow> flush_pages vops pm ru;
          (case r of
             Inl e \<Rightarrow> Some (Inl e, ru)
           | Inr _ \<Rightarrow> do {
               (c, store) \<leftarrow> flush_clist vops (rev (ru_clist ru)) (ru_cache ru) (ru_store ru);
               Some (Inr (), ru\<lparr>ru_cache := c, ru_store := store, ru_clist := []\<rparr>)
             })
        })
   }"

fun read_loop ::
  "'v validator_ops \<Rightarrow> 'm phys_mem \<Rightarrow> (phys_addr \<times> mut_slice) list \<Rightarrow> ('v, 'm) cache_run
     \<Rightarrow> (unit result \<times> ('v, 'm) cache_run) option" where
  "read_loop vops pm [] ru = Some (Inr (), ru)"
| "read_loop vops pm (rd # iter) ru = do {
     ru \<leftarrow> read_request vops rd ru;
     (if iter = [] \<or> 64 \<le> length (ru_wlist ru) \<or> 64 \<le> length (ru_wlistcache ru) \<or> 64 \<le> length (ru_clist ru)
      then do {
        (r, ru) \<leftarrow> flush vops pm ru;
        (case r of
           Inl e \<Rightarrow> Some (Inl e, ru)
         | Inr _ \<Rightarrow> read_loop vops pm iter ru)
      }
      else read_loop vops pm iter ru)
   }"

definition cached_read ::
  "'v validator_ops \<Rightarrow> 'm phys_mem \<Rightarrow> 'v page_cache \<Rightarrow> 'm \<Rightarrow> phys_read_data list
     \<Rightarrow> (unit result \<times> u8 list list \<times> 'v page_cache \<times> 'm) option" where
  "cached_read vops pm c m data = do {
     (r, ru) \<leftarrow> read_loop vops pm (read_slices data)
       \<lparr>ru_cache = c, ru_mem = m, ru_store = map snd data, ru_clist = [], ru_wlist = [], ru_wlistcache = []\<rparr>;
     Some (r, ru_store ru, ru_cache ru, ru_mem ru)
   }"

text \<open>\<open>Clone\<close> copies the block and starts with no page in it.\<close>

definition pc_clone :: "'v page_cache \<Rightarrow> 'v page_cache option" where
  "pc_clone c =
     (let cache_entries = length (pc_address c) in
      if \<not> layout_ok (of_nat cache_entries * pc_page_size c) (pc_page_size c) then None
      else Some (c\<lparr>pc_address := replicate cache_entries ADDRESS_INVALID,
                   pc_page_refs := map Some [0..<cache_entries],
                   pc_address_once_validated := replicate cache_entries ADDRESS_INVALID\<rparr>))"

end
