(* ===== verification/Page_Cache_Reads.thy ===== *)
theory Page_Cache_Reads
  imports Page_Cache
begin

text \<open>
  The read path of the page cache over a memory that answers every read. The invariant of a
  run says where each page is (in its slot, or taken out and on the list of pages to read),
  that the pages with an address hold the bytes of the memory, and that every byte of the
  requests handled so far is correct or belongs to a slice on one of the two pending lists.
  Each step of the code is shown to keep it.
\<close>

section \<open>Correct bytes\<close>

definition read_addr :: "phys_read_data list \<Rightarrow> nat \<Rightarrow> u64" where
  "read_addr reads k = pa_address (fst (reads ! k))"

text \<open>The cells of the buffers that hold what the memory has there.\<close>

definition matched :: "(u64 \<Rightarrow> u8 option) \<Rightarrow> phys_read_data list \<Rightarrow> u8 list list \<Rightarrow> (nat \<times> nat) set" where
  "matched content reads store =
     {(k, p). k < length reads \<and> p < length (snd (reads ! k)) \<and> (\<forall>b. byte_at content (read_addr reads k) p = Some b \<longrightarrow> store ! k ! p = b)}"

definition placed :: "phys_read_data list \<Rightarrow> phys_addr \<times> mut_slice \<Rightarrow> bool" where
  "placed reads r \<longleftrightarrow>
     ms_len (snd r) = 0 \<or>
     ms_alloc (snd r) < length reads \<and>
     ms_ptr (snd r) + unat (ms_len (snd r)) \<le> length (snd (reads ! ms_alloc (snd r))) \<and>
     pa_address (fst r) = read_addr reads (ms_alloc (snd r)) + of_nat (ms_ptr (snd r))"

definition store_shape :: "phys_read_data list \<Rightarrow> u8 list list \<Rightarrow> bool" where
  "store_shape reads store \<longleftrightarrow> map length store = map (length \<circ> snd) reads"

lemma byte_at_shift:
  assumes "unat a = unat b + p"
  shows "byte_at content a j = byte_at content b (p + j)"
proof -
  have "a = b + of_nat p"
    using arg_cong [OF assms, of "of_nat :: nat \<Rightarrow> u64"] by simp
  then have "a + of_nat j = b + of_nat (p + j)" by simp
  then show ?thesis using assms by (simp add: byte_at_unat add.assoc)
qed

lemma byte_at_later:
  assumes "byte_at content b (p + j) = Some x" and "a = b + of_nat p"
  shows "byte_at content a j = Some x"
proof -
  have n: "unat b + p + j < 18446744073709551616"
    using assms(1) by (simp add: byte_at_unat add.assoc split: if_splits)
  then have "unat a = unat b + p"
    unfolding assms(2) by (subst unat_add_nowrap) (simp_all add: unat_of_nat_64)
  with assms(1) show ?thesis by (simp only: byte_at_shift)
qed

lemma src_matches_sub:
  assumes "src_matches content a src" and "unat b = unat a + s" and "s + n \<le> length src"
  shows "src_matches content b (take n (drop s src))"
  using assms(1,3) unfolding src_matches_def byte_at_shift [OF assms(2)]
  by (auto simp: min_def)

lemma store_shape_nth:
  "store_shape reads store \<Longrightarrow> length store = length reads \<and>
     (k < length reads \<longrightarrow> length (store ! k) = length (snd (reads ! k)))"
  unfolding store_shape_def
  by (metis (no_types, lifting) comp_apply length_map nth_map)

lemma copy_matched:
  assumes "placed reads (pa, s)" and "store_shape reads store" and "length src = unat (ms_len s)"
    and "src_matches content (pa_address pa) src"
  shows "\<exists>store'. copy_from_slice s src store = Some store' \<and> store_shape reads store' \<and>
     matched content reads store \<union> set (mut_slice_cells s) \<subseteq> matched content reads store'"
proof (cases "ms_len s = 0")
  case True
  then have "copy_from_slice s src store = Some store" "mut_slice_cells s = []"
    using assms(3) by (simp_all add: copy_from_slice_def Let_def mut_slice_cells_def)
  then show ?thesis using assms(2) by simp
next
  case False
  let ?k = "ms_alloc s" and ?p = "ms_ptr s"
  let ?b = "store ! ?k"
  have k: "?k < length reads" "?p + length src \<le> length ?b" "length store = length reads"
    using assms(1-3) store_shape_nth [OF assms(2), of ?k] False by (auto simp: placed_def)
  let ?new = "take ?p ?b @ src @ drop (?p + length src) ?b"
  let ?store = "store[?k := ?new]"
  have len: "length ?new = length ?b" using k(2) by simp
  have "map length ?store = (map length store)[?k := length ?b]"
    by (simp only: map_update len)
  also have "\<dots> = map length store"
    using k(1,3) by (simp add: list_update_same_conv)
  finally have shape: "store_shape reads ?store"
    using assms(2) by (simp add: store_shape_def)
  have at: "byte_at content (pa_address pa) j = Some x"
    if "byte_at content (read_addr reads ?k) (?p + j) = Some x" for j x
    by (rule byte_at_later [OF that]) (use assms(1) False in \<open>simp add: placed_def\<close>)
  have new: "?new ! q = (if ?p \<le> q \<and> q < ?p + length src then src ! (q - ?p) else ?b ! q)"
    if "q < length ?b" for q
    using k(2) that by (auto simp: nth_append min_def)
  have hit: "src ! (q - ?p) = b"
    if "?p \<le> q" "q < ?p + length src" "byte_at content (read_addr reads ?k) q = Some b" for q b
  proof -
    have "byte_at content (pa_address pa) (q - ?p) = Some b" by (rule at) (use that in simp)
    then show ?thesis using assms(4) that(1,2) by (simp add: src_matches_def)
  qed
  have lb: "length ?b = length (snd (reads ! ?k))"
    using store_shape_nth [OF assms(2), of ?k] k(1) by simp
  have "(k', q) \<in> matched content reads ?store"
    if kq: "(k', q) \<in> matched content reads store \<union> set (mut_slice_cells s)" for k' q
  proof (cases "k' = ?k")
    case True
    have q: "q < length ?b"
      using kq True k(2) lb assms(3) by (auto simp: matched_def mut_slice_cells_def)
    have "?new ! q = b" if b: "byte_at content (read_addr reads ?k) q = Some b" for b
    proof (cases "?p \<le> q \<and> q < ?p + length src")
      case True
      then show ?thesis using hit [OF _ _ b] new [OF q] by simp
    next
      case False
      then have "(?k, q) \<in> matched content reads store"
        using kq True assms(3) by (auto simp: mut_slice_cells_def)
      with b new [OF q] False show ?thesis by (auto simp: matched_def)
    qed
    then show ?thesis using True k(1,3) q lb by (simp add: matched_def)
  next
    case False
    then show ?thesis using kq by (auto simp: matched_def mut_slice_cells_def)
  qed
  then have "matched content reads store \<union> set (mut_slice_cells s) \<subseteq> matched content reads ?store"
    by auto
  moreover have "copy_from_slice s src store = Some ?store"
    using assms(3) by (simp add: copy_from_slice_def Let_def)
  ultimately show ?thesis using shape by blast
qed

text \<open>A part of a slice lies where its cells do.\<close>

lemma slice_part:
  assumes "mut_slice_cells t = take n (drop d (mut_slice_cells s))" and "d + n \<le> unat (ms_len s)"
    and "ms_len t \<noteq> 0"
  shows "ms_alloc t = ms_alloc s" and "ms_ptr t = ms_ptr s + d" and "unat (ms_len t) = n"
proof -
  have "take n (drop d [ms_ptr s..<ms_ptr s + unat (ms_len s)]) = [ms_ptr s + d..<ms_ptr s + d + n]"
    using assms(2) by simp
  then have e: "map (Pair (ms_alloc t)) [ms_ptr t..<ms_ptr t + unat (ms_len t)] =
      map (Pair (ms_alloc s)) [ms_ptr s + d..<ms_ptr s + d + n]"
    using assms(1) by (simp add: mut_slice_cells_def take_map drop_map)
  show n: "unat (ms_len t) = n"
    using arg_cong [where f = length, OF e] by (simp del: map_eq_conv)
  have "0 < n" unfolding n [symmetric] using assms(3) by (simp add: unat_gt_0)
  then show "ms_alloc t = ms_alloc s" "ms_ptr t = ms_ptr s + d"
    using arg_cong [where f = hd, OF e] n by (simp_all add: hd_map del: map_eq_conv)
qed

lemma page_split_part:
  assumes p: "0 < p"
  shows "(b, bs) \<in> set (page_split p a cs) \<longrightarrow>
     a \<le> b \<and> b - a + length bs \<le> length cs \<and> bs = take (length bs) (drop (b - a) cs)"
  using p
proof (induction a cs rule: page_split_induct)
  case (more a cs)
  let ?n = "page_room p a"
  show ?case
  proof
    assume "(b, bs) \<in> set (page_split p a cs)"
    with more(2) consider "b = a" "bs = take ?n cs" | "(b, bs) \<in> set (page_split p (a + ?n) (drop ?n cs))"
      by auto
    then show "a \<le> b \<and> b - a + length bs \<le> length cs \<and> bs = take (length bs) (drop (b - a) cs)"
    proof cases
      case 2
      with more(3) have b: "a + ?n \<le> b" "b - (a + ?n) + length bs \<le> length cs - ?n"
        "bs = take (length bs) (drop (b - (a + ?n)) (drop ?n cs))" by auto
      then have "drop (b - (a + ?n)) (drop ?n cs) = drop (b - a) cs" by simp
      with b more(1) show ?thesis by auto
    qed (use more(1) in simp)
  qed
qed simp

text \<open>
  Cutting a buffer whose addresses may wrap: with pages that divide the address space the
  cuts are those of a buffer over the natural numbers.
\<close>

context split_index
begin

lemma page_chunks_collect_mod:
  assumes dvd: "unat p dvd 18446744073709551616" "p \<noteq> 0" and buf: "ok buf" "cells buf = cs"
    and A: "of_nat A = a"
  shows "\<exists>chunks. page_chunks_list ops buf a p = Some chunks \<and>
           map (apsnd cells) chunks = map (apfst of_nat) (page_split (unat p) A cs) \<and>
           (\<forall>ch \<in> set chunks. ok (snd ch))"
  using buf A
proof (induction "length cs" arbitrary: a A cs buf rule: less_induct)
  case less
  let ?n = "page_room (unat p) A"
  let ?it = "page_chunks buf a p"
  have p: "0 < unat p" using dvd(2) by (simp add: unat_gt_0)
  have "unat a mod unat p = A mod unat p"
    using dvd(1) by (simp add: less.prems(3) [symmetric] unat_of_nat mod_mod_cancel)
  then have room: "page_room (unat p) (unat a) = ?n" by (simp add: page_room_def)
  have fa: "pages_fit (unat p) (unat a)" using dvd(1) p by (simp add: pages_fit_def)
  obtain l r e where nx:
    "pci_next ops true_func ?it = Some (Some (a, l), ?it\<lparr>pci_v := r, pci_cur_address := a + (e + 1)\<rparr>)"
    "ok l" "cells l = take ?n cs" "Suc (unat e) = ?n"
    "r = None \<longleftrightarrow> length cs \<le> ?n"
    "\<forall>t. r = Some t \<longrightarrow> ok t \<and> cells t = drop ?n cs"
    unfolding room [symmetric]
    by (rule pci_next_step [OF fa less.prems(1), of ?it])
      (auto simp: page_chunks_def pci_new_def less.prems(2))
  show ?case
  proof (cases r)
    case None
    have "pci_next ops true_func (?it\<lparr>pci_v := r, pci_cur_address := a + (e + 1)\<rparr>)
        = Some (None, ?it\<lparr>pci_v := r, pci_cur_address := a + (e + 1)\<rparr>)"
      by (simp add: pci_next_def None)
    then have "page_chunks_list ops buf a p = Some [(a, l)]"
      unfolding page_chunks_list_def using nx(1) by (blast intro: collect_step collect_done)
    with None nx less.prems(3) show ?thesis
      by (simp add: page_split_last)
  next
    case (Some t)
    with nx have n: "?n < length cs" and t: "ok t" "cells t = drop ?n cs" by auto
    have next_it: "?it\<lparr>pci_v := r, pci_cur_address := a + (e + 1)\<rparr> = page_chunks t (a + (e + 1)) p"
      by (simp add: Some page_chunks_def pci_new_def)
    have "of_nat (Suc (unat e)) = e + 1" by simp
    then have a': "of_nat (A + ?n) = a + (e + 1)"
      unfolding nx(4) by (simp add: less.prems(3))
    have len: "length (drop ?n cs) < length cs"
      using n nx(4) by auto
    obtain chunks where ch:
      "page_chunks_list ops t (a + (e + 1)) p = Some chunks"
      "map (apsnd cells) chunks = map (apfst of_nat) (page_split (unat p) (A + ?n) (drop ?n cs))"
      "\<forall>ch \<in> set chunks. ok (snd ch)"
      using less.hyps [OF len t a'] by auto
    have "page_chunks_list ops buf a p = Some ((a, l) # chunks)"
      using nx(1) ch(1) unfolding page_chunks_list_def next_it by (rule collect_step)
    with ch nx n p less.prems(3) show ?thesis
      by (simp add: page_split_more)
  qed
qed

end

lemma chunks_placed:
  assumes "placed reads (pa, s)" and "mut_slice_ok s" and "unat p dvd 18446744073709551616" and "p \<noteq> 0"
  shows "\<exists>chunks. page_chunks_list mut_slice_ops s (pa_address pa) p = Some chunks \<and>
     (\<Union>ch \<in> set chunks. set (mut_slice_cells (snd ch))) = set (mut_slice_cells s) \<and>
     (\<forall>(a, ch) \<in> set chunks. placed reads (pa_with_page a t z, ch) \<and>
        unat a mod unat p + unat (ms_len ch) \<le> unat p)"
proof -
  let ?a = "unat (pa_address pa)" and ?cells = "mut_slice_cells s"
  have p: "0 < unat p" using assms(4) by (simp add: unat_gt_0)
  have len: "length (mut_slice_cells x) = unat (ms_len x)" for x by (simp add: mut_slice_cells_def)
  obtain chunks where ch: "page_chunks_list mut_slice_ops s (pa_address pa) p = Some chunks"
    "map (apsnd mut_slice_cells) chunks = map (apfst of_nat) (page_split (unat p) ?a ?cells)"
    using mut_slice_split.page_chunks_collect_mod [OF assms(3,4,2) refl, of ?a] by auto
  have part: "\<exists>b. (b, mut_slice_cells c) \<in> set (page_split (unat p) ?a ?cells) \<and> a = of_nat b"
    if "(a, c) \<in> set chunks" for a c
  proof -
    have "(a, mut_slice_cells c) \<in> set (map (apsnd mut_slice_cells) chunks)" using that by force
    then show ?thesis unfolding ch(2) by auto
  qed
  have "(\<Union>ch \<in> set chunks. set (mut_slice_cells (snd ch))) =
      set (concat (map snd (map (apsnd mut_slice_cells) chunks)))"
    by (simp add: comp_def)
  then have cells: "(\<Union>ch \<in> set chunks. set (mut_slice_cells (snd ch))) = set ?cells"
    by (simp add: ch(2) page_split_concat [OF p] comp_def del: set_concat)
  have "placed reads (pa_with_page a t z, c) \<and> unat a mod unat p + unat (ms_len c) \<le> unat p"
    if ac: "(a, c) \<in> set chunks" for a c
  proof -
    obtain b where b: "(b, mut_slice_cells c) \<in> set (page_split (unat p) ?a ?cells)" "a = of_nat b"
      using part [OF ac] by blast
    note split = page_split_part [OF p, THEN mp, OF b(1)]
    have "unat a mod unat p = b mod unat p"
      using assms(3) by (simp add: b(2) unat_of_nat mod_mod_cancel)
    then have "unat a mod unat p + unat (ms_len c) \<le> unat p"
      using page_split_page [OF p, THEN mp, OF b(1)] by (simp add: len)
    moreover have "placed reads (pa_with_page a t z, c)"
    proof (cases "ms_len c = 0")
      case False
      have fit: "b - ?a + unat (ms_len c) \<le> unat (ms_len s)" "?a \<le> b"
        using split len [of c] len [of s] by linarith+
      then have "ms_len s \<noteq> 0" using False by (auto simp: unat_gt_0 [symmetric])
      with assms(1) have pl: "ms_alloc s < length reads"
        "ms_ptr s + unat (ms_len s) \<le> length (snd (reads ! ms_alloc s))"
        "pa_address pa = read_addr reads (ms_alloc s) + of_nat (ms_ptr s)"
        by (simp_all add: placed_def)
      have "mut_slice_cells c = take (unat (ms_len c)) (drop (b - ?a) ?cells)"
        using split len [of c] by simp
      note c = slice_part [OF this fit(1) False]
      have "a = pa_address pa + of_nat (b - ?a)"
        using fit(2) by (simp add: b(2) of_nat_diff)
      then have "a = read_addr reads (ms_alloc s) + of_nat (ms_ptr s + (b - ?a))"
        by (simp add: pl(3))
      moreover have "ms_ptr s + (b - ?a) + unat (ms_len c) \<le> length (snd (reads ! ms_alloc s))"
        using pl(2) fit(1) by linarith
      ultimately show ?thesis
        using pl(1) unfolding placed_def fst_conv snd_conv c(1,2) pa_with_page_fields by blast
    qed (simp add: placed_def)
    ultimately show ?thesis by simp
  qed
  with ch(1) cells show ?thesis by auto
qed

section \<open>The invariant\<close>

definition page_slot :: "'v page_cache \<Rightarrow> address \<Rightarrow> nat" where
  "page_slot c a = (unat a div unat (pc_page_size c)) mod length (pc_address c)"

definition pc_shape :: "('v \<Rightarrow> bool) \<Rightarrow> ('v \<Rightarrow> nat) \<Rightarrow> 'v page_cache \<Rightarrow> bool" where
  "pc_shape v_ok slots c \<longleftrightarrow>
     0 < length (pc_address c) \<and> length (pc_address c) < 18446744073709551616 \<and>
     length (pc_page_refs c) = length (pc_address c) \<and>
     length (pc_address_once_validated c) = length (pc_address c) \<and>
     length (pc_block c) = length (pc_address c) \<and>
     (\<forall>page \<in> set (pc_block c). length page = unat (pc_page_size c)) \<and>
     pc_page_size c \<noteq> 0 \<and> unat (pc_page_size c) < 9223372036854775808 \<and>
     unat (pc_page_size c) dvd 18446744073709551616 \<and>
     page_align ADDRESS_INVALID (pc_page_size c) \<noteq> ADDRESS_INVALID \<and>
     v_ok (pc_validator c) \<and> slots (pc_validator c) = length (pc_address c)"

text \<open>A page with an address holds the bytes of the memory there.\<close>

definition pc_holds :: "(u64 \<Rightarrow> u8 option) \<Rightarrow> 'v page_cache \<Rightarrow> bool" where
  "pc_holds content c \<longleftrightarrow>
     (\<forall>i < length (pc_address c). pc_address c ! i \<noteq> ADDRESS_INVALID \<longrightarrow>
        src_matches content (pc_address c ! i) (pc_block c ! i))"

text \<open>A page is in its slot, or on the list of pages to read.\<close>

definition pages_out :: "'v page_cache \<Rightarrow> (phys_addr \<times> nat) list \<Rightarrow> bool" where
  "pages_out c pend \<longleftrightarrow>
     (\<forall>i < length (pc_address c).
        pc_page_refs c ! i = Some i \<and> pc_address_once_validated c ! i = ADDRESS_INVALID \<or>
        pc_page_refs c ! i = None \<and> i \<in> snd ` set pend \<and>
        pc_address_once_validated c ! i \<noteq> ADDRESS_INVALID \<and>
        page_align (pc_address_once_validated c ! i) (pc_page_size c) = pc_address_once_validated c ! i \<and>
        page_slot c (pc_address_once_validated c ! i) = i) \<and>
     (\<forall>(pa, i) \<in> set pend. i < length (pc_address c) \<and> pc_page_refs c ! i = None \<and>
        pa_address pa = pc_address_once_validated c ! i) \<and>
     distinct (map snd pend)"

lemma pages_out_slot:
  assumes "pages_out c pend" and "i < length (pc_address c)"
  obtains "pc_page_refs c ! i = Some i" "pc_address_once_validated c ! i = ADDRESS_INVALID"
    | "pc_page_refs c ! i = None" "i \<in> snd ` set pend" "pc_address_once_validated c ! i \<noteq> ADDRESS_INVALID"
      "page_align (pc_address_once_validated c ! i) (pc_page_size c) = pc_address_once_validated c ! i"
      "page_slot c (pc_address_once_validated c ! i) = i"
proof -
  from assms(1)[unfolded pages_out_def, THEN conjunct1, rule_format, OF assms(2)]
  show ?thesis by (elim disjE conjE) (rule that; assumption)+
qed

lemma pages_out_pend:
  assumes "pages_out c pend" and "(pa, i) \<in> set pend"
  shows "i < length (pc_address c)" and "pc_page_refs c ! i = None"
    and "pa_address pa = pc_address_once_validated c ! i"
  using assms(1)[unfolded pages_out_def, THEN conjunct2, THEN conjunct1] assms(2) by auto

lemma page_index_slot:
  assumes "pc_shape v_ok slots c"
  shows "page_index c a = Some (page_slot c a)" and "page_slot c a < length (pc_address c)"
proof -
  have c: "pc_page_size c \<noteq> 0" "length (pc_address c) < 18446744073709551616" "pc_address c \<noteq> []"
    using assms by (auto simp: pc_shape_def)
  show "page_index c a = Some (page_slot c a)"
    using c unat_page_slot [OF c(1,2), of a]
    by (simp add: page_index_def as_page_aligned_def as_usize_def page_slot_def)
  show "page_slot c a < length (pc_address c)"
    using c(3) by (simp add: page_slot_def)
qed

lemma page_slot_align [simp]: "page_slot c (page_align a (pc_page_size c)) = page_slot c a"
  by (cases "unat (pc_page_size c) = 0") (simp_all add: page_slot_def unat_page_align)

lemma page_align_valid:
  assumes "pc_shape v_ok slots c"
  shows "page_align a (pc_page_size c) \<noteq> ADDRESS_INVALID"
  using assms page_align_idem [of a "pc_page_size c"] unfolding pc_shape_def by metis

context cache_validator
begin

lemma cached_page_cases:
  fixes a :: address
  assumes "pc_shape v_ok slots c" and "pages_out c pend"
  defines "i \<equiv> page_slot c a" and "A \<equiv> page_align a (pc_page_size c)"
  shows "\<exists>valid. cv_is_slot_valid ops (pc_validator c) i = Some valid \<and>
     cached_page_mut ops c a False = Some (\<lparr>en_address = A, en_validity =
       (if pc_page_refs c ! i = None
        then (if pc_address_once_validated c ! i = A then ToBeValidated else Invalid)
        else if pc_address c ! i = A \<and> valid then Valid i else Validatable i)\<rparr>,
       c\<lparr>pc_page_refs := (pc_page_refs c)[i := None]\<rparr>)"
proof -
  have idx: "page_index c a = Some i" "i < length (pc_address c)"
    using page_index_slot [OF assms(1)] by (simp_all add: i_def)
  have len: "i < length (pc_page_refs c)" "i < length (pc_address_once_validated c)" "pc_page_size c \<noteq> 0"
    "v_ok (pc_validator c)" "slots (pc_validator c) = length (pc_address c)"
    using assms(1) idx(2) by (auto simp: pc_shape_def)
  obtain b where b: "cv_is_slot_valid ops (pc_validator c) i = Some b"
    using ask [OF len(4)] len(5) idx(2) by auto
  let ?c = "c\<lparr>pc_page_refs := (pc_page_refs c)[i := None]\<rparr>"
  have al: "as_page_aligned a (pc_page_size c) = Some A"
    using len(3) by (simp add: as_page_aligned_def A_def)
  from assms(2) idx(2) have "take_page ops c a False = Some
      (if pc_page_refs c ! i = None
       then (if pc_address_once_validated c ! i = A then ToBeValidated else Invalid)
       else if pc_address c ! i = A \<and> b then Valid i else Validatable i, ?c)"
    by (rule pages_out_slot) (use idx len al b in \<open>simp_all add: take_page_def Let_def\<close>)
  then show ?thesis
    using b by (simp add: cached_page_mut_def al)
qed

end

lemma page_slot_update [simp]:
  "page_slot (c\<lparr>pc_page_refs := r\<rparr>) a = page_slot c a"
  "page_slot (c\<lparr>pc_page_refs := r, pc_address_once_validated := o1\<rparr>) a = page_slot c a"
  by (simp_all add: page_slot_def)

section \<open>Runs\<close>

definition slice_fits :: "'v page_cache \<Rightarrow> phys_addr \<times> mut_slice \<Rightarrow> bool" where
  "slice_fits c r \<longleftrightarrow>
     unat (pa_address (fst r)) mod unat (pc_page_size c) + unat (ms_len (snd r)) \<le> unat (pc_page_size c)"

definition awaits :: "'v page_cache \<Rightarrow> phys_addr \<times> mut_slice \<Rightarrow> bool" where
  "awaits c r \<longleftrightarrow>
     pc_address_once_validated c ! page_slot c (pa_address (fst r)) = page_align (pa_address (fst r)) (pc_page_size c)"

definition slice_cells :: "(phys_addr \<times> mut_slice) list \<Rightarrow> (nat \<times> nat) set" where
  "slice_cells rs = (\<Union>r \<in> set rs. set (mut_slice_cells (snd r)))"

lemma slice_cells_simps [simp]:
  "slice_cells [] = {}"
  "slice_cells (r # rs) = set (mut_slice_cells (snd r)) \<union> slice_cells rs"
  "slice_cells (rs @ rs') = slice_cells rs \<union> slice_cells rs'"
  by (auto simp: slice_cells_def)

definition cache_ok ::
  "('v \<Rightarrow> bool) \<Rightarrow> ('v \<Rightarrow> nat) \<Rightarrow> (u64 \<Rightarrow> u8 option) \<Rightarrow> 'v page_cache \<Rightarrow> (phys_addr \<times> nat) list \<Rightarrow> bool" where
  "cache_ok v_ok slots C c pend \<longleftrightarrow> pc_shape v_ok slots c \<and> pc_holds C c \<and> pages_out c pend"

definition lists_ok ::
  "phys_read_data list \<Rightarrow> ('v, 'm) cache_run \<Rightarrow> bool" where
  "lists_ok reads ru \<longleftrightarrow>
     (\<forall>r \<in> set (ru_clist ru). placed reads r \<and> slice_fits (ru_cache ru) r \<and> awaits (ru_cache ru) r) \<and>
     (\<forall>r \<in> set (ru_wlist ru). placed reads r)"

definition run_ok ::
  "('v \<Rightarrow> bool) \<Rightarrow> ('v \<Rightarrow> nat) \<Rightarrow> (u64 \<Rightarrow> u8 option) \<Rightarrow> phys_read_data list \<Rightarrow> ('v, 'm) cache_run
     \<Rightarrow> (nat \<times> nat) set \<Rightarrow> bool" where
  "run_ok v_ok slots C reads ru dn \<longleftrightarrow>
     cache_ok v_ok slots C (ru_cache ru) (ru_wlistcache ru) \<and> lists_ok reads ru \<and>
     store_shape reads (ru_store ru) \<and>
     dn \<subseteq> matched C reads (ru_store ru) \<union> slice_cells (ru_clist ru) \<union> slice_cells (ru_wlist ru)"

lemma pages_out_update:
  assumes "pages_out c pend" and "i = page_slot c a" and "pc_page_refs c ! i \<noteq> None"
    and "pc_shape v_ok slots c"
  defines "A \<equiv> page_align a (pc_page_size c)"
  shows "pages_out (c\<lparr>pc_page_refs := (pc_page_refs c)[i := None],
      pc_address_once_validated := (pc_address_once_validated c)[i := A]\<rparr>)
    (pend @ [(pa_from_address A, i)])" (is "pages_out ?c _")
proof -
  have len: "length (pc_page_refs c) = length (pc_address c)"
    "length (pc_address_once_validated c) = length (pc_address c)" "i < length (pc_address c)"
    using assms(4) page_index_slot(2) [OF assms(4)] by (simp_all add: pc_shape_def assms(2))
  have new: "i \<notin> snd ` set pend"
    using pages_out_pend(2) [OF assms(1)] assms(3) by force
  have A: "A \<noteq> ADDRESS_INVALID" "page_align A (pc_page_size c) = A" "page_slot c A = i"
    using page_align_valid [OF assms(4)] by (simp_all add: A_def assms(2))
  have pa: "pa_address (pa_from_address A) = A" by (simp add: pa_from_address_def)
  have slots: "pc_page_refs ?c ! j = Some j \<and> pc_address_once_validated ?c ! j = ADDRESS_INVALID \<or>
        pc_page_refs ?c ! j = None \<and> j \<in> snd ` set (pend @ [(pa_from_address A, i)]) \<and>
        pc_address_once_validated ?c ! j \<noteq> ADDRESS_INVALID \<and>
        page_align (pc_address_once_validated ?c ! j) (pc_page_size ?c) = pc_address_once_validated ?c ! j \<and>
        page_slot ?c (pc_address_once_validated ?c ! j) = j" if j: "j < length (pc_address c)" for j
  proof (cases "j = i")
    case True
    then show ?thesis using A len by simp
  next
    case False
    from assms(1) j show ?thesis
      by (rule pages_out_slot) (use False in simp_all)
  qed
  have pend: "j < length (pc_address c) \<and> pc_page_refs ?c ! j = None \<and>
      pa_address p = pc_address_once_validated ?c ! j"
    if "(p, j) \<in> set (pend @ [(pa_from_address A, i)])" for p j
  proof (cases "j = i")
    case True
    with that new have "p = pa_from_address A" by force
    with True len pa show ?thesis by simp
  next
    case False
    with that have "(p, j) \<in> set pend" by simp
    from pages_out_pend [OF assms(1) this] False show ?thesis by simp
  qed
  have "distinct (map snd (pend @ [(pa_from_address A, i)]))"
    using assms(1) new by (simp add: pages_out_def)
  with slots pend show ?thesis unfolding pages_out_def by auto
qed

text \<open>Copying a slice out of a page that holds the bytes of the memory.\<close>

lemma page_copy_matched:
  assumes "pc_shape v_ok slots c" and "pc_holds C c" and "i < length (pc_address c)"
    and "pc_address c ! i = page_align (pa_address pa) (pc_page_size c)"
    and "placed reads (pa, s)" and "slice_fits c (pa, s)" and "store_shape reads store"
  shows "\<exists>store'. copy_from_page (pc_block c) i (address_sub_addr (pa_address pa)
      (page_align (pa_address pa) (pc_page_size c))) s store = Some store' \<and>
    store_shape reads store' \<and>
    matched C reads store \<union> set (mut_slice_cells s) \<subseteq> matched C reads store'"
proof -
  let ?a = "pa_address pa" and ?page = "pc_block c ! i"
  let ?A = "page_align ?a (pc_page_size c)"
  let ?n = "unat (ms_len s)"
  have blk: "i < length (pc_block c)" "length ?page = unat (pc_page_size c)"
    using assms(1,3) by (simp_all add: pc_shape_def)
  have off: "unat (address_sub_addr ?a ?A) = unat ?a mod unat (pc_page_size c)"
    by (simp add: address_sub_addr_def page_align_off)
  have fit: "unat ?a mod unat (pc_page_size c) + ?n \<le> length ?page"
    using assms(6) by (simp add: slice_fits_def blk(2))
  have "pc_address c ! i \<noteq> ADDRESS_INVALID"
    using page_align_valid [OF assms(1)] assms(4) by simp
  then have "src_matches C ?A ?page"
    using assms(2,3,4) by (auto simp: pc_holds_def)
  moreover have "unat ?a = unat ?A + unat ?a mod unat (pc_page_size c)"
    by (simp only: unat_page_align div_mult_mod_eq)
  ultimately have src: "src_matches C ?a (take ?n (drop (unat ?a mod unat (pc_page_size c)) ?page))"
    using fit by (intro src_matches_sub) simp_all
  have "length (take ?n (drop (unat ?a mod unat (pc_page_size c)) ?page)) = ?n"
    using fit by simp
  from copy_matched [OF assms(5,7) this src] show ?thesis
    using blk(1) fit by (simp add: copy_from_page_def off)
qed

lemma pc_shape_update [simp]:
  "length r = length (pc_page_refs c) \<Longrightarrow>
     pc_shape v_ok slots (c\<lparr>pc_page_refs := r\<rparr>) = pc_shape v_ok slots c"
  "length r = length (pc_page_refs c) \<Longrightarrow> length a = length (pc_address_once_validated c) \<Longrightarrow>
     pc_shape v_ok slots (c\<lparr>pc_page_refs := r, pc_address_once_validated := a\<rparr>) = pc_shape v_ok slots c"
  by (simp_all add: pc_shape_def)

lemma put_page_slot:
  assumes "pc_shape v_ok slots c"
  shows "put_page c a p = Some (c\<lparr>pc_page_refs := (pc_page_refs c)[page_slot c a := Some p]\<rparr>)"
  using page_index_slot [OF assms, of a] assms by (simp add: put_page_def pc_shape_def)

lemma mark_page_slot:
  assumes "pc_shape v_ok slots c"
  shows "mark_page_for_validation c a = Some (c\<lparr>pc_address_once_validated :=
     (pc_address_once_validated c)[page_slot c a := page_align a (pc_page_size c)]\<rparr>)"
  using page_index_slot [OF assms, of a] assms
  by (simp add: mark_page_for_validation_def as_page_aligned_def pc_shape_def)

context cache_validator
begin

lemma read_chunk_ok:
  assumes run: "run_ok v_ok slots C reads ru dn"
    and chunk: "placed reads (pa, chunk)" "slice_fits (ru_cache ru) (pa, chunk)"
    and pa: "pa = pa_with_page paddr (pa_page_type addr) (pa_page_size addr)"
  shows "\<exists>ru'. read_chunk ops addr (paddr, chunk) ru = Some ru' \<and>
     run_ok v_ok slots C reads ru' (dn \<union> set (mut_slice_cells chunk)) \<and> ru_mem ru' = ru_mem ru \<and>
     pc_page_size (ru_cache ru') = pc_page_size (ru_cache ru) \<and>
     pc_page_type_mask (ru_cache ru') = pc_page_type_mask (ru_cache ru)"
proof -
  let ?c = "ru_cache ru"
  let ?i = "page_slot ?c paddr" and ?A = "page_align paddr (pc_page_size ?c)"
  have adr: "pa_address pa = paddr" by (simp add: pa)
  have ok: "pc_shape v_ok slots ?c" "pc_holds C ?c" "pages_out ?c (ru_wlistcache ru)"
    and lists: "lists_ok reads ru" and shape: "store_shape reads (ru_store ru)"
    and dn: "dn \<subseteq> matched C reads (ru_store ru) \<union> slice_cells (ru_clist ru) \<union> slice_cells (ru_wlist ru)"
    using run by (simp_all add: run_ok_def cache_ok_def)
  have len: "?i < length (pc_address ?c)" "length (pc_page_refs ?c) = length (pc_address ?c)"
    "length (pc_address_once_validated ?c) = length (pc_address ?c)" "pc_page_size ?c \<noteq> 0"
    using page_index_slot(2) [OF ok(1)] ok(1) by (simp_all add: pc_shape_def)
  have same: "?c\<lparr>pc_page_refs := (pc_page_refs ?c)[?i := None]\<rparr> = ?c" if "pc_page_refs ?c ! ?i = None"
    using that by (simp add: list_update_same_conv [THEN iffD2] len)
  obtain b where b: "cached_page_mut ops ?c paddr False = Some (\<lparr>en_address = ?A, en_validity =
       (if pc_page_refs ?c ! ?i = None
        then (if pc_address_once_validated ?c ! ?i = ?A then ToBeValidated else Invalid)
        else if pc_address ?c ! ?i = ?A \<and> b then Valid ?i else Validatable ?i)\<rparr>,
       ?c\<lparr>pc_page_refs := (pc_page_refs ?c)[?i := None]\<rparr>)"
    using cached_page_cases [OF ok(1,3), of paddr] by blast
  have r: "pc_page_refs ?c ! ?i = Some ?i" "pc_address_once_validated ?c ! ?i = ADDRESS_INVALID"
    if "pc_page_refs ?c ! ?i \<noteq> None"
    using ok(3) len(1) that by (auto elim: pages_out_slot)
  note step = read_chunk_def pa [symmetric] adr b
  consider (waiting) "pc_page_refs ?c ! ?i = None" "pc_address_once_validated ?c ! ?i = ?A"
    | (other) "pc_page_refs ?c ! ?i = None" "pc_address_once_validated ?c ! ?i \<noteq> ?A"
    | (valid) "pc_page_refs ?c ! ?i \<noteq> None" "pc_address ?c ! ?i = ?A" "b"
    | (stale) "pc_page_refs ?c ! ?i \<noteq> None" "\<not> (pc_address ?c ! ?i = ?A \<and> b)"
    by blast
  then show ?thesis
  proof cases
    case waiting
    have "read_chunk ops addr (paddr, chunk) ru = Some (ru\<lparr>ru_clist := ru_clist ru @ [(pa, chunk)]\<rparr>)"
      using waiting by (simp add: step same)
    moreover have "awaits ?c (pa, chunk)" using waiting by (simp add: awaits_def adr)
    ultimately show ?thesis
      using ok lists shape dn chunk by (auto simp: run_ok_def cache_ok_def lists_ok_def)
  next
    case other
    have "read_chunk ops addr (paddr, chunk) ru = Some (ru\<lparr>ru_wlist := ru_wlist ru @ [(pa, chunk)]\<rparr>)"
      using other by (simp add: step same)
    then show ?thesis
      using ok lists shape dn chunk by (auto simp: run_ok_def cache_ok_def lists_ok_def)
  next
    case valid
    obtain store' where st: "copy_from_page (pc_block ?c) ?i (address_sub_addr paddr ?A) chunk (ru_store ru) = Some store'"
      "store_shape reads store'"
      "matched C reads (ru_store ru) \<union> set (mut_slice_cells chunk) \<subseteq> matched C reads store'"
      using page_copy_matched [OF ok(1,2) len(1) _ chunk shape] valid(2) unfolding adr by blast
    have "put_page (?c\<lparr>pc_page_refs := (pc_page_refs ?c)[?i := None]\<rparr>) ?A ?i = Some ?c"
      using ok(1) r [OF valid(1)] by (simp add: put_page_slot list_update_same_conv [THEN iffD2] len)
    then have "read_chunk ops addr (paddr, chunk) ru = Some (ru\<lparr>ru_store := store'\<rparr>)"
      using r [OF valid(1)] valid(2,3) st(1) by (simp add: step as_page_aligned_def len(4))
    then show ?thesis
      using ok lists st dn by (auto simp: run_ok_def cache_ok_def lists_ok_def)
  next
    case stale
    let ?c' = "?c\<lparr>pc_page_refs := (pc_page_refs ?c)[?i := None],
        pc_address_once_validated := (pc_address_once_validated ?c)[?i := ?A]\<rparr>"
    let ?ru = "ru\<lparr>ru_cache := ?c', ru_clist := ru_clist ru @ [(pa, chunk)],
        ru_wlistcache := ru_wlistcache ru @ [(pa_from_address ?A, ?i)]\<rparr>"
    have "mark_page_for_validation (?c\<lparr>pc_page_refs := (pc_page_refs ?c)[?i := None]\<rparr>) ?A = Some ?c'"
      using ok(1) by (simp add: mark_page_slot)
    then have run: "read_chunk ops addr (paddr, chunk) ru = Some ?ru"
      using r [OF stale(1)] stale(2) by (auto simp: step)
    have cache: "cache_ok v_ok slots C ?c' (ru_wlistcache ru @ [(pa_from_address ?A, ?i)])"
      using ok pages_out_update [OF ok(3) refl stale(1) ok(1)]
      by (simp add: cache_ok_def pc_holds_def)
    have old: "awaits ?c' q" if "awaits ?c q" for q
    proof -
      have "page_slot ?c (pa_address (fst q)) \<noteq> ?i"
        using that r(2) [OF stale(1)] page_align_valid [OF ok(1), of "pa_address (fst q)"]
        by (auto simp: awaits_def)
      with that show ?thesis by (simp add: awaits_def)
    qed
    have "awaits ?c' (pa, chunk)" by (simp add: awaits_def adr len)
    then have "lists_ok reads ?ru"
      using lists chunk old by (auto simp: lists_ok_def slice_fits_def)
    with run cache shape dn show ?thesis by (auto simp: run_ok_def)
  qed
qed

end

context cache_validator
begin

lemma read_chunks_ok:
  assumes "run_ok v_ok slots C reads ru dn"
    and "\<forall>(a, ch) \<in> set chunks. placed reads (pa_with_page a (pa_page_type addr) (pa_page_size addr), ch) \<and>
      unat a mod unat (pc_page_size (ru_cache ru)) + unat (ms_len ch) \<le> unat (pc_page_size (ru_cache ru))"
  shows "\<exists>ru'. read_chunks ops addr chunks ru = Some ru' \<and>
     run_ok v_ok slots C reads ru' (dn \<union> (\<Union>ch \<in> set chunks. set (mut_slice_cells (snd ch)))) \<and>
     ru_mem ru' = ru_mem ru \<and> pc_page_size (ru_cache ru') = pc_page_size (ru_cache ru) \<and>
     pc_page_type_mask (ru_cache ru') = pc_page_type_mask (ru_cache ru)"
  using assms
proof (induction chunks arbitrary: ru dn)
  case (Cons x chunks)
  obtain a ch where x: "x = (a, ch)" by (cases x)
  let ?pa = "pa_with_page a (pa_page_type addr) (pa_page_size addr)"
  have c: "placed reads (?pa, ch)" "slice_fits (ru_cache ru) (?pa, ch)"
    using Cons.prems(2) by (auto simp: x slice_fits_def)
  obtain ru1 where r1: "read_chunk ops addr (a, ch) ru = Some ru1"
    "run_ok v_ok slots C reads ru1 (dn \<union> set (mut_slice_cells ch))" "ru_mem ru1 = ru_mem ru"
    "pc_page_size (ru_cache ru1) = pc_page_size (ru_cache ru)"
    "pc_page_type_mask (ru_cache ru1) = pc_page_type_mask (ru_cache ru)"
    using read_chunk_ok [OF Cons.prems(1) c refl] by blast
  have "\<forall>(a, ch) \<in> set chunks. placed reads (pa_with_page a (pa_page_type addr) (pa_page_size addr), ch) \<and>
      unat a mod unat (pc_page_size (ru_cache ru1)) + unat (ms_len ch) \<le> unat (pc_page_size (ru_cache ru1))"
    using Cons.prems(2) by (simp add: r1(4))
  from Cons.IH [OF r1(2) this] r1(1,3-5) show ?case
    by (simp add: x Un_assoc)
qed simp

lemma read_request_ok:
  assumes run: "run_ok v_ok slots C reads ru dn" and "placed reads (pa, s)" and "mut_slice_ok s"
  shows "\<exists>ru'. read_request ops (pa, s) ru = Some ru' \<and>
     run_ok v_ok slots C reads ru' (dn \<union> set (mut_slice_cells s)) \<and> ru_mem ru' = ru_mem ru \<and>
     pc_page_size (ru_cache ru') = pc_page_size (ru_cache ru) \<and>
     pc_page_type_mask (ru_cache ru') = pc_page_type_mask (ru_cache ru)"
proof (cases "is_cached_page_type (ru_cache ru) (pa_page_type pa)")
  case True
  have p: "unat (pc_page_size (ru_cache ru)) dvd 18446744073709551616" "pc_page_size (ru_cache ru) \<noteq> 0"
    using run by (simp_all add: run_ok_def cache_ok_def pc_shape_def)
  obtain chunks where ch: "page_chunks_list mut_slice_ops s (pa_address pa) (pc_page_size (ru_cache ru)) = Some chunks"
    "(\<Union>ch \<in> set chunks. set (mut_slice_cells (snd ch))) = set (mut_slice_cells s)"
    "\<forall>(a, ch) \<in> set chunks. placed reads (pa_with_page a (pa_page_type pa) (pa_page_size pa), ch) \<and>
      unat a mod unat (pc_page_size (ru_cache ru)) + unat (ms_len ch) \<le> unat (pc_page_size (ru_cache ru))"
    using chunks_placed [OF assms(2,3) p] by blast
  from read_chunks_ok [OF run ch(3)] show ?thesis
    using True ch(1) by (simp add: read_request_def ch(2))
next
  case False
  then show ?thesis
    using run assms(2) by (auto simp: read_request_def run_ok_def lists_ok_def)
qed

end

section \<open>Flushing\<close>

lemma placed_bytes_length:
  assumes "placed reads (pa, s)" and "store_shape reads store" and "bufs_ok reads"
  shows "length (slice_bytes s store) = unat (ms_len s)" and "unat (ms_len s) < 9223372036854775808"
proof -
  have "length (slice_bytes s store) = unat (ms_len s) \<and> unat (ms_len s) < 9223372036854775808"
  proof (cases "ms_len s = 0")
    case False
    with assms(1) have k: "ms_alloc s < length reads"
      "ms_ptr s + unat (ms_len s) \<le> length (snd (reads ! ms_alloc s))"
      by (simp_all add: placed_def)
    have "length (store ! ms_alloc s) = length (snd (reads ! ms_alloc s))"
      using store_shape_nth [OF assms(2)] k(1) by blast
    moreover have "length (snd (reads ! ms_alloc s)) < 9223372036854775808"
      using assms(3) k(1) by (simp add: bufs_ok_def)
    ultimately show ?thesis
      using k(2) by (simp add: slice_bytes_def)
  qed (simp add: slice_bytes_def)
  then show "length (slice_bytes s store) = unat (ms_len s)" "unat (ms_len s) < 9223372036854775808"
    by blast+
qed

lemma write_back_matched:
  assumes "\<forall>r \<in> set rs. placed reads r" and "store_shape reads store"
    and "list_all2 (\<lambda>r b. length b = unat (ms_len (snd r)) \<and> src_matches C (pa_address (fst r)) b) rs bs"
  shows "\<exists>store'. write_back (map snd rs) bs store = Some store' \<and> store_shape reads store' \<and>
     matched C reads store \<union> slice_cells rs \<subseteq> matched C reads store'"
  using assms(3,1,2)
proof (induction arbitrary: store rule: list_all2_induct)
  case (Cons r rs b bs)
  obtain pa s where r: "r = (pa, s)" by (cases r)
  obtain store1 where s1: "copy_from_slice s b store = Some store1" "store_shape reads store1"
    "matched C reads store \<union> set (mut_slice_cells s) \<subseteq> matched C reads store1"
    using copy_matched [of reads pa s store b C] Cons.prems Cons.hyps by (auto simp: r)
  obtain store' where s': "write_back (map snd rs) bs store1 = Some store'" "store_shape reads store'"
    "matched C reads store1 \<union> slice_cells rs \<subseteq> matched C reads store'"
    using Cons.IH [OF _ s1(2)] Cons.prems by auto
  show ?case
    using s1 s' by (auto simp: r)
qed simp

lemma flush_wlist_ok:
  assumes "matching_memory pm mem_ok content" and "mem_ok (ru_mem ru)" and "content (ru_mem ru) = C"
    and "run_ok v_ok slots C reads ru dn" and "bufs_ok reads"
  shows "\<exists>store m. flush_wlist pm ru = Some (Inr (), ru\<lparr>ru_mem := m, ru_store := store, ru_wlist := []\<rparr>) \<and>
     mem_ok m \<and> content m = C \<and>
     run_ok v_ok slots C reads (ru\<lparr>ru_mem := m, ru_store := store, ru_wlist := []\<rparr>) dn"
proof (cases "ru_wlist ru = []")
  case True
  then have "flush_wlist pm ru = Some (Inr (), ru)"
    "ru\<lparr>ru_mem := ru_mem ru, ru_store := ru_store ru, ru_wlist := []\<rparr> = ru"
    by (simp_all add: flush_wlist_def)
  with assms(2-4) show ?thesis by metis
next
  case False
  let ?g = "\<lambda>r. (fst r, slice_bytes (snd r) (ru_store ru))"
  have rs: "\<forall>r \<in> set (ru_wlist ru). placed reads r" and shape: "store_shape reads (ru_store ru)"
    and dn: "dn \<subseteq> matched C reads (ru_store ru) \<union> slice_cells (ru_clist ru) \<union> slice_cells (ru_wlist ru)"
    using assms(4) by (simp_all add: run_ok_def lists_ok_def)
  have len: "length (slice_bytes (snd r) (ru_store ru)) = unat (ms_len (snd r))"
    "unat (ms_len (snd r)) < 9223372036854775808" if "r \<in> set (ru_wlist ru)" for r
    using placed_bytes_length [of reads "fst r" "snd r"] rs that shape assms(5) by auto
  then have "bufs_ok (map ?g (ru_wlist ru))" by (simp add: bufs_ok_def)
  from matching_memory.read_matches [OF assms(1,2) this] obtain bs m where
    m: "pm_read_raw_list pm (ru_mem ru) (map ?g (ru_wlist ru)) = Some (Inr (), bs, m)"
    "mem_ok m" "content m = C" and match: "reads_match C (map ?g (ru_wlist ru)) bs"
    by (auto simp: assms(3))
  have "list_all2 (\<lambda>r b. length b = unat (ms_len (snd r)) \<and> src_matches C (pa_address (fst r)) b) (ru_wlist ru) bs"
    using match len by (auto simp: reads_match_def list_all2_conv_all_nth pa_as_u64_def as_u64_def)
  then obtain store where st: "write_back (map snd (ru_wlist ru)) bs (ru_store ru) = Some store"
    "store_shape reads store"
    "matched C reads (ru_store ru) \<union> slice_cells (ru_wlist ru) \<subseteq> matched C reads store"
    using write_back_matched [OF rs shape] by blast
  have "flush_wlist pm ru = Some (Inr (), ru\<lparr>ru_mem := m, ru_store := store, ru_wlist := []\<rparr>)"
    using False m(1) st(1) by (simp add: flush_wlist_def case_prod_unfold)
  moreover have "run_ok v_ok slots C reads (ru\<lparr>ru_mem := m, ru_store := store, ru_wlist := []\<rparr>) dn"
    using assms(4) st(2,3) dn by (auto simp: run_ok_def lists_ok_def)
  ultimately show ?thesis using m(2,3) by blast
qed

text \<open>Pages are validated one by one; those still to come may hold anything.\<close>

definition holds_but :: "(u64 \<Rightarrow> u8 option) \<Rightarrow> 'v page_cache \<Rightarrow> nat set \<Rightarrow> bool" where
  "holds_but C c S \<longleftrightarrow>
     (\<forall>i < length (pc_address c). i \<notin> S \<and> pc_address c ! i \<noteq> ADDRESS_INVALID \<longrightarrow>
        src_matches C (pc_address c ! i) (pc_block c ! i))"

definition page_ready :: "'v validator_ops \<Rightarrow> 'v page_cache \<Rightarrow> address \<Rightarrow> nat \<Rightarrow> bool" where
  "page_ready vops c a i \<longleftrightarrow> pc_address c ! i = a \<and> cv_is_slot_valid vops (pc_validator c) i = Some True"

context cache_validator
begin

lemma validate_page_ok:
  assumes shape: "pc_shape v_ok slots c" and out: "pages_out c ((pa, i) # pend)"
    and holds: "holds_but C c (insert i (snd ` set pend))"
    and page: "src_matches C (pa_address pa) (pc_block c ! i)"
  shows "\<exists>c'. validate_page ops c (pa_address pa) i = Some c' \<and> pc_shape v_ok slots c' \<and>
     pages_out c' pend \<and> holds_but C c' (snd ` set pend) \<and>
     page_ready ops c' (pa_address pa) i \<and>
     (\<forall>j < length (pc_address c). j \<noteq> i \<longrightarrow> (\<forall>a. page_ready ops c' a j = page_ready ops c a j)) \<and>
     pc_block c' = pc_block c \<and> length (pc_address c') = length (pc_address c) \<and>
     pc_page_size c' = pc_page_size c \<and> pc_page_type_mask c' = pc_page_type_mask c"
proof -
  have i: "i < length (pc_address c)" "pc_page_refs c ! i = None" "pa_address pa = pc_address_once_validated c ! i"
    using pages_out_pend [OF out, of pa i] by simp_all
  have slot: "page_slot c (pa_address pa) = i" "page_align (pa_address pa) (pc_page_size c) = pa_address pa"
    using out i(1) unfolding i(3) by (rule pages_out_slot; use i(2) in simp)+
  have v: "v_ok (pc_validator c)" "slots (pc_validator c) = length (pc_address c)"
    "length (pc_page_refs c) = length (pc_address c)"
    "length (pc_address_once_validated c) = length (pc_address c)"
    using shape by (simp_all add: pc_shape_def)
  obtain v' where v': "cv_validate_slot ops (pc_validator c) i = Some v'" "v_ok v'"
    "slots v' = length (pc_address c)" "cv_is_slot_valid ops v' i = Some True"
    "\<And>j. j < length (pc_address c) \<Longrightarrow> j \<noteq> i \<Longrightarrow> cv_is_slot_valid ops v' j = cv_is_slot_valid ops (pc_validator c) j"
    using validate [OF v(1), of i] i(1) v(2) by auto
  let ?c1 = "c\<lparr>pc_address := (pc_address c)[i := pa_address pa],
      pc_address_once_validated := (pc_address_once_validated c)[i := ADDRESS_INVALID], pc_validator := v'\<rparr>"
  let ?c = "?c1\<lparr>pc_page_refs := (pc_page_refs c)[i := Some i]\<rparr>"
  have shape1: "pc_shape v_ok slots ?c1" and slot1: "page_slot ?c1 a = page_slot c a" for a
    using shape v' by (simp_all add: pc_shape_def page_slot_def)
  have "validate_page ops c (pa_address pa) i = Some ?c"
    using page_index_slot(1) [OF shape, of "pa_address pa"] i(1) v(3,4) v'(1)
    by (simp add: validate_page_def slot put_page_slot [OF shape1] slot1)
  moreover have "pc_shape v_ok slots ?c"
    using shape1 by simp
  moreover have "pages_out ?c pend"
  proof -
    have new: "i \<notin> snd ` set pend" and dist: "distinct (map snd pend)"
      using out by (auto simp: pages_out_def)
    have "pc_page_refs ?c ! j = Some j \<and> pc_address_once_validated ?c ! j = ADDRESS_INVALID \<or>
        pc_page_refs ?c ! j = None \<and> j \<in> snd ` set pend \<and> pc_address_once_validated ?c ! j \<noteq> ADDRESS_INVALID \<and>
        page_align (pc_address_once_validated ?c ! j) (pc_page_size ?c) = pc_address_once_validated ?c ! j \<and>
        page_slot ?c (pc_address_once_validated ?c ! j) = j" if j: "j < length (pc_address c)" for j
    proof (cases "j = i")
      case True
      then show ?thesis using i(1) v(3,4) by simp
    next
      case False
      from out j show ?thesis
        by (rule pages_out_slot) (use False slot1 in simp_all)
    qed
    moreover have "j < length (pc_address c) \<and> pc_page_refs ?c ! j = None \<and>
        pa_address p = pc_address_once_validated ?c ! j" if "(p, j) \<in> set pend" for p j
    proof -
      have "j \<noteq> i" using that new by force
      with pages_out_pend [OF out, of p j] that show ?thesis by simp
    qed
    ultimately show ?thesis using dist unfolding pages_out_def by auto
  qed
  moreover have "holds_but C ?c (snd ` set pend)"
    using holds page i(1) by (auto simp: holds_but_def nth_list_update)
  ultimately show ?thesis
    using v' i(1) by (intro exI [of _ ?c]) (simp add: page_ready_def)
qed

lemma validate_pages_ok:
  assumes "pc_shape v_ok slots c" and "pages_out c pend" and "holds_but C c (snd ` set pend)"
    and "\<forall>(pa, i) \<in> set pend. src_matches C (pa_address pa) (pc_block c ! i)"
  shows "\<exists>c'. validate_pages ops pend c = Some c' \<and> pc_shape v_ok slots c' \<and> pages_out c' [] \<and>
     pc_holds C c' \<and> (\<forall>(pa, i) \<in> set pend. page_ready ops c' (pa_address pa) i) \<and>
     (\<forall>j < length (pc_address c). j \<notin> snd ` set pend \<longrightarrow> (\<forall>a. page_ready ops c' a j = page_ready ops c a j)) \<and>
     length (pc_address c') = length (pc_address c) \<and>
     pc_page_size c' = pc_page_size c \<and> pc_page_type_mask c' = pc_page_type_mask c"
  using assms
proof (induction pend arbitrary: c)
  case Nil
  then show ?case by (simp add: holds_but_def pc_holds_def)
next
  case (Cons x pend)
  obtain pa i where x: "x = (pa, i)" by (cases x)
  have "src_matches C (pa_address pa) (pc_block c ! i)" using Cons.prems(4) by (simp add: x)
  then obtain c1 where c1: "validate_page ops c (pa_address pa) i = Some c1" "pc_shape v_ok slots c1"
    "pages_out c1 pend" "holds_but C c1 (snd ` set pend)" "page_ready ops c1 (pa_address pa) i"
    "\<forall>j < length (pc_address c). j \<noteq> i \<longrightarrow> (\<forall>a. page_ready ops c1 a j = page_ready ops c a j)"
    "pc_block c1 = pc_block c" "length (pc_address c1) = length (pc_address c)"
    "pc_page_size c1 = pc_page_size c" "pc_page_type_mask c1 = pc_page_type_mask c"
    using validate_page_ok [OF Cons.prems(1) Cons.prems(2)[unfolded x], of C] Cons.prems(3)
    unfolding x by auto
  have "\<forall>(pa, i) \<in> set pend. src_matches C (pa_address pa) (pc_block c1 ! i)"
    using Cons.prems(4) by (simp add: c1(7))
  from Cons.IH [OF c1(2-4) this] obtain c' where c': "validate_pages ops pend c1 = Some c'"
    "pc_shape v_ok slots c'" "pages_out c' []" "pc_holds C c'"
    "\<forall>(pa, i) \<in> set pend. page_ready ops c' (pa_address pa) i"
    "\<forall>j < length (pc_address c1). j \<notin> snd ` set pend \<longrightarrow> (\<forall>a. page_ready ops c' a j = page_ready ops c1 a j)"
    "length (pc_address c') = length (pc_address c1)" "pc_page_size c' = pc_page_size c1"
    "pc_page_type_mask c' = pc_page_type_mask c1"
    by blast
  have i: "i < length (pc_address c)" "i \<notin> snd ` set pend"
    using pages_out_pend(1) [OF Cons.prems(2), of pa i] Cons.prems(2) by (auto simp: x pages_out_def)
  then have "page_ready ops c' (pa_address pa) i"
    using c'(6) c1(5,8) by simp
  then show ?case
    using c1 c' by (simp add: x)
qed

end

lemma put_pages_nth:
  assumes "\<forall>i \<in> set is. i < length block" and "distinct is" and "length bs = length is"
  shows "\<exists>block'. put_pages is bs block = Some block' \<and> length block' = length block \<and>
     (\<forall>j < length block. j \<notin> set is \<longrightarrow> block' ! j = block ! j) \<and>
     (\<forall>k < length is. block' ! (is ! k) = bs ! k)"
  using assms
proof (induction "is" bs block rule: put_pages.induct)
  case (1 i "is" b bs block)
  obtain block' where b: "put_pages is bs (block[i := b]) = Some block'"
    "length block' = length block" "\<forall>j < length block. j \<notin> set is \<longrightarrow> block' ! j = block[i := b] ! j"
    "\<forall>k < length is. block' ! (is ! k) = bs ! k"
    using 1(1) [of "block[i := b]"] 1(2-4) by auto
  have "block' ! ((i # is) ! k) = (b # bs) ! k" if "k < length (i # is)" for k
    using that b(3,4) 1(2,3) by (cases k) auto
  with b 1(2) show ?case by auto
qed simp_all

context cache_validator
begin

lemma flush_pages_ok:
  assumes "matching_memory pm mem_ok content" and "mem_ok (ru_mem ru)" and "content (ru_mem ru) = C"
    and "cache_ok v_ok slots C (ru_cache ru) (ru_wlistcache ru)"
  shows "\<exists>c m. flush_pages ops pm ru = Some (Inr (), ru\<lparr>ru_mem := m, ru_cache := c, ru_wlistcache := []\<rparr>) \<and>
     mem_ok m \<and> content m = C \<and> cache_ok v_ok slots C c [] \<and>
     (\<forall>(pa, i) \<in> set (ru_wlistcache ru). page_ready ops c (pa_address pa) i) \<and>
     length (pc_address c) = length (pc_address (ru_cache ru)) \<and>
     pc_page_size c = pc_page_size (ru_cache ru) \<and> pc_page_type_mask c = pc_page_type_mask (ru_cache ru)"
proof (cases "ru_wlistcache ru = []")
  case True
  then have "flush_pages ops pm ru = Some (Inr (), ru)"
    "ru\<lparr>ru_mem := ru_mem ru, ru_cache := ru_cache ru, ru_wlistcache := []\<rparr> = ru"
    by (simp_all add: flush_pages_def)
  with assms(2-4) True show ?thesis
    by (intro exI [of _ "ru_cache ru"] exI [of _ "ru_mem ru"]) simp
next
  case False
  let ?c = "ru_cache ru" and ?pend = "ru_wlistcache ru"
  have ok: "pc_shape v_ok slots ?c" "pc_holds C ?c" "pages_out ?c ?pend"
    using assms(4) by (simp_all add: cache_ok_def)
  have blk: "length (pc_block ?c) = length (pc_address ?c)"
    "\<forall>page \<in> set (pc_block ?c). length page = unat (pc_page_size ?c)"
    "unat (pc_page_size ?c) < 9223372036854775808"
    using ok(1) by (simp_all add: pc_shape_def)
  have lt: "i < length (pc_block ?c)" if "(pa, i) \<in> set ?pend" for pa i
    using pages_out_pend(1) [OF ok(3) that] blk(1) by simp
  let ?g = "\<lambda>q. (fst q, pc_block ?c ! snd q)"
  have pages: "those (map (\<lambda>(pa, i). map_option (Pair pa) (index_of (pc_block ?c) i)) ps) = Some (map ?g ps)"
    if "\<forall>q \<in> set ps. snd q < length (pc_block ?c)" for ps
    using that by (induction ps) auto
  have ltp: "\<forall>q \<in> set ?pend. snd q < length (pc_block ?c)" using lt by auto
  then have "bufs_ok (map ?g ?pend)" using blk(2,3) by (simp add: bufs_ok_def)
  from matching_memory.read_matches [OF assms(1,2) this] obtain bs m where
    m: "pm_read_raw_list pm (ru_mem ru) (map ?g ?pend) = Some (Inr (), bs, m)" "mem_ok m" "content m = C"
    and match: "reads_match C (map ?g ?pend) bs"
    by (auto simp: assms(3))
  have lb: "length bs = length ?pend" using reads_match_nth(1) [OF match] by simp
  have dist: "distinct (map snd ?pend)" using ok(3) by (simp add: pages_out_def)
  obtain block where block: "put_pages (map snd ?pend) bs (pc_block ?c) = Some block"
    "length block = length (pc_block ?c)"
    "\<forall>j < length (pc_block ?c). j \<notin> set (map snd ?pend) \<longrightarrow> block ! j = pc_block ?c ! j"
    "\<forall>k < length (map snd ?pend). block ! (map snd ?pend ! k) = bs ! k"
    using put_pages_nth [of "map snd ?pend" "pc_block ?c" bs] ltp dist lb by auto
  have new: "length (block ! i) = length (pc_block ?c ! i)" "src_matches C (pa_address pa) (block ! i)"
    if q: "(pa, i) \<in> set ?pend" for pa i
  proof -
    obtain k where k: "k < length ?pend" "?pend ! k = (pa, i)" using q by (auto simp: in_set_conv_nth)
    then have "block ! i = bs ! k" using block(4) by force
    with k reads_match_nth(3) [OF match, of k]
    show "length (block ! i) = length (pc_block ?c ! i)" "src_matches C (pa_address pa) (block ! i)"
      by (simp_all add: pa_as_u64_def as_u64_def)
  qed
  let ?c1 = "?c\<lparr>pc_block := block\<rparr>"
  have "length page = unat (pc_page_size ?c)" if pg: "page \<in> set block" for page
  proof -
    obtain j where j: "j < length block" "page = block ! j" using pg by (auto simp: in_set_conv_nth)
    show ?thesis
    proof (cases "j \<in> snd ` set ?pend")
      case True
      then obtain pa where "(pa, j) \<in> set ?pend" by force
      with new(1) [OF this] lt [OF this] blk(2) show ?thesis by (simp add: j(2))
    next
      case False
      with block(2,3) j blk(2) show ?thesis by simp
    qed
  qed
  then have "pc_shape v_ok slots ?c1"
    using ok(1) block(2) by (simp add: pc_shape_def)
  moreover have "pages_out ?c1 ?pend"
    using ok(3) by (simp add: pages_out_def page_slot_def)
  moreover have "holds_but C ?c1 (snd ` set ?pend)"
    using ok(2) block(3) blk(1) by (simp add: holds_but_def pc_holds_def)
  moreover have "\<forall>(pa, i) \<in> set ?pend. src_matches C (pa_address pa) (pc_block ?c1 ! i)"
    using new(2) by auto
  ultimately obtain c' where c': "validate_pages ops ?pend ?c1 = Some c'" "pc_shape v_ok slots c'"
    "pages_out c' []" "pc_holds C c'" "\<forall>(pa, i) \<in> set ?pend. page_ready ops c' (pa_address pa) i"
    "length (pc_address c') = length (pc_address ?c)" "pc_page_size c' = pc_page_size ?c"
    "pc_page_type_mask c' = pc_page_type_mask ?c"
    using validate_pages_ok [of ?c1 ?pend C] by auto
  have "flush_pages ops pm ru = Some (Inr (), ru\<lparr>ru_mem := m, ru_cache := c', ru_wlistcache := []\<rparr>)"
    using False pages [OF ltp] m(1) block(1) c'(1) by (simp add: flush_pages_def Let_def)
  with m(2,3) c' show ?thesis
    by (intro exI [of _ c'] exI [of _ m]) (simp add: cache_ok_def)
qed

end

text \<open>All pages are back, so the pending slices are copied from them.\<close>

lemma pages_out_all:
  "pages_out c [] \<Longrightarrow> i < length (pc_address c) \<Longrightarrow>
     pc_page_refs c ! i = Some i \<and> pc_address_once_validated c ! i = ADDRESS_INVALID"
  by (erule pages_out_slot) simp_all

context cache_validator
begin

lemma flush_clist_ok:
  assumes "cache_ok v_ok slots C c []" and "store_shape reads store"
    and "\<forall>r \<in> set rs. placed reads r \<and> slice_fits c r \<and>
      page_ready ops c (page_align (pa_address (fst r)) (pc_page_size c)) (page_slot c (pa_address (fst r)))"
  shows "\<exists>store'. flush_clist ops rs c store = Some (c, store') \<and> store_shape reads store' \<and>
     matched C reads store \<union> slice_cells rs \<subseteq> matched C reads store'"
  using assms(2,3)
proof (induction rs arbitrary: store)
  case (Cons r rs)
  obtain pa s where r: "r = (pa, s)" by (cases r)
  have ok: "pc_shape v_ok slots c" "pc_holds C c" "pages_out c []" "pc_page_size c \<noteq> 0"
    using assms(1) by (simp_all add: cache_ok_def pc_shape_def)
  let ?a = "pa_address pa"
  let ?i = "page_slot c ?a" and ?A = "page_align ?a (pc_page_size c)"
  have p: "placed reads (pa, s)" "slice_fits c (pa, s)" "page_ready ops c ?A ?i"
    using Cons.prems(2) by (simp_all add: r)
  have i: "?i < length (pc_address c)" by (rule page_index_slot(2) [OF ok(1)])
  have refs: "pc_page_refs c ! ?i = Some ?i" using pages_out_all [OF ok(3) i] by simp
  obtain b where b: "cv_is_slot_valid ops (pc_validator c) ?i = Some b"
    "cached_page_mut ops c ?a False = Some (\<lparr>en_address = ?A, en_validity =
       (if pc_page_refs c ! ?i = None
        then (if pc_address_once_validated c ! ?i = ?A then ToBeValidated else Invalid)
        else if pc_address c ! ?i = ?A \<and> b then Valid ?i else Validatable ?i)\<rparr>,
       c\<lparr>pc_page_refs := (pc_page_refs c)[?i := None]\<rparr>)"
    using cached_page_cases [OF ok(1,3), of ?a] by blast
  have page: "cached_page_mut ops c ?a False = Some (\<lparr>en_address = ?A, en_validity = Valid ?i\<rparr>,
      c\<lparr>pc_page_refs := (pc_page_refs c)[?i := None]\<rparr>)"
    using b p(3) refs by (simp add: page_ready_def)
  have "pc_address c ! ?i = ?A" using p(3) by (simp add: page_ready_def)
  from page_copy_matched [OF ok(1,2) i this p(1,2) Cons.prems(1)] obtain store1 where
    s1: "copy_from_page (pc_block c) ?i (address_sub_addr ?a ?A) s store = Some store1" "store_shape reads store1"
    "matched C reads store \<union> set (mut_slice_cells s) \<subseteq> matched C reads store1"
    by blast
  have put: "put_page (c\<lparr>pc_page_refs := (pc_page_refs c)[?i := None]\<rparr>) ?A ?i = Some c"
    using ok(1) refs i by (simp add: put_page_slot list_update_same_conv [THEN iffD2] pc_shape_def)
  obtain store' where s': "flush_clist ops rs c store1 = Some (c, store')" "store_shape reads store'"
    "matched C reads store1 \<union> slice_cells rs \<subseteq> matched C reads store'"
    using Cons.IH [OF s1(2)] Cons.prems(2) by auto
  show ?case
    using page s1 put s' ok(4) by (auto simp: r as_page_aligned_def)
qed simp

lemma flush_ok:
  assumes mem: "matching_memory pm mem_ok content" "mem_ok (ru_mem ru)" "content (ru_mem ru) = C"
    and run: "run_ok v_ok slots C reads ru dn" and "bufs_ok reads"
  shows "\<exists>ru'. flush ops pm ru = Some (Inr (), ru') \<and> mem_ok (ru_mem ru') \<and> content (ru_mem ru') = C \<and>
     run_ok v_ok slots C reads ru' dn \<and>
     ru_clist ru' = [] \<and> ru_wlist ru' = [] \<and> ru_wlistcache ru' = [] \<and>
     pc_page_size (ru_cache ru') = pc_page_size (ru_cache ru) \<and>
     pc_page_type_mask (ru_cache ru') = pc_page_type_mask (ru_cache ru)"
proof -
  obtain store m1 where f1: "flush_wlist pm ru = Some (Inr (), ru\<lparr>ru_mem := m1, ru_store := store, ru_wlist := []\<rparr>)"
    "mem_ok m1" "content m1 = C" "run_ok v_ok slots C reads (ru\<lparr>ru_mem := m1, ru_store := store, ru_wlist := []\<rparr>) dn"
    using flush_wlist_ok [OF mem run assms(5)] by blast
  let ?ru = "ru\<lparr>ru_mem := m1, ru_store := store, ru_wlist := []\<rparr>"
  have ok: "cache_ok v_ok slots C (ru_cache ru) (ru_wlistcache ru)" "store_shape reads store"
    "dn \<subseteq> matched C reads store \<union> slice_cells (ru_clist ru)"
    and lists: "\<forall>r \<in> set (ru_clist ru). placed reads r \<and> slice_fits (ru_cache ru) r \<and> awaits (ru_cache ru) r"
    using f1(4) by (simp_all add: run_ok_def lists_ok_def)
  obtain c m2 where f2: "flush_pages ops pm ?ru = Some (Inr (), ?ru\<lparr>ru_mem := m2, ru_cache := c, ru_wlistcache := []\<rparr>)"
    "mem_ok m2" "content m2 = C" "cache_ok v_ok slots C c []"
    "\<forall>(pa, i) \<in> set (ru_wlistcache ru). page_ready ops c (pa_address pa) i"
    "length (pc_address c) = length (pc_address (ru_cache ru))"
    "pc_page_size c = pc_page_size (ru_cache ru)" "pc_page_type_mask c = pc_page_type_mask (ru_cache ru)"
    using flush_pages_ok [of pm mem_ok content ?ru C] mem(1) f1(2,3) ok(1) by auto
  have slot: "page_slot c a = page_slot (ru_cache ru) a" for a
    by (simp add: page_slot_def f2(6,7))
  have ready: "page_ready ops c (page_align (pa_address (fst r)) (pc_page_size c)) (page_slot c (pa_address (fst r)))"
    if r: "r \<in> set (ru_clist ru)" for r
  proof -
    let ?c = "ru_cache ru"
    let ?i = "page_slot ?c (pa_address (fst r))"
    have shape: "pc_shape v_ok slots ?c" and out: "pages_out ?c (ru_wlistcache ru)"
      using ok(1) by (simp_all add: cache_ok_def)
    have once: "pc_address_once_validated ?c ! ?i = page_align (pa_address (fst r)) (pc_page_size ?c)"
      using lists r by (simp add: awaits_def)
    have "?i \<in> snd ` set (ru_wlistcache ru)"
      using out page_index_slot(2) [OF shape, of "pa_address (fst r)"]
      by (rule pages_out_slot) (use once page_align_valid [OF shape, of "pa_address (fst r)"] in simp_all)
    then obtain pa where pa: "(pa, ?i) \<in> set (ru_wlistcache ru)" by force
    with f2(5) have "page_ready ops c (pa_address pa) ?i" by blast
    then show ?thesis
      using pages_out_pend(3) [OF out pa] once by (simp add: slot f2(7))
  qed
  have "\<forall>r \<in> set (rev (ru_clist ru)). placed reads r \<and> slice_fits c r \<and>
      page_ready ops c (page_align (pa_address (fst r)) (pc_page_size c)) (page_slot c (pa_address (fst r)))"
    using lists ready by (simp add: slice_fits_def f2(7))
  from flush_clist_ok [OF f2(4) ok(2) this] obtain store' where
    f3: "flush_clist ops (rev (ru_clist ru)) c store = Some (c, store')" "store_shape reads store'"
    "matched C reads store \<union> slice_cells (rev (ru_clist ru)) \<subseteq> matched C reads store'"
    by blast
  let ?ru' = "ru\<lparr>ru_mem := m2, ru_store := store', ru_cache := c, ru_clist := [], ru_wlist := [], ru_wlistcache := []\<rparr>"
  have "flush ops pm ru = Some (Inr (), ?ru')"
    using f1(1) f2(1) f3(1) by (simp add: flush_def)
  moreover have "run_ok v_ok slots C reads ?ru' dn"
    using f2(4) f3(2,3) ok(3) by (auto simp: run_ok_def lists_ok_def slice_cells_def)
  ultimately show ?thesis
    using f2(2,3,7,8) by (intro exI [of _ ?ru']) simp
qed

lemma read_loop_ok:
  assumes "matching_memory pm mem_ok content" and "bufs_ok reads"
    and "mem_ok (ru_mem ru)" and "content (ru_mem ru) = C" and "run_ok v_ok slots C reads ru dn"
    and "\<forall>(pa, s) \<in> set rds. placed reads (pa, s) \<and> mut_slice_ok s"
    and "rds \<noteq> [] \<or> ru_clist ru = [] \<and> ru_wlist ru = [] \<and> ru_wlistcache ru = []"
  shows "\<exists>ru'. read_loop ops pm rds ru = Some (Inr (), ru') \<and> mem_ok (ru_mem ru') \<and> content (ru_mem ru') = C \<and>
     run_ok v_ok slots C reads ru' (dn \<union> slice_cells rds) \<and>
     ru_clist ru' = [] \<and> ru_wlist ru' = [] \<and> ru_wlistcache ru' = [] \<and>
     pc_page_size (ru_cache ru') = pc_page_size (ru_cache ru) \<and>
     pc_page_type_mask (ru_cache ru') = pc_page_type_mask (ru_cache ru)"
  using assms(3-7)
proof (induction rds arbitrary: ru dn)
  case (Cons x rds)
  obtain pa s where x: "x = (pa, s)" by (cases x)
  obtain ru1 where r1: "read_request ops (pa, s) ru = Some ru1"
    "run_ok v_ok slots C reads ru1 (dn \<union> set (mut_slice_cells s))" "ru_mem ru1 = ru_mem ru"
    "pc_page_size (ru_cache ru1) = pc_page_size (ru_cache ru)"
    "pc_page_type_mask (ru_cache ru1) = pc_page_type_mask (ru_cache ru)"
    using read_request_ok [OF Cons.prems(3), of pa s] Cons.prems(4) by (auto simp: x)
  have m1: "mem_ok (ru_mem ru1)" "content (ru_mem ru1) = C" using Cons.prems(1,2) r1(3) by simp_all
  have rest: "\<forall>(pa, s) \<in> set rds. placed reads (pa, s) \<and> mut_slice_ok s"
    using Cons.prems(4) by simp
  show ?case
  proof (cases "rds = [] \<or> 64 \<le> length (ru_wlist ru1) \<or> 64 \<le> length (ru_wlistcache ru1) \<or> 64 \<le> length (ru_clist ru1)")
    case True
    obtain ru2 where r2: "flush ops pm ru1 = Some (Inr (), ru2)" "mem_ok (ru_mem ru2)" "content (ru_mem ru2) = C"
      "run_ok v_ok slots C reads ru2 (dn \<union> set (mut_slice_cells s))"
      "ru_clist ru2 = [] \<and> ru_wlist ru2 = [] \<and> ru_wlistcache ru2 = []"
      "pc_page_size (ru_cache ru2) = pc_page_size (ru_cache ru1)"
      "pc_page_type_mask (ru_cache ru2) = pc_page_type_mask (ru_cache ru1)"
      using flush_ok [OF assms(1) m1 r1(2) assms(2)] by blast
    from Cons.IH [OF r2(2-4) rest disjI2 [OF r2(5)]] show ?thesis
      using True r1(1,4,5) r2(1,6,7) by (simp add: x Un_assoc)
  next
    case False
    then have "rds \<noteq> []" by simp
    from Cons.IH [OF m1 r1(2) rest disjI1 [OF this]] show ?thesis
      using False r1(1,4,5) by (simp add: x Un_assoc)
  qed
qed simp

end

end
