(* ===== verification/Cached_Memory.thy ===== *)
theory Cached_Memory
  imports Page_Cache_Reads
begin

text \<open>
  \<open>CachedMemoryAccess\<close> and its builder, \<open>memflow/src/mem/cache/cached_memory_access.rs\<close>:
  a physical memory behind a page cache. The lemmas show that a read through the cache
  gives every mapped byte as the memory has it. What is left of this when a read or a write
  of the memory behind it fails is in \<open>Cache_Failures\<close>.
\<close>

section \<open>The cached memory\<close>

record ('m, 'v) cached_memory_access =
  cm_mem :: 'm
  cm_cache :: "'v page_cache"

definition cm_new :: "'m \<Rightarrow> 'v page_cache \<Rightarrow> ('m, 'v) cached_memory_access" where
  "cm_new mem cache = \<lparr>cm_mem = mem, cm_cache = cache\<rparr>"

definition cm_destroy :: "('m, 'v) cached_memory_access \<Rightarrow> 'm" where
  "cm_destroy self = cm_mem self"

definition cm_clone :: "('m, 'v) cached_memory_access \<Rightarrow> ('m, 'v) cached_memory_access option" where
  "cm_clone self = map_option (\<lambda>c. \<lparr>cm_mem = cm_mem self, cm_cache = c\<rparr>) (pc_clone (cm_cache self))"

definition cm_update_validity :: "'v validator_ops \<Rightarrow> 'v page_cache \<Rightarrow> 'v page_cache" where
  "cm_update_validity vops c = c\<lparr>pc_validator := cv_update_validity vops (pc_validator c)\<rparr>"

definition cm_read_raw_list ::
  "'v validator_ops \<Rightarrow> 'm phys_mem \<Rightarrow> ('m, 'v) cached_memory_access \<Rightarrow> phys_read_data list
     \<Rightarrow> (unit result \<times> u8 list list \<times> ('m, 'v) cached_memory_access) option" where
  "cm_read_raw_list vops pm self data = do {
     let cache = cm_update_validity vops (cm_cache self);
     (r, bufs, cache, mem) \<leftarrow> cached_read vops pm cache (cm_mem self) data;
     Some (r, bufs, \<lparr>cm_mem = mem, cm_cache = cache\<rparr>)
   }"

text \<open>\<open>buf[start..(start + data_chunk.len())].copy_from_slice(data_chunk)\<close>.\<close>

definition write_page :: "u8 list list \<Rightarrow> nat \<Rightarrow> usize \<Rightarrow> u8 list \<Rightarrow> u8 list list option" where
  "write_page block page start src = do {
     buf \<leftarrow> index_of block page;
     (if unat start + length src \<le> length buf
      then index_put block page (take (unat start) buf @ src @ drop (unat start + length src) buf)
      else None)
   }"

definition write_chunk ::
  "'v validator_ops \<Rightarrow> address \<times> u8 list \<Rightarrow> 'v page_cache \<Rightarrow> 'v page_cache option" where
  "write_chunk vops p cache =
     (case p of (paddr, data_chunk) \<Rightarrow> do {
        (cached_page, cache) \<leftarrow> cached_page_mut vops cache paddr False;
        cache \<leftarrow> (case en_validity cached_page of
            Valid buf \<Rightarrow> do {
              let start = address_sub_addr paddr (en_address cached_page);
              block \<leftarrow> write_page (pc_block cache) buf start data_chunk;
              Some (cache\<lparr>pc_block := block\<rparr>)
            }
          | _ \<Rightarrow> Some cache);
        put_entry cache cached_page
      })"

fun write_chunks ::
  "'v validator_ops \<Rightarrow> (address \<times> u8 list) list \<Rightarrow> 'v page_cache \<Rightarrow> 'v page_cache option" where
  "write_chunks vops [] cache = Some cache"
| "write_chunks vops (p # ps) cache = do {
     cache \<leftarrow> write_chunk vops p cache;
     write_chunks vops ps cache
   }"

fun write_requests ::
  "'v validator_ops \<Rightarrow> phys_write_data list \<Rightarrow> 'v page_cache \<Rightarrow> 'v page_cache option" where
  "write_requests vops [] cache = Some cache"
| "write_requests vops ((addr, data) # ws) cache = do {
     cache \<leftarrow> (if is_cached_page_type cache (pa_page_type addr)
              then do {
                chunks \<leftarrow> page_chunks_list slice_ops data (pa_address addr) (pc_page_size cache);
                write_chunks vops chunks cache
              }
              else Some cache);
     write_requests vops ws cache
   }"

definition cm_write_raw_list ::
  "'v validator_ops \<Rightarrow> 'm phys_mem \<Rightarrow> ('m, 'v) cached_memory_access \<Rightarrow> phys_write_data list
     \<Rightarrow> (unit result \<times> ('m, 'v) cached_memory_access) option" where
  "cm_write_raw_list vops pm self data = do {
     cache \<leftarrow> write_requests vops data (cm_update_validity vops (cm_cache self));
     (r, mem) \<leftarrow> pm_write_raw_list pm (cm_mem self) data;
     Some (r, \<lparr>cm_mem = mem, cm_cache = cache\<rparr>)
   }"

definition cached_memory :: "'v validator_ops \<Rightarrow> 'm phys_mem \<Rightarrow> ('m, 'v) cached_memory_access phys_mem" where
  "cached_memory vops pm = \<lparr>
     pm_read_raw_list = cm_read_raw_list vops pm,
     pm_write_raw_list = cm_write_raw_list vops pm,
     pm_metadata = (\<lambda>self. pm_metadata pm (cm_mem self))\<rparr>"

section \<open>The builder\<close>

record ('m, 'v) cached_memory_builder =
  cmb_mem :: 'm
  cmb_validator :: 'v
  cmb_page_size :: "usize option"
  cmb_cache_size :: usize
  cmb_page_type_mask :: page_type

definition cmb_new ::
  "('k, 'i, 'd) clock \<Rightarrow> 'k \<Rightarrow> 'm \<Rightarrow> ('m, ('k, 'i, 'd) timed_validator) cached_memory_builder" where
  "cmb_new ck k mem = \<lparr>
     cmb_mem = mem, cmb_validator = timed_default ck k, cmb_page_size = None,
     cmb_cache_size = mb 2, cmb_page_type_mask = PT_PAGE_TABLE OR PT_READ_ONLY\<rparr>"

definition cm_builder ::
  "('k, 'i, 'd) clock \<Rightarrow> 'k \<Rightarrow> 'm \<Rightarrow> ('m, ('k, 'i, 'd) timed_validator) cached_memory_builder" where
  "cm_builder ck k mem = cmb_new ck k mem"

definition cmb_build ::
  "'v validator_ops \<Rightarrow> ('m, 'v) cached_memory_builder \<Rightarrow> ('m, 'v) cached_memory_access result option" where
  "cmb_build vops b =
     (case cmb_page_size b of
        None \<Rightarrow> Some (Inl (error_from_str ''page_size must be initialized''))
      | Some page_size \<Rightarrow> do {
          cache \<leftarrow> pc_with_page_size vops page_size (cmb_cache_size b) (cmb_page_type_mask b) (cmb_validator b);
          Some (Inr (cm_new (cmb_mem b) cache))
        })"

definition cmb_with_validator :: "'u \<Rightarrow> ('m, 'v) cached_memory_builder \<Rightarrow> ('m, 'u) cached_memory_builder" where
  "cmb_with_validator validator b = \<lparr>
     cmb_mem = cmb_mem b, cmb_validator = validator, cmb_page_size = cmb_page_size b,
     cmb_cache_size = cmb_cache_size b, cmb_page_type_mask = cmb_page_type_mask b\<rparr>"

definition cmb_with_page_size :: "usize \<Rightarrow> ('m, 'v) cached_memory_builder \<Rightarrow> ('m, 'v) cached_memory_builder" where
  "cmb_with_page_size page_size b = b\<lparr>cmb_page_size := Some page_size\<rparr>"

definition cmb_with_arch ::
  "x86_architecture \<Rightarrow> ('m, 'v) cached_memory_builder \<Rightarrow> ('m, 'v) cached_memory_builder option" where
  "cmb_with_arch arch b = map_option (\<lambda>p. b\<lparr>cmb_page_size := Some p\<rparr>) (arch_page_size arch)"

definition cmb_with_cache_size :: "usize \<Rightarrow> ('m, 'v) cached_memory_builder \<Rightarrow> ('m, 'v) cached_memory_builder" where
  "cmb_with_cache_size cache_size b = b\<lparr>cmb_cache_size := cache_size\<rparr>"

definition cmb_with_page_type_mask ::
  "page_type \<Rightarrow> ('m, 'v) cached_memory_builder \<Rightarrow> ('m, 'v) cached_memory_builder" where
  "cmb_with_page_type_mask m b = b\<lparr>cmb_page_type_mask := m\<rparr>"

section \<open>Reading through the cache\<close>

definition cm_ok ::
  "('v \<Rightarrow> bool) \<Rightarrow> ('v \<Rightarrow> nat) \<Rightarrow> ('m \<Rightarrow> bool) \<Rightarrow> ('m \<Rightarrow> u64 \<Rightarrow> u8 option)
     \<Rightarrow> ('m, 'v) cached_memory_access \<Rightarrow> bool" where
  "cm_ok v_ok slots mem_ok content cm \<longleftrightarrow>
     mem_ok (cm_mem cm) \<and> cache_ok v_ok slots (content (cm_mem cm)) (cm_cache cm) []"

lemma read_slices_nth:
  "read_slices reads = map (\<lambda>i. (fst (reads ! i), \<lparr>ms_alloc = i, ms_ptr = 0, ms_len = len_usize (snd (reads ! i))\<rparr>))
     [0..<length reads]"
  by (rule nth_equalityI) (simp_all add: read_slices_def nth_enumerate_eq case_prod_unfold)

lemma read_slices_placed:
  assumes "bufs_ok reads"
  shows "\<forall>(pa, s) \<in> set (read_slices reads). placed reads (pa, s) \<and> mut_slice_ok s"
    and "slice_cells (read_slices reads) = {(k, j). k < length reads \<and> j < length (snd (reads ! k))}"
proof -
  have n: "unat (len_usize (snd (reads ! i))) = length (snd (reads ! i))"
    "length (snd (reads ! i)) < 9223372036854775808"
    if "i < length reads" for i
  proof -
    have r: "reads ! i \<in> set reads" using that by simp
    then show l: "length (snd (reads ! i)) < 9223372036854775808"
      using assms by (simp add: bufs_ok_def)
    from l show "unat (len_usize (snd (reads ! i))) = length (snd (reads ! i))"
      by (simp add: len_usize_def unat_of_nat_64)
  qed
  show "\<forall>(pa, s) \<in> set (read_slices reads). placed reads (pa, s) \<and> mut_slice_ok s"
    using n by (auto simp: read_slices_nth placed_def mut_slice_ok_def read_addr_def)
  show "slice_cells (read_slices reads) = {(k, j). k < length reads \<and> j < length (snd (reads ! k))}"
    using n by (auto simp: read_slices_nth slice_cells_def mut_slice_cells_def)
qed

text \<open>The alignment of a layout is a power of two.\<close>

lemma nat_and_pred_exp: "0 < (n :: nat) \<Longrightarrow> n AND (n - 1) = 0 \<Longrightarrow> \<exists>k. n = 2 ^ k"
proof (induction n rule: less_induct)
  case (less n)
  show ?case
  proof (cases "even n")
    case True
    then obtain m where m: "n = 2 * m" "0 < m" using less.prems(1) by auto
    have "m AND (m - 1) = 0"
    proof (rule bit_eqI)
      fix j
      have "(n - 1) div 2 = m - 1" "n div 2 = m" using m by presburger+
      then have "bit (n AND (n - 1)) (Suc j) = bit (m AND (m - 1)) j"
        unfolding bit_and_iff bit_Suc [of n] bit_Suc [of "n - 1"] by simp
      then show "bit (m AND (m - 1)) j = bit 0 j" using less.prems(2) by simp
    qed
    then obtain k where "m = 2 ^ k" using less.IH [of m] m by auto
    then have "n = 2 ^ Suc k" using m by simp
    then show ?thesis by blast
  next
    case False
    then obtain m where m: "n = 2 * m + 1" by (elim oddE)
    have "n AND (n - 1) = n - 1"
    proof (rule bit_eqI)
      fix j
      show "bit (n AND (n - 1)) j = bit (n - 1) j"
        unfolding bit_and_iff by (cases j) (simp_all add: m bit_Suc bit_0)
    qed
    then have "n = 2 ^ 0" using less.prems by simp
    then show ?thesis by blast
  qed
qed

context cache_validator
begin

lemma update_ok:
  "cache_ok v_ok slots C c pend \<Longrightarrow> cache_ok v_ok slots C (cm_update_validity ops c) pend"
  using update
  by (simp add: cache_ok_def pc_shape_def pc_holds_def pages_out_def page_slot_def cm_update_validity_def)

lemma cm_read_ok:
  assumes "matching_memory pm mem_ok content" and "cm_ok v_ok slots mem_ok content cm" and "bufs_ok reads"
  shows "\<exists>bufs cm'. cm_read_raw_list ops pm cm reads = Some (Inr (), bufs, cm') \<and>
     cm_ok v_ok slots mem_ok content cm' \<and> content (cm_mem cm') = content (cm_mem cm) \<and>
     map length bufs = map (length \<circ> snd) reads \<and>
     (\<forall>k < length reads. src_matches (content (cm_mem cm)) (pa_address (fst (reads ! k))) (bufs ! k)) \<and>
     pc_page_type_mask (cm_cache cm') = pc_page_type_mask (cm_cache cm)"
proof -
  let ?C = "content (cm_mem cm)"
  let ?ru = "\<lparr>ru_cache = cm_update_validity ops (cm_cache cm), ru_mem = cm_mem cm, ru_store = map snd reads,
      ru_clist = [], ru_wlist = [], ru_wlistcache = []\<rparr>"
  have cm: "mem_ok (cm_mem cm)" "cache_ok v_ok slots ?C (cm_update_validity ops (cm_cache cm)) []"
    using assms(2) update_ok by (simp_all add: cm_ok_def)
  have start: "run_ok v_ok slots ?C reads ?ru {}"
    using cm(2) by (simp add: run_ok_def lists_ok_def store_shape_def comp_def)
  obtain ru where ru: "read_loop ops pm (read_slices reads) ?ru = Some (Inr (), ru)" "mem_ok (ru_mem ru)"
    "content (ru_mem ru) = ?C" "run_ok v_ok slots ?C reads ru ({} \<union> slice_cells (read_slices reads))"
    "ru_clist ru = []" "ru_wlist ru = []" "ru_wlistcache ru = []"
    "pc_page_type_mask (ru_cache ru) = pc_page_type_mask (ru_cache ?ru)"
    using read_loop_ok [OF assms(1,3) _ _ start read_slices_placed(1) [OF assms(3)]] cm(1) by auto
  have fin: "cache_ok v_ok slots ?C (ru_cache ru) []" "store_shape reads (ru_store ru)"
    "{(k, j). k < length reads \<and> j < length (snd (reads ! k))} \<subseteq> matched ?C reads (ru_store ru)"
    using ru(4-7) read_slices_placed(2) [OF assms(3)] by (simp_all add: run_ok_def)
  have "src_matches ?C (pa_address (fst (reads ! k))) (ru_store ru ! k)" if "k < length reads" for k
    using fin(3) store_shape_nth [OF fin(2), of k] that
    by (auto simp: src_matches_def matched_def read_addr_def)
  with ru fin show ?thesis
    by (simp add: cm_read_raw_list_def cached_read_def Let_def cm_ok_def store_shape_def cm_update_validity_def)
qed

text \<open>
  So a page cache over a memory that meets the contract meets it too, with the content of
  that memory: caches and translators can be stacked.
\<close>

lemma cached_matching:
  assumes "matching_memory pm mem_ok content"
  shows "matching_memory (cached_memory ops pm) (cm_ok v_ok slots mem_ok content) (\<lambda>cm. content (cm_mem cm))"
proof
  fix cm reads
  assume cm: "cm_ok v_ok slots mem_ok content cm" and reads: "bufs_ok reads"
  obtain bufs cm' where r: "cm_read_raw_list ops pm cm reads = Some (Inr (), bufs, cm')"
    "cm_ok v_ok slots mem_ok content cm'" "content (cm_mem cm') = content (cm_mem cm)"
    "map length bufs = map (length \<circ> snd) reads"
    "\<forall>k < length reads. src_matches (content (cm_mem cm)) (pa_address (fst (reads ! k))) (bufs ! k)"
    using cm_read_ok [OF assms cm reads] by blast
  have l: "length bufs = length reads" "\<forall>k < length reads. length (bufs ! k) = length (snd (reads ! k))"
    using store_shape_nth [of reads bufs] r(4) by (simp_all add: store_shape_def)
  with r(5) have "reads_match (content (cm_mem cm)) reads bufs"
    by (simp add: reads_match_def list_all2_conv_all_nth pa_as_u64_def as_u64_def)
  with r(1-3) show "\<exists>bufs cm'. pm_read_raw_list (cached_memory ops pm) cm reads = Some (Inr (), bufs, cm') \<and>
      reads_match (content (cm_mem cm)) reads bufs \<and> cm_ok v_ok slots mem_ok content cm' \<and>
      content (cm_mem cm') = content (cm_mem cm)"
    by (auto simp: cached_memory_def)
qed

lemma fresh_cache_ok:
  assumes "v_ok v" and "pc_with_page_size ops p sz ptm v = Some c" and "p \<le> sz" and "p \<noteq> 1"
  shows "cache_ok v_ok slots C c []"
proof -
  let ?n = "unat (sz div p)"
  have p: "p \<noteq> 0" "p AND (p - 1) = 0" "uint (sz div p * p) + uint p \<le> 9223372036854775808"
    and c: "c = \<lparr>pc_address = replicate ?n ADDRESS_INVALID, pc_page_refs = map Some [0..<?n],
                pc_address_once_validated = replicate ?n ADDRESS_INVALID, pc_page_size = p,
                pc_page_type_mask = ptm, pc_validator = cv_allocate_slots ops v ?n,
                pc_block = replicate ?n (replicate (unat p) 0)\<rparr>"
    using assms(2) by (auto simp: pc_with_page_size_def layout_ok_def Let_def split: if_splits)
  have lay: "unat (sz div p * p) + unat p \<le> 9223372036854775808"
  proof -
    have u: "uint w = int (unat w)" for w :: u64 by simp
    show ?thesis using p(3) u [of p] u [of "sz div p * p"] by linarith
  qed
  have p0: "0 < unat p" using p(1) by (simp add: unat_gt_0)
  have n: "0 < ?n"
    using assms(3) p0 by (simp add: unat_div_distrib word_le_nat_alt div_greater_zero_iff)
  have "unat (p AND (p - 1)) = unat p AND (unat p - 1)"
    using p0 by (simp add: unsigned_and_eq unat_sub_nowrap)
  then obtain k where k: "unat p = 2 ^ k"
    using nat_and_pred_exp [OF p0] p(2) by auto
  have "k \<le> 63"
  proof (rule ccontr)
    assume "\<not> k \<le> 63"
    then have "(2 :: nat) ^ 64 \<le> 2 ^ k" by (intro power_increasing) simp_all
    with lay k show False by simp
  qed
  then have dvd: "unat p dvd 18446744073709551616"
    using le_imp_power_dvd [of k 64 "2 :: nat"] by (simp add: k)
  have "page_align ADDRESS_INVALID p \<noteq> ADDRESS_INVALID"
  proof
    assume "page_align ADDRESS_INVALID p = ADDRESS_INVALID"
    then have "unat p dvd 18446744073709551615"
      by (simp add: page_align_id_iff ADDRESS_INVALID_def)
    from dvd_diff_nat [OF dvd this] have "unat p = 1" by simp
    then have "p = 1" by (metis unat_1 word_unat_eq_iff)
    with assms(4) show False by simp
  qed
  moreover have "unat p < 9223372036854775808"
  proof -
    have "?n * unat p \<le> unat sz" by (simp add: unat_div_distrib)
    also have "\<dots> < 2 ^ LENGTH(64)" by simp
    finally have "?n * unat p < 2 ^ LENGTH(64)" .
    then have "unat (sz div p * p) = ?n * unat p" by (simp only: unat_mult_lem [THEN iffD1])
    moreover have "1 * unat p \<le> ?n * unat p" using n by (intro mult_le_mono1) simp
    ultimately show ?thesis using lay p0 by linarith
  qed
  ultimately have "pc_shape v_ok slots c"
    using p(1) n dvd allocate [OF assms(1), of ?n] unat_lt_64 [of "sz div p"]
    by (simp add: pc_shape_def c del: unat_lt_64)
  then show ?thesis
    by (simp add: cache_ok_def pc_holds_def pages_out_def c)
qed

end

interpretation cached_reference: matching_memory "cached_memory count_ops reference_memory"
  "cm_ok (\<lambda>v. cc_valid_count v \<noteq> 0) (\<lambda>v. length (cc_count v)) (\<lambda>_. True) (\<lambda>m. m)" "\<lambda>cm. cm_mem cm"
  by (rule count.cached_matching [OF reference.matching_memory_axioms])

section \<open>Memories that fail\<close>

text \<open>
  Three small memories for the examples: one whose first reads fail (the state is how many),
  one that cannot be written, and one with nothing mapped behind address 2.
\<close>

definition flaky_memory :: "nat phys_mem" where
  "flaky_memory = \<lparr>
     pm_read_raw_list = (\<lambda>n reads. Some
       (if n = 0 then (Inr (), fill_bufs (\<lambda>_. Some 0xAB) reads, n)
        else (Inl (Connector ''read failed''), map snd reads, n - 1))),
     pm_write_raw_list = (\<lambda>n data. Some (Inl (Connector ''not writeable''), n)),
     pm_metadata = (\<lambda>n. Some \<lparr>pmd_size = 0, pmd_readonly = True\<rparr>)\<rparr>"

definition short_memory :: "unit phys_mem" where
  "short_memory = \<lparr>
     pm_read_raw_list = (\<lambda>m reads. Some
       (Inr (), fill_bufs (\<lambda>a. if a \<le> 1 then Some 0xAB else None) reads, m)),
     pm_write_raw_list = (\<lambda>m data. Some (Inl (Connector ''not writeable''), m)),
     pm_metadata = (\<lambda>m. Some \<lparr>pmd_size = 2, pmd_readonly = True\<rparr>)\<rparr>"

text \<open>A cache of one page of four bytes for read-only pages, and an address of such a page.\<close>

definition example_cache :: "usize \<Rightarrow> count_validator page_cache option" where
  "example_cache valid_count = pc_with_page_size count_ops 4 4 PT_READ_ONLY (count_new valid_count)"

definition example_addr :: "u64 \<Rightarrow> phys_addr" where
  "example_addr a = \<lparr>pa_address = a, pa_page_type = PT_READ_ONLY, pa_page_size_log2 = 0\<rparr>"

section \<open>Properties\<close>

text \<open>
  C9. Reading through the cache. Whatever was read before through a cache that started
  empty, over any memory that answers every read: a list of reads, of any number and length
  and of cached and other page types, succeeds, and every byte that is mapped has the value
  the memory has. The cache stays in a state in which this holds for the next read.
\<close>

theorem cached_read_is_memory:
  assumes "cache_validator vops v_ok slots" and "matching_memory pm mem_ok content"
    and "cm_ok v_ok slots mem_ok content cm" and "bufs_ok reads"
  shows "\<exists>bufs cm'. pm_read_raw_list (cached_memory vops pm) cm reads = Some (Inr (), bufs, cm') \<and>
     cm_ok v_ok slots mem_ok content cm' \<and> content (cm_mem cm') = content (cm_mem cm) \<and>
     map length bufs = map (length \<circ> snd) reads \<and>
     (\<forall>k < length reads. \<forall>j < length (bufs ! k). \<forall>b.
        byte_at (content (cm_mem cm)) (pa_as_u64 (fst (reads ! k))) j = Some b \<longrightarrow> bufs ! k ! j = b)"
  using cache_validator.cm_read_ok [OF assms]
  by (auto simp: cached_memory_def src_matches_def pa_as_u64_def as_u64_def)

theorem cached_read_is_memory_witness:
  "\<exists>c bufs cm'. example_cache 10 = Some c \<and>
     pm_read_raw_list (cached_memory count_ops reference_memory) (cm_new (\<lambda>a. Some (ucast a)) c)
       [(example_addr 3, [0, 0]), (pa_from_address 9, [0])] = Some (Inr (), bufs, cm') \<and>
     map length bufs = [2, 1] \<and> bufs ! 0 ! 1 = 4 \<and> bufs ! 1 ! 0 = 9"
proof -
  let ?reads = "[(example_addr 3, [0, 0]), (pa_from_address 9, [0])]" and ?m = "\<lambda>a :: u64. Some (ucast a :: u8)"
  obtain c where c: "example_cache 10 = Some c"
    by (cases "example_cache 10") (simp_all add: example_cache_def pc_with_page_size_def layout_ok_def)
  have "cache_ok (\<lambda>v. cc_valid_count v \<noteq> 0) (\<lambda>v. length (cc_count v)) ?m c []"
    using c by (intro count.fresh_cache_ok [of "count_new 10" 4 4 PT_READ_ONLY])
      (simp_all add: example_cache_def count_new_def)
  then have cm: "cm_ok (\<lambda>v. cc_valid_count v \<noteq> 0) (\<lambda>v. length (cc_count v)) (\<lambda>_. True) (\<lambda>m. m) (cm_new ?m c)"
    by (simp add: cm_ok_def cm_new_def)
  have fit: "bufs_ok ?reads"
    by (simp add: bufs_ok_def example_addr_def pa_from_address_def)
  from cached_read_is_memory [OF count.cache_validator_axioms reference.matching_memory_axioms cm fit]
  show ?thesis
  proof (elim exE conjE)
    fix bufs cm'
    assume r: "pm_read_raw_list (cached_memory count_ops reference_memory) (cm_new ?m c) ?reads =
        Some (Inr (), bufs, cm')"
      and len: "map length bufs = map (length \<circ> snd) ?reads"
      and b: "\<forall>k < length ?reads. \<forall>j < length (bufs ! k). \<forall>b.
        byte_at (cm_mem (cm_new ?m c)) (pa_as_u64 (fst (?reads ! k))) j = Some b \<longrightarrow> bufs ! k ! j = b"
    have l: "length (bufs ! 0) = 2" "length (bufs ! 1) = 1"
      using len by (auto simp: map_eq_Cons_conv)
    have "bufs ! 0 ! 1 = 4"
      using b [rule_format, of 0 1 4] l
      by (simp add: byte_at_def cm_new_def pa_as_u64_def as_u64_def example_addr_def)
    moreover have "bufs ! 1 \<noteq> []" using l(2) by (intro notI) simp
    then have "bufs ! 1 ! 0 = 9"
      using b [rule_format, of 1 0 9] l
      by (simp add: byte_at_def cm_new_def pa_as_u64_def as_u64_def pa_from_address_def)
    moreover have "map length bufs = [2, 1]" using len by simp
    ultimately show ?thesis using c r by (intro exI conjI)
  qed
qed

text \<open>
  C22. A cache built with a page size above one and at least one page starts in such a state,
  over any memory.
\<close>

theorem built_cache_is_ok:
  assumes "cache_validator vops v_ok slots" and "v_ok (cmb_validator b)" and "mem_ok (cmb_mem b)"
    and "cmb_page_size b = Some p" and "p \<le> cmb_cache_size b" and "p \<noteq> 1"
    and "cmb_build vops b = Some r"
  shows "\<exists>cm. r = Inr cm \<and> cm_mem cm = cmb_mem b \<and> cm_ok v_ok slots mem_ok content cm"
  using assms cache_validator.fresh_cache_ok [OF assms(1,2) _ assms(5,6)]
  by (auto simp: cmb_build_def cm_ok_def cm_new_def split: Option.bind_splits)

theorem built_cache_is_ok_witness:
  "\<exists>cm. cmb_build count_ops (cmb_with_cache_size 8 (cmb_with_page_size 4
       (cmb_with_validator (count_new 10) (cm_builder tick_clock 0 (\<lambda>a :: u64. Some (ucast a :: u8)))))) =
       Some (Inr cm) \<and>
     cm_ok (\<lambda>v. cc_valid_count v \<noteq> 0) (\<lambda>v. length (cc_count v)) (\<lambda>_. True) (\<lambda>m. m) cm"
proof -
  let ?m = "\<lambda>a :: u64. Some (ucast a :: u8)"
  let ?b = "cmb_with_cache_size 8 (cmb_with_page_size 4
       (cmb_with_validator (count_new 10) (cm_builder tick_clock 0 ?m)))"
  note defs = cmb_with_cache_size_def cmb_with_page_size_def cmb_with_validator_def cm_builder_def cmb_new_def
  obtain r where r: "cmb_build count_ops ?b = Some r"
    by (cases "cmb_build count_ops ?b")
      (simp_all add: cmb_build_def defs pc_with_page_size_def layout_ok_def)
  have "cc_valid_count (cmb_validator ?b) \<noteq> 0" "cmb_page_size ?b = Some 4" "(4 :: usize) \<le> cmb_cache_size ?b"
    by (simp_all add: defs count_new_def)
  from built_cache_is_ok [where mem_ok = "\<lambda>_. True" and content = "\<lambda>m. m",
      OF count.cache_validator_axioms this(1) TrueI this(2,3) _ r]
  obtain cm where "r = Inr cm"
    "cm_ok (\<lambda>v. cc_valid_count v \<noteq> 0) (\<lambda>v. length (cc_count v)) (\<lambda>_. True) (\<lambda>m. m) cm" by auto
  with r show ?thesis by blast
qed

text \<open>
  Two limits. With a count of zero a page is never valid, also not right after it
  was read, and reads report success with the buffer left as it was. A byte that is not
  mapped is not left alone: it gets what the page of the cache had there, a zero of the
  fresh page here, and no byte is written by the memory itself.
\<close>

lemma cached_read_limits:
  "do {
     c \<leftarrow> example_cache 0;
     (r, b, _) \<leftarrow> cm_read_raw_list count_ops flaky_memory (cm_new 0 c) [(example_addr 1, [1, 2])];
     Some (r, b)
   } = Some (Inr (), [[1, 2]]) \<and>
   do {
     c \<leftarrow> example_cache 10;
     (r, b, _) \<leftarrow> cm_read_raw_list count_ops short_memory (cm_new () c) [(example_addr 1, [1, 2])];
     (r', b', _) \<leftarrow> pm_read_raw_list short_memory () [(example_addr 1, [1, 2])];
     Some (b, b')
   } = Some ([[0xAB, 0]], [[0xAB, 2]])"
  by (rule conjI) code_simp+

end
