(* ===== verification/Virt_Mem.thy ===== *)
theory Virt_Mem
  imports Phys_Mem Pointer_Ops Mmu_Spec
begin

text \<open>
  The trait \<open>VirtualMemory\<close> of \<open>memflow/src/mem/virt_mem.rs\<close> with its provided methods,
  the reads through remote pointers of \<open>memflow/src/types/pointer32.rs\<close> and
  \<open>pointer64.rs\<close>, and the batcher of \<open>memflow/src/mem/virt_mem_batcher.rs\<close>. As for physical
  memory a provider is a record of its methods on a state. The locale
  \<open>virtual_memory\<close> states what a client may rely on when it reads one buffer.
\<close>

section \<open>The trait\<close>

type_synonym virt_read_data = "address \<times> u8 list"
type_synonym virt_write_data = "address \<times> u8 list"

record 'v virt_mem =
  vm_read_raw_list ::
    "'v \<Rightarrow> virt_read_data list \<Rightarrow> (unit partial_result \<times> u8 list list \<times> 'v) option"
  vm_write_raw_list :: "'v \<Rightarrow> virt_write_data list \<Rightarrow> (unit partial_result \<times> 'v) option"
  vm_page_info :: "'v \<Rightarrow> address \<Rightarrow> (page result \<times> 'v) option"
  vm_translation_map_range ::
    "'v \<Rightarrow> address \<Rightarrow> address \<Rightarrow> ((address \<times> usize \<times> phys_addr) list \<times> 'v) option"
  vm_page_map_range :: "'v \<Rightarrow> usize \<Rightarrow> address \<Rightarrow> address \<Rightarrow> ((address \<times> usize) list \<times> 'v) option"

section \<open>Read and write helpers\<close>

text \<open>
  A \<open>Pod\<close> value is its bytes, in memory order; \<open>virt_read\<close> starts from uninitialised ones.
\<close>

definition virt_read_raw_into ::
  "'v virt_mem \<Rightarrow> 'v \<Rightarrow> address \<Rightarrow> u8 list \<Rightarrow> (unit partial_result \<times> u8 list \<times> 'v) option" where
  "virt_read_raw_into vm self addr out = do {
     (r, bufs, self) \<leftarrow> vm_read_raw_list vm self [(addr, out)];
     Some (r, hd bufs, self)
   }"

definition virt_read_into ::
  "'v virt_mem \<Rightarrow> 'v \<Rightarrow> address \<Rightarrow> u8 list \<Rightarrow> (unit partial_result \<times> u8 list \<times> 'v) option" where
  "virt_read_into vm self addr out = virt_read_raw_into vm self addr out"

definition virt_read_raw ::
  "'v virt_mem \<Rightarrow> 'v \<Rightarrow> address \<Rightarrow> usize \<Rightarrow> (u8 list partial_result \<times> 'v) option" where
  "virt_read_raw vm self addr len = do {
     let buf = replicate (unat len) 0;
     (r, buf, self) \<leftarrow> virt_read_raw_into vm self addr buf;
     Some (pr_map_data (\<lambda>_. buf) r, self)
   }"

definition virt_read ::
  "'v virt_mem \<Rightarrow> 'v \<Rightarrow> u8 list \<Rightarrow> address \<Rightarrow> (u8 list partial_result \<times> 'v) option" where
  "virt_read vm self uninit addr = do {
     (r, obj, self) \<leftarrow> virt_read_into vm self addr uninit;
     Some (pr_map_data (\<lambda>_. obj) r, self)
   }"

definition virt_write_raw ::
  "'v virt_mem \<Rightarrow> 'v \<Rightarrow> address \<Rightarrow> u8 list \<Rightarrow> (unit partial_result \<times> 'v) option" where
  "virt_write_raw vm self addr data = vm_write_raw_list vm self [(addr, data)]"

definition virt_write ::
  "'v virt_mem \<Rightarrow> 'v \<Rightarrow> address \<Rightarrow> u8 list \<Rightarrow> (unit partial_result \<times> 'v) option" where
  "virt_write vm self addr data = virt_write_raw vm self addr data"

definition virt_translation_map ::
  "'v virt_mem \<Rightarrow> 'v \<Rightarrow> ((address \<times> usize \<times> phys_addr) list \<times> 'v) option" where
  "virt_translation_map vm self = vm_translation_map_range vm self address_null address_invalid"

definition virt_page_map ::
  "'v virt_mem \<Rightarrow> 'v \<Rightarrow> usize \<Rightarrow> ((address \<times> usize) list \<times> 'v) option" where
  "virt_page_map vm self gap_size = vm_page_map_range vm self gap_size address_null address_invalid"

definition virt_read_addr32 ::
  "'v virt_mem \<Rightarrow> 'v \<Rightarrow> u8 list \<Rightarrow> address \<Rightarrow> (address partial_result \<times> 'v) option" where
  "virt_read_addr32 vm self uninit addr = do {
     (r, self) \<leftarrow> virt_read vm self (take 4 uninit) addr;
     Some (pr_map_data (\<lambda>d. address_from_u32 (from_le_bytes d)) r, self)
   }"

definition virt_read_addr64 ::
  "'v virt_mem \<Rightarrow> 'v \<Rightarrow> u8 list \<Rightarrow> address \<Rightarrow> (address partial_result \<times> 'v) option" where
  "virt_read_addr64 vm self uninit addr = do {
     (r, self) \<leftarrow> virt_read vm self (take 8 uninit) addr;
     Some (pr_map_data (\<lambda>d. address_from_u64 (from_le_bytes d)) r, self)
   }"

definition virt_read_addr_arch ::
  "'v virt_mem \<Rightarrow> 'v \<Rightarrow> u8 list \<Rightarrow> x86_architecture \<Rightarrow> address
     \<Rightarrow> (address partial_result \<times> 'v) option" where
  "virt_read_addr_arch vm self uninit arch addr =
     (if arch_bits arch = 64 then virt_read_addr64 vm self uninit addr
      else if arch_bits arch = 32 then virt_read_addr32 vm self uninit addr
      else Some (Inl (HardError InvalidArchitecture), self))"

section \<open>Remote pointers\<close>

definition virt_read_ptr32_into ::
  "'v virt_mem \<Rightarrow> 'v \<Rightarrow> pointer32 \<Rightarrow> u8 list \<Rightarrow> (unit partial_result \<times> u8 list \<times> 'v) option" where
  "virt_read_ptr32_into vm self ptr out = virt_read_into vm self (address_from_u32 (p32_address ptr)) out"

definition virt_read_ptr32 ::
  "'v virt_mem \<Rightarrow> 'v \<Rightarrow> u8 list \<Rightarrow> pointer32 \<Rightarrow> (u8 list partial_result \<times> 'v) option" where
  "virt_read_ptr32 vm self uninit ptr = virt_read vm self uninit (address_from_u32 (p32_address ptr))"

definition virt_read_ptr64_into ::
  "'v virt_mem \<Rightarrow> 'v \<Rightarrow> pointer64 \<Rightarrow> u8 list \<Rightarrow> (unit partial_result \<times> u8 list \<times> 'v) option" where
  "virt_read_ptr64_into vm self ptr out = virt_read_into vm self (address_from_u64 (p64_address ptr)) out"

definition virt_read_ptr64 ::
  "'v virt_mem \<Rightarrow> 'v \<Rightarrow> u8 list \<Rightarrow> pointer64 \<Rightarrow> (u8 list partial_result \<times> 'v) option" where
  "virt_read_ptr64 vm self uninit ptr = virt_read vm self uninit (address_from_u64 (p64_address ptr))"

definition p32_deref_into ::
  "'v virt_mem \<Rightarrow> pointer32 \<Rightarrow> 'v \<Rightarrow> u8 list \<Rightarrow> (unit partial_result \<times> u8 list \<times> 'v) option" where
  "p32_deref_into vm ptr mem out = virt_read_ptr32_into vm mem ptr out"

definition p32_deref ::
  "'v virt_mem \<Rightarrow> u8 list \<Rightarrow> pointer32 \<Rightarrow> 'v \<Rightarrow> (u8 list partial_result \<times> 'v) option" where
  "p32_deref vm uninit ptr mem = virt_read_ptr32 vm mem uninit ptr"

definition p64_deref_into ::
  "'v virt_mem \<Rightarrow> pointer64 \<Rightarrow> 'v \<Rightarrow> u8 list \<Rightarrow> (unit partial_result \<times> u8 list \<times> 'v) option" where
  "p64_deref_into vm ptr mem out = virt_read_ptr64_into vm mem ptr out"

definition p64_deref ::
  "'v virt_mem \<Rightarrow> u8 list \<Rightarrow> pointer64 \<Rightarrow> 'v \<Rightarrow> (u8 list partial_result \<times> 'v) option" where
  "p64_deref vm uninit ptr mem = virt_read_ptr64 vm mem uninit ptr"

section \<open>Strings\<close>

text \<open>
  \<open>String::from_utf8_lossy\<close> of the standard library, on the bytes of the string: every
  maximal prefix of a sequence that cannot become a character is replaced by U+FFFD. A byte
  behind the end counts as zero.
\<close>

definition utf8_cont :: "u8 \<Rightarrow> bool" where
  "utf8_cont b \<longleftrightarrow> b AND 0xC0 = 0x80"

definition utf8_second3 :: "u8 \<Rightarrow> u8 \<Rightarrow> bool" where
  "utf8_second3 b c \<longleftrightarrow>
     (if b = 0xE0 then 0xA0 \<le> c \<and> c \<le> 0xBF
      else if b = 0xED then 0x80 \<le> c \<and> c \<le> 0x9F else 0x80 \<le> c \<and> c \<le> 0xBF)"

definition utf8_second4 :: "u8 \<Rightarrow> u8 \<Rightarrow> bool" where
  "utf8_second4 b c \<longleftrightarrow>
     (if b = 0xF0 then 0x90 \<le> c \<and> c \<le> 0xBF
      else if b = 0xF4 then 0x80 \<le> c \<and> c \<le> 0x8F else 0x80 \<le> c \<and> c \<le> 0xBF)"

text \<open>How many bytes the first character takes, and whether they are valid.\<close>

definition utf8_char :: "u8 list \<Rightarrow> nat \<times> bool" where
  "utf8_char s =
     (let at = (\<lambda>i. if i < length s then s ! i else 0); b = at 0 in
      if b < 0x80 then (1, True)
      else if 0xC2 \<le> b \<and> b \<le> 0xDF then (if utf8_cont (at 1) then (2, True) else (1, False))
      else if 0xE0 \<le> b \<and> b \<le> 0xEF then
        (if \<not> utf8_second3 b (at 1) then (1, False)
         else if \<not> utf8_cont (at 2) then (2, False) else (3, True))
      else if 0xF0 \<le> b \<and> b \<le> 0xF4 then
        (if \<not> utf8_second4 b (at 1) then (1, False)
         else if \<not> utf8_cont (at 2) then (2, False)
         else if \<not> utf8_cont (at 3) then (3, False) else (4, True))
      else (1, False))"

lemma utf8_char_pos: "0 < fst (utf8_char s)"
  by (simp add: utf8_char_def Let_def)

lemma utf8_char_shrinks: "(n, valid) = utf8_char s \<Longrightarrow> s \<noteq> [] \<Longrightarrow> length s - n < length s"
  using utf8_char_pos [of s] by (cases s) (auto dest: arg_cong [of _ _ fst])

function from_utf8_lossy :: "u8 list \<Rightarrow> u8 list" where
  "from_utf8_lossy s =
     (if s = [] then []
      else case utf8_char s of (n, valid) \<Rightarrow>
        (if valid then take n s else [0xEF, 0xBF, 0xBD]) @ from_utf8_lossy (drop n s))"
  by auto
termination
  by (relation "measure length") (auto intro: utf8_char_shrinks)

declare from_utf8_lossy.simps [simp del]

lemma from_utf8_lossy_ascii: "\<forall>b \<in> set s. b < 0x80 \<Longrightarrow> from_utf8_lossy s = s"
proof (induction s)
  case Nil
  show ?case by (simp add: from_utf8_lossy.simps)
next
  case (Cons b s)
  then have "utf8_char (b # s) = (1, True)" by (simp add: utf8_char_def Let_def)
  with Cons show ?case by (simp add: from_utf8_lossy.simps [of "b # s"])
qed

text \<open>
  \<open>virt_read_cstr\<close>: at most \<open>len\<close> bytes, up to the first zero byte.
\<close>

definition virt_read_cstr ::
  "'v virt_mem \<Rightarrow> 'v \<Rightarrow> address \<Rightarrow> usize \<Rightarrow> (u8 list partial_result \<times> 'v) option" where
  "virt_read_cstr vm self addr len = do {
     let buf = replicate (unat len) 0;
     (r, buf, self) \<leftarrow> virt_read_raw_into vm self addr buf;
     (case pr_data_part r of
        Inl e \<Rightarrow> Some (Inl (partial_from_error e), self)
      | Inr _ \<Rightarrow>
          let buf = (case find (\<lambda>(n, c). c = 0) (enumerate 0 buf) of
              Some (n, _) \<Rightarrow> take n buf
            | None \<Rightarrow> buf)
          in Some (Inr (from_utf8_lossy buf), self))
   }"

lemma find_enumerate:
  "(case find (\<lambda>(n, c). c = x) (enumerate k xs) of Some (n, _) \<Rightarrow> take (n - k) xs | None \<Rightarrow> xs)
     = takeWhile (\<lambda>c. c \<noteq> x) xs"
proof (induction xs arbitrary: k)
  case (Cons y xs)
  have up: "k < n" if "find (\<lambda>(n, c). c = x) (enumerate (Suc k) xs) = Some (n, c)" for n c
    using that by (auto simp: find_Some_iff nth_enumerate_eq)
  show ?case
    using Cons.IH [of "Suc k"] up
    by (auto simp: Suc_diff_Suc take_Cons' split: option.splits)
qed simp

section \<open>The batcher\<close>

record 'v virtual_memory_batcher =
  vb_vmem :: 'v
  vb_read_list :: "virt_read_data list"
  vb_write_list :: "virt_write_data list"

definition vb_new :: "'v \<Rightarrow> 'v virtual_memory_batcher" where
  "vb_new vmem = \<lparr>vb_vmem = vmem, vb_read_list = [], vb_write_list = []\<rparr>"

definition virt_batcher :: "'v \<Rightarrow> 'v virtual_memory_batcher" where
  "virt_batcher self = vb_new self"

text \<open>\<open>commit_rw\<close>: the second component is what the borrowed read buffers hold afterwards.\<close>

definition vb_commit_writes ::
  "'v virt_mem \<Rightarrow> 'v virtual_memory_batcher \<Rightarrow> (unit partial_result \<times> 'v virtual_memory_batcher) option" where
  "vb_commit_writes vm b =
     (if vb_write_list b \<noteq> []
      then do {
        (r, v) \<leftarrow> vm_write_raw_list vm (vb_vmem b) (vb_write_list b);
        (case r of
           Inl e \<Rightarrow> Some (Inl e, b\<lparr>vb_vmem := v\<rparr>)
         | Inr _ \<Rightarrow> Some (Inr (), b\<lparr>vb_vmem := v, vb_write_list := []\<rparr>))
      }
      else Some (Inr (), b))"

definition vb_commit_rw ::
  "'v virt_mem \<Rightarrow> 'v virtual_memory_batcher \<Rightarrow> (unit partial_result \<times> u8 list list \<times> 'v virtual_memory_batcher) option" where
  "vb_commit_rw vm b =
     (if vb_read_list b \<noteq> []
      then do {
        (r, bufs, v) \<leftarrow> vm_read_raw_list vm (vb_vmem b) (vb_read_list b);
        (case r of
           Inl e \<Rightarrow> Some (Inl e, bufs,
             b\<lparr>vb_vmem := v, vb_read_list := zip (map fst (vb_read_list b)) bufs\<rparr>)
         | Inr _ \<Rightarrow> do {
             (r, b) \<leftarrow> vb_commit_writes vm (b\<lparr>vb_vmem := v, vb_read_list := []\<rparr>);
             Some (r, bufs, b)
           })
      }
      else do {
        (r, b) \<leftarrow> vb_commit_writes vm b;
        Some (r, [], b)
      })"

definition vb_read_raw_iter :: "'v virtual_memory_batcher \<Rightarrow> virt_read_data list \<Rightarrow> 'v virtual_memory_batcher" where
  "vb_read_raw_iter b iter = b\<lparr>vb_read_list := vb_read_list b @ iter\<rparr>"

definition vb_write_raw_iter :: "'v virtual_memory_batcher \<Rightarrow> virt_write_data list \<Rightarrow> 'v virtual_memory_batcher" where
  "vb_write_raw_iter b iter = b\<lparr>vb_write_list := vb_write_list b @ iter\<rparr>"

definition vb_read_raw_into :: "'v virtual_memory_batcher \<Rightarrow> address \<Rightarrow> u8 list \<Rightarrow> 'v virtual_memory_batcher" where
  "vb_read_raw_into b addr out = vb_read_raw_iter b [(addr, out)]"

definition vb_read_into :: "'v virtual_memory_batcher \<Rightarrow> address \<Rightarrow> u8 list \<Rightarrow> 'v virtual_memory_batcher" where
  "vb_read_into b addr out = vb_read_raw_into b addr out"

definition vb_write_raw_into :: "'v virtual_memory_batcher \<Rightarrow> address \<Rightarrow> u8 list \<Rightarrow> 'v virtual_memory_batcher" where
  "vb_write_raw_into b addr out = vb_write_raw_iter b [(addr, out)]"

definition vb_write_into :: "'v virtual_memory_batcher \<Rightarrow> address \<Rightarrow> u8 list \<Rightarrow> 'v virtual_memory_batcher" where
  "vb_write_into b addr out = vb_write_raw_into b addr out"

definition vb_drop :: "'v virt_mem \<Rightarrow> 'v virtual_memory_batcher \<Rightarrow> 'v option" where
  "vb_drop vm b = map_option (\<lambda>(_, _, b). vb_vmem b) (vb_commit_rw vm b)"

section \<open>The contract of a read\<close>

text \<open>
  What a client relies on when it reads one buffer in a range the provider can serve: the
  read returns; a complete one stores the byte of every address, a partial one stores a
  zero where it could not translate. The bytes stay as they are.
\<close>

locale virtual_memory =
  fixes vm :: "'v virt_mem"
    and inv :: "'v \<Rightarrow> bool"
    and serves :: "'v \<Rightarrow> address \<Rightarrow> nat \<Rightarrow> bool"
    and holds :: "'v \<Rightarrow> address \<Rightarrow> u8 \<Rightarrow> bool"
  assumes read_one: "inv v \<Longrightarrow> serves v a (length buf) \<Longrightarrow>
    \<exists>r buf' v'. vm_read_raw_list vm v [(a, buf)] = Some (r, [buf'], v') \<and>
      inv v' \<and> serves v' = serves v \<and> holds v' = holds v \<and> length buf' = length buf \<and>
      (r = Inr () \<and> (\<forall>j < length buf. holds v (a + of_nat j) (buf' ! j)) \<or>
       r = Inl (PartialVirtualRead ()) \<and>
         (\<forall>j < length buf. holds v (a + of_nat j) (buf' ! j) \<or> buf' ! j = 0))"
begin

text \<open>
  A read of a value or a pointer cannot fail, and a partial read is not told from a
  complete one; what it could not translate reads as zero.
\<close>

lemma virt_read_value:
  assumes "inv v" and "serves v a (length uninit)"
  shows "\<exists>bs v'. virt_read vm v uninit a = Some (Inr bs, v') \<and>
     inv v' \<and> serves v' = serves v \<and> holds v' = holds v \<and> length bs = length uninit \<and>
     (\<forall>j < length bs. holds v (a + of_nat j) (bs ! j) \<or> bs ! j = 0)"
  using read_one [OF assms]
  by (fastforce simp: virt_read_def virt_read_into_def virt_read_raw_into_def)

lemma virt_read_cstr_reads:
  assumes "inv v" and "serves v a (unat len)"
  shows "\<exists>bs v'. virt_read_cstr vm v a len = Some (Inr (from_utf8_lossy (takeWhile (\<lambda>c. c \<noteq> 0) bs)), v') \<and>
     inv v' \<and> serves v' = serves v \<and> holds v' = holds v \<and> length bs = unat len \<and>
     (\<forall>j < length bs. holds v (a + of_nat j) (bs ! j) \<or> bs ! j = 0)"
proof -
  have s: "serves v a (length (replicate (unat len) (0 :: u8)))" using assms(2) by simp
  obtain r buf v' where r: "vm_read_raw_list vm v [(a, replicate (unat len) 0)] = Some (r, [buf], v')"
    "inv v'" "serves v' = serves v" "holds v' = holds v" "length buf = unat len"
    "r = Inr () \<or> r = Inl (PartialVirtualRead ())"
    "\<forall>j < length buf. holds v (a + of_nat j) (buf ! j) \<or> buf ! j = 0"
    using read_one [OF assms(1) s] by (auto 0 3)
  have "pr_data_part r = Inr ()" using r(6) by auto
  moreover have "(case find (\<lambda>(n, c). c = 0) (enumerate 0 buf) of None \<Rightarrow> buf | Some (n, _) \<Rightarrow> take n buf)
      = takeWhile (\<lambda>c. c \<noteq> 0) buf"
    using find_enumerate [where x = 0 and k = 0 and xs = buf] unfolding minus_nat.diff_0 .
  ultimately have "virt_read_cstr vm v a len =
      Some (Inr (from_utf8_lossy (takeWhile (\<lambda>c. c \<noteq> 0) buf)), v')"
    by (simp add: virt_read_cstr_def virt_read_raw_into_def Let_def r(1))
  with r show ?thesis by blast
qed

end

end
