(* ===== verification/Walk_Pieces.thy ===== *)
theory Walk_Pieces
  imports Cached_Vat
begin

text \<open>
  What the batch walk returns for one request, byte by byte: every translated piece starts
  at the physical address of its first byte, and its bytes follow each other in physical
  memory the way the walk of each of them says. Inside a large page this needs an entry
  whose frame is aligned to the page, because the code combines frame and offset with OR.
\<close>

definition frame_aligned :: "x86_architecture \<Rightarrow> (u64 \<Rightarrow> u8 option) \<Rightarrow> address \<Rightarrow> address \<Rightarrow> bool" where
  "frame_aligned arch content dtb v \<longleftrightarrow>
     (case walk (x86_mmu arch) content dtb v of
        Walk_Entry pte k \<Rightarrow>
          (case pte_addr_mask (x86_mmu arch) pte k of
             Some frame \<Rightarrow> unat frame mod 2 ^ step_bits (x86_mmu arch) k = 0
           | None \<Rightarrow> False)
      | _ \<Rightarrow> True)"

lemma unat_take_bit: "unat (take_bit n (w :: u64)) = unat w mod 2 ^ n"
  by (subst unsigned_take_bit_eq) (simp add: take_bit_eq_mod)

lemma and_low_mask: "unat e < 63 \<Longrightarrow> v AND bit_mask_u64 0 e = take_bit (Suc (unat e)) v"
  by (simp add: bit_mask_u64_low take_bit_eq_mask)

lemma or_aligned_add:
  fixes base off :: u64
  assumes "unat base mod 2 ^ n = 0" and "unat off < 2 ^ n"
  shows "base OR off = base + off"
proof -
  have "take_bit n base = 0" using assms(1)
    by (simp add: word_unat_eq_iff unat_take_bit)
  then have "\<not> bit base i" if "i < n" for i
    using that by (metis bit_take_bit_iff bit_0_eq bot_apply bot_bool_def)
  moreover have "\<not> bit off i" if "n \<le> i" for i
  proof -
    have "take_bit n off = off"
      using assms(2) by (simp add: word_unat_eq_iff unat_take_bit)
    then show ?thesis using that by (metis bit_take_bit_iff not_le)
  qed
  ultimately have "base + off = base OR off"
    by (intro disjunctive_add) (metis not_le_imp_less)
  then show ?thesis by simp
qed

lemma x86_final_bits:
  assumes "arch \<in> x86_archs" and "final_step (x86_mmu arch) k"
  shows "k < split_count (x86_mmu arch) \<and> 12 \<le> step_bits (x86_mmu arch) k \<and> step_bits (x86_mmu arch) k \<le> 30 \<and>
     virt_addr_to_page_offset (x86_mmu arch) v k = Some (take_bit (step_bits (x86_mmu arch) k) v)"
  using assms
  by (cases rule: final_steps)
    (simp_all add: step_bits_def virt_addr_to_page_offset_def virt_addr_bit_range_def nth_opt_def
      split_count_def x64_spec_def x32_spec_def x32_pae_spec_def and_low_mask as_u64_def)

text \<open>Inside one page the physical address moves with the virtual one.\<close>

lemma phys_page_moves:
  assumes arch: "arch \<in> x86_archs" and final: "final_step (x86_mmu arch) k"
    and base: "pte_addr_mask (x86_mmu arch) pte k = Some base"
    and aligned: "unat base mod 2 ^ step_bits (x86_mmu arch) k = 0"
    and page: "unat v mod 2 ^ step_bits (x86_mmu arch) k + i < 2 ^ step_bits (x86_mmu arch) k"
    and pa: "get_phys_page (x86_mmu arch) pte v k = Some pa"
  shows "\<exists>pa'. get_phys_page (x86_mmu arch) pte (v + of_nat i) k = Some pa' \<and>
     pa_address pa' = pa_address pa + of_nat i"
proof -
  let ?n = "step_bits (x86_mmu arch) k"
  have n: "?n \<le> 30" and off: "\<And>w. virt_addr_to_page_offset (x86_mmu arch) w k = Some (take_bit ?n w)"
    using x86_final_bits [OF arch final] by blast+
  have "(2::nat) ^ ?n \<le> 2 ^ 30" using n by (rule power_increasing) simp
  with page have i: "i < 18446744073709551616" by simp
  have "(2::nat) ^ ?n dvd 18446744073709551616"
    using step_size(3) .
  then have "unat (v + of_nat i) mod 2 ^ ?n = (unat v + i) mod 2 ^ ?n"
    using i by (simp add: unat_word_ariths unat_of_nat_64 mod_mod_cancel)
  also have "\<dots> = unat v mod 2 ^ ?n + i"
    using page by (metis mod_add_left_eq mod_less)
  finally have "unat (take_bit ?n (v + of_nat i)) = unat (take_bit ?n v) + i" by (simp add: unat_take_bit)
  also have "\<dots> = unat (take_bit ?n v + of_nat i)"
    using i page \<open>(2::nat) ^ ?n \<le> 2 ^ 30\<close> by (simp add: unat_add_nowrap unat_of_nat_64 unat_take_bit)
  finally have t: "take_bit ?n (v + of_nat i) = take_bit ?n v + of_nat i"
    by (simp add: word_unat_eq_iff)
  have add: "base OR take_bit ?n w = base + take_bit ?n w" for w
    by (rule or_aligned_add [OF aligned]) (simp add: unat_take_bit)
  have "base OR take_bit ?n (v + of_nat i) = base + take_bit ?n v + of_nat i"
    using add [of "v + of_nat i"] unfolding t by (simp only: add.assoc)
  then show ?thesis
    using pa by (auto simp: get_phys_page_def base off add [of v] page_size_step_def
        address_from_u64_def split: if_splits option.splits bind_splits)
qed

text \<open>A piece the walk soundness speaks of, byte by byte.\<close>

lemma piece_walks:
  assumes arch: "arch \<in> x86_archs"
    and page: "unat va mod 2 ^ step_bits (x86_mmu arch) k + n \<le> 2 ^ step_bits (x86_mmu arch) k"
    and pa: "get_phys_page (x86_mmu arch) pte va k = Some pa"
    and walk: "\<And>i. i < n \<Longrightarrow> walk (x86_mmu arch) content dtb (va + of_nat i) = Walk_Entry pte k"
    and aligned: "0 < n \<Longrightarrow> frame_aligned arch content dtb va"
    and i: "i < n"
  shows "walk_phys arch content dtb (va + of_nat i) = Some (pa_address pa + of_nat i)"
proof -
  have w: "walk (x86_mmu arch) content dtb va = Walk_Entry pte k" using walk [of 0] i by simp
  have f: "final_step (x86_mmu arch) k" using walk_entry_final [OF w] .
  obtain base where base: "pte_addr_mask (x86_mmu arch) pte k = Some base"
    "unat base mod 2 ^ step_bits (x86_mmu arch) k = 0"
    using aligned i w by (auto simp: frame_aligned_def split: option.splits)
  obtain pa' where "get_phys_page (x86_mmu arch) pte (va + of_nat i) k = Some pa'"
    "pa_address pa' = pa_address pa + of_nat i"
    using phys_page_moves [OF arch f base _ pa, of i] page i by auto
  then show ?thesis by (simp add: walk_phys_def walk [OF i])
qed

text \<open>A small frame is always aligned.\<close>

lemma small_frame_aligned:
  assumes "arch \<in> x86_archs" and "final_step (x86_mmu arch) k" and "step_bits (x86_mmu arch) k = 12"
    and "pte_addr_mask (x86_mmu arch) pte k = Some base"
  shows "unat base mod 2 ^ 12 = 0"
proof -
  have "take_bit 12 base = 0"
    using assms
    by (cases rule: final_steps)
      (auto simp: step_bits_def pte_addr_mask_def nth_opt_def x64_spec_def x32_spec_def x32_pae_spec_def
        as_u64_def bit_mask_u64_def shr64_def shl64_def and.assoc take_bit_and)
  then show ?thesis using unat_take_bit [of 12 base] by simp
qed

text \<open>
  One request through the batch walk, on the three x86 modes: it returns, every byte of the
  request comes back exactly once, translated or failed, and a translated piece is where
  the walk of each of its bytes says.
\<close>

definition walkable :: "x86_architecture \<Rightarrow> (u64 \<Rightarrow> u8 option) \<Rightarrow> address \<Rightarrow> address \<Rightarrow> nat \<Rightarrow> bool" where
  "walkable arch content dtb a n \<longleftrightarrow> 0 < n \<and> n \<le> virt_range (x86_mmu arch) \<and> unat a + n < 18446744073709551616 \<and>
     (\<forall>i < n. walk (x86_mmu arch) content dtb (a + of_nat i) \<noteq> Walk_Unmapped \<and>
        frame_aligned arch content dtb (a + of_nat i))"

definition piece_at ::
  "x86_architecture \<Rightarrow> (u64 \<Rightarrow> u8 option) \<Rightarrow> address \<Rightarrow> address \<Rightarrow> 'c list \<Rightarrow> phys_addr \<times> 'c list \<Rightarrow> bool" where
  "piece_at arch content dtb a cs p \<longleftrightarrow> (\<exists>k. k + length (snd p) \<le> length cs \<and>
     snd p = take (length (snd p)) (drop k cs) \<and> snd p \<noteq> [] \<and>
     (\<forall>i < length (snd p).
        walk_phys arch content dtb (a + of_nat (k + i)) = Some (pa_address (fst p) + of_nat i)))"

lemma addr_cells_mem:
  "(x, c) \<in> set (addr_cells a cs) \<longleftrightarrow> (\<exists>k < length cs. x = a + of_nat k \<and> c = cs ! k)"
  by (auto simp: in_set_conv_nth addr_cells_nth)

lemma unat_offset: "unat (a :: u64) + i < 18446744073709551616 \<Longrightarrow> unat (a + of_nat i) = unat a + i"
  by (simp add: unat_add_nowrap unat_of_nat_64)

text \<open>A piece whose cells are cells of the request, at their addresses, is a part of it.\<close>

lemma subset_piece:
  assumes "set (addr_cells va ps) \<subseteq> set (addr_cells a cs)" and "ps \<noteq> []"
    and "unat a + length cs < 18446744073709551616"
  shows "\<exists>k. k + length ps \<le> length cs \<and> ps = take (length ps) (drop k cs) \<and> va = a + of_nat k"
proof -
  have c: "\<exists>k < length cs. va + of_nat i = a + of_nat k \<and> ps ! i = cs ! k" if "i < length ps" for i
  proof -
    have "(va + of_nat i, ps ! i) \<in> set (addr_cells va ps)" using that unfolding addr_cells_mem by blast
    with assms(1) show ?thesis unfolding addr_cells_mem [symmetric] by blast
  qed
  from assms(2) have "0 < length ps" by simp
  from c [OF this] obtain k where k: "k < length cs" "va = a + of_nat k" by (elim exE conjE) simp
  have u: "unat va = unat a + k" using k assms(3) by (simp add: unat_offset)
  have step: "k + i < length cs \<and> ps ! i = cs ! (k + i)" if i: "i < length ps" "unat va + i < 18446744073709551616" for i
  proof -
    obtain k' where k': "k' < length cs" "va + of_nat i = a + of_nat k'" "ps ! i = cs ! k'"
      using c [OF i(1)] by blast
    have "unat va + i = unat (va + of_nat i)" using i(2) by (simp only: unat_offset)
    also have "\<dots> = unat a + k'" unfolding k'(2) using k'(1) assms(3) by (intro unat_offset) simp
    finally have "k' = k + i" using u by simp
    with k' show ?thesis by simp
  qed
  have "k + i < length cs \<and> ps ! i = cs ! (k + i)" if "i < length ps" for i
    using that
  proof (induction i)
    case 0
    then show ?case using step [of 0] by simp
  next
    case (Suc i)
    then have "unat va + Suc i < 18446744073709551616" using u assms(3) by simp
    with Suc.prems show ?case by (rule step)
  qed
  then have all: "\<forall>i < length ps. k + i < length cs \<and> ps ! i = cs ! (k + i)" by blast
  then have "k + length ps \<le> length cs"
    using all [rule_format, of "length ps - 1"] assms(2) by (cases ps) auto
  moreover from this have "ps = take (length ps) (drop k cs)"
    using all by (intro nth_equalityI) simp_all
  ultimately show ?thesis using k(2) by blast
qed

lemma request_pieces:
  assumes split: "split_index ops ok cells" and mem: "matching_memory pm mem_ok content"
    and m: "mem_ok m" and arch: "arch \<in> x86_archs"
    and b: "ok b" and walk: "walkable arch (content m) dtb a (length (cells b))"
  shows "\<exists>out fail m'. direct_virt_to_phys_iter cap ops tm pm m (xst_new arch dtb) [(a, b)] [] [] =
       Some (out, fail, m') \<and> mem_ok m' \<and> content m' = content m \<and>
     buf_cells cells (map snd out) + buf_cells cells (map (\<lambda>(_, _, b). b) fail) = mset (cells b) \<and>
     (\<forall>(pa, p) \<in> set out. piece_at arch (content m) dtb a (cells b) (pa, cells p))"
proof -
  let ?spec = "x86_mmu arch" and ?inv = "\<lambda>m'. mem_ok m' \<and> content m' = content m"
  have deep: "deep_spec ?spec" using arch x86_deep by (auto simp: x86_archs_def)
  then have n: "0 < split_count ?spec" by (simp add: deep_spec_def)
  have mem': "matching_memory pm ?inv content"
    by (rule matching_memory_fixed [OF mem])
  have mw: "mapped_walk ops ok cells pm ?inv content"
    using split mem' by (rule mapped_walk.intro)
  have bw: "batch_walk ops ok cells pm ?inv"
    using split by (rule batch_walk.intro) (rule matching_memory.memory_total [OF mem'])
  have req: "good_request ok cells ?spec (a, b)"
    using b walk by (simp add: good_request_def walkable_def)
  obtain out fail m' where run: "mmu_virt_to_phys_iter cap ops ?spec tm pm m dtb [(a, b)] [] [] = Some (out, fail, m')"
    "mem_ok m'" "content m' = content m"
    "buf_cells cells (map snd out) + buf_cells cells (map (\<lambda>(_, _, b). b) fail) = mset (cells b)"
    using batch_walk.virt_to_phys_iter_cells [OF bw n, of m "[(a, b)]" cap tm dtb "[]" "[]"] m req by auto
  have ne: "cells b \<noteq> []" and hi: "unat a + length (cells b) < 18446744073709551616"
    using walk by (auto simp: walkable_def)
  have near: "v = a + of_nat (unat v - unat a)" if "unat a \<le> unat v" for v
  proof -
    have "of_nat (unat v - unat a) = v - a" using that by (simp add: unat_sub_nowrap [symmetric])
    then show ?thesis by simp
  qed
  have range: "walk ?spec (content m) dtb v \<noteq> Walk_Unmapped \<and> frame_aligned arch (content m) dtb v"
    if v: "unat a \<le> unat v" "unat v < unat a + length (cells b)" for v
  proof -
    have "unat v - unat a < length (cells b)" using v by linarith
    then show ?thesis using walk near [OF v(1)] unfolding walkable_def by metis
  qed
  have sound: "\<forall>x \<in> set out. sound_out ?spec cells (content m) dtb (set (addr_cells a (cells b))) x"
    by (rule mapped_walk.virt_to_phys_sound [OF mw deep _ req ne _ run(1)]) (use m range in auto)
  have "piece_at arch (content m) dtb a (cells b) (pa, cells p)" if out: "(pa, p) \<in> set out" for pa p
  proof -
    obtain va pte k where k: "cells p \<noteq> []" "set (addr_cells va (cells p)) \<subseteq> set (addr_cells a (cells b))"
      "unat va mod 2 ^ step_bits ?spec k + length (cells p) \<le> 2 ^ step_bits ?spec k"
      "get_phys_page ?spec pte va k = Some pa"
      "\<And>v. unat va \<le> unat v \<Longrightarrow> unat v < unat va + length (cells p) \<Longrightarrow>
         walk ?spec (content m) dtb v = Walk_Entry pte k"
      using bspec [OF sound out] by (auto simp: sound_out_def)
    obtain j where j: "j + length (cells p) \<le> length (cells b)"
      "cells p = take (length (cells p)) (drop j (cells b))" "va = a + of_nat j"
      using subset_piece [OF k(2,1) hi] by blast
    have u: "unat (va + of_nat i) = unat a + j + i" if "i < length (cells p)" for i
      using that j(1) hi unfolding j(3) by (simp add: unat_offset)
    have va: "unat va = unat a + j" using u [of 0] k(1) by simp
    have "walk_phys arch (content m) dtb (va + of_nat i) = Some (pa_address pa + of_nat i)"
      if i: "i < length (cells p)" for i
    proof (rule piece_walks [OF arch k(3,4) _ _ i])
      fix i' assume "i' < length (cells p)"
      then show "walk ?spec (content m) dtb (va + of_nat i') = Walk_Entry pte k"
        by (intro k(5)) (simp_all add: u va)
    next
      show "frame_aligned arch (content m) dtb va"
        using range [of va] va j(1) k(1) by (cases "cells p") auto
    qed
    then show ?thesis
      using j k(1) unfolding piece_at_def by (auto simp: algebra_simps intro!: exI [of _ j])
  qed
  with run show ?thesis
    by (intro exI [of _ out] exI [of _ fail] exI [of _ m'])
      (auto simp: direct_virt_to_phys_iter_def scoped_virt_to_phys_iter_def xst_new_def)
qed

section \<open>An example\<close>

lemma example_entries:
  "walk (x86_mmu x64_spec) (example_tables 0xB0) 0x1000 0x1000 = Walk_Entry 0x9003 4"
  "walk (x86_mmu x64_spec) (example_tables 0xB0) 0x1000 0x2000 = Walk_Entry 0xB003 4"
  by code_simp+

lemma example_walkable:
  assumes "0 < n" and "n \<le> 0x2000"
  shows "walkable x64_spec (example_tables 0xB0) 0x1000 0x1000 n"
proof -
  have "frame_aligned x64_spec (example_tables 0xB0) 0x1000 (0x1000 + of_nat i)" if i: "i < n" for i
  proof -
    have u: "unat (0x1000 + of_nat i :: u64) = 0x1000 + i"
      using i assms(2) by (simp add: unat_offset)
    define v :: u64 where "v = 0x1000 + of_nat i"
    have "page_align v 0x1000 = 0x1000 \<or> page_align v 0x1000 = 0x2000"
    proof -
      have "unat (page_align v 0x1000) = (0x1000 + i) div 0x1000 * 0x1000"
        by (simp add: unat_page_align v_def u)
      moreover have "(0x1000 + i) div 0x1000 = 1 \<or> (0x1000 + i) div 0x1000 = 2"
        using i assms(2) by auto
      ultimately show ?thesis by (auto simp: word_unat_eq_iff)
    qed
    then have "walk (x86_mmu x64_spec) (example_tables 0xB0) 0x1000 v \<in> {Walk_Entry 0x9003 4, Walk_Entry 0xB003 4}"
    proof
      assume "page_align v 0x1000 = 0x1000"
      then have "page_align v 0x1000 = page_align 0x1000 0x1000" by (simp add: page_align_def)
      from walk_same_page [OF _ this, of x64_spec] show ?thesis by (simp add: x86_archs_def example_entries)
    next
      assume "page_align v 0x1000 = 0x2000"
      then have "page_align v 0x1000 = page_align 0x2000 0x1000" by (simp add: page_align_def)
      from walk_same_page [OF _ this, of x64_spec] show ?thesis by (simp add: x86_archs_def example_entries)
    qed
    moreover have "pte_addr_mask (x86_mmu x64_spec) 0x9003 4 = Some 0x9000"
      "pte_addr_mask (x86_mmu x64_spec) 0xB003 4 = Some 0xB000" "step_bits (x86_mmu x64_spec) 4 = 12"
      by code_simp+
    ultimately show ?thesis unfolding v_def [symmetric] by (auto simp: frame_aligned_def)
  qed
  then show ?thesis
    using assms example_mapped by (simp add: walkable_def x86_virt_range)
qed

end
