(* ===== verification/Virtual_Dma.thy ===== *)
theory Virtual_Dma
  imports Virt_Mem Walk_Pieces Buf_Store
begin

text \<open>
  \<open>VirtualDMA\<close> of \<open>memflow/src/mem/virt_mem/virtual_dma.rs\<close>: virtual memory from a physical
  memory and a translator. The translator is a parameter, a record of the instances of its
  generic \<open>virt_to_phys_iter\<close> that the code uses. \<open>coalesce\<close> of the package \<open>itertools\<close>
  is a parameter too. The lemmas show that a read of one buffer returns the bytes the page
  walk leads to; what the two memory maps list is in \<open>Memory_Maps\<close>.
\<close>

section \<open>State\<close>

record ('w, 'm, 'd) vat_ops =
  va_mut :: "'d \<Rightarrow> ('w, 'm, mut_slice) vat_iter"
  va_slice :: "'d \<Rightarrow> ('w, 'm, u8 list) vat_iter"
  va_range :: "'d \<Rightarrow> ('w, 'm, address \<times> usize) vat_iter"
  va_one :: "'d \<Rightarrow> 'w \<Rightarrow> 'm \<Rightarrow> address \<Rightarrow> (phys_addr result \<times> 'w \<times> 'm) option"

record ('m, 'w, 'd) virtual_dma =
  vd_phys_mem :: 'm
  vd_vat :: 'w
  vd_proc_arch :: x86_architecture
  vd_translator :: 'd

definition vd_with_vat :: "'m \<Rightarrow> x86_architecture \<Rightarrow> 'd \<Rightarrow> 'w \<Rightarrow> ('m, 'w, 'd) virtual_dma" where
  "vd_with_vat phys_mem proc_arch translator vat =
     \<lparr>vd_phys_mem = phys_mem, vd_vat = vat, vd_proc_arch = proc_arch, vd_translator = translator\<rparr>"

text \<open>\<open>DirectTranslate\<close> has no state of its own.\<close>

definition vd_new :: "'m \<Rightarrow> x86_architecture \<Rightarrow> 'd \<Rightarrow> ('m, unit, 'd) virtual_dma" where
  "vd_new phys_mem proc_arch translator =
     \<lparr>vd_phys_mem = phys_mem, vd_vat = (), vd_proc_arch = proc_arch, vd_translator = translator\<rparr>"

definition vd_get_translator :: "('m, 'w, 'd) virtual_dma \<Rightarrow> 'd" where
  "vd_get_translator self = vd_translator self"

definition vd_get_proc_arch :: "('m, 'w, 'd) virtual_dma \<Rightarrow> x86_architecture" where
  "vd_get_proc_arch self = vd_proc_arch self"

definition vd_sys_arch :: "('m, 'w, x86_scoped_translate) virtual_dma \<Rightarrow> x86_architecture" where
  "vd_sys_arch self = xst_arch (vd_translator self)"

definition vd_destroy :: "('m, 'w, 'd) virtual_dma \<Rightarrow> 'm" where
  "vd_destroy self = vd_phys_mem self"

definition vd_clone :: "('m, 'w, 'd) virtual_dma \<Rightarrow> ('m, 'w, 'd) virtual_dma" where
  "vd_clone self = \<lparr>vd_phys_mem = vd_phys_mem self, vd_vat = vd_vat self,
     vd_proc_arch = vd_proc_arch self, vd_translator = vd_translator self\<rparr>"

section \<open>Reads and writes\<close>

text \<open>What the closure for failures does to the buffers.\<close>

definition zero_slice :: "mut_slice \<Rightarrow> u8 list list \<Rightarrow> u8 list list option" where
  "zero_slice out store = copy_from_slice out (replicate (unat (ms_len out)) 0) store"

fun zero_failures :: "mut_slice failure list \<Rightarrow> u8 list list \<Rightarrow> u8 list list option" where
  "zero_failures [] store = Some store"
| "zero_failures ((_, _, out) # fs) store = do {
     store \<leftarrow> zero_slice out store;
     zero_failures fs store
   }"

definition vd_read_raw_list ::
  "('w, 'm, 'd) vat_ops \<Rightarrow> 'm phys_mem \<Rightarrow> ('m, 'w, 'd) virtual_dma \<Rightarrow> virt_read_data list
     \<Rightarrow> (unit partial_result \<times> u8 list list \<times> ('m, 'w, 'd) virtual_dma) option" where
  "vd_read_raw_list vat pm self data = do {
     (translation, fails, w, m) \<leftarrow>
       va_mut vat (vd_translator self) (vd_vat self) (vd_phys_mem self) (read_slices data) [] [];
     let partial_read = (fails \<noteq> []);
     store \<leftarrow> zero_failures fails (map snd data);
     (r, bufs, m) \<leftarrow> pm_read_raw_list pm m (map (\<lambda>(a, b). (a, slice_bytes b store)) translation);
     store \<leftarrow> write_back (map snd translation) bufs store;
     Some (case r of
         Inl e \<Rightarrow> Inl (partial_from_error e)
       | Inr _ \<Rightarrow> (if \<not> partial_read then Inr () else Inl (PartialVirtualRead ())),
       store, self\<lparr>vd_vat := w, vd_phys_mem := m\<rparr>)
   }"

definition vd_write_raw_list ::
  "('w, 'm, 'd) vat_ops \<Rightarrow> 'm phys_mem \<Rightarrow> ('m, 'w, 'd) virtual_dma \<Rightarrow> virt_write_data list
     \<Rightarrow> (unit partial_result \<times> ('m, 'w, 'd) virtual_dma) option" where
  "vd_write_raw_list vat pm self data = do {
     (translation, fails, w, m) \<leftarrow>
       va_slice vat (vd_translator self) (vd_vat self) (vd_phys_mem self) data [] [];
     let partial_read = (fails \<noteq> []);
     (r, m) \<leftarrow> pm_write_raw_list pm m translation;
     Some (case r of
         Inl e \<Rightarrow> Inl (partial_from_error e)
       | Inr _ \<Rightarrow> (if \<not> partial_read then Inr () else Inl (PartialVirtualRead ())),
       self\<lparr>vd_vat := w, vd_phys_mem := m\<rparr>)
   }"

definition vd_page_info ::
  "('w, 'm, 'd) vat_ops \<Rightarrow> ('m, 'w, 'd) virtual_dma \<Rightarrow> address
     \<Rightarrow> (page result \<times> ('m, 'w, 'd) virtual_dma) option" where
  "vd_page_info vat self addr = do {
     (r, w, m) \<leftarrow> va_one vat (vd_translator self) (vd_vat self) (vd_phys_mem self) addr;
     let self = self\<lparr>vd_vat := w, vd_phys_mem := m\<rparr>;
     (case r of
        Inl e \<Rightarrow> Some (Inl e, self)
      | Inr paddr \<Rightarrow> do {
          p \<leftarrow> pa_containing_page paddr;
          Some (Inr p, self)
        })
   }"

section \<open>Memory maps\<close>

text \<open>
  \<open>coalesce\<close>: the closure gets the previous and the next item and returns the merged item,
  or both when they do not merge; then the first is emitted and the second is carried on.
\<close>

type_synonym 'i coalesce = "('i \<Rightarrow> 'i \<Rightarrow> 'i + 'i \<times> 'i) \<Rightarrow> 'i list \<Rightarrow> 'i list"

definition coalesces :: "'i coalesce \<Rightarrow> bool" where
  "coalesces co \<longleftrightarrow> (\<forall>f. co f [] = [] \<and> (\<forall>x. co f [x] = [x]) \<and>
     (\<forall>x y zs. co f (x # y # zs) =
        (case f x y of Inl c \<Rightarrow> co f (c # zs) | Inr (p, n) \<Rightarrow> p # co f (n # zs))))"

definition merge_translation ::
  "phys_addr \<times> address \<times> usize \<Rightarrow> phys_addr \<times> address \<times> usize
     \<Rightarrow> phys_addr \<times> address \<times> usize + (phys_addr \<times> address \<times> usize) \<times> (phys_addr \<times> address \<times> usize)" where
  "merge_translation = (\<lambda>(ap, av) (bp, bv).
     if fst bv = address_add (fst av) (snd av) \<and>
        pa_address bp = address_add (pa_address ap) (snd av)
     then Inl (ap, fst av, address_sub_addr (address_add (fst bv) (snd bv)) (fst av))
     else Inr ((ap, av), (bp, bv)))"

definition merge_pages ::
  "usize \<Rightarrow> address \<times> usize \<Rightarrow> address \<times> usize
     \<Rightarrow> address \<times> usize + (address \<times> usize) \<times> (address \<times> usize)" where
  "merge_pages gap_length a b =
     (if address_sub_addr (fst b) (address_add (fst a) (snd a)) \<le> gap_length
      then Inl (fst a, address_sub_addr (address_add (fst b) (snd b)) (fst a))
      else Inr (a, b))"

definition vd_translation_map_range ::
  "('w, 'm, 'd) vat_ops \<Rightarrow> (phys_addr \<times> address \<times> usize) coalesce \<Rightarrow> ('m, 'w, 'd) virtual_dma
     \<Rightarrow> address \<Rightarrow> address
     \<Rightarrow> ((address \<times> usize \<times> phys_addr) list \<times> ('m, 'w, 'd) virtual_dma) option" where
  "vd_translation_map_range vat co self start end = do {
     (out, _, w, m) \<leftarrow>
       va_range vat (vd_translator self) (vd_vat self) (vd_phys_mem self)
         [(start, (start, address_sub_addr end start))] [] [];
     let out = sort_key (\<lambda>(_, (a, _)). a) out;
     Some (map (\<lambda>(p, (v, s)). (v, s, p)) (co merge_translation out),
       self\<lparr>vd_vat := w, vd_phys_mem := m\<rparr>)
   }"

definition vd_page_map_range ::
  "('w, 'm, 'd) vat_ops \<Rightarrow> (address \<times> usize) coalesce \<Rightarrow> ('m, 'w, 'd) virtual_dma
     \<Rightarrow> usize \<Rightarrow> address \<Rightarrow> address
     \<Rightarrow> ((address \<times> usize) list \<times> ('m, 'w, 'd) virtual_dma) option" where
  "vd_page_map_range vat co self gap_length start end = do {
     (out, _, w, m) \<leftarrow>
       va_range vat (vd_translator self) (vd_vat self) (vd_phys_mem self)
         [(start, (start, address_sub_addr end start))] [] [];
     let out = sort_key (\<lambda>(_, (a, _)). a) out;
     Some (co (merge_pages gap_length) (map (\<lambda>(_, a). a) out),
       self\<lparr>vd_vat := w, vd_phys_mem := m\<rparr>)
   }"

section \<open>The provider\<close>

definition virtual_dma_mem ::
  "('w, 'm, 'd) vat_ops \<Rightarrow> 'm phys_mem \<Rightarrow> (phys_addr \<times> address \<times> usize) coalesce
     \<Rightarrow> (address \<times> usize) coalesce \<Rightarrow> ('m, 'w, 'd) virtual_dma virt_mem" where
  "virtual_dma_mem vat pm cot cop = \<lparr>
     vm_read_raw_list = vd_read_raw_list vat pm,
     vm_write_raw_list = vd_write_raw_list vat pm,
     vm_page_info = vd_page_info vat,
     vm_translation_map_range = vd_translation_map_range vat cot,
     vm_page_map_range = vd_page_map_range vat cop\<rparr>"

text \<open>\<open>virt_read_addr\<close> of the struct itself, with the pointer size of the process.\<close>

definition vd_read_addr ::
  "('m, 'w, 'd) virtual_dma virt_mem \<Rightarrow> u8 list \<Rightarrow> ('m, 'w, 'd) virtual_dma \<Rightarrow> address
     \<Rightarrow> (address partial_result \<times> ('m, 'w, 'd) virtual_dma) option" where
  "vd_read_addr vm uninit self addr =
     (if arch_bits (vd_proc_arch self) = 64 then virt_read_addr64 vm self uninit addr
      else if arch_bits (vd_proc_arch self) = 32 then virt_read_addr32 vm self uninit addr
      else Some (Inl (HardError InvalidArchitecture), self))"

text \<open>\<open>DirectTranslate\<close>, without a cache.\<close>

definition direct_ops ::
  "(mut_slice translation_chunk \<Rightarrow> nat) \<Rightarrow> (u8 list translation_chunk \<Rightarrow> nat)
     \<Rightarrow> ((address \<times> usize) translation_chunk \<Rightarrow> nat) \<Rightarrow> (usize translation_chunk \<Rightarrow> nat)
     \<Rightarrow> 's tree_map \<Rightarrow> 'm phys_mem \<Rightarrow> (unit, 'm, x86_scoped_translate) vat_ops" where
  "direct_ops capm caps capr capo tm pm = \<lparr>
     va_mut = direct_vat capm mut_slice_ops tm pm,
     va_slice = direct_vat caps slice_ops tm pm,
     va_range = direct_vat capr (pair_ops usize_ops) tm pm,
     va_one = (\<lambda>t w m a. map_option (\<lambda>(r, m). (r, (), m)) (direct_virt_to_phys capo tm pm m t a))\<rparr>"

section \<open>A read of one buffer\<close>

definition virt_byte :: "x86_architecture \<Rightarrow> (u64 \<Rightarrow> u8 option) \<Rightarrow> address \<Rightarrow> address \<Rightarrow> u8 option" where
  "virt_byte arch content dtb x = Option.bind (walk_phys arch content dtb x) content"

text \<open>
  A byte that is read at a virtual address: the walk leads to a physical address, and when
  the memory has a byte there it is this one. Nothing is said of a frame without memory.
\<close>

definition virt_holds ::
  "x86_architecture \<Rightarrow> (u64 \<Rightarrow> u8 option) \<Rightarrow> address \<Rightarrow> address \<Rightarrow> u8 \<Rightarrow> bool" where
  "virt_holds arch content dtb x b \<longleftrightarrow> (\<exists>pa. walk_phys arch content dtb x = Some pa \<and>
     (\<forall>v. content pa = Some v \<longrightarrow> b = v))"

text \<open>A range the batch walk takes, and whose frames are mapped.\<close>

definition readable_range ::
  "x86_architecture \<Rightarrow> (u64 \<Rightarrow> u8 option) \<Rightarrow> address \<Rightarrow> address \<Rightarrow> nat \<Rightarrow> bool" where
  "readable_range arch content dtb a n \<longleftrightarrow> walkable arch content dtb a n \<and>
     (\<forall>i < n. \<forall>pa. walk_phys arch content dtb (a + of_nat i) = Some pa \<longrightarrow> content pa \<noteq> None)"

lemma readable_holds:
  assumes "readable_range arch C dtb a n" and "j < n" and "virt_holds arch C dtb (a + of_nat j) b"
  shows "virt_byte arch C dtb (a + of_nat j) = Some b"
proof -
  obtain pa where pa: "walk_phys arch C dtb (a + of_nat j) = Some pa" "\<forall>v. C pa = Some v \<longrightarrow> b = v"
    using assms(3) by (auto simp: virt_holds_def)
  moreover from this(1) have "C pa \<noteq> None" using assms(1,2) unfolding readable_range_def by blast
  ultimately show ?thesis by (auto simp: virt_byte_def)
qed

lemma x86_range_bound: "arch \<in> x86_archs \<Longrightarrow> virt_range (x86_mmu arch) \<le> 2 ^ 47"
  by (auto simp: x86_archs_def x86_virt_range)

lemma walk_phys_bound:
  assumes "arch \<in> x86_archs" and "walk_phys arch content dtb v = Some pa"
  shows "unat pa < 2 ^ 52"
proof -
  obtain pte k where w: "walk (x86_mmu arch) content dtb v = Walk_Entry pte k"
    "map_option pa_address (get_phys_page (x86_mmu arch) pte v k) = Some pa"
    using assms(2) by (auto simp: walk_phys_def split: walk_result.splits)
  obtain c m j where s: "\<And>v. get_phys_page (x86_mmu arch) pte v k =
       Some (pa_with_page ((pte AND c) OR (v AND m))
         (pt_noexec (pt_write page_type_default (bit_at pte (writeable_bit (x86_mmu arch))))
           (bit_at pte (nx_bit (x86_mmu arch)))) (2 ^ j))"
    "c AND 0xFFF = 0" "c \<le> 0xFFFFFFFFFFFFF" "m AND 0xFFF = 0xFFF" "m \<le> 0xFFFFFFFFFFFFF"
    using phys_page_shape [OF assms(1) walk_entry_final [OF w(1)]] by blast
  then have "pa = (pte AND c) OR (v AND m)" using w(2) by simp
  then show ?thesis using shape_paged(3) [OF s(2-5)] by simp
qed

lemma buf_cells_concat: "buf_cells cells bs = mset (concat (map cells bs))"
  by (induction bs) (simp_all add: buf_cells_def)

lemma zero_failures_cells:
  assumes "\<forall>f \<in> set fails. \<forall>c \<in> set (mut_slice_cells (snd (snd f))). cell_ok (map length st) c"
  shows "zero_failures fails st =
     Some (foldl set_cell st (map (Pair 0) (concat (map (\<lambda>f. mut_slice_cells (snd (snd f))) fails))))"
  using assms
proof (induction fails arbitrary: st)
  case (Cons f fails)
  obtain e a s where f: "f = (e, a, s)" by (cases f)
  have "zero_slice s st = Some (foldl set_cell st (zip (replicate (unat (ms_len s)) 0) (mut_slice_cells s)))"
    using Cons.prems unfolding zero_slice_def f
    by (intro copy_from_slice_cells) (simp_all add: length_mut_slice_cells)
  also have "zip (replicate (unat (ms_len s)) 0) (mut_slice_cells s) = map (Pair 0) (mut_slice_cells s)"
    by (simp add: zip_replicate1 length_mut_slice_cells)
  finally have z: "zero_slice s st = Some (foldl set_cell st (map (Pair 0) (mut_slice_cells s)))" .
  have "zero_failures fails (foldl set_cell st (map (Pair 0) (mut_slice_cells s))) =
      Some (foldl set_cell (foldl set_cell st (map (Pair 0) (mut_slice_cells s)))
        (map (Pair 0) (concat (map (\<lambda>f. mut_slice_cells (snd (snd f))) fails))))"
    using Cons.prems by (intro Cons.IH) (simp add: set_cells_shape)
  then show ?case by (simp add: f z)
qed simp

text \<open>The slice over the one buffer, and what the translation makes of it.\<close>

lemma one_slice:
  assumes "length buf < 9223372036854775808"
  defines "s \<equiv> \<lparr>ms_alloc = 0, ms_ptr = 0, ms_len = len_usize buf\<rparr>"
  shows "read_slices [(a, buf)] = [(a, s)]" and "mut_slice_ok s"
    and "mut_slice_cells s = map (Pair 0) [0..<length buf]"
  using assms by (simp_all add: read_slices_def mut_slice_ok_def mut_slice_cells_def len_usize_def unat_of_nat_64)

lemma piece_bytes:
  assumes arch: "arch \<in> x86_archs" and n: "n \<le> 2 ^ 47"
    and piece: "piece_at arch C dtb a (map (Pair 0) [0..<n]) (pa, cs)" and i: "i < length cs"
  shows "\<exists>j < n. cs ! i = (0, j) \<and> walk_phys arch C dtb (a + of_nat j) = Some (pa_address pa + of_nat i) \<and>
     unat (pa_address pa) + i < 18446744073709551616 \<and> length cs \<le> n"
proof -
  obtain k where k: "k + length cs \<le> n" "cs = take (length cs) (drop k (map (Pair 0) [0..<n]))"
    "\<And>i. i < length cs \<Longrightarrow> walk_phys arch C dtb (a + of_nat (k + i)) = Some (pa_address pa + of_nat i)"
    using piece by (auto simp: piece_at_def)
  have "cs ! i = take (length cs) (drop k (map (Pair 0) [0..<n])) ! i" using k(2) by simp
  also have "\<dots> = (0, k + i)" using i k(1) by simp
  finally have c: "cs ! i = (0, k + i)" .
  have "0 < length cs" using i by (rule le_less_trans [OF le0])
  then have "unat (pa_address pa) < 2 ^ 52"
    using walk_phys_bound [OF arch k(3) [of 0]] by simp
  moreover have "i < 2 ^ 47" using i k(1) n by linarith
  ultimately show ?thesis using c k(1,3) i by (intro exI [of _ "k + i"]) auto
qed

text \<open>
  Failed slices are zeroed, then the bytes of the translated slices are written back. When
  all cells are apart, each translated cell has its byte and each failed cell a zero.
\<close>

lemma scatter:
  fixes out :: "('a \<times> mut_slice) list" and st :: "u8 list list"
  defines "oc \<equiv> concat (map mut_slice_cells (map snd out))"
  assumes dist: "distinct (oc @ fc)" and ok: "\<And>c. c \<in> set oc \<union> set fc \<Longrightarrow> cell_ok (map length st) c"
    and len: "\<And>x. x \<in> set out \<Longrightarrow> length (f x) = unat (ms_len (snd x))"
  shows "\<exists>st'. write_back (map snd out) (map f out) (foldl set_cell st (map (Pair 0) fc)) = Some st' \<and>
     map length st' = map length st \<and>
     (\<forall>x \<in> set out. \<forall>i < unat (ms_len (snd x)). cell_at st' (mut_slice_cells (snd x) ! i) = f x ! i) \<and>
     (\<forall>c \<in> set fc. cell_at st' c = 0)"
proof -
  let ?st1 = "foldl set_cell st (map (Pair 0) fc)" and ?ws = "slice_writes (map snd out) (map f out)"
  let ?st2 = "foldl set_cell ?st1 ?ws"
  have shape: "map length ?st1 = map length st" by (simp add: set_cells_shape)
  have l2: "list_all2 (\<lambda>s b. length b = unat (ms_len s)) (map snd out) (map f out)"
    using len by (auto simp: list_all2_conv_all_nth)
  have wsnd: "map snd ?ws = oc" unfolding oc_def by (rule slice_writes_snd [OF l2])
  have wdist: "distinct (map snd ?ws)" using dist unfolding wsnd by (simp only: distinct_append)
  have wok: "\<forall>x \<in> set ?ws. cell_ok (map length ?st1) (snd x)"
  proof
    fix x assume "x \<in> set ?ws"
    then have "snd x \<in> set (map snd ?ws)" by simp
    then show "cell_ok (map length ?st1) (snd x)" unfolding wsnd shape by (intro ok) simp
  qed
  have "write_back (map snd out) (map f out) ?st1 = Some ?st2"
    by (rule write_back_cells [OF l2]) (use ok oc_def shape in auto)
  moreover have "map length ?st2 = map length st" by (simp add: set_cells_shape)
  moreover have "cell_at ?st2 (mut_slice_cells (snd x) ! i) = f x ! i"
    if "x \<in> set out" "i < unat (ms_len (snd x))" for x i
    using slice_writes_mem [of x out f snd i] that len [OF that(1)]
    by (intro cell_at_written [OF wdist _ wok]) simp
  moreover have "cell_at ?st2 c = 0" if c: "c \<in> set fc" for c
  proof -
    have "set oc \<inter> set fc = {}" using dist by (simp only: distinct_append)
    then have "c \<notin> set (map snd ?ws)" using c unfolding wsnd by blast
    then have "c \<notin> snd ` set ?ws" by (simp only: set_map not_False_eq_True)
    then have "cell_at ?st2 c = cell_at ?st1 c" by (rule cell_at_others [OF wok])
    also have "\<dots> = 0"
      by (rule cell_at_written) (use dist c ok in \<open>auto simp: comp_def\<close>)
    finally show ?thesis .
  qed
  ultimately show ?thesis by blast
qed

lemma dma_read_run:
  assumes mem: "matching_memory pm mem_ok content" and m: "mem_ok (vd_phys_mem self)"
    and arch: "arch \<in> x86_archs" and tr: "vd_translator self = xst_new arch dtb"
    and ran: "walkable arch (content (vd_phys_mem self)) dtb a (length buf)"
  shows "\<exists>out fail m1 buf' m'.
     direct_virt_to_phys_iter capm mut_slice_ops tm pm (vd_phys_mem self) (xst_new arch dtb)
       [(a, \<lparr>ms_alloc = 0, ms_ptr = 0, ms_len = len_usize buf\<rparr>)] [] [] = Some (out, fail, m1) \<and>
     vd_read_raw_list (direct_ops capm caps capr capo tm pm) pm self [(a, buf)] =
       Some (if fail = [] then Inr () else Inl (PartialVirtualRead ()), [buf'], self\<lparr>vd_phys_mem := m'\<rparr>) \<and>
     mem_ok m' \<and> content m' = content (vd_phys_mem self) \<and> length buf' = length buf \<and>
     (\<forall>j < length buf.
        virt_holds arch (content (vd_phys_mem self)) dtb (a + of_nat j) (buf' ! j) \<or>
        fail \<noteq> [] \<and> buf' ! j = 0)"
proof -
  let ?m = "vd_phys_mem self" and ?n = "length buf"
  let ?C = "content ?m"
  let ?s = "\<lparr>ms_alloc = 0, ms_ptr = 0, ms_len = len_usize buf\<rparr>"
  have n: "?n \<le> 2 ^ 47" using ran x86_range_bound [OF arch] by (simp add: walkable_def)
  then have n63: "?n < 9223372036854775808" by simp
  note s = one_slice [OF n63]
  have walk': "walkable arch ?C dtb a (length (mut_slice_cells ?s))"
    using ran by (simp add: s(3))
  obtain out fail m1 where t: "direct_virt_to_phys_iter capm mut_slice_ops tm pm ?m (xst_new arch dtb) [(a, ?s)] [] []
      = Some (out, fail, m1)" "mem_ok m1" "content m1 = ?C"
    "buf_cells mut_slice_cells (map snd out) + buf_cells mut_slice_cells (map (\<lambda>(_, _, b). b) fail) =
      mset (mut_slice_cells ?s)"
    "\<forall>(pa, p) \<in> set out. piece_at arch ?C dtb a (mut_slice_cells ?s) (pa, mut_slice_cells p)"
    using request_pieces [OF mut_slice_split.split_index_axioms mem m arch s(2) walk'] by blast
  let ?oc = "concat (map mut_slice_cells (map snd out))"
  let ?fc = "concat (map (\<lambda>f. mut_slice_cells (snd (snd f))) fail)"
  have f3: "map mut_slice_cells (map (\<lambda>(_, _, b). b) fail) = map (\<lambda>f. mut_slice_cells (snd (snd f))) fail"
    by (induction fail) auto
  have ms: "mset (?oc @ ?fc) = mset (map (Pair (0::nat)) [0..<?n])"
    using t(4) by (simp only: buf_cells_concat f3 mset_append s(3))
  have dist: "distinct (?oc @ ?fc)"
    using mset_eq_imp_distinct_iff [OF ms] by (simp add: distinct_map inj_on_def)
  have cells: "set ?oc \<union> set ?fc = Pair 0 ` {0..<?n}"
    using mset_eq_setD [OF ms] by simp
  let ?st0 = "[buf]" and ?st1 = "foldl set_cell [buf] (map (Pair 0) ?fc)"
  have okc: "cell_ok [?n] c" if "c \<in> set ?oc \<union> set ?fc" for c
    using that unfolding cells by (auto simp: cell_ok_def)
  have shape1: "map length ?st1 = [?n]" by (simp add: set_cells_shape)
  have zero: "zero_failures fail [buf] = Some ?st1"
    by (rule zero_failures_cells) (use okc in auto)
  have sl: "\<forall>c \<in> set (mut_slice_cells (snd x)). cell_ok (map length ?st1) c" if "x \<in> set out" for x
    using okc that unfolding shape1 by auto
  have len: "length (slice_bytes (snd x) ?st1) = unat (ms_len (snd x))" if "x \<in> set out" for x
    using slice_bytes_length [OF sl [OF that]] .
  have small: "unat (ms_len (snd x)) \<le> ?n" if "x \<in> set out" for x
    using t(5) that s(3) by (auto simp: piece_at_def length_mut_slice_cells)
  have "bufs_ok (map (\<lambda>(a, b). (a, slice_bytes b ?st1)) out)"
    using small len n63 by (fastforce simp: bufs_ok_def)
  from matching_memory.read_matches [OF mem t(2) this] obtain bs m2 where m2:
    "pm_read_raw_list pm m1 (map (\<lambda>(a, b). (a, slice_bytes b ?st1)) out) = Some (Inr (), bs, m2)"
    "mem_ok m2" "content m2 = ?C"
    and match: "reads_match ?C (map (\<lambda>(a, b). (a, slice_bytes b ?st1)) out) bs"
    by (auto simp: t(3))
  let ?ps = "zip bs (map snd out)"
  have lb: "length bs = length out" using reads_match_nth(1) [OF match] by simp
  then have ps: "map snd ?ps = map snd out" "map fst ?ps = bs" by simp_all
  have got: "length (bs ! k) = unat (ms_len (snd (out ! k))) \<and> src_matches ?C (pa_as_u64 (fst (out ! k))) (bs ! k)"
    if "k < length out" for k
    using that reads_match_nth(3) [OF match, of k] len [of "out ! k"] by (simp add: case_prod_unfold)
  have lf: "length (fst x) = unat (ms_len (snd x))" if "x \<in> set ?ps" for x
    using that got by (auto simp: set_zip)
  obtain st2 where st2: "write_back (map snd out) bs ?st1 = Some st2"
    "map length st2 = [?n]"
    "\<forall>x \<in> set ?ps. \<forall>i < unat (ms_len (snd x)). cell_at st2 (mut_slice_cells (snd x) ! i) = fst x ! i"
    "\<forall>c \<in> set ?fc. cell_at st2 c = 0"
    using scatter [where f = fst and out = ?ps and st = "[buf]", unfolded ps, OF dist _ lf] okc by auto
  then obtain buf' where buf': "st2 = [buf']" "length buf' = ?n" by auto
  have vbyte: "virt_holds arch ?C dtb (a + of_nat j) (buf' ! j)" if j: "(0, j) \<in> set ?oc" for j
  proof -
    obtain pa p where p: "(pa, p) \<in> set out" "(0, j) \<in> set (mut_slice_cells p)"
      using j by auto
    then obtain i where i: "i < unat (ms_len p)" "mut_slice_cells p ! i = (0, j)"
      by (auto simp: in_set_conv_nth length_mut_slice_cells)
    have pc: "piece_at arch ?C dtb a (map (Pair 0) [0..<?n]) (pa, mut_slice_cells p)"
      using t(5) p(1) unfolding s(3) by blast
    have "i < length (mut_slice_cells p)" using i(1) by (simp add: length_mut_slice_cells)
    from piece_bytes [OF arch n pc this] i(2)
    have w: "walk_phys arch ?C dtb (a + of_nat j) = Some (pa_address pa + of_nat i)" "j < ?n"
      "unat (pa_address pa) + i < 18446744073709551616"
      by auto
    obtain k where k: "k < length out" "out ! k = (pa, p)" using p(1) by (auto simp: in_set_conv_nth)
    then have "(bs ! k, p) \<in> set ?ps" using lb by (auto simp: set_zip)
    then have "cell_at st2 (0, j) = bs ! k ! i" using st2(3) i by force
    moreover have "bs ! k ! i = v" if "?C (pa_address pa + of_nat i) = Some v" for v
      using i(1) got [OF k(1)] w(3) that
      by (simp add: src_matches_def k(2) byte_at_unat pa_as_u64_def as_u64_def)
    ultimately show ?thesis by (simp add: buf'(1) cell_at_def virt_holds_def w(1))
  qed
  have none: "buf' ! j = 0" if "(0, j) \<in> set ?fc" for j
    using st2(4) that by (force simp: buf'(1) cell_at_def)
  have either: "(0, j) \<in> set ?oc \<or> (0, j) \<in> set ?fc" if "j < ?n" for j
    using that cells by (metis Un_iff atLeastLessThan_iff imageI le0)
  have run: "vd_read_raw_list (direct_ops capm caps capr capo tm pm) pm self [(a, buf)] =
      Some (if fail = [] then Inr () else Inl (PartialVirtualRead ()), [buf'], self\<lparr>vd_phys_mem := m2\<rparr>)"
    using st2(1) buf'(1) by (simp add: vd_read_raw_list_def direct_ops_def tr s(1) direct_vat_def t(1) zero m2(1))
  have "virt_holds arch ?C dtb (a + of_nat j) (buf' ! j) \<or> fail \<noteq> [] \<and> buf' ! j = 0" if "j < ?n" for j
    using either [OF that] vbyte none by (cases "fail = []") auto
  with t(1) run m2(2,3) buf'(2) show ?thesis by blast
qed

lemma dma_read_one:
  assumes mem: "matching_memory pm mem_ok content" and m: "mem_ok (vd_phys_mem self)"
    and arch: "arch \<in> x86_archs" and tr: "vd_translator self = xst_new arch dtb"
    and ran: "walkable arch (content (vd_phys_mem self)) dtb a (length buf)"
  shows "\<exists>r buf' m'. vd_read_raw_list (direct_ops capm caps capr capo tm pm) pm self [(a, buf)] =
       Some (r, [buf'], self\<lparr>vd_phys_mem := m'\<rparr>) \<and>
     mem_ok m' \<and> content m' = content (vd_phys_mem self) \<and> length buf' = length buf \<and>
     (r = Inr () \<and> (\<forall>j < length buf.
         virt_holds arch (content (vd_phys_mem self)) dtb (a + of_nat j) (buf' ! j)) \<or>
      r = Inl (PartialVirtualRead ()) \<and> (\<forall>j < length buf.
         virt_holds arch (content (vd_phys_mem self)) dtb (a + of_nat j) (buf' ! j) \<or> buf' ! j = 0))"
proof -
  obtain out fail m1 buf' m' where run:
    "vd_read_raw_list (direct_ops capm caps capr capo tm pm) pm self [(a, buf)] =
       Some (if fail = [] then Inr () else Inl (PartialVirtualRead ()), [buf'], self\<lparr>vd_phys_mem := m'\<rparr>)"
    "mem_ok m'" "content m' = content (vd_phys_mem self)" "length buf' = length buf"
    "\<forall>j < length buf.
        virt_holds arch (content (vd_phys_mem self)) dtb (a + of_nat j) (buf' ! j) \<or>
        (fail :: mut_slice failure list) \<noteq> [] \<and> buf' ! j = 0"
    using dma_read_run [OF assms] by blast
  then show ?thesis
    by (intro exI [of _ "if fail = [] then Inr () else Inl (PartialVirtualRead ())"] exI [of _ buf'] exI [of _ m'])
      auto
qed

section \<open>The contract on the model\<close>

lemma dma_virtual_memory:
  assumes "matching_memory pm mem_ok content" and "arch \<in> x86_archs"
  shows "virtual_memory (virtual_dma_mem (direct_ops capm caps capr capo tm pm) pm cot cop)
    (\<lambda>v. mem_ok (vd_phys_mem v) \<and> vd_translator v = xst_new arch dtb)
    (\<lambda>v. walkable arch (content (vd_phys_mem v)) dtb)
    (\<lambda>v. virt_holds arch (content (vd_phys_mem v)) dtb)"
proof
  fix v :: "('a, unit, x86_scoped_translate) virtual_dma" and a :: address and buf :: "u8 list"
  assume v: "mem_ok (vd_phys_mem v) \<and> vd_translator v = xst_new arch dtb"
    and r: "walkable arch (content (vd_phys_mem v)) dtb a (length buf)"
  obtain r buf' m' where "vd_read_raw_list (direct_ops capm caps capr capo tm pm) pm v [(a, buf)] =
       Some (r, [buf'], v\<lparr>vd_phys_mem := m'\<rparr>)"
    "mem_ok m'" "content m' = content (vd_phys_mem v)" "length buf' = length buf"
    "r = Inr () \<and> (\<forall>j < length buf.
         virt_holds arch (content (vd_phys_mem v)) dtb (a + of_nat j) (buf' ! j)) \<or>
      r = Inl (PartialVirtualRead ()) \<and> (\<forall>j < length buf.
         virt_holds arch (content (vd_phys_mem v)) dtb (a + of_nat j) (buf' ! j) \<or> buf' ! j = 0)"
    using dma_read_one [OF assms(1) conjunct1 [OF v] assms(2) conjunct2 [OF v] r] by blast
  then show "\<exists>r buf' v'. vm_read_raw_list (virtual_dma_mem (direct_ops capm caps capr capo tm pm) pm cot cop) v
        [(a, buf)] = Some (r, [buf'], v') \<and>
      (mem_ok (vd_phys_mem v') \<and> vd_translator v' = xst_new arch dtb) \<and>
      walkable arch (content (vd_phys_mem v')) dtb = walkable arch (content (vd_phys_mem v)) dtb \<and>
      virt_holds arch (content (vd_phys_mem v')) dtb = virt_holds arch (content (vd_phys_mem v)) dtb \<and>
      length buf' = length buf \<and>
      (r = Inr () \<and> (\<forall>j < length buf.
         virt_holds arch (content (vd_phys_mem v)) dtb (a + of_nat j) (buf' ! j)) \<or>
       r = Inl (PartialVirtualRead ()) \<and> (\<forall>j < length buf.
         virt_holds arch (content (vd_phys_mem v)) dtb (a + of_nat j) (buf' ! j) \<or> buf' ! j = 0))"
    using v by (intro exI [of _ r] exI [of _ buf'] exI [of _ "v\<lparr>vd_phys_mem := m'\<rparr>"])
      (simp add: virtual_dma_mem_def)
qed

lemma x64_in_archs: "x64_spec \<in> x86_archs" by (simp add: x86_archs_def)

interpretation dma: virtual_memory
  "virtual_dma_mem (direct_ops capm caps capr capo tm reference_memory) reference_memory cot cop"
  "\<lambda>v. True \<and> vd_translator v = xst_new x64_spec dtb"
  "\<lambda>v. walkable x64_spec (vd_phys_mem v) dtb"
  "\<lambda>v. virt_holds x64_spec (vd_phys_mem v) dtb"
  for capm caps capr capo tm cot cop dtb
  by (rule dma_virtual_memory [OF reference.matching_memory_axioms x64_in_archs])

section \<open>Properties\<close>

text \<open>
  C7. A virtual read returns the bytes the page walk leads to. On the three x86 modes, over
  any readable memory, for one buffer that is not empty, is at most half as long as the
  virtual address range of the mode and does not wrap, and whose addresses have walks that
  stay inside backed tables and do not end at a large page with bits set below its size: the
  read returns. When it reports success the walk of every address leads to a physical
  address, and the byte read is the one the memory has there (nothing is said of a frame
  without memory); when it reports a partial read every byte is such a byte or zero. The
  memory keeps its content. A string read of the range never fails: it is the decoded bytes
  up to the first zero, where a byte that could not be translated is a zero.
\<close>

theorem virtual_read_is_walk:
  assumes "matching_memory pm mem_ok content" and "mem_ok (vd_phys_mem self)"
    and "arch \<in> x86_archs" and "vd_translator self = xst_new arch dtb"
    and "walkable arch (content (vd_phys_mem self)) dtb a (length buf)"
  shows "(\<exists>r buf' m'. vd_read_raw_list (direct_ops capm caps capr capo tm pm) pm self [(a, buf)] =
       Some (r, [buf'], self\<lparr>vd_phys_mem := m'\<rparr>) \<and>
     mem_ok m' \<and> content m' = content (vd_phys_mem self) \<and> length buf' = length buf \<and>
     (r = Inr () \<and> (\<forall>j < length buf.
         virt_holds arch (content (vd_phys_mem self)) dtb (a + of_nat j) (buf' ! j)) \<or>
      r = Inl (PartialVirtualRead ()) \<and> (\<forall>j < length buf.
         virt_holds arch (content (vd_phys_mem self)) dtb (a + of_nat j) (buf' ! j) \<or> buf' ! j = 0))) \<and>
    (\<exists>bs self'. virt_read_cstr (virtual_dma_mem (direct_ops capm caps capr capo tm pm) pm cot cop) self a
         (of_nat (length buf)) = Some (Inr (from_utf8_lossy (takeWhile (\<lambda>c. c \<noteq> 0) bs)), self') \<and>
       length bs = length buf \<and> (\<forall>j < length bs.
         virt_holds arch (content (vd_phys_mem self)) dtb (a + of_nat j) (bs ! j) \<or> bs ! j = 0))"
proof (intro conjI)
  show "\<exists>r buf' m'. vd_read_raw_list (direct_ops capm caps capr capo tm pm) pm self [(a, buf)] =
       Some (r, [buf'], self\<lparr>vd_phys_mem := m'\<rparr>) \<and>
     mem_ok m' \<and> content m' = content (vd_phys_mem self) \<and> length buf' = length buf \<and>
     (r = Inr () \<and> (\<forall>j < length buf.
         virt_holds arch (content (vd_phys_mem self)) dtb (a + of_nat j) (buf' ! j)) \<or>
      r = Inl (PartialVirtualRead ()) \<and> (\<forall>j < length buf.
         virt_holds arch (content (vd_phys_mem self)) dtb (a + of_nat j) (buf' ! j) \<or> buf' ! j = 0))"
    by (rule dma_read_one [OF assms])
  have "length buf \<le> 2 ^ 47"
    using assms(5) x86_range_bound [OF assms(3)] by (simp add: walkable_def)
  then have n: "unat (of_nat (length buf) :: u64) = length buf" by (simp add: unat_of_nat_64)
  have "virtual_memory (virtual_dma_mem (direct_ops capm caps capr capo tm pm) pm cot cop)
    (\<lambda>v. mem_ok (vd_phys_mem v) \<and> vd_translator v = xst_new arch dtb)
    (\<lambda>v. walkable arch (content (vd_phys_mem v)) dtb)
    (\<lambda>v. virt_holds arch (content (vd_phys_mem v)) dtb)"
    by (rule dma_virtual_memory [OF assms(1,3)])
  from virtual_memory.virt_read_cstr_reads [OF this, of self a "of_nat (length buf)"] assms(2,4,5) n
  show "\<exists>bs self'. virt_read_cstr (virtual_dma_mem (direct_ops capm caps capr capo tm pm) pm cot cop) self a
         (of_nat (length buf)) = Some (Inr (from_utf8_lossy (takeWhile (\<lambda>c. c \<noteq> 0) bs)), self') \<and>
       length bs = length buf \<and> (\<forall>j < length bs.
         virt_holds arch (content (vd_phys_mem self)) dtb (a + of_nat j) (bs ! j) \<or> bs ! j = 0)"
    by auto
qed

lemma readable_part:
  assumes "readable_range arch C dtb a n" and "k + l \<le> n" and "0 < l"
  shows "readable_range arch C dtb (a + of_nat k) l"
proof -
  have hi: "unat a + n < 18446744073709551616" using assms(1) by (simp add: readable_range_def walkable_def)
  have s: "a + of_nat k + of_nat i = a + of_nat (k + i)" for i by (simp add: add.assoc)
  have "walk (x86_mmu arch) C dtb (a + of_nat k + of_nat i) \<noteq> Walk_Unmapped \<and>
      frame_aligned arch C dtb (a + of_nat k + of_nat i) \<and>
      (\<forall>pa. walk_phys arch C dtb (a + of_nat k + of_nat i) = Some pa \<longrightarrow> C pa \<noteq> None)" if "i < l" for i
  proof -
    have "k + i < n" using that assms(2) by simp
    then show ?thesis using assms(1) unfolding s readable_range_def walkable_def by blast
  qed
  moreover have "unat (a + of_nat k) = unat a + k" using assms(2) hi by (simp add: unat_offset)
  moreover have "n \<le> virt_range (x86_mmu arch)"
    using assms(1) unfolding readable_range_def walkable_def by blast
  ultimately show ?thesis
    using assms(2,3) hi unfolding readable_range_def walkable_def by simp
qed

lemma example_readable:
  assumes "0 < n" and "n \<le> 0x2000"
  shows "readable_range x64_spec (example_tables 0xB0) 0x1000 0x1000 n"
  using example_walkable [OF assms] by (simp add: readable_range_def) (simp add: example_tables_def)

theorem virtual_read_is_walk_witness:
  "\<exists>r buf' m'. vd_read_raw_list (direct_ops (\<lambda>_. 0) (\<lambda>_. 0) (\<lambda>_. 0) (\<lambda>_. 0) list_tree_map reference_memory)
       reference_memory (vd_new (example_tables 0xB0) x64_spec (xst_new x64_spec 0x1000)) [(0x1FFF, [7, 7])] =
       Some (r, [buf'], (vd_new (example_tables 0xB0) x64_spec (xst_new x64_spec 0x1000))\<lparr>vd_phys_mem := m'\<rparr>) \<and>
     length buf' = length [7 :: u8, 7]"
proof -
  let ?vd = "vd_new (example_tables 0xB0) x64_spec (xst_new x64_spec 0x1000)"
  have "readable_range x64_spec (example_tables 0xB0) 0x1000 0x1FFF 2"
    using readable_part [OF example_readable [of "0x2000"], of "0xFFF" 2] by simp
  then have r: "walkable x64_spec (vd_phys_mem ?vd) 0x1000 0x1FFF (length [7 :: u8, 7])"
    by (simp add: vd_new_def numeral_2_eq_2 readable_range_def)
  have t: "vd_translator ?vd = xst_new x64_spec 0x1000" by (simp add: vd_new_def)
  from conjunct1 [OF virtual_read_is_walk [OF reference.matching_memory_axioms, where self = ?vd
        and arch = x64_spec and dtb = "0x1000" and a = "0x1FFF" and buf = "[7, 7]",
        where capm = "\<lambda>_. 0" and caps = "\<lambda>_. 0" and capr = "\<lambda>_. 0" and capo = "\<lambda>_. 0"
        and tm = list_tree_map, OF TrueI x64_in_archs t r]]
  show ?thesis by blast
qed

end
