(* ===== verification/Memory_Maps.thy ===== *)
theory Memory_Maps
  imports Virtual_Dma
begin

text \<open>
  What \<open>virt_translation_map_range\<close> and \<open>virt_page_map_range\<close> of \<open>VirtualDMA\<close> return: the
  pieces of the batch walk, sorted and merged. The lemmas are on lists of ranges; the
  property says what the two maps tell about the page walk.
\<close>

section \<open>Merging sorted ranges\<close>

lemma coalesce_ranges:
  fixes lo hi :: "'i \<Rightarrow> nat"
  assumes co: "coalesces co"
    and f: "\<And>x y. ok x \<Longrightarrow> ok y \<Longrightarrow> hi x \<le> lo y \<Longrightarrow>
       f x y = Inr (x, y) \<and> \<not> near x y \<or>
       (\<exists>c. f x y = Inl c \<and> ok c \<and> lo c = lo x \<and> hi c = hi y \<and> (\<forall>w. near w c = near w x))"
    and lh: "\<And>x. ok x \<Longrightarrow> lo x < hi x"
    and "\<forall>y \<in> set (x # zs). ok y" and "sorted_wrt (\<lambda>x y. hi x \<le> lo y) (x # zs)"
  shows "\<exists>r rs. co f (x # zs) = r # rs \<and> lo r = lo x \<and> (\<forall>w. near w r = near w x) \<and>
     (\<forall>y \<in> set (r # rs). ok y) \<and>
     (\<Union>y \<in> set (x # zs). {lo y..<hi y}) \<subseteq> (\<Union>y \<in> set (r # rs). {lo y..<hi y}) \<and>
     successively (\<lambda>x y. hi x \<le> lo y \<and> \<not> near x y) (r # rs)"
  using assms(4,5)
proof (induction zs arbitrary: x)
  case Nil
  then show ?case using co by (simp add: coalesces_def)
next
  case (Cons y zs)
  have xy: "ok x" "ok y" "hi x \<le> lo y" using Cons.prems by simp_all
  from f [OF this] consider "f x y = Inr (x, y)" "\<not> near x y" |
    c where "f x y = Inl c" "ok c" "lo c = lo x" "hi c = hi y" "\<forall>w. near w c = near w x" by blast
  then show ?case
  proof cases
    case 1
    have step: "co f (x # y # zs) = x # co f (y # zs)" using co 1(1) by (simp add: coalesces_def)
    obtain r rs where r: "co f (y # zs) = r # rs" "lo r = lo y" "\<forall>w. near w r = near w y"
      "\<forall>y \<in> set (r # rs). ok y"
      "(\<Union>y \<in> set (y # zs). {lo y..<hi y}) \<subseteq> (\<Union>y \<in> set (r # rs). {lo y..<hi y})"
      "successively (\<lambda>x y. hi x \<le> lo y \<and> \<not> near x y) (r # rs)"
      using Cons.IH [of y] Cons.prems by auto
    have "successively (\<lambda>x y. hi x \<le> lo y \<and> \<not> near x y) (x # r # rs)"
      using r(2,3,6) xy(3) 1(2) by simp
    with r step xy(1) show ?thesis by (intro exI [of _ x] exI [of _ "r # rs"]) auto
  next
    case 2
    have step: "co f (x # y # zs) = co f (c # zs)" using co 2(1) by (simp add: coalesces_def)
    have "\<forall>y \<in> set (c # zs). ok y" "sorted_wrt (\<lambda>x y. hi x \<le> lo y) (c # zs)"
      using Cons.prems 2(2,4) by simp_all
    from Cons.IH [OF this] obtain r rs where r: "co f (c # zs) = r # rs" "lo r = lo c" "\<forall>w. near w r = near w c"
      "\<forall>y \<in> set (r # rs). ok y"
      "(\<Union>y \<in> set (c # zs). {lo y..<hi y}) \<subseteq> (\<Union>y \<in> set (r # rs). {lo y..<hi y})"
      "successively (\<lambda>x y. hi x \<le> lo y \<and> \<not> near x y) (r # rs)"
      by blast
    have "{lo x..<hi x} \<union> {lo y..<hi y} \<subseteq> {lo c..<hi c}"
      using 2(3,4) xy(3) lh [OF xy(1)] lh [OF xy(2)] by auto
    then have "(\<Union>y \<in> set (x # y # zs). {lo y..<hi y}) \<subseteq> (\<Union>y \<in> set (c # zs). {lo y..<hi y})" by auto
    from order_trans [OF this r(5)] r(1-4,6) 2(3,5) show ?thesis
      unfolding step by (intro exI [of _ r] exI [of _ rs]) presburger
  qed
qed

lemma disjoint_sorted:
  fixes lo hi :: "'i \<Rightarrow> nat"
  assumes "sorted (map lo xs)" and "distinct (concat (map (\<lambda>x. [lo x..<hi x]) xs))"
    and "\<forall>x \<in> set xs. lo x < hi x"
  shows "sorted_wrt (\<lambda>x y. hi x \<le> lo y) xs"
  using assms
proof (induction xs)
  case (Cons x xs)
  have "hi x \<le> lo y" if y: "y \<in> set xs" for y
  proof (rule ccontr)
    assume "\<not> hi x \<le> lo y"
    moreover have "lo x \<le> lo y" "lo y < hi y" using Cons.prems y by auto
    ultimately have "lo y \<in> {lo x..<hi x}" "lo y \<in> {lo y..<hi y}" by auto
    with Cons.prems(2) y show False by fastforce
  qed
  with Cons show ?case by simp
qed simp

lemma coalesce_sorted:
  fixes lo hi :: "'i \<Rightarrow> nat"
  assumes co: "coalesces co"
    and f: "\<And>x y. ok x \<Longrightarrow> ok y \<Longrightarrow> hi x \<le> lo y \<Longrightarrow>
       f x y = Inr (x, y) \<and> \<not> near x y \<or>
       (\<exists>c. f x y = Inl c \<and> ok c \<and> lo c = lo x \<and> hi c = hi y \<and> (\<forall>w. near w c = near w x))"
    and lh: "\<And>x. ok x \<Longrightarrow> lo x < hi x"
    and ok: "\<forall>y \<in> set xs. ok y" and s: "sorted (map lo xs)"
    and d: "distinct (concat (map (\<lambda>x. [lo x..<hi x]) xs))"
  shows "(\<forall>y \<in> set (co f xs). ok y) \<and>
     (\<Union>y \<in> set xs. {lo y..<hi y}) \<subseteq> (\<Union>y \<in> set (co f xs). {lo y..<hi y}) \<and>
     successively (\<lambda>x y. hi x \<le> lo y \<and> \<not> near x y) (co f xs)"
proof (cases xs)
  case Nil
  then show ?thesis using co by (simp add: coalesces_def)
next
  case (Cons x zs)
  have "sorted_wrt (\<lambda>x y. hi x \<le> lo y) (x # zs)"
    using disjoint_sorted [OF s d] ok lh by (simp add: Cons)
  have "\<exists>r rs. co f (x # zs) = r # rs \<and> lo r = lo x \<and> (\<forall>w. near w r = near w x) \<and>
     (\<forall>y \<in> set (r # rs). ok y) \<and>
     (\<Union>y \<in> set (x # zs). {lo y..<hi y}) \<subseteq> (\<Union>y \<in> set (r # rs). {lo y..<hi y}) \<and>
     successively (\<lambda>x y. hi x \<le> lo y \<and> \<not> near x y) (r # rs)"
    by (rule coalesce_ranges [where ok = ok, OF co f lh ok [unfolded Cons] \<open>sorted_wrt _ (x # zs)\<close>])
  then show ?thesis unfolding Cons by (elim exE conjE) simp
qed

section \<open>The pieces as ranges of natural numbers\<close>

lemma addr_cells_nats:
  "unat a + length cs \<le> 18446744073709551616 \<Longrightarrow>
     map (\<lambda>c. unat (fst c)) (addr_cells a cs) = [unat a..<unat a + length cs]"
proof (induction cs arbitrary: a)
  case (Cons c cs)
  show ?case
  proof (cases "cs = []")
    case True
    then show ?thesis by simp
  next
    case False
    then have "unat a + 1 < 18446744073709551616" using Cons.prems by (cases cs) auto
    then have u: "unat (a + 1) = Suc (unat a)" by (simp add: unat_add_nowrap)
    have "map (\<lambda>c. unat (fst c)) (addr_cells (a + 1) cs) = [Suc (unat a)..<unat a + length (c # cs)]"
      using Cons.IH [of "a + 1"] Cons.prems u by simp
    moreover have "[unat a..<unat a + length (c # cs)] = unat a # [Suc (unat a)..<unat a + length (c # cs)]"
      by (rule upt_conv_Cons) simp
    ultimately show ?thesis by (simp only: addr_cells.simps list.map fst_conv)
  qed
qed simp

definition rlo :: "address \<times> usize \<Rightarrow> nat" where "rlo r = unat (fst r)"
definition rhi :: "address \<times> usize \<Rightarrow> nat" where "rhi r = unat (fst r) + unat (snd r)"

lemma range_cells:
  "rhi r \<le> 18446744073709551616 \<Longrightarrow>
     map (\<lambda>c. unat (fst c)) (pair_cells usize_cells r) = [rlo r..<rhi r]"
  using addr_cells_nats [of "fst r" "usize_cells (snd r)"]
  by (simp add: pair_cells_def usize_cells_def rlo_def rhi_def)

lemma range_inside:
  assumes "set (pair_cells usize_cells r) \<subseteq> set (pair_cells usize_cells (a, of_nat n))"
    and "unat a + n < 18446744073709551616" and "snd r \<noteq> 0"
  shows "unat a \<le> rlo r \<and> rhi r \<le> unat a + n"
proof -
  have n: "unat (of_nat n :: u64) = n" using assms(2) by (simp add: unat_of_nat_64)
  have "0 < unat (snd r)" using assms(3) by (simp add: unat_gt_0)
  then have "usize_cells (snd r) \<noteq> []" by (simp add: usize_cells_def)
  then obtain k where "k + unat (snd r) \<le> n" "fst r = a + of_nat k"
    using subset_piece [of "fst r" "usize_cells (snd r)" a "usize_cells (of_nat n)"] assms(1,2) n
    by (auto simp: pair_cells_def usize_cells_def)
  then show ?thesis
    using assms(2) by (simp add: rlo_def rhi_def unat_offset)
qed

text \<open>The pieces and the failures of one range partition it.\<close>

lemma range_pieces:
  assumes mem: "matching_memory pm mem_ok content" and m: "mem_ok m" and arch: "arch \<in> x86_archs"
    and walk: "walkable arch (content m) dtb a n"
  shows "\<exists>out fail m'. direct_virt_to_phys_iter cap (pair_ops usize_ops) tm pm m (xst_new arch dtb)
       [(a, (a, of_nat n))] [] [] = Some (out, fail, m') \<and> mem_ok m' \<and> content m' = content m \<and>
     mset (concat (map (\<lambda>x. [rlo (snd x)..<rhi (snd x)]) out)) +
       mset (concat (map (\<lambda>f. [rlo (snd (snd f))..<rhi (snd (snd f))]) fail)) = mset [unat a..<unat a + n] \<and>
     (\<forall>(pa, v, s) \<in> set out. 0 < unat s \<and> unat a \<le> unat v \<and> unat v + unat s \<le> unat a + n \<and>
        (\<forall>i < unat s. walk_phys arch (content m) dtb (v + of_nat i) = Some (pa_address pa + of_nat i)))"
proof -
  let ?r = "(a, of_nat n :: usize)" and ?cells = "pair_cells usize_cells"
  have hi: "unat a + n < 18446744073709551616" using walk by (simp add: walkable_def)
  then have n: "unat (of_nat n :: u64) = n" by (simp add: unat_of_nat_64)
  have ok: "pair_ok (\<lambda>_. True) ?r" by (simp add: pair_ok_def)
  have "length (?cells ?r) = n" by (simp add: pair_cells_def usize_cells_def n)
  then have walk': "walkable arch (content m) dtb a (length (?cells ?r))" using walk by simp
  obtain out fail m' where t: "direct_virt_to_phys_iter cap (pair_ops usize_ops) tm pm m (xst_new arch dtb)
      [(a, ?r)] [] [] = Some (out, fail, m')" "mem_ok m'" "content m' = content m"
    "buf_cells ?cells (map snd out) + buf_cells ?cells (map (\<lambda>(_, _, b). b) fail) = mset (?cells ?r)"
    "\<forall>(pa, p) \<in> set out. piece_at arch (content m) dtb a (?cells ?r) (pa, ?cells p)"
    using request_pieces [OF pair_usize_split.split_index_axioms mem m arch ok walk'] by blast
  have f3: "map ?cells (map (\<lambda>(_, _, b). b) fail) = map (\<lambda>f. ?cells (snd (snd f))) fail"
    by (induction fail) auto
  have o3: "map ?cells (map snd out) = map (\<lambda>x. ?cells (snd x)) out" by simp
  have ms: "mset (concat (map (\<lambda>x. ?cells (snd x)) out)) + mset (concat (map (\<lambda>f. ?cells (snd (snd f))) fail)) = mset (?cells ?r)"
    using t(4) by (simp only: buf_cells_concat f3 o3)
  have sub: "set (?cells b) \<subseteq> set (?cells ?r)"
    if "b \<in> set (map snd out) \<union> set (map (\<lambda>f. snd (snd f)) fail)" for b
    using arg_cong [OF ms, of set_mset] that by auto
  have small: "rhi b \<le> 18446744073709551616"
    if "b \<in> set (map snd out) \<union> set (map (\<lambda>f. snd (snd f)) fail)" for b
  proof (cases "snd b = 0")
    case True
    then show ?thesis using unat_le_64 [of "fst b"] by (simp add: rhi_def)
  qed (use range_inside [OF sub [OF that] hi] hi in simp)
  let ?g = "\<lambda>c :: address \<times> unit. unat (fst c)"
  have conv: "map ?g (concat (map h xs)) = concat (map (\<lambda>x. [rlo (k x)..<rhi (k x)]) xs)"
    if "\<forall>x \<in> set xs. h x = ?cells (k x) \<and> rhi (k x) \<le> 18446744073709551616" for h :: "'x \<Rightarrow> (address \<times> unit) list" and k xs
    using that by (induction xs) (simp_all add: range_cells)
  have "concat (map (\<lambda>x. [rlo (snd x)..<rhi (snd x)]) out) = map ?g (concat (map (\<lambda>x. ?cells (snd x)) out))"
    by (rule conv [symmetric]) (use small in auto)
  moreover have "concat (map (\<lambda>f. [rlo (snd (snd f))..<rhi (snd (snd f))]) fail) =
      map ?g (concat (map (\<lambda>f. ?cells (snd (snd f))) fail))"
    by (rule conv [symmetric]) (use small in auto)
  moreover have "[unat a..<unat a + n] = map ?g (?cells ?r)"
    using range_cells [of ?r] hi n by (simp add: rlo_def rhi_def)
  ultimately have nats: "mset (concat (map (\<lambda>x. [rlo (snd x)..<rhi (snd x)]) out)) +
       mset (concat (map (\<lambda>f. [rlo (snd (snd f))..<rhi (snd (snd f))]) fail)) = mset [unat a..<unat a + n]"
    using arg_cong [OF ms, of "image_mset ?g"] by (simp only: image_mset_union mset_map)
  have "0 < unat s \<and> unat a \<le> unat v \<and> unat v + unat s \<le> unat a + n \<and>
      (\<forall>i < unat s. walk_phys arch (content m) dtb (v + of_nat i) = Some (pa_address pa + of_nat i))"
    if x: "(pa, v, s) \<in> set out" for pa v s
  proof -
    have l: "length (?cells (v, s)) = unat s" by (simp add: pair_cells_def usize_cells_def)
    obtain k where k: "k + unat s \<le> n" "?cells (v, s) = take (unat s) (drop k (?cells ?r))" "?cells (v, s) \<noteq> []"
      "\<forall>i < unat s. walk_phys arch (content m) dtb (a + of_nat (k + i)) = Some (pa_address pa + of_nat i)"
      using t(5) x l \<open>length (?cells ?r) = n\<close> by (fastforce simp: piece_at_def)
    have s: "0 < unat s" using k(3) l by (cases "unat s") auto
    have "hd (?cells (v, s)) = ?cells ?r ! k"
      using k(1,2) s \<open>length (?cells ?r) = n\<close> by (simp add: hd_drop_conv_nth)
    moreover have "hd (?cells (v, s)) = (v, ())"
      using s by (cases "unat s") (simp_all add: pair_cells_def usize_cells_def)
    moreover have "?cells ?r ! k = (a + of_nat k, ())"
      using k(1) s n addr_cells_nth [of k "replicate n ()" a] by (simp add: pair_cells_def usize_cells_def)
    ultimately have v: "v = a + of_nat k" by simp
    then show ?thesis
      using k(1,4) s hi by (simp add: unat_offset add.assoc)
  qed
  with t(1-3) nats show ?thesis by blast
qed

definition bytes_of :: "(address \<times> usize) list \<Rightarrow> nat set" where
  "bytes_of rs = (\<Union>r \<in> set rs. {rlo r..<rhi r})"

section \<open>The closures of the two maps\<close>

definition region_ok ::
  "x86_architecture \<Rightarrow> (u64 \<Rightarrow> u8 option) \<Rightarrow> address \<Rightarrow> nat set \<Rightarrow> phys_addr \<times> address \<times> usize \<Rightarrow> bool" where
  "region_ok arch C dtb T x \<longleftrightarrow> rlo (snd x) < rhi (snd x) \<and> rhi (snd x) < 18446744073709551616 \<and>
     {rlo (snd x)..<rhi (snd x)} \<subseteq> T \<and>
     (\<forall>i < unat (snd (snd x)).
        walk_phys arch C dtb (fst (snd x) + of_nat i) = Some (pa_address (fst x) + of_nat i))"

definition region_near :: "phys_addr \<times> address \<times> usize \<Rightarrow> phys_addr \<times> address \<times> usize \<Rightarrow> bool" where
  "region_near x y \<longleftrightarrow> rhi (snd x) = rlo (snd y) \<and> pa_address (fst y) = pa_address (fst x) + snd (snd x)"

lemma range_end: "rhi r < 18446744073709551616 \<Longrightarrow> unat (fst r + snd r) = rhi r"
  by (simp add: rhi_def unat_add_nowrap)

lemma merged_range:
  assumes "rlo x < rhi x" and "rhi x \<le> rlo y" and "rlo y < rhi y" and "rhi y < 18446744073709551616"
  defines "c \<equiv> (fst x, address_sub_addr (address_add (fst y) (snd y)) (fst x))"
  shows "rlo c = rlo x" and "rhi c = rhi y"
proof -
  show "rlo c = rlo x" by (simp add: c_def rlo_def)
  have "unat (fst x) \<le> unat (fst y + snd y)"
    using assms(1-4) range_end [of y] by (simp add: rlo_def)
  then have "unat (snd c) = rhi y - unat (fst x)"
    using range_end [OF assms(4)] by (simp add: c_def address_sub_addr_def address_add_def unat_sub_nowrap)
  then show "rhi c = rhi y"
    using assms(1-3) by (simp add: c_def rhi_def rlo_def)
qed

lemma merge_translation_law:
  assumes x: "region_ok arch C dtb T x" and y: "region_ok arch C dtb T y" and xy: "rhi (snd x) \<le> rlo (snd y)"
  shows "merge_translation x y = Inr (x, y) \<and> \<not> region_near x y \<or>
    (\<exists>c. merge_translation x y = Inl c \<and> region_ok arch C dtb T c \<and> rlo (snd c) = rlo (snd x) \<and>
      rhi (snd c) = rhi (snd y) \<and> (\<forall>w. region_near w c = region_near w x))"
proof (cases "region_near x y")
  case False
  have "fst (snd y) = fst (snd x) + snd (snd x) \<longleftrightarrow> rhi (snd x) = rlo (snd y)"
    using x range_end [of "snd x"] by (auto simp: region_ok_def rlo_def word_unat_eq_iff)
  then show ?thesis
    using False by (auto simp: merge_translation_def region_near_def address_add_def case_prod_unfold)
next
  case True
  let ?c = "(fst x, fst (snd x), address_sub_addr (address_add (fst (snd y)) (snd (snd y))) (fst (snd x)))"
  have e: "fst (snd y) = fst (snd x) + snd (snd x)" and p: "pa_address (fst y) = pa_address (fst x) + snd (snd x)"
    using True x range_end [of "snd x"] by (auto simp: region_near_def region_ok_def rlo_def word_unat_eq_iff)
  have m: "merge_translation x y = Inl ?c"
    by (simp add: merge_translation_def address_add_def case_prod_unfold e p)
  have c: "rlo (snd ?c) = rlo (snd x)" "rhi (snd ?c) = rhi (snd y)"
    using merged_range [of "snd x" "snd y"] x y xy by (auto simp: region_ok_def)
  have len: "unat (snd (snd ?c)) = unat (snd (snd x)) + unat (snd (snd y))"
    using c True by (simp add: region_near_def rlo_def rhi_def)
  have "walk_phys arch C dtb (fst (snd x) + of_nat i) = Some (pa_address (fst x) + of_nat i)"
    if i: "i < unat (snd (snd ?c))" for i
  proof (cases "i < unat (snd (snd x))")
    case True
    then show ?thesis using x by (simp add: region_ok_def)
  next
    case False
    let ?j = "i - unat (snd (snd x))"
    have "of_nat i = snd (snd x) + (of_nat ?j :: u64)" using False by (simp add: of_nat_diff)
    moreover have "?j < unat (snd (snd y))" using i False unfolding len by simp
    ultimately show ?thesis using y e p by (simp add: region_ok_def add.assoc [symmetric])
  qed
  moreover have "{rlo (snd ?c)..<rhi (snd ?c)} \<subseteq> T"
  proof
    fix t assume "t \<in> {rlo (snd ?c)..<rhi (snd ?c)}"
    then have "t \<in> {rlo (snd x)..<rhi (snd x)} \<or> t \<in> {rlo (snd y)..<rhi (snd y)}"
      using c True unfolding region_near_def by auto
    with x y show "t \<in> T" unfolding region_ok_def by blast
  qed
  ultimately have "region_ok arch C dtb T ?c"
    using c x y xy unfolding region_ok_def by auto
  then show ?thesis using m c by (auto simp: region_near_def)
qed

text \<open>Pages: the translated bytes are \<open>T\<close>, and a region bridges gaps of at most \<open>g\<close>.\<close>

definition pages_ok :: "nat \<Rightarrow> nat set \<Rightarrow> address \<times> usize \<Rightarrow> bool" where
  "pages_ok g T x \<longleftrightarrow> rlo x < rhi x \<and> rhi x < 18446744073709551616 \<and> rhi x - 1 \<in> T \<and>
     (\<forall>m \<in> {rlo x..<rhi x}. \<exists>t \<in> T. t \<le> m \<and> m \<le> t + g)"

lemma merge_pages_law:
  assumes x: "pages_ok (unat gap) T x" and y: "pages_ok (unat gap) T y" and xy: "rhi x \<le> rlo y"
  shows "merge_pages gap x y = Inr (x, y) \<and> \<not> rlo y \<le> rhi x + unat gap \<or>
    (\<exists>c. merge_pages gap x y = Inl c \<and> pages_ok (unat gap) T c \<and> rlo c = rlo x \<and> rhi c = rhi y \<and>
      (\<forall>w :: address \<times> usize. (rlo c \<le> rhi w + unat gap) = (rlo x \<le> rhi w + unat gap)))"
proof -
  have b: "rhi x < 18446744073709551616" "rlo x < rhi x" "rlo y < rhi y" "rhi y < 18446744073709551616"
    using x y by (simp_all add: pages_ok_def)
  have "unat (fst y - (fst x + snd x)) = rlo y - rhi x"
    using range_end [OF b(1)] xy by (simp add: unat_sub_nowrap rlo_def)
  then have d: "address_sub_addr (fst y) (address_add (fst x) (snd x)) \<le> gap \<longleftrightarrow> rlo y \<le> rhi x + unat gap"
    using xy by (simp add: word_le_nat_alt address_sub_addr_def address_add_def) linarith
  show ?thesis
  proof (cases "rlo y \<le> rhi x + unat gap")
    case True
    let ?c = "(fst x, address_sub_addr (address_add (fst y) (snd y)) (fst x))"
    have c: "rlo ?c = rlo x" "rhi ?c = rhi y" using merged_range [OF b(2) xy b(3,4)] .
    have "\<exists>t \<in> T. t \<le> m \<and> m \<le> t + unat gap" if m: "rlo x \<le> m" "m < rhi y" for m
    proof -
      consider "m < rhi x" | "rhi x \<le> m" "m < rlo y" | "rlo y \<le> m" by linarith
      then show ?thesis
      proof cases
        case 2
        have "rhi x - 1 \<in> T" using x by (simp add: pages_ok_def)
        moreover have "rhi x - 1 \<le> m" "m \<le> rhi x - 1 + unat gap" using 2 True b(2) by linarith+
        ultimately show ?thesis by blast
      qed (use x y m in \<open>auto simp: pages_ok_def\<close>)
    qed
    then have "pages_ok (unat gap) T ?c" using c b y xy by (auto simp: pages_ok_def)
    moreover have "merge_pages gap x y = Inl ?c" using True d by (simp add: merge_pages_def)
    ultimately show ?thesis using c by auto
  next
    case False
    then show ?thesis using d by (simp add: merge_pages_def)
  qed
qed

section \<open>The two maps over the batch walk\<close>

lemma sorted_by_key:
  "sorted (map (\<lambda>x. rlo (snd x)) (sort_key (\<lambda>(_, (a, _)). a) (out :: (phys_addr \<times> address \<times> usize) list)))"
proof -
  have "sorted (map (\<lambda>(_, (a, _)). a) (sort_key (\<lambda>(_, (a, _)). a) out))" by simp
  then show ?thesis
    by (auto simp: sorted_map rlo_def case_prod_unfold word_le_nat_alt elim!: sorted_wrt_mono_rel [rotated])
qed

lemma distinct_concat_perm:
  assumes "mset xs = mset ys"
  shows "distinct (concat (map f xs)) \<longleftrightarrow> distinct (concat (map f ys))"
  by (rule mset_eq_imp_distinct_iff) (simp add: assms buf_cells_def flip: buf_cells_concat)

lemma bytes_of_set:
  "bytes_of (map f xs) = set (concat (map (\<lambda>x. [rlo (f x)..<rhi (f x)]) xs))"
  by (auto simp: bytes_of_def)

lemma translation_map_regions:
  assumes co: "coalesces co"
    and ok: "\<forall>x \<in> set out. region_ok arch C dtb T x"
    and d: "distinct (concat (map (\<lambda>x. [rlo (snd x)..<rhi (snd x)]) out))"
  defines "rs \<equiv> co merge_translation (sort_key (\<lambda>(_, (a, _)). a) out)"
  shows "(\<forall>x \<in> set rs. region_ok arch C dtb T x) \<and> bytes_of (map snd out) \<subseteq> bytes_of (map snd rs) \<and>
    successively (\<lambda>x y. rhi (snd x) \<le> rlo (snd y) \<and> \<not> region_near x y) rs"
proof -
  let ?xs = "sort_key (\<lambda>(_, (a, _)). a) out"
  have "distinct (concat (map (\<lambda>x. [rlo (snd x)..<rhi (snd x)]) ?xs))"
    using d by (simp add: distinct_concat_perm [OF mset_sort])
  note dx = this
  have okx: "\<forall>x \<in> set ?xs. region_ok arch C dtb T x" using ok by simp
  have "(\<forall>y \<in> set rs. region_ok arch C dtb T y) \<and>
     (\<Union>y \<in> set ?xs. {rlo (snd y)..<rhi (snd y)}) \<subseteq> (\<Union>y \<in> set rs. {rlo (snd y)..<rhi (snd y)}) \<and>
     successively (\<lambda>x y. rhi (snd x) \<le> rlo (snd y) \<and> \<not> region_near x y) rs"
    unfolding rs_def
    by (rule coalesce_sorted [where lo = "\<lambda>x. rlo (snd x)" and hi = "\<lambda>x. rhi (snd x)" and near = region_near,
          OF co merge_translation_law _ okx sorted_by_key dx])
      (auto simp: region_ok_def)
  then show ?thesis by (simp add: bytes_of_def)
qed

lemma page_map_regions:
  fixes out :: "(phys_addr \<times> address \<times> usize) list"
  assumes co: "coalesces co"
    and ok: "\<forall>x \<in> set out. pages_ok (unat gap) T (snd x)"
    and d: "distinct (concat (map (\<lambda>x. [rlo (snd x)..<rhi (snd x)]) out))"
  defines "rs \<equiv> co (merge_pages gap) (map (\<lambda>(_, a). a) (sort_key (\<lambda>(_, (a, _)). a) out))"
  shows "(\<forall>x \<in> set rs. pages_ok (unat gap) T x) \<and> bytes_of (map snd out) \<subseteq> bytes_of rs \<and>
    successively (\<lambda>x y. rhi x + unat gap < rlo y) rs"
proof -
  let ?xs = "map (\<lambda>(_, a). a) (sort_key (\<lambda>(_, (a, _)). a) out)"
  have m: "?xs = map snd (sort_key (\<lambda>(_, (a, _)). a) out)" by (simp add: case_prod_unfold)
  have "distinct (concat (map (\<lambda>x. [rlo (snd x)..<rhi (snd x)]) (sort_key (\<lambda>(_, (a, _)). a) out)))"
    using d by (simp add: distinct_concat_perm [OF mset_sort])
  then have dx: "distinct (concat (map (\<lambda>x. [rlo x..<rhi x]) ?xs))" by (simp add: m comp_def)
  have sx: "sorted (map rlo ?xs)" using sorted_by_key [of out] by (simp add: m comp_def)
  have okx: "\<forall>x \<in> set ?xs. pages_ok (unat gap) T x" using ok by (auto simp: m)
  have "(\<forall>y \<in> set rs. pages_ok (unat gap) T y) \<and>
     (\<Union>y \<in> set ?xs. {rlo y..<rhi y}) \<subseteq> (\<Union>y \<in> set rs. {rlo y..<rhi y}) \<and>
     successively (\<lambda>x y. rhi x \<le> rlo y \<and> \<not> rlo y \<le> rhi x + unat gap) rs"
    unfolding rs_def
    by (rule coalesce_sorted [where near = "\<lambda>x y. rlo y \<le> rhi x + unat gap", OF co merge_pages_law _ okx sx dx])
      (auto simp: pages_ok_def)
  then show ?thesis
    by (auto simp: bytes_of_def m not_le elim: successively_mono)
qed

text \<open>The regions of the translation map in the order of its result.\<close>

lemma translation_regions_view:
  assumes ok: "\<forall>x \<in> set rs. region_ok arch C dtb T x"
    and s: "successively (\<lambda>x y. rhi (snd x) \<le> rlo (snd y) \<and> \<not> region_near x y) rs"
  shows "bytes_of (map snd rs) \<subseteq> T"
    and "\<forall>(v, s, pa) \<in> set (map (\<lambda>(p, (v, s)). (v, s, p)) rs). \<forall>i < unat s.
       walk_phys arch C dtb (v + of_nat i) = Some (pa_address pa + of_nat i)"
    and "successively (\<lambda>(v, s, pa) (v', s', pa'). unat v + unat s \<le> unat v' \<and>
      \<not> (v' = v + s \<and> pa_address pa' = pa_address pa + s)) (map (\<lambda>(p, (v, s)). (v, s, p)) rs)"
proof -
  show "bytes_of (map snd rs) \<subseteq> T"
    using ok unfolding bytes_of_def region_ok_def by fastforce
  show "\<forall>(v, s, pa) \<in> set (map (\<lambda>(p, (v, s)). (v, s, p)) rs). \<forall>i < unat s.
       walk_phys arch C dtb (v + of_nat i) = Some (pa_address pa + of_nat i)"
    using ok unfolding region_ok_def by fastforce
  have e: "v' = fst (snd x) + snd (snd x) \<longleftrightarrow> rhi (snd x) = unat v'" if "x \<in> set rs" for x and v' :: address
  proof -
    have "rhi (snd x) < 18446744073709551616" using ok that unfolding region_ok_def by blast
    from range_end [OF this] show ?thesis by (auto simp: word_unat_eq_iff)
  qed
  show "successively (\<lambda>(v, s, pa) (v', s', pa'). unat v + unat s \<le> unat v' \<and>
      \<not> (v' = v + s \<and> pa_address pa' = pa_address pa + s)) (map (\<lambda>(p, (v, s)). (v, s, p)) rs)"
    unfolding successively_map
  proof (rule successively_mono [OF s], goal_cases)
    case (1 x y)
    obtain p v z where x: "x = (p, v, z)" by (cases x)
    obtain p' v' z' where y: "y = (p', v', z')" by (cases y)
    show ?case using 1 e [of x v'] by (auto simp: x y rlo_def rhi_def region_near_def)
  qed
qed

lemma split_bytes:
  assumes "mset (concat (map (\<lambda>x. [rlo (f x)..<rhi (f x)]) xs)) +
      mset (concat (map (\<lambda>y. [rlo (g y)..<rhi (g y)]) ys)) = mset [l..<h]"
  shows "distinct (concat (map (\<lambda>x. [rlo (f x)..<rhi (f x)]) xs))"
    and "bytes_of (map f xs) = {l..<h} - bytes_of (map g ys)"
proof -
  let ?xc = "concat (map (\<lambda>x. [rlo (f x)..<rhi (f x)]) xs)"
  let ?yc = "concat (map (\<lambda>y. [rlo (g y)..<rhi (g y)]) ys)"
  have p: "mset (?xc @ ?yc) = mset [l..<h]" using assms by simp
  have d: "distinct (?xc @ ?yc)" using mset_eq_imp_distinct_iff [OF p] by (simp only: distinct_upt)
  then show "distinct ?xc" by (simp only: distinct_append)
  have "set ?xc \<union> set ?yc = {l..<h}" using mset_eq_setD [OF p] by (simp only: set_append set_upt)
  moreover have "set ?xc \<inter> set ?yc = {}" using d by (simp only: distinct_append)
  ultimately show "bytes_of (map f xs) = {l..<h} - bytes_of (map g ys)"
    unfolding bytes_of_set by blast
qed

text \<open>The adaptor as its documentation describes it, for the witness.\<close>

fun coalesce_ref :: "'i coalesce" where
  "coalesce_ref f [] = []"
| "coalesce_ref f [x] = [x]"
| "coalesce_ref f (x # y # zs) =
     (case f x y of Inl c \<Rightarrow> coalesce_ref f (c # zs) | Inr (p, n) \<Rightarrow> p # coalesce_ref f (n # zs))"

lemma coalesces_ref: "coalesces coalesce_ref"
  by (simp add: coalesces_def)

section \<open>Properties\<close>

text \<open>
  C8. The two memory maps are the page walk. On the three x86 modes, over any readable
  memory and any coalescing adaptor that works as documented, for a range that is not empty,
  is at most half as long as the virtual address range of the mode (so not the call for the
  whole range of addresses), does not wrap, and whose addresses have walks that stay inside
  backed tables and do not end at a large page with bits set below its size: both maps of
  the range return; every byte of every region of the translation map is at the physical address the page
  walk gives it; the regions hold every byte of the range except those the batch walk failed
  on, in order, and no two neighbours could be merged. The page map holds the same bytes and
  bridges gaps of at most the gap length, so its regions are more than the gap apart.
\<close>

theorem memory_maps_are_walks:
  assumes "coalesces cot" and "coalesces cop"
    and "matching_memory pm mem_ok content" and "mem_ok (vd_phys_mem self)"
    and "arch \<in> x86_archs" and "vd_translator self = xst_new arch dtb"
    and "walkable arch (content (vd_phys_mem self)) dtb a n"
  shows "\<exists>out fail m' regions pages.
     direct_virt_to_phys_iter capr (pair_ops usize_ops) tm pm (vd_phys_mem self) (xst_new arch dtb)
       [(a, (a, of_nat n))] [] [] = Some (out, fail, m') \<and>
     vd_translation_map_range (direct_ops capm caps capr capo tm pm) cot self a (a + of_nat n) =
       Some (regions, self\<lparr>vd_phys_mem := m'\<rparr>) \<and>
     vd_page_map_range (direct_ops capm caps capr capo tm pm) cop self gap a (a + of_nat n) =
       Some (pages, self\<lparr>vd_phys_mem := m'\<rparr>) \<and>
     (\<forall>(v, s, pa) \<in> set regions. \<forall>i < unat s.
        walk_phys arch (content (vd_phys_mem self)) dtb (v + of_nat i) = Some (pa_address pa + of_nat i)) \<and>
     bytes_of (map (\<lambda>(v, s, _). (v, s)) regions) =
       {unat a..<unat a + n} - bytes_of (map (\<lambda>(_, _, r). r) fail) \<and>
     successively (\<lambda>(v, s, pa) (v', s', pa'). unat v + unat s \<le> unat v' \<and>
        \<not> (v' = v + s \<and> pa_address pa' = pa_address pa + s)) regions \<and>
     bytes_of (map (\<lambda>(v, s, _). (v, s)) regions) \<subseteq> bytes_of pages \<and>
     (\<forall>x \<in> bytes_of pages. \<exists>t \<in> bytes_of (map (\<lambda>(v, s, _). (v, s)) regions). t \<le> x \<and> x \<le> t + unat gap) \<and>
     successively (\<lambda>x y. rhi x + unat gap < rlo y) pages"
proof -
  let ?m = "vd_phys_mem self" and ?C = "content (vd_phys_mem self)"
  let ?sorted = "sort_key (\<lambda>(_, (a, _)). a) :: (phys_addr \<times> address \<times> usize) list \<Rightarrow> _"
  obtain out fail m' where t: "direct_virt_to_phys_iter capr (pair_ops usize_ops) tm pm ?m (xst_new arch dtb)
       [(a, (a, of_nat n))] [] [] = Some (out, fail, m')"
    "mset (concat (map (\<lambda>x. [rlo (snd x)..<rhi (snd x)]) out)) +
       mset (concat (map (\<lambda>f. [rlo (snd (snd f))..<rhi (snd (snd f))]) fail)) = mset [unat a..<unat a + n]"
    "\<forall>(pa, v, s) \<in> set out. 0 < unat s \<and> unat a \<le> unat v \<and> unat v + unat s \<le> unat a + n \<and>
        (\<forall>i < unat s. walk_phys arch ?C dtb (v + of_nat i) = Some (pa_address pa + of_nat i))"
    using range_pieces [OF assms(3-5,7)] by blast
  have hi: "unat a + n < 18446744073709551616" using assms(7) by (simp add: walkable_def)
  let ?T = "bytes_of (map snd out)"
  have ro: "\<forall>x \<in> set out. region_ok arch ?C dtb ?T x"
    using t(3) hi by (fastforce simp: region_ok_def rlo_def rhi_def bytes_of_def)
  then have po: "\<forall>x \<in> set out. pages_ok (unat gap) ?T (snd x)"
    by (fastforce simp: pages_ok_def region_ok_def)
  let ?rs = "cot merge_translation (?sorted out)" and ?ps = "cop (merge_pages gap) (map (\<lambda>(_, a). a) (?sorted out))"
  note d = split_bytes(1) [OF t(2)]
  note rs = translation_map_regions [OF assms(1) ro d] and ps = page_map_regions [OF assms(2) po d]
  have f: "map (\<lambda>(_, _, r). r) fail = map (\<lambda>f. snd (snd f)) fail" by (simp add: case_prod_unfold)
  let ?regions = "map (\<lambda>(p, (v, s)). (v, s, p)) ?rs"
  have snds: "map (\<lambda>(v, s, _). (v, s)) ?regions = map snd ?rs" by (simp add: case_prod_unfold)
  note view = translation_regions_view [OF conjunct1 [OF rs] conjunct2 [OF conjunct2 [OF rs]]]
  have R: "bytes_of (map (\<lambda>(v, s, _). (v, s)) ?regions) = ?T"
    unfolding snds using view(1) rs by blast
  have size: "address_sub_addr (a + of_nat n) a = of_nat n" by (simp add: address_sub_addr_def)
  have run: "vd_translation_map_range (direct_ops capm caps capr capo tm pm) cot self a (a + of_nat n) =
      Some (?regions, self\<lparr>vd_phys_mem := m'\<rparr>)"
    "vd_page_map_range (direct_ops capm caps capr capo tm pm) cop self gap a (a + of_nat n) =
      Some (?ps, self\<lparr>vd_phys_mem := m'\<rparr>)"
    by (simp_all add: vd_translation_map_range_def vd_page_map_range_def size direct_ops_def
        direct_vat_def assms(6) t(1))
  have part: "bytes_of (map (\<lambda>(v, s, _). (v, s)) ?regions) = {unat a..<unat a + n} - bytes_of (map (\<lambda>(_, _, r). r) fail)"
    unfolding R f by (rule split_bytes(2) [OF t(2)])
  have sub: "bytes_of (map (\<lambda>(v, s, _). (v, s)) ?regions) \<subseteq> bytes_of ?ps"
    unfolding R using ps by blast
  have near: "\<forall>x \<in> bytes_of ?ps. \<exists>t \<in> bytes_of (map (\<lambda>(v, s, _). (v, s)) ?regions). t \<le> x \<and> x \<le> t + unat gap"
    unfolding R using conjunct1 [OF ps] unfolding pages_ok_def bytes_of_def by blast
  show ?thesis
    by (intro exI conjI) (rule t(1) run view(2,3) part sub near conjunct2 [OF conjunct2 [OF ps]])+
qed

theorem memory_maps_are_walks_witness:
  "\<exists>regions m'. vd_translation_map_range (direct_ops (\<lambda>_. 0) (\<lambda>_. 0) (\<lambda>_. 0) (\<lambda>_. 0) list_tree_map reference_memory)
       coalesce_ref (vd_new (example_tables 0xB0) x64_spec (xst_new x64_spec 0x1000)) 0x1000 (0x1000 + of_nat 0x2000) =
       Some (regions, (vd_new (example_tables 0xB0) x64_spec (xst_new x64_spec 0x1000))\<lparr>vd_phys_mem := m'\<rparr>) \<and>
     (\<forall>(v, s, pa) \<in> set regions. \<forall>i < unat s.
        walk_phys x64_spec (example_tables 0xB0) 0x1000 (v + of_nat i) = Some (pa_address pa + of_nat i))"
proof -
  let ?vd = "vd_new (example_tables 0xB0) x64_spec (xst_new x64_spec 0x1000)"
  have w: "walkable x64_spec (vd_phys_mem ?vd) 0x1000 0x1000 0x2000"
    using example_walkable [of "0x2000"] by (simp add: vd_new_def)
  have t: "vd_translator ?vd = xst_new x64_spec 0x1000" and c: "vd_phys_mem ?vd = example_tables 0xB0"
    by (simp_all add: vd_new_def)
  from memory_maps_are_walks [OF coalesces_ref coalesces_ref reference.matching_memory_axioms, where self = ?vd
        and arch = x64_spec and dtb = "0x1000" and a = "0x1000" and n = "0x2000",
        where capm = "\<lambda>_. 0" and caps = "\<lambda>_. 0" and capr = "\<lambda>_. 0" and capo = "\<lambda>_. 0"
        and tm = list_tree_map and gap = 0, OF TrueI x64_in_archs t w]
  show ?thesis unfolding c by blast
qed

end
