(* ===== verification/X86_Paging.thy ===== *)
theory X86_Paging
  imports Walk_Pieces
begin

text \<open>
  The page walk of the three x86 modes against the paging structures as the processor manual
  draws them: the tables of each mode with their literal masks and shifts, written without
  any definition of the code. The property says that \<open>x64.rs\<close>, \<open>x32_pae.rs\<close> and \<open>x32.rs\<close>
  with the arithmetic of \<open>mmu_spec.rs\<close> describe them, except for addresses whose walk meets
  an entry that points back to its own table, which the code does not translate.
\<close>

section \<open>The paging structures\<close>

text \<open>
  One table: the entry at an offset must be present. Physical addresses have 52, 36 or 32
  bits; permissions and reserved bits are not looked at.
\<close>

definition le_entry :: "nat \<Rightarrow> (u64 \<Rightarrow> u8 option) \<Rightarrow> u64 \<Rightarrow> u64 option" where
  "le_entry n content a =
     map_option from_le_bytes (those (map (\<lambda>j. content (a + of_nat j)) [0..<n]))"

definition table_entry :: "nat \<Rightarrow> u64 \<Rightarrow> (u64 \<Rightarrow> u8 option) \<Rightarrow> u64 \<Rightarrow> u64 \<Rightarrow> u64 option" where
  "table_entry n frame content table off = do {
     e \<leftarrow> le_entry n content ((table AND frame) OR off);
     (if bit e 0 then Some e else None)
   }"

definition x64_paging :: "(u64 \<Rightarrow> u8 option) \<Rightarrow> u64 \<Rightarrow> u64 \<Rightarrow> u64 option" where
  "x64_paging content cr3 v = do {
     pml4e \<leftarrow> table_entry 8 0x000FFFFFFFFFF000 content cr3 (push_bit 3 (drop_bit 39 v AND 0x1FF));
     pdpte \<leftarrow> table_entry 8 0x000FFFFFFFFFF000 content pml4e (push_bit 3 (drop_bit 30 v AND 0x1FF));
     (if bit pdpte 7 then Some ((pdpte AND 0x000FFFFFC0000000) OR (v AND 0x3FFFFFFF))
      else do {
        pde \<leftarrow> table_entry 8 0x000FFFFFFFFFF000 content pdpte (push_bit 3 (drop_bit 21 v AND 0x1FF));
        (if bit pde 7 then Some ((pde AND 0x000FFFFFFFE00000) OR (v AND 0x1FFFFF))
         else do {
           pte \<leftarrow> table_entry 8 0x000FFFFFFFFFF000 content pde (push_bit 3 (drop_bit 12 v AND 0x1FF));
           Some ((pte AND 0x000FFFFFFFFFF000) OR (v AND 0xFFF))
         })
      })
   }"

definition x32_pae_paging :: "(u64 \<Rightarrow> u8 option) \<Rightarrow> u64 \<Rightarrow> u64 \<Rightarrow> u64 option" where
  "x32_pae_paging content cr3 v = do {
     pdpte \<leftarrow> table_entry 8 0x0000000FFFFFFFE0 content cr3 (push_bit 3 (drop_bit 30 v AND 3));
     pde \<leftarrow> table_entry 8 0x0000000FFFFFF000 content pdpte (push_bit 3 (drop_bit 21 v AND 0x1FF));
     (if bit pde 7 then Some ((pde AND 0x0000000FFFE00000) OR (v AND 0x1FFFFF))
      else do {
        pte \<leftarrow> table_entry 8 0x0000000FFFFFF000 content pde (push_bit 3 (drop_bit 12 v AND 0x1FF));
        Some ((pte AND 0x0000000FFFFFF000) OR (v AND 0xFFF))
      })
   }"

definition x32_paging :: "(u64 \<Rightarrow> u8 option) \<Rightarrow> u64 \<Rightarrow> u64 \<Rightarrow> u64 option" where
  "x32_paging content cr3 v = do {
     pde \<leftarrow> table_entry 4 0x00000000FFFFF000 content cr3 (push_bit 2 (drop_bit 22 v AND 0x3FF));
     (if bit pde 7 then Some ((pde AND 0x00000000FFC00000) OR (v AND 0x3FFFFF))
      else do {
        pte \<leftarrow> table_entry 4 0x00000000FFFFF000 content pde (push_bit 2 (drop_bit 12 v AND 0x3FF));
        Some ((pte AND 0x00000000FFFFF000) OR (v AND 0xFFF))
      })
   }"

definition x86_paging :: "x86_architecture \<Rightarrow> (u64 \<Rightarrow> u8 option) \<Rightarrow> u64 \<Rightarrow> u64 \<Rightarrow> u64 option" where
  "x86_paging arch =
     (if arch = x64_spec then x64_paging else if arch = x32_pae_spec then x32_pae_paging else x32_paging)"

text \<open>
  The addresses whose walk meets an entry that points back to the table it was read from, as
  the self-map entries of an operating system do. Such a walk is valid, but the code ends it.
\<close>

definition meets_loop ::
  "nat \<Rightarrow> u64 \<Rightarrow> (u64 \<Rightarrow> u8 option) \<Rightarrow> u64 \<Rightarrow> u64 \<Rightarrow> (u64 \<Rightarrow> bool) \<Rightarrow> bool" where
  "meets_loop n frame content table off rest =
     (case table_entry n frame content table off of
        None \<Rightarrow> False | Some e \<Rightarrow> e AND frame = table AND frame \<or> rest e)"

definition x64_self_mapped :: "(u64 \<Rightarrow> u8 option) \<Rightarrow> u64 \<Rightarrow> u64 \<Rightarrow> bool" where
  "x64_self_mapped content cr3 v =
     meets_loop 8 0x000FFFFFFFFFF000 content cr3 (push_bit 3 (drop_bit 39 v AND 0x1FF)) (\<lambda>pml4e.
     meets_loop 8 0x000FFFFFFFFFF000 content pml4e (push_bit 3 (drop_bit 30 v AND 0x1FF)) (\<lambda>pdpte. \<not> bit pdpte 7 \<and>
     meets_loop 8 0x000FFFFFFFFFF000 content pdpte (push_bit 3 (drop_bit 21 v AND 0x1FF)) (\<lambda>pde. \<not> bit pde 7 \<and>
     meets_loop 8 0x000FFFFFFFFFF000 content pde (push_bit 3 (drop_bit 12 v AND 0x1FF)) (\<lambda>pte. False))))"

definition x32_pae_self_mapped :: "(u64 \<Rightarrow> u8 option) \<Rightarrow> u64 \<Rightarrow> u64 \<Rightarrow> bool" where
  "x32_pae_self_mapped content cr3 v =
     meets_loop 8 0x0000000FFFFFFFE0 content cr3 (push_bit 3 (drop_bit 30 v AND 3)) (\<lambda>pdpte.
     meets_loop 8 0x0000000FFFFFF000 content pdpte (push_bit 3 (drop_bit 21 v AND 0x1FF)) (\<lambda>pde. \<not> bit pde 7 \<and>
     meets_loop 8 0x0000000FFFFFF000 content pde (push_bit 3 (drop_bit 12 v AND 0x1FF)) (\<lambda>pte. False)))"

definition x32_self_mapped :: "(u64 \<Rightarrow> u8 option) \<Rightarrow> u64 \<Rightarrow> u64 \<Rightarrow> bool" where
  "x32_self_mapped content cr3 v =
     meets_loop 4 0x00000000FFFFF000 content cr3 (push_bit 2 (drop_bit 22 v AND 0x3FF)) (\<lambda>pde. \<not> bit pde 7 \<and>
     meets_loop 4 0x00000000FFFFF000 content pde (push_bit 2 (drop_bit 12 v AND 0x3FF)) (\<lambda>pte. False))"

definition x86_self_mapped :: "x86_architecture \<Rightarrow> (u64 \<Rightarrow> u8 option) \<Rightarrow> u64 \<Rightarrow> u64 \<Rightarrow> bool" where
  "x86_self_mapped arch =
     (if arch = x64_spec then x64_self_mapped
      else if arch = x32_pae_spec then x32_pae_self_mapped else x32_self_mapped)"

text \<open>
  The walk between the two: the tables of the manual, with the check of the code that ends
  at an entry that points back.
\<close>

definition checked_entry :: "nat \<Rightarrow> u64 \<Rightarrow> (u64 \<Rightarrow> u8 option) \<Rightarrow> u64 \<Rightarrow> u64 \<Rightarrow> u64 option" where
  "checked_entry n frame content table off = do {
     e \<leftarrow> le_entry n content ((table AND frame) OR off);
     (if e AND frame = table AND frame \<or> \<not> bit e 0 then None else Some e)
   }"

definition x64_checked :: "(u64 \<Rightarrow> u8 option) \<Rightarrow> u64 \<Rightarrow> u64 \<Rightarrow> u64 option" where
  "x64_checked content cr3 v = do {
     pml4e \<leftarrow> checked_entry 8 0x000FFFFFFFFFF000 content cr3 (push_bit 3 (drop_bit 39 v AND 0x1FF));
     pdpte \<leftarrow> checked_entry 8 0x000FFFFFFFFFF000 content pml4e (push_bit 3 (drop_bit 30 v AND 0x1FF));
     (if bit pdpte 7 then Some ((pdpte AND 0x000FFFFFC0000000) OR (v AND 0x3FFFFFFF))
      else do {
        pde \<leftarrow> checked_entry 8 0x000FFFFFFFFFF000 content pdpte (push_bit 3 (drop_bit 21 v AND 0x1FF));
        (if bit pde 7 then Some ((pde AND 0x000FFFFFFFE00000) OR (v AND 0x1FFFFF))
         else do {
           pte \<leftarrow> checked_entry 8 0x000FFFFFFFFFF000 content pde (push_bit 3 (drop_bit 12 v AND 0x1FF));
           Some ((pte AND 0x000FFFFFFFFFF000) OR (v AND 0xFFF))
         })
      })
   }"

definition x32_pae_checked :: "(u64 \<Rightarrow> u8 option) \<Rightarrow> u64 \<Rightarrow> u64 \<Rightarrow> u64 option" where
  "x32_pae_checked content cr3 v = do {
     pdpte \<leftarrow> checked_entry 8 0x0000000FFFFFFFE0 content cr3 (push_bit 3 (drop_bit 30 v AND 3));
     pde \<leftarrow> checked_entry 8 0x0000000FFFFFF000 content pdpte (push_bit 3 (drop_bit 21 v AND 0x1FF));
     (if bit pde 7 then Some ((pde AND 0x0000000FFFE00000) OR (v AND 0x1FFFFF))
      else do {
        pte \<leftarrow> checked_entry 8 0x0000000FFFFFF000 content pde (push_bit 3 (drop_bit 12 v AND 0x1FF));
        Some ((pte AND 0x0000000FFFFFF000) OR (v AND 0xFFF))
      })
   }"

definition x32_checked :: "(u64 \<Rightarrow> u8 option) \<Rightarrow> u64 \<Rightarrow> u64 \<Rightarrow> u64 option" where
  "x32_checked content cr3 v = do {
     pde \<leftarrow> checked_entry 4 0x00000000FFFFF000 content cr3 (push_bit 2 (drop_bit 22 v AND 0x3FF));
     (if bit pde 7 then Some ((pde AND 0x00000000FFC00000) OR (v AND 0x3FFFFF))
      else do {
        pte \<leftarrow> checked_entry 4 0x00000000FFFFF000 content pde (push_bit 2 (drop_bit 12 v AND 0x3FF));
        Some ((pte AND 0x00000000FFFFF000) OR (v AND 0xFFF))
      })
   }"

text \<open>The checked walk is the walk of the manual outside the addresses that meet such an entry.\<close>

lemma checked_bind:
  assumes "\<And>e. f e = (if g e then None else h e)"
  shows "Option.bind (checked_entry n m C t off) f =
     (if meets_loop n m C t off g then None else Option.bind (table_entry n m C t off) h)"
  using assms by (cases "le_entry n C ((t AND m) OR off)") (simp_all add: checked_entry_def table_entry_def meets_loop_def)

lemma checked_page: "(if b then Some x else Option.bind t f) =
   (if \<not> b \<and> l then None else (if b then Some x else Option.bind t' h))"
  if "Option.bind t f = (if l then None else Option.bind t' h)"
  using that by simp

lemmas checked_step = checked_bind checked_page
lemma checked_last: "Some x = (if False then None else Some x)" by simp

lemma x64_checked_if:
  "x64_checked C cr3 v = (if x64_self_mapped C cr3 v then None else x64_paging C cr3 v)"
  unfolding x64_checked_def x64_self_mapped_def x64_paging_def
  by (intro checked_step checked_last)

lemma x32_pae_checked_if:
  "x32_pae_checked C cr3 v = (if x32_pae_self_mapped C cr3 v then None else x32_pae_paging C cr3 v)"
  unfolding x32_pae_checked_def x32_pae_self_mapped_def x32_pae_paging_def
  by (intro checked_step checked_last)

lemma x32_checked_if:
  "x32_checked C cr3 v = (if x32_self_mapped C cr3 v then None else x32_paging C cr3 v)"
  unfolding x32_checked_def x32_self_mapped_def x32_paging_def
  by (intro checked_step checked_last)

section \<open>The arithmetic of each mode\<close>

lemma trailing_zeros_84: "trailing_zeros 8 = 3" "trailing_zeros 4 = 2"
  by code_simp+

lemma mul_eight: "w * 8 = push_bit 3 (w :: u64)" and mul_four: "w * 4 = push_bit 2 (w :: u64)"
  by (simp_all add: push_bit_eq_mult)

lemmas mmu_defs = x64_spec_def x32_spec_def x32_pae_spec_def pte_addr_mask_def nth_opt_def trailing_zeros_84
  bit_mask_u64_def as_u64_def shr64_def shl64_def virt_addr_to_pte_offset_def virt_addr_bit_range_def
  mul_eight mul_four push_bit_and

definition mode_table :: "arch_mmu_spec \<Rightarrow> nat \<Rightarrow> u64 \<Rightarrow> u64 \<Rightarrow> u64 \<Rightarrow> bool" where
  "mode_table spec s m v off \<longleftrightarrow> (\<forall>p. pte_addr_mask spec p s = Some (p AND m)) \<and>
     virt_addr_to_pte_offset spec v s = Some off \<and> off AND m = 0"

lemma x64_tables:
  "mode_table (x86_mmu x64_spec) 0 0x000FFFFFFFFFF000 v (push_bit 3 (drop_bit 39 v AND 0x1FF))"
  "mode_table (x86_mmu x64_spec) (Suc 0) 0x000FFFFFFFFFF000 v (push_bit 3 (drop_bit 30 v AND 0x1FF))"
  "mode_table (x86_mmu x64_spec) 2 0x000FFFFFFFFFF000 v (push_bit 3 (drop_bit 21 v AND 0x1FF))"
  "mode_table (x86_mmu x64_spec) 3 0x000FFFFFFFFFF000 v (push_bit 3 (drop_bit 12 v AND 0x1FF))"
  by (simp_all add: mode_table_def mmu_defs and.assoc)

lemma x32_pae_tables:
  "mode_table (x86_mmu x32_pae_spec) 0 0x0000000FFFFFFFE0 v (push_bit 3 (drop_bit 30 v AND 3))"
  "mode_table (x86_mmu x32_pae_spec) (Suc 0) 0x0000000FFFFFF000 v (push_bit 3 (drop_bit 21 v AND 0x1FF))"
  "mode_table (x86_mmu x32_pae_spec) 2 0x0000000FFFFFF000 v (push_bit 3 (drop_bit 12 v AND 0x1FF))"
  by (simp_all add: mode_table_def mmu_defs and.assoc)

lemma x32_tables:
  "mode_table (x86_mmu x32_spec) 0 0x00000000FFFFF000 v (push_bit 2 (drop_bit 22 v AND 0x3FF))"
  "mode_table (x86_mmu x32_spec) (Suc 0) 0x00000000FFFFF000 v (push_bit 2 (drop_bit 12 v AND 0x3FF))"
  by (simp_all add: mode_table_def mmu_defs and.assoc)

section \<open>Level by level\<close>

lemma le_entry_read_pte:
  assumes "read_pte content a = Some e" and "n \<le> 8"
  shows "le_entry n content a = Some (take_bit (8 * n) e)"
proof -
  have all: "byte_at content a j \<noteq> None" if "j < 8" for j
    using assms(1) that by (simp add: read_pte_if split: if_splits)
  have b: "content (a + of_nat j) = Some (the (byte_at content a j))" if "j < 8" for j
    using all [OF that] by (auto simp: byte_at_def split: if_splits)
  have "those (map (\<lambda>j. content (a + of_nat j)) [0..<n]) = Some (map (\<lambda>j. the (byte_at content a j)) [0..<n])"
    using b assms(2) by (auto simp: those_map_if)
  moreover have "e = from_le_bytes (map (\<lambda>j. the (byte_at content a j)) [0..<8])"
    using assms(1) by (simp add: read_pte_if split: if_splits)
  moreover have "from_le_bytes (map f [0..<n]) = take_bit (8 * n) (from_le_bytes (map f [0..<8]) :: u64)" for f
    using assms(2) by (intro bit_word_eqI) (auto simp: bit_from_le_bytes bit_take_bit_iff)
  ultimately show ?thesis by (simp add: le_entry_def)
qed

text \<open>The outcome of a walk as a physical address, and the walks the properties are about.\<close>

definition walk_outcome :: "arch_mmu_spec \<Rightarrow> address \<Rightarrow> walk_result \<Rightarrow> address option" where
  "walk_outcome spec v r =
     (case r of Walk_Entry pte k \<Rightarrow> map_option pa_address (get_phys_page spec pte v k) | _ \<Rightarrow> None)"

definition aligned_outcome :: "arch_mmu_spec \<Rightarrow> walk_result \<Rightarrow> bool" where
  "aligned_outcome spec r \<longleftrightarrow> r \<noteq> Walk_Unmapped \<and>
     (case r of Walk_Entry pte k \<Rightarrow>
        (case pte_addr_mask spec pte k of
           Some frame \<Rightarrow> unat frame mod 2 ^ step_bits spec k = 0 | None \<Rightarrow> False)
      | _ \<Rightarrow> True)"

lemma mask_same: "off AND m = 0 \<Longrightarrow> ((p AND m) OR off) AND m = p AND (m :: u64)"
  by (simp add: and.commute and.left_commute bit.conj_disj_distrib)

lemma take_bit_and_mask: "take_bit k m = m \<Longrightarrow> take_bit k e AND m = e AND (m :: u64)"
  by (auto simp: bit_eq_iff bit_and_iff bit_take_bit_iff)

lemma walk_table:
  assumes mode: "mode_table spec s m v off" and n: "n \<le> 8" "0 < n" and m: "take_bit (8 * n) m = m"
    and here: "check_entry spec p s" "\<not> is_final_mapping spec p s"
    and absent: "\<And>e. \<not> bit e 0 \<Longrightarrow> walk_from spec C ss e v = Walk_Fault"
    and next_level: "\<And>e. bit e 0 \<Longrightarrow> aligned_outcome spec (walk_from spec C ss e v) \<Longrightarrow>
       walk_outcome spec v (walk_from spec C ss e v) = ref (take_bit (8 * n) e)"
    and good: "aligned_outcome spec (walk_from spec C (s # ss) p v)"
  shows "walk_outcome spec v (walk_from spec C (s # ss) p v) =
     Option.bind (checked_entry n m C (take_bit (8 * n) p) off) ref"
proof -
  let ?a = "(p AND m) OR off"
  have mask: "pte_addr_mask spec p s = Some (p AND m)" for p
    using mode by (simp add: mode_table_def)
  have off: "off AND m = 0" "virt_addr_to_pte_offset spec v s = Some off" using mode by (simp_all add: mode_table_def)
  have step: "walk_from spec C (s # ss) p v =
      (case read_pte C ?a of None \<Rightarrow> Walk_Unmapped
       | Some e \<Rightarrow> if p AND m = e AND m then Walk_Fault else walk_from spec C ss e v)"
    using here by (simp add: vtop_step_def mask off mask_same address_from_u64_def Let_def split: option.splits)
  have "read_pte C ?a \<noteq> None"
  proof
    assume "read_pte C ?a = None"
    then have "walk_from spec C (s # ss) p v = Walk_Unmapped" unfolding step by (simp only: option.case)
    with good show False unfolding aligned_outcome_def by simp
  qed
  then obtain e where e: "read_pte C ?a = Some e" by blast
  have le: "le_entry n C ?a = Some (take_bit (8 * n) e)" by (rule le_entry_read_pte [OF e n(1)])
  have w: "walk_from spec C (s # ss) p v = (if e AND m = p AND m then Walk_Fault else walk_from spec C ss e v)"
    unfolding step e option.case by (rule if_cong) (rule eq_commute, rule refl, rule refl)
  have "\<not> bit (take_bit (8 * n) e) 0 \<longleftrightarrow> \<not> bit e 0" using n(2) by (simp only: bit_take_bit_iff) simp
  then have t: "checked_entry n m C (take_bit (8 * n) p) off =
      (if e AND m = p AND m \<or> \<not> bit e 0 then None else Some (take_bit (8 * n) e))"
    by (simp only: checked_entry_def take_bit_and_mask [OF m] le Option.bind.bind_lunit)
  consider "e AND m = p AND m" | "e AND m \<noteq> p AND m" "\<not> bit e 0" | "e AND m \<noteq> p AND m" "bit e 0" by blast
  then show ?thesis
  proof cases
    case 3
    then show ?thesis using next_level [of e] good unfolding w t by (simp only: if_False simp_thms Option.bind.bind_lunit)
  qed (simp_all add: w t absent walk_outcome_def del: walk_from.simps)
qed

lemma walk_absent:
  assumes "present_bit spec = 0" and "0 < s" and "\<not> bit e 0"
  shows "walk_from spec C (s # ss) e v = Walk_Fault"
  using assms by (simp add: check_entry_def bit_at_iff)

text \<open>A page: its frame has no bits below its size, so the offset falls between the two masks.\<close>

definition mode_page :: "arch_mmu_spec \<Rightarrow> nat \<Rightarrow> u64 \<Rightarrow> nat \<Rightarrow> bool" where
  "mode_page spec s m k \<longleftrightarrow> step_bits spec s = k \<and> (\<forall>e. pte_addr_mask spec e s = Some (e AND m)) \<and>
     (\<forall>e v. map_option pa_address (get_phys_page spec e v s) = Some ((e AND m) OR (v AND mask k)))"

lemma walk_page:
  assumes page: "mode_page spec s m k"
    and e: "present_bit spec = 0" "bit e 0" "is_final_mapping spec e s"
    and good: "aligned_outcome spec (walk_from spec C (s # ss) e v)"
  shows "walk_outcome spec v (walk_from spec C (s # ss) e v) = Some ((e AND m AND NOT (mask k)) OR (v AND mask k))"
proof -
  have w: "walk_from spec C (s # ss) e v = Walk_Entry e s"
    using e by (simp add: check_entry_def bit_at_iff)
  have "unat (e AND m) mod 2 ^ k = 0"
    using good page unfolding w by (simp add: aligned_outcome_def mode_page_def)
  then have "take_bit k (e AND m) = 0" by (simp only: word_unat_eq_iff unat_take_bit unsigned_0)
  then have "e AND m AND NOT (mask k) = e AND m"
    by (auto simp: bit_eq_iff bit_take_bit_iff bit_and_iff bit_not_iff bit_mask_iff)
  then show ?thesis using page unfolding w by (simp add: walk_outcome_def mode_page_def)
qed

lemma walk_level:
  assumes page: "mode_page spec s m k" and table: "mode_table spec s m v off"
    and n: "n \<le> 8" "0 < n" and m: "take_bit (8 * n) m = m"
    and spec: "present_bit spec = 0" "0 < s" "0 < s'" and final: "is_final_mapping spec e s \<longleftrightarrow> bit e 7"
    and next_level: "\<And>e. bit e 0 \<Longrightarrow> aligned_outcome spec (walk_from spec C (s' # ss) e v) \<Longrightarrow>
       walk_outcome spec v (walk_from spec C (s' # ss) e v) = ref (take_bit (8 * n) e)"
    and e: "bit e 0" and good: "aligned_outcome spec (walk_from spec C (s # s' # ss) e v)"
  shows "walk_outcome spec v (walk_from spec C (s # s' # ss) e v) =
     (if bit e 7 then Some ((e AND m AND NOT (mask k)) OR (v AND mask k))
      else Option.bind (checked_entry n m C (take_bit (8 * n) e) off) ref)"
proof (cases "bit e 7")
  case True
  then have "is_final_mapping spec e s" using final by simp
  from walk_page [OF page spec(1) e this good] True show ?thesis by (simp only: if_True)
next
  case False
  then have "\<not> is_final_mapping spec e s" using final by simp
  moreover have "check_entry spec e s" using e spec(1) by (simp add: check_entry_def bit_at_iff)
  ultimately have "walk_outcome spec v (walk_from spec C (s # s' # ss) e v) =
      Option.bind (checked_entry n m C (take_bit (8 * n) e) off) ref"
    by (intro walk_table [OF table n m _ _ walk_absent [OF spec(1,3)] next_level good])
  with False show ?thesis by (simp only: if_False)
qed

lemmas page_defs = mmu_defs mode_page_def step_bits_def get_phys_page_def virt_addr_to_page_offset_def
  page_size_step_def page_size_step_unchecked_def address_from_u64_def

lemma x64_pages:
  "mode_page (x86_mmu x64_spec) 2 0x000FFFFFFFFFF000 30"
  "mode_page (x86_mmu x64_spec) 3 0x000FFFFFFFFFF000 21"
  "mode_page (x86_mmu x64_spec) 4 0x000FFFFFFFFFF000 12"
  by (simp_all add: page_defs mask_eq_exp_minus_1)

lemma x32_pae_pages:
  "mode_page (x86_mmu x32_pae_spec) 2 0x0000000FFFFFF000 21"
  "mode_page (x86_mmu x32_pae_spec) 3 0x0000000FFFFFF000 12"
  by (simp_all add: page_defs mask_eq_exp_minus_1)

lemma x32_pages:
  "mode_page (x86_mmu x32_spec) (Suc 0) 0x00000000FFFFF000 22"
  "mode_page (x86_mmu x32_spec) 2 0x00000000FFFFF000 12"
  by (simp_all add: page_defs mask_eq_exp_minus_1)

section \<open>The three modes\<close>

lemma x86_bits_of_mode:
  "present_bit (x86_mmu x64_spec) = 0" "present_bit (x86_mmu x32_pae_spec) = 0" "present_bit (x86_mmu x32_spec) = 0"
  by (simp_all add: x64_spec_def x32_pae_spec_def x32_spec_def)

lemma steps_of_mode:
  "[0..<split_count (x86_mmu x64_spec)] = [0, 1, 2, 3, 4]"
  "[0..<split_count (x86_mmu x32_pae_spec)] = [0, 1, 2, 3]"
  "[0..<split_count (x86_mmu x32_spec)] = [0, 1, 2]"
  by code_simp+

lemma take_bit_all: "take_bit (8 * 8) e = (e :: u64)"
  by (simp add: take_bit_word_eq_self)

lemma x64_kinds:
  "check_entry (x86_mmu x64_spec) e 0" "\<not> is_final_mapping (x86_mmu x64_spec) e 0"
  "\<not> is_final_mapping (x86_mmu x64_spec) e (Suc 0)"
  "is_final_mapping (x86_mmu x64_spec) e 2 \<longleftrightarrow> bit e 7"
  "is_final_mapping (x86_mmu x64_spec) e 3 \<longleftrightarrow> bit e 7"
  "is_final_mapping (x86_mmu x64_spec) e 4"
  "0 < s \<Longrightarrow> check_entry (x86_mmu x64_spec) e s \<longleftrightarrow> bit e 0"
  by (simp_all add: check_entry_def is_final_mapping_def binary_search_is_ok_def bit_at_iff x64_spec_def)

lemmas page_masks = mask_eq_exp_minus_1 and.assoc

lemma x64_level_4:
  assumes "bit e 0" and "aligned_outcome (x86_mmu x64_spec) (walk_from (x86_mmu x64_spec) C [4] e v)"
  shows "walk_outcome (x86_mmu x64_spec) v (walk_from (x86_mmu x64_spec) C [4] e v) =
     Some ((e AND 0x000FFFFFFFFFF000) OR (v AND 0xFFF))"
  using walk_page [OF x64_pages(3) x86_bits_of_mode(1) assms(1) x64_kinds(6) assms(2)]
  by (simp add: page_masks)

lemma x64_level_3:
  assumes "bit e 0" and "aligned_outcome (x86_mmu x64_spec) (walk_from (x86_mmu x64_spec) C [3, 4] e v)"
  shows "walk_outcome (x86_mmu x64_spec) v (walk_from (x86_mmu x64_spec) C [3, 4] e v) =
     (if bit e 7 then Some ((e AND 0x000FFFFFFFE00000) OR (v AND 0x1FFFFF))
      else do {
        pte \<leftarrow> checked_entry 8 0x000FFFFFFFFFF000 C e (push_bit 3 (drop_bit 12 v AND 0x1FF));
        Some ((pte AND 0x000FFFFFFFFFF000) OR (v AND 0xFFF))
      })"
  using walk_level [OF x64_pages(2) x64_tables(4), where n = 8 and s' = 4 and ss = "[]" and e = e and C = C
      and ref = "\<lambda>pte. Some ((pte AND 0x000FFFFFFFFFF000) OR (v AND 0xFFF))",
      unfolded take_bit_all x86_bits_of_mode x64_kinds, OF _ _ _ _ _ _ _ x64_level_4 assms]
  by (simp add: page_masks)

lemma x64_level_2:
  assumes "bit e 0" and "aligned_outcome (x86_mmu x64_spec) (walk_from (x86_mmu x64_spec) C [2, 3, 4] e v)"
  shows "walk_outcome (x86_mmu x64_spec) v (walk_from (x86_mmu x64_spec) C [2, 3, 4] e v) =
     (if bit e 7 then Some ((e AND 0x000FFFFFC0000000) OR (v AND 0x3FFFFFFF))
      else do {
        pde \<leftarrow> checked_entry 8 0x000FFFFFFFFFF000 C e (push_bit 3 (drop_bit 21 v AND 0x1FF));
        (if bit pde 7 then Some ((pde AND 0x000FFFFFFFE00000) OR (v AND 0x1FFFFF))
         else do {
           pte \<leftarrow> checked_entry 8 0x000FFFFFFFFFF000 C pde (push_bit 3 (drop_bit 12 v AND 0x1FF));
           Some ((pte AND 0x000FFFFFFFFFF000) OR (v AND 0xFFF))
         })
      })"
  using walk_level [OF x64_pages(1) x64_tables(3), where n = 8 and s' = 3 and ss = "[4]" and e = e and C = C
      and ref = "\<lambda>pde. if bit pde 7 then Some ((pde AND 0x000FFFFFFFE00000) OR (v AND 0x1FFFFF))
         else do {
           pte \<leftarrow> checked_entry 8 0x000FFFFFFFFFF000 C pde (push_bit 3 (drop_bit 12 v AND 0x1FF));
           Some ((pte AND 0x000FFFFFFFFFF000) OR (v AND 0xFFF))
         }",
      unfolded take_bit_all x86_bits_of_mode x64_kinds, OF _ _ _ _ _ _ _ x64_level_3 assms]
  by (simp add: page_masks)

lemma x64_walk:
  assumes good: "aligned_outcome (x86_mmu x64_spec) (walk (x86_mmu x64_spec) C cr3 v)"
  shows "walk_outcome (x86_mmu x64_spec) v (walk (x86_mmu x64_spec) C cr3 v) = x64_checked C cr3 v"
proof -
  let ?w = "walk_from (x86_mmu x64_spec) C" and ?out = "walk_outcome (x86_mmu x64_spec) v"
  have w: "walk (x86_mmu x64_spec) C cr3 v = ?w [0, 1, 2, 3, 4] cr3 v"
    unfolding walk_def steps_of_mode ..
  let ?ref2 = "\<lambda>pdpte. if bit pdpte 7 then Some ((pdpte AND 0x000FFFFFC0000000) OR (v AND 0x3FFFFFFF))
      else do {
        pde \<leftarrow> checked_entry 8 0x000FFFFFFFFFF000 C pdpte (push_bit 3 (drop_bit 21 v AND 0x1FF));
        (if bit pde 7 then Some ((pde AND 0x000FFFFFFFE00000) OR (v AND 0x1FFFFF))
         else do {
           pte \<leftarrow> checked_entry 8 0x000FFFFFFFFFF000 C pde (push_bit 3 (drop_bit 12 v AND 0x1FF));
           Some ((pte AND 0x000FFFFFFFFFF000) OR (v AND 0xFFF))
         })
      }"
  let ?ref1 = "\<lambda>pml4e. Option.bind (checked_entry 8 0x000FFFFFFFFFF000 C pml4e (push_bit 3 (drop_bit 30 v AND 0x1FF))) ?ref2"
  have l1: "?out (?w [1, 2, 3, 4] e v) = ?ref1 e"
    if e: "bit e 0" and g: "aligned_outcome (x86_mmu x64_spec) (?w [1, 2, 3, 4] e v)" for e
    unfolding One_nat_def
    by (rule walk_table [OF x64_tables(2), where n = 8 and ss = "[2, 3, 4]" and p = e and C = C and ref = ?ref2,
        unfolded take_bit_all, OF _ _ _ _ _ walk_absent [OF x86_bits_of_mode(1)] x64_level_2 g [unfolded One_nat_def]])
      (use e in \<open>simp_all add: x64_kinds\<close>)
  have "?out (?w [0, 1, 2, 3, 4] cr3 v) =
      Option.bind (checked_entry 8 0x000FFFFFFFFFF000 C cr3 (push_bit 3 (drop_bit 39 v AND 0x1FF))) ?ref1"
    by (rule walk_table [OF x64_tables(1), where n = 8 and ss = "[1, 2, 3, 4]" and p = cr3 and C = C and ref = ?ref1,
        unfolded take_bit_all, OF _ _ _ _ _ walk_absent [OF x86_bits_of_mode(1)] l1 good [unfolded w]])
      (simp_all add: x64_kinds)
  then show ?thesis unfolding w x64_checked_def by simp
qed

lemma x32_pae_kinds:
  "check_entry (x86_mmu x32_pae_spec) e 0" "\<not> is_final_mapping (x86_mmu x32_pae_spec) e 0"
  "\<not> is_final_mapping (x86_mmu x32_pae_spec) e (Suc 0)"
  "is_final_mapping (x86_mmu x32_pae_spec) e 2 \<longleftrightarrow> bit e 7"
  "is_final_mapping (x86_mmu x32_pae_spec) e 3"
  "0 < s \<Longrightarrow> check_entry (x86_mmu x32_pae_spec) e s \<longleftrightarrow> bit e 0"
  by (simp_all add: check_entry_def is_final_mapping_def binary_search_is_ok_def bit_at_iff x32_pae_spec_def)

lemma x32_pae_level_3:
  assumes "bit e 0" and "aligned_outcome (x86_mmu x32_pae_spec) (walk_from (x86_mmu x32_pae_spec) C [3] e v)"
  shows "walk_outcome (x86_mmu x32_pae_spec) v (walk_from (x86_mmu x32_pae_spec) C [3] e v) =
     Some ((e AND 0x0000000FFFFFF000) OR (v AND 0xFFF))"
  using walk_page [OF x32_pae_pages(2) x86_bits_of_mode(2) assms(1) x32_pae_kinds(5) assms(2)]
  by (simp add: page_masks)

lemma x32_pae_level_2:
  assumes "bit e 0" and "aligned_outcome (x86_mmu x32_pae_spec) (walk_from (x86_mmu x32_pae_spec) C [2, 3] e v)"
  shows "walk_outcome (x86_mmu x32_pae_spec) v (walk_from (x86_mmu x32_pae_spec) C [2, 3] e v) =
     (if bit e 7 then Some ((e AND 0x0000000FFFE00000) OR (v AND 0x1FFFFF))
      else do {
        pte \<leftarrow> checked_entry 8 0x0000000FFFFFF000 C e (push_bit 3 (drop_bit 12 v AND 0x1FF));
        Some ((pte AND 0x0000000FFFFFF000) OR (v AND 0xFFF))
      })"
  using walk_level [OF x32_pae_pages(1) x32_pae_tables(3), where n = 8 and s' = 3 and ss = "[]" and e = e and C = C
      and ref = "\<lambda>pte. Some ((pte AND 0x0000000FFFFFF000) OR (v AND 0xFFF))",
      unfolded take_bit_all x86_bits_of_mode x32_pae_kinds, OF _ _ _ _ _ _ _ x32_pae_level_3 assms]
  by (simp add: page_masks)

lemma x32_pae_walk:
  assumes good: "aligned_outcome (x86_mmu x32_pae_spec) (walk (x86_mmu x32_pae_spec) C cr3 v)"
  shows "walk_outcome (x86_mmu x32_pae_spec) v (walk (x86_mmu x32_pae_spec) C cr3 v) = x32_pae_checked C cr3 v"
proof -
  let ?w = "walk_from (x86_mmu x32_pae_spec) C" and ?out = "walk_outcome (x86_mmu x32_pae_spec) v"
  have w: "walk (x86_mmu x32_pae_spec) C cr3 v = ?w [0, 1, 2, 3] cr3 v"
    unfolding walk_def steps_of_mode ..
  let ?ref2 = "\<lambda>pde. if bit pde 7 then Some ((pde AND 0x0000000FFFE00000) OR (v AND 0x1FFFFF))
      else do {
        pte \<leftarrow> checked_entry 8 0x0000000FFFFFF000 C pde (push_bit 3 (drop_bit 12 v AND 0x1FF));
        Some ((pte AND 0x0000000FFFFFF000) OR (v AND 0xFFF))
      }"
  let ?ref1 = "\<lambda>pdpte. Option.bind (checked_entry 8 0x0000000FFFFFF000 C pdpte (push_bit 3 (drop_bit 21 v AND 0x1FF))) ?ref2"
  have l1: "?out (?w [1, 2, 3] e v) = ?ref1 e"
    if e: "bit e 0" and g: "aligned_outcome (x86_mmu x32_pae_spec) (?w [1, 2, 3] e v)" for e
    unfolding One_nat_def
    by (rule walk_table [OF x32_pae_tables(2), where n = 8 and ss = "[2, 3]" and p = e and C = C and ref = ?ref2,
        unfolded take_bit_all, OF _ _ _ _ _ walk_absent [OF x86_bits_of_mode(2)] x32_pae_level_2 g [unfolded One_nat_def]])
      (use e in \<open>simp_all add: x32_pae_kinds\<close>)
  have "?out (?w [0, 1, 2, 3] cr3 v) =
      Option.bind (checked_entry 8 0x0000000FFFFFFFE0 C cr3 (push_bit 3 (drop_bit 30 v AND 3))) ?ref1"
    by (rule walk_table [OF x32_pae_tables(1), where n = 8 and ss = "[1, 2, 3]" and p = cr3 and C = C and ref = ?ref1,
        unfolded take_bit_all, OF _ _ _ _ _ walk_absent [OF x86_bits_of_mode(2)] l1 good [unfolded w]])
      (simp_all add: x32_pae_kinds)
  then show ?thesis unfolding w x32_pae_checked_def by simp
qed

text \<open>
  In the 32 bit mode the code reads eight bytes for an entry of four: the reference reads
  the lower four.
\<close>

lemma x32_kinds:
  "check_entry (x86_mmu x32_spec) e 0" "\<not> is_final_mapping (x86_mmu x32_spec) e 0"
  "is_final_mapping (x86_mmu x32_spec) e (Suc 0) \<longleftrightarrow> bit e 7"
  "is_final_mapping (x86_mmu x32_spec) e 2"
  by (simp_all add: check_entry_def is_final_mapping_def binary_search_is_ok_def bit_at_iff x32_spec_def)

lemma x32_level_2:
  assumes "bit e 0" and "aligned_outcome (x86_mmu x32_spec) (walk_from (x86_mmu x32_spec) C [2] e v)"
  shows "walk_outcome (x86_mmu x32_spec) v (walk_from (x86_mmu x32_spec) C [2] e v) =
     Some ((take_bit (8 * 4) e AND 0x00000000FFFFF000) OR (v AND 0xFFF))"
  using walk_page [OF x32_pages(2) x86_bits_of_mode(3) assms(1) x32_kinds(4) assms(2)]
  by (simp add: page_masks take_bit_and_mask del: take_bit_and)

lemma x32_level_1:
  assumes "bit e 0" and "aligned_outcome (x86_mmu x32_spec) (walk_from (x86_mmu x32_spec) C [Suc 0, 2] e v)"
  shows "walk_outcome (x86_mmu x32_spec) v (walk_from (x86_mmu x32_spec) C [Suc 0, 2] e v) =
     (if bit (take_bit (8 * 4) e) 7
      then Some ((take_bit (8 * 4) e AND 0x00000000FFC00000) OR (v AND 0x3FFFFF))
      else do {
        pte \<leftarrow> checked_entry 4 0x00000000FFFFF000 C (take_bit (8 * 4) e) (push_bit 2 (drop_bit 12 v AND 0x3FF));
        Some ((pte AND 0x00000000FFFFF000) OR (v AND 0xFFF))
      })"
  using walk_level [OF x32_pages(1) x32_tables(2), where n = 4 and s' = 2 and ss = "[]" and e = e and C = C
      and ref = "\<lambda>pte. Some ((pte AND 0x00000000FFFFF000) OR (v AND 0xFFF))",
      unfolded x86_bits_of_mode x32_kinds, OF _ _ _ _ _ _ _ x32_level_2 assms]
  by (simp add: page_masks take_bit_and_mask bit_take_bit_iff del: take_bit_and)

lemma x32_walk:
  assumes good: "aligned_outcome (x86_mmu x32_spec) (walk (x86_mmu x32_spec) C cr3 v)"
  shows "walk_outcome (x86_mmu x32_spec) v (walk (x86_mmu x32_spec) C cr3 v) = x32_checked C cr3 v"
proof -
  let ?w = "walk_from (x86_mmu x32_spec) C" and ?out = "walk_outcome (x86_mmu x32_spec) v"
  have w: "walk (x86_mmu x32_spec) C cr3 v = ?w [0, Suc 0, 2] cr3 v"
    unfolding walk_def steps_of_mode One_nat_def ..
  let ?ref1 = "\<lambda>pde. if bit pde 7 then Some ((pde AND 0x00000000FFC00000) OR (v AND 0x3FFFFF))
      else do {
        pte \<leftarrow> checked_entry 4 0x00000000FFFFF000 C pde (push_bit 2 (drop_bit 12 v AND 0x3FF));
        Some ((pte AND 0x00000000FFFFF000) OR (v AND 0xFFF))
      }"
  have "?out (?w [0, Suc 0, 2] cr3 v) =
      Option.bind (checked_entry 4 0x00000000FFFFF000 C (take_bit (8 * 4) cr3) (push_bit 2 (drop_bit 22 v AND 0x3FF))) ?ref1"
    by (rule walk_table [OF x32_tables(1), where n = 4 and ss = "[Suc 0, 2]" and p = cr3 and C = C and ref = ?ref1,
        OF _ _ _ _ _ walk_absent [OF x86_bits_of_mode(3)] x32_level_1 good [unfolded w]])
      (simp_all add: x32_kinds)
  also have "checked_entry 4 0x00000000FFFFF000 C (take_bit (8 * 4) cr3) (push_bit 2 (drop_bit 22 v AND 0x3FF)) =
      checked_entry 4 0x00000000FFFFF000 C cr3 (push_bit 2 (drop_bit 22 v AND 0x3FF))"
    by (simp add: checked_entry_def take_bit_and_mask del: take_bit_and)
  finally show ?thesis unfolding w x32_checked_def by simp
qed

section \<open>Properties\<close>

lemma walk_phys_paging:
  assumes "arch \<in> x86_archs" and "walk (x86_mmu arch) C cr3 v \<noteq> Walk_Unmapped" and "frame_aligned arch C cr3 v"
  shows "walk_phys arch C cr3 v = (if x86_self_mapped arch C cr3 v then None else x86_paging arch C cr3 v)"
proof -
  have good: "aligned_outcome (x86_mmu arch) (walk (x86_mmu arch) C cr3 v)"
    using assms(2,3) by (simp add: aligned_outcome_def frame_aligned_def)
  have out: "walk_phys arch C cr3 v = walk_outcome (x86_mmu arch) v (walk (x86_mmu arch) C cr3 v)"
    by (simp only: walk_phys_def walk_outcome_def)
  have ne: "x64_spec \<noteq> x32_pae_spec" "x64_spec \<noteq> x32_spec" "x32_pae_spec \<noteq> x32_spec"
    by (simp_all add: x64_spec_def x32_pae_spec_def x32_spec_def)
  from assms(1) consider "arch = x64_spec" | "arch = x32_pae_spec" | "arch = x32_spec"
    by (auto simp: x86_archs_def)
  then show ?thesis
  proof cases
    case 1
    with good out show ?thesis by (simp only: x86_self_mapped_def x86_paging_def if_True simp_thms x64_walk x64_checked_if)
  next
    case 2
    with good out ne show ?thesis
      by (simp only: x86_self_mapped_def x86_paging_def if_True if_False simp_thms x32_pae_walk x32_pae_checked_if ne [symmetric])
  next
    case 3
    with good out ne show ?thesis
      by (simp only: x86_self_mapped_def x86_paging_def if_False simp_thms x32_walk x32_checked_if ne [symmetric])
  qed
qed

text \<open>
  C1. \<open>virt_to_phys\<close> is x86 paging, self-map entries apart. For each of the three modes, over
  any memory that can be read, and for a virtual address other than the last one whose walk
  stays inside backed tables and does not end at a large page with bits set below its size:
  the translation returns. If the walk of the address meets a table entry that points back to
  its own table (a self-map entry), the outcome is the translation error; for every other
  address it is the physical address that the paging structures of the processor manual
  assign to it (4 KiB, 2 MiB, 4 MiB and 1 GiB pages), and the translation error exactly where
  they assign none. The reference is the rule of the manual alone and has no such check, so
  for self-map entries the property records a departure of the code.
\<close>

theorem virt_to_phys_is_x86_paging:
  assumes "matching_memory pm mem_ok content" and "mem_ok m"
    and "arch \<in> {x64_spec, x32_spec, x32_pae_spec}" and "unat v < 18446744073709551615"
    and "walk (x86_mmu arch) (content m) dtb v \<noteq> Walk_Unmapped" and "frame_aligned arch (content m) dtb v"
  shows "\<exists>r m'. direct_virt_to_phys cap tm pm m (xst_new arch dtb) v = Some (r, m') \<and>
     scoped_virt_to_phys cap tm pm (xst_new arch dtb) m v = Some (r, m') \<and>
     mem_ok m' \<and> content m' = content m \<and>
     (if x86_self_mapped arch (content m) dtb v then r = Inl VirtualTranslate
      else (case x86_paging arch (content m) dtb v of
        Some pa \<Rightarrow> \<exists>p. r = Inr p \<and> pa_address p = pa
      | None \<Rightarrow> r = Inl VirtualTranslate))"
proof -
  let ?w = "walk (x86_mmu arch) (content m) dtb v"
  define r where "r = (case ?w of Walk_Entry pte step \<Rightarrow> Inr (the (get_phys_page (x86_mmu arch) pte v step))
            | _ \<Rightarrow> Inl VirtualTranslate)"
  obtain m' where run: "scoped_virt_to_phys cap tm pm (xst_new arch dtb) m v = Some (r, m')"
    "direct_virt_to_phys cap tm pm m (xst_new arch dtb) v = scoped_virt_to_phys cap tm pm (xst_new arch dtb) m v"
    "mem_ok m'" "content m' = content m"
    unfolding r_def using virt_to_phys_walk [OF assms(1-5)] by blast
  have arch: "arch \<in> x86_archs" using assms(3) by (auto simp: x86_archs_def)
  have "case walk_phys arch (content m) dtb v of
      Some pa \<Rightarrow> \<exists>p. r = Inr p \<and> pa_address p = pa | None \<Rightarrow> r = Inl VirtualTranslate"
  proof (cases ?w)
    case (Walk_Entry pte k)
    obtain p where "get_phys_page (x86_mmu arch) pte v k = Some p"
      using phys_page_shape [OF arch walk_entry_final [OF Walk_Entry]] by blast
    then show ?thesis unfolding walk_phys_def r_def by (simp add: Walk_Entry)
  qed (use assms(5) in \<open>simp_all add: walk_phys_def r_def\<close>)
  with run show ?thesis unfolding walk_phys_paging [OF arch assms(5,6)]
    by (intro exI conjI) (rule run(2) [unfolded run(1)], assumption+, simp split: if_splits)
qed

theorem virt_to_phys_is_x86_paging_witness:
  "\<exists>r m'. direct_virt_to_phys (\<lambda>_. 0) list_tree_map reference_memory (example_tables 0xB0)
       (xst_new x64_spec 0x1000) 0x1234 = Some (r, m') \<and>
     x86_paging x64_spec (example_tables 0xB0) 0x1000 0x1234 = Some 0x9234 \<and>
     (\<exists>p. r = Inr p \<and> pa_address p = 0x9234)"
proof -
  have "walkable x64_spec (example_tables 0xB0) 0x1000 0x1000 0x2000"
    by (rule example_walkable) simp_all
  then have "0x234 < (0x2000 :: nat) \<longrightarrow>
      walk (x86_mmu x64_spec) (example_tables 0xB0) 0x1000 (0x1000 + of_nat 0x234) \<noteq> Walk_Unmapped \<and>
      frame_aligned x64_spec (example_tables 0xB0) 0x1000 (0x1000 + of_nat 0x234)"
    unfolding walkable_def by (elim conjE) (erule spec)
  then have f: "frame_aligned x64_spec (example_tables 0xB0) 0x1000 0x1234" by simp
  have x: "x86_paging x64_spec (example_tables 0xB0) 0x1000 0x1234 = Some 0x9234"
    "x86_self_mapped x64_spec (example_tables 0xB0) 0x1000 0x1234 = False"
    by code_simp+
  from virt_to_phys_is_x86_paging [OF reference.matching_memory_axioms, where m = "example_tables 0xB0" and
      arch = x64_spec and v = "0x1234" and dtb = "0x1000" and cap = "\<lambda>_. 0" and tm = list_tree_map]
    f example_mapped
  show ?thesis by (auto simp: x)
qed

text \<open>
  The self map of one table: its first entry is present and points to the table itself. The
  manual assigns the table to the address 0 at every level, and the walk of the code fails.
\<close>

definition self_map :: "u64 \<Rightarrow> u8 option" where
  "self_map a = Some (if a = 0x1000 then 1 else if a = 0x1001 then 0x10 else 0)"

lemma self_map_not_translated:
  "x86_paging x64_spec self_map 0x1000 0 = Some 0x1000" "x86_self_mapped x64_spec self_map 0x1000 0"
  "walk (x86_mmu x64_spec) self_map 0x1000 0 = Walk_Fault"
  by code_simp+

text \<open>
  A large page with the bit 12 set, which selects a memory type in its entry and is no part
  of the frame: the code takes it for an address bit.
\<close>

lemma large_page_attribute_bit:
  assumes "bit e 12"
  shows "\<exists>p. get_phys_page (x86_mmu x64_spec) e v 3 = Some p \<and> bit (pa_address p) 12"
proof -
  have "map_option pa_address (get_phys_page (x86_mmu x64_spec) e v 3) =
      Some ((e AND 0x000FFFFFFFFFF000) OR (v AND mask 21))"
    using x64_pages(2) by (simp only: mode_page_def)
  then obtain p where p: "get_phys_page (x86_mmu x64_spec) e v 3 = Some p"
    "pa_address p = (e AND 0x000FFFFFFFFFF000) OR (v AND mask 21)"
    by (cases "get_phys_page (x86_mmu x64_spec) e v 3") simp_all
  have "bit (0x000FFFFFFFFFF000 :: u64) 12" by code_simp
  with assms have "bit (pa_address p) 12" unfolding p by (simp only: bit_or_iff bit_and_iff simp_thms)
  with p(1) show ?thesis by blast
qed

end
