(* ===== verification/Win32_Base.thy ===== *)
theory Win32_Base
  imports Virtual_Dma
begin

text \<open>
  What the crate \<open>memflow-win32\<close> shares: its error type (\<open>error.rs\<close>), the version and the
  symbol identifier of a kernel (\<open>kernel/mod.rs\<close>), the start block with the search for it in
  physical memory (\<open>kernel/start_block.rs\<close> and below), and the operations its functions are
  composed of: a step changes a state, and returns a value, an error or nothing (a panic).
  The lemmas are the rules with which steps are run.
\<close>

section \<open>Errors\<close>

text \<open>The error type of \<open>pelite\<close> is a parameter.\<close>

datatype 'p w32_error =
    W32Other string
  | W32Bounds
  | W32InvalidArchitecture
  | W32Initialization string
  | W32SymbolStore string
  | W32ProcessInfo
  | W32ModuleInfo
  | W32Core error
  | W32PDB string
  | W32PE 'p
  | W32Encoding
  | W32Unicode string

type_synonym ('p, 'a) w32_result = "'p w32_error + 'a"

definition w32_from_str :: "string \<Rightarrow> 'p w32_error" where "w32_from_str e = W32Other e"

definition w32_from_error :: "error \<Rightarrow> 'p w32_error" where "w32_from_error e = W32Core e"

definition w32_from_partial :: "'a partial_error \<Rightarrow> 'p w32_error" where
  "w32_from_partial e = W32Core Partial"

definition w32_from_pe :: "'p \<Rightarrow> 'p w32_error" where "w32_from_pe e = W32PE e"

definition w32_from_utf8 :: "unit \<Rightarrow> 'p w32_error" where "w32_from_utf8 e = W32Encoding"

fun w32_to_str_pair :: "('p \<Rightarrow> string) \<Rightarrow> 'p w32_error \<Rightarrow> string \<times> string option" where
  "w32_to_str_pair pe (W32Other e) = (''other error'', Some e)"
| "w32_to_str_pair pe W32Bounds = (''out of bounds'', None)"
| "w32_to_str_pair pe W32InvalidArchitecture = (''invalid architecture'', None)"
| "w32_to_str_pair pe (W32Initialization e) = (''error during initialization'', Some e)"
| "w32_to_str_pair pe (W32SymbolStore e) = (''error in symbol store'', Some e)"
| "w32_to_str_pair pe W32ProcessInfo = (''error retrieving process info'', None)"
| "w32_to_str_pair pe W32ModuleInfo = (''error retrieving module info'', None)"
| "w32_to_str_pair pe (W32Core e) = (''error in core'', Some (error_to_str e))"
| "w32_to_str_pair pe (W32PDB e) = (''error handling pdb'', Some e)"
| "w32_to_str_pair pe (W32PE e) = (''error handling pe'', Some (pe e))"
| "w32_to_str_pair pe W32Encoding = (''encoding error'', None)"
| "w32_to_str_pair pe (W32Unicode e) = (''error reading unicode string'', Some e)"

definition w32_to_str :: "('p \<Rightarrow> string) \<Rightarrow> 'p w32_error \<Rightarrow> string" where
  "w32_to_str pe e = fst (w32_to_str_pair pe e)"

definition w32_display :: "('p \<Rightarrow> string) \<Rightarrow> 'p w32_error \<Rightarrow> string" where
  "w32_display pe e = display_pair (w32_to_str_pair pe e)"

section \<open>Steps\<close>

text \<open>
  A step on a state. \<open>and_then\<close> is the operator \<open>?\<close> with the rest of the function behind it;
  \<open>w32_partial\<close> and \<open>w32_data_part\<close> are \<open>read?\<close> and \<open>read.data_part()?\<close> on the partial
  results of the core library; \<open>attempt\<close> is a call whose error is inspected.
\<close>

type_synonym ('s, 'p, 'a) w32_step = "'s \<Rightarrow> (('p, 'a) w32_result \<times> 's) option"

definition done_with :: "'a \<Rightarrow> ('s, 'p, 'a) w32_step" where
  "done_with a s = Some (Inr a, s)"

definition fail_with :: "'p w32_error \<Rightarrow> ('s, 'p, 'a) w32_step" where
  "fail_with e s = Some (Inl e, s)"

definition and_then :: "('s, 'p, 'a) w32_step \<Rightarrow> ('a \<Rightarrow> ('s, 'p, 'b) w32_step) \<Rightarrow> ('s, 'p, 'b) w32_step" where
  "and_then m f s =
     (case m s of
        None \<Rightarrow> None
      | Some (Inl e, s') \<Rightarrow> Some (Inl e, s')
      | Some (Inr a, s') \<Rightarrow> f a s')"

definition attempt :: "('s, 'p, 'a) w32_step \<Rightarrow> (('p, 'a) w32_result \<Rightarrow> ('s, 'p, 'b) w32_step) \<Rightarrow> ('s, 'p, 'b) w32_step" where
  "attempt m f s = (case m s of None \<Rightarrow> None | Some (r, s') \<Rightarrow> f r s')"

definition w32_try :: "('p, 'a) w32_result \<Rightarrow> ('s, 'p, 'a) w32_step" where
  "w32_try r s = Some (r, s)"

definition may_panic :: "'a option \<Rightarrow> ('s, 'p, 'a) w32_step" where
  "may_panic r s = map_option (\<lambda>a. (Inr a, s)) r"

definition w32_partial :: "('s \<Rightarrow> ('a partial_result \<times> 's) option) \<Rightarrow> ('s, 'p, 'a) w32_step" where
  "w32_partial m s = map_option (\<lambda>(r, s).
     (case r of Inl e \<Rightarrow> Inl (w32_from_partial e) | Inr a \<Rightarrow> Inr a, s)) (m s)"

definition w32_data_part :: "('s \<Rightarrow> ('a partial_result \<times> 's) option) \<Rightarrow> ('s, 'p, 'a) w32_step" where
  "w32_data_part m s = map_option (\<lambda>(r, s).
     (case pr_data_part r of Inl e \<Rightarrow> Inl (w32_from_error e) | Inr a \<Rightarrow> Inr a, s)) (m s)"

lemma and_then_simps [simp]:
  "and_then (done_with a) f s = f a s"
  "and_then (fail_with e) f s = Some (Inl e, s)"
  "and_then (w32_try (Inl e)) f s = Some (Inl e, s)"
  "and_then (w32_try (Inr a)) f s = f a s"
  "and_then (may_panic None) f s = None"
  "and_then (may_panic (Some a)) f s = f a s"
  by (simp_all add: and_then_def done_with_def fail_with_def w32_try_def may_panic_def)

lemma attempt_simps [simp]:
  "attempt (done_with a) f s = f (Inr a) s"
  "attempt (fail_with e) f s = f (Inl e) s"
  by (simp_all add: attempt_def done_with_def fail_with_def)

lemma and_then_ok: "m s = Some (Inr a, s') \<Longrightarrow> and_then m f s = f a s'"
  by (simp add: and_then_def)

lemma attempt_ok: "m s = Some (r, s') \<Longrightarrow> attempt m f s = f r s'"
  by (simp add: attempt_def)

text \<open>A read into a buffer, as a step that returns what the buffer holds afterwards.\<close>

definition read_raw_into :: "'v virt_mem \<Rightarrow> address \<Rightarrow> u8 list \<Rightarrow> 'v \<Rightarrow> (u8 list partial_result \<times> 'v) option" where
  "read_raw_into vm addr out self =
     map_option (\<lambda>(r, buf, self).
       (case r of
          Inl (HardError e) \<Rightarrow> Inl (HardError e)
        | Inl (PartialVirtualRead _) \<Rightarrow> Inl (PartialVirtualRead buf)
        | Inl PartialVirtualWrite \<Rightarrow> Inl PartialVirtualWrite
        | Inr _ \<Rightarrow> Inr buf, self))
     (virt_read_raw_into vm self addr out)"

section \<open>Strings\<close>

text \<open>
  A Rust \<open>str\<close> that is read from the target is its UTF-8 bytes; \<open>utf8_of\<close> is a literal.
\<close>

definition utf8_of :: "string \<Rightarrow> u8 list" where "utf8_of s = map of_char s"

function utf8_valid :: "u8 list \<Rightarrow> bool" where
  "utf8_valid s =
     (if s = [] then True
      else case utf8_char s of (n, valid) \<Rightarrow> if valid then utf8_valid (drop n s) else False)"
  by auto
termination
  by (relation "measure length") (auto intro: utf8_char_shrinks)

declare utf8_valid.simps [simp del]

text \<open>Unsigned numbers in decimal and in capital hexadecimal digits.\<close>

fun digits_of :: "nat \<Rightarrow> nat \<Rightarrow> nat list" where
  "digits_of base n = (if base < 2 \<or> n < base then [n] else digits_of base (n div base) @ [n mod base])"

definition digit_char :: "nat \<Rightarrow> char" where
  "digit_char d = char_of (if d < 10 then d + 48 else d + 55)"

definition dec_str :: "nat \<Rightarrow> string" where "dec_str n = map digit_char (digits_of 10 n)"
definition hex_str :: "nat \<Rightarrow> string" where "hex_str n = map digit_char (digits_of 16 n)"

section \<open>Versions\<close>

record win32_guid =
  wg_file_name :: "u8 list"
  wg_guid :: "u8 list"

definition wg_new :: "u8 list \<Rightarrow> u8 list \<Rightarrow> win32_guid" where
  "wg_new file_name guid = \<lparr>wg_file_name = file_name, wg_guid = guid\<rparr>"

record win32_version =
  nt_major_version :: u32
  nt_minor_version :: u32
  nt_build_number :: u32

definition wv_default :: win32_version where
  "wv_default = \<lparr>nt_major_version = 0, nt_minor_version = 0, nt_build_number = 0\<rparr>"

definition wv_new :: "u32 \<Rightarrow> u32 \<Rightarrow> u32 \<Rightarrow> win32_version" where
  "wv_new major minor build =
     \<lparr>nt_major_version = major, nt_minor_version = minor, nt_build_number = build\<rparr>"

definition mask_build_number :: "win32_version \<Rightarrow> win32_version" where
  "mask_build_number v = v\<lparr>nt_build_number := nt_build_number v AND 0xFFFF\<rparr>"

definition major_version :: "win32_version \<Rightarrow> u32" where "major_version v = nt_major_version v"
definition minor_version :: "win32_version \<Rightarrow> u32" where "minor_version v = nt_minor_version v"

definition build_number :: "win32_version \<Rightarrow> u32" where
  "build_number v = nt_build_number v AND 0xFFFF"

definition is_checked_build :: "win32_version \<Rightarrow> bool" where
  "is_checked_build v \<longleftrightarrow> nt_build_number v AND 0xF0000000 = 0xC0000000"

definition wv_as_tuple :: "win32_version \<Rightarrow> u32 \<times> u32 \<times> u32" where
  "wv_as_tuple v = (major_version v, minor_version v, build_number v)"

definition wv_cmp :: "win32_version \<Rightarrow> win32_version \<Rightarrow> ordering" where
  "wv_cmp v w =
     (if nt_build_number v \<noteq> 0 \<and> nt_build_number w \<noteq> 0
      then cmp_of (nt_build_number v) (nt_build_number w)
      else if nt_major_version v \<noteq> nt_major_version w
      then cmp_of (nt_major_version v) (nt_major_version w)
      else if nt_minor_version v \<noteq> nt_minor_version w
      then cmp_of (nt_minor_version v) (nt_minor_version w)
      else Equal)"

definition wv_partial_cmp :: "win32_version \<Rightarrow> win32_version \<Rightarrow> ordering option" where
  "wv_partial_cmp v w = Some (wv_cmp v w)"

definition wv_eq :: "win32_version \<Rightarrow> win32_version \<Rightarrow> bool" where
  "wv_eq v w \<longleftrightarrow>
     (if nt_build_number v \<noteq> 0 \<and> nt_build_number w \<noteq> 0
      then nt_build_number v = nt_build_number w
      else nt_major_version v = nt_major_version w \<and> nt_minor_version v = nt_minor_version w)"

definition wv_from_pair :: "u32 \<times> u32 \<Rightarrow> win32_version" where
  "wv_from_pair p = wv_new (fst p) (snd p) 0"

definition wv_from_triple :: "u32 \<times> u32 \<times> u32 \<Rightarrow> win32_version" where
  "wv_from_triple p = wv_new (fst p) (fst (snd p)) (snd (snd p))"

definition wv_display :: "win32_version \<Rightarrow> string" where
  "wv_display v =
     (if nt_major_version v \<noteq> 0
      then dec_str (unat (major_version v)) @ ''.'' @ dec_str (unat (minor_version v)) @ ''.'' @
        dec_str (unat (build_number v))
      else dec_str (unat (build_number v)))"

text \<open>
  A version without a build number is compared by its major and minor numbers, so neither the
  equality nor the order is transitive, although both traits promise it.
\<close>

lemma version_order_not_transitive:
  "wv_eq (wv_new 10 0 1) (wv_new 10 0 0)" "wv_eq (wv_new 10 0 0) (wv_new 10 0 2)"
  "\<not> wv_eq (wv_new 10 0 1) (wv_new 10 0 2)"
  "wv_cmp (wv_new 10 0 1) (wv_new 5 1 2) = Less" "wv_cmp (wv_new 5 1 2) (wv_new 6 0 0) = Less"
  "wv_cmp (wv_new 6 0 0) (wv_new 10 0 1) = Less"
  by (simp_all add: wv_eq_def wv_cmp_def wv_new_def cmp_of_def)

section \<open>Start blocks\<close>

text \<open>\<open>ArchitectureObj\<close> is one of the three architecture objects, compared with \<open>==\<close>.\<close>

record start_block =
  sb_arch :: x86_architecture
  sb_kernel_hint :: address
  sb_dtb :: address

text \<open>\<open>c[a..a + n]\<close> as a little endian number; it panics when it is out of range.\<close>

definition le_at :: "u8 list \<Rightarrow> nat \<Rightarrow> nat \<Rightarrow> 'n::len word option" where
  "le_at c a n = (if a + n \<le> length c then Some (from_le_bytes (take n (drop a c))) else None)"

text \<open>\<open>Iterator::find\<close> and \<open>Iterator::filter\<close> with a predicate that may panic.\<close>

fun find_opt :: "('a \<Rightarrow> bool option) \<Rightarrow> 'a list \<Rightarrow> 'a option option" where
  "find_opt p [] = Some None"
| "find_opt p (x # xs) = do {
     b \<leftarrow> p x;
     (if b then Some (Some x) else find_opt p xs)
   }"

subsection \<open>\<open>start_block/x64.rs\<close>\<close>

definition lowstub_matches :: "u8 list \<Rightarrow> bool option" where
  "lowstub_matches c = do {
     start \<leftarrow> le_at c 0 8;
     (if 0xffffffffffff00ff AND start \<noteq> (0x00000001000600E9 :: u64) then Some False
      else do {
        entry \<leftarrow> le_at c 0x70 8;
        (if 0xfffff80000000003 AND entry \<noteq> (0xfffff80000000000 :: u64) then Some False
         else do {
           pml4 \<leftarrow> le_at c 0xa0 8;
           Some (0xffffff0000000fff AND pml4 = (0 :: u64))
         })
      })
   }"

definition x64_find_lowstub :: "u8 list \<Rightarrow> ('p, start_block) w32_result option" where
  "x64_find_lowstub stub = do {
     page_size \<leftarrow> arch_page_size x64_spec;
     found \<leftarrow> find_opt lowstub_matches (drop 1 (chunks_exact (unat page_size) stub));
     (case found of
        None \<Rightarrow> Some (Inl (W32Initialization ''unable to find x64 dtb in lowstub < 1M''))
      | Some c \<Rightarrow> do {
          hint \<leftarrow> le_at c 0x70 8;
          dtb \<leftarrow> le_at c 0xa0 8;
          Some (Inr \<lparr>sb_arch = x64_spec, sb_kernel_hint = address_from_u64 hint, sb_dtb = address_from_u64 dtb\<rparr>)
        })
   }"

text \<open>\<open>find_pt\<close>: \<open>mem[0x800..].chunks(8)\<close> as numbers, for the pages of 4096 bytes it is
  called with.\<close>

definition upper_entries :: "u8 list \<Rightarrow> u64 list option" where
  "upper_entries mem =
     (if length mem < 0x800 \<or> (length mem - 0x800) mod 8 \<noteq> 0 then None
      else Some (map from_le_bytes (chunks_exact 8 (drop 0x800 mem))))"

definition find_pt :: "address \<Rightarrow> u8 list \<Rightarrow> address option option" where
  "find_pt addr mem = do {
     let max_mem = 512 * 1024 * 1024 * 1024;
     pte \<leftarrow> le_at mem 0 8;
     (if pte AND 0x87 \<noteq> (7 :: u64) \<or> max_mem < pte AND 0x0000fffffffff000 then Some None
      else do {
        entries \<leftarrow> upper_entries mem;
        (if \<not> list_ex (\<lambda>a. (a XOR 0x63) AND NOT (shl64 1 63) = as_u64 addr) entries then Some None
         else if length (filter (\<lambda>a. a AND 0xff = 0x63) entries) \<le> 5 then Some None
         else Some (Some addr))
      })
   }"

fun first_pt :: "(address \<times> u8 list) list \<Rightarrow> address option option" where
  "first_pt [] = Some None"
| "first_pt ((addr, c) # cs) = do {
     r \<leftarrow> find_pt addr c;
     (case r of Some a \<Rightarrow> Some (Some a) | None \<Rightarrow> first_pt cs)
   }"

definition x64_find :: "u8 list \<Rightarrow> ('p, start_block) w32_result option" where
  "x64_find mem = do {
     page_size \<leftarrow> arch_page_size x64_spec;
     r \<leftarrow> first_pt (map (\<lambda>(i, c). (address_from_usize (of_nat i * page_size), c))
            (enumerate 0 (chunks_exact (unat page_size) mem)));
     Some (case r of
         Some addr \<Rightarrow> Inr \<lparr>sb_arch = x64_spec, sb_kernel_hint = 0, sb_dtb = addr\<rparr>
       | None \<Rightarrow> Inl (W32Initialization ''unable to find x64 dtb in lowstub < 16M''))
   }"

subsection \<open>\<open>start_block/x86pae.rs\<close>\<close>

definition x86pae_check_page :: "address \<Rightarrow> u8 list \<Rightarrow> bool" where
  "x86pae_check_page addr mem =
     list_all (\<lambda>(i, chunk). let qword = from_le_bytes (take 8 chunk) in
       \<not> (i < 4 \<and> qword \<noteq> as_u64 addr + shl64 (of_nat i * 8) 9 + 0x1001 \<or> 4 \<le> i \<and> qword \<noteq> 0))
       (enumerate 0 (chunks_exact 8 mem))"

definition x86pae_find :: "u8 list \<Rightarrow> ('p, start_block) w32_result option" where
  "x86pae_find mem = do {
     page_size \<leftarrow> arch_page_size x32_pae_spec;
     pages \<leftarrow> page_chunks_list slice_ops mem 0 page_size;
     Some (case find (\<lambda>(a, c). x86pae_check_page a c) pages of
         Some (a, _) \<Rightarrow> Inr \<lparr>sb_arch = x32_pae_spec, sb_kernel_hint = 0, sb_dtb = a\<rparr>
       | None \<Rightarrow> Inl (W32Initialization ''unable to find x86_pae dtb in lowstub < 16M''))
   }"

subsection \<open>\<open>start_block/x86.rs\<close>\<close>

text \<open>\<open>iter().step_by(4).skip(0x200)\<close>.\<close>

definition every_fourth :: "u8 list \<Rightarrow> u8 list" where
  "every_fourth mem = map (\<lambda>i. mem ! (4 * i)) [0..<(length mem + 3) div 4]"

definition x86_check_page :: "address \<Rightarrow> u8 list \<Rightarrow> bool option" where
  "x86_check_page base mem = do {
     first \<leftarrow> nth_opt mem 0;
     (if first \<noteq> 0x67 then Some False
      else do {
        dword \<leftarrow> le_at mem 0xc00 4;
        (if dword AND 0xfffff003 \<noteq> (as_u32 base + 3 :: u32) then Some False
         else Some (16 < length (filter (\<lambda>x. x = 0x63 \<or> x = 0xe3) (drop 0x200 (every_fourth mem)))))
      })
   }"

definition x86_find :: "u8 list \<Rightarrow> ('p, start_block) w32_result option" where
  "x86_find mem = do {
     page_size \<leftarrow> arch_page_size x32_spec;
     pages \<leftarrow> page_chunks_list slice_ops mem 0 page_size;
     r \<leftarrow> find_opt (\<lambda>(a, c). x86_check_page a c) pages;
     Some (case r of
         Some (a, _) \<Rightarrow> Inr \<lparr>sb_arch = x32_spec, sb_kernel_hint = 0, sb_dtb = a\<rparr>
       | None \<Rightarrow> Inl (W32Initialization ''unable to find x86 dtb in lowstub < 16M''))
   }"

subsection \<open>\<open>start_block.rs\<close>\<close>

text \<open>The low megabytes of physical memory.\<close>

definition read_low :: "'m phys_mem \<Rightarrow> nat \<Rightarrow> ('m, 'p, u8 list) w32_step" where
  "read_low pm n m = map_option (\<lambda>(r, buf, m).
     (case r of Inl e \<Rightarrow> Inl (w32_from_error e) | Inr _ \<Rightarrow> Inr buf, m))
     (phys_read_raw_into pm m PA_NULL (replicate n 0))"

definition find_fallback :: "'m phys_mem \<Rightarrow> x86_architecture \<Rightarrow> ('m, 'p, start_block) w32_step" where
  "find_fallback pm arch =
     (if arch = x64_spec
      then and_then (read_low pm (16 * 1024 * 1024)) (\<lambda>low16m.
        and_then (may_panic (x64_find low16m)) w32_try)
      else fail_with (W32Initialization ''start_block: fallback not implemented for given arch''))"

definition find_with_arch :: "'m phys_mem \<Rightarrow> x86_architecture \<Rightarrow> ('m, 'p, start_block) w32_step" where
  "find_with_arch pm arch =
     (if arch = x64_spec
      then and_then (read_low pm (1024 * 1024)) (\<lambda>low1m.
        and_then (may_panic (x64_find_lowstub low1m)) (\<lambda>r.
          (case (r :: ('p, start_block) w32_result) of
             Inr d \<Rightarrow> (if as_u64 (sb_dtb d) \<noteq> 0 then done_with d else find_fallback pm arch)
           | Inl e \<Rightarrow> find_fallback pm arch)))
      else if arch = x32_pae_spec
      then and_then (read_low pm (16 * 1024 * 1024)) (\<lambda>low16m.
        and_then (may_panic (x86pae_find low16m)) w32_try)
      else if arch = x32_spec
      then and_then (read_low pm (16 * 1024 * 1024)) (\<lambda>low16m.
        and_then (may_panic (x86_find low16m)) w32_try)
      else fail_with W32InvalidArchitecture)"

definition start_block_find :: "'m phys_mem \<Rightarrow> x86_architecture option \<Rightarrow> ('m, 'p, start_block) w32_step" where
  "start_block_find pm arch =
     (case arch of
        Some arch \<Rightarrow> find_with_arch pm arch
      | None \<Rightarrow>
          attempt (find_with_arch pm x64_spec) (\<lambda>r. case r of Inr d \<Rightarrow> done_with d | Inl _ \<Rightarrow>
          attempt (find_with_arch pm x32_pae_spec) (\<lambda>r. case r of Inr d \<Rightarrow> done_with d | Inl _ \<Rightarrow>
          attempt (find_with_arch pm x32_spec) (\<lambda>r. case r of Inr d \<Rightarrow> done_with d | Inl _ \<Rightarrow>
          fail_with (W32Initialization ''unable to find dtb'')))))"

end
