(* ===== verification/Win32_Ntos.thy ===== *)
theory Win32_Ntos
  imports Win32_Base
begin

text \<open>
  The search for the kernel image and the system process in virtual memory:
  \<open>kernel/ntos.rs\<close>, \<open>kernel/ntos/{pehelper,x64,x86}.rs\<close> and \<open>kernel/sysproc.rs\<close>. The crate
  \<open>pelite\<close> is a parameter: a record of its functions on objects nothing else is known of.
  The lemmas show that the search around the address hint ends.
\<close>

section \<open>The image parser\<close>

text \<open>
  \<open>'o\<close> are the objects of the crate: views, export tables, strings, debug entries. A forwarded
  export and the two kinds of optional headers and code views are what the code tells apart.
\<close>

datatype optional_header = OptT32 u32 | OptT64 u32
datatype pe_export = Symbol u32 | Forward
datatype 'o code_view = Cv70 'o | Cv20

record ('p, 'o) pelite =
  pe_from_bytes :: "u8 list \<Rightarrow> 'p + 'o"
  pe_optional_header :: "'o \<Rightarrow> optional_header"
  pe_export_by_name :: "'o \<Rightarrow> string \<Rightarrow> 'p + pe_export"
  pe_exports :: "'o \<Rightarrow> 'p + 'o"
  pe_dll_name :: "'o \<Rightarrow> 'p + 'o"
  pe_to_str :: "'o \<Rightarrow> u8 list option"
  pe_debug :: "'o \<Rightarrow> 'p + ('p + 'o) list"
  pe_as_code_view :: "'o \<Rightarrow> 'o code_view option"
  pe_age :: "'o code_view \<Rightarrow> u32"
  pe_pdb_file_name :: "'o code_view \<Rightarrow> 'o"
  pe_signature_hex :: "'o \<Rightarrow> string"
  pe_unmapped :: 'p
  pe_e_magic :: "u8 list \<Rightarrow> u16"
  pe_e_lfanew :: "u8 list \<Rightarrow> u32"

definition pe_view :: "('p, 'o) pelite \<Rightarrow> u8 list \<Rightarrow> ('s, 'p, 'o) w32_step" where
  "pe_view pe bytes = w32_try (case pe_from_bytes pe bytes of Inl e \<Rightarrow> Inl (W32PE e) | Inr v \<Rightarrow> Inr v)"

definition has_kernel_header :: "('p, 'o) pelite \<Rightarrow> u8 list \<Rightarrow> bool" where
  "has_kernel_header pe c \<longleftrightarrow> pe_e_magic pe c = 0x5a4d \<and> pe_e_lfanew pe c \<le> 0x800"

definition ntoskrnl :: "u8 list" where "ntoskrnl = utf8_of ''ntoskrnl.exe''"

section \<open>\<open>pehelper.rs\<close>\<close>

definition try_get_pe_size ::
  "('p, 'o) pelite \<Rightarrow> 'v virt_mem \<Rightarrow> address \<Rightarrow> ('v, 'p, usize) w32_step" where
  "try_get_pe_size pe vm probe_addr =
     and_then (w32_partial (read_raw_into vm probe_addr (replicate 4096 0))) (\<lambda>probe_buf.
     and_then (pe_view pe probe_buf) (\<lambda>pe_probe.
       let size_of_image = (case pe_optional_header pe pe_probe of OptT32 n \<Rightarrow> n | OptT64 n \<Rightarrow> n)
       in if size_of_image > 0 then done_with (ucast size_of_image)
          else fail_with (W32Initialization ''pe size_of_image is zero'')))"

definition try_get_pe_image ::
  "('p, 'o) pelite \<Rightarrow> 'v virt_mem \<Rightarrow> address \<Rightarrow> ('v, 'p, u8 list) w32_step" where
  "try_get_pe_image pe vm probe_addr =
     and_then (try_get_pe_size pe vm probe_addr) (\<lambda>size_of_image.
       w32_data_part (\<lambda>s. virt_read_raw vm s probe_addr size_of_image))"

definition try_get_pe_name ::
  "('p, 'o) pelite \<Rightarrow> 'v virt_mem \<Rightarrow> address \<Rightarrow> ('v, 'p, u8 list) w32_step" where
  "try_get_pe_name pe vm probe_addr =
     and_then (try_get_pe_image pe vm probe_addr) (\<lambda>image.
     and_then (pe_view pe image) (\<lambda>view.
       (case pe_exports pe view of
          Inl _ \<Rightarrow> fail_with (W32Initialization ''unable to get exports'')
        | Inr exports \<Rightarrow>
            (case pe_dll_name pe exports of
               Inl _ \<Rightarrow> fail_with (W32Initialization ''unable to get dll name'')
             | Inr cstr \<Rightarrow>
                 (case pe_to_str pe cstr of
                    None \<Rightarrow> fail_with W32Encoding
                  | Some name \<Rightarrow> done_with name)))))"

section \<open>\<open>ntos/x64.rs\<close>\<close>

text \<open>The pages of two megabytes, with the first that is the kernel.\<close>

fun find_va_page ::
  "('p, 'o) pelite \<Rightarrow> 'v virt_mem \<Rightarrow> u64 \<Rightarrow> (nat \<times> u8 list) list \<Rightarrow> ('v, 'p, u64) w32_step" where
  "find_va_page pe vm va_base [] =
     fail_with (W32Initialization ''unable to locate ntoskrnl.exe'')"
| "find_va_page pe vm va_base ((i, c) # cs) =
     (if has_kernel_header pe c
      then attempt (try_get_pe_name pe vm (va_base + of_nat i * 0x1000)) (\<lambda>r.
        if (case r of Inr name \<Rightarrow> name | Inl _ \<Rightarrow> []) = ntoskrnl
        then done_with (va_base + of_nat i * 0x1000)
        else find_va_page pe vm va_base cs)
      else find_va_page pe vm va_base cs)"

definition find_with_va ::
  "('p, 'o) pelite \<Rightarrow> 'v virt_mem \<Rightarrow> u64 \<Rightarrow> ('v, 'p, u64) w32_step" where
  "find_with_va pe vm va_base =
     and_then (w32_data_part (read_raw_into vm (address_from_u64 va_base) (replicate (2 * 1024 * 1024) 0))) (\<lambda>buf.
     and_then (may_panic (arch_page_size x64_spec)) (\<lambda>page_size.
       find_va_page pe vm va_base (enumerate 0 (chunks_exact (unat page_size) buf))))"

text \<open>The \<open>while\<close> loop, on wrapping 64 bit numbers.\<close>

partial_function (option) va_hint_loop ::
  "('p, 'o) pelite \<Rightarrow> 'v virt_mem \<Rightarrow> u64 \<Rightarrow> u64 \<Rightarrow> 'v \<Rightarrow> (('p, address \<times> usize) w32_result \<times> 'v) option" where
  "va_hint_loop pe vm hint va_base s =
     (if va_base + 16 * 1024 * 1024 > hint
      then Option.bind (find_with_va pe vm va_base s) (\<lambda>(r, s).
        (case r of
           Inr a \<Rightarrow>
             and_then (try_get_pe_size pe vm (address_from_u64 a)) (\<lambda>size_of_image.
               done_with (address_from_u64 a, size_of_image)) s
         | Inl e \<Rightarrow> va_hint_loop pe vm hint (va_base - 2 * 1024 * 1024) s))
      else fail_with (W32Initialization
             ''x64::find_with_va_hint: unable to locate ntoskrnl.exe via va hint'') s)"

definition find_with_va_hint ::
  "('p, 'o) pelite \<Rightarrow> 'v virt_mem \<Rightarrow> start_block \<Rightarrow> ('v, 'p, address \<times> usize) w32_step" where
  "find_with_va_hint pe vm start_block =
     (let hint = as_u64 (sb_kernel_hint start_block)
      in va_hint_loop pe vm hint (hint AND NOT 0x1ffff))"

text \<open>\<open>filter_map(..ok()).next()\<close> over the chunks of two megabytes.\<close>

fun first_va ::
  "('p, 'o) pelite \<Rightarrow> 'v virt_mem \<Rightarrow> (address \<times> usize) list \<Rightarrow> ('v, 'p, u64 option) w32_step" where
  "first_va pe vm [] = done_with None"
| "first_va pe vm ((va, _) # cs) =
     attempt (find_with_va pe vm (as_u64 va)) (\<lambda>r.
       (case r of Inr a \<Rightarrow> done_with (Some a) | Inl _ \<Rightarrow> first_va pe vm cs))"

definition x64_ntos_find ::
  "('p, 'o) pelite \<Rightarrow> 'v virt_mem \<Rightarrow> start_block \<Rightarrow> ('v, 'p, address \<times> usize) w32_step" where
  "x64_ntos_find pe vm start_block =
     (let read_map = (\<lambda>s. map_option (\<lambda>(m, s). (Inr m, s))
        (vm_page_map_range vm s (2 * 1024 * 1024)
          (address_from_u64 (NOT 0 - shl64 1 (ucast (arch_address_space_bits (sb_arch start_block) - 1))))
          (address_from_u64 (NOT 0)))) in
     and_then read_map (\<lambda>page_map.
     and_then (may_panic (those (map (\<lambda>(va, size). page_chunks_list usize_ops size va (2 * 1024 * 1024)) page_map)))
       (\<lambda>chunks.
     and_then (first_va pe vm (filter (\<lambda>(_, size). size = 2 * 1024 * 1024) (concat chunks))) (\<lambda>found.
       (case found of
          Some a \<Rightarrow>
            and_then (try_get_pe_size pe vm (address_from_u64 a)) (\<lambda>size_of_image.
              done_with (address_from_u64 a, size_of_image))
        | None \<Rightarrow> fail_with (W32Initialization
            ''x64::find: unable to locate ntoskrnl.exe with a page map''))))))"

section \<open>\<open>ntos/x86.rs\<close>\<close>

text \<open>The pages of one buffer of eight megabytes; \<open>&buf[addr..]\<close> is the view of a page.\<close>

fun x86_scan_pages ::
  "('p, 'o) pelite \<Rightarrow> 'v virt_mem \<Rightarrow> u64 \<Rightarrow> u8 list \<Rightarrow> u64 list
     \<Rightarrow> ('v, 'p, (address \<times> usize) option) w32_step" where
  "x86_scan_pages pe vm base_addr buf [] = done_with None"
| "x86_scan_pages pe vm base_addr buf (addr # addrs) =
     (let view = drop (unat addr) buf; image_base = address_from_u64 (base_addr + addr)
      in if pe_e_magic pe view \<noteq> 0x5a4d then x86_scan_pages pe vm base_addr buf addrs
         else if pe_e_lfanew pe view > 0x800 then x86_scan_pages pe vm base_addr buf addrs
         else attempt (try_get_pe_name pe vm image_base) (\<lambda>name.
           if (case name of Inr n \<Rightarrow> n = ntoskrnl | Inl _ \<Rightarrow> False)
           then attempt (try_get_pe_size pe vm image_base) (\<lambda>size.
             (case size of
                Inr size_of_image \<Rightarrow> done_with (Some (image_base, size_of_image))
              | Inl _ \<Rightarrow> x86_scan_pages pe vm base_addr buf addrs))
           else x86_scan_pages pe vm base_addr buf addrs))"

fun x86_scan ::
  "('p, 'o) pelite \<Rightarrow> 'v virt_mem \<Rightarrow> u64 list \<Rightarrow> ('v, 'p, address \<times> usize) w32_step" where
  "x86_scan pe vm [] =
     fail_with (W32Initialization ''find_x86(): unable to locate ntoskrnl.exe in high mem'')"
| "x86_scan pe vm (base # bases) =
     (let base_addr = 2 * 1024 * 1024 * 1024 + base
      in and_then (w32_data_part (read_raw_into vm (address_from_u64 base_addr) (replicate (8 * 1024 * 1024) 0)))
           (\<lambda>buf.
         and_then (x86_scan_pages pe vm base_addr buf (map (\<lambda>i. of_nat (i * 4096)) [0..<2048])) (\<lambda>found.
           (case found of Some r \<Rightarrow> done_with r | None \<Rightarrow> x86_scan pe vm bases))))"

definition x86_ntos_find ::
  "('p, 'o) pelite \<Rightarrow> 'v virt_mem \<Rightarrow> start_block \<Rightarrow> ('v, 'p, address \<times> usize) w32_step" where
  "x86_ntos_find pe vm start_block =
     x86_scan pe vm (map (\<lambda>i. of_nat (i * (8 * 1024 * 1024))) [0..<32])"

section \<open>\<open>ntos.rs\<close>\<close>

definition ntos_not_found :: "('v, 'p, 'a) w32_step" where
  "ntos_not_found = fail_with (W32Initialization ''unable to find ntoskrnl.exe'')"

definition ntos_find ::
  "('p, 'o) pelite \<Rightarrow> 'v virt_mem \<Rightarrow> start_block \<Rightarrow> ('v, 'p, address \<times> usize) w32_step" where
  "ntos_find pe vm start_block =
     (let with_map = attempt (x64_ntos_find pe vm start_block) (\<lambda>r.
        case r of Inr b \<Rightarrow> done_with b | Inl _ \<Rightarrow> ntos_not_found)
      in if arch_bits (sb_arch start_block) = 64
         then (if \<not> is_null (sb_kernel_hint start_block)
               then attempt (find_with_va_hint pe vm start_block) (\<lambda>r.
                 case r of Inr b \<Rightarrow> done_with b | Inl _ \<Rightarrow> with_map)
               else with_map)
         else if arch_bits (sb_arch start_block) = 32
         then attempt (x86_ntos_find pe vm start_block) (\<lambda>r.
           case r of Inr b \<Rightarrow> done_with b | Inl _ \<Rightarrow> ntos_not_found)
         else ntos_not_found)"

fun rights :: "('p + 'o) list \<Rightarrow> 'o list" where
  "rights [] = []"
| "rights (Inl _ # xs) = rights xs"
| "rights (Inr x # xs) = x # rights xs"

definition find_guid ::
  "('p, 'o) pelite \<Rightarrow> 'v virt_mem \<Rightarrow> address \<Rightarrow> ('v, 'p, win32_guid) w32_step" where
  "find_guid pe vm kernel_base =
     and_then (try_get_pe_image pe vm kernel_base) (\<lambda>image.
     and_then (pe_view pe image) (\<lambda>view.
       (case pe_debug pe view of
          Inl _ \<Rightarrow> fail_with (W32Initialization ''unable to read debug_data in pe header'')
        | Inr debug \<Rightarrow>
            (case find (\<lambda>e. pe_as_code_view pe e \<noteq> None) (rights debug) of
               None \<Rightarrow> fail_with (W32Initialization ''unable to find codeview debug_data entry'')
             | Some entry \<Rightarrow>
                 (case pe_as_code_view pe entry of
                    None \<Rightarrow> fail_with (W32PE (pe_unmapped pe))
                  | Some Cv20 \<Rightarrow> fail_with (W32Initialization
                      ''invalid code_view entry version 2 found, expected 7'')
                  | Some (Cv70 cv) \<Rightarrow>
                      (case pe_to_str pe (pe_pdb_file_name pe (Cv70 cv)) of
                         None \<Rightarrow> fail_with W32Encoding
                       | Some file_name \<Rightarrow>
                           done_with (wg_new file_name
                             (utf8_of (pe_signature_hex pe cv @ hex_str (unat (pe_age pe (Cv70 cv)))))))))))) "

definition get_export :: "('p, 'o) pelite \<Rightarrow> 'o \<Rightarrow> string \<Rightarrow> ('p, usize) w32_result" where
  "get_export pe view name =
     (case pe_export_by_name pe view name of
        Inl e \<Rightarrow> Inl (W32PE e)
      | Inr (Symbol s) \<Rightarrow> Inr (ucast s)
      | Inr Forward \<Rightarrow> Inl (W32Other ''Export found but it was a forwarded export''))"

text \<open>One position of the scan over the code of \<open>RtlGetVersion\<close>.\<close>

definition winver_step :: "u8 list \<Rightarrow> nat \<Rightarrow> u32 \<times> u32 \<Rightarrow> u32 \<times> u32" where
  "winver_step buf i = (\<lambda>(major, minor).
     let dword = from_le_bytes (take 4 (drop i buf)) :: u32;
         (major, minor) =
           (if major = 0 \<and> minor = 0 \<and> dword = 0x441c748
            then (ucast (from_le_bytes (take 2 (drop (i + 4) buf)) :: u16), ucast (buf ! (i + 5) AND 0xF))
            else (major, minor));
         major = (if major = 0 \<and> dword AND 0xFFFFF = 0x441c7 then ucast (buf ! (i + 3)) else major);
         major = (if minor = 0 \<and> dword AND 0xFFFFF = 0x841c7 then ucast (buf ! (i + 3)) else major)
     in (major, minor))"

definition scan_winver :: "u8 list \<Rightarrow> u32 \<times> u32" where
  "scan_winver buf = foldl (\<lambda>v i. winver_step buf i v) (0, 0) [0..<0xf0]"

definition read_u32 :: "'v virt_mem \<Rightarrow> u8 list \<Rightarrow> address \<Rightarrow> 'v \<Rightarrow> (u32 partial_result \<times> 'v) option" where
  "read_u32 vm uninit addr self =
     map_option (\<lambda>(r, self). (pr_map_data from_le_bytes r, self)) (virt_read vm self (take 4 uninit) addr)"

definition find_winver ::
  "('p, 'o) pelite \<Rightarrow> 'v virt_mem \<Rightarrow> u8 list \<Rightarrow> address \<Rightarrow> ('v, 'p, win32_version) w32_step" where
  "find_winver pe vm uninit kernel_base =
     and_then (try_get_pe_image pe vm kernel_base) (\<lambda>image.
     and_then (pe_view pe image) (\<lambda>view.
     and_then (w32_try (get_export pe view ''NtBuildNumber'')) (\<lambda>nt_build_number_ref.
     let rtl_get_version_ref = get_export pe view ''RtlGetVersion'' in
     and_then (w32_partial (read_u32 vm uninit (address_add kernel_base nt_build_number_ref))) (\<lambda>nt_build_number.
     if nt_build_number = 0 then fail_with (W32Initialization ''unable to fetch nt build number'')
     else
     and_then (w32_data_part (read_u32 vm uninit (0x7ffe0000 + 0x026C))) (\<lambda>nt_major_version.
     and_then (w32_data_part (read_u32 vm uninit (0x7ffe0000 + 0x0270))) (\<lambda>nt_minor_version.
       (case rtl_get_version_ref of
          Inr rtl \<Rightarrow>
            (if nt_major_version = 0
             then and_then (w32_data_part (read_raw_into vm (address_add kernel_base rtl) (replicate 0x100 0)))
               (\<lambda>buf. let (major, minor) = scan_winver buf in done_with (wv_new major minor nt_build_number))
             else done_with (wv_new nt_major_version nt_minor_version nt_build_number))
        | Inl _ \<Rightarrow> done_with (wv_new nt_major_version nt_minor_version nt_build_number))))))))"

section \<open>\<open>sysproc.rs\<close>\<close>

definition sysproc_find_exported ::
  "('p, 'o) pelite \<Rightarrow> 'v virt_mem \<Rightarrow> start_block \<Rightarrow> address \<Rightarrow> ('v, 'p, address) w32_step" where
  "sysproc_find_exported pe vm start_block kernel_base =
     and_then (try_get_pe_image pe vm kernel_base) (\<lambda>image.
     and_then (pe_view pe image) (\<lambda>view.
       (case pe_export_by_name pe view ''PsInitialSystemProcess'' of
          Inl e \<Rightarrow> fail_with (W32PE e)
        | Inr Forward \<Rightarrow> fail_with (W32Other ''PsInitialSystemProcess found but it was a forwarded export'')
        | Inr (Symbol s) \<Rightarrow>
            let sys_proc = address_add kernel_base (ucast s);
                buf = replicate (unat (arch_size_addr (sb_arch start_block))) 0
            in if arch_bits (sb_arch start_block) = 64
               then and_then (w32_partial (read_raw_into vm sys_proc buf)) (\<lambda>buf.
                 and_then (may_panic (le_at buf 0 8)) (\<lambda>p. done_with (address_from_u64 p)))
               else if arch_bits (sb_arch start_block) = 32
               then and_then (w32_partial (read_raw_into vm sys_proc buf)) (\<lambda>buf.
                 and_then (may_panic (le_at buf 0 4)) (\<lambda>p. done_with (address_from_u32 p)))
               else fail_with W32InvalidArchitecture)))"

definition sysproc_find_in_section ::
  "'v virt_mem \<Rightarrow> start_block \<Rightarrow> address \<Rightarrow> ('v, 'p, address) w32_step" where
  "sysproc_find_in_section vm start_block ntos =
     and_then (w32_partial (read_raw_into vm ntos (replicate (32 * 1024 * 1024) 0))) (\<lambda>header_buf.
       fail_with (W32Other ''sysproc::find_in_section(): not implemented yet''))"

definition sysproc_find ::
  "('p, 'o) pelite \<Rightarrow> 'v virt_mem \<Rightarrow> start_block \<Rightarrow> address \<Rightarrow> ('v, 'p, address) w32_step" where
  "sysproc_find pe vm start_block ntos =
     attempt (sysproc_find_exported pe vm start_block ntos) (\<lambda>r.
       case r of Inr e \<Rightarrow> done_with e | Inl _ \<Rightarrow>
     attempt (sysproc_find_in_section vm start_block ntos) (\<lambda>r.
       case r of Inr e \<Rightarrow> done_with e | Inl _ \<Rightarrow>
     fail_with (W32Initialization ''unable to find system eprocess'')))"

section \<open>The search around the hint ends\<close>

text \<open>The addresses the loop probes, from the hint down, and the search over a list of them.\<close>

definition va_probes :: "u64 \<Rightarrow> u64 list" where
  "va_probes hint =
     (let base = hint AND NOT 0x1ffff
      in if unat base + 16 * 1024 * 1024 < 18446744073709551616
         then map (\<lambda>k. base - of_nat k * (2 * 1024 * 1024)) [0..<8] else [])"

fun va_search ::
  "('p, 'o) pelite \<Rightarrow> 'v virt_mem \<Rightarrow> u64 list \<Rightarrow> 'v \<Rightarrow> (('p, address \<times> usize) w32_result \<times> 'v) option" where
  "va_search pe vm [] s = fail_with (W32Initialization
     ''x64::find_with_va_hint: unable to locate ntoskrnl.exe via va hint'') s"
| "va_search pe vm (b # bs) s =
     Option.bind (find_with_va pe vm b s) (\<lambda>(r, s).
       (case r of
          Inr a \<Rightarrow>
            and_then (try_get_pe_size pe vm (address_from_u64 a)) (\<lambda>size_of_image.
              done_with (address_from_u64 a, size_of_image)) s
        | Inl e \<Rightarrow> va_search pe vm bs s))"

lemma hint_base:
  fixes hint :: u64
  defines "base \<equiv> hint AND NOT 0x1ffff"
  shows "unat base \<le> unat hint" and "unat hint < unat base + 0x20000"
proof -
  have "hint AND 0x1ffff = take_bit 17 hint" by (simp add: take_bit_eq_mask mask_eq_exp_minus_1)
  moreover have "base = hint - (hint AND 0x1ffff)"
    using disjunctive_add_eq_or [of "hint AND NOT 0x1ffff" "hint AND 0x1ffff"]
    by (simp add: base_def eq_diff_eq bit.conj_disj_distrib [symmetric] ac_simps)
  ultimately have b: "base = hint - take_bit 17 hint" by simp
  have t: "unat (take_bit 17 hint) = unat hint mod 0x20000" by (simp add: unat_take_bit)
  have "unat (take_bit 17 hint) \<le> unat hint" unfolding t by simp
  then have "unat base = unat hint - unat hint mod 0x20000" unfolding b t [symmetric] by (rule unat_sub_nowrap)
  moreover have "unat hint mod 0x20000 < 0x20000" "unat hint mod 0x20000 \<le> unat hint" by simp_all
  ultimately show "unat base \<le> unat hint" "unat hint < unat base + 0x20000" by linarith+
qed

lemma va_hint_from:
  fixes hint :: u64
  defines "base \<equiv> hint AND NOT 0x1ffff"
  assumes fits: "unat base + 16 * 1024 * 1024 < 18446744073709551616" and "j \<le> 8"
  shows "va_hint_loop pe vm hint (base - of_nat (8 - j) * (2 * 1024 * 1024)) s =
     va_search pe vm (map (\<lambda>k. base - of_nat k * (2 * 1024 * 1024)) [8 - j..<8]) s"
  using assms(3)
proof (induction j arbitrary: s)
  have step: "base - of_nat (8 - j) * (2 * 1024 * 1024) + 16 * 1024 * 1024 > hint \<longleftrightarrow> 0 < j" if "j \<le> 8" for j
  proof -
    have "(of_nat (8 - j) :: u64) = 8 - of_nat j" using that by (simp add: of_nat_diff)
    moreover have "base - (8 - x) * (2 * 1024 * 1024) + 16 * 1024 * 1024 = base + x * 2097152" for x
      by (simp add: algebra_simps)
    ultimately have e: "base - of_nat (8 - j) * (2 * 1024 * 1024) + 16 * 1024 * 1024 = base + of_nat (j * 2097152)"
      by simp
    have "unat (base + of_nat (j * 2097152)) = unat base + j * 2097152"
      using fits that by (intro unat_offset) simp
    then show ?thesis
      unfolding e word_less_nat_alt using hint_base [of hint, folded base_def] by (cases j) simp_all
  qed
  {
    case 0
    show ?case using step [of 0] by (subst va_hint_loop.simps) simp
  next
    case (Suc j)
    have sj: "Suc (8 - Suc j) = 8 - j" using Suc.prems by simp
    have l: "[8 - Suc j..<8] = (8 - Suc j) # [8 - j..<8]"
      unfolding sj [symmetric] by (rule upt_conv_Cons) simp
    have "base - of_nat (8 - Suc j) * (2 * 1024 * 1024) - 2 * 1024 * 1024 = base - of_nat (Suc (8 - Suc j)) * (2 * 1024 * 1024)"
      by (simp add: algebra_simps)
    then have n: "base - of_nat (8 - Suc j) * (2 * 1024 * 1024) - 2 * 1024 * 1024 =
        base - of_nat (8 - j) * (2 * 1024 * 1024)" unfolding sj .
    have h: "hint < base - of_nat (8 - Suc j) * (2 * 1024 * 1024) + 16 * 1024 * 1024"
      using step [of "Suc j"] Suc.prems by simp
    have "va_hint_loop pe vm hint (base - of_nat (8 - Suc j) * (2 * 1024 * 1024)) s =
        Option.bind (find_with_va pe vm (base - of_nat (8 - Suc j) * (2 * 1024 * 1024)) s) (\<lambda>(r, s).
          (case r of
             Inr a \<Rightarrow>
               and_then (try_get_pe_size pe vm (address_from_u64 a)) (\<lambda>size_of_image.
                 done_with (address_from_u64 a, size_of_image)) s
           | Inl e \<Rightarrow> va_hint_loop pe vm hint (base - of_nat (8 - Suc j) * (2 * 1024 * 1024) - 2 * 1024 * 1024) s))"
      by (subst va_hint_loop.simps) (simp only: h if_True)
    then show ?case
      unfolding l list.map va_search.simps n Suc.IH [OF Suc_leD [OF Suc.prems]] .
  }
qed

text \<open>Reads that return: then every part of the search returns.\<close>

definition reads_return :: "'v virt_mem \<Rightarrow> bool" where
  "reads_return vm \<longleftrightarrow> (\<forall>v a buf. vm_read_raw_list vm v [(a, buf)] \<noteq> None)"

definition returns :: "('s \<Rightarrow> ('r \<times> 's) option) \<Rightarrow> 's \<Rightarrow> bool" where
  "returns m s \<longleftrightarrow> (\<exists>r s'. m s = Some (r, s'))"

named_theorems return_rules \<open>steps that return\<close>

lemma read_raw_into_returns [return_rules]:
  assumes "reads_return vm"
  shows "returns (read_raw_into vm a buf) s"
proof -
  obtain r bufs s' where "vm_read_raw_list vm s [(a, buf)] = Some (r, bufs, s')"
    using assms unfolding reads_return_def by fast
  then show ?thesis by (simp add: returns_def read_raw_into_def virt_read_raw_into_def)
qed

lemma virt_read_raw_returns [return_rules]:
  assumes "reads_return vm"
  shows "returns (\<lambda>s. virt_read_raw vm s a n) s"
proof -
  obtain r bufs s' where "vm_read_raw_list vm s [(a, replicate (unat n) 0)] = Some (r, bufs, s')"
    using assms unfolding reads_return_def by fast
  then show ?thesis by (simp add: returns_def virt_read_raw_def virt_read_raw_into_def)
qed

lemma step_returns [return_rules]:
  "returns m s \<Longrightarrow> (\<And>a s'. returns (f a) s') \<Longrightarrow> returns (and_then m f) s"
  "returns m s \<Longrightarrow> (\<And>r s'. returns (g r) s') \<Longrightarrow> returns (attempt m g) s"
  "returns n s \<Longrightarrow> returns (w32_partial n) s"
  "returns n s \<Longrightarrow> returns (w32_data_part n) s"
  "returns (done_with a) s" "returns (fail_with e) s" "returns (w32_try r) s"
  "returns (pe_view pe bytes) s" "returns (may_panic (Some a)) s"
  by (auto simp: returns_def and_then_def attempt_def w32_partial_def w32_data_part_def done_with_def
      fail_with_def w32_try_def pe_view_def may_panic_def split: sum.split)

lemma case_returns [return_rules]:
  "(\<And>e. r = Inl e \<Longrightarrow> returns (f e) s) \<Longrightarrow> (\<And>a. r = Inr a \<Longrightarrow> returns (g a) s) \<Longrightarrow>
     returns (case r of Inl e \<Rightarrow> f e | Inr a \<Rightarrow> g a) s"
  "(o' = None \<Longrightarrow> returns h s) \<Longrightarrow> (\<And>a. o' = Some a \<Longrightarrow> returns (k a) s) \<Longrightarrow>
     returns (case o' of None \<Rightarrow> h | Some a \<Rightarrow> k a) s"
  "(b \<Longrightarrow> returns h s) \<Longrightarrow> (\<not> b \<Longrightarrow> returns h' s) \<Longrightarrow> returns (if b then h else h') s"
  by (auto split: sum.split option.split)

lemma pe_size_returns [return_rules]: "reads_return vm \<Longrightarrow> returns (try_get_pe_size pe vm a) s"
  unfolding try_get_pe_size_def Let_def by (intro return_rules)

lemma pe_name_returns [return_rules]: "reads_return vm \<Longrightarrow> returns (try_get_pe_name pe vm a) s"
  unfolding try_get_pe_name_def try_get_pe_image_def by (intro return_rules)

lemma find_va_page_returns [return_rules]:
  assumes "reads_return vm"
  shows "returns (find_va_page pe vm b cs) s"
proof (induction cs arbitrary: s)
  case (Cons c cs)
  then show ?case
    by (cases c) (simp only: find_va_page.simps, intro return_rules assms)
qed (simp add: return_rules)

lemma find_with_va_returns [return_rules]:
  assumes "reads_return vm"
  shows "returns (find_with_va pe vm b) s"
proof -
  have "arch_page_size x64_spec = Some 0x1000" by code_simp
  then show ?thesis
    unfolding find_with_va_def by (simp only:) (intro return_rules assms)
qed

lemma va_search_returns [return_rules]:
  assumes "reads_return vm"
  shows "returns (va_search pe vm bs) s"
proof (induction bs arbitrary: s)
  case Nil
  show ?case by (simp add: returns_def fail_with_def)
next
  case (Cons b bs)
  obtain r s' where r: "find_with_va pe vm b s = Some (r, s')"
    using find_with_va_returns [OF assms, of pe b s] by (auto simp: returns_def)
  show ?case
  proof (cases r)
    case (Inl e)
    with r Cons.IH [of s'] show ?thesis by (simp add: returns_def)
  next
    case (Inr a)
    have "returns (and_then (try_get_pe_size pe vm (address_from_u64 a)) (\<lambda>size_of_image.
        done_with (address_from_u64 a, size_of_image))) s'"
      by (intro return_rules assms)
    with r Inr show ?thesis by (simp add: returns_def)
  qed
qed

text \<open>
  C34. The search around the hint of the kernel ends, although its loop runs down wrapping
  64 bit addresses: for every hint it probes at most eight addresses, two megabytes apart from
  the hint rounded down to 128 KiB, in this order and up to the first that holds the kernel;
  it probes none when the hint is in the last 16 MiB of the address space. When the reads of
  the memory return, so does the search.
\<close>

theorem va_hint_search_ends:
  assumes "reads_return vm"
  shows "(\<exists>r s'. find_with_va_hint pe vm start_block s = Some (r, s')) \<and>
     find_with_va_hint pe vm start_block s = va_search pe vm (va_probes (sb_kernel_hint start_block)) s \<and>
     length (va_probes (sb_kernel_hint start_block)) \<le> 8"
proof -
  let ?hint = "sb_kernel_hint start_block" and ?base = "sb_kernel_hint start_block AND NOT 0x1ffff"
  have e: "find_with_va_hint pe vm start_block s = va_search pe vm (va_probes ?hint) s"
  proof (cases "unat ?base + 16 * 1024 * 1024 < 18446744073709551616")
    case True
    then show ?thesis
      using va_hint_from [OF True order_refl, of pe vm s]
      by (simp add: find_with_va_hint_def va_probes_def Let_def as_u64_def)
  next
    case False
    then have "18446744073709551616 \<le> unat ?base + unat (16 * 1024 * 1024 :: u64)" by simp
    from unat_add_wrap [OF this]
    have "unat (?base + 16 * 1024 * 1024) = unat ?base + unat (16 * 1024 * 1024 :: u64) - 18446744073709551616" .
    also have "\<dots> < unat ?base"
      using False by simp
    finally have "unat (?base + 16 * 1024 * 1024) < unat ?base" .
    then have "\<not> ?hint < ?base + 16 * 1024 * 1024"
      using hint_base(1) [of ?hint] by (simp add: word_less_nat_alt)
    with False show ?thesis
      unfolding find_with_va_hint_def va_probes_def Let_def as_u64_def
      by (subst va_hint_loop.simps) simp
  qed
  with va_search_returns [OF assms, of pe "va_probes ?hint" s] show ?thesis
    by (simp add: returns_def va_probes_def Let_def)
qed

text \<open>An image parser that knows no image, and a memory nothing can be read from.\<close>

definition no_images :: "(unit, unit) pelite" where
  "no_images = \<lparr>pe_from_bytes = (\<lambda>_. Inl ()), pe_optional_header = (\<lambda>_. OptT64 0),
     pe_export_by_name = (\<lambda>_ _. Inl ()), pe_exports = (\<lambda>_. Inl ()), pe_dll_name = (\<lambda>_. Inl ()),
     pe_to_str = (\<lambda>_. None), pe_debug = (\<lambda>_. Inl ()), pe_as_code_view = (\<lambda>_. None), pe_age = (\<lambda>_. 0),
     pe_pdb_file_name = (\<lambda>_. ()), pe_signature_hex = (\<lambda>_. []), pe_unmapped = (),
     pe_e_magic = (\<lambda>_. 0), pe_e_lfanew = (\<lambda>_. 0)\<rparr>"

definition no_memory :: "unit virt_mem" where
  "no_memory = \<lparr>vm_read_raw_list = (\<lambda>_ data. Some (Inl (PartialVirtualRead ()), map snd data, ())),
     vm_write_raw_list = (\<lambda>_ _. Some (Inl PartialVirtualWrite, ())),
     vm_page_info = (\<lambda>_ _. Some (Inl VirtualTranslate, ())),
     vm_translation_map_range = (\<lambda>_ _ _. Some ([], ())), vm_page_map_range = (\<lambda>_ _ _ _. Some ([], ()))\<rparr>"

theorem va_hint_search_ends_witness:
  "(\<exists>r s'. find_with_va_hint no_images no_memory
       \<lparr>sb_arch = x64_spec, sb_kernel_hint = 0xFFFFF80000A34567, sb_dtb = 0x1AA000\<rparr> () = Some (r, s')) \<and>
   va_probes 0xFFFFF80000A34567 =
     [0xFFFFF80000A20000, 0xFFFFF80000820000, 0xFFFFF80000620000, 0xFFFFF80000420000,
      0xFFFFF80000220000, 0xFFFFF80000020000, 0xFFFFF7FFFFE20000, 0xFFFFF7FFFFC20000]"
proof -
  have "reads_return no_memory" by (simp add: reads_return_def no_memory_def)
  note ends = va_hint_search_ends [OF this, where pe = no_images and s = "()" and
      start_block = "\<lparr>sb_arch = x64_spec, sb_kernel_hint = 0xFFFFF80000A34567, sb_dtb = 0x1AA000\<rparr>"]
  show ?thesis
    by (rule conjI, rule conjunct1 [OF ends]) (simp add: va_probes_def upt_rec)
qed

end
