(* ===== verification/Win32_Kernel_Info.thy ===== *)
theory Win32_Kernel_Info
  imports Win32_Ntos
begin

text \<open>
  The translator of a Windows address space (\<open>win32/vat.rs\<close>) and the scanner for a kernel
  (\<open>win32/kernel_info.rs\<close>), which puts the searches of \<open>Win32_Base\<close> and \<open>Win32_Ntos\<close>
  together on a physical memory.
\<close>

section \<open>\<open>vat.rs\<close>\<close>

record win32_virtual_translate =
  wt_sys_arch :: x86_architecture
  wt_dtb :: address

definition wt_new :: "x86_architecture \<Rightarrow> address \<Rightarrow> win32_virtual_translate" where
  "wt_new sys_arch dtb = \<lparr>wt_sys_arch = sys_arch, wt_dtb = dtb\<rparr>"

definition wt_arch :: "win32_virtual_translate \<Rightarrow> x86_architecture" where "wt_arch t = wt_sys_arch t"

definition wt_translation_table_id :: "win32_virtual_translate \<Rightarrow> address \<Rightarrow> usize" where
  "wt_translation_table_id t address = shr64 (as_u64 (wt_dtb t)) 12"

text \<open>\<open>x86::new_translator(self.dtb, self.sys_arch).unwrap()\<close>.\<close>

definition arch_obj :: "x86_architecture \<Rightarrow> architecture_obj" where
  "arch_obj arch =
     (if arch = x64_spec then X64_ARCH else if arch = x32_spec then X32_ARCH
      else if arch = x32_pae_spec then X32_PAE_ARCH else Other_ARCH 0)"

definition wt_translator :: "win32_virtual_translate \<Rightarrow> x86_scoped_translate option" where
  "wt_translator t =
     (case new_translator (wt_dtb t) (arch_obj (wt_sys_arch t)) of Inl _ \<Rightarrow> None | Inr x \<Rightarrow> Some x)"

text \<open>
  \<open>virt_to_phys_iter\<close> forwards to the x86 translator, so a virtual translate object used with
  a \<open>Win32VirtualTranslate\<close> does what it does with the x86 one.
\<close>

definition wt_virt_to_phys_iter ::
  "(x86_scoped_translate \<Rightarrow> ('w, 'm, 't) vat_iter) \<Rightarrow> win32_virtual_translate \<Rightarrow> ('w, 'm, 't) vat_iter" where
  "wt_virt_to_phys_iter iter t w m addrs out out_fail =
     Option.bind (wt_translator t) (\<lambda>x. iter x w m addrs out out_fail)"

definition wt_ops :: "('w, 'm, x86_scoped_translate) vat_ops \<Rightarrow> ('w, 'm, win32_virtual_translate) vat_ops" where
  "wt_ops ops = \<lparr>va_mut = wt_virt_to_phys_iter (va_mut ops), va_slice = wt_virt_to_phys_iter (va_slice ops),
     va_range = wt_virt_to_phys_iter (va_range ops),
     va_one = (\<lambda>t w m a. Option.bind (wt_translator t) (\<lambda>x. va_one ops x w m a))\<rparr>"

definition wt_virt_mem ::
  "win32_virtual_translate \<Rightarrow> 'm \<Rightarrow> 'w \<Rightarrow> x86_architecture \<Rightarrow> ('m, 'w, win32_virtual_translate) virtual_dma" where
  "wt_virt_mem t mem vat proc_arch = vd_with_vat mem proc_arch t vat"

text \<open>
  Below, \<open>vm\<close> is the \<open>VirtualMemory\<close> instance of the \<open>VirtualDMA\<close> of a kernel and \<open>dm\<close> the one
  with the stateless \<open>DirectTranslate\<close>.
\<close>

type_synonym ('m, 'w) win32_dma = "('m, 'w, win32_virtual_translate) virtual_dma"

section \<open>\<open>kernel_info.rs\<close>\<close>

record kernel_info =
  ki_start_block :: start_block
  ki_kernel_base :: address
  ki_kernel_size :: usize
  ki_kernel_guid :: "win32_guid option"
  ki_kernel_winver :: win32_version
  ki_eprocess_base :: address

record 'm kernel_info_scanner =
  kis_mem :: 'm
  kis_arch :: "x86_architecture option"
  kis_kernel_hint :: "address option"
  kis_dtb :: "address option"

definition kis_new :: "'m \<Rightarrow> 'm kernel_info_scanner" where
  "kis_new mem = \<lparr>kis_mem = mem, kis_arch = None, kis_kernel_hint = None, kis_dtb = None\<rparr>"

definition ki_scanner :: "'m \<Rightarrow> 'm kernel_info_scanner" where "ki_scanner mem = kis_new mem"

definition kis_with_arch :: "'m kernel_info_scanner \<Rightarrow> x86_architecture \<Rightarrow> 'm kernel_info_scanner" where
  "kis_with_arch s arch = s\<lparr>kis_arch := Some arch\<rparr>"

definition kis_with_kernel_hint :: "'m kernel_info_scanner \<Rightarrow> address \<Rightarrow> 'm kernel_info_scanner" where
  "kis_with_kernel_hint s hint = s\<lparr>kis_kernel_hint := Some hint\<rparr>"

definition kis_with_dtb :: "'m kernel_info_scanner \<Rightarrow> address \<Rightarrow> 'm kernel_info_scanner" where
  "kis_with_dtb s dtb = s\<lparr>kis_dtb := Some dtb\<rparr>"

text \<open>A step on a \<open>VirtualDMA\<close> that borrows a physical memory and owns its translator.\<close>

definition borrow_mem ::
  "x86_architecture \<Rightarrow> win32_virtual_translate \<Rightarrow> (('m, unit) win32_dma, 'p, 'a) w32_step \<Rightarrow> ('m, 'p, 'a) w32_step" where
  "borrow_mem proc_arch t step m =
     map_option (\<lambda>(r, v). (r, vd_phys_mem v)) (step (vd_with_vat m proc_arch t ()))"

definition scan_virt_mem ::
  "('p, 'o) pelite \<Rightarrow> 'v virt_mem \<Rightarrow> u8 list \<Rightarrow> start_block \<Rightarrow> ('v, 'p, kernel_info) w32_step" where
  "scan_virt_mem pe vm uninit start_block =
     and_then (ntos_find pe vm start_block) (\<lambda>(kernel_base, kernel_size).
     attempt (find_guid pe vm kernel_base) (\<lambda>guid.
     attempt (find_winver pe vm uninit kernel_base) (\<lambda>winver.
     and_then (sysproc_find pe vm start_block kernel_base) (\<lambda>eprocess_base.
       done_with \<lparr>ki_start_block = start_block, ki_kernel_base = kernel_base, ki_kernel_size = kernel_size,
         ki_kernel_guid = (case guid of Inr g \<Rightarrow> Some g | Inl _ \<Rightarrow> None),
         ki_kernel_winver = (case winver of Inr v \<Rightarrow> v | Inl _ \<Rightarrow> wv_default),
         ki_eprocess_base = eprocess_base\<rparr>))))"

definition scan_block ::
  "('p, 'o) pelite \<Rightarrow> ('m, unit) win32_dma virt_mem \<Rightarrow> u8 list \<Rightarrow> start_block \<Rightarrow> ('m, 'p, kernel_info) w32_step" where
  "scan_block pe dm uninit start_block =
     borrow_mem (sb_arch start_block) (wt_new (sb_arch start_block) (sb_dtb start_block))
       (scan_virt_mem pe dm uninit start_block)"

definition scan_start_block ::
  "'m phys_mem \<Rightarrow> x86_architecture option \<Rightarrow> address option \<Rightarrow> address option \<Rightarrow> ('m, 'p, start_block) w32_step" where
  "scan_start_block pm arch dtb kernel_hint =
     (case (arch, dtb, kernel_hint) of
        (Some arch, Some dtb, Some kernel_hint) \<Rightarrow>
          done_with \<lparr>sb_arch = arch, sb_kernel_hint = kernel_hint, sb_dtb = dtb\<rparr>
      | _ \<Rightarrow>
          and_then (start_block_find pm arch) (\<lambda>sb.
            done_with (case kernel_hint of
                Some hint \<Rightarrow> (if is_null (sb_kernel_hint sb) then sb\<lparr>sb_kernel_hint := hint\<rparr> else sb)
              | None \<Rightarrow> sb)))"

definition scan ::
  "('p, 'o) pelite \<Rightarrow> 'm phys_mem \<Rightarrow> ('m, unit) win32_dma virt_mem \<Rightarrow> u8 list
     \<Rightarrow> 'm kernel_info_scanner \<Rightarrow> (('p, kernel_info) w32_result \<times> 'm) option" where
  "scan pe pm dm uninit s =
     and_then (scan_start_block pm (kis_arch s) (kis_dtb s) (kis_kernel_hint s)) (\<lambda>start_block.
     attempt (scan_block pe dm uninit start_block) (\<lambda>r.
       case r of
         Inr info \<Rightarrow> done_with info
       | Inl _ \<Rightarrow>
           and_then (find_fallback pm (sb_arch start_block)) (\<lambda>start_block.
             scan_block pe dm uninit start_block))) (kis_mem s)"

end
