(* ===== verification/Win32_Symstore.thy ===== *)
theory Win32_Symstore
  imports Win32_Base
begin

text \<open>
  The symbol store (\<open>offsets/symstore.rs\<close>): files of symbols are downloaded from a server and
  kept in a directory. The file system of the host is a state: paths are lists of names,
  a file has its bytes, the disk has some space left, and some paths may be refused. The
  answers of the server are a parameter. The lemmas show what the cache keeps of a load.
\<close>

section \<open>Files\<close>

type_synonym path = "u8 list list"

datatype fs_node = FileNode "u8 list" | DirNode

record file_system =
  fs_node :: "path \<Rightarrow> fs_node option"
  fs_space :: nat
  fs_refuses :: "path \<Rightarrow> bool"

text \<open>\<open>Path::join\<close>: the names of a text, which replace the path when it starts with a slash.\<close>

fun split_names :: "u8 list \<Rightarrow> u8 list \<Rightarrow> path" where
  "split_names name [] = [name]"
| "split_names name (c # cs) = (if c = 0x2f then name # split_names [] cs else split_names (name @ [c]) cs)"

definition path_names :: "u8 list \<Rightarrow> path" where
  "path_names s = filter (\<lambda>n. n \<noteq> [] \<and> n \<noteq> [0x2e]) (split_names [] s)"

definition path_join :: "path \<Rightarrow> u8 list \<Rightarrow> path" where
  "path_join p s = (case s of c # _ \<Rightarrow> (if c = 0x2f then path_names s else p @ path_names s) | [] \<Rightarrow> p)"

definition path_exists :: "path \<Rightarrow> file_system \<Rightarrow> bool" where
  "path_exists p fs \<longleftrightarrow> fs_node fs p \<noteq> None"

definition file_open :: "'p w32_error \<Rightarrow> path \<Rightarrow> (file_system, 'p, unit) w32_step" where
  "file_open e p fs = (if fs_node fs p = None \<or> fs_refuses fs p then fail_with e fs else done_with () fs)"

definition file_read_to_end :: "'p w32_error \<Rightarrow> path \<Rightarrow> (file_system, 'p, u8 list) w32_step" where
  "file_read_to_end e p fs =
     (case fs_node fs p of Some (FileNode bytes) \<Rightarrow> done_with bytes fs | _ \<Rightarrow> fail_with e fs)"

definition put_node :: "path \<Rightarrow> fs_node \<Rightarrow> file_system \<Rightarrow> file_system" where
  "put_node p n fs = fs\<lparr>fs_node := (fs_node fs)(p := Some n)\<rparr>"

text \<open>\<open>fs::create_dir_all\<close>: the directories of a path that are missing, from the root down.\<close>

fun make_dirs :: "'p w32_error \<Rightarrow> path list \<Rightarrow> (file_system, 'p, unit) w32_step" where
  "make_dirs e [] fs = done_with () fs"
| "make_dirs e (p # ps) fs =
     (case fs_node fs p of
        Some DirNode \<Rightarrow> make_dirs e ps fs
      | Some (FileNode _) \<Rightarrow> fail_with e fs
      | None \<Rightarrow> if fs_refuses fs p then fail_with e fs else make_dirs e ps (put_node p DirNode fs))"

definition create_dir_all :: "'p w32_error \<Rightarrow> path \<Rightarrow> (file_system, 'p, unit) w32_step" where
  "create_dir_all e p = make_dirs e (map (\<lambda>n. take n p) [1..<Suc (length p)])"

definition file_create :: "'p w32_error \<Rightarrow> path \<Rightarrow> (file_system, 'p, unit) w32_step" where
  "file_create e p fs =
     (if fs_refuses fs p \<or> fs_node fs p = Some DirNode \<or> p = [] \<or>
         (butlast p \<noteq> [] \<and> fs_node fs (butlast p) \<noteq> Some DirNode)
      then fail_with e fs
      else done_with () (put_node p (FileNode []) fs))"

text \<open>\<open>write_all\<close> into the new file: a full disk keeps the bytes that fitted.\<close>

definition file_write_all :: "'p w32_error \<Rightarrow> path \<Rightarrow> u8 list \<Rightarrow> (file_system, 'p, unit) w32_step" where
  "file_write_all e p bytes fs =
     (if length bytes \<le> fs_space fs
      then done_with () ((put_node p (FileNode bytes) fs)\<lparr>fs_space := fs_space fs - length bytes\<rparr>)
      else fail_with e ((put_node p (FileNode (take (fs_space fs) bytes)) fs)\<lparr>fs_space := 0\<rparr>))"

section \<open>The store\<close>

record symbol_store =
  ss_base_url :: "u8 list"
  ss_cache_path :: "path option"

definition ss_default :: "path option \<Rightarrow> symbol_store option" where
  "ss_default home_dir =
     map_option (\<lambda>home. \<lparr>ss_base_url = utf8_of ''https://msdl.microsoft.com/download/symbols'',
       ss_cache_path = Some (path_join (path_join home (utf8_of ''.memflow'')) (utf8_of ''cache''))\<rparr>) home_dir"

definition ss_new :: "path option \<Rightarrow> symbol_store option" where
  "ss_new home_dir = ss_default home_dir"

definition ss_with_base_url :: "symbol_store \<Rightarrow> u8 list \<Rightarrow> symbol_store" where
  "ss_with_base_url s url = s\<lparr>ss_base_url := url\<rparr>"

definition ss_no_cache :: "symbol_store \<Rightarrow> symbol_store" where
  "ss_no_cache s = s\<lparr>ss_cache_path := None\<rparr>"

definition ss_with_cache_path :: "symbol_store \<Rightarrow> path \<Rightarrow> symbol_store" where
  "ss_with_cache_path s p = s\<lparr>ss_cache_path := Some p\<rparr>"

text \<open>An answer of the server; a body may break off while it is read.\<close>

record http_response =
  rs_ok :: bool
  rs_content_length :: "u8 list option"
  rs_body :: "u8 list option"

text \<open>\<open>str::parse::<usize>\<close>: digits after an optional plus, without an overflow.\<close>

fun parse_digits :: "nat \<Rightarrow> u8 list \<Rightarrow> usize option" where
  "parse_digits acc [] = Some (of_nat acc)"
| "parse_digits acc (c # cs) =
     (if c < 0x30 \<or> 0x39 < c then None
      else let acc = 10 * acc + (unat c - 48)
           in if acc < 18446744073709551616 then parse_digits acc cs else None)"

definition parse_usize :: "u8 list \<Rightarrow> usize option" where
  "parse_usize s =
     (let digits = (case s of c # cs \<Rightarrow> (if c = 0x2b then cs else s) | [] \<Rightarrow> [])
      in if digits = [] then None else parse_digits 0 digits)"

definition download_file :: "(u8 list \<Rightarrow> http_response) \<Rightarrow> u8 list \<Rightarrow> ('p, u8 list) w32_result option" where
  "download_file get url =
     (let resp = get url
      in if \<not> rs_ok resp then Some (Inl (W32SymbolStore ''unable to download pdb''))
         else Option.bind (Option.bind (rs_content_length resp) parse_usize) (\<lambda>len.
           (case rs_body resp of
              None \<Rightarrow> Some (Inl (W32SymbolStore ''unable to read from http request''))
            | Some buffer \<Rightarrow> (if length buffer = unat len then Some (Inr buffer) else None))))"

definition slash :: "u8 list \<Rightarrow> u8 list \<Rightarrow> u8 list" where "slash a b = a @ [0x2f] @ b"

definition download :: "(u8 list \<Rightarrow> http_response) \<Rightarrow> symbol_store \<Rightarrow> win32_guid \<Rightarrow> ('p, u8 list) w32_result option" where
  "download get store guid =
     (let pdb_url = slash (slash (ss_base_url store) (wg_file_name guid)) (wg_guid guid)
      in Option.bind (download_file get (slash pdb_url (wg_file_name guid))) (\<lambda>r.
        (case (r :: ('p, u8 list) w32_result) of
           Inr buffer \<Rightarrow> Some (Inr buffer)
         | Inl _ \<Rightarrow> download_file get (slash pdb_url (utf8_of ''file.ptr'')))))"

definition cache_dir :: "path \<Rightarrow> win32_guid \<Rightarrow> path" where
  "cache_dir cache_path guid = path_join cache_path (wg_file_name guid)"

definition cache_file :: "path \<Rightarrow> win32_guid \<Rightarrow> path" where
  "cache_file cache_path guid = path_join (cache_dir cache_path guid) (wg_guid guid)"

definition store_load ::
  "(u8 list \<Rightarrow> http_response) \<Rightarrow> symbol_store \<Rightarrow> win32_guid \<Rightarrow> (file_system, 'p, u8 list) w32_step" where
  "store_load get store guid fs =
     (case ss_cache_path store of
        Some cache_path \<Rightarrow>
          (let dir = cache_dir cache_path guid; file = cache_file cache_path guid
           in if path_exists file fs
              then and_then (file_open (W32SymbolStore ''unable to open pdb in local cache'') file) (\<lambda>_.
                file_read_to_end (W32SymbolStore ''unable to read pdb from local cache'') file) fs
              else
                and_then (and_then (may_panic (download get store guid)) w32_try) (\<lambda>buffer.
                and_then (\<lambda>fs. if path_exists dir fs then done_with () fs
                  else create_dir_all (W32SymbolStore ''unable to create folder in local pdb cache'') dir fs) (\<lambda>_.
                and_then (file_create (W32SymbolStore ''unable to create file in local pdb cache'') file) (\<lambda>_.
                and_then (file_write_all (W32SymbolStore ''unable to write pdb to local cache'') file buffer) (\<lambda>_.
                  done_with buffer)))) fs)
      | None \<Rightarrow> and_then (may_panic (download get store guid)) w32_try fs)"

section \<open>What the cache keeps\<close>

lemma and_then_Inr_iff:
  "and_then m f s = Some (Inr b, s') \<longleftrightarrow> (\<exists>a s1. m s = Some (Inr a, s1) \<and> f a s1 = Some (Inr b, s'))"
  by (auto simp: and_then_def split: option.splits sum.splits prod.splits)

lemma put_node_node [simp]: "fs_node (put_node p n fs) q = (if q = p then Some n else fs_node fs q)"
  by (simp add: put_node_def)

lemma put_node_refuses [simp]: "fs_refuses (put_node p n fs) = fs_refuses fs"
  by (simp add: put_node_def)

lemma file_create_Inr:
  "file_create e p fs = Some (Inr u, fs') \<longleftrightarrow>
     \<not> fs_refuses fs p \<and> fs_node fs p \<noteq> Some DirNode \<and> p \<noteq> [] \<and>
     (butlast p \<noteq> [] \<longrightarrow> fs_node fs (butlast p) = Some DirNode) \<and> fs' = put_node p (FileNode []) fs"
  by (auto simp: file_create_def fail_with_def done_with_def)

lemma file_write_all_Inr:
  "file_write_all e p bytes fs = Some (Inr u, fs') \<longleftrightarrow>
     length bytes \<le> fs_space fs \<and> fs' = (put_node p (FileNode bytes) fs)\<lparr>fs_space := fs_space fs - length bytes\<rparr>"
  by (auto simp: file_write_all_def fail_with_def done_with_def)

text \<open>A file that is in the cache is what a load returns, whatever the server says.\<close>

lemma store_load_cached:
  assumes "ss_cache_path store = Some p" "fs_node fs (cache_file p guid) = Some (FileNode bytes)"
    "\<not> fs_refuses fs (cache_file p guid)"
  shows "store_load get store guid fs = Some (Inr bytes, fs)"
  using assms by (simp add: store_load_def path_exists_def file_open_def file_read_to_end_def
      and_then_def done_with_def)

text \<open>
  C32. A symbol file that was loaded once is loaded again from the cache: when a load returns
  bytes, a later load of the same file returns the same bytes and leaves the file system as
  it is, whatever the server answers then.
\<close>

theorem symbol_file_is_kept:
  fixes get get' :: "u8 list \<Rightarrow> http_response"
  assumes load: "store_load get store guid fs = (Some (Inr bytes, fs') :: (('p, u8 list) w32_result \<times> file_system) option)"
    and cache: "ss_cache_path store \<noteq> None"
  shows "store_load get' store guid fs' = (Some (Inr bytes, fs') :: (('p, u8 list) w32_result \<times> file_system) option)"
proof -
  obtain p where p: "ss_cache_path store = Some p" using cache by auto
  have "fs_node fs' (cache_file p guid) = Some (FileNode bytes) \<and> \<not> fs_refuses fs' (cache_file p guid)"
  proof (cases "path_exists (cache_file p guid) fs")
    case True
    then show ?thesis
      using load p by (auto simp: store_load_def Let_def and_then_Inr_iff file_open_def file_read_to_end_def
          done_with_def fail_with_def split: if_splits option.splits fs_node.splits)
  next
    case False
    then show ?thesis
      using load p
      by (simp add: store_load_def Let_def and_then_Inr_iff file_create_Inr file_write_all_Inr)
         (auto simp: done_with_def)
  qed
  then show ?thesis by (intro store_load_cached [OF p]) auto
qed

text \<open>A disk with room for some bytes and no files, and a server with a file of three bytes.\<close>

definition empty_disk :: "nat \<Rightarrow> file_system" where
  "empty_disk space = \<lparr>fs_node = (\<lambda>_. None), fs_space = space, fs_refuses = (\<lambda>_. False)\<rparr>"

definition small_server :: "u8 list \<Rightarrow> http_response" where
  "small_server url = \<lparr>rs_ok = True, rs_content_length = Some [0x33], rs_body = Some [1, 2, 3]\<rparr>"

definition local_store :: symbol_store where
  "local_store = \<lparr>ss_base_url = [0x68], ss_cache_path = Some [[0x63]]\<rparr>"

lemma small_download: "download small_server local_store (wg_new [0x61] [0x62]) = Some (Inr [1, 2, 3])"
  by (simp add: download_def download_file_def small_server_def parse_usize_def)

lemma small_names:
  "cache_dir [[0x63]] (wg_new [0x61] [0x62]) = [[0x63], [0x61]]"
  "cache_file [[0x63]] (wg_new [0x61] [0x62]) = [[0x63], [0x61], [0x62]]"
  by (simp_all add: cache_dir_def cache_file_def path_join_def path_names_def wg_new_def)

lemma small_load:
  "store_load small_server local_store (wg_new [0x61] [0x62]) (empty_disk 3) =
     Some (Inr [1, 2, 3], (put_node [[0x63], [0x61], [0x62]] (FileNode [1, 2, 3])
       (put_node [[0x63], [0x61], [0x62]] (FileNode [])
       (put_node [[0x63], [0x61]] DirNode (put_node [[0x63]] DirNode (empty_disk 3)))))\<lparr>fs_space := 0\<rparr>)"
  unfolding store_load_def
  by (simp add: local_store_def small_names path_exists_def empty_disk_def
      and_then_def may_panic_def w32_try_def small_download [unfolded local_store_def] create_dir_all_def
      upt_rec file_create_def file_write_all_def done_with_def put_node_def)

lemma symbol_file_is_kept_witness:
  "\<exists>fs. (store_load small_server local_store (wg_new [0x61] [0x62]) (empty_disk 3) :: ((unit, _) w32_result \<times> _) option) =
       Some (Inr [1, 2, 3], fs) \<and>
     (store_load (\<lambda>_. \<lparr>rs_ok = False, rs_content_length = None, rs_body = None\<rparr>) local_store
       (wg_new [0x61] [0x62]) fs :: ((unit, _) w32_result \<times> _) option) = Some (Inr [1, 2, 3], fs)"
  using small_load symbol_file_is_kept [OF small_load] by (auto simp: local_store_def)

text \<open>
  C30. A symbol file that did not fit on the disk stays in the cache: the load that downloads it
  reports the failed write, and every later load returns the bytes that fitted as the file.
\<close>

theorem truncated_symbol_file:
  assumes cache: "ss_cache_path store = Some p" "\<not> path_exists (cache_file p guid) fs"
      "path_exists (cache_dir p guid) fs"
    and create: "file_create (W32SymbolStore ''unable to create file in local pdb cache'')
      (cache_file p guid) fs = Some (Inr () :: ('p, unit) w32_result, fs1)"
    and server: "download get store guid = Some (Inr bytes :: ('p, u8 list) w32_result)"
    and full: "fs_space fs < length bytes"
  shows "\<exists>fs'.
    store_load get store guid fs =
      (Some (Inl (W32SymbolStore ''unable to write pdb to local cache''), fs') :: (('p, u8 list) w32_result \<times> file_system) option) \<and>
    store_load get' store guid fs' =
      (Some (Inr (take (fs_space fs) bytes), fs') :: (('p, u8 list) w32_result \<times> file_system) option)"
proof -
  let ?fs = "(put_node (cache_file p guid) (FileNode (take (fs_space fs) bytes)) fs1)\<lparr>fs_space := 0\<rparr>"
  have fs1: "fs1 = put_node (cache_file p guid) (FileNode []) fs" "\<not> fs_refuses fs (cache_file p guid)"
    using create by (simp_all add: file_create_Inr)
  have "store_load get store guid fs =
      (Some (Inl (W32SymbolStore ''unable to write pdb to local cache''), ?fs) :: (('p, u8 list) w32_result \<times> file_system) option)"
    using cache full unfolding store_load_def Let_def
    by (simp add: and_then_def may_panic_def w32_try_def server create done_with_def)
       (simp add: file_write_all_def fail_with_def fs1 put_node_def)
  moreover have "store_load get' store guid ?fs =
      (Some (Inr (take (fs_space fs) bytes), ?fs) :: (('p, u8 list) w32_result \<times> file_system) option)"
    using fs1 by (intro store_load_cached [OF cache(1)]) simp_all
  ultimately show ?thesis by blast
qed

definition full_disk :: file_system where
  "full_disk = put_node [[0x63], [0x61]] DirNode (put_node [[0x63]] DirNode (empty_disk 1))"

lemma truncated_symbol_file_witness:
  "\<exists>fs. (store_load small_server local_store (wg_new [0x61] [0x62]) full_disk :: ((unit, _) w32_result \<times> _) option) =
       Some (Inl (W32SymbolStore ''unable to write pdb to local cache''), fs) \<and>
     (store_load small_server local_store (wg_new [0x61] [0x62]) fs :: ((unit, _) w32_result \<times> _) option) =
       Some (Inr [1], fs)"
proof -
  have ready: "ss_cache_path local_store = Some [[0x63]]"
      "\<not> path_exists (cache_file [[0x63]] (wg_new [0x61] [0x62])) full_disk"
      "path_exists (cache_dir [[0x63]] (wg_new [0x61] [0x62])) full_disk"
      "file_create (W32SymbolStore ''unable to create file in local pdb cache'')
        (cache_file [[0x63]] (wg_new [0x61] [0x62])) full_disk = Some (Inr () :: (unit, unit) w32_result,
          put_node [[0x63], [0x61], [0x62]] (FileNode []) full_disk)"
    by (simp_all add: local_store_def small_names path_exists_def full_disk_def file_create_Inr empty_disk_def)
  have "fs_space full_disk < length ([1, 2, 3] :: u8 list)" "fs_space full_disk = 1"
    by (simp_all add: full_disk_def put_node_def empty_disk_def)
  then show ?thesis
    using truncated_symbol_file [OF ready small_download, where get' = small_server] by simp
qed

end
