(* ===== verification/Win32_Offsets.thy ===== *)
theory Win32_Offsets
  imports Win32_Kernel_Info Win32_Symstore
begin

text \<open>
  The offsets of the kernel structures: the table and its file format
  (\<open>offsets/offset_table.rs\<close>), the constants of the two pointer sizes, reading a table from
  the symbols of a kernel, and the builder that looks for the best table
  (\<open>offsets/mod.rs\<close>). The symbol store, the parser of symbol files and the embedded list of
  offset files are parameters. The lemmas show that strings survive the fixed size buffers
  of the files, and which entry of the list the builder takes.
\<close>

section \<open>Offsets\<close>

record win32_offset_table =
  ot_list_blink :: u32
  ot_eproc_link :: u32
  ot_kproc_dtb :: u32
  ot_eproc_pid :: u32
  ot_eproc_name :: u32
  ot_eproc_peb :: u32
  ot_eproc_section_base :: u32
  ot_eproc_exit_status :: u32
  ot_eproc_thread_list :: u32
  ot_eproc_wow64 :: u32
  ot_kthread_teb :: u32
  ot_ethread_list_entry :: u32
  ot_teb_peb :: u32
  ot_teb_peb_x86 :: u32

text \<open>\<open>Win32Offsets\<close> wraps the table.\<close>

datatype win32_offsets = Win32Offsets win32_offset_table

fun offset_table :: "win32_offsets \<Rightarrow> win32_offset_table" where
  "offset_table (Win32Offsets t) = t"

definition offsets_from_table :: "win32_offset_table \<Rightarrow> win32_offsets" where
  "offsets_from_table t = Win32Offsets t"

definition list_blink :: "win32_offsets \<Rightarrow> usize" where "list_blink o' = ucast (ot_list_blink (offset_table o'))"
definition eproc_link :: "win32_offsets \<Rightarrow> usize" where "eproc_link o' = ucast (ot_eproc_link (offset_table o'))"
definition kproc_dtb :: "win32_offsets \<Rightarrow> usize" where "kproc_dtb o' = ucast (ot_kproc_dtb (offset_table o'))"
definition eproc_pid :: "win32_offsets \<Rightarrow> usize" where "eproc_pid o' = ucast (ot_eproc_pid (offset_table o'))"
definition eproc_name :: "win32_offsets \<Rightarrow> usize" where "eproc_name o' = ucast (ot_eproc_name (offset_table o'))"
definition eproc_peb :: "win32_offsets \<Rightarrow> usize" where "eproc_peb o' = ucast (ot_eproc_peb (offset_table o'))"
definition eproc_section_base :: "win32_offsets \<Rightarrow> usize" where
  "eproc_section_base o' = ucast (ot_eproc_section_base (offset_table o'))"
definition eproc_exit_status :: "win32_offsets \<Rightarrow> usize" where
  "eproc_exit_status o' = ucast (ot_eproc_exit_status (offset_table o'))"
definition eproc_thread_list :: "win32_offsets \<Rightarrow> usize" where
  "eproc_thread_list o' = ucast (ot_eproc_thread_list (offset_table o'))"
definition eproc_wow64 :: "win32_offsets \<Rightarrow> usize" where "eproc_wow64 o' = ucast (ot_eproc_wow64 (offset_table o'))"
definition kthread_teb :: "win32_offsets \<Rightarrow> usize" where "kthread_teb o' = ucast (ot_kthread_teb (offset_table o'))"
definition ethread_list_entry :: "win32_offsets \<Rightarrow> usize" where
  "ethread_list_entry o' = ucast (ot_ethread_list_entry (offset_table o'))"
definition teb_peb :: "win32_offsets \<Rightarrow> usize" where "teb_peb o' = ucast (ot_teb_peb (offset_table o'))"
definition teb_peb_x86 :: "win32_offsets \<Rightarrow> usize" where "teb_peb_x86 o' = ucast (ot_teb_peb_x86 (offset_table o'))"

section \<open>The structures of the two pointer sizes\<close>

datatype win32_offsets_architecture = Offs_X86 | Offs_X64 | Offs_AArch64

record win32_arch_offsets =
  ao_peb_ldr :: usize
  ao_ldr_list :: usize
  ao_ldr_data_base :: usize
  ao_ldr_data_size :: usize
  ao_ldr_data_name :: usize

definition OFFSETS_X86 :: win32_arch_offsets where
  "OFFSETS_X86 = \<lparr>ao_peb_ldr = 0xc, ao_ldr_list = 0xc, ao_ldr_data_base = 0x18,
     ao_ldr_data_size = 0x20, ao_ldr_data_name = 0x2c\<rparr>"

definition OFFSETS_X64 :: win32_arch_offsets where
  "OFFSETS_X64 = \<lparr>ao_peb_ldr = 0x18, ao_ldr_list = 0x10, ao_ldr_data_base = 0x30,
     ao_ldr_data_size = 0x40, ao_ldr_data_name = 0x58\<rparr>"

fun arch_offsets :: "win32_offsets_architecture \<Rightarrow> win32_arch_offsets option" where
  "arch_offsets Offs_X64 = Some OFFSETS_X64"
| "arch_offsets Offs_X86 = Some OFFSETS_X86"
| "arch_offsets Offs_AArch64 = None"

definition offsets_architecture_from :: "x86_architecture \<Rightarrow> win32_offsets_architecture option" where
  "offsets_architecture_from arch =
     (if arch = x32_spec \<or> arch = x32_pae_spec then Some Offs_X86
      else if arch = x64_spec then Some Offs_X64 else None)"

definition arch_offsets_from :: "x86_architecture \<Rightarrow> win32_arch_offsets option" where
  "arch_offsets_from arch = Option.bind (offsets_architecture_from arch) arch_offsets"

section \<open>Offset files\<close>

text \<open>\<open>BinaryString\<close> is an array of 128 bytes.\<close>

datatype binary_string = BinaryString "u8 list"

definition bs_from_bytes :: "u8 list \<Rightarrow> binary_string option" where
  "bs_from_bytes other =
     (if length other \<le> 128 then Some (BinaryString (other @ replicate (128 - length other) 0)) else None)"

definition bs_default :: "binary_string option" where "bs_default = bs_from_bytes []"

definition bs_from_str :: "u8 list \<Rightarrow> binary_string option" where
  "bs_from_str other =
     (if length other \<le> 128 then Some (BinaryString (other @ replicate (128 - length other) 0)) else None)"

definition bs_from_string :: "u8 list \<Rightarrow> binary_string option" where
  "bs_from_string other = bs_from_str other"

text \<open>The text up to the first zero byte, if all 128 bytes are UTF-8.\<close>

fun bs_try_str :: "binary_string \<Rightarrow> u8 list option" where
  "bs_try_str (BinaryString arr) =
     (if utf8_valid arr then Some (takeWhile (\<lambda>c. c \<noteq> 0) arr) else None)"

text \<open>\<open>visit_str\<close> of the deserialiser fills the array in the same way.\<close>

definition bs_visit_str :: "u8 list \<Rightarrow> binary_string option" where
  "bs_visit_str v =
     (if length v \<le> 128 then Some (BinaryString (v @ replicate (128 - length v) 0)) else None)"

definition bs_serialize :: "binary_string \<Rightarrow> u8 list option" where
  "bs_serialize s = bs_try_str s"

record win32_offset_file =
  of_pdb_file_name :: binary_string
  of_pdb_guid :: binary_string
  of_nt_major_version :: u32
  of_nt_minor_version :: u32
  of_nt_build_number :: u32
  of_arch :: win32_offsets_architecture
  of_offsets :: win32_offset_table

section \<open>Offsets from symbols\<close>

record pdb_field =
  pf_type_name :: string
  pf_offset :: usize

text \<open>A structure of a symbol file is the map of its fields.\<close>

record pdb_struct =
  ps_field_map :: "string \<Rightarrow> pdb_field option"

definition find_field :: "pdb_struct \<Rightarrow> string \<Rightarrow> pdb_field option" where
  "find_field s name = ps_field_map s name"

text \<open>The operator \<open>?\<close> on a result.\<close>

definition result_bind :: "('e + 'a) \<Rightarrow> ('a \<Rightarrow> 'e + 'b) \<Rightarrow> 'e + 'b" where
  "result_bind r f = (case r of Inl e \<Rightarrow> Inl e | Inr a \<Rightarrow> f a)"

lemma result_bind_simps [simp]: "result_bind (Inl e) f = Inl e" "result_bind (Inr a) f = f a"
  by (simp_all add: result_bind_def)

definition pdb_type :: "(string \<Rightarrow> pdb_struct option) \<Rightarrow> string \<Rightarrow> ('p, pdb_struct) w32_result" where
  "pdb_type pdb name =
     (case pdb name of Some s \<Rightarrow> Inr s | None \<Rightarrow> Inl (W32PDB (name @ '' not found'')))"

definition field_offset :: "pdb_struct \<Rightarrow> string \<Rightarrow> string \<Rightarrow> ('p, u32) w32_result" where
  "field_offset s type_name name =
     (case find_field s name of
        Some f \<Rightarrow> Inr (ucast (pf_offset f))
      | None \<Rightarrow> Inl (W32PDB (type_name @ ''::'' @ name @ '' not found'')))"

text \<open>\<open>with\<close> is \<open>PdbStruct::with\<close>, the parser of symbol files.\<close>

definition from_pdb_slice ::
  "(u8 list \<Rightarrow> string \<Rightarrow> pdb_struct option) \<Rightarrow> u8 list \<Rightarrow> ('p, win32_offsets) w32_result" where
  "from_pdb_slice pdb_with pdb_slice =
     (let pdb = pdb_with pdb_slice in
      result_bind (pdb_type pdb ''_LIST_ENTRY'') (\<lambda>list.
      result_bind (pdb_type pdb ''_KPROCESS'') (\<lambda>kproc.
      result_bind (pdb_type pdb ''_EPROCESS'') (\<lambda>eproc.
      result_bind (pdb_type pdb ''_ETHREAD'') (\<lambda>ethread.
      result_bind (pdb_type pdb ''_KTHREAD'') (\<lambda>kthread.
      result_bind (pdb_type pdb ''_TEB'') (\<lambda>teb.
      result_bind (field_offset list ''_LIST_ENTRY'' ''Blink'') (\<lambda>list_blink.
      result_bind (field_offset eproc ''_EPROCESS'' ''ActiveProcessLinks'') (\<lambda>eproc_link.
      result_bind (field_offset kproc ''_KPROCESS'' ''DirectoryTableBase'') (\<lambda>kproc_dtb.
      result_bind (field_offset eproc ''_EPROCESS'' ''UniqueProcessId'') (\<lambda>eproc_pid.
      result_bind (field_offset eproc ''_EPROCESS'' ''ImageFileName'') (\<lambda>eproc_name.
      result_bind (field_offset eproc ''_EPROCESS'' ''Peb'') (\<lambda>eproc_peb.
      result_bind (field_offset eproc ''_EPROCESS'' ''SectionBaseAddress'') (\<lambda>eproc_section_base.
      result_bind (field_offset eproc ''_EPROCESS'' ''ExitStatus'') (\<lambda>eproc_exit_status.
      result_bind (field_offset eproc ''_EPROCESS'' ''ThreadListHead'') (\<lambda>eproc_thread_list.
      let eproc_wow64 =
            (case (case find_field eproc ''WoW64Process'' of
                     Some f \<Rightarrow> Some f | None \<Rightarrow> find_field eproc ''Wow64Process'') of
               Some f \<Rightarrow> ucast (pf_offset f) | None \<Rightarrow> 0) in
      result_bind (field_offset kthread ''_KTHREAD'' ''Teb'') (\<lambda>kthread_teb.
      result_bind (field_offset ethread ''_ETHREAD'' ''ThreadListEntry'') (\<lambda>ethread_list_entry.
      result_bind (field_offset teb ''_TEB'' ''ProcessEnvironmentBlock'') (\<lambda>teb_peb.
      result_bind (case pdb ''_TEB32'' of
                     Some teb32 \<Rightarrow> field_offset teb32 ''_TEB32'' ''ProcessEnvironmentBlock''
                   | None \<Rightarrow> Inr 0) (\<lambda>teb_peb_x86.
        Inr (Win32Offsets \<lparr>ot_list_blink = list_blink, ot_eproc_link = eproc_link, ot_kproc_dtb = kproc_dtb,
          ot_eproc_pid = eproc_pid, ot_eproc_name = eproc_name, ot_eproc_peb = eproc_peb,
          ot_eproc_section_base = eproc_section_base, ot_eproc_exit_status = eproc_exit_status,
          ot_eproc_thread_list = eproc_thread_list, ot_eproc_wow64 = eproc_wow64,
          ot_kthread_teb = kthread_teb, ot_ethread_list_entry = ethread_list_entry,
          ot_teb_peb = teb_peb, ot_teb_peb_x86 = teb_peb_x86\<rparr>)))))))))))))))))))))"

definition from_pdb ::
  "(u8 list \<Rightarrow> string \<Rightarrow> pdb_struct option) \<Rightarrow> path \<Rightarrow> (file_system, 'p, win32_offsets) w32_step" where
  "from_pdb pdb_with pdb_path =
     and_then (file_open (W32PDB ''unable to open user-supplied pdb file'') pdb_path) (\<lambda>_.
     and_then (file_read_to_end (W32PDB ''unable to read user-supplied pdb file'') pdb_path) (\<lambda>buffer.
       w32_try (from_pdb_slice pdb_with buffer)))"

section \<open>The builder\<close>

record win32_offset_builder =
  wb_symbol_store :: "symbol_store option"
  wb_guid :: "win32_guid option"
  wb_winver :: "win32_version option"
  wb_arch :: "win32_offsets_architecture option"

text \<open>The default store is in the home directory; without one the builder panics.\<close>

definition wb_default :: "path option \<Rightarrow> win32_offset_builder option" where
  "wb_default home_dir = map_option (\<lambda>store.
     \<lparr>wb_symbol_store = Some store, wb_guid = None, wb_winver = None, wb_arch = None\<rparr>) (ss_default home_dir)"

definition wb_new :: "path option \<Rightarrow> win32_offset_builder option" where "wb_new home_dir = wb_default home_dir"

definition offsets_builder :: "path option \<Rightarrow> win32_offset_builder option" where
  "offsets_builder home_dir = wb_default home_dir"

definition wb_with_symbol_store :: "win32_offset_builder \<Rightarrow> symbol_store \<Rightarrow> win32_offset_builder" where
  "wb_with_symbol_store b store = b\<lparr>wb_symbol_store := Some store\<rparr>"

definition wb_no_symbol_store :: "win32_offset_builder \<Rightarrow> win32_offset_builder" where
  "wb_no_symbol_store b = b\<lparr>wb_symbol_store := None\<rparr>"

definition wb_with_guid :: "win32_offset_builder \<Rightarrow> win32_guid \<Rightarrow> win32_offset_builder" where
  "wb_with_guid b guid = b\<lparr>wb_guid := Some guid\<rparr>"

definition wb_with_winver :: "win32_offset_builder \<Rightarrow> win32_version \<Rightarrow> win32_offset_builder" where
  "wb_with_winver b winver = b\<lparr>wb_winver := Some winver\<rparr>"

definition wb_with_arch :: "win32_offset_builder \<Rightarrow> win32_offsets_architecture \<Rightarrow> win32_offset_builder" where
  "wb_with_arch b arch = b\<lparr>wb_arch := Some arch\<rparr>"

definition wb_with_kernel_info :: "win32_offset_builder \<Rightarrow> kernel_info \<Rightarrow> win32_offset_builder option" where
  "wb_with_kernel_info b info =
     (let b = (if wb_guid b = None then b\<lparr>wb_guid := ki_kernel_guid info\<rparr> else b);
          b = (if wb_winver b = None then b\<lparr>wb_winver := Some (ki_kernel_winver info)\<rparr> else b)
      in if wb_arch b = None
         then map_option (\<lambda>arch. b\<lparr>wb_arch := Some arch\<rparr>)
                (offsets_architecture_from (sb_arch (ki_start_block info)))
         else Some b)"

text \<open>The list of offset files embedded in the crate is a parameter.\<close>

definition has_guid :: "win32_guid \<Rightarrow> win32_offset_file \<Rightarrow> bool" where
  "has_guid target f =
     (case (bs_try_str (of_pdb_file_name f), bs_try_str (of_pdb_guid f)) of
        (Some file, Some guid) \<Rightarrow> wg_file_name target = file \<and> wg_guid target = guid
      | _ \<Rightarrow> False)"

definition closest_step ::
  "win32_version \<Rightarrow> win32_offsets_architecture \<Rightarrow> win32_offset_file
     \<Rightarrow> u32 \<times> win32_offsets option \<Rightarrow> u32 \<times> win32_offsets option" where
  "closest_step winver arch f = (\<lambda>(prev_build_number, closest_match).
     if major_version winver = of_nt_major_version f \<and>
        minor_version winver = of_nt_minor_version f \<and>
        of_nt_build_number f \<le> build_number winver \<and>
        prev_build_number \<le> of_nt_build_number f \<and>
        arch = of_arch f
     then (of_nt_build_number f, Some (Win32Offsets (of_offsets f)))
     else (prev_build_number, closest_match))"

definition build_with_offset_list ::
  "win32_offset_file list \<Rightarrow> win32_offset_builder \<Rightarrow> ('p, win32_offsets) w32_result" where
  "build_with_offset_list files b =
     (case Option.bind (wb_guid b) (\<lambda>target. find (has_guid target) files) of
        Some f \<Rightarrow> Inr (Win32Offsets (of_offsets f))
      | None \<Rightarrow>
          (let closest_match =
             (case (wb_winver b, wb_arch b) of
                (Some winver, Some arch) \<Rightarrow> snd (fold (closest_step winver arch) files (0, None))
              | _ \<Rightarrow> None)
           in case closest_match of
                Some offsets \<Rightarrow> Inr offsets
              | None \<Rightarrow> Inl (W32Other ''not found'')))"

definition build_with_symbol_store ::
  "(u8 list \<Rightarrow> string \<Rightarrow> pdb_struct option) \<Rightarrow> (u8 list \<Rightarrow> http_response) \<Rightarrow> win32_offset_builder
     \<Rightarrow> (file_system, 'p, win32_offsets) w32_step" where
  "build_with_symbol_store pdb_with get b =
     (case wb_symbol_store b of
        Some store \<Rightarrow>
          (case wb_guid b of
             Some guid \<Rightarrow> and_then (store_load get store guid) (\<lambda>pdb. w32_try (from_pdb_slice pdb_with pdb))
           | None \<Rightarrow> fail_with (W32Other ''symbol store can only be used with a guid''))
      | None \<Rightarrow> fail_with (W32Other ''symbol store is disabled''))"

definition wb_build ::
  "win32_offset_file list \<Rightarrow> (u8 list \<Rightarrow> string \<Rightarrow> pdb_struct option) \<Rightarrow> (u8 list \<Rightarrow> http_response)
     \<Rightarrow> win32_offset_builder \<Rightarrow> (file_system, 'p, win32_offsets) w32_step" where
  "wb_build files pdb_with get b =
     (if wb_guid b = None \<and> wb_winver b = None
      then fail_with (W32Other ''building win32 offsets requires either a guid or winver'')
      else attempt (build_with_symbol_store pdb_with get b) (\<lambda>r. case (r :: ('p, win32_offsets) w32_result) of
             Inr offs \<Rightarrow> done_with offs
           | Inl _ \<Rightarrow> (case (build_with_offset_list files b :: ('p, win32_offsets) w32_result) of
                         Inr offs \<Rightarrow> done_with offs
                       | Inl _ \<Rightarrow> fail_with (W32Other ''not found''))))"

section \<open>Strings in files\<close>

lemma utf8_cont_0 [simp]: "\<not> utf8_cont 0" "\<not> utf8_second3 b 0" "\<not> utf8_second4 b 0"
  by (simp_all add: utf8_cont_def utf8_second3_def utf8_second4_def)

lemma utf8_char_append:
  assumes "utf8_char s = (n, True)" "s \<noteq> []"
  shows "utf8_char (s @ t) = (n, True) \<and> n \<le> length s"
proof -
  obtain b s' where s: "s = b # s'" using assms(2) by (cases s) auto
  define at where "at i = (if i < length s then s ! i else 0)" for i
  define at' where "at' i = (if i < length (s @ t) then (s @ t) ! i else 0)" for i
  have same: "at' i = at i" if "i < length s" for i using that by (simp add: at_def at'_def nth_append)
  have short: "i < length s" if "at i \<noteq> 0" for i using that by (auto simp: at_def split: if_splits)
  have first: "at 0 = b" "at' 0 = b" by (simp_all add: at_def at'_def s)
  have pos: "1 \<le> length s" by (simp add: s)
  have nz: "at i \<noteq> 0" if "utf8_cont (at i) \<or> utf8_second3 b (at i) \<or> utf8_second4 b (at i)" for i
    using that utf8_cont_0 by metis
  have inside: "at' i = at i \<and> i < length s"
    if "utf8_cont (at i) \<or> utf8_second3 b (at i) \<or> utf8_second4 b (at i)" for i
    using nz [OF that] short same by blast
  have char: "utf8_char s = (let at = at in
      if at 0 < 0x80 then (1, True)
      else if 0xC2 \<le> at 0 \<and> at 0 \<le> 0xDF then (if utf8_cont (at 1) then (2, True) else (1, False))
      else if 0xE0 \<le> at 0 \<and> at 0 \<le> 0xEF then
        (if \<not> utf8_second3 (at 0) (at 1) then (1, False)
         else if \<not> utf8_cont (at 2) then (2, False) else (3, True))
      else if 0xF0 \<le> at 0 \<and> at 0 \<le> 0xF4 then
        (if \<not> utf8_second4 (at 0) (at 1) then (1, False)
         else if \<not> utf8_cont (at 2) then (2, False)
         else if \<not> utf8_cont (at 3) then (3, False) else (4, True))
      else (1, False))" (is "_ = ?char at")
    by (simp add: utf8_char_def at_def [abs_def] Let_def)
  have char': "utf8_char (s @ t) = ?char at'"
    by (simp add: utf8_char_def at'_def [abs_def] Let_def)
  consider "b < 0x80" "n = 1"
    | "\<not> b < 0x80" "0xC2 \<le> b \<and> b \<le> 0xDF" "utf8_cont (at 1)" "n = 2"
    | "\<not> b < 0x80" "\<not> (0xC2 \<le> b \<and> b \<le> 0xDF)" "0xE0 \<le> b \<and> b \<le> 0xEF"
      "utf8_second3 b (at 1)" "utf8_cont (at 2)" "n = 3"
    | "\<not> b < 0x80" "\<not> (0xC2 \<le> b \<and> b \<le> 0xDF)" "\<not> (0xE0 \<le> b \<and> b \<le> 0xEF)"
      "0xF0 \<le> b \<and> b \<le> 0xF4" "utf8_second4 b (at 1)" "utf8_cont (at 2)" "utf8_cont (at 3)" "n = 4"
    using assms(1) unfolding char Let_def first
    by (simp only: split: if_splits) (simp_all only: prod.inject simp_thms)
  then show ?thesis
  proof cases
    case 1
    then show ?thesis using pos by (simp add: char' first)
  next
    case 2
    moreover have "at' 1 = at 1 \<and> 1 < length s" using 2 inside by blast
    ultimately show ?thesis by (simp add: char' first)
  next
    case 3
    moreover have "at' 1 = at 1" "at' 2 = at 2 \<and> 2 < length s" using 3 inside by blast+
    ultimately show ?thesis by (simp add: char' first)
  next
    case 4
    moreover have "at' 1 = at 1" "at' 2 = at 2" "at' 3 = at 3 \<and> 3 < length s" using 4 inside by blast+
    ultimately show ?thesis by (simp add: char' first)
  qed
qed

lemma utf8_valid_append: "utf8_valid s \<Longrightarrow> utf8_valid t \<Longrightarrow> utf8_valid (s @ t)"
proof (induction s rule: utf8_valid.induct)
  case (1 s)
  show ?case
  proof (cases "s = []")
    case False
    obtain n v where c: "utf8_char s = (n, v)" by fastforce
    have v: "v" "utf8_valid (drop n s)" using "1.prems"(1) False c
      by (auto simp: utf8_valid.simps [of s] split: if_splits)
    have st: "utf8_char (s @ t) = (n, True)" "n \<le> length s" using utf8_char_append [of s n t] c v False by auto
    have "utf8_valid (drop n s @ t)" using "1.IH" [OF False c [symmetric] v] "1.prems"(2) .
    then show ?thesis using st False by (simp add: utf8_valid.simps [of "s @ t"])
  qed (use 1 in simp)
qed

lemma utf8_valid_zeros: "utf8_valid (replicate n 0)"
proof (induction n)
  case 0
  show ?case by (simp add: utf8_valid.simps)
next
  case (Suc n)
  have "utf8_char (0 # replicate n 0) = (1, True)" by (simp add: utf8_char_def Let_def)
  with Suc show ?case by (simp add: utf8_valid.simps [of "0 # _"])
qed

lemma takeWhile_zeros: "0 \<notin> set s \<Longrightarrow> takeWhile (\<lambda>c. c \<noteq> (0 :: u8)) (s @ replicate n 0) = s"
  by (induction s) (auto simp: takeWhile_eq_Nil_iff)

text \<open>
  C28. A text of at most 128 bytes of UTF-8 without a zero byte survives the buffer of an offset
  file and its serialised form; a longer one panics.
\<close>

theorem binary_string_roundtrip:
  "(length s \<le> 128 \<and> utf8_valid s \<and> 0 \<notin> set s \<longrightarrow>
      Option.bind (bs_from_str s) bs_try_str = Some s \<and>
      Option.bind (Option.bind (bs_from_str s) bs_serialize) bs_visit_str = bs_from_str s) \<and>
   (128 < length s \<longrightarrow> bs_from_str s = None)"
  using utf8_valid_append [OF _ utf8_valid_zeros, of s "128 - length s"]
  by (auto simp: bs_from_str_def bs_serialize_def bs_visit_str_def takeWhile_zeros)

lemma binary_string_roundtrip_witness:
  "Option.bind (bs_from_str (utf8_of ''ntkrnlmp.pdb'')) bs_try_str = Some (utf8_of ''ntkrnlmp.pdb'') \<and>
   bs_from_str (replicate 129 1) = None"
proof -
  have "utf8_valid (utf8_of ''ntkrnlmp.pdb'')" "0 \<notin> set (utf8_of ''ntkrnlmp.pdb'')"
      "length (utf8_of ''ntkrnlmp.pdb'') \<le> 128" "128 < length (replicate 129 (1 :: u8))"
    by code_simp+
  then show ?thesis using binary_string_roundtrip by blast
qed

section \<open>The closest offset file\<close>

text \<open>The files of a kernel version that are not newer.\<close>

definition fits :: "win32_version \<Rightarrow> win32_offsets_architecture \<Rightarrow> win32_offset_file \<Rightarrow> bool" where
  "fits winver arch f \<longleftrightarrow>
     of_nt_major_version f = major_version winver \<and> of_nt_minor_version f = minor_version winver \<and>
     of_nt_build_number f \<le> build_number winver \<and> of_arch f = arch"

text \<open>The last of the newest files that fit.\<close>

definition last_max :: "('a \<Rightarrow> 'b::linorder) \<Rightarrow> 'a list \<Rightarrow> 'a" where
  "last_max b xs = last (filter (\<lambda>x. b x = Max (b ` set xs)) xs)"

definition closest :: "win32_version \<Rightarrow> win32_offsets_architecture \<Rightarrow> win32_offset_file list \<Rightarrow> win32_offset_file option" where
  "closest winver arch files =
     (let fitting = filter (fits winver arch) files
      in if fitting = [] then None else Some (last_max of_nt_build_number fitting))"

lemma last_max_value:
  assumes "xs \<noteq> []"
  shows "b (last_max b xs) = Max (b ` set xs)"
proof -
  have "Max (b ` set xs) \<in> b ` set xs" using assms by (intro Max_in) auto
  then have "filter (\<lambda>x. b x = Max (b ` set xs)) xs \<noteq> []" by (auto simp: filter_empty_conv)
  from last_in_set [OF this] show ?thesis by (simp add: last_max_def)
qed

lemma last_max_snoc:
  assumes "xs \<noteq> []"
  shows "last_max b (xs @ [x]) = (if b (last_max b xs) \<le> b x then x else last_max b xs)"
proof -
  let ?M = "Max (b ` set xs)"
  have M: "Max (b ` set (xs @ [x])) = max (b x) ?M" using assms by simp
  show ?thesis
  proof (cases "?M \<le> b x")
    case True
    then have "Max (b ` set (xs @ [x])) = b x" unfolding M by (rule max_absorb1)
    then show ?thesis using True last_max_value [OF assms, of b] by (simp only: last_max_def) simp
  next
    case False
    then have "Max (b ` set (xs @ [x])) = ?M" "b x \<noteq> ?M" unfolding M by auto
    then show ?thesis using False last_max_value [OF assms, of b] by (simp only: last_max_def) simp
  qed
qed

lemma last_max_single [simp]: "last_max b [x] = x"
  by (simp add: last_max_def)

lemma closest_snoc:
  "closest v a (fs @ [f]) =
     (if fits v a f \<and> (\<forall>g. closest v a fs = Some g \<longrightarrow> of_nt_build_number g \<le> of_nt_build_number f)
      then Some f else closest v a fs)"
  by (cases "filter (fits v a) fs = []") (simp_all add: closest_def Let_def last_max_snoc)

lemma closest_fold:
  "fold (closest_step v a) fs (0, None) =
     (case closest v a fs of None \<Rightarrow> (0, None)
      | Some f \<Rightarrow> (of_nt_build_number f, Some (Win32Offsets (of_offsets f))))"
proof (induction fs rule: rev_induct)
  case Nil
  show ?case by (simp add: closest_def)
next
  case (snoc f fs)
  then show ?case
    by (auto simp: closest_snoc closest_step_def fits_def split: option.splits)
qed

text \<open>
  C33. The embedded offsets: the first file with the identifier of the kernel; without one, among
  the files of the same version and architecture that are not newer than the kernel the last
  of the newest; and an error when there is none.
\<close>

theorem offset_list_lookup:
  "build_with_offset_list files b =
     (case (Option.bind (wb_guid b) (\<lambda>target. find (has_guid target) files),
            case (wb_winver b, wb_arch b) of (Some v, Some a) \<Rightarrow> closest v a files | _ \<Rightarrow> None) of
        (Some f, _) \<Rightarrow> Inr (Win32Offsets (of_offsets f))
      | (None, Some f) \<Rightarrow> Inr (Win32Offsets (of_offsets f))
      | (None, None) \<Rightarrow> Inl (W32Other ''not found''))"
  by (simp add: build_with_offset_list_def closest_fold split: option.splits)

end
