(* ===== verification/Win32_Process.thy ===== *)
theory Win32_Process
  imports Win32_Offsets
begin

text \<open>
  Processes and their modules: counted strings (\<open>win32/unicode_string.rs\<close>), modules
  (\<open>win32/module.rs\<close>), the list of modules of a process and the process itself
  (\<open>win32/process.rs\<close>), and the traits of \<open>memflow/src/process/mod.rs\<close> as accessors. The
  virtual memory is a parameter \<open>vm\<close> on its state; \<open>u\<close> are the uninitialised bytes a
  read starts from.
\<close>

section \<open>\<open>unicode_string.rs\<close>\<close>

text \<open>\<open>U16CString\<close> of the package \<open>widestring\<close> is a parameter.\<close>

record 'w widestring =
  ws_from_vec_with_nul :: "16 word list \<Rightarrow> 'w option"
  ws_to_string_lossy :: "'w \<Rightarrow> u8 list"

definition read_addr ::
  "'v virt_mem \<Rightarrow> u8 list \<Rightarrow> x86_architecture \<Rightarrow> address \<Rightarrow> ('v, 'p, address) w32_step" where
  "read_addr vm u arch addr = w32_partial (\<lambda>s. virt_read_addr_arch vm s u arch addr)"

definition utf16_units :: "endianess \<Rightarrow> u8 list \<Rightarrow> 16 word list" where
  "utf16_units endianess content =
     map (\<lambda>b. case endianess of LittleEndian \<Rightarrow> from_le_bytes b | BigEndian \<Rightarrow> from_le_bytes (rev b))
       (chunks_exact 2 content)"

definition virt_read_unicode_string ::
  "'w widestring \<Rightarrow> 'v virt_mem \<Rightarrow> u8 list \<Rightarrow> x86_architecture \<Rightarrow> address \<Rightarrow> ('v, 'p, u8 list) w32_step" where
  "virt_read_unicode_string ws vm u proc_arch addr =
     and_then (w32_partial (read_raw_into vm addr [0, 0])) (\<lambda>bytes.
       let length' = (from_le_bytes bytes :: 16 word) in
       if length' = 0 then fail_with (W32Unicode ''unable to read unicode string length'')
       else
       and_then
         (if arch_bits proc_arch = 64
          then w32_partial (\<lambda>s. virt_read_addr64 vm s u (address_add addr 8))
          else if arch_bits proc_arch = 32
          then w32_partial (\<lambda>s. virt_read_addr32 vm s u (address_add addr 4))
          else fail_with W32InvalidArchitecture) (\<lambda>buffer.
       if is_null buffer then fail_with (W32Unicode ''unable to read unicode string length'')
       else if length' mod 2 \<noteq> 0
       then fail_with (W32Unicode ''unicode string length is not a multiple of two'')
       else
       and_then (w32_partial (read_raw_into vm buffer (replicate (unat length' + 2) 0))) (\<lambda>content.
         let content = content[unat length' := 0, unat length' + 1 := 0] in
         (case ws_from_vec_with_nul ws (utf16_units (arch_endianess proc_arch) content) of
            None \<Rightarrow> fail_with W32Encoding
          | Some s \<Rightarrow> done_with (ws_to_string_lossy ws s)))))"

section \<open>\<open>module.rs\<close>\<close>

record win32_module_info =
  wm_peb_entry :: address
  wm_parent_eprocess :: address
  wm_base :: address
  wm_size :: usize
  wm_name :: "u8 list"

definition module_address :: "win32_module_info \<Rightarrow> address" where "module_address m = wm_peb_entry m"

definition module_parent_process :: "win32_module_info \<Rightarrow> address" where
  "module_parent_process m = wm_parent_eprocess m"

definition module_base :: "win32_module_info \<Rightarrow> address" where "module_base m = wm_base m"
definition module_size :: "win32_module_info \<Rightarrow> usize" where "module_size m = wm_size m"
definition module_get_name :: "win32_module_info \<Rightarrow> u8 list" where "module_get_name m = wm_name m"

section \<open>Module lists\<close>

definition EXIT_STATUS_STILL_ACTIVE :: "32 word" where "EXIT_STATUS_STILL_ACTIVE = 259"

definition IMAGE_FILE_NAME_LENGTH :: usize where "IMAGE_FILE_NAME_LENGTH = 15"

definition MAX_ITER_COUNT :: nat where "MAX_ITER_COUNT = 65536"

record win32_module_list_info =
  ml_module_base :: address
  ml_ldr_data_base_offs :: usize
  ml_ldr_data_size_offs :: usize
  ml_ldr_data_name_offs :: usize

text \<open>\<open>Win32ArchOffsets::from\<close> panics for an architecture that has none.\<close>

definition ml_with_base :: "address \<Rightarrow> x86_architecture \<Rightarrow> ('p, win32_module_list_info) w32_result option" where
  "ml_with_base base arch = map_option (\<lambda>offsets.
     Inr \<lparr>ml_module_base = base, ml_ldr_data_base_offs = ao_ldr_data_base offsets,
       ml_ldr_data_size_offs = ao_ldr_data_size offsets, ml_ldr_data_name_offs = ao_ldr_data_name offsets\<rparr>)
     (arch_offsets_from arch)"

definition ml_with_peb ::
  "'v virt_mem \<Rightarrow> u8 list \<Rightarrow> address \<Rightarrow> x86_architecture \<Rightarrow> ('v, 'p, win32_module_list_info) w32_step" where
  "ml_with_peb vm u peb arch =
     and_then (may_panic (arch_offsets_from arch)) (\<lambda>offsets.
     and_then (read_addr vm u arch (address_add peb (ao_peb_ldr offsets))) (\<lambda>peb_ldr.
     and_then (read_addr vm u arch (address_add peb_ldr (ao_ldr_list offsets))) (\<lambda>base.
     and_then (may_panic (ml_with_base base arch)) w32_try)))"

definition ml_get_module_base :: "win32_module_list_info \<Rightarrow> address" where
  "ml_get_module_base info = ml_module_base info"

text \<open>The loop over the entries, at most \<open>MAX_ITER_COUNT\<close> of them.\<close>

fun module_entry_loop ::
  "'v virt_mem \<Rightarrow> u8 list \<Rightarrow> x86_architecture \<Rightarrow> address \<Rightarrow> nat \<Rightarrow> address \<Rightarrow> address list
     \<Rightarrow> ('v, 'p, address list) w32_step" where
  "module_entry_loop vm u arch base 0 list_entry list = done_with list"
| "module_entry_loop vm u arch base (Suc n) list_entry list =
     (let list = list @ [list_entry] in
      and_then (read_addr vm u arch list_entry) (\<lambda>list_entry.
        if is_null list_entry \<or> as_u64 list_entry AND 7 \<noteq> 0 \<or> list_entry = base
        then done_with list
        else module_entry_loop vm u arch base n list_entry list))"

definition ml_module_entry_list ::
  "'v virt_mem \<Rightarrow> u8 list \<Rightarrow> win32_module_list_info \<Rightarrow> x86_architecture \<Rightarrow> ('v, 'p, address list) w32_step" where
  "ml_module_entry_list vm u info arch =
     module_entry_loop vm u arch (ml_module_base info) MAX_ITER_COUNT (ml_module_base info) []"

definition module_info_from_entry ::
  "'w widestring \<Rightarrow> 'v virt_mem \<Rightarrow> u8 list \<Rightarrow> win32_module_list_info \<Rightarrow> address \<Rightarrow> address \<Rightarrow> x86_architecture
     \<Rightarrow> ('v, 'p, win32_module_info) w32_step" where
  "module_info_from_entry ws vm u info entry parent_eprocess arch =
     and_then (read_addr vm u arch (address_add entry (ml_ldr_data_base_offs info))) (\<lambda>base.
     and_then (read_addr vm u arch (address_add entry (ml_ldr_data_size_offs info))) (\<lambda>size.
     and_then (virt_read_unicode_string ws vm u arch (address_add entry (ml_ldr_data_name_offs info))) (\<lambda>name.
       done_with \<lparr>wm_peb_entry = entry, wm_parent_eprocess = parent_eprocess, wm_base = base,
         wm_size = as_usize size, wm_name = name\<rparr>)))"

section \<open>Processes\<close>

record win32_process_info =
  pi_address :: address
  pi_pid :: u32
  pi_name :: "u8 list"
  pi_dtb :: address
  pi_section_base :: address
  pi_exit_status :: "32 word"
  pi_ethread :: address
  pi_wow64 :: address
  pi_teb :: "address option"
  pi_teb_wow64 :: "address option"
  pi_peb_native :: address
  pi_peb_wow64 :: "address option"
  pi_module_info_native :: win32_module_list_info
  pi_module_info_wow64 :: "win32_module_list_info option"
  pi_sys_arch :: x86_architecture
  pi_proc_arch :: x86_architecture

definition wp_wow64 :: "win32_process_info \<Rightarrow> address" where "wp_wow64 p = pi_wow64 p"

definition wp_peb :: "win32_process_info \<Rightarrow> address" where
  "wp_peb p = (case pi_peb_wow64 p of Some peb \<Rightarrow> peb | None \<Rightarrow> pi_peb_native p)"

definition wp_peb_native :: "win32_process_info \<Rightarrow> address" where "wp_peb_native p = pi_peb_native p"

definition wp_peb_wow64 :: "win32_process_info \<Rightarrow> address option" where "wp_peb_wow64 p = pi_peb_wow64 p"

text \<open>\<open>module_info\<close> unwraps the list of a WoW64 process.\<close>

definition wp_module_info :: "win32_process_info \<Rightarrow> win32_module_list_info option" where
  "wp_module_info p = (if \<not> is_null (pi_wow64 p) then pi_module_info_wow64 p else Some (pi_module_info_native p))"

definition wp_module_info_native :: "win32_process_info \<Rightarrow> win32_module_list_info" where
  "wp_module_info_native p = pi_module_info_native p"

definition wp_module_info_wow64 :: "win32_process_info \<Rightarrow> win32_module_list_info option" where
  "wp_module_info_wow64 p = pi_module_info_wow64 p"

definition wp_translator :: "win32_process_info \<Rightarrow> win32_virtual_translate" where
  "wp_translator p = wt_new (pi_sys_arch p) (pi_dtb p)"

definition wp_address :: "win32_process_info \<Rightarrow> address" where "wp_address p = pi_address p"
definition wp_pid :: "win32_process_info \<Rightarrow> u32" where "wp_pid p = pi_pid p"
definition wp_name :: "win32_process_info \<Rightarrow> u8 list" where "wp_name p = pi_name p"
definition wp_sys_arch :: "win32_process_info \<Rightarrow> x86_architecture" where "wp_sys_arch p = pi_sys_arch p"
definition wp_proc_arch :: "win32_process_info \<Rightarrow> x86_architecture" where "wp_proc_arch p = pi_proc_arch p"

record 'v win32_process =
  wpr_virt_mem :: 'v
  wpr_proc_info :: win32_process_info

definition wpr_clone :: "'v win32_process \<Rightarrow> 'v win32_process" where
  "wpr_clone p = \<lparr>wpr_virt_mem = wpr_virt_mem p, wpr_proc_info = wpr_proc_info p\<rparr>"

text \<open>A step on the memory of the process.\<close>

definition on_virt_mem :: "('v, 'p, 'a) w32_step \<Rightarrow> ('v win32_process, 'p, 'a) w32_step" where
  "on_virt_mem step self =
     map_option (\<lambda>(r, v). (r, self\<lparr>wpr_virt_mem := v\<rparr>)) (step (wpr_virt_mem self))"

definition wpr_module_entry_list :: "'v virt_mem \<Rightarrow> u8 list \<Rightarrow> ('v win32_process, 'p, address list) w32_step" where
  "wpr_module_entry_list vm u self =
     (let proc_info = wpr_proc_info self;
          (info, arch) = (case pi_module_info_wow64 proc_info of
              Some info_wow64 \<Rightarrow> (info_wow64, pi_proc_arch proc_info)
            | None \<Rightarrow> (pi_module_info_native proc_info, pi_sys_arch proc_info))
      in on_virt_mem (ml_module_entry_list vm u info arch) self)"

definition wpr_module_entry_list_native :: "'v virt_mem \<Rightarrow> u8 list \<Rightarrow> ('v win32_process, 'p, address list) w32_step" where
  "wpr_module_entry_list_native vm u self =
     on_virt_mem (ml_module_entry_list vm u (pi_module_info_native (wpr_proc_info self))
       (pi_sys_arch (wpr_proc_info self))) self"

definition wpr_module_entry_list_wow64 :: "'v virt_mem \<Rightarrow> u8 list \<Rightarrow> ('v win32_process, 'p, address list) w32_step" where
  "wpr_module_entry_list_wow64 vm u self =
     (case pi_module_info_wow64 (wpr_proc_info self) of
        None \<Rightarrow> fail_with (W32Other ''WoW64 module list does not exist'') self
      | Some info \<Rightarrow> on_virt_mem (ml_module_entry_list vm u info (pi_proc_arch (wpr_proc_info self))) self)"

text \<open>The modules of a list that can be read; the others are skipped.\<close>

fun module_infos ::
  "'w widestring \<Rightarrow> 'v virt_mem \<Rightarrow> u8 list \<Rightarrow> win32_module_list_info \<Rightarrow> address \<Rightarrow> x86_architecture
     \<Rightarrow> address list \<Rightarrow> ('v, 'p, win32_module_info list) w32_step" where
  "module_infos ws vm u info parent arch [] = done_with []"
| "module_infos ws vm u info parent arch (peb # pebs) =
     attempt (module_info_from_entry ws vm u info peb parent arch) (\<lambda>r.
     and_then (module_infos ws vm u info parent arch pebs) (\<lambda>ms.
       done_with (case (r :: ('p, win32_module_info) w32_result) of Inr m \<Rightarrow> m # ms | Inl _ \<Rightarrow> ms)))"

text \<open>What \<open>out\<close> was extended with stays when a later list fails.\<close>

fun module_list_with_infos_extend ::
  "'w widestring \<Rightarrow> 'v virt_mem \<Rightarrow> u8 list \<Rightarrow> address \<Rightarrow> (win32_module_list_info \<times> x86_architecture) list
     \<Rightarrow> win32_module_info list \<Rightarrow> 'v \<Rightarrow> (('p, unit) w32_result \<times> win32_module_info list \<times> 'v) option" where
  "module_list_with_infos_extend ws vm u parent [] out s = Some (Inr (), out, s)"
| "module_list_with_infos_extend ws vm u parent ((info, arch) # infos) out s =
     (case and_then (ml_module_entry_list vm u info arch) (\<lambda>pebs.
             module_infos ws vm u info parent arch pebs) s of
        None \<Rightarrow> None
      | Some (Inl e, s) \<Rightarrow> Some (Inl e, out, s)
      | Some (Inr ms, s) \<Rightarrow> module_list_with_infos_extend ws vm u parent infos (out @ ms) s)"

definition module_list_extend ::
  "'w widestring \<Rightarrow> 'v virt_mem \<Rightarrow> u8 list \<Rightarrow> 'v win32_process \<Rightarrow> win32_module_info list
     \<Rightarrow> (('p, unit) w32_result \<times> win32_module_info list \<times> 'v win32_process) option" where
  "module_list_extend ws vm u self out =
     (let p = wpr_proc_info self;
          infos = (pi_module_info_native p, pi_sys_arch p) #
            (case pi_module_info_wow64 p of Some info \<Rightarrow> [(info, pi_proc_arch p)] | None \<Rightarrow> [])
      in map_option (\<lambda>(r, out, v). (r, out, self\<lparr>wpr_virt_mem := v\<rparr>))
           (module_list_with_infos_extend ws vm u (pi_address p) infos out (wpr_virt_mem self)))"

definition module_list ::
  "'w widestring \<Rightarrow> 'v virt_mem \<Rightarrow> u8 list \<Rightarrow> ('v win32_process, 'p, win32_module_info list) w32_step" where
  "module_list ws vm u self = map_option (\<lambda>(r, out, self).
     (case r of Inl e \<Rightarrow> Inl e | Inr _ \<Rightarrow> Inr out, self)) (module_list_extend ws vm u self [])"

definition find_module_info ::
  "'w widestring \<Rightarrow> 'v virt_mem \<Rightarrow> u8 list \<Rightarrow> u8 list \<Rightarrow> ('v win32_process, 'p, win32_module_info) w32_step" where
  "find_module_info ws vm u name =
     and_then (module_list ws vm u) (\<lambda>ms.
       (case find (\<lambda>m. module_get_name m = name) ms of
          Some m \<Rightarrow> done_with m
        | None \<Rightarrow> fail_with W32ModuleInfo))"

end
