(* ===== verification/Page_Reads.thy ===== *)
theory Page_Reads
  imports Virtual_Dma
begin

text \<open>
  A read inside one page: the batch walk does not cut it, so it is either translated as a
  whole or fails as a whole, and \<open>VirtualDMA\<close> returns exactly the bytes of the page. This is
  what the readers of pointers and small structures rely on.
\<close>

section \<open>One request inside a page\<close>

definition in_one_page :: "address \<Rightarrow> nat \<Rightarrow> bool" where
  "in_one_page a n \<longleftrightarrow> n \<le> page_room 0x1000 (unat a)"

lemma page_room_mono:
  assumes "0 < q" and "0 < q'"
  shows "page_room q a \<le> page_room (q * q') a"
proof -
  have "a mod (q * q') = q * (a div q mod q') + a mod q" by (rule mod_mult2_eq)
  moreover have "q * (a div q mod q') \<le> q * (q' - 1)" using assms by (intro mult_le_mono2) (simp add: less_Suc_eq_le [symmetric])
  moreover have "q * (q' - 1) + q = q * q'" using assms by (cases q') simp_all
  ultimately show ?thesis unfolding page_room_def by linarith
qed

lemma page_room_4k:
  assumes "12 \<le> k"
  shows "page_room 0x1000 a \<le> page_room (2 ^ k) a"
proof -
  have "(2 :: nat) ^ k = 0x1000 * 2 ^ (k - 12)"
    using assms power_add [of "2 :: nat" 12 "k - 12"] by simp
  then show ?thesis using page_room_mono [of "0x1000" "2 ^ (k - 12)" a] by simp
qed

context split_index
begin

lemma chunk_next_page:
  assumes wf: "tc_wf ok cells c" "tc_vec c = [x]" and s: "Suc s < split_count spec"
    and k: "12 \<le> step_bits spec (Suc s)"
    and page: "td_end cells x \<le> unat (td_addr x) + page_room 0x1000 (unat (td_addr x))"
  obtains l y where "chunk_next cap ops spec s (2 ^ step_bits spec (Suc s)) c =
       Some [l\<lparr>tc_pt_addr := the (vtop_step spec (tc_pt_addr c) (td_addr x) s)\<rparr>]"
    "tc_wf ok cells l" "tc_vec l = [y]" "td_addr y = td_addr x" "td_end cells y \<le> td_end cells x"
proof -
  let ?ps = "2 ^ step_bits spec (Suc s) :: u64" and ?a = "tc_min_addr c"
  have a: "td_addr x = ?a" using wf by (simp add: tc_wf_def)
  have "pages_fit (unat ?ps) (unat ?a)"
    unfolding step_size(1) using step_size(3) by (simp add: pages_fit_def)
  then obtain e where e: "pci_end_len (page_chunks c ?a ?ps) = Some e"
    "Suc (unat e) = page_room (unat ?ps) (unat ?a)"
    by (rule unat_pci_end_len [where it = "page_chunks c ?a ?ps"])
      (simp_all add: page_chunks_def pci_new_def)
  obtain l r where l: "tc_split_at_inclusive ops c e = Some (l, r)"
    "tc_wf ok cells l" "tc_pt_addr l = tc_pt_addr c" "tc_min_addr l = ?a"
    "unat (tc_max_addr l) \<le> unat (tc_max_addr c)"
    "length (tc_vec l) = length (filter (\<lambda>x. unat (td_addr x) \<le> unat ?a + unat e) (tc_vec c))"
    "r = None \<longleftrightarrow> (\<forall>x \<in> set (tc_vec c). td_end cells x \<le> Suc (unat ?a + unat e))"
    by (rule tc_split_wf [OF wf(1), of e]) blast
  have "td_end cells x \<le> Suc (unat ?a + unat e)"
    using page page_room_4k [OF k, of "unat ?a"] e(2) unfolding a step_size(1) by linarith
  then have r: "r = None" using l(7) wf(2) by simp
  have sp: "so_split_inclusive_at (tc_ops cap ops) c e = Some (l, None, tc_empty)"
    using l(1) by (simp add: r tc_ops_def tc_op_split_inclusive_at_def tc_consume_mut_def)
  have chunks: "page_chunks_list (tc_ops cap ops) c ?a ?ps = Some [(?a, l)]"
    using page_chunks_list_step [OF e(1) sp] by simp
  have "length (tc_vec l) = Suc 0" using l(6) wf(2) a by simp
  then obtain y where y: "tc_vec l = [y]" by (auto simp: length_Suc_conv)
  have ya: "td_addr y = ?a" and ym: "td_end cells y = unat (tc_max_addr l)"
    using l(2,4) y by (simp_all add: tc_wf_def)
  have xm: "td_end cells x = unat (tc_max_addr c)" using wf by (simp add: tc_wf_def)
  obtain pt where pt: "vtop_step spec (tc_pt_addr c) ?a s = Some pt"
    using vtop_step_total [of s spec] s by (metis Suc_lessD)
  have "chunk_next cap ops spec s ?ps c = Some [l\<lparr>tc_pt_addr := pt\<rparr>]"
    by (simp add: chunk_next_def chunks l(3,4) pt)
  with l(2,5) y ya ym xm a pt that show ?thesis by simp
qed

end

context mapped_walk
begin

lemma walk_steps_page:
  assumes s: "s < split_count spec" and m: "inv (ws_mem st)" and C: "content (ws_mem st) = C"
    and walk: "walk spec C dtb v = Walk_Entry pte0 k0"
    and bits: "\<And>s. Suc s < split_count spec \<Longrightarrow> 12 \<le> step_bits spec (Suc s)"
    and "ws_chunks st = [c]" and "tc_wf ok cells c" and "tc_vec c = [y]" and "td_addr y = v"
    and "td_end cells y \<le> unat v + page_room 0x1000 (unat v)"
    and "walk_from spec C [s..<split_count spec] (tc_pt_addr c) v = walk spec C dtb v"
  shows "\<exists>st'. walk_steps cap ops spec tm pm [s..<split_count spec] st = Some st' \<and> ws_fail st' = ws_fail st"
  using s m C assms(6-)
proof (induction "split_count spec - s" arbitrary: s st c y)
  case (Suc n)
  let ?ps = "2 ^ step_bits spec (Suc s) :: u64"
  have upt: "[s..<split_count spec] = s # [Suc s..<split_count spec]"
    using Suc.prems(1) by (rule upt_conv_Cons)
  have ps: "page_size_step_unchecked spec (Suc s) = Some ?ps"
    using Suc.prems(1) page_size_step_exp [of "Suc s" spec] by simp
  have sr: "swap_remove [c] 0 = Some (c, [])" by (simp add: swap_remove_def)
  have w: "walk_from spec C (s # [Suc s..<split_count spec]) (tc_pt_addr c) v = Walk_Entry pte0 k0"
    using Suc.prems(9) unfolding upt walk .
  have here: "check_entry spec (tc_pt_addr c) s"
    using w by (cases "check_entry spec (tc_pt_addr c) s") simp_all
  show ?case
  proof (cases "is_final_mapping spec (tc_pt_addr c) s")
    case True
    obtain pa where "get_phys_page spec (tc_pt_addr c) v s = Some pa"
      using get_phys_page_total [OF Suc.prems(1)] by blast
    with True here show ?thesis
      by (simp add: upt ps sr Suc.prems(4,6,7) chunk_translated_def)
  next
    case table: False
    then have s': "Suc s < split_count spec"
      using Suc.prems(1) by (auto simp: is_final_mapping_def split_count_def)
    have pg: "td_end cells y \<le> unat (td_addr y) + page_room 0x1000 (unat (td_addr y))"
      using Suc.prems(7,8) by simp
    obtain l z where l: "chunk_next cap ops spec s ?ps c =
         Some [l\<lparr>tc_pt_addr := the (vtop_step spec (tc_pt_addr c) (td_addr y) s)\<rparr>]"
      "tc_wf ok cells l" "tc_vec l = [z]" "td_addr z = td_addr y" "td_end cells z \<le> td_end cells y"
      by (rule chunk_next_page [OF Suc.prems(5,6) s' bits [OF s'] pg])
    let ?pt = "the (vtop_step spec (tc_pt_addr c) v s)"
    let ?c1 = "l\<lparr>tc_pt_addr := ?pt\<rparr>" and ?st1 = "st\<lparr>ws_chunks := [l\<lparr>tc_pt_addr := ?pt\<rparr>]\<rparr>"
    obtain pte where pte: "read_pte C ?pt = Some pte" "pte_addr_mask spec ?pt s \<noteq> pte_addr_mask spec pte s"
      "walk_from spec C [Suc s..<split_count spec] pte v = Walk_Entry pte0 k0"
      using w here table by (auto simp: Let_def split: option.splits if_splits)
    have loop: "walk_step_loop cap ops spec s ?ps (length (ws_chunks st)) st = Some ?st1"
      using table here by (simp add: Suc.prems(4,7) sr l(1))
    obtain st2 where st2: "read_pt_address_iter spec tm pm s ?st1 = Some (Inr (), st2)"
      "inv (ws_mem st2)" "content (ws_mem st2) = C"
      "ws_chunks st2 = [?c1\<lparr>tc_pt_addr := pte\<rparr>]" "ws_fail st2 = ws_fail st"
      using read_pt_one [OF Suc.prems(1), of ?st1 C ?c1 z pte tm] Suc.prems(2,3) l(3) pte(1,2) by auto
    have step: "walk_steps cap ops spec tm pm [s..<split_count spec] st
        = walk_steps cap ops spec tm pm [Suc s..<split_count spec] st2"
      by (simp add: upt ps loop st2(1,4))
    have "n = split_count spec - Suc s" using Suc.hyps(2) by simp
    from Suc.hyps(1) [OF this s' st2(2-4)] l pte(3) walk Suc.prems(7,8) show ?thesis
      unfolding step by (auto simp: st2(5) tc_wf_def)
  qed
qed simp

lemma virt_to_phys_page:
  assumes deep: "deep_spec spec" and m: "inv m" and req: "good_request ok cells spec (v, b)"
    and walk: "walk spec (content m) dtb v = Walk_Entry pte0 k0"
    and bits: "\<And>s. Suc s < split_count spec \<Longrightarrow> 12 \<le> step_bits spec (Suc s)"
    and page: "cells b \<noteq> []" "in_one_page v (length (cells b))"
  shows "\<exists>out m'. mmu_virt_to_phys_iter cap ops spec tm pm m dtb [(v, b)] [] [] = Some (out, [], m')"
proof -
  let ?c = "tc_new ops dtb []"
  have n: "0 < split_count spec" using deep by (simp add: deep_spec_def)
  have vec: "tc_vec ?c = []" "tc_pt_addr ?c = dtb"
    by (simp_all add: tc_new_def tc_with_minmax_def split: prod.split)
  obtain xs where xs: "filter_requests ops dtb spec [(v, b)] [?c] [] = Some ([?c\<lparr>tc_vec := xs\<rparr>], [])"
    "\<forall>x \<in> set xs. td_good ok cells x"
    "map td_addr xs = map fst (filter (\<lambda>r. cells (snd r) \<noteq> []) [(v, b)])"
    "map (\<lambda>x. cells (td_buf x)) xs = map (\<lambda>r. cells (snd r)) (filter (\<lambda>r. cells (snd r) \<noteq> []) [(v, b)])"
    using filter_requests_good [OF n, of "[(v, b)]" ?c dtb "[]"] req unfolding vec by auto
  obtain y where y: "xs = [y]" "td_addr y = v" "cells (td_buf y) = cells b"
    using xs(3,4) page(1) by (cases xs) auto
  let ?c' = "tc_recalc_minmax ops (?c\<lparr>tc_vec := xs\<rparr>)"
  have vec': "tc_vec ?c' = [y]" "tc_pt_addr ?c' = dtb"
    by (simp_all add: tc_recalc_minmax_def y(1) vec(2) split: prod.split)
  have wf: "tc_wf ok cells ?c'"
    using tc_recalc_wf [of "?c\<lparr>tc_vec := xs\<rparr>"] xs(2) y(1) by simp
  have e: "td_end cells y \<le> unat v + page_room 0x1000 (unat v)"
    using page(2) y(2,3) by (simp add: td_end_def in_one_page_def)
  have w: "walk_from spec (content m) [0..<split_count spec] (tc_pt_addr ?c') v = walk spec (content m) dtb v"
    unfolding vec' walk_def ..
  let ?st = "\<lparr>ws_mem = m, ws_map = tm_new tm, ws_chunks = [?c'], ws_pt_buf = [],
     ws_out = [], ws_fail = []\<rparr>"
  obtain st' where "walk_steps cap ops spec tm pm [0..<split_count spec] ?st = Some st'" "ws_fail st' = []"
    using walk_steps_page [OF n _ _ walk bits _ wf vec'(1) y(2) e w, where st = ?st and tm = tm and cap = cap] m
    by auto
  then show ?thesis
    unfolding mmu_iter_unfold [OF xs(1)] by simp
qed

end

section \<open>Exact reads\<close>

definition exact_range :: "x86_architecture \<Rightarrow> (u64 \<Rightarrow> u8 option) \<Rightarrow> address \<Rightarrow> address \<Rightarrow> nat \<Rightarrow> bool" where
  "exact_range arch C dtb a n \<longleftrightarrow>
     readable_range arch C dtb a n \<and> in_one_page a n \<and> walk_phys arch C dtb a \<noteq> None"

lemma dma_read_exact:
  assumes mem: "matching_memory pm mem_ok content" and m: "mem_ok (vd_phys_mem self)"
    and arch: "arch \<in> x86_archs" and tr: "vd_translator self = xst_new arch dtb"
    and ran: "exact_range arch (content (vd_phys_mem self)) dtb a (length buf)"
  shows "\<exists>buf' m'. vd_read_raw_list (direct_ops capm caps capr capo tm pm) pm self [(a, buf)] =
       Some (Inr (), [buf'], self\<lparr>vd_phys_mem := m'\<rparr>) \<and>
     mem_ok m' \<and> content m' = content (vd_phys_mem self) \<and> length buf' = length buf \<and>
     (\<forall>j < length buf. virt_byte arch (content (vd_phys_mem self)) dtb (a + of_nat j) = Some (buf' ! j))"
proof -
  let ?C = "content (vd_phys_mem self)" and ?spec = "x86_mmu arch"
  let ?s = "\<lparr>ms_alloc = 0, ms_ptr = 0, ms_len = len_usize buf\<rparr>"
  have r: "readable_range arch ?C dtb a (length buf)" and p: "in_one_page a (length buf)"
    and w: "walk_phys arch ?C dtb a \<noteq> None"
    using ran by (simp_all add: exact_range_def)
  obtain pte k where walk: "walk ?spec ?C dtb a = Walk_Entry pte k"
    using w by (auto simp: walk_phys_def split: walk_result.splits)
  have n: "0 < length buf" "length buf \<le> virt_range ?spec" "unat a + length buf < 18446744073709551616"
    using r by (simp_all add: readable_range_def walkable_def)
  then have n63: "length buf < 9223372036854775808" using x86_range_bound [OF arch] by simp
  note s = one_slice [OF n63]
  have mw: "mapped_walk mut_slice_ops mut_slice_ok mut_slice_cells pm mem_ok content"
    using mut_slice_split.split_index_axioms mem by (rule mapped_walk.intro)
  have deep: "deep_spec ?spec" using arch x86_deep by (auto simp: x86_archs_def)
  have len: "length (mut_slice_cells ?s) = length buf" by (simp add: s(3))
  have req: "good_request mut_slice_ok mut_slice_cells ?spec (a, ?s)"
    using n s(2) by (simp add: good_request_def len)
  have ne: "mut_slice_cells ?s \<noteq> []" using n(1) len by auto
  obtain out m1 where t: "mmu_virt_to_phys_iter capm mut_slice_ops ?spec tm pm (vd_phys_mem self) dtb [(a, ?s)] [] []
      = Some (out, [], m1)"
    using mapped_walk.virt_to_phys_page [OF mw deep m req walk step_bits_x86 [OF arch] ne, where cap = capm and tm = tm]
      p len by (simp only:) blast
  obtain out' fail m1' buf' m' where run:
     "direct_virt_to_phys_iter capm mut_slice_ops tm pm (vd_phys_mem self) (xst_new arch dtb) [(a, ?s)] [] [] =
        Some (out', fail, m1')"
     "vd_read_raw_list (direct_ops capm caps capr capo tm pm) pm self [(a, buf)] =
       Some (if fail = [] then Inr () else Inl (PartialVirtualRead ()), [buf'], self\<lparr>vd_phys_mem := m'\<rparr>)"
    "mem_ok m'" "content m' = ?C" "length buf' = length buf"
    "\<forall>j < length buf. virt_holds arch ?C dtb (a + of_nat j) (buf' ! j) \<or> fail \<noteq> [] \<and> buf' ! j = 0"
    using dma_read_run [OF mem m arch tr conjunct1 [OF r [unfolded readable_range_def]]] by blast
  have "fail = []"
    using run(1) t by (simp add: direct_virt_to_phys_iter_def scoped_virt_to_phys_iter_def xst_new_def)
  with run(2-) readable_holds [OF r] show ?thesis by (intro exI [of _ buf'] exI [of _ m']) simp
qed

end
