(* ===== verification/Win32_Kernel.thy ===== *)
theory Win32_Kernel
  imports Win32_Process Page_Reads
begin

text \<open>
  A Windows kernel (\<open>win32/kernel.rs\<close>): it owns a physical memory and a translator, walks the
  list of processes, and collects what is known of a process from its kernel structures. The
  constructors of processes from a kernel (\<open>win32/process.rs\<close>) are here too. \<open>vm\<close> is the
  virtual memory of a kernel, \<open>dm\<close> the one with the stateless \<open>DirectTranslate\<close>.
\<close>

section \<open>State\<close>

record ('m, 'w) kernel =
  k_phys_mem :: 'm
  k_vat :: 'w
  k_offsets :: win32_offsets
  k_kernel_info :: kernel_info
  k_sysproc_dtb :: address

definition kernel_arch :: "('m, 'w) kernel \<Rightarrow> x86_architecture" where
  "kernel_arch k = sb_arch (ki_start_block (k_kernel_info k))"

definition kernel_new ::
  "('m, 'w) win32_dma virt_mem \<Rightarrow> u8 list \<Rightarrow> 'm \<Rightarrow> 'w \<Rightarrow> win32_offsets \<Rightarrow> kernel_info
     \<Rightarrow> ('m, 'w) kernel option" where
  "kernel_new vm u phys_mem vat offsets kernel_info =
     (let sb = ki_start_block kernel_info;
          reader = vd_with_vat phys_mem (sb_arch sb) (wt_new (sb_arch sb) (sb_dtb sb)) vat
      in map_option (\<lambda>(r, reader).
           \<lparr>k_phys_mem = vd_phys_mem reader, k_vat = vd_vat reader, k_offsets = offsets,
            k_kernel_info = kernel_info,
            k_sysproc_dtb = (case r of Inr dtb \<Rightarrow> dtb | Inl _ \<Rightarrow> sb_dtb sb)\<rparr>)
         (virt_read_addr_arch vm reader u (sb_arch sb)
            (address_add (ki_eprocess_base kernel_info) (kproc_dtb offsets))))"

definition kernel_destroy :: "('m, 'w) kernel \<Rightarrow> 'm" where "kernel_destroy k = k_phys_mem k"

text \<open>A \<open>VirtualDMA\<close> that borrows the memory and the translator of the kernel.\<close>

definition borrow_kernel :: "('m, 'w) kernel \<Rightarrow> x86_architecture \<Rightarrow> win32_virtual_translate \<Rightarrow> ('m, 'w) win32_dma" where
  "borrow_kernel k proc_arch t = vd_with_vat (k_phys_mem k) proc_arch t (k_vat k)"

definition give_back :: "('m, 'w) win32_dma \<Rightarrow> ('m, 'w) kernel \<Rightarrow> ('m, 'w) kernel" where
  "give_back v k = k\<lparr>k_phys_mem := vd_phys_mem v, k_vat := vd_vat v\<rparr>"

definition kernel_reader :: "('m, 'w) kernel \<Rightarrow> ('m, 'w) win32_dma" where
  "kernel_reader k = borrow_kernel k (kernel_arch k) (wt_new (kernel_arch k) (k_sysproc_dtb k))"

definition with_reader :: "(('m, 'w) win32_dma, 'p, 'a) w32_step \<Rightarrow> (('m, 'w) kernel, 'p, 'a) w32_step" where
  "with_reader step k = map_option (\<lambda>(r, v). (r, give_back v k)) (step (kernel_reader k))"

section \<open>The list of processes\<close>

text \<open>What was found so far stays in \<open>eprocs\<close> when a read fails.\<close>

fun eprocess_loop ::
  "'v virt_mem \<Rightarrow> u8 list \<Rightarrow> x86_architecture \<Rightarrow> win32_offsets \<Rightarrow> address \<Rightarrow> nat \<Rightarrow> address \<Rightarrow> address list
     \<Rightarrow> 'v \<Rightarrow> (('p, unit) w32_result \<times> address list \<times> 'v) option" where
  "eprocess_loop vm u arch offs list_start 0 list_entry eprocs s = Some (Inr (), eprocs, s)"
| "eprocess_loop vm u arch offs list_start (Suc n) list_entry eprocs s =
     (let eprocess = address_sub list_entry (eproc_link offs) in
      (case read_addr vm u arch list_entry s of
         None \<Rightarrow> None
       | Some (Inl e, s) \<Rightarrow> Some (Inl e, eprocs, s)
       | Some (Inr flink_entry, s) \<Rightarrow>
      (case read_addr vm u arch (address_add list_entry (list_blink offs)) s of
         None \<Rightarrow> None
       | Some (Inl e, s) \<Rightarrow> Some (Inl e, eprocs, s)
       | Some (Inr blink_entry, s) \<Rightarrow>
           if is_null flink_entry \<or> is_null blink_entry \<or> flink_entry = list_start \<or> flink_entry = list_entry
           then Some (Inr (), eprocs, s)
           else eprocess_loop vm u arch offs list_start n flink_entry (eprocs @ [eprocess]) s)))"

definition eprocess_list_extend ::
  "('m, 'w) win32_dma virt_mem \<Rightarrow> u8 list \<Rightarrow> address list \<Rightarrow> ('m, 'w) kernel
     \<Rightarrow> (('p, unit) w32_result \<times> address list \<times> ('m, 'w) kernel) option" where
  "eprocess_list_extend vm u eprocs k =
     (let list_start = address_add (ki_eprocess_base (k_kernel_info k)) (eproc_link (k_offsets k))
      in map_option (\<lambda>(r, eprocs, v). (r, eprocs, give_back v k))
           (eprocess_loop vm u (kernel_arch k) (k_offsets k) list_start MAX_ITER_COUNT list_start eprocs
              (kernel_reader k)))"

definition eprocess_list ::
  "('m, 'w) win32_dma virt_mem \<Rightarrow> u8 list \<Rightarrow> (('m, 'w) kernel, 'p, address list) w32_step" where
  "eprocess_list vm u k = map_option (\<lambda>(r, eprocs, k).
     (case r of Inl e \<Rightarrow> Inl e | Inr _ \<Rightarrow> Inr eprocs, k)) (eprocess_list_extend vm u [] k)"

section \<open>The kernel process\<close>

definition kernel_process_info ::
  "('p, 'o) pelite \<Rightarrow> ('m, 'w) win32_dma virt_mem \<Rightarrow> u8 list \<Rightarrow> (('m, 'w) kernel, 'p, win32_process_info) w32_step" where
  "kernel_process_info pe vm u k =
     (let info = k_kernel_info k; arch = kernel_arch k; dtb = k_sysproc_dtb k in
      with_reader (
        and_then (w32_partial (\<lambda>s. virt_read_raw vm s (ki_kernel_base info) (ki_kernel_size info))) (\<lambda>image.
        and_then (pe_view pe image) (\<lambda>view.
        and_then (case pe_export_by_name pe view ''PsLoadedModuleList'' of
                    Inl e \<Rightarrow> fail_with (W32PE e)
                  | Inr (Symbol s) \<Rightarrow> done_with (address_add (ki_kernel_base info) (ucast s))
                  | Inr Forward \<Rightarrow>
                      fail_with (W32Other ''PsLoadedModuleList found but it was a forwarded export''))
          (\<lambda>loaded_module_list.
        and_then (read_addr vm u arch loaded_module_list) (\<lambda>kernel_modules.
        and_then (may_panic (ml_with_base kernel_modules arch)) (\<lambda>r.
        and_then (w32_try r) (\<lambda>module_info_native.
          done_with \<lparr>pi_address = ki_kernel_base info, pi_pid = 0, pi_name = utf8_of ''ntoskrnl.exe'',
            pi_dtb = dtb, pi_section_base = ADDRESS_NULL, pi_exit_status = EXIT_STATUS_STILL_ACTIVE,
            pi_ethread = ADDRESS_NULL, pi_wow64 = ADDRESS_NULL, pi_teb = None, pi_teb_wow64 = None,
            pi_peb_native = ADDRESS_NULL, pi_peb_wow64 = None, pi_module_info_native = module_info_native,
            pi_module_info_wow64 = None, pi_sys_arch = arch, pi_proc_arch = arch\<rparr>))))))) k)"

section \<open>A process from its kernel structure\<close>

text \<open>\<open>wow64\<close>: the offset is zero where the kernel has no such field.\<close>

definition read_wow64 ::
  "'v virt_mem \<Rightarrow> u8 list \<Rightarrow> x86_architecture \<Rightarrow> win32_offsets \<Rightarrow> address \<Rightarrow> ('v, 'p, address) w32_step" where
  "read_wow64 vm u arch offs eprocess =
     (if eproc_wow64 offs = 0 then done_with address_null
      else read_addr vm u arch (address_add eprocess (eproc_wow64 offs)))"

definition process_arch :: "x86_architecture \<Rightarrow> address \<Rightarrow> ('p, x86_architecture) w32_result" where
  "process_arch sys_arch wow64 =
     (if arch_bits sys_arch = 64 then Inr (if is_null wow64 then x64_spec else x32_spec)
      else if arch_bits sys_arch = 32 then Inr x32_spec
      else Inl W32InvalidArchitecture)"

text \<open>The thread blocks; \<open>winver >= (6, 2)\<close>.\<close>

definition read_teb ::
  "'v virt_mem \<Rightarrow> u8 list \<Rightarrow> x86_architecture \<Rightarrow> win32_offsets \<Rightarrow> win32_version \<Rightarrow> address \<Rightarrow> address
     \<Rightarrow> ('v, 'p, address option \<times> address option) w32_step" where
  "read_teb vm u arch offs winver ethread wow64 =
     (if wv_partial_cmp winver (wv_from_pair (6, 2)) \<in> {Some Greater, Some Equal}
      then and_then (read_addr vm u arch (address_add ethread (kthread_teb offs))) (\<lambda>teb.
        if \<not> is_null teb
        then done_with (Some teb, if is_null wow64 then None else Some (address_add teb 0x2000))
        else done_with (None, None))
      else done_with (None, None))"

text \<open>
  The two halves of \<open>process_info_from_eprocess\<close>: with the tables of the kernel and with those
  of the process. The second fills in what the first leaves open: the lists of modules and
  the second environment block.
\<close>

definition read_eprocess ::
  "'v virt_mem \<Rightarrow> u8 list \<Rightarrow> x86_architecture \<Rightarrow> win32_offsets \<Rightarrow> win32_version \<Rightarrow> address
     \<Rightarrow> ('v, 'p, win32_process_info) w32_step" where
  "read_eprocess vm u sys_arch offs winver eprocess =
     and_then (w32_partial (read_u32 vm u (address_add eprocess (eproc_pid offs)))) (\<lambda>pid.
     and_then (w32_partial (\<lambda>s. virt_read_cstr vm s (address_add eprocess (eproc_name offs)) IMAGE_FILE_NAME_LENGTH))
       (\<lambda>name.
     and_then (read_addr vm u sys_arch (address_add eprocess (kproc_dtb offs))) (\<lambda>dtb.
     and_then (read_wow64 vm u sys_arch offs eprocess) (\<lambda>wow64.
     and_then (w32_try (process_arch sys_arch wow64)) (\<lambda>proc_arch.
     and_then (read_addr vm u sys_arch (address_add eprocess (eproc_peb offs))) (\<lambda>native_peb.
     and_then (read_addr vm u sys_arch (address_add eprocess (eproc_section_base offs))) (\<lambda>section_base.
     and_then (w32_partial (read_u32 vm u (address_add eprocess (eproc_exit_status offs)))) (\<lambda>exit_status.
     and_then (read_addr vm u sys_arch (address_add eprocess (eproc_thread_list offs))) (\<lambda>thread_list.
     let ethread = address_sub thread_list (ethread_list_entry offs) in
     and_then (read_addr vm u sys_arch (address_add eprocess (eproc_peb offs))) (\<lambda>peb.
     and_then (case non_null peb of
                 None \<Rightarrow> fail_with (W32Other ''Could not retrieve peb_native'')
               | Some peb \<Rightarrow> done_with peb) (\<lambda>peb_native.
     and_then (read_teb vm u sys_arch offs winver ethread wow64) (\<lambda>(teb, teb_wow64).
       done_with \<lparr>pi_address = eprocess, pi_pid = pid, pi_name = name, pi_dtb = dtb,
         pi_section_base = section_base, pi_exit_status = exit_status, pi_ethread = ethread, pi_wow64 = wow64,
         pi_teb = teb, pi_teb_wow64 = teb_wow64, pi_peb_native = peb_native, pi_peb_wow64 = None,
         pi_module_info_native = \<lparr>ml_module_base = 0, ml_ldr_data_base_offs = 0, ml_ldr_data_size_offs = 0,
           ml_ldr_data_name_offs = 0\<rparr>,
         pi_module_info_wow64 = None, pi_sys_arch = sys_arch, pi_proc_arch = proc_arch\<rparr>))))))))))))"

definition read_process ::
  "'v virt_mem \<Rightarrow> u8 list \<Rightarrow> win32_offsets \<Rightarrow> win32_process_info \<Rightarrow> ('v, 'p, win32_process_info) w32_step" where
  "read_process vm u offs p =
     and_then (case pi_teb_wow64 p of
                 Some teb \<Rightarrow> and_then (read_addr vm u (pi_sys_arch p) (address_add teb (teb_peb_x86 offs)))
                   (\<lambda>peb. done_with (non_null peb))
               | None \<Rightarrow> done_with None) (\<lambda>peb_wow64.
     and_then (ml_with_peb vm u (pi_peb_native p) (pi_sys_arch p)) (\<lambda>module_info_native.
     and_then (case peb_wow64 of
                 Some peb \<Rightarrow> and_then (ml_with_peb vm u peb (pi_proc_arch p)) (\<lambda>info. done_with (Some info))
               | None \<Rightarrow> done_with None) (\<lambda>module_info_wow64.
       done_with (p\<lparr>pi_peb_wow64 := peb_wow64, pi_module_info_native := module_info_native,
         pi_module_info_wow64 := module_info_wow64\<rparr>))))"

text \<open>The second half borrows the physical memory alone.\<close>

definition with_process_reader ::
  "x86_architecture \<Rightarrow> win32_virtual_translate \<Rightarrow> (('m, unit) win32_dma, 'p, 'a) w32_step
     \<Rightarrow> (('m, 'w) kernel, 'p, 'a) w32_step" where
  "with_process_reader proc_arch t step k =
     map_option (\<lambda>(r, m). (r, k\<lparr>k_phys_mem := m\<rparr>)) (borrow_mem proc_arch t step (k_phys_mem k))"

definition process_info_from_eprocess ::
  "('m, 'w) win32_dma virt_mem \<Rightarrow> ('m, unit) win32_dma virt_mem \<Rightarrow> u8 list \<Rightarrow> address
     \<Rightarrow> (('m, 'w) kernel, 'p, win32_process_info) w32_step" where
  "process_info_from_eprocess vm dm u eprocess k =
     and_then (with_reader (read_eprocess vm u (kernel_arch k) (k_offsets k)
         (ki_kernel_winver (k_kernel_info k)) eprocess)) (\<lambda>p.
       with_process_reader (pi_proc_arch p) (wt_new (kernel_arch k) (pi_dtb p))
         (read_process dm u (k_offsets k) p)) k"

section \<open>Lists of processes\<close>

text \<open>A process whose structure cannot be read is left out.\<close>

fun process_infos ::
  "('m, 'w) win32_dma virt_mem \<Rightarrow> ('m, unit) win32_dma virt_mem \<Rightarrow> u8 list \<Rightarrow> address list
     \<Rightarrow> win32_process_info list \<Rightarrow> ('m, 'w) kernel \<Rightarrow> (win32_process_info list \<times> ('m, 'w) kernel) option" where
  "process_infos vm dm u [] list k = Some (list, k)"
| "process_infos vm dm u (eprocess # es) list k =
     (case process_info_from_eprocess vm dm u eprocess k of
        None \<Rightarrow> None
      | Some (r, k) \<Rightarrow>
          process_infos vm dm u es
            (case (r :: (unit, win32_process_info) w32_result) of Inr prc \<Rightarrow> list @ [prc] | Inl _ \<Rightarrow> list) k)"

definition process_info_list_extend ::
  "('m, 'w) win32_dma virt_mem \<Rightarrow> ('m, unit) win32_dma virt_mem \<Rightarrow> u8 list \<Rightarrow> win32_process_info list
     \<Rightarrow> ('m, 'w) kernel \<Rightarrow> (('p, unit) w32_result \<times> win32_process_info list \<times> ('m, 'w) kernel) option" where
  "process_info_list_extend vm dm u list k =
     (case eprocess_list_extend vm u [] k of
        None \<Rightarrow> None
      | Some (Inl e, _, k) \<Rightarrow> Some (Inl e, list, k)
      | Some (Inr _, eprocs, k) \<Rightarrow>
          map_option (\<lambda>(list, k). (Inr (), list, k)) (process_infos vm dm u eprocs list k))"

definition process_info_list ::
  "('m, 'w) win32_dma virt_mem \<Rightarrow> ('m, unit) win32_dma virt_mem \<Rightarrow> u8 list
     \<Rightarrow> (('m, 'w) kernel, 'p, win32_process_info list) w32_step" where
  "process_info_list vm dm u k = map_option (\<lambda>(r, list, k).
     (case r of Inl e \<Rightarrow> Inl e | Inr _ \<Rightarrow> Inr list, k)) (process_info_list_extend vm dm u [] k)"

section \<open>Processes from a kernel\<close>

definition with_kernel :: "('m, 'w) kernel \<Rightarrow> win32_process_info \<Rightarrow> ('m, 'w) win32_dma win32_process" where
  "with_kernel k proc_info =
     \<lparr>wpr_virt_mem = vd_with_vat (k_phys_mem k) (pi_proc_arch proc_info) (wp_translator proc_info) (k_vat k),
      wpr_proc_info = proc_info\<rparr>"

definition wpr_destroy :: "('m, 'w) win32_dma win32_process \<Rightarrow> 'm" where
  "wpr_destroy p = vd_destroy (wpr_virt_mem p)"

definition with_kernel_ref :: "('m, 'w) kernel \<Rightarrow> win32_process_info \<Rightarrow> ('m, 'w) win32_dma win32_process" where
  "with_kernel_ref k proc_info =
     \<lparr>wpr_virt_mem = borrow_kernel k (pi_proc_arch proc_info) (wp_translator proc_info),
      wpr_proc_info = proc_info\<rparr>"

text \<open>A step of a process that borrows the kernel, which gets its memory back afterwards.\<close>

definition with_process ::
  "win32_process_info \<Rightarrow> (('m, 'w) win32_dma win32_process, 'p, 'a) w32_step \<Rightarrow> (('m, 'w) kernel, 'p, 'a) w32_step" where
  "with_process proc_info step k =
     map_option (\<lambda>(r, p). (r, give_back (wpr_virt_mem p) k)) (step (with_kernel_ref k proc_info))"

section \<open>Finding a process\<close>

text \<open>\<open>s[..n]\<close> of a string panics when \<open>n\<close> is not at the border of a character.\<close>

definition str_prefix :: "u8 list \<Rightarrow> nat \<Rightarrow> u8 list option" where
  "str_prefix s n =
     (if n = 0 \<or> n = length s \<or> (n < length s \<and> \<not> utf8_cont (s ! n)) then Some (take n s) else None)"

text \<open>
  The processes whose name is the wanted one, cut to the length of the field in the kernel
  structure. \<open>lower\<close> is \<open>str::to_lowercase\<close>, whose table of letters is a parameter.
\<close>

fun name_candidates ::
  "(u8 list \<Rightarrow> u8 list) \<Rightarrow> u8 list \<Rightarrow> win32_process_info list \<Rightarrow> win32_process_info list option" where
  "name_candidates lower name [] = Some []"
| "name_candidates lower name (p # ps) =
     (case str_prefix name (min (length name) (unat (IMAGE_FILE_NAME_LENGTH - 1))) of
        None \<Rightarrow> None
      | Some short \<Rightarrow>
          map_option (\<lambda>cs. if lower (wp_name p) = lower short then p # cs else cs)
            (name_candidates lower name ps))"

text \<open>The first candidate that has a module of the wanted name.\<close>

fun inspect_candidates ::
  "(u8 list \<Rightarrow> u8 list) \<Rightarrow> 's widestring \<Rightarrow> ('m, 'w) win32_dma virt_mem \<Rightarrow> u8 list \<Rightarrow> u8 list
     \<Rightarrow> win32_process_info list \<Rightarrow> (('m, 'w) kernel, 'p, win32_process_info) w32_step" where
  "inspect_candidates lower ws vm u name [] = fail_with W32ProcessInfo"
| "inspect_candidates lower ws vm u name (c # cs) =
     and_then (with_process c (module_list ws vm u)) (\<lambda>ms.
       if find (\<lambda>m. lower (module_get_name m) = lower name) ms \<noteq> None then done_with c
       else inspect_candidates lower ws vm u name cs)"

definition process_info ::
  "(u8 list \<Rightarrow> u8 list) \<Rightarrow> 's widestring \<Rightarrow> ('m, 'w) win32_dma virt_mem \<Rightarrow> ('m, unit) win32_dma virt_mem
     \<Rightarrow> u8 list \<Rightarrow> u8 list \<Rightarrow> (('m, 'w) kernel, 'p, win32_process_info) w32_step" where
  "process_info lower ws vm dm u name =
     and_then (process_info_list vm dm u) (\<lambda>ps.
     and_then (may_panic (name_candidates lower name ps)) (\<lambda>candidates.
       inspect_candidates lower ws vm u name candidates))"

definition process_info_pid ::
  "('p, 'o) pelite \<Rightarrow> ('m, 'w) win32_dma virt_mem \<Rightarrow> ('m, unit) win32_dma virt_mem \<Rightarrow> u8 list \<Rightarrow> u32
     \<Rightarrow> (('m, 'w) kernel, 'p, win32_process_info) w32_step" where
  "process_info_pid pe vm dm u pid =
     (if 0 < pid
      then and_then (process_info_list vm dm u) (\<lambda>ps.
        (case find (\<lambda>p. pi_pid p = pid) ps of
           Some p \<Rightarrow> done_with p
         | None \<Rightarrow> fail_with (W32Other ''pid not found'')))
      else kernel_process_info pe vm u)"

text \<open>
  The processes that borrow the kernel are given with the kernel they borrow; the ones that
  consume it own its memory and translator.
\<close>

definition open_process ::
  "(('m, 'w) kernel, 'p, win32_process_info) w32_step
     \<Rightarrow> (('m, 'w) kernel, 'p, ('m, 'w) win32_dma win32_process) w32_step" where
  "open_process find_info k = map_option (\<lambda>(r, k).
     (case r of Inl e \<Rightarrow> Inl e | Inr proc_info \<Rightarrow> Inr (with_kernel_ref k proc_info), k)) (find_info k)"

definition into_open_process ::
  "(('m, 'w) kernel, 'p, win32_process_info) w32_step \<Rightarrow> ('m, 'w) kernel
     \<Rightarrow> ('p, ('m, 'w) win32_dma win32_process) w32_result option" where
  "into_open_process find_info k = map_option (\<lambda>(r, k).
     (case r of Inl e \<Rightarrow> Inl e | Inr proc_info \<Rightarrow> Inr (with_kernel k proc_info))) (find_info k)"

definition kernel_process where "kernel_process pe vm u = open_process (kernel_process_info pe vm u)"
definition kernel_open where "kernel_open lower ws vm dm u name = open_process (process_info lower ws vm dm u name)"
definition process_pid where "process_pid pe vm dm u pid = open_process (process_info_pid pe vm dm u pid)"

definition into_kernel_process where
  "into_kernel_process pe vm u = into_open_process (kernel_process_info pe vm u)"

definition into_process where
  "into_process lower ws vm dm u name = into_open_process (process_info lower ws vm dm u name)"

definition into_process_pid where
  "into_process_pid pe vm dm u pid = into_open_process (process_info_pid pe vm dm u pid)"

section \<open>Old kernels\<close>

text \<open>
  On a kernel before version 6.2 the thread block is not read, so a WoW64 process has no list
  of its 32 bit modules, and \<open>Win32ProcessInfo::module_info\<close>, which unwraps it, panics.
\<close>

lemma old_kernel_wow64_module_info:
  assumes "process_info_from_eprocess vm dm u eprocess k = Some (Inr p :: ('p, _) w32_result, k')"
    and "wv_cmp (ki_kernel_winver (k_kernel_info k)) (wv_from_pair (6, 2)) = Less"
  shows "pi_module_info_wow64 p = None \<and> (pi_wow64 p \<noteq> 0 \<longrightarrow> wp_module_info p = None)"
proof -
  obtain q k1 where q: "with_reader (read_eprocess vm u (kernel_arch k) (k_offsets k)
      (ki_kernel_winver (k_kernel_info k)) eprocess) k = Some (Inr q :: ('p, _) w32_result, k1)"
    and p: "with_process_reader (pi_proc_arch q) (wt_new (kernel_arch k) (pi_dtb q))
      (read_process dm u (k_offsets k) q) k1 = Some (Inr p :: ('p, _) w32_result, k')"
    using assms(1) by (auto simp: process_info_from_eprocess_def and_then_Inr_iff)
  have "pi_teb_wow64 q = None"
    using q assms(2)
    by (auto simp: with_reader_def read_eprocess_def Let_def and_then_Inr_iff read_teb_def wv_partial_cmp_def
        done_with_def)
  then have "pi_module_info_wow64 p = None"
    using p by (auto simp: with_process_reader_def borrow_mem_def read_process_def and_then_Inr_iff done_with_def)
  then show ?thesis by (simp add: wp_module_info_def is_null_def)
qed

end
