(* ===== verification/Win32_Lists.thy ===== *)
theory Win32_Lists
  imports Win32_Kernel Memory_Maps
begin

text \<open>
  What the walks over the linked lists of a Windows kernel find. A locale states what the
  walks need of a virtual memory: a pointer that is mapped is read exactly, and reading
  changes no pointer. It is interpreted on the virtual memory of a kernel over any readable
  physical memory, whose pointers are the bytes the page tables lead to.
\<close>

section \<open>Pointers in memory\<close>

text \<open>A link that ends a list of modules.\<close>

definition chain_end :: "address \<Rightarrow> address \<Rightarrow> bool" where
  "chain_end base p \<longleftrightarrow> p = 0 \<or> p AND 7 \<noteq> 0 \<or> p = base"

locale pointer_memory =
  fixes vm :: "'v virt_mem" and u :: "u8 list" and arch :: x86_architecture
    and inv :: "'v \<Rightarrow> bool" and view :: "'v \<Rightarrow> 'c" and ptr :: "'c \<Rightarrow> address \<Rightarrow> address option"
  assumes read_ptr: "inv s \<Longrightarrow> ptr (view s) a = Some p \<Longrightarrow>
    \<exists>s'. virt_read_addr_arch vm s u arch a = Some (Inr p, s') \<and> inv s' \<and> view s' = view s"
begin

lemma read_addr_ptr:
  assumes "inv s" "ptr (view s) a = Some p"
  obtains s' where "read_addr vm u arch a s = Some (Inr p, s')" "inv s'" "view s' = view s"
  using read_ptr [OF assms] by (auto simp: read_addr_def w32_partial_def)

text \<open>
  The list of processes is a ring \<open>ls\<close> of list entries: it starts at an entry and its last
  entry is the head of the list, which is in no process. The walk collects the processes
  before the head, in the order of the ring.
\<close>

lemma eprocess_loop_ring:
  assumes links: "\<forall>i < length ls. ptr (view s) (ls ! i) = Some (ls ! (Suc i mod length ls))"
    and blinks: "\<forall>l \<in> set ls. \<exists>b. ptr (view s) (address_add l (list_blink offs)) = Some b \<and> b \<noteq> 0"
    and ring: "distinct ls" "0 \<notin> set ls"
  shows "k < length ls \<Longrightarrow> length ls - k \<le> n \<Longrightarrow> inv s' \<Longrightarrow> view s' = view s \<Longrightarrow>
    \<exists>s''. eprocess_loop vm u arch offs (ls ! 0) n (ls ! k) eprocs s' =
        Some (Inr () :: ('p, unit) w32_result, eprocs @ map (\<lambda>l. address_sub l (eproc_link offs)) (drop k (butlast ls)), s'') \<and>
      inv s'' \<and> view s'' = view s"
proof (induction n arbitrary: k eprocs s')
  case (Suc n)
  let ?l = "ls ! k" and ?next = "ls ! (Suc k mod length ls)"
  have "ptr (view s') ?l = Some ?next" using links Suc.prems(1,4) by simp
  then obtain s1 where s1: "read_addr vm u arch ?l s' = Some (Inr ?next :: ('p, address) w32_result, s1)"
      "inv s1" "view s1 = view s'"
    by (rule read_addr_ptr [OF Suc.prems(3)])
  obtain b where b: "ptr (view s1) (address_add ?l (list_blink offs)) = Some b" "b \<noteq> 0"
    using blinks Suc.prems(1,4) s1(3) by (metis nth_mem)
  obtain s2 where s2: "read_addr vm u arch (address_add ?l (list_blink offs)) s1 =
      Some (Inr b :: ('p, address) w32_result, s2)" "inv s2" "view s2 = view s1"
    by (rule read_addr_ptr [OF s1(2) b(1)])
  show ?case
  proof (cases "Suc k = length ls")
    case True
    then have "?next = ls ! 0" "drop k (butlast ls) = []" by simp_all
    then show ?thesis
      using s1 s2 Suc.prems(4) by (auto simp: Let_def)
  next
    case False
    then have k: "Suc k < length ls" using Suc.prems(1) by simp
    then have "?next = ls ! Suc k" by simp
    moreover have "ls ! Suc k \<noteq> ls ! 0" "ls ! Suc k \<noteq> ls ! k"
      using k nth_eq_iff_index_eq [OF ring(1), of "Suc k"] by (auto intro: le_less_trans)
    moreover have "ls ! Suc k \<noteq> 0" using ring(2) nth_mem [OF k] by metis
    ultimately have step: "eprocess_loop vm u arch offs (ls ! 0) (Suc n) ?l eprocs s' =
        (eprocess_loop vm u arch offs (ls ! 0) n (ls ! Suc k)
          (eprocs @ [address_sub ?l (eproc_link offs)]) s2 :: (('p, unit) w32_result \<times> _) option)"
      using s1(1) s2(1) b(2) by (simp add: Let_def is_null_def)
    have "drop k (butlast ls) = ls ! k # drop (Suc k) (butlast ls)"
      using k by (simp add: Cons_nth_drop_Suc [symmetric] nth_butlast)
    then show ?thesis
      using Suc.IH [OF k _ s2(2), of "eprocs @ [address_sub ?l (eproc_link offs)]"] Suc.prems(2,4) s1(3) s2(3)
      unfolding step by simp
  qed
qed simp

text \<open>
  A list of modules is a chain of entries whose last link ends it. The walk collects the
  entries, as many of them as it may visit.
\<close>

lemma module_entry_loop_chain:
  assumes links: "\<forall>i. Suc i < length ms \<longrightarrow> ptr (view s) (ms ! i) = Some (ms ! Suc i) \<and> \<not> chain_end base (ms ! Suc i)"
    and last: "ptr (view s) (last ms) = Some e" "chain_end base e"
  shows "k < length ms \<Longrightarrow> inv s' \<Longrightarrow> view s' = view s \<Longrightarrow>
    \<exists>s''. module_entry_loop vm u arch base n (ms ! k) list s' =
        Some (Inr (list @ take n (drop k ms)) :: ('p, address list) w32_result, s'') \<and> inv s'' \<and> view s'' = view s"
proof (induction n arbitrary: k list s')
  case 0
  then show ?case by (simp add: done_with_def)
next
  case (Suc n)
  define next' where "next' = (if Suc k < length ms then ms ! Suc k else e)"
  have drop: "drop k ms = ms ! k # drop (Suc k) ms" using Suc.prems(1) by (simp add: Cons_nth_drop_Suc)
  have "ptr (view s') (ms ! k) = Some next'"
  proof (cases "Suc k < length ms")
    case False
    then have "k = length ms - 1" "ms \<noteq> []" using Suc.prems(1) by auto
    then have "ms ! k = last ms" by (simp add: last_conv_nth)
    then show ?thesis using last(1) False Suc.prems(3) by (simp add: next'_def)
  qed (use links Suc.prems(3) in \<open>simp add: next'_def\<close>)
  then obtain s1 where s1: "read_addr vm u arch (ms ! k) s' = Some (Inr next' :: ('p, address) w32_result, s1)"
      "inv s1" "view s1 = view s'"
    by (rule read_addr_ptr [OF Suc.prems(2)])
  have step: "module_entry_loop vm u arch base (Suc n) (ms ! k) list s' =
      ((if chain_end base next' then done_with (list @ [ms ! k])
        else module_entry_loop vm u arch base n next' (list @ [ms ! k])) s1 :: (('p, _) w32_result \<times> _) option)"
    by (simp add: Let_def and_then_def s1(1) chain_end_def is_null_def as_u64_def)
  show ?case
  proof (cases "Suc k < length ms")
    case True
    then have "next' = ms ! Suc k" "\<not> chain_end base next'" using links by (simp_all add: next'_def)
    then show ?thesis
      using Suc.IH [OF True s1(2), of "list @ [ms ! k]"] Suc.prems(3) s1(3) unfolding step drop by simp
  next
    case False
    then show ?thesis
      using last(2) s1(2,3) Suc.prems(3) unfolding step drop by (simp add: next'_def done_with_def)
  qed
qed

end

section \<open>The pointers of a kernel\<close>

text \<open>
  A pointer of the size of the architecture \<open>parch\<close> in virtual memory, whose page tables are
  those of \<open>arch\<close>: its bytes are mapped and lie in one page. The two differ for a 32 bit
  process on a 64 bit system.
\<close>

definition pointer_size :: "x86_architecture \<Rightarrow> nat" where
  "pointer_size parch = (if arch_bits parch = 64 then 8 else 4)"

definition virt_ptr ::
  "x86_architecture \<Rightarrow> x86_architecture \<Rightarrow> (u64 \<Rightarrow> u8 option) \<Rightarrow> address \<Rightarrow> address \<Rightarrow> address option" where
  "virt_ptr parch arch content dtb a =
     (if exact_range arch content dtb a (pointer_size parch)
      then map_option (\<lambda>bs. if arch_bits parch = 64 then address_from_u64 (from_le_bytes bs)
          else address_from_u32 (from_le_bytes bs))
        (those (map (\<lambda>j. virt_byte arch content dtb (a + of_nat j)) [0..<pointer_size parch]))
      else None)"

lemma wt_translator_x86:
  assumes "arch \<in> x86_archs"
  shows "wt_translator (wt_new arch dtb) = Some (xst_new arch dtb)"
proof -
  have "x32_spec \<noteq> x64_spec" "x32_pae_spec \<noteq> x64_spec" "x32_pae_spec \<noteq> x32_spec"
    by (simp_all add: x64_spec_def x32_spec_def x32_pae_spec_def)
  then show ?thesis
    using assms by (auto simp: x86_archs_def wt_translator_def wt_new_def arch_obj_def new_translator_def
        underlying_arch_def)
qed

lemma wt_read_list:
  assumes "wt_translator (vd_translator self) = Some x"
  shows "vd_read_raw_list (wt_ops ops) pm self data =
    map_option (\<lambda>(r, st, v). (r, st, self\<lparr>vd_vat := vd_vat v, vd_phys_mem := vd_phys_mem v\<rparr>))
      (vd_read_raw_list ops pm (vd_with_vat (vd_phys_mem self) (vd_proc_arch self) x (vd_vat self)) data)"
  using assms
  by (simp add: vd_read_raw_list_def wt_ops_def wt_virt_to_phys_iter_def vd_with_vat_def Let_def
      split: Option.bind_splits prod.splits option.splits)

lemma those_bytes:
  assumes "length bs = n" "\<forall>j < n. f j = Some (bs ! j)"
  shows "those (map f [0..<n]) = Some bs"
proof -
  have "map f [0..<n] = map Some bs" using assms by (auto intro: nth_equalityI)
  moreover have "those (map Some bs) = Some bs" by (induction bs) simp_all
  ultimately show ?thesis by simp
qed

lemma dma_pointer_memory:
  assumes mem: "matching_memory pm mem_ok content" and arch: "arch \<in> x86_archs"
    and parch: "parch \<in> x86_archs" and u: "8 \<le> length u"
  shows "pointer_memory (virtual_dma_mem (wt_ops (direct_ops capm caps capr capo tm pm)) pm cot cop) u parch
    (\<lambda>v. mem_ok (vd_phys_mem v) \<and> vd_translator v = wt_new arch dtb)
    (\<lambda>v. content (vd_phys_mem v)) (\<lambda>c. virt_ptr parch arch c dtb)"
proof
  fix s :: "('a, unit) win32_dma" and a p
  let ?C = "content (vd_phys_mem s)" and ?n = "pointer_size parch"
  let ?vm = "virtual_dma_mem (wt_ops (direct_ops capm caps capr capo tm pm)) pm cot cop"
  let ?ops = "direct_ops capm caps capr capo tm pm"
  let ?x = "vd_with_vat (vd_phys_mem s) (vd_proc_arch s) (xst_new arch dtb) (vd_vat s)"
  assume s: "mem_ok (vd_phys_mem s) \<and> vd_translator s = wt_new arch dtb"
    and p: "virt_ptr parch arch ?C dtb a = Some p"
  have ran: "exact_range arch ?C dtb a ?n" using p by (simp add: virt_ptr_def split: if_splits)
  have len: "length (take ?n u) = ?n" using u by (simp add: pointer_size_def)
  obtain buf m' where read: "vd_read_raw_list ?ops pm ?x [(a, take ?n u)] = Some (Inr (), [buf], ?x\<lparr>vd_phys_mem := m'\<rparr>)"
    "mem_ok m'" "content m' = ?C" "length buf = ?n" "\<forall>j < ?n. virt_byte arch ?C dtb (a + of_nat j) = Some (buf ! j)"
    using dma_read_exact [OF mem, of ?x arch dtb a "take ?n u" capm caps capr capo tm] s arch ran len
    by (auto simp: vd_with_vat_def)
  let ?s = "s\<lparr>vd_vat := (), vd_phys_mem := m'\<rparr>"
  have list: "vm_read_raw_list ?vm s [(a, take ?n u)] = Some (Inr (), [buf], ?s)"
    using wt_read_list [of s "xst_new arch dtb" ?ops pm "[(a, take ?n u)]"] s wt_translator_x86 [OF arch] read(1)
    by (simp add: virtual_dma_mem_def vd_with_vat_def)
  have val: "p = (if arch_bits parch = 64 then address_from_u64 (from_le_bytes buf) else address_from_u32 (from_le_bytes buf))"
    using p ran those_bytes [OF read(4,5)] by (simp add: virt_ptr_def)
  have bits: "arch_bits parch = 64 \<or> arch_bits parch = 32"
    using parch by (auto simp: x86_archs_def arch_bits_def x64_spec_def x32_spec_def x32_pae_spec_def)
  have "virt_read_addr_arch ?vm s u parch a = Some (Inr p, ?s)"
    using list bits unfolding val pointer_size_def
    by (auto simp: virt_read_addr_arch_def virt_read_addr64_def virt_read_addr32_def virt_read_def
        virt_read_into_def virt_read_raw_into_def)
  then show "\<exists>s'. virt_read_addr_arch ?vm s u parch a = Some (Inr p, s') \<and>
      (mem_ok (vd_phys_mem s') \<and> vd_translator s' = wt_new arch dtb) \<and>
      content (vd_phys_mem s') = ?C"
    using s read(2,3) by simp
qed

interpretation kernel_memory: pointer_memory
  "virtual_dma_mem (wt_ops (direct_ops capm caps capr capo tm reference_memory)) reference_memory cot cop"
  "[0, 0, 0, 0, 0, 0, 0, 0]" x64_spec
  "\<lambda>v. True \<and> vd_translator v = wt_new x64_spec dtb" vd_phys_mem "\<lambda>c. virt_ptr x64_spec x64_spec c dtb"
  for capm caps capr capo tm cot cop dtb
  by (rule dma_pointer_memory [OF reference.matching_memory_axioms x64_in_archs x64_in_archs]) simp

section \<open>Lists in the memory of a target\<close>

text \<open>
  A ring of process entries that starts at the given one and ends with the head of the list:
  each entry points to the next, the last to the first, and the entries have back links.
\<close>

definition process_ring ::
  "(address \<Rightarrow> address option) \<Rightarrow> win32_offsets \<Rightarrow> address \<Rightarrow> address list \<Rightarrow> bool" where
  "process_ring ptr offs start ls \<longleftrightarrow>
     ls \<noteq> [] \<and> ls ! 0 = start \<and> distinct ls \<and> 0 \<notin> set ls \<and>
     (\<forall>i < length ls. ptr (ls ! i) = Some (ls ! (Suc i mod length ls))) \<and>
     (\<forall>l \<in> set ls. \<exists>b. ptr (address_add l (list_blink offs)) = Some b \<and> b \<noteq> 0)"

text \<open>A chain of module entries from the first one to a link that ends it.\<close>

definition module_chain :: "(address \<Rightarrow> address option) \<Rightarrow> address \<Rightarrow> address list \<Rightarrow> bool" where
  "module_chain ptr base ms \<longleftrightarrow>
     ms \<noteq> [] \<and> ms ! 0 = base \<and>
     (\<forall>i. Suc i < length ms \<longrightarrow> ptr (ms ! i) = Some (ms ! Suc i) \<and> \<not> chain_end base (ms ! Suc i)) \<and>
     (\<exists>e. ptr (last ms) = Some e \<and> chain_end base e)"

text \<open>
  C11. The list of processes is complete and in order. Over any readable physical memory and
  any page tables of the three x86 modes, when the kernel's process list is a ring of at most
  65536 entries that starts at the first process, \<open>eprocess_list\<close> returns and lists exactly
  the processes of the ring in its order, without the head of the list, which is the entry
  that points back to the start. The memory keeps its content.
\<close>

theorem eprocess_list_is_ring:
  assumes "matching_memory pm mem_ok content" and "mem_ok (k_phys_mem k)"
    and "kernel_arch k \<in> x86_archs" and "8 \<le> length u" and "length ls \<le> 65536"
    and "process_ring (virt_ptr (kernel_arch k) (kernel_arch k) (content (k_phys_mem k)) (k_sysproc_dtb k))
      (k_offsets k) (address_add (ki_eprocess_base (k_kernel_info k)) (eproc_link (k_offsets k))) ls"
  shows "\<exists>k'. eprocess_list (virtual_dma_mem (wt_ops (direct_ops capm caps capr capo tm pm)) pm cot cop) u k =
      Some (Inr (map (\<lambda>l. address_sub l (eproc_link (k_offsets k))) (butlast ls)) :: ('p, _) w32_result, k') \<and>
    content (k_phys_mem k') = content (k_phys_mem k)"
proof -
  let ?arch = "kernel_arch k" and ?dtb = "k_sysproc_dtb k" and ?s = "kernel_reader k"
  let ?vm = "virtual_dma_mem (wt_ops (direct_ops capm caps capr capo tm pm)) pm cot cop"
  let ?view = "\<lambda>v. content (vd_phys_mem v)" and ?ptr = "\<lambda>c. virt_ptr ?arch ?arch c ?dtb"
  let ?inv = "\<lambda>v. mem_ok (vd_phys_mem v) \<and> vd_translator v = wt_new ?arch ?dtb"
  have pm: "pointer_memory ?vm u ?arch ?inv ?view ?ptr" by (rule dma_pointer_memory [OF assms(1,3,3,4)])
  have s: "?inv ?s" "vd_phys_mem ?s = k_phys_mem k"
    using assms(2) by (simp_all add: kernel_reader_def borrow_kernel_def vd_with_vat_def)
  have ring: "process_ring (?ptr (?view ?s)) (k_offsets k)
      (address_add (ki_eprocess_base (k_kernel_info k)) (eproc_link (k_offsets k))) ls"
    using assms(6) unfolding s(2) .
  note r = ring [unfolded process_ring_def]
  have "0 < length ls" "length ls - 0 \<le> MAX_ITER_COUNT" using r assms(5) by (simp_all add: MAX_ITER_COUNT_def)
  from pointer_memory.eprocess_loop_ring [OF pm _ _ _ _ this s(1) refl, where eprocs = "[]" and offs = "k_offsets k", where 'p = 'p] r
  obtain s' where run: "eprocess_loop ?vm u ?arch (k_offsets k) (ls ! 0) MAX_ITER_COUNT (ls ! 0) [] ?s =
      Some (Inr () :: ('p, unit) w32_result, map (\<lambda>l. address_sub l (eproc_link (k_offsets k))) (butlast ls), s')"
      "?view s' = ?view ?s" by auto
  then show ?thesis
    using r s(2) by (intro exI [of _ "give_back s' k"])
      (simp add: eprocess_list_def eprocess_list_extend_def give_back_def Let_def)
qed

text \<open>
  A small target: the page at 0x1000 is the frame 0x9000, and holds a ring of the process
  entries at 0x1110 and 0x1210 with the head at 0x1310, and the modules at 0x1400 and 0x1500.
\<close>

definition linked_memory :: "u64 \<Rightarrow> u8 option" where
  "linked_memory a = Some (case map_of
     [(0x1000, 3), (0x1001, 0x20), (0x2000, 3), (0x2001, 0x30), (0x3000, 3), (0x3001, 0x40),
      (0x4008, 3), (0x4009, 0x90),
      (0x9110, 0x10), (0x9111, 0x12), (0x9118, 0x10), (0x9119, 0x13),
      (0x9210, 0x10), (0x9211, 0x13), (0x9218, 0x10), (0x9219, 0x11),
      (0x9310, 0x10), (0x9311, 0x11), (0x9318, 0x10), (0x9319, 0x12),
      (0x9401, 0x15), (0x9501, 0x14)] a
     of Some v \<Rightarrow> v | None \<Rightarrow> 0)"

lemma linked_walk:
  "walk (x86_mmu x64_spec) linked_memory 0x1000 0x1000 = Walk_Entry 0x9003 4"
  "walk_phys x64_spec linked_memory 0x1000 0x1000 = Some 0x9000"
  by code_simp+

lemma linked_page:
  assumes "k < 0x1000"
  shows "page_align (0x1000 + of_nat k) 0x1000 = (0x1000 :: address)"
proof -
  have "unat (0x1000 + of_nat k :: u64) = 0x1000 + k" using assms by (simp add: unat_offset)
  moreover have "(0x1000 + k) div 0x1000 * 0x1000 = 0x1000" using assms by simp
  ultimately show ?thesis by (simp add: word_unat_eq_iff unat_page_align)
qed

lemma linked_phys:
  assumes "k < 0x1000"
  shows "walk_phys x64_spec linked_memory 0x1000 (0x1000 + of_nat k) = Some (0x9000 + of_nat k)"
proof -
  have "walk_phys x64_spec linked_memory 0x1000 a =
      map_option (\<lambda>f. f + (a - page_align a 0x1000)) (walk_phys x64_spec linked_memory 0x1000 (page_align a 0x1000))" for a
    using walk_phys_paged [OF x64_in_archs, of linked_memory "0x1000"] unfolding paged_def by blast
  from this [of "0x1000 + of_nat k"] show ?thesis
    unfolding linked_page [OF assms] linked_walk(2) by simp
qed

lemma linked_exact:
  assumes "k + n \<le> 0x1000" and "0 < n"
  shows "exact_range x64_spec linked_memory 0x1000 (0x1000 + of_nat k) n"
proof -
  have at: "(0x1000 + of_nat k :: u64) + of_nat i = 0x1000 + of_nat (k + i)" for i by simp
  have u: "unat (0x1000 + of_nat k :: u64) = 0x1000 + k" using assms by (simp add: unat_offset)
  have "walk (x86_mmu x64_spec) linked_memory 0x1000 (0x1000 + of_nat (k + i)) = Walk_Entry 0x9003 4"
    if "i < n" for i
    using walk_same_page [OF x64_in_archs, of "0x1000 + of_nat (k + i)" "0x1000" linked_memory "0x1000"]
      linked_page [of "k + i"] linked_page [of 0] linked_walk(1) that assms by simp
  moreover have "pte_addr_mask (x86_mmu x64_spec) 0x9003 4 = Some 0x9000" "step_bits (x86_mmu x64_spec) 4 = 12"
    by code_simp+
  ultimately have "walkable x64_spec linked_memory 0x1000 (0x1000 + of_nat k) n"
    using assms u unfolding walkable_def frame_aligned_def at by (simp add: x86_virt_range)
  moreover have "(0x1000 + k) mod 0x1000 = k" using assms by simp
  ultimately show ?thesis
    using assms u linked_phys [of k] by (simp add: exact_range_def readable_range_def in_one_page_def page_room_def)
      (simp add: linked_memory_def)
qed

definition linked_word :: "u64 \<Rightarrow> u64" where
  "linked_word p = from_le_bytes (map (\<lambda>j. the (linked_memory (p + of_nat j))) [0..<8])"

lemma linked_ptr:
  assumes "k + 8 \<le> 0x1000"
  shows "virt_ptr x64_spec x64_spec linked_memory 0x1000 (0x1000 + of_nat k) =
    Some (linked_word (0x9000 + of_nat k))"
proof -
  have "virt_byte x64_spec linked_memory 0x1000 (0x1000 + of_nat k + of_nat j) =
      Some (the (linked_memory (0x9000 + of_nat (k + j))))" if "j < 8" for j
    using linked_phys [of "k + j"] that assms by (simp add: virt_byte_def add.assoc linked_memory_def)
  then have "those (map (\<lambda>j. virt_byte x64_spec linked_memory 0x1000 (0x1000 + of_nat k + of_nat j)) [0..<8]) =
      Some (map (\<lambda>j. the (linked_memory (0x9000 + of_nat (k + j)))) [0..<8])"
    by (intro those_bytes) simp_all
  moreover have "arch_bits x64_spec = 64" by (simp add: arch_bits_def x64_spec_def)
  ultimately show ?thesis
    using linked_exact [OF assms] by (simp add: virt_ptr_def pointer_size_def address_from_u64_def linked_word_def add.assoc)
qed

lemma linked_words:
  "linked_word 0x9110 = 0x1210" "linked_word 0x9210 = 0x1310" "linked_word 0x9310 = 0x1110"
  "linked_word 0x9118 = 0x1310" "linked_word 0x9218 = 0x1110" "linked_word 0x9318 = 0x1210"
  "linked_word 0x9400 = 0x1500" "linked_word 0x9500 = 0x1400"
  by code_simp+

lemma linked_pointers:
  "virt_ptr x64_spec x64_spec linked_memory 0x1000 0x1110 = Some 0x1210"
  "virt_ptr x64_spec x64_spec linked_memory 0x1000 0x1210 = Some 0x1310"
  "virt_ptr x64_spec x64_spec linked_memory 0x1000 0x1310 = Some 0x1110"
  "virt_ptr x64_spec x64_spec linked_memory 0x1000 0x1118 = Some 0x1310"
  "virt_ptr x64_spec x64_spec linked_memory 0x1000 0x1218 = Some 0x1110"
  "virt_ptr x64_spec x64_spec linked_memory 0x1000 0x1318 = Some 0x1210"
  "virt_ptr x64_spec x64_spec linked_memory 0x1000 0x1400 = Some 0x1500"
  "virt_ptr x64_spec x64_spec linked_memory 0x1000 0x1500 = Some 0x1400"
  using linked_ptr [of "0x110"] linked_ptr [of "0x210"] linked_ptr [of "0x310"] linked_ptr [of "0x118"]
    linked_ptr [of "0x218"] linked_ptr [of "0x318"] linked_ptr [of "0x400"] linked_ptr [of "0x500"]
  by (simp_all add: linked_words)

definition linked_kernel :: "(u64 \<Rightarrow> u8 option, unit) kernel" where
  "linked_kernel = \<lparr>k_phys_mem = linked_memory, k_vat = (),
     k_offsets = Win32Offsets \<lparr>ot_list_blink = 8, ot_eproc_link = 0x10, ot_kproc_dtb = 0, ot_eproc_pid = 0,
       ot_eproc_name = 0, ot_eproc_peb = 0, ot_eproc_section_base = 0, ot_eproc_exit_status = 0,
       ot_eproc_thread_list = 0, ot_eproc_wow64 = 0, ot_kthread_teb = 0, ot_ethread_list_entry = 0,
       ot_teb_peb = 0, ot_teb_peb_x86 = 0\<rparr>,
     k_kernel_info = \<lparr>ki_start_block = \<lparr>sb_arch = x64_spec, sb_kernel_hint = 0, sb_dtb = 0x1000\<rparr>,
       ki_kernel_base = 0, ki_kernel_size = 0, ki_kernel_guid = None, ki_kernel_winver = wv_default,
       ki_eprocess_base = 0x1100\<rparr>,
     k_sysproc_dtb = 0x1000\<rparr>"

lemma eprocess_list_is_ring_witness:
  "\<exists>k'. eprocess_list (virtual_dma_mem (wt_ops (direct_ops (\<lambda>_. 0) (\<lambda>_. 0) (\<lambda>_. 0) (\<lambda>_. 0)
       list_tree_map reference_memory)) reference_memory coalesce_ref coalesce_ref) [0, 0, 0, 0, 0, 0, 0, 0] linked_kernel =
     Some (Inr [0x1100, 0x1200] :: (unit, _) w32_result, k')"
proof -
  let ?k = linked_kernel
  have arch: "kernel_arch ?k \<in> x86_archs" "kernel_arch ?k = x64_spec"
    by (simp_all add: kernel_arch_def linked_kernel_def x64_in_archs)
  have start: "address_add (ki_eprocess_base (k_kernel_info ?k)) (eproc_link (k_offsets ?k)) = 0x1110"
    "k_phys_mem ?k = linked_memory" "k_sysproc_dtb ?k = 0x1000" "list_blink (k_offsets ?k) = 8"
    by (simp_all add: linked_kernel_def address_add_def eproc_link_def list_blink_def)
  have links: "\<forall>i < length ls. f (ls ! i) = Some (ls ! (Suc i mod length ls))"
    if "ls = [a, b, c]" "f a = Some b" "f b = Some c" "f c = Some a" for f :: "address \<Rightarrow> address option" and ls a b c
    using that by (simp add: All_less_Suc)
  have ring: "process_ring (virt_ptr (kernel_arch ?k) (kernel_arch ?k) (k_phys_mem ?k) (k_sysproc_dtb ?k))
      (k_offsets ?k) (address_add (ki_eprocess_base (k_kernel_info ?k)) (eproc_link (k_offsets ?k)))
      [0x1110, 0x1210, 0x1310]"
    unfolding process_ring_def start arch(2)
    using links [OF refl linked_pointers(1-3)] linked_pointers(4-6) by (simp add: address_add_def)
  show ?thesis
    using eprocess_list_is_ring [OF reference.matching_memory_axioms TrueI arch(1) _ _ ring,
        where u = "[0, 0, 0, 0, 0, 0, 0, 0]" and capm = "\<lambda>_. 0" and caps = "\<lambda>_. 0" and capr = "\<lambda>_. 0" and capo = "\<lambda>_. 0"
        and tm = list_tree_map and cot = coalesce_ref and cop = coalesce_ref, where 'p = unit]
    by (auto simp: linked_kernel_def eproc_link_def address_sub_def)
qed

text \<open>
  C12. Listing the modules of a process ends and reaches every module. Over any readable
  memory and page tables, for pointers of either size, when the modules form a chain that
  ends in a null pointer, a pointer that is not aligned to eight bytes, or a pointer back to
  the first module, the entries listed are the first 65536 of the chain, in its order.
\<close>

theorem module_list_reaches_end:
  assumes "matching_memory pm mem_ok content" and "mem_ok (vd_phys_mem self)"
    and "arch \<in> x86_archs" and "parch \<in> x86_archs" and "8 \<le> length u"
    and "vd_translator self = wt_new arch dtb"
    and "module_chain (virt_ptr parch arch (content (vd_phys_mem self)) dtb) (ml_module_base info) ms"
  shows "\<exists>self'. ml_module_entry_list (virtual_dma_mem (wt_ops (direct_ops capm caps capr capo tm pm)) pm cot cop)
      u info parch self = Some (Inr (take 65536 ms) :: ('p, _) w32_result, self') \<and>
    content (vd_phys_mem self') = content (vd_phys_mem self)"
proof -
  let ?base = "ml_module_base info"
  let ?vm = "virtual_dma_mem (wt_ops (direct_ops capm caps capr capo tm pm)) pm cot cop"
  let ?view = "\<lambda>v. content (vd_phys_mem v)" and ?ptr = "\<lambda>c. virt_ptr parch arch c dtb"
  let ?inv = "\<lambda>v. mem_ok (vd_phys_mem v) \<and> vd_translator v = wt_new arch dtb"
  have pm: "pointer_memory ?vm u parch ?inv ?view ?ptr" by (rule dma_pointer_memory [OF assms(1,3,4,5)])
  note c = assms(7) [unfolded module_chain_def]
  obtain e where e: "?ptr (?view self) (last ms) = Some e" "chain_end ?base e"
    using c by blast
  have s: "?inv self" and n: "0 < length ms" using c assms(2,6) by simp_all
  note loop = pointer_memory.module_entry_loop_chain [OF pm]
  from loop [OF _ e n s refl, of MAX_ITER_COUNT "[]", where 'p = 'p]
  show ?thesis
    using c by (auto simp: ml_module_entry_list_def MAX_ITER_COUNT_def)
qed

lemma module_list_reaches_end_witness:
  "\<exists>self'. ml_module_entry_list (virtual_dma_mem (wt_ops (direct_ops (\<lambda>_. 0) (\<lambda>_. 0) (\<lambda>_. 0) (\<lambda>_. 0)
       list_tree_map reference_memory)) reference_memory coalesce_ref coalesce_ref) [0, 0, 0, 0, 0, 0, 0, 0]
     \<lparr>ml_module_base = 0x1400, ml_ldr_data_base_offs = 0, ml_ldr_data_size_offs = 0, ml_ldr_data_name_offs = 0\<rparr>
     x64_spec (vd_with_vat linked_memory x64_spec (wt_new x64_spec 0x1000) ()) =
     Some (Inr [0x1400, 0x1500] :: (unit, _) w32_result, self')"
proof -
  let ?self = "vd_with_vat linked_memory x64_spec (wt_new x64_spec 0x1000) ()"
  let ?info = "\<lparr>ml_module_base = 0x1400, ml_ldr_data_base_offs = 0, ml_ldr_data_size_offs = 0, ml_ldr_data_name_offs = 0\<rparr>"
  have t: "vd_translator ?self = wt_new x64_spec 0x1000" by (simp add: vd_with_vat_def)
  have "module_chain (virt_ptr x64_spec x64_spec (vd_phys_mem ?self) 0x1000) (ml_module_base ?info) [0x1400, 0x1500]"
    by (simp add: module_chain_def vd_with_vat_def linked_pointers chain_end_def less_Suc_eq)
  then show ?thesis
    using module_list_reaches_end [OF reference.matching_memory_axioms TrueI x64_in_archs x64_in_archs _ t, where
        u = "[0, 0, 0, 0, 0, 0, 0, 0]" and capm = "\<lambda>_. 0" and caps = "\<lambda>_. 0" and capr = "\<lambda>_. 0" and capo = "\<lambda>_. 0"
        and tm = list_tree_map and cot = coalesce_ref and cop = coalesce_ref and info = ?info and ms = "[0x1400, 0x1500]",
        where 'p = unit]
    by auto
qed

end
