(* ===== verification/Win32_Keyboard.thy ===== *)
theory Win32_Keyboard
  imports Win32_Kernel
begin

text \<open>
  The keyboard of a Windows target (\<open>win32/keyboard.rs\<close>): a table of two bits for each key in
  a module of the kernel, read through the memory of a user process. The theorem says which
  bit a key code selects, and for which code the table has none.
\<close>

section \<open>State\<close>

record keyboard =
  kbd_user_process_info :: win32_process_info
  kbd_key_state_addr :: address

record keyboard_state =
  ks_buffer :: "u8 list"

section \<open>Operations\<close>

definition keyboard_try_with ::
  "(u8 list \<Rightarrow> u8 list) \<Rightarrow> 's widestring \<Rightarrow> ('p, 'o) pelite \<Rightarrow> ('m, 'w) win32_dma virt_mem
     \<Rightarrow> ('m, unit) win32_dma virt_mem \<Rightarrow> u8 list \<Rightarrow> (('m, 'w) kernel, 'p, keyboard) w32_step" where
  "keyboard_try_with lower ws pe vm dm u =
     and_then (kernel_process_info pe vm u) (\<lambda>kernel_info.
     and_then (with_process kernel_info (find_module_info ws vm u (utf8_of ''win32kbase.sys''))) (\<lambda>win32kbase.
     and_then (attempt (process_info lower ws vm dm u (utf8_of ''winlogon.exe'')) (\<lambda>r.
       case (r :: ('p, win32_process_info) w32_result) of
         Inr p \<Rightarrow> done_with p
       | Inl _ \<Rightarrow> process_info lower ws vm dm u (utf8_of ''wininit.exe''))) (\<lambda>user_process_info.
     and_then (with_process user_process_info (on_virt_mem (w32_data_part (\<lambda>s.
         virt_read_raw vm s (module_base win32kbase) (module_size win32kbase))))) (\<lambda>module_buf.
     and_then (pe_view pe module_buf) (\<lambda>view.
       (case pe_export_by_name pe view ''gafAsyncKeyState'' of
          Inl e \<Rightarrow> fail_with (w32_from_pe e)
        | Inr Forward \<Rightarrow> fail_with (W32Other ''export gafAsyncKeyState found but it is forwarded'')
        | Inr (Symbol s) \<Rightarrow>
            done_with \<lparr>kbd_user_process_info = user_process_info,
              kbd_key_state_addr = address_add (module_base win32kbase) (ucast s)\<rparr>))))))"

text \<open>The 64 bytes of the table, over 64 uninitialised ones.\<close>

definition key_state :: "'v virt_mem \<Rightarrow> u8 list \<Rightarrow> keyboard \<Rightarrow> ('v, 'p, keyboard_state) w32_step" where
  "key_state vm u self =
     and_then (w32_partial (\<lambda>s. virt_read vm s (take 64 u) (kbd_key_state_addr self))) (\<lambda>buffer.
       done_with \<lparr>ks_buffer = buffer\<rparr>)"

definition state_with_kernel ::
  "('m, 'w) win32_dma virt_mem \<Rightarrow> u8 list \<Rightarrow> keyboard \<Rightarrow> (('m, 'w) kernel, 'p, keyboard_state) w32_step" where
  "state_with_kernel vm u self =
     with_process (kbd_user_process_info self) (on_virt_mem (key_state vm u self))"

definition state_with_process ::
  "'v virt_mem \<Rightarrow> u8 list \<Rightarrow> keyboard \<Rightarrow> ('v win32_process, 'p, keyboard_state) w32_step" where
  "state_with_process vm u self = on_virt_mem (key_state vm u self)"

text \<open>The macros of the module on an \<open>i32\<close> key code; indexing past the table panics.\<close>

definition get_ks_byte :: "int \<Rightarrow> int" where "get_ks_byte vk = vk * 2 div 8"

definition get_ks_down_bit :: "int \<Rightarrow> u8" where "get_ks_down_bit vk = push_bit (nat (vk mod 4 * 2)) 1"

definition is_key_down :: "u8 list \<Rightarrow> int \<Rightarrow> bool option" where
  "is_key_down ks vk =
     map_option (\<lambda>b. b AND get_ks_down_bit vk \<noteq> 0) (index_of ks (nat (get_ks_byte vk)))"

definition is_down :: "keyboard_state \<Rightarrow> 32 word \<Rightarrow> bool option" where
  "is_down self vk =
     (if sint vk < 0 \<or> 256 < sint vk then Some False else is_key_down (ks_buffer self) (sint vk))"

section \<open>Key codes\<close>

text \<open>
  C29. A key code from 0 to 255 selects the lower of its two bits in the table of 64 bytes and
  never panics; a negative code and one above 256 is not down; the code 256, which the
  check lets through, is past the table and panics.
\<close>

theorem key_codes:
  assumes "length (ks_buffer self) = 64"
  shows "is_down self vk =
    (if 0 \<le> sint vk \<and> sint vk < 256
     then Some (bit (ks_buffer self ! nat (sint vk div 4)) (nat (sint vk mod 4) * 2))
     else if sint vk = 256 then None else Some False)"
proof -
  have byte: "sint vk * 2 div 8 = sint vk div 4" by simp
  have one: "(b AND 2 ^ n \<noteq> 0) = bit b n" for b :: u8 and n
    by (simp add: bit_iff_and_push_bit_not_eq_0)
  have two: "nat (sint vk mod 4 * 2) = nat (sint vk mod 4) * 2" by (simp add: nat_mult_distrib)
  show ?thesis
    using assms
    by (auto simp: is_down_def is_key_down_def get_ks_byte_def get_ks_down_bit_def byte one two index_of_def
        nat_less_iff)
qed

lemma key_codes_witness:
  "is_down \<lparr>ks_buffer = replicate 64 4\<rparr> 0x21 = Some True \<and>
   is_down \<lparr>ks_buffer = replicate 64 4\<rparr> 0x100 = None"
proof -
  let ?s = "\<lparr>ks_buffer = replicate 64 (4 :: u8)\<rparr>"
  have "length (ks_buffer ?s) = 64" by simp
  note key = key_codes [OF this]
  have "is_down ?s 0x21 = Some (bit (4 :: u8) 2)" by (simp add: key)
  moreover have "bit (4 :: u8) 2" by (simp add: bit_simps)
  moreover have "is_down ?s 0x100 = None" by (simp add: key)
  ultimately show ?thesis by simp
qed

end
