(* ===== verification/Win32_Builder.thy ===== *)
theory Win32_Builder
  imports Win32_Kernel Cached_Memory Cached_Vat
begin

text \<open>
  The builder of a kernel (\<open>win32/kernel_builder.rs\<close>): it scans the connector for a kernel,
  looks for its offsets, wraps the connector and the translator in the caches it was given,
  and makes the kernel of them. The closures that make the caches may panic.
\<close>

record ('t, 'tk, 'vk) kernel_builder_state =
  kb_connector :: 't
  kb_arch :: "x86_architecture option"
  kb_symbol_store :: "symbol_store option"
  kb_build_page_cache :: "'t \<Rightarrow> x86_architecture \<Rightarrow> 'tk option"
  kb_build_vat_cache :: "unit \<Rightarrow> x86_architecture \<Rightarrow> 'vk option"

definition kb_new :: "path option \<Rightarrow> 't \<Rightarrow> ('t, 't, unit) kernel_builder_state option" where
  "kb_new home_dir connector = map_option (\<lambda>store.
     \<lparr>kb_connector = connector, kb_arch = None, kb_symbol_store = Some store,
      kb_build_page_cache = (\<lambda>connector _. Some connector), kb_build_vat_cache = (\<lambda>vat _. Some vat)\<rparr>)
     (ss_default home_dir)"

definition kernel_builder :: "path option \<Rightarrow> 't \<Rightarrow> ('t, 't, unit) kernel_builder_state option" where
  "kernel_builder home_dir connector = kb_new home_dir connector"

definition build_offsets ::
  "win32_offset_file list \<Rightarrow> (u8 list \<Rightarrow> string \<Rightarrow> pdb_struct option) \<Rightarrow> (u8 list \<Rightarrow> http_response)
     \<Rightarrow> path option \<Rightarrow> ('t, 'tk, 'vk) kernel_builder_state \<Rightarrow> kernel_info \<Rightarrow> (file_system, 'p, win32_offsets) w32_step" where
  "build_offsets files pdb_with get home_dir self kernel_info =
     and_then (may_panic (offsets_builder home_dir)) (\<lambda>builder.
     let builder = (case kb_symbol_store self of
         Some store \<Rightarrow> wb_with_symbol_store builder store
       | None \<Rightarrow> wb_no_symbol_store builder) in
     and_then (may_panic (wb_with_kernel_info builder kernel_info)) (\<lambda>builder.
       wb_build files pdb_with get builder))"

text \<open>
  \<open>pm\<close> and \<open>dm\<close> are the connector as physical memory and as virtual memory with the stateless
  translator, \<open>vm\<close> the virtual memory of the finished kernel.
\<close>

definition kb_build ::
  "('p, 'o) pelite \<Rightarrow> 't phys_mem \<Rightarrow> ('t, unit) win32_dma virt_mem \<Rightarrow> ('tk, 'vk) win32_dma virt_mem \<Rightarrow> u8 list
     \<Rightarrow> win32_offset_file list \<Rightarrow> (u8 list \<Rightarrow> string \<Rightarrow> pdb_struct option) \<Rightarrow> (u8 list \<Rightarrow> http_response)
     \<Rightarrow> path option \<Rightarrow> ('t, 'tk, 'vk) kernel_builder_state \<Rightarrow> (file_system, 'p, ('tk, 'vk) kernel) w32_step" where
  "kb_build pe pm dm vm u files pdb_with get home_dir self fs =
     (let scanner = ki_scanner (kb_connector self);
          scanner = (case kb_arch self of Some arch \<Rightarrow> kis_with_arch scanner arch | None \<Rightarrow> scanner)
      in (case scan pe pm dm u scanner of
            None \<Rightarrow> None
          | Some (Inl e, _) \<Rightarrow> Some (Inl e, fs)
          | Some (Inr kernel_info, connector) \<Rightarrow>
              and_then (build_offsets files pdb_with get home_dir self kernel_info) (\<lambda>offsets.
              let arch = sb_arch (ki_start_block kernel_info) in
              and_then (may_panic (kb_build_page_cache self connector arch)) (\<lambda>kernel_connector.
              and_then (may_panic (kb_build_vat_cache self () arch)) (\<lambda>kernel_vat.
              and_then (may_panic (kernel_new vm u kernel_connector kernel_vat offsets kernel_info)) (\<lambda>kernel.
                done_with kernel)))) fs))"

definition kb_with_arch :: "('t, 'tk, 'vk) kernel_builder_state \<Rightarrow> x86_architecture \<Rightarrow> ('t, 'tk, 'vk) kernel_builder_state" where
  "kb_with_arch self arch = self\<lparr>kb_arch := Some arch\<rparr>"

definition kb_with_symbol_store ::
  "('t, 'tk, 'vk) kernel_builder_state \<Rightarrow> symbol_store \<Rightarrow> ('t, 'tk, 'vk) kernel_builder_state" where
  "kb_with_symbol_store self store = self\<lparr>kb_symbol_store := Some store\<rparr>"

definition kb_no_symbol_store :: "('t, 'tk, 'vk) kernel_builder_state \<Rightarrow> ('t, 'tk, 'vk) kernel_builder_state" where
  "kb_no_symbol_store self = self\<lparr>kb_symbol_store := None\<rparr>"

definition kb_with_page_cache ::
  "('t, 'tk, 'vk) kernel_builder_state \<Rightarrow> ('t \<Rightarrow> x86_architecture \<Rightarrow> 'tkn option) \<Rightarrow> ('t, 'tkn, 'vk) kernel_builder_state" where
  "kb_with_page_cache self func =
     \<lparr>kb_connector = kb_connector self, kb_arch = kb_arch self, kb_symbol_store = kb_symbol_store self,
      kb_build_page_cache = func, kb_build_vat_cache = kb_build_vat_cache self\<rparr>"

definition kb_with_vat_cache ::
  "('t, 'tk, 'vk) kernel_builder_state \<Rightarrow> (unit \<Rightarrow> x86_architecture \<Rightarrow> 'vkn option) \<Rightarrow> ('t, 'tk, 'vkn) kernel_builder_state" where
  "kb_with_vat_cache self func =
     \<lparr>kb_connector = kb_connector self, kb_arch = kb_arch self, kb_symbol_store = kb_symbol_store self,
      kb_build_page_cache = kb_build_page_cache self, kb_build_vat_cache = func\<rparr>"

text \<open>The default caches, made at the time \<open>k\<close>; both closures unwrap the result of a builder.\<close>

definition unwrap :: "('e + 'a) \<Rightarrow> 'a option" where
  "unwrap r = (case r of Inl _ \<Rightarrow> None | Inr a \<Rightarrow> Some a)"

definition default_page_cache ::
  "('k, 'i, 'd) clock \<Rightarrow> 'k \<Rightarrow> 't \<Rightarrow> x86_architecture
     \<Rightarrow> ('t, ('k, 'i, 'd) timed_validator) cached_memory_access option" where
  "default_page_cache ck k connector arch =
     Option.bind (cmb_with_arch arch (cm_builder ck k connector)) (\<lambda>b.
     Option.bind (cmb_build (timed_ops ck) b) unwrap)"

definition default_vat_cache ::
  "('k, 'i, 'd) clock \<Rightarrow> 'k \<Rightarrow> unit \<Rightarrow> x86_architecture \<Rightarrow> (unit, ('k, 'i, 'd) timed_validator) cached_vat option" where
  "default_vat_cache ck k vat arch = unwrap (cvb_build (timed_ops ck) (cvb_with_arch arch (cached_vat_builder ck k vat)))"

definition kb_build_default_caches ::
  "('k, 'i, 'd) clock \<Rightarrow> 'k \<Rightarrow> ('t, 'tk, 'vk) kernel_builder_state
     \<Rightarrow> ('t, ('t, ('k, 'i, 'd) timed_validator) cached_memory_access,
         (unit, ('k, 'i, 'd) timed_validator) cached_vat) kernel_builder_state" where
  "kb_build_default_caches ck k self =
     \<lparr>kb_connector = kb_connector self, kb_arch = kb_arch self, kb_symbol_store = kb_symbol_store self,
      kb_build_page_cache = default_page_cache ck k, kb_build_vat_cache = default_vat_cache ck k\<rparr>"

end
