(* ===== verification/Connector_Inventory.thy ===== *)
theory Connector_Inventory
  imports Result_Types
begin

text \<open>
  The arguments of a connector (\<open>memflow/src/connector/args.rs\<close>) and the inventory that loads
  connectors from shared libraries (\<open>memflow/src/connector/inventory.rs\<close>). The directories of
  the host and the loader of libraries are parameters. The lemmas show that an argument text
  gives back the pairs it was written from, and which library a connector comes from.
\<close>

section \<open>Arguments\<close>

record connector_args =
  ca_map :: "string \<Rightarrow> string option"

definition ca_new :: connector_args where "ca_new = \<lparr>ca_map = (\<lambda>_. None)\<rparr>"

definition ca_insert :: "connector_args \<Rightarrow> string \<Rightarrow> string \<Rightarrow> connector_args" where
  "ca_insert args key v = args\<lparr>ca_map := (ca_map args)(key := Some v)\<rparr>"

definition ca_with_default :: "string \<Rightarrow> connector_args" where
  "ca_with_default v = ca_insert ca_new ''default'' v"

definition ca_get :: "connector_args \<Rightarrow> string \<Rightarrow> string option" where
  "ca_get args key = ca_map args key"

definition ca_get_default :: "connector_args \<Rightarrow> string option" where
  "ca_get_default args = ca_get args ''default''"

definition ca_default :: connector_args where "ca_default = ca_new"

text \<open>\<open>str::split\<close> at a character: one piece more than there are separators.\<close>

fun split_char :: "char \<Rightarrow> string \<Rightarrow> string list" where
  "split_char d [] = [[]]"
| "split_char d (c # s) =
     (if c = d then [] # split_char d s
      else (case split_char d s of p # ps \<Rightarrow> (c # p) # ps | [] \<Rightarrow> [[c]]))"

text \<open>The body of the loop of \<open>parse\<close> for the entry \<open>kv\<close> at the place \<open>i\<close>.\<close>

definition parse_entry :: "nat \<times> string \<Rightarrow> (string \<Rightarrow> string option) \<Rightarrow> string \<Rightarrow> string option" where
  "parse_entry = (\<lambda>(i, kv) m.
     (let kvsplit = split_char CHR ''='' kv
      in if length kvsplit = 2 then m(kvsplit ! 0 := Some (kvsplit ! 1))
         else if i = 0 \<and> kv \<noteq> '''' then m(''default'' := Some kv)
         else m))"

definition ca_parse :: "string \<Rightarrow> error + connector_args" where
  "ca_parse args =
     Inr \<lparr>ca_map = fold parse_entry (List.enumerate 0 (split_char CHR '','' args)) (\<lambda>_. None)\<rparr>"

definition ca_try_from :: "string \<Rightarrow> error + connector_args" where "ca_try_from args = ca_parse args"

section \<open>The host\<close>

text \<open>
  What the inventory sees of the host: its directories, the search path of the environment
  and the home directory, the libraries a path loads, and the descriptor a library exports.
  A path is the list of its names.
\<close>

type_synonym path_names = "string list"

record 'c connector_descriptor =
  cd_version :: "32 word"
  cd_name :: string
  cd_factory :: "connector_args \<Rightarrow> error + 'c"

record ('l, 'c) host_env =
  he_is_dir :: "path_names \<Rightarrow> bool"
  he_read_dir :: "path_names \<Rightarrow> path_names option list option"
  he_path_var :: "path_names list option"
  he_home_dir :: "path_names option"
  he_load :: "path_names \<Rightarrow> 'l option"
  he_descriptor :: "'l \<Rightarrow> 'c connector_descriptor option"

definition MEMFLOW_CONNECTOR_VERSION :: "32 word" where "MEMFLOW_CONNECTOR_VERSION = 5"

section \<open>A connector\<close>

record ('l, 'c) connector_lib =
  cl_library :: 'l
  cl_name :: string
  cl_factory :: "connector_args \<Rightarrow> error + 'c"

record ('l, 'c) connector_instance =
  in_instance :: 'c
  in_library :: 'l

definition cl_try_with :: "('l, 'c) host_env \<Rightarrow> path_names \<Rightarrow> error + ('l, 'c) connector_lib" where
  "cl_try_with env path =
     (case he_load env path of
        None \<Rightarrow> Inl (Connector ''unable to load library'')
      | Some library \<Rightarrow>
          (case he_descriptor env library of
             None \<Rightarrow> Inl (Connector ''connector descriptor not found'')
           | Some desc \<Rightarrow>
               if cd_version desc \<noteq> MEMFLOW_CONNECTOR_VERSION
               then Inl (Connector ''connector version mismatch'')
               else Inr \<lparr>cl_library = library, cl_name = cd_name desc, cl_factory = cd_factory desc\<rparr>))"

definition cl_create :: "('l, 'c) connector_lib \<Rightarrow> connector_args \<Rightarrow> error + ('l, 'c) connector_instance" where
  "cl_create c args =
     (case cl_factory c args of
        Inl _ \<Rightarrow> Inl (Connector ''Failed to create connector'')
      | Inr inst \<Rightarrow> Inr \<lparr>in_instance = inst, in_library = cl_library c\<rparr>)"

section \<open>The inventory\<close>

record ('l, 'c) inventory =
  ci_connectors :: "('l, 'c) connector_lib list"

definition ci_push :: "('l, 'c) inventory \<Rightarrow> ('l, 'c) connector_lib \<Rightarrow> ('l, 'c) inventory" where
  "ci_push ivy c = ivy\<lparr>ci_connectors := ci_connectors ivy @ [c]\<rparr>"

text \<open>The loop over the entries of a directory; an entry that can not be read ends it.\<close>

fun add_entries ::
  "('l, 'c) host_env \<Rightarrow> path_names option list \<Rightarrow> ('l, 'c) inventory \<Rightarrow> unit result \<times> ('l, 'c) inventory" where
  "add_entries env [] ivy = (Inr (), ivy)"
| "add_entries env (None # es) ivy = (Inl (IO ''unable to read directory entry''), ivy)"
| "add_entries env (Some p # es) ivy =
     add_entries env es (case cl_try_with env p of Inr c \<Rightarrow> ci_push ivy c | Inl _ \<Rightarrow> ivy)"

definition add_dir ::
  "('l, 'c) host_env \<Rightarrow> path_names \<Rightarrow> ('l, 'c) inventory \<Rightarrow> unit result \<times> ('l, 'c) inventory" where
  "add_dir env dir ivy =
     (if \<not> he_is_dir env dir then (Inl (IO ''invalid path argument''), ivy)
      else (case he_read_dir env dir of
              None \<Rightarrow> (Inl (IO ''unable to read directory''), ivy)
            | Some es \<Rightarrow> add_entries env es ivy))"

definition ci_empty :: "('l, 'c) inventory" where "ci_empty = \<lparr>ci_connectors = []\<rparr>"

definition with_path :: "('l, 'c) host_env \<Rightarrow> path_names \<Rightarrow> error + ('l, 'c) inventory" where
  "with_path env path =
     (case add_dir env path ci_empty of (Inl e, _) \<Rightarrow> Inl e | (Inr _, ivy) \<Rightarrow> Inr ivy)"

definition extra_paths :: "path_names list" where
  "extra_paths = [
     [''/'', ''opt''], [''/'', ''lib''], [''/'', ''usr'', ''lib''], [''/'', ''usr'', ''local'', ''lib''],
     [''/'', ''lib32''], [''/'', ''lib64''], [''/'', ''usr'', ''lib32''], [''/'', ''usr'', ''lib64''],
     [''/'', ''usr'', ''local'', ''lib32''], [''/'', ''usr'', ''local'', ''lib64'']]"

definition search_paths :: "('l, 'c) host_env \<Rightarrow> path_names list" where
  "search_paths env =
     extra_paths @ (case he_path_var env of Some ps \<Rightarrow> ps | None \<Rightarrow> []) @
     (case he_home_dir env of Some dir \<Rightarrow> [dir @ [''.local'', ''lib'']] | None \<Rightarrow> [])"

definition try_new :: "('l, 'c) host_env \<Rightarrow> error + ('l, 'c) inventory" where
  "try_new env =
     Inr (fold (\<lambda>path ivy. snd (add_dir env (path @ [''memflow'']) ivy)) (search_paths env) ci_empty)"

definition create_connector ::
  "('l, 'c) inventory \<Rightarrow> string \<Rightarrow> connector_args \<Rightarrow> error + ('l, 'c) connector_instance" where
  "create_connector ivy name args =
     (case find (\<lambda>c. cl_name c = name) (ci_connectors ivy) of
        None \<Rightarrow> Inl (Connector ''connector not found'')
      | Some c \<Rightarrow> cl_create c args)"

definition create_connector_default ::
  "('l, 'c) inventory \<Rightarrow> string \<Rightarrow> error + ('l, 'c) connector_instance" where
  "create_connector_default ivy name = create_connector ivy name ca_default"

section \<open>Texts of arguments\<close>

text \<open>The text of a list of entries: the entries with commas between them.\<close>

fun join_char :: "char \<Rightarrow> string list \<Rightarrow> string" where
  "join_char d [] = []"
| "join_char d [p] = p"
| "join_char d (p # ps) = p @ [d] @ join_char d ps"

lemma split_char_ne [simp]: "split_char d s \<noteq> []"
  by (induction s) (auto split: list.splits)

lemma split_char_none: "d \<notin> set s \<Longrightarrow> split_char d s = [s]"
  by (induction s) auto

lemma split_char_append:
  "d \<notin> set p \<Longrightarrow> split_char d (p @ d # s) = p # split_char d s"
  by (induction p) auto

lemma split_join_char:
  assumes "ps \<noteq> []" and "\<forall>p \<in> set ps. d \<notin> set p"
  shows "split_char d (join_char d ps) = ps"
  using assms by (induction d ps rule: join_char.induct) (auto simp: split_char_none split_char_append)

text \<open>The text of a pair, and which words may stand in it.\<close>

definition pair_text :: "string \<times> string \<Rightarrow> string" where
  "pair_text kv = fst kv @ ''='' @ snd kv"

definition plain_word :: "string \<Rightarrow> bool" where
  "plain_word s \<longleftrightarrow> CHR '','' \<notin> set s \<and> CHR ''='' \<notin> set s"

lemma pair_text_split: "plain_word k \<Longrightarrow> plain_word v \<Longrightarrow> split_char CHR ''='' (pair_text (k, v)) = [k, v]"
  by (simp add: pair_text_def plain_word_def split_char_append split_char_none)

lemma pair_text_no_comma: "plain_word k \<Longrightarrow> plain_word v \<Longrightarrow> CHR '','' \<notin> set (pair_text (k, v))"
  by (auto simp: pair_text_def plain_word_def)

lemma parse_pairs:
  assumes "\<forall>(k, v) \<in> set kvs. plain_word k \<and> plain_word v"
  shows "fold parse_entry (List.enumerate i (map pair_text kvs)) m = m ++ map_of (rev kvs)"
  using assms
proof (induction kvs arbitrary: i m)
  case (Cons kv kvs)
  obtain k v where kv: "kv = (k, v)" by (cases kv)
  have "parse_entry (i, pair_text (k, v)) m = m(k \<mapsto> v)"
    using Cons.prems by (simp add: kv parse_entry_def pair_text_split)
  then show ?case
    using Cons by (simp add: kv map_add_def fun_eq_iff split: option.splits)
qed simp

text \<open>
  C26. Parsing an argument text gives back what it was written from: a default value without
  a comma that is not itself a pair, if there is one, then pairs of words without comma or
  equal sign. A key has the value of its last pair, and the key \<open>default\<close> has the default
  value unless a pair names it.
\<close>

theorem connector_args_parse:
  assumes "\<forall>(k, v) \<in> set kvs. plain_word k \<and> plain_word v"
    and "\<forall>d. dflt = Some d \<longrightarrow> d \<noteq> '''' \<and> CHR '','' \<notin> set d \<and> length (split_char CHR ''='' d) \<noteq> 2"
  shows "\<exists>args. ca_parse (join_char CHR '','' ((case dflt of Some d \<Rightarrow> [d] | None \<Rightarrow> []) @ map pair_text kvs)) = Inr args \<and>
    (\<forall>key. ca_get args key =
       (case map_of (rev kvs) key of Some v \<Rightarrow> Some v
        | None \<Rightarrow> if key = ''default'' then dflt else None)) \<and>
    ca_get_default args = ca_get args ''default''"
proof -
  have c: "CHR '','' \<notin> set p" if "p \<in> set (map pair_text kvs)" for p
    using assms(1) that pair_text_no_comma by (auto simp: case_prod_unfold)
  let ?es = "(case dflt of Some d \<Rightarrow> [d] | None \<Rightarrow> []) @ map pair_text kvs"
  have "fold parse_entry (List.enumerate 0 (split_char CHR '','' (join_char CHR '','' ?es))) (\<lambda>_. None) =
      (case dflt of Some d \<Rightarrow> [''default'' \<mapsto> d] | None \<Rightarrow> (\<lambda>_. None)) ++ map_of (rev kvs)"
  proof (cases dflt)
    case None
    show ?thesis
    proof (cases "kvs = []")
      case True
      with None show ?thesis by (simp add: parse_entry_def)
    next
      case False
      with None c show ?thesis by (simp add: split_join_char parse_pairs [OF assms(1)])
    qed
  next
    case (Some d)
    with assms(2) have "parse_entry (0, d) (\<lambda>_. None) = [''default'' \<mapsto> d]"
      by (simp add: parse_entry_def)
    moreover have "split_char CHR '','' (join_char CHR '','' ?es) = ?es"
      using c assms(2) Some by (intro split_join_char) auto
    ultimately show ?thesis using Some by (simp add: parse_pairs [OF assms(1)])
  qed
  then show ?thesis
    by (auto simp: ca_parse_def ca_get_def ca_get_default_def map_add_def split: option.splits)
qed

lemma connector_args_parse_witness:
  "\<exists>args. ca_parse ''test0,opt1=test1,opt2=test2'' = Inr args \<and> ca_get args ''opt2'' = Some ''test2'' \<and>
     ca_get_default args = Some ''test0''"
  using connector_args_parse [of "[(''opt1'', ''test1''), (''opt2'', ''test2'')]" "Some ''test0''"]
  by (auto simp: plain_word_def pair_text_def)

text \<open>
  An entry with a second equal sign is dropped without an error; as the first entry it
  becomes the default value as a whole.
\<close>

lemma parse_drops_second_equal_sign:
  "\<exists>args. ca_parse ''a=b,device=/dev/disk/by=id'' = Inr args \<and> ca_get args ''device'' = None \<and>
     ca_get_default args = None"
  "\<exists>args. ca_parse ''device=/dev/disk/by=id'' = Inr args \<and> ca_get args ''device'' = None \<and>
     ca_get_default args = Some ''device=/dev/disk/by=id''"
  by (simp_all add: ca_parse_def ca_get_def ca_get_default_def parse_entry_def)

section \<open>Where a connector comes from\<close>

text \<open>The libraries of a directory that the inventory takes, up to an unreadable entry.\<close>

definition usable :: "('l, 'c) host_env \<Rightarrow> path_names \<Rightarrow> ('l, 'c) connector_lib list" where
  "usable env p = (case cl_try_with env p of Inr c \<Rightarrow> [c] | Inl _ \<Rightarrow> [])"

definition readable_entries :: "('l, 'c) host_env \<Rightarrow> path_names \<Rightarrow> path_names list" where
  "readable_entries env dir =
     (if he_is_dir env dir
      then (case he_read_dir env dir of
              Some es \<Rightarrow> map the (takeWhile (\<lambda>e. e \<noteq> None) es) | None \<Rightarrow> [])
      else [])"

definition dir_connectors :: "('l, 'c) host_env \<Rightarrow> path_names \<Rightarrow> ('l, 'c) connector_lib list" where
  "dir_connectors env dir = concat (map (usable env) (readable_entries env dir))"

lemma ci_push_connectors [simp]: "ci_connectors (ci_push ivy c) = ci_connectors ivy @ [c]"
  by (simp add: ci_push_def)

lemma add_entries_connectors:
  "ci_connectors (snd (add_entries env es ivy)) =
     ci_connectors ivy @ concat (map (usable env) (map the (takeWhile (\<lambda>e. e \<noteq> None) es)))"
  by (induction env es ivy rule: add_entries.induct) (auto simp: usable_def split: sum.splits)

lemma add_dir_connectors:
  "ci_connectors (snd (add_dir env dir ivy)) = ci_connectors ivy @ dir_connectors env dir"
  by (simp add: add_dir_def dir_connectors_def readable_entries_def add_entries_connectors
      split: option.splits)

lemma fold_add_dir_connectors:
  "ci_connectors (fold (\<lambda>p ivy. snd (add_dir env (f p) ivy)) ps ivy) =
     ci_connectors ivy @ concat (map (\<lambda>p. dir_connectors env (f p)) ps)"
  by (induction ps arbitrary: ivy) (auto simp: add_dir_connectors)

lemma cl_try_with_Inr:
  "cl_try_with env p = Inr c \<longleftrightarrow>
     (\<exists>lib desc. he_load env p = Some lib \<and> he_descriptor env lib = Some desc \<and>
        cd_version desc = MEMFLOW_CONNECTOR_VERSION \<and>
        c = \<lparr>cl_library = lib, cl_name = cd_name desc, cl_factory = cd_factory desc\<rparr>)"
  by (auto simp: cl_try_with_def split: option.splits)

lemma find_append: "find P (xs @ ys) = (case find P xs of None \<Rightarrow> find P ys | Some x \<Rightarrow> Some x)"
  by (induction xs) auto

lemma find_concat_first:
  "find P (concat (map f ps)) = Some c \<Longrightarrow>
     \<exists>us p vs. ps = us @ p # vs \<and> (\<forall>u \<in> set us. find P (f u) = None) \<and> find P (f p) = Some c"
proof (induction ps)
  case (Cons q ps)
  show ?case
  proof (cases "find P (f q)")
    case None
    then have "find P (concat (map f ps)) = Some c"
      using Cons.prems by (simp add: find_append)
    from Cons.IH [OF this] obtain us p vs where "ps = us @ p # vs"
        "\<forall>u \<in> set us. find P (f u) = None" "find P (f p) = Some c" by blast
    with None show ?thesis by (intro exI [of _ "q # us"] exI [of _ p] exI [of _ vs]) auto
  next
    case (Some d)
    with Cons.prems show ?thesis by (intro exI [of _ "[]"]) (auto simp: find_append)
  qed
qed simp

text \<open>The files the inventory of \<open>try_new\<close> tries, in order.\<close>

definition candidates :: "('l, 'c) host_env \<Rightarrow> path_names list" where
  "candidates env = concat (map (\<lambda>p. readable_entries env (p @ [''memflow''])) (search_paths env))"

lemma concat_map_concat: "concat (map f (concat xss)) = concat (map (\<lambda>xs. concat (map f xs)) xss)"
  by (induction xss) auto

lemma try_new_connectors:
  "\<exists>ivy. try_new env = Inr ivy \<and> ci_connectors ivy = concat (map (usable env) (candidates env))"
  by (simp add: try_new_def fold_add_dir_connectors ci_empty_def candidates_def dir_connectors_def
      concat_map_concat comp_def)

lemma add_entries_ok: "fst (add_entries env es ivy) = Inr () \<longleftrightarrow> None \<notin> set es"
  by (induction env es ivy rule: add_entries.induct) auto

text \<open>
  An inventory of one directory is complete or an error: when a directory or one of its
  entries can not be read there is no inventory.
\<close>

lemma with_path_complete:
  "with_path env dir = Inr ivy \<longleftrightarrow>
     he_is_dir env dir \<and>
     (\<exists>ps. he_read_dir env dir = Some (map Some ps) \<and>
           ivy = \<lparr>ci_connectors = concat (map (usable env) ps)\<rparr>)"
proof -
  have n: "None \<notin> set es \<longleftrightarrow> (\<exists>ps. es = map Some ps)" for es :: "path_names option list"
  proof
    assume "None \<notin> set es"
    then have "es = map Some (map the es)" by (induction es) auto
    then show "\<exists>ps. es = map Some ps" by blast
  qed auto
  have e: "ivy = snd (add_entries env (map Some ps) ci_empty) \<longleftrightarrow>
      ivy = \<lparr>ci_connectors = concat (map (usable env) ps)\<rparr>" for ps
    using add_entries_connectors [of env "map Some ps" ci_empty]
    by (cases ivy; cases "snd (add_entries env (map Some ps) ci_empty)")
      (auto simp: ci_empty_def takeWhile_map comp_def takeWhile_eq_all_conv [THEN iffD2])
  have "with_path env dir = Inr ivy \<longleftrightarrow> he_is_dir env dir \<and>
      (\<exists>es. he_read_dir env dir = Some es \<and> None \<notin> set es \<and> ivy = snd (add_entries env es ci_empty))"
    unfolding with_path_def add_dir_def add_entries_ok [of env _ ci_empty, symmetric]
    by (auto split: option.splits sum.splits prod.splits)
  then show ?thesis unfolding n using e by blast
qed

text \<open>
  C25. A connector that the default inventory creates comes from the first file, in the order
  of the search path, that loads as a library with the current version and the name asked
  for, and it is what the factory of that library returns; libraries of another version are
  never asked. Without such a file the error says that there is none, and a factory that
  fails gives a connector error without the data of the library.
\<close>

theorem connector_of_first_library:
  assumes "try_new env = Inr ivy"
  shows "(case create_connector ivy name args of
      Inr inst \<Rightarrow> \<exists>before p after lib desc. candidates env = before @ p # after \<and>
        he_load env p = Some lib \<and> he_descriptor env lib = Some desc \<and> cd_version desc = 5 \<and>
        cd_name desc = name \<and> cd_factory desc args = Inr (in_instance inst) \<and> in_library inst = lib \<and>
        (\<forall>q \<in> set before. \<forall>c. cl_try_with env q = Inr c \<longrightarrow> cl_name c \<noteq> name)
    | Inl e \<Rightarrow>
        (e = Connector ''connector not found'' \<and>
           (\<forall>q \<in> set (candidates env). \<forall>c. cl_try_with env q = Inr c \<longrightarrow> cl_name c \<noteq> name)) \<or>
        (e = Connector ''Failed to create connector'' \<and>
           (\<exists>p \<in> set (candidates env). \<exists>c err. cl_try_with env p = Inr c \<and> cl_name c = name \<and>
              cl_factory c args = Inl err)))"
proof -
  let ?P = "\<lambda>c. cl_name c = name"
  have u: "find ?P (usable env q) = None \<longleftrightarrow> (\<forall>c. cl_try_with env q = Inr c \<longrightarrow> cl_name c \<noteq> name)" for q
    by (auto simp: usable_def split: sum.splits)
  have cs: "ci_connectors ivy = concat (map (usable env) (candidates env))"
    using try_new_connectors [of env] assms by simp
  show ?thesis
  proof (cases "find ?P (ci_connectors ivy)")
    case None
    then have "\<forall>q \<in> set (candidates env). find ?P (usable env q) = None"
      by (auto simp: cs find_None_iff)
    with None show ?thesis by (auto simp: create_connector_def u)
  next
    case (Some c)
    from find_concat_first [OF Some [unfolded cs]] obtain before p after where
      p: "candidates env = before @ p # after" "\<forall>q \<in> set before. find ?P (usable env q) = None"
         "find ?P (usable env p) = Some c" by blast
    from p(3) have c: "cl_try_with env p = Inr c" "cl_name c = name"
      by (auto simp: usable_def split: sum.splits if_splits)
    show ?thesis
    proof (cases "cl_factory c args")
      case (Inl err)
      with Some c p(1) show ?thesis by (auto simp: create_connector_def cl_create_def)
    next
      case (Inr i)
      from c(1) obtain lib desc where "he_load env p = Some lib" "he_descriptor env lib = Some desc"
          "cd_version desc = 5"
          "c = \<lparr>cl_library = lib, cl_name = cd_name desc, cl_factory = cd_factory desc\<rparr>"
        by (auto simp: cl_try_with_Inr MEMFLOW_CONNECTOR_VERSION_def)
      with Some Inr c(2) p(1) p(2) [unfolded u] show ?thesis
        by (simp add: create_connector_def cl_create_def) blast
    qed
  qed
qed

text \<open>A host with two libraries of the same name and one of an old version.\<close>

definition example_host :: "(nat, nat) host_env" where
  "example_host = \<lparr>
     he_is_dir = (\<lambda>p. p = [''/'', ''opt'', ''memflow''] \<or> p = [''/'', ''lib'', ''memflow'']),
     he_read_dir = (\<lambda>p. if p = [''/'', ''opt'', ''memflow'']
       then Some [Some [''old''], Some [''first''], None, Some [''lost'']] else Some [Some [''second'']]),
     he_path_var = None, he_home_dir = None,
     he_load = (\<lambda>p. if p = [''old''] then Some 0 else if p = [''first''] then Some 1 else Some 2),
     he_descriptor = (\<lambda>l. Some \<lparr>cd_version = (if l = 0 then 4 else 5), cd_name = ''qemu'',
       cd_factory = (\<lambda>_. Inr (10 + l))\<rparr>)\<rparr>"

lemma connector_of_first_library_witness:
  "\<exists>ivy inst lib desc. try_new example_host = Inr ivy \<and> create_connector ivy ''qemu'' ca_new = Inr inst \<and>
     he_descriptor example_host lib = Some desc \<and> cd_version desc = 5 \<and> in_library inst = lib"
proof -
  have e: "create_connector (projr (try_new example_host)) ''qemu'' ca_new =
      Inr \<lparr>in_instance = 11, in_library = 1\<rparr>"
    by (code_simp)
  obtain ivy where i: "try_new example_host = Inr ivy" by (simp add: try_new_def)
  from connector_of_first_library [OF i, of "''qemu''" ca_new] i e show ?thesis
    by auto
qed

end
