(* ===== verification/Iter_Adaptors.thy ===== *)
theory Iter_Adaptors
  imports Iter_Loops
begin

text \<open>
  The iterator adaptors of \<open>memflow/src/iter\<close>: the double buffered map
  (\<open>double_buffered_iterator.rs\<close>), the iterator that looks two items ahead
  (\<open>doublepeek.rs\<close>) and the collection that calls a function (\<open>void.rs\<close>). The inner iterator
  is a \<open>next\<close> function; a closure has its captured state. The lemmas give the items each
  adaptor yields.
\<close>

section \<open>The double buffered map\<close>

record ('s, 'f, 'g, 'b, 'c) double_buffered =
  db_iter :: 's
  db_fi :: 'f
  db_fo :: 'g
  db_buf :: "'b list"
  db_buf_out :: "'c list"

definition db_new :: "'s \<Rightarrow> 'f \<Rightarrow> 'g \<Rightarrow> ('s, 'f, 'g, 'b, 'c) double_buffered" where
  "db_new iter fi fo = \<lparr>db_iter = iter, db_fi = fi, db_fo = fo, db_buf = [], db_buf_out = []\<rparr>"

definition double_buffered_map :: "'s \<Rightarrow> 'f \<Rightarrow> 'g \<Rightarrow> ('s, 'f, 'g, 'b, 'c) double_buffered" where
  "double_buffered_map iter fi fo = db_new iter fi fo"

text \<open>
  The body of the \<open>while let\<close>: the early return is the \<open>break\<close>. \<open>fi\<close> and \<open>fo\<close> are the two
  closures as functions of their captured state.
\<close>

definition db_fill ::
  "('a \<Rightarrow> 'f \<Rightarrow> ((bool \<times> 'b) \<times> 'f) option) \<Rightarrow> 'a \<Rightarrow> 'f \<times> 'b list \<Rightarrow> (unit option \<times> 'f \<times> 'b list) option" where
  "db_fill fi elem = (\<lambda>(f, buf). do {
     ((more, elem), f) \<leftarrow> fi elem f;
     Some (if more then None else Some (), f, buf @ [elem])
   })"

definition db_pop_front ::
  "('s, 'f, 'g, 'b, 'c) double_buffered \<Rightarrow> 'c option \<times> ('s, 'f, 'g, 'b, 'c) double_buffered" where
  "db_pop_front d = (case db_buf_out d of [] \<Rightarrow> (None, d) | x # xs \<Rightarrow> (Some x, d\<lparr>db_buf_out := xs\<rparr>))"

definition db_next ::
  "('s \<Rightarrow> ('a option \<times> 's) option) \<Rightarrow> ('a \<Rightarrow> 'f \<Rightarrow> ((bool \<times> 'b) \<times> 'f) option)
     \<Rightarrow> ('b list \<Rightarrow> 'c list \<Rightarrow> 'g \<Rightarrow> ('b list \<times> 'c list \<times> 'g) option)
     \<Rightarrow> ('s, 'f, 'g, 'b, 'c) double_buffered
     \<Rightarrow> ('c option \<times> ('s, 'f, 'g, 'b, 'c) double_buffered) option" where
  "db_next next fi fo d =
     (if db_buf_out d = [] then do {
        (_, (f, buf), it) \<leftarrow> for_loop next (db_fill fi) (db_iter d) (db_fi d, db_buf d);
        (buf, out, g) \<leftarrow> fo buf [] (db_fo d);
        Some (db_pop_front \<lparr>db_iter = it, db_fi = f, db_fo = g, db_buf = buf, db_buf_out = out\<rparr>)
      } else Some (db_pop_front d))"

section \<open>The double peeking iterator\<close>

record ('s, 'a) double_peeking =
  dp_iter :: 's
  dp_next :: "'a option"
  dp_next2 :: "'a option"

definition dp_new :: "('s \<Rightarrow> ('a option \<times> 's) option) \<Rightarrow> 's \<Rightarrow> ('s, 'a) double_peeking option" where
  "dp_new next iter = do {
     (next1, iter) \<leftarrow> next iter;
     (next2, iter) \<leftarrow> next iter;
     Some \<lparr>dp_iter = iter, dp_next = next1, dp_next2 = next2\<rparr>
   }"

definition double_peekable :: "('s \<Rightarrow> ('a option \<times> 's) option) \<Rightarrow> 's \<Rightarrow> ('s, 'a) double_peeking option" where
  "double_peekable next iter = dp_new next iter"

definition double_peek :: "('s, 'a) double_peeking \<Rightarrow> 'a option \<times> 'a option" where
  "double_peek d = (dp_next d, dp_next2 d)"

definition is_next_last :: "('s, 'a) double_peeking \<Rightarrow> bool" where
  "is_next_last d \<longleftrightarrow> dp_next2 d = None"

definition dp_advance ::
  "('s \<Rightarrow> ('a option \<times> 's) option) \<Rightarrow> ('s, 'a) double_peeking
     \<Rightarrow> ('a option \<times> ('s, 'a) double_peeking) option" where
  "dp_advance next d = do {
     (next3, iter) \<leftarrow> next (dp_iter d);
     Some (dp_next d, \<lparr>dp_iter = iter, dp_next = dp_next2 d, dp_next2 = next3\<rparr>)
   }"

section \<open>The collection that calls a function\<close>

text \<open>\<open>extend\<close> calls the function, with its captured state, for every item.\<close>

definition fn_extend ::
  "('s \<Rightarrow> ('a option \<times> 's) option) \<Rightarrow> ('a \<Rightarrow> 'f \<Rightarrow> 'f option) \<Rightarrow> 's \<Rightarrow> 'f \<Rightarrow> 'f option" where
  "fn_extend next func iter f =
     map_option (\<lambda>(_, f, _). f)
       (for_loop next (\<lambda>x f. map_option (Pair (None :: unit option)) (func x f)) iter f)"

definition fn_void :: "'a \<Rightarrow> unit \<Rightarrow> unit option" where "fn_void _ u = Some u"

section \<open>What the adaptors yield\<close>

text \<open>
  The groups of a list of items: a group ends with the first item for which the closure says
  \<open>false\<close>; the last one may have no such item.
\<close>

fun groups :: "('a \<Rightarrow> bool \<times> 'b) \<Rightarrow> 'a list \<Rightarrow> 'b list \<Rightarrow> 'b list list" where
  "groups h [] acc = [acc]"
| "groups h (x # xs) acc =
     (case h x of (True, b) \<Rightarrow> groups h xs (acc @ [b]) | (False, b) \<Rightarrow> (acc @ [b]) # groups h xs [])"

lemma groups_ne [simp]: "groups h xs acc \<noteq> []"
  by (induction h xs acc rule: groups.induct) (auto split: bool.splits prod.splits)

text \<open>One filling of the buffer takes the first group and leaves the items after it.\<close>

lemma fill_group:
  assumes "yields next s xs s'" and "next s' = Some (None, s')"
  shows "\<exists>e s1 ys. for_loop next (db_fill (\<lambda>x f. Some (h x, f))) s (f, acc) =
      Some (e, (f, hd (groups h xs acc)), s1) \<and> yields next s1 ys s' \<and>
      tl (groups h xs acc) = (if e = None then [] else groups h ys []) \<and>
      (e = None \<longrightarrow> ys = []) \<and> (ys \<noteq> [] \<longrightarrow> length ys < length xs)"
  using assms
proof (induction xs arbitrary: s acc)
  case Nil
  then show ?case by (subst for_loop.simps) (auto simp: db_fill_def intro: exI [of _ "[]"])
next
  case (Cons x xs)
  then obtain s1 where s1: "next s = Some (Some x, s1)" "yields next s1 xs s'" by auto
  obtain more b where h: "h x = (more, b)" by (cases "h x")
  show ?case
  proof (cases more)
    case True
    have "for_loop next (db_fill (\<lambda>x f. Some (h x, f))) s (f, acc) =
        for_loop next (db_fill (\<lambda>x f. Some (h x, f))) s1 (f, acc @ [b])"
      by (subst for_loop.simps) (simp add: s1 db_fill_def h True)
    moreover obtain e s2 ys where "for_loop next (db_fill (\<lambda>x f. Some (h x, f))) s1 (f, acc @ [b]) =
          Some (e, (f, hd (groups h xs (acc @ [b]))), s2)" "yields next s2 ys s'"
        "tl (groups h xs (acc @ [b])) = (if e = None then [] else groups h ys [])"
        "e = None \<longrightarrow> ys = []" "ys \<noteq> [] \<longrightarrow> length ys < length xs"
      using Cons.IH [OF s1(2) Cons.prems(2)] by blast
    ultimately show ?thesis
      by (intro exI [of _ e] exI [of _ s2] exI [of _ ys]) (auto simp: h True)
  next
    case False
    have "for_loop next (db_fill (\<lambda>x f. Some (h x, f))) s (f, acc) = Some (Some (), (f, acc @ [b]), s1)"
      by (subst for_loop.simps) (simp add: s1 db_fill_def h False)
    with s1(2) show ?thesis by (auto simp: h False intro: exI [of _ xs])
  qed
qed

text \<open>
  A closure \<open>k\<close> turns a whole group into items and clears the buffer: the adaptor yields the
  items of the groups in order, and ends early at the first group without items, whatever
  the inner iterator still has.
\<close>

lemma db_next_yields:
  assumes k: "k [] = []" and fused: "next s' = Some (None, s')"
    and "yields next (db_iter d) xs s'" and "db_buf d = []"
  shows "\<exists>d'. yields (db_next next (\<lambda>x f. Some (h x, f)) (\<lambda>buf out g. Some ([], out @ k buf, g))) d
     (db_buf_out d @ concat (takeWhile (\<lambda>out. out \<noteq> []) (map k (groups h xs [])))) d'"
    (is "\<exists>d'. yields ?n d _ d'")
  using assms(3,4)
proof (induction xs arbitrary: d rule: length_induct)
  case (1 xs)
  note IH = "1.IH" and y = "1.prems"(1)
  have out: "\<exists>d'. yields ?n d (db_buf_out d @ items) d'"
    if "\<exists>d'. yields ?n (d\<lparr>db_buf_out := []\<rparr>) items d'" for d items
    using that
  proof (induction "db_buf_out d" arbitrary: d)
    case Nil
    then show ?case by (cases d) simp
  next
    case (Cons c cs)
    have "?n d = Some (Some c, d\<lparr>db_buf_out := cs\<rparr>)"
      using Cons.hyps(2) by (simp add: db_next_def db_pop_front_def flip: Cons.hyps(2))
    moreover have "\<exists>d'. yields ?n (d\<lparr>db_buf_out := cs\<rparr>) (cs @ items) d'"
      using Cons.hyps(1) [of "d\<lparr>db_buf_out := cs\<rparr>"] Cons.prems by simp
    ultimately obtain d' where "yields ?n d (c # cs @ items) d'" by auto
    then show ?case by (auto simp flip: Cons.hyps(2))
  qed
  let ?d = "d\<lparr>db_buf_out := []\<rparr>"
  obtain e s1 ys where f: "for_loop next (db_fill (\<lambda>x f. Some (h x, f))) (db_iter d) (db_fi d, []) =
        Some (e, (db_fi d, hd (groups h xs [])), s1)"
      "yields next s1 ys s'" "tl (groups h xs []) = (if e = None then [] else groups h ys [])"
      "e = None \<longrightarrow> ys = []" "ys \<noteq> [] \<longrightarrow> length ys < length xs"
    using fill_group [OF y fused, of h "db_fi d" "[]"] by blast
  obtain grp rest where gs: "groups h xs [] = grp # rest"
    using groups_ne by (metis neq_Nil_conv)
  note f = f [unfolded gs list.sel]
  have n: "?n ?d = Some (db_pop_front \<lparr>db_iter = s1, db_fi = db_fi d, db_fo = db_fo d, db_buf = [],
      db_buf_out = k grp\<rparr>)" (is "_ = Some (db_pop_front ?e)")
    using "1.prems"(2) by (simp add: db_next_def f(1))
  have "\<exists>d'. yields ?n ?d (concat (takeWhile (\<lambda>out. out \<noteq> []) (map k (groups h xs [])))) d'"
  proof (cases "k grp")
    case Nil
    then have "concat (takeWhile (\<lambda>out. out \<noteq> []) (map k (groups h xs []))) = []"
      by (simp add: gs)
    then have e: "concat (takeWhile (\<lambda>out. out \<noteq> []) (map k (groups h xs []))) = []" .
    show ?thesis unfolding e by (simp add: n db_pop_front_def Nil)
  next
    case (Cons c cs)
    let ?e1 = "?e\<lparr>db_buf_out := cs\<rparr>"
    have "\<exists>d'. yields ?n (?e1\<lparr>db_buf_out := []\<rparr>) (concat (takeWhile (\<lambda>out. out \<noteq> []) (map k (groups h ys [])))) d'"
    proof (cases "ys = []")
      case True
      have "next s1 = Some (None, s')" using f(2) True by simp
      then have "for_loop next (db_fill (\<lambda>x f. Some (h x, f))) s1 (db_fi d, []) = Some (None, (db_fi d, []), s')"
        by (subst for_loop.simps) simp
      then show ?thesis by (simp add: True k db_next_def db_pop_front_def)
    next
      case False
      then show ?thesis using IH [rule_format, of ys "?e1\<lparr>db_buf_out := []\<rparr>"] f(2,5) by simp
    qed
    then have "\<exists>d'. yields ?n ?e1 (cs @ concat (takeWhile (\<lambda>out. out \<noteq> []) (map k (groups h ys [])))) d'"
      using out [of ?e1] by simp
    moreover have "concat (takeWhile (\<lambda>out. out \<noteq> []) (map k (groups h xs []))) =
        c # cs @ concat (takeWhile (\<lambda>out. out \<noteq> []) (map k (groups h ys [])))"
      using f(3,4) Cons k by (auto simp: gs split: if_splits)
    ultimately show ?thesis by (simp add: n db_pop_front_def Cons)
  qed
  from out [OF this] show ?case .
qed

text \<open>
  Looking ahead changes nothing: the double peeking iterator yields the items of the inner
  one, if that stays at its end, and \<open>double_peek\<close> gives the two items that come next.
\<close>

lemma dp_advance_yields:
  assumes "next s' = Some (None, s')" and "yields next s zs s'"
  shows "\<exists>d'. yields (dp_advance next) \<lparr>dp_iter = s, dp_next = Some x, dp_next2 = Some y\<rparr> (x # y # zs) d'"
  using assms(2)
proof (induction zs arbitrary: s x y)
  case Nil
  then show ?case by (simp add: dp_advance_def assms(1))
next
  case (Cons z zs)
  then obtain s1 where s1: "next s = Some (Some z, s1)" "yields next s1 zs s'" by auto
  from Cons.IH [OF s1(2), of y z] obtain d' where
    "yields (dp_advance next) \<lparr>dp_iter = s1, dp_next = Some y, dp_next2 = Some z\<rparr> (y # z # zs) d'" by blast
  moreover have "dp_advance next \<lparr>dp_iter = s, dp_next = Some x, dp_next2 = Some y\<rparr> =
      Some (Some x, \<lparr>dp_iter = s1, dp_next = Some y, dp_next2 = Some z\<rparr>)"
    by (simp add: dp_advance_def s1)
  ultimately have "yields (dp_advance next) \<lparr>dp_iter = s, dp_next = Some x, dp_next2 = Some y\<rparr> (x # y # z # zs) d'"
    by (simp only: yields.simps) blast
  then show ?case by blast
qed

lemma double_peeking_yields:
  assumes "yields next s xs s'" and fused: "next s' = Some (None, s')"
  shows "\<exists>d. double_peekable next s = Some d \<and>
     double_peek d = (case xs of [] \<Rightarrow> (None, None) | [x] \<Rightarrow> (Some x, None) | x # y # _ \<Rightarrow> (Some x, Some y)) \<and>
     (is_next_last d \<longleftrightarrow> length xs \<le> 1) \<and> (\<exists>d'. yields (dp_advance next) d xs d')"
proof (cases xs)
  case Nil
  with assms show ?thesis
    by (simp add: double_peekable_def dp_new_def double_peek_def is_next_last_def dp_advance_def)
next
  case (Cons x ys)
  with assms(1) obtain s1 where s1: "next s = Some (Some x, s1)" "yields next s1 ys s'" by auto
  show ?thesis
  proof (cases ys)
    case Nil
    with s1 fused show ?thesis
      by (simp add: Cons double_peekable_def dp_new_def double_peek_def is_next_last_def dp_advance_def)
  next
    case (Cons y zs)
    with s1(2) obtain s2 where s2: "next s1 = Some (Some y, s2)" "yields next s2 zs s'" by auto
    show ?thesis
      using dp_advance_yields [OF fused s2(2), of x y]
      by (simp only: double_peekable_def dp_new_def s1(1) s2(1) bind.bind_lunit prod.case
          double_peek_def is_next_last_def double_peeking.simps option.inject ex_simps simp_thms)
        (auto simp: \<open>xs = x # ys\<close> Cons)
  qed
qed

text \<open>\<open>extend\<close> calls the function for the items in order.\<close>

lemma fn_extend_fold:
  assumes "yields next s xs s'"
  shows "fn_extend next (\<lambda>x f. Some (g x f)) s f = Some (fold g xs f)"
proof -
  have "each (\<lambda>x f. map_option (Pair (None :: unit option)) (Some (g x f))) xs f = Some (None, fold g xs f)"
    by (induction xs arbitrary: f) auto
  with yields_for_loop [OF assms, of "\<lambda>x f. map_option (Pair (None :: unit option)) (Some (g x f))" f]
  show ?thesis by (simp add: fn_extend_def)
qed

end
