(* ===== verification/Dummy_Memory.thy ===== *)
theory Dummy_Memory
  imports Connectors Virtual_Dma
begin

text \<open>
  The memory that the tests and benchmarks of the library run on
  (\<open>memflow/src/mem/dummy.rs\<close>): a buffer of the process as physical memory, a list of free
  pages of three sizes in a random order, and processes with page tables inside the buffer.
  The package \<open>rand\<close> and the page tables of the package \<open>x86_64\<close> are parameters. The lemmas
  say which frames the allocator hands out.
\<close>

section \<open>Pages\<close>

datatype x64_page_size = P4k | P2m | P1g

fun ps_to_size :: "x64_page_size \<Rightarrow> usize" where
  "ps_to_size P4k = kb 4"
| "ps_to_size P2m = mb 2"
| "ps_to_size P1g = gb 1"

fun ps_to_idx :: "x64_page_size \<Rightarrow> usize" where
  "ps_to_idx P4k = 0"
| "ps_to_idx P2m = 1"
| "ps_to_idx P1g = 2"

definition ps_from_idx :: "usize \<Rightarrow> x64_page_size" where
  "ps_from_idx idx = (if idx = 2 then P1g else if idx = 1 then P2m else P4k)"

record dummy_page =
  dg_addr :: address
  dg_size :: x64_page_size

definition split_to_size :: "dummy_page \<Rightarrow> x64_page_size \<Rightarrow> dummy_page list" where
  "split_to_size p new_size =
     map (\<lambda>o'. \<lparr>dg_addr = address_add (dg_addr p) (ps_to_size new_size * of_nat o'), dg_size = new_size\<rparr>)
       [0..<unat (ps_to_size (dg_size p) div ps_to_size new_size)]"

definition split_down :: "dummy_page \<Rightarrow> dummy_page list" where
  "split_down p = split_to_size p (ps_from_idx (ps_to_idx (dg_size p) - 1))"

section \<open>The memory\<close>

record 'r dummy_memory =
  dm_buf :: usize
  dm_buf_len :: usize
  dm_mem :: mapped_mut
  dm_page_list :: "dummy_page list"
  dm_pt_pages :: "dummy_page list"
  dm_last_pid :: u32
  dm_rng :: 'r

text \<open>
  A generator of random numbers. \<open>rg_range\<close> panics for an empty range, so it may have no
  value.
\<close>

record 'r rng_ops =
  rg_shuffle :: "'r \<Rightarrow> dummy_page list \<Rightarrow> dummy_page list \<times> 'r"
  rg_bool :: "'r \<Rightarrow> bool \<times> 'r"
  rg_range :: "'r \<Rightarrow> usize \<Rightarrow> usize \<Rightarrow> (usize \<times> 'r) option"

text \<open>\<open>PhysicalMemory\<close> forwards to the mapped buffer.\<close>

definition dm_read_raw_list ::
  "'r dummy_memory \<Rightarrow> phys_read_data list \<Rightarrow> (unit result \<times> u8 list list \<times> 'r dummy_memory) option" where
  "dm_read_raw_list d data =
     map_option (\<lambda>(r, bufs, m). (r, bufs, d\<lparr>dm_mem := m\<rparr>)) (mut_read_raw_list (dm_mem d) data)"

definition dm_write_raw_list ::
  "'r dummy_memory \<Rightarrow> phys_write_data list \<Rightarrow> (unit result \<times> 'r dummy_memory) option" where
  "dm_write_raw_list d data =
     map_option (\<lambda>(r, m). (r, d\<lparr>dm_mem := m\<rparr>)) (mut_write_raw_list (dm_mem d) data)"

definition dm_metadata :: "'r dummy_memory \<Rightarrow> phys_mem_metadata option" where
  "dm_metadata d = pm_metadata mut_mapped_memory (dm_mem d)"

definition dummy_phys_mem :: "'r dummy_memory phys_mem" where
  "dummy_phys_mem = \<lparr>
     pm_read_raw_list = dm_read_raw_list,
     pm_write_raw_list = dm_write_raw_list,
     pm_metadata = dm_metadata\<rparr>"

section \<open>Building the list of pages\<close>

text \<open>The largest page that fits into the rest of the memory.\<close>

definition page_at :: "address \<Rightarrow> address \<Rightarrow> dummy_page option" where
  "page_at i size_addr =
     (if address_sub_addr size_addr i \<ge> ps_to_size P1g then Some \<lparr>dg_addr = i, dg_size = P1g\<rparr>
      else if address_sub_addr size_addr i \<ge> ps_to_size P2m then Some \<lparr>dg_addr = i, dg_size = P2m\<rparr>
      else if address_sub_addr size_addr i \<ge> ps_to_size P4k then Some \<lparr>dg_addr = i, dg_size = P4k\<rparr>
      else None)"

lemma ps_to_size_values: "ps_to_size P4k = 4096" "ps_to_size P2m = 2097152" "ps_to_size P1g = 1073741824"
  by (simp_all add: size_defs)

lemma page_at_fits:
  assumes "i < size_addr" and "page_at i size_addr = Some p"
  shows "unat i + unat (ps_to_size (dg_size p)) \<le> unat size_addr" "dg_addr p = i"
    "unat (address_add i (ps_to_size (dg_size p))) = unat i + unat (ps_to_size (dg_size p))"
proof -
  have f: "ps_to_size (dg_size p) \<le> size_addr - i" and d: "dg_addr p = i"
    using assms(2) by (auto simp: page_at_def address_sub_addr_def split: if_splits)
  have "unat (size_addr - i) = unat size_addr - unat i"
    using assms(1) by (simp add: unat_sub_nowrap word_less_nat_alt)
  with f assms(1) show s: "unat i + unat (ps_to_size (dg_size p)) \<le> unat size_addr"
    by (simp add: word_le_nat_alt word_less_nat_alt)
  show "dg_addr p = i" by (fact d)
  from s unat_lt_64 [of size_addr] have "unat i + unat (ps_to_size (dg_size p)) < 18446744073709551616"
    by linarith
  then show "unat (address_add i (ps_to_size (dg_size p))) = unat i + unat (ps_to_size (dg_size p))"
    by (simp add: address_add_def unat_add_nowrap)
qed

lemma ps_to_size_pos: "0 < unat (ps_to_size s)"
  by (cases s) (simp_all add: size_defs)

function page_prelist :: "address \<Rightarrow> address \<Rightarrow> dummy_page list" where
  "page_prelist i size_addr =
     (if i < size_addr then
        (case page_at i size_addr of
           None \<Rightarrow> []
         | Some page_info \<Rightarrow>
             page_info # page_prelist (address_add i (ps_to_size (dg_size page_info))) size_addr)
      else [])"
  by pat_completeness auto

termination
proof (relation "measure (\<lambda>(i, size_addr). unat size_addr - unat i)")
  fix i size_addr :: address and p
  assume "i < size_addr" "page_at i size_addr = Some p"
  then show "((address_add i (ps_to_size (dg_size p)), size_addr), (i, size_addr))
      \<in> measure (\<lambda>(i, size_addr). unat size_addr - unat i)"
    using page_at_fits [of i size_addr p] ps_to_size_pos [of "dg_size p"]
    by (simp del: ps_to_size.simps add: word_less_nat_alt)
qed simp

declare page_prelist.simps [simp del]

text \<open>
  One page of a round: the first page of a size is split, later ones by a coin, pages of
  4 KiB never. The pieces are appended to the list.
\<close>

definition split_page ::
  "'r rng_ops \<Rightarrow> dummy_page \<Rightarrow> nat list \<times> 'r \<times> dummy_page list \<Rightarrow> nat list \<times> 'r \<times> dummy_page list" where
  "split_page rg i = (\<lambda>(split, rng, page_list).
     (let idx = unat (ps_to_idx (dg_size i));
          (down, rng) = (if split ! idx = 0 then (True, rng)
                         else if split ! idx \<noteq> 2 then rg_bool rg rng else (False, rng));
          (pages, split) = (if down then (split_down i, split[idx := max (split ! idx) 1]) else ([i], split));
          (pages, rng) = rg_shuffle rg rng pages
      in (split, rng, page_list @ pages)))"

fun page_rounds ::
  "'r rng_ops \<Rightarrow> nat \<Rightarrow> dummy_page list \<Rightarrow> nat list \<times> 'r \<times> dummy_page list \<Rightarrow> nat list \<times> 'r \<times> dummy_page list" where
  "page_rounds rg 0 prelist st = st"
| "page_rounds rg (Suc n) prelist (split, rng, page_list) =
     (let (prelist, rng) = rg_shuffle rg rng prelist;
          (split, rng, page_list) = fold (split_page rg) prelist (split, rng, page_list)
      in page_rounds rg n page_list (split, rng, page_list))"

text \<open>
  The buffer lies at an address the allocator chooses; a buffer of more than \<open>isize::MAX\<close>
  bytes panics.
\<close>

definition with_rng ::
  "'r rng_ops \<Rightarrow> usize \<Rightarrow> (nat \<Rightarrow> u8) \<Rightarrow> usize \<Rightarrow> 'r \<Rightarrow> 'r dummy_memory option" where
  "with_rng rg buf host sz rng =
     (if 0x7FFFFFFFFFFFFFFF < sz then None
      else do {
        let prelist = page_prelist 0 sz;
        let (_, rng, page_list) = page_rounds rg 2 prelist ([2, 0, 0], rng, []);
        map \<leftarrow> push_range mm_new 0 sz buf;
        mem \<leftarrow> from_addrmap_mut
          (\<lambda>p. if unat buf \<le> p \<and> p < unat buf + unat sz then 0 else host p) map;
        Some \<lparr>dm_buf = buf, dm_buf_len = sz, dm_mem = mem, dm_page_list = page_list,
              dm_pt_pages = [], dm_last_pid = 0, dm_rng = rng\<rparr>
      })"

definition dm_new ::
  "'r rng_ops \<Rightarrow> ('t \<Rightarrow> 'r) \<Rightarrow> 't \<Rightarrow> usize \<Rightarrow> (nat \<Rightarrow> u8) \<Rightarrow> usize \<Rightarrow> 'r dummy_memory option" where
  "dm_new rg from_rng thread_rng buf host sz = with_rng rg buf host sz (from_rng thread_rng)"

definition with_seed ::
  "'r rng_ops \<Rightarrow> (u64 \<Rightarrow> 'r) \<Rightarrow> usize \<Rightarrow> (nat \<Rightarrow> u8) \<Rightarrow> usize \<Rightarrow> u64 \<Rightarrow> 'r dummy_memory option" where
  "with_seed rg seed_from_u64 buf host sz seed = with_rng rg buf host sz (seed_from_u64 seed)"

section \<open>Allocating pages\<close>

definition alloc_pt_page :: "'r dummy_memory \<Rightarrow> (dummy_page \<times> 'r dummy_memory) option" where
  "alloc_pt_page d =
     (if dm_pt_pages d \<noteq> [] then Some (last (dm_pt_pages d), d\<lparr>dm_pt_pages := butlast (dm_pt_pages d)\<rparr>)
      else (case dm_page_list d of
              [] \<Rightarrow> None
            | p # ps \<Rightarrow>
                (let pages = split_to_size p P4k
                 in if pages = [] then None
                    else Some (last pages, d\<lparr>dm_page_list := ps, dm_pt_pages := butlast pages\<rparr>))))"

definition next_page_for_address :: "'r dummy_memory \<Rightarrow> address \<Rightarrow> (dummy_page \<times> 'r dummy_memory) option" where
  "next_page_for_address d addr = alloc_pt_page d"

text \<open>
  \<open>PhysAddr::new\<close> panics for an address of more than 52 bits, and
  \<open>PhysFrame::from_start_address\<close> wants a multiple of the page size.
\<close>

definition allocate_frame :: "usize \<Rightarrow> 'r dummy_memory \<Rightarrow> (address option \<times> 'r dummy_memory) option" where
  "allocate_frame page_size d = do {
     (new_page, d) \<leftarrow> alloc_pt_page d;
     if 0xFFFFFFFFFFFFF < as_u64 (dg_addr new_page) then None
     else Some (if as_u64 (dg_addr new_page) mod page_size = 0 then Some (dg_addr new_page) else None, d)
   }"

section \<open>Page tables\<close>

text \<open>
  The package \<open>x86_64\<close>: the bytes of an empty table, mapping a page below a root table with
  tables it takes from the frame allocator, and translating an address. The page tables are
  reached through the address of the buffer.
\<close>

record 'r x86_64_crate =
  xc_empty_table :: "u8 list"
  xc_map_to :: "address \<Rightarrow> x64_page_size \<Rightarrow> u64 \<Rightarrow> u64 \<Rightarrow> u64 \<Rightarrow> 'r dummy_memory
     \<Rightarrow> (bool \<times> 'r dummy_memory) option"
  xc_translate_addr :: "address \<Rightarrow> u64 \<Rightarrow> 'r dummy_memory \<Rightarrow> u64 option option"

definition vtop ::
  "'r x86_64_crate \<Rightarrow> 'r dummy_memory \<Rightarrow> address \<Rightarrow> address \<Rightarrow> address option option" where
  "vtop xc d dtb_base virt_addr =
     Option.bind (xc_translate_addr xc dtb_base (as_u64 virt_addr) d) (\<lambda>r.
       (case r of None \<Rightarrow> Some None | Some addr \<Rightarrow> Some (Some (address_from_u64 addr))))"

text \<open>Bytes written through the pointer to the buffer.\<close>

definition poke_buffer :: "address \<Rightarrow> u8 list \<Rightarrow> 'r dummy_memory \<Rightarrow> 'r dummy_memory" where
  "poke_buffer addr bytes d =
     (let start = unat (dm_buf d + as_usize addr)
      in d\<lparr>dm_mem := (dm_mem d)\<lparr>mx_host :=
            (\<lambda>p. if start \<le> p \<and> p < start + length bytes then bytes ! (p - start) else mx_host (dm_mem d) p)\<rparr>\<rparr>)"

definition unwrap_write :: "(unit result \<times> 'm) option \<Rightarrow> 'm option" where
  "unwrap_write r = Option.bind r (\<lambda>(res, m). (case res of Inr () \<Rightarrow> Some m | Inl _ \<Rightarrow> None))"

text \<open>The bytes of the test buffer that belong to the page at \<open>cur_len\<close>.\<close>

definition fill_page ::
  "dummy_page \<Rightarrow> usize \<Rightarrow> u8 list \<Rightarrow> 'r dummy_memory \<Rightarrow> 'r dummy_memory option" where
  "fill_page page_info cur_len test_buf d =
     (let n = unat (cur_len + ps_to_size (dg_size page_info));
          write = (\<lambda>bytes. map_option (\<lambda>m. d\<lparr>dm_mem := m\<rparr>)
            (unwrap_write (phys_write_raw mut_mapped_memory (dm_mem d) (pa_from_address (dg_addr page_info)) bytes)))
      in if n \<le> length test_buf
         then (if unat cur_len \<le> n then write (take (n - unat cur_len) (drop (unat cur_len) test_buf)) else None)
         else if unat cur_len < length test_buf then write (drop (unat cur_len) test_buf)
         else Some d)"

partial_function (option) map_pages ::
  "'r x86_64_crate \<Rightarrow> address \<Rightarrow> address \<Rightarrow> usize \<Rightarrow> u8 list \<Rightarrow> usize \<Rightarrow> 'r dummy_memory \<Rightarrow> 'r dummy_memory option" where
  "map_pages xc dtb virt_base map_size test_buf cur_len d =
     (if cur_len < map_size
      then Option.bind (next_page_for_address d (address_from_usize cur_len)) (\<lambda>r.
        Option.bind (fill_page (fst r) cur_len test_buf (snd r)) (\<lambda>d.
        Option.bind (xc_map_to xc dtb (dg_size (fst r)) (as_u64 (address_add virt_base cur_len))
            (as_u64 (dg_addr (fst r))) 3 d) (\<lambda>q.
        map_pages xc dtb virt_base map_size test_buf (cur_len + ps_to_size (dg_size (fst r))) (snd q))))
      else Some d)"

declare map_pages.simps [code]

definition alloc_dtb_const_base ::
  "'r x86_64_crate \<Rightarrow> 'r dummy_memory \<Rightarrow> address \<Rightarrow> usize \<Rightarrow> u8 list \<Rightarrow> (address \<times> 'r dummy_memory) option" where
  "alloc_dtb_const_base xc d virt_base map_size test_buf = do {
     (dtb, d) \<leftarrow> alloc_pt_page d;
     d \<leftarrow> map_pages xc (dg_addr dtb) virt_base map_size test_buf 0
            (poke_buffer (dg_addr dtb) (xc_empty_table xc) d);
     Some (dg_addr dtb, d)
   }"

definition alloc_dtb ::
  "'r rng_ops \<Rightarrow> 'r x86_64_crate \<Rightarrow> 'r dummy_memory \<Rightarrow> usize \<Rightarrow> u8 list
     \<Rightarrow> ((address \<times> address) \<times> 'r dummy_memory) option" where
  "alloc_dtb rg xc d map_size test_buf = do {
     (r, rng) \<leftarrow> rg_range rg (dm_rng d) 0x000100000000 (shr64 (shl64 (NOT 0) 20) 20);
     virt_base \<leftarrow> as_page_aligned (address_add address_null r) (gb 2);
     (dtb, d) \<leftarrow> alloc_dtb_const_base xc (d\<lparr>dm_rng := rng\<rparr>) virt_base map_size test_buf;
     Some ((dtb, virt_base), d)
   }"

section \<open>Processes\<close>

record dummy_process =
  dp_address :: address
  dp_map_size :: usize
  dp_pid :: u32
  dp_dtb :: address

record dummy_module =
  dmod_base :: address
  dmod_size :: usize

definition alloc_process ::
  "'r rng_ops \<Rightarrow> 'r x86_64_crate \<Rightarrow> 'r dummy_memory \<Rightarrow> usize \<Rightarrow> u8 list
     \<Rightarrow> (dummy_process \<times> 'r dummy_memory) option" where
  "alloc_process rg xc d map_size test_buf = do {
     ((dtb, address), d) \<leftarrow> alloc_dtb rg xc d map_size test_buf;
     let d = d\<lparr>dm_last_pid := dm_last_pid d + 1\<rparr>;
     Some (\<lparr>dp_address = address, dp_map_size = map_size, dp_pid = dm_last_pid d, dp_dtb = dtb\<rparr>, d)
   }"

definition dp_translator :: "dummy_process \<Rightarrow> x86_scoped_translate" where
  "dp_translator p = xst_new x64_spec (dp_dtb p)"

definition dp_get_address :: "dummy_process \<Rightarrow> address" where "dp_get_address p = dp_address p"
definition dp_get_pid :: "dummy_process \<Rightarrow> u32" where "dp_get_pid p = dp_pid p"
definition dp_name :: "dummy_process \<Rightarrow> string" where "dp_name p = ''Dummy''"
definition dp_sys_arch :: "dummy_process \<Rightarrow> architecture_obj" where "dp_sys_arch p = X64_ARCH"
definition dp_proc_arch :: "dummy_process \<Rightarrow> architecture_obj" where "dp_proc_arch p = X64_ARCH"

text \<open>The numbers come from the generator of the thread.\<close>

definition dp_get_module ::
  "'t rng_ops \<Rightarrow> 't \<Rightarrow> dummy_process \<Rightarrow> usize \<Rightarrow> (dummy_module \<times> 't) option" where
  "dp_get_module rg rng p min_size = do {
     (b, rng) \<leftarrow> rg_range rg rng 0 (dp_map_size p div 2);
     (s, rng) \<leftarrow> rg_range rg rng min_size (dp_map_size p);
     Some (\<lparr>dmod_base = address_add (dp_address p) b, dmod_size = s div 2\<rparr>, rng)
   }"

definition dmod_address :: "dummy_module \<Rightarrow> address" where "dmod_address m = ADDRESS_INVALID"
definition dmod_parent_process :: "dummy_module \<Rightarrow> address" where "dmod_parent_process m = ADDRESS_INVALID"
definition dmod_get_base :: "dummy_module \<Rightarrow> address" where "dmod_get_base m = dmod_base m"
definition dmod_get_size :: "dummy_module \<Rightarrow> usize" where "dmod_get_size m = dmod_size m"
definition dmod_name :: "dummy_module \<Rightarrow> string" where "dmod_name m = ''dummy.so''"

definition new_and_dtb ::
  "'r rng_ops \<Rightarrow> 'r x86_64_crate \<Rightarrow> ('t \<Rightarrow> 'r) \<Rightarrow> 't \<Rightarrow> usize \<Rightarrow> (nat \<Rightarrow> u8) \<Rightarrow> usize \<Rightarrow> usize \<Rightarrow> u8 list
     \<Rightarrow> ('r dummy_memory \<times> address \<times> address) option" where
  "new_and_dtb rg xc from_rng thread_rng buf host sz virt_size buffer = do {
     ret \<leftarrow> dm_new rg from_rng thread_rng buf host sz;
     ((dtb, virt_base), ret) \<leftarrow> alloc_dtb rg xc ret virt_size buffer;
     Some (ret, dtb, virt_base)
   }"

definition new_virt ::
  "'r rng_ops \<Rightarrow> 'r x86_64_crate \<Rightarrow> ('t \<Rightarrow> 'r) \<Rightarrow> 't \<Rightarrow> usize \<Rightarrow> (nat \<Rightarrow> u8) \<Rightarrow> usize \<Rightarrow> usize \<Rightarrow> u8 list
     \<Rightarrow> (('r dummy_memory, unit, x86_scoped_translate) virtual_dma \<times> address) option" where
  "new_virt rg xc from_rng thread_rng buf host sz virt_size buffer = do {
     (ret, dtb, virt_base) \<leftarrow> new_and_dtb rg xc from_rng thread_rng buf host sz virt_size buffer;
     Some (vd_new ret x64_spec (xst_new x64_spec dtb), virt_base)
   }"

section \<open>The frames of the free pages\<close>

text \<open>The 4 KiB frames of a page, as natural numbers, and pages that lie inside the memory.\<close>

definition page_frames :: "dummy_page \<Rightarrow> nat list" where
  "page_frames p = map (\<lambda>k. unat (dg_addr p) + 4096 * k) [0..<unat (ps_to_size (dg_size p)) div 4096]"

definition page_inside :: "nat \<Rightarrow> dummy_page \<Rightarrow> bool" where
  "page_inside n p \<longleftrightarrow> unat (dg_addr p) + unat (ps_to_size (dg_size p)) \<le> n"

definition list_frames :: "dummy_page list \<Rightarrow> nat list" where
  "list_frames ps = concat (map page_frames ps)"

lemma list_frames_simps [simp]:
  "list_frames [] = []" "list_frames (p # ps) = page_frames p @ list_frames ps"
  "list_frames (ps @ qs) = list_frames ps @ list_frames qs"
  by (simp_all add: list_frames_def)

lemma list_frames_mset: "mset (list_frames ps) = \<Sum>\<^sub># (image_mset (\<lambda>p. mset (page_frames p)) (mset ps))"
  by (induction ps) auto

lemma list_frames_perm: "mset ps = mset qs \<Longrightarrow> mset (list_frames ps) = mset (list_frames qs)"
  by (simp add: list_frames_mset)

lemma concat_blocks:
  "concat (map (\<lambda>o'. map (\<lambda>k. f (m * o' + k)) [0..<m]) [0..<q]) = map f [0..<m * q]"
proof (induction q)
  case (Suc q)
  have "[0..<m * Suc q] = [0..<m * q] @ [m * q..<m * q + m]"
    using upt_add_eq_append [of 0 "m * q" m] by (simp only: mult_Suc_right add.commute [of m])
  then have "map f [0..<m * Suc q] = map f [0..<m * q] @ map f [m * q..<m * q + m]"
    by (simp only: map_append)
  moreover have "map f [m * q..<m * q + m] = map (\<lambda>k. f (m * q + k)) [0..<m]"
    by (rule nth_equalityI) auto
  ultimately show ?case using Suc.IH by simp
qed simp

text \<open>Splitting a page into a smaller size keeps its frames in order.\<close>

lemma ps_to_size_divides:
  "unat (ps_to_size a) = 4096 * (if a = P4k then 1 else if a = P2m then 512 else 262144)"
  by (cases a) (simp_all add: size_defs)

lemma split_to_size_frames:
  assumes "unat (ps_to_size s) \<le> unat (ps_to_size (dg_size p))"
    and "page_inside n p" and "n < 18446744073709551616"
  shows "list_frames (split_to_size p s) = page_frames p" "\<forall>q \<in> set (split_to_size p s). page_inside n q"
proof -
  define c where "c = unat (ps_to_size s) div 4096"
  define q where "q = unat (ps_to_size (dg_size p) div ps_to_size s)"
  have cs: "unat (ps_to_size s) = 4096 * c"
    unfolding c_def ps_to_size_divides by simp
  have cq: "unat (ps_to_size (dg_size p)) = 4096 * (c * q)"
    using assms(1) unfolding c_def q_def
    by (cases s; cases "dg_size p") (simp_all add: size_defs unat_div)
  have a: "unat (address_add (dg_addr p) (ps_to_size s * of_nat o')) = unat (dg_addr p) + 4096 * (c * o')"
    and i: "unat (dg_addr p) + 4096 * (c * o') + 4096 * c \<le> n" if "o' < q" for o'
  proof -
    have "c * o' + c \<le> c * q"
      using mult_le_mono2 [of "Suc o'" q c] that by simp
    then show l: "unat (dg_addr p) + 4096 * (c * o') + 4096 * c \<le> n"
      using assms(2) cq by (simp add: page_inside_def)
    have "unat (ps_to_size s * of_nat o') = 4096 * (c * o')"
    proof -
      have "ps_to_size s * of_nat o' = of_nat (4096 * (c * o'))"
        using cs by (metis mult.assoc of_nat_mult word_of_nat_unat)
      then show ?thesis using l assms(3) by (simp only: unat_of_nat_64)
    qed
    then show "unat (address_add (dg_addr p) (ps_to_size s * of_nat o')) = unat (dg_addr p) + 4096 * (c * o')"
      using l assms(3) by (simp add: address_add_def unat_add_nowrap)
  qed
  have "list_frames (split_to_size p s) =
      concat (map (\<lambda>o'. map (\<lambda>k. unat (dg_addr p) + 4096 * (c * o' + k)) [0..<c]) [0..<q])"
    unfolding list_frames_def split_to_size_def map_map q_def [symmetric]
    by (intro arg_cong [of _ _ concat] map_cong refl)
      (auto simp: page_frames_def cs a algebra_simps)
  also have "\<dots> = map (\<lambda>k. unat (dg_addr p) + 4096 * k) [0..<c * q]"
    by (rule concat_blocks)
  also have "\<dots> = page_frames p"
    by (simp add: page_frames_def cq)
  finally show "list_frames (split_to_size p s) = page_frames p" .
  show "\<forall>q \<in> set (split_to_size p s). page_inside n q"
    unfolding split_to_size_def q_def [symmetric] by (auto simp: page_inside_def a cs i)
qed

lemma split_down_le: "unat (ps_to_size (ps_from_idx (ps_to_idx a - 1))) \<le> unat (ps_to_size a)"
  by (cases a) (simp_all add: ps_from_idx_def size_defs)

text \<open>The first list of pages covers the memory, but for less than 4 KiB at its end.\<close>

lemma page_prelist_frames:
  "i \<le> sz \<Longrightarrow> 4096 dvd unat i \<Longrightarrow>
     list_frames (page_prelist i sz) = map (\<lambda>k. 4096 * k) [unat i div 4096..<unat sz div 4096] \<and>
     (\<forall>p \<in> set (page_prelist i sz). page_inside (unat sz) p)"
proof (induction i sz rule: page_prelist.induct)
  case (1 i sz)
  show ?case
  proof (cases "i < sz")
    case False
    with "1.prems" show ?thesis by (subst (1 2) page_prelist.simps) (simp add: word_less_nat_alt word_le_nat_alt div_le_mono)
  next
    case i: True
    show ?thesis
    proof (cases "page_at i sz")
      case None
      then have "unat (sz - i) < 4096"
        by (auto simp: page_at_def address_sub_addr_def size_defs word_le_nat_alt split: if_splits)
      with i have "unat sz < unat i + 4096"
        by (simp add: unat_sub_nowrap word_less_nat_alt)
      with "1.prems"(2) have "unat sz div 4096 \<le> unat i div 4096" by (auto elim!: dvdE)
      with None i show ?thesis by (subst (1 2) page_prelist.simps) simp
    next
      case (Some p)
      note f = page_at_fits [OF i Some]
      let ?j = "address_add i (ps_to_size (dg_size p))"
      obtain m where m: "unat (ps_to_size (dg_size p)) = 4096 * m" "0 < m"
        using ps_to_size_divides [of "dg_size p"] by (auto split: if_splits)
      have j: "?j \<le> sz" "4096 dvd unat ?j"
        using f(1,3) "1.prems"(2) m by (simp_all add: word_le_nat_alt)
      from "1.prems"(2) obtain b where b: "unat i = 4096 * b" by (auto elim: dvdE)
      have le: "b + m \<le> unat sz div 4096" using f(1) m b by simp
      have "page_frames p = map (\<lambda>k. 4096 * k) [b..<b + m]"
        unfolding page_frames_def f(2) m(1) b by (rule nth_equalityI) auto
      moreover have "[b..<unat sz div 4096] = [b..<b + m] @ [b + m..<unat sz div 4096]"
        using upt_add_eq_append [of b "b + m" "unat sz div 4096 - (b + m)"] le by simp
      moreover have "unat ?j div 4096 = b + m" using f(3) m b by simp
      ultimately show ?thesis
        using "1.IH" [OF i Some j] f(1,2) i Some
        by (subst (1 2) page_prelist.simps) (simp add: page_inside_def b)
    qed
  qed
qed

text \<open>A round appends pages with the frames of the pages it goes through.\<close>

definition shuffles :: "'r rng_ops \<Rightarrow> bool" where
  "shuffles rg \<longleftrightarrow> (\<forall>r ps. mset (fst (rg_shuffle rg r ps)) = mset ps)"

definition same_frames :: "nat \<Rightarrow> dummy_page list \<Rightarrow> dummy_page list \<Rightarrow> bool" where
  "same_frames n ps qs \<longleftrightarrow>
     mset (list_frames ps) = mset (list_frames qs) \<and> (\<forall>p \<in> set ps. page_inside n p)"

lemma same_frames_shuffle:
  assumes "shuffles rg" and "\<forall>p \<in> set ps. page_inside n p"
  shows "same_frames n (fst (rg_shuffle rg r ps)) ps"
proof -
  have m: "mset (fst (rg_shuffle rg r ps)) = mset ps"
    using assms(1) by (simp add: shuffles_def)
  from list_frames_perm [OF m] mset_eq_setD [OF m] assms(2) show ?thesis
    by (simp add: same_frames_def)
qed

lemma split_page_appends:
  assumes "shuffles rg" and "page_inside n i" and "n < 18446744073709551616"
  shows "\<exists>pages. snd (snd (split_page rg i st)) = snd (snd st) @ pages \<and> same_frames n pages [i]"
proof -
  obtain sp r pl where st: "st = (sp, r, pl)" by (cases st)
  have "\<exists>pages r. snd (snd (split_page rg i st)) = pl @ fst (rg_shuffle rg r pages) \<and>
      (pages = split_down i \<or> pages = [i])"
    by (auto simp: st split_page_def Let_def split: prod.splits if_splits) (metis fst_conv)+
  then obtain pages r where p: "snd (snd (split_page rg i st)) = pl @ fst (rg_shuffle rg r pages)"
    "pages = split_down i \<or> pages = [i]" by blast
  have s: "same_frames n pages [i]"
    using p(2) split_to_size_frames [OF split_down_le assms(2,3)] assms(2)
    by (auto simp: same_frames_def split_down_def)
  then have "same_frames n (fst (rg_shuffle rg r pages)) [i]"
    using same_frames_shuffle [OF assms(1), of pages n r] by (simp add: same_frames_def)
  with p(1) st show ?thesis by auto
qed

lemma fold_split_page:
  assumes "shuffles rg" and "n < 18446744073709551616" and "\<forall>p \<in> set ps. page_inside n p"
  shows "\<exists>pages. snd (snd (fold (split_page rg) ps st)) = snd (snd st) @ pages \<and> same_frames n pages ps"
  using assms(3)
proof (induction ps arbitrary: st)
  case (Cons p ps)
  obtain as where as: "snd (snd (split_page rg p st)) = snd (snd st) @ as" "same_frames n as [p]"
    using split_page_appends [OF assms(1) _ assms(2), of p st] Cons.prems by (auto simp del: split_paired_Ex)
  obtain bs where "snd (snd (fold (split_page rg) ps (split_page rg p st))) =
      snd (snd (split_page rg p st)) @ bs" "same_frames n bs ps"
    using Cons.IH [of "split_page rg p st"] Cons.prems by (auto simp del: split_paired_Ex)
  with as show ?case by (intro exI [of _ "as @ bs"]) (auto simp: same_frames_def)
qed (simp add: same_frames_def)

lemma page_round:
  assumes "shuffles rg" and "n < 18446744073709551616" and "\<forall>p \<in> set ps. page_inside n p"
  shows "\<exists>st' pages. page_rounds rg (Suc m) ps st = page_rounds rg m (snd (snd st')) st' \<and>
     snd (snd st') = snd (snd st) @ pages \<and> same_frames n pages ps"
proof -
  obtain sp r pl where st: "st = (sp, r, pl)" by (cases st)
  obtain qs r' where q: "rg_shuffle rg r ps = (qs, r')" by (cases "rg_shuffle rg r ps")
  have s: "same_frames n qs ps"
    using same_frames_shuffle [OF assms(1,3), of r] by (simp add: q)
  obtain sp' r'' pl' where f: "fold (split_page rg) qs (sp, r', pl) = (sp', r'', pl')"
    by (cases "fold (split_page rg) qs (sp, r', pl)")
  obtain pages where "pl' = pl @ pages" "same_frames n pages qs"
    using fold_split_page [OF assms(1,2), of qs "(sp, r', pl)"] s by (auto simp: f same_frames_def)
  with s show ?thesis
    by (intro exI [of _ "(sp', r'', pl')"] exI [of _ pages]) (simp add: st q f same_frames_def)
qed

text \<open>
  After the two rounds the list has every frame twice: the second round appends to the list
  of the first.
\<close>

lemma with_rng_pages:
  assumes "shuffles rg" and "with_rng rg buf host sz rng = Some d"
  shows "\<exists>as bs. dm_page_list d = as @ bs \<and> dm_pt_pages d = [] \<and>
    mset (list_frames as) = mset (map (\<lambda>k. 4096 * k) [0..<unat sz div 4096]) \<and>
    mset (list_frames bs) = mset (map (\<lambda>k. 4096 * k) [0..<unat sz div 4096]) \<and>
    (\<forall>p \<in> set as \<union> set bs. page_inside (unat sz) p)"
proof -
  let ?F = "map (\<lambda>k. 4096 * k) [0..<unat sz div 4096]"
  let ?p = "page_prelist 0 sz" and ?n = "unat sz"
  have n: "?n < 18446744073709551616" by simp
  have p: "list_frames ?p = ?F" "\<forall>q \<in> set ?p. page_inside ?n q"
    using page_prelist_frames [of 0 sz] by simp_all
  obtain st as where a: "page_rounds rg 2 ?p ([2, 0, 0], rng, []) = page_rounds rg 1 (snd (snd st)) st"
      "snd (snd st) = as" "same_frames ?n as ?p"
    using page_round [OF assms(1) n p(2), of 1 "([2, 0, 0], rng, [])"] by (auto simp: numeral_2_eq_2)
  have ai: "\<forall>q \<in> set as. page_inside ?n q"
    using a(3) by (simp add: same_frames_def)
  obtain st' bs where "page_rounds rg (Suc 0) as st = page_rounds rg 0 (snd (snd st')) st'"
      "snd (snd st') = snd (snd st) @ bs" and b: "same_frames ?n bs as"
    using page_round [OF assms(1) n ai] by blast
  then have b': "snd (snd (page_rounds rg 1 as st)) = as @ bs"
    by (cases st') (simp add: a(2))
  have "dm_page_list d = snd (snd (page_rounds rg 2 ?p ([2, 0, 0], rng, []))) \<and> dm_pt_pages d = []"
    using assms(2) by (auto simp: with_rng_def Let_def split: if_splits prod.splits Option.bind_splits)
  then have "dm_page_list d = as @ bs" "dm_pt_pages d = []"
    using a(1,2) b' by simp_all
  with a(3) b p(1) ai show ?thesis
    by (intro exI [of _ as] exI [of _ bs]) (auto simp: same_frames_def)
qed

section \<open>The frames the allocator hands out\<close>

fun alloc_pages :: "nat \<Rightarrow> 'r dummy_memory \<Rightarrow> (dummy_page list \<times> 'r dummy_memory) option" where
  "alloc_pages 0 d = Some ([], d)"
| "alloc_pages (Suc n) d = do {
     (p, d) \<leftarrow> alloc_pt_page d;
     (ps, d) \<leftarrow> alloc_pages n d;
     Some (p # ps, d)
   }"

text \<open>The frames still to be handed out, in order.\<close>

definition frames_left :: "'r dummy_memory \<Rightarrow> nat list" where
  "frames_left d = rev (list_frames (dm_pt_pages d)) @ concat (map (rev \<circ> page_frames) (dm_page_list d))"

definition allocator_ok :: "nat \<Rightarrow> 'r dummy_memory \<Rightarrow> bool" where
  "allocator_ok n d \<longleftrightarrow> (\<forall>p \<in> set (dm_pt_pages d). dg_size p = P4k) \<and>
     (\<forall>p \<in> set (dm_page_list d) \<union> set (dm_pt_pages d). page_inside n p)"

lemma page_frames_P4k: "dg_size p = P4k \<Longrightarrow> page_frames p = [unat (dg_addr p)]"
  by (simp add: page_frames_def ps_to_size_values del: ps_to_size.simps)

lemma page_frames_ne: "page_frames p \<noteq> []"
  using ps_to_size_divides [of "dg_size p"] by (auto simp: page_frames_def)

lemma split_to_size_P4k:
  "\<forall>q \<in> set (split_to_size p s). dg_size q = s"
  by (auto simp: split_to_size_def)

lemma last_page_frame:
  assumes "ps \<noteq> []" and "\<forall>p \<in> set ps. dg_size p = P4k"
  shows "rev (list_frames ps) = unat (dg_addr (last ps)) # rev (list_frames (butlast ps))"
proof -
  have "list_frames ps = list_frames (butlast ps) @ page_frames (last ps)"
    using append_butlast_last_id [OF assms(1)] by (metis append_Nil2 list_frames_simps)
  with assms show ?thesis by (simp add: page_frames_P4k)
qed

text \<open>An allocation takes the next frame, and panics when there is none.\<close>

lemma alloc_takes_next:
  assumes "allocator_ok n d" and "n < 18446744073709551616"
  shows "(case frames_left d of
      [] \<Rightarrow> alloc_pt_page d = None
    | f # fs \<Rightarrow> \<exists>p d'. alloc_pt_page d = Some (p, d') \<and> unat (dg_addr p) = f \<and> dg_size p = P4k \<and>
        page_inside n p \<and> frames_left d' = fs \<and> allocator_ok n d')"
proof (cases "dm_pt_pages d = []")
  case False
  let ?d = "d\<lparr>dm_pt_pages := butlast (dm_pt_pages d)\<rparr>"
  have "frames_left d = unat (dg_addr (last (dm_pt_pages d))) # frames_left ?d"
    using last_page_frame [OF False] assms(1) by (simp add: frames_left_def allocator_ok_def)
  moreover have "allocator_ok n ?d"
    using assms(1) by (auto simp: allocator_ok_def dest: in_set_butlastD)
  ultimately show ?thesis
    using False assms(1) by (simp add: alloc_pt_page_def allocator_ok_def)
next
  case True
  show ?thesis
  proof (cases "dm_page_list d")
    case Nil
    with True show ?thesis by (simp add: frames_left_def alloc_pt_page_def)
  next
    case (Cons p ps)
    let ?qs = "split_to_size p P4k"
    let ?d = "d\<lparr>dm_page_list := ps, dm_pt_pages := butlast ?qs\<rparr>"
    have le: "unat (ps_to_size P4k) \<le> unat (ps_to_size (dg_size p))"
      by (cases "dg_size p") (simp_all add: size_defs)
    have i: "page_inside n p" using assms(1) Cons by (simp add: allocator_ok_def)
    note s = split_to_size_frames [OF le i assms(2)]
    have ne: "?qs \<noteq> []" using s(1) page_frames_ne [of p] by auto
    note l = last_page_frame [OF ne split_to_size_P4k]
    have "frames_left d = unat (dg_addr (last ?qs)) # frames_left ?d"
      using l s(1) by (simp add: frames_left_def True Cons)
    moreover have "allocator_ok n ?d"
      using assms(1) Cons s(2) split_to_size_P4k [of p P4k]
      by (auto simp: allocator_ok_def dest: in_set_butlastD)
    ultimately show ?thesis
      using ne s(2) split_to_size_P4k [of p P4k] by (simp add: alloc_pt_page_def True Cons Let_def)
  qed
qed

lemma alloc_pages_take:
  assumes "allocator_ok m d" and "m < 18446744073709551616"
  shows "n \<le> length (frames_left d) \<Longrightarrow> \<exists>ps d'. alloc_pages n d = Some (ps, d') \<and>
     map (\<lambda>p. unat (dg_addr p)) ps = take n (frames_left d) \<and>
     (\<forall>p \<in> set ps. dg_size p = P4k \<and> page_inside m p)"
    and "length (frames_left d) < n \<Longrightarrow> alloc_pages n d = None"
  using assms(1)
proof (induction n arbitrary: d)
  case (Suc n)
  {
    case 1
    then obtain f fs where f: "frames_left d = f # fs" by (cases "frames_left d") auto
    with alloc_takes_next [OF 1(2) assms(2)] obtain p d' where
      d: "alloc_pt_page d = Some (p, d')" "unat (dg_addr p) = f" "dg_size p = P4k" "page_inside m p"
        "frames_left d' = fs" "allocator_ok m d'" by auto
    with Suc.IH(1) [OF _ d(6)] 1(1) f show ?case by fastforce
  next
    case 2
    show ?case
    proof (cases "frames_left d")
      case Nil
      with alloc_takes_next [OF 2(2) assms(2)] show ?thesis by simp
    next
      case (Cons f fs)
      with alloc_takes_next [OF 2(2) assms(2)] obtain p d' where
        d: "alloc_pt_page d = Some (p, d')" "frames_left d' = fs" "allocator_ok m d'" by auto
      with Suc.IH(2) [OF _ d(3)] 2(1) Cons show ?thesis by simp
    qed
  }
qed auto

lemma with_rng_returns:
  assumes "sz \<le> 0x7FFFFFFFFFFFFFFF"
  shows "\<exists>d. with_rng rg buf host sz rng = Some d"
proof -
  obtain map where m: "push_range mm_new 0 sz buf = Some map" "map = [] \<or> (\<exists>x. map = [x])"
    by (cases "0 < sz") (auto simp: push_range_def push_remap_def mm_push_def mm_new_def)
  then have "\<exists>m. from_addrmap_mut h map = Some m" for h
    by (auto simp: from_addrmap_mut_def mm_into_iter_def mm_new_def mm_push_def split: prod.splits)
  then obtain mem where "from_addrmap_mut
      (\<lambda>p. if unat buf \<le> p \<and> p < unat buf + unat sz then 0 else host p) map = Some mem"
    by blast
  with assms m(1) show ?thesis
    by (auto simp: with_rng_def Let_def split: prod.splits)
qed

lemma rev_page_frames_mset: "mset (concat (map (rev \<circ> page_frames) ps)) = mset (list_frames ps)"
  by (induction ps) auto

text \<open>The frames a new memory hands out: twice all of them.\<close>

lemma with_rng_frames:
  assumes "shuffles rg" and "with_rng rg buf host sz rng = Some d"
  shows "\<exists>us vs. frames_left d = us @ vs \<and> length us = unat sz div 4096 \<and>
    length vs = unat sz div 4096 \<and> distinct us \<and> distinct vs \<and>
    set us = (\<lambda>k. 4096 * k) ` {0..<unat sz div 4096} \<and> set vs = set us \<and> allocator_ok (unat sz) d"
proof -
  let ?F = "map (\<lambda>k. 4096 * k) [0..<unat sz div 4096]"
  obtain as bs where d: "dm_page_list d = as @ bs" "dm_pt_pages d = []"
      "mset (list_frames as) = mset ?F" "mset (list_frames bs) = mset ?F"
      "\<forall>p \<in> set as \<union> set bs. page_inside (unat sz) p"
    using with_rng_pages [OF assms] by blast
  have e: "length xs = unat sz div 4096 \<and> distinct xs \<and> set xs = (\<lambda>k. 4096 * k) ` {0..<unat sz div 4096}"
    if "mset xs = mset ?F" for xs
    using that mset_eq_setD [OF that] mset_eq_length [OF that] mset_eq_imp_distinct_iff [OF that]
    by (simp add: distinct_map inj_on_def)
  let ?us = "concat (map (rev \<circ> page_frames) as)" and ?vs = "concat (map (rev \<circ> page_frames) bs)"
  have "mset ?us = mset ?F" "mset ?vs = mset ?F"
    using d(3,4) by (simp_all only: rev_page_frames_mset)
  from e [OF this(1)] e [OF this(2)] d show ?thesis
    by (intro exI [of _ ?us] exI [of _ ?vs]) (simp add: frames_left_def allocator_ok_def)
qed

text \<open>
  C24. Until the memory is used up, the allocator of the dummy memory hands out different
  frames: for a shuffle that permutes, whatever the coins say, as many allocations as the
  memory has whole frames succeed, and give distinct aligned frames inside the memory.
\<close>

theorem dummy_frames_distinct:
  assumes "shuffles rg" and "with_rng rg buf host sz rng = Some d" and "n \<le> unat sz div 4096"
  shows "\<exists>ps d'. alloc_pages n d = Some (ps, d') \<and> length ps = n \<and>
    distinct (map (\<lambda>p. unat (dg_addr p)) ps) \<and>
    (\<forall>p \<in> set ps. dg_size p = P4k \<and> 4096 dvd unat (dg_addr p) \<and> unat (dg_addr p) + 4096 \<le> unat sz)"
proof -
  obtain us vs where f: "frames_left d = us @ vs" "length us = unat sz div 4096" "distinct us"
      "set us = (\<lambda>k. 4096 * k) ` {0..<unat sz div 4096}" and ok: "allocator_ok (unat sz) d"
    using with_rng_frames [OF assms(1,2)] by blast
  have "n \<le> length (frames_left d)" using f(1,2) assms(3) by simp
  from alloc_pages_take(1) [OF ok unat_lt_64 this] obtain ps d' where
    a: "alloc_pages n d = Some (ps, d')" "map (\<lambda>p. unat (dg_addr p)) ps = take n us"
      "\<forall>p \<in> set ps. dg_size p = P4k \<and> page_inside (unat sz) p"
    using f(1,2) assms(3) by auto
  have "4096 dvd unat (dg_addr p)" if "p \<in> set ps" for p
  proof -
    have "unat (dg_addr p) \<in> set us"
      using that arg_cong [OF a(2), of set] by (auto dest: in_set_takeD)
    then show ?thesis using f(4) by auto
  qed
  moreover have "length ps = n"
    using arg_cong [OF a(2), of length] f(2) assms(3) by simp
  ultimately show ?thesis
    using a f(3,4) by (auto simp: page_inside_def ps_to_size_values simp del: ps_to_size.simps)
qed

text \<open>
  C27. The free list has every frame twice, because the second round of splitting appends to
  the list of the first: once the memory is used up, the allocator goes on and hands out
  every frame a second time, and panics only after that.
\<close>

theorem dummy_frames_handed_out_twice:
  assumes "shuffles rg" and "with_rng rg buf host sz rng = Some d"
  shows "\<exists>first again d'. alloc_pages (2 * (unat sz div 4096)) d = Some (first @ again, d') \<and>
    length first = unat sz div 4096 \<and> length again = unat sz div 4096 \<and>
    (\<lambda>p. unat (dg_addr p)) ` set first = (\<lambda>k. 4096 * k) ` {0..<unat sz div 4096} \<and>
    (\<lambda>p. unat (dg_addr p)) ` set again = (\<lambda>p. unat (dg_addr p)) ` set first \<and>
    alloc_pages (Suc (2 * (unat sz div 4096))) d = None"
proof -
  let ?n = "unat sz div 4096"
  obtain us vs where f: "frames_left d = us @ vs" "length us = ?n" "length vs = ?n"
      "set us = (\<lambda>k. 4096 * k) ` {0..<?n}" "set vs = set us" and ok: "allocator_ok (unat sz) d"
    using with_rng_frames [OF assms] by blast
  have l: "length (frames_left d) = 2 * ?n" using f(1-3) by simp
  obtain ps d' where a: "alloc_pages (2 * ?n) d = Some (ps, d')" "map (\<lambda>p. unat (dg_addr p)) ps = us @ vs"
    using alloc_pages_take(1) [OF ok unat_lt_64, of "2 * ?n"] l f(1) by auto
  have t: "map (\<lambda>p. unat (dg_addr p)) (take ?n ps) = us" "map (\<lambda>p. unat (dg_addr p)) (drop ?n ps) = vs"
    using a(2) f(2) by (simp_all flip: take_map drop_map)
  have "(\<lambda>p. unat (dg_addr p)) ` set (take ?n ps) = set us"
       "(\<lambda>p. unat (dg_addr p)) ` set (drop ?n ps) = set vs"
    using t by (metis set_map)+
  moreover have "alloc_pages (Suc (2 * ?n)) d = None"
    using alloc_pages_take(2) [OF ok unat_lt_64, of "Suc (2 * ?n)"] l by (simp del: alloc_pages.simps)
  moreover have "length (take ?n ps) = ?n" "length (drop ?n ps) = ?n"
    using t f(2,3) by (metis length_map)+
  ultimately show ?thesis
    using a(1) f(4,5) by (intro exI [of _ "take ?n ps"] exI [of _ "drop ?n ps"] exI [of _ d']) simp
qed

text \<open>A generator that reverses and always splits.\<close>

definition example_rng :: "nat rng_ops" where
  "example_rng = \<lparr>rg_shuffle = (\<lambda>r ps. (rev ps, r + 1)), rg_bool = (\<lambda>r. (even r, r + 1)),
     rg_range = (\<lambda>r a b. if a < b then Some (a, r + 1) else None)\<rparr>"

lemma example_shuffles: "shuffles example_rng"
  by (simp add: shuffles_def example_rng_def)

lemma dummy_frames_distinct_witness:
  "\<exists>d ps d'. with_rng example_rng 0x10000 (\<lambda>_. 0) 0x401800 7 = Some d \<and> alloc_pages 1025 d = Some (ps, d') \<and>
     distinct (map (\<lambda>p. unat (dg_addr p)) ps)"
proof -
  obtain d where d: "with_rng example_rng 0x10000 (\<lambda>_. 0) 0x401800 7 = Some d"
    using with_rng_returns [of "0x401800" example_rng "0x10000" "\<lambda>_. 0" 7] by auto
  from dummy_frames_distinct [OF example_shuffles d, of 1025] d show ?thesis by auto
qed

lemma dummy_frames_handed_out_twice_witness:
  "\<exists>d ps d'. with_rng example_rng 0x10000 (\<lambda>_. 0) 0x401800 7 = Some d \<and> alloc_pages 2050 d = Some (ps, d') \<and>
     alloc_pages 2051 d = None"
proof -
  obtain d where d: "with_rng example_rng 0x10000 (\<lambda>_. 0) 0x401800 7 = Some d"
    using with_rng_returns [of "0x401800" example_rng "0x10000" "\<lambda>_. 0" 7] by auto
  from dummy_frames_handed_out_twice [OF example_shuffles d] d show ?thesis by auto
qed

text \<open>
  The module of a process: for a generator that stays in its range the module lies inside
  the mapped part when that does not wrap, and a smallest size at the mapped size panics.
\<close>

lemma dummy_module_inside:
  assumes "\<And>r lo hi. case rg_range rg r lo hi of Some (x, _) \<Rightarrow> lo \<le> x \<and> x < hi | None \<Rightarrow> hi \<le> lo"
    and "unat (dp_address p) + unat (dp_map_size p) < 18446744073709551616"
  shows "case dp_get_module rg r p min_size of
      Some (m, _) \<Rightarrow> dp_address p \<le> dmod_base m \<and>
        unat (dmod_base m) + unat (dmod_size m) < unat (dp_address p) + unat (dp_map_size p)
    | None \<Rightarrow> dp_map_size p < 2 \<or> dp_map_size p \<le> min_size"
proof -
  let ?n = "dp_map_size p"
  have h: "unat (?n div 2) = unat ?n div 2" by (simp add: unat_div)
  show ?thesis
  proof (cases "rg_range rg r 0 (?n div 2)")
    case None
    with assms(1) [where r = r and lo = 0 and hi = "?n div 2"] have "unat ?n div 2 = 0"
      by (simp add: word_le_nat_alt h)
    then have "?n < 2" by (simp add: word_less_nat_alt)
    with None show ?thesis by (simp add: dp_get_module_def)
  next
    case (Some q)
    obtain b r1 where q: "q = (b, r1)" by (cases q)
    have b: "unat b < unat ?n div 2"
      using assms(1) [where r = r and lo = 0 and hi = "?n div 2"] Some q by (simp add: word_less_nat_alt h)
    show ?thesis
    proof (cases "rg_range rg r1 min_size ?n")
      case None
      with assms(1) [where r = r1 and lo = min_size and hi = "?n"] Some q show ?thesis by (simp add: dp_get_module_def)
    next
      case (Some q')
      obtain s r2 where q': "q' = (s, r2)" by (cases q')
      have s: "unat s < unat ?n"
        using assms(1) [where r = r1 and lo = min_size and hi = "?n"] Some q' by (simp add: word_less_nat_alt)
      have "unat (dp_address p + b) = unat (dp_address p) + unat b"
        using b assms(2) by (intro unat_add_nowrap) linarith
      moreover have "unat (s div 2) = unat s div 2" by (simp add: unat_div)
      ultimately show ?thesis
        using \<open>rg_range rg r 0 (?n div 2) = Some q\<close> q Some q' b s
        by (simp add: dp_get_module_def address_add_def word_le_nat_alt)
    qed
  qed
qed

end
