(* ===== verification/Default_Caches.thy ===== *)
theory Default_Caches
  imports Win32_Builder Memory_Maps
begin

text \<open>
  The parts put together the way \<open>build_default_caches\<close> of \<open>win32/kernel_builder.rs\<close> does: a
  page cache over a connector, and a translation cache in front of the page walk over that
  page cache. Both caches start empty, so the contracts of the two caches compose, and what
  is translated and read is what the connector holds.
\<close>

section \<open>The caches the builder makes\<close>

context clock_law
begin

lemma timed_contract: "cache_validator (timed_ops ck) (\<lambda>_. True) (\<lambda>v. length (tv_time v))"
  by (rule timed.cache_validator_axioms)

end

text \<open>The state of the two caches: their contracts, for the bytes and the tables behind them.\<close>

definition caches_ok ::
  "('k, 'i, 'd) clock \<Rightarrow> ('m \<Rightarrow> bool) \<Rightarrow> ('m \<Rightarrow> u64 \<Rightarrow> u8 option) \<Rightarrow> (u64 \<Rightarrow> u8 option) \<Rightarrow> x86_architecture \<Rightarrow> address
     \<Rightarrow> ('m, ('k, 'i, 'd) timed_validator) cached_memory_access \<Rightarrow> (unit, ('k, 'i, 'd) timed_validator) cached_vat \<Rightarrow> bool" where
  "caches_ok ck mem_ok content C arch dtb cm vat \<longleftrightarrow>
     cm_ok (\<lambda>_. True) (\<lambda>v. length (tv_time v)) mem_ok content cm \<and> content (cm_mem cm) = C \<and>
     cvat_arch vat = arch \<and>
     tlb_run (timed_ops ck) (\<lambda>_. True) arch 0x1000 (\<lambda>_. walk_phys arch C dtb) (cvat_tlb vat)"

lemma default_caches_ok:
  assumes "clock_law ck" and "mem_ok connector" and arch: "arch \<in> x86_archs"
    and "default_page_cache ck k connector arch = Some cm" and "default_vat_cache ck k' () arch = Some vat"
  shows "caches_ok ck mem_ok content (content connector) arch dtb cm vat"
proof -
  note val = clock_law.timed_contract [OF assms(1)]
  obtain cache where c: "pc_with_page_size (timed_ops ck) 0x1000 (mb 2) (PT_PAGE_TABLE OR PT_READ_ONLY) (timed_default ck k)
      = Some cache" "cm = cm_new connector cache"
    using assms(4) x86_page_size [OF arch]
    by (auto simp: default_page_cache_def cmb_with_arch_def cm_builder_def cmb_new_def cmb_build_def unwrap_def
        split: Option.bind_splits)
  have "cache_ok (\<lambda>_. True) (\<lambda>v. length (tv_time v)) (content connector) cache []"
    by (rule cache_validator.fresh_cache_ok [OF val TrueI c(1)]) (simp_all add: size_defs)
  then have "cm_ok (\<lambda>_. True) (\<lambda>v. length (tv_time v)) mem_ok content cm \<and> content (cm_mem cm) = content connector"
    using assms(2) by (simp add: cm_ok_def c(2) cm_new_def)
  moreover have "vat = cached_vat_new () (tlb_new (timed_ops ck) 2048 (timed_default ck k')) arch"
    using assms(5) by (simp add: default_vat_cache_def cvb_build_def cvb_with_arch_def cached_vat_builder_def
        cvb_new_def unwrap_def)
  then have "cvat_arch vat = arch" "cvat_tlb vat = tlb_new (timed_ops ck) 2048 (timed_default ck k')"
    by (simp_all add: cached_vat_new_def)
  moreover have "tlb_run (timed_ops ck) (\<lambda>_. True) arch 0x1000 (\<lambda>_. walk_phys arch (content connector) dtb)
      (tlb_new (timed_ops ck) 2048 (timed_default ck k'))"
    by (rule tlb_run.start) simp_all
  ultimately show ?thesis by (simp add: caches_ok_def)
qed

lemma default_caches_exist:
  assumes "arch \<in> x86_archs"
  shows "\<exists>cm vat. default_page_cache ck k connector arch = Some cm \<and> default_vat_cache ck k' () arch = Some vat"
  using x86_page_size [OF assms]
  by (auto simp: default_page_cache_def cmb_with_arch_def cm_builder_def cmb_new_def cmb_build_def unwrap_def
      pc_with_page_size_def layout_ok_def size_defs Let_def
      default_vat_cache_def cvb_build_def cvb_with_arch_def cached_vat_builder_def cvb_new_def)

section \<open>Many translations\<close>

text \<open>The translations of a list of addresses, one after the other, through the caches.\<close>

fun translate_all ::
  "('c \<Rightarrow> 'm \<Rightarrow> address \<Rightarrow> (phys_addr result \<times> 'c \<times> 'm) option) \<Rightarrow> address list \<Rightarrow> 'c \<Rightarrow> 'm
     \<Rightarrow> (phys_addr result list \<times> 'c \<times> 'm) option" where
  "translate_all tr [] vat m = Some ([], vat, m)"
| "translate_all tr (v # vs) vat m = do {
     (r, vat, m) \<leftarrow> tr vat m v;
     (rs, vat, m) \<leftarrow> translate_all tr vs vat m;
     Some (r # rs, vat, m)
   }"

text \<open>\<open>virt_to_phys\<close> through the translation cache, over the page cache.\<close>

definition stacked_virt_to_phys where
  "stacked_virt_to_phys ck cap cap' tm pm arch dtb =
     cached_virt_to_phys (timed_ops ck)
       (direct_vat cap (pair_ops usize_ops) tm (cached_memory (timed_ops ck) pm) (xst_new arch dtb))
       (direct_vat cap' usize_ops tm (cached_memory (timed_ops ck) pm) (xst_new arch dtb))
       (translation_table_id (xst_new arch dtb))"

definition walk_result_ok :: "x86_architecture \<Rightarrow> (u64 \<Rightarrow> u8 option) \<Rightarrow> address \<Rightarrow> address \<Rightarrow> phys_addr result \<Rightarrow> bool" where
  "walk_result_ok arch C dtb v r \<longleftrightarrow>
     (case r of Inr pa \<Rightarrow> walk_phys arch C dtb v = Some (pa_address pa)
      | Inl e \<Rightarrow> walk_phys arch C dtb v = None \<and> e = VirtualTranslate)"

lemma translate_one:
  assumes "clock_law ck" and "matching_memory pm mem_ok content" and "arch \<in> x86_archs"
    and "caches_ok ck mem_ok content C arch dtb cm vat"
    and "unat v < 18446744073709551615" and "walk (x86_mmu arch) C dtb v \<noteq> Walk_Unmapped"
  shows "\<exists>r vat' cm'. stacked_virt_to_phys ck cap cap' tm pm arch dtb vat cm v = Some (r, vat', cm') \<and>
     walk_result_ok arch C dtb v r \<and> caches_ok ck mem_ok content C arch dtb cm' vat'"
proof -
  note val = clock_law.timed_contract [OF assms(1)]
  note stack = cache_validator.cached_matching [OF val assms(2)]
  have c: "cm_ok (\<lambda>_. True) (\<lambda>v. length (tv_time v)) mem_ok content cm" "content (cm_mem cm) = C" "cvat_arch vat = arch"
    "tlb_run (timed_ops ck) (\<lambda>_. True) (cvat_arch vat) 0x1000 (\<lambda>_. walk_phys (cvat_arch vat) (content (cm_mem cm)) dtb)
      (cvat_tlb vat)"
    using assms(4) by (simp_all add: caches_ok_def)
  have a: "cvat_arch vat \<in> {x64_spec, x32_spec, x32_pae_spec}"
    using assms(3) by (simp add: c(3) x86_archs_def)
  have w: "walk (x86_mmu (cvat_arch vat)) (content (cm_mem cm)) dtb v \<noteq> Walk_Unmapped"
    using assms(6) by (simp add: c(2,3))
  show ?thesis
    using cached_virt_run [OF val stack c(1) a c(4) assms(5) w, of cap tm cap'] c(2,3)
    by (auto simp: stacked_virt_to_phys_def walk_result_ok_def caches_ok_def)
qed

lemma translate_many:
  assumes "clock_law ck" and "matching_memory pm mem_ok content" and "arch \<in> x86_archs"
    and "caches_ok ck mem_ok content C arch dtb cm vat"
    and "\<forall>v \<in> set vs. unat v < 18446744073709551615 \<and> walk (x86_mmu arch) C dtb v \<noteq> Walk_Unmapped"
  shows "\<exists>rs vat' cm'. translate_all (stacked_virt_to_phys ck cap cap' tm pm arch dtb) vs vat cm = Some (rs, vat', cm') \<and>
     list_all2 (walk_result_ok arch C dtb) vs rs \<and> caches_ok ck mem_ok content C arch dtb cm' vat'"
  using assms(4,5)
proof (induction vs arbitrary: cm vat)
  case (Cons v vs)
  obtain r vat1 cm1 where one: "stacked_virt_to_phys ck cap cap' tm pm arch dtb vat cm v = Some (r, vat1, cm1)"
    "walk_result_ok arch C dtb v r" "caches_ok ck mem_ok content C arch dtb cm1 vat1"
    using translate_one [OF assms(1-3) Cons.prems(1), of v cap cap' tm] Cons.prems(2) by auto
  with Cons.IH [OF one(3)] Cons.prems(2) show ?case by fastforce
qed simp

section \<open>Properties\<close>

text \<open>
  C10. The caches that the Windows layer puts in front of a connector by default are
  transparent. With a clock whose durations are consistent, over any connector that answers
  with its bytes, on the three x86 modes: the default page cache and translation cache are
  built. For any list of addresses, none of them the last one and each with a walk that stays
  inside backed tables, translating them through both caches, one after the other and with
  any of them repeated, gives for each the physical address of the page walk over the
  connector, or the translation error where the walk faults. And a virtual read through the
  page cache in the state this leaves, of one buffer that is not empty, at most half as long
  as the virtual address range, does not wrap and whose walks stay inside backed tables and
  end at aligned large pages, has at every address the byte of the connector that the walk
  leads to (nothing is said of a frame without memory), or is reported as partial, with a
  zero for every byte that is missing.
\<close>

theorem default_caches_are_walk:
  assumes "clock_law ck" and "matching_memory pm mem_ok content" and "mem_ok connector"
    and "arch \<in> {x64_spec, x32_spec, x32_pae_spec}"
    and "\<forall>v \<in> set vs. unat v < 18446744073709551615 \<and>
       walk (x86_mmu arch) (content connector) dtb v \<noteq> Walk_Unmapped"
    and "walkable arch (content connector) dtb a (length buf)"
  shows "\<exists>cm vat rs vat' cm' r buf' cm''.
     default_page_cache ck k connector arch = Some cm \<and> default_vat_cache ck k' () arch = Some vat \<and>
     translate_all (stacked_virt_to_phys ck cap cap' tm pm arch dtb) vs vat cm = Some (rs, vat', cm') \<and>
     list_all2 (walk_result_ok arch (content connector) dtb) vs rs \<and>
     vd_read_raw_list
       (direct_ops capm caps capr capo tm' (cached_memory (timed_ops ck) pm)) (cached_memory (timed_ops ck) pm)
       (vd_new cm' arch (xst_new arch dtb)) [(a, buf)] =
         Some (r, [buf'], vd_new cm'' arch (xst_new arch dtb)) \<and>
     length buf' = length buf \<and>
     (r = Inr () \<and> (\<forall>j < length buf. virt_holds arch (content connector) dtb (a + of_nat j) (buf' ! j)) \<or>
      r = Inl (PartialVirtualRead ()) \<and> (\<forall>j < length buf.
         virt_holds arch (content connector) dtb (a + of_nat j) (buf' ! j) \<or> buf' ! j = 0))"
proof -
  have arch: "arch \<in> x86_archs" using assms(4) by (simp add: x86_archs_def)
  note stack = cache_validator.cached_matching [OF clock_law.timed_contract [OF assms(1)] assms(2)]
  obtain cm vat where built: "default_page_cache ck k connector arch = Some cm"
      "default_vat_cache ck k' () arch = Some vat"
    using default_caches_exist [OF arch, where ck = ck and k = k and connector = connector and k' = k'] by blast
  note ok = default_caches_ok [where mem_ok = mem_ok and content = content and dtb = dtb, OF assms(1,3) arch built]
  obtain rs vat' cm' where run:
      "translate_all (stacked_virt_to_phys ck cap cap' tm pm arch dtb) vs vat cm = Some (rs, vat', cm')"
      "list_all2 (walk_result_ok arch (content connector) dtb) vs rs"
      "caches_ok ck mem_ok content (content connector) arch dtb cm' vat'"
    using translate_many [OF assms(1,2) arch ok assms(5)] by blast
  let ?vd = "vd_new cm' arch (xst_new arch dtb)"
  have vd: "vd_phys_mem ?vd = cm'" "vd_translator ?vd = xst_new arch dtb"
    "?vd\<lparr>vd_phys_mem := m\<rparr> = vd_new m arch (xst_new arch dtb)" for m
    by (simp_all add: vd_new_def)
  have c: "cm_ok (\<lambda>_. True) (\<lambda>v. length (tv_time v)) mem_ok content (vd_phys_mem ?vd)"
    "content (cm_mem (vd_phys_mem ?vd)) = content connector"
    using run(3) by (simp_all add: caches_ok_def vd(1))
  have "walkable arch (content (cm_mem (vd_phys_mem ?vd))) dtb a (length buf)"
    using assms(6) by (simp only: c(2))
  from dma_read_one [OF stack c(1) arch vd(2) this, where capm = capm and caps = caps and capr = capr
      and capo = capo and tm = tm']
  show ?thesis
    unfolding c(2) vd(3) using built run(1,2) by blast
qed

lemma default_caches_are_walk_witness:
  "\<exists>cm vat rs vat' cm'.
     default_page_cache tick_clock 0 (example_tables 0xB0) x64_spec = Some cm \<and>
     default_vat_cache tick_clock 5 () x64_spec = Some vat \<and>
     translate_all (stacked_virt_to_phys tick_clock (\<lambda>_. 0) (\<lambda>_. 0) list_tree_map reference_memory x64_spec 0x1000)
       [0x1234, 0x1FFF, 0x1234] vat cm = Some (rs, vat', cm') \<and>
     list_all2 (walk_result_ok x64_spec (example_tables 0xB0) 0x1000) [0x1234, 0x1FFF, 0x1234] rs"
proof -
  have m: "\<forall>v \<in> set [0x1234, 0x1FFF, 0x1234]. unat v < 18446744073709551615 \<and>
      walk (x86_mmu x64_spec) (example_tables 0xB0) 0x1000 v \<noteq> Walk_Unmapped"
    using example_mapped by simp
  have r: "walkable x64_spec (example_tables 0xB0) 0x1000 0x1FFF (length [7 :: u8, 7])"
    using readable_part [OF example_readable [of "0x2000"], of "0xFFF" 2] by (simp add: numeral_2_eq_2 readable_range_def)
  from default_caches_are_walk [where connector = "example_tables 0xB0" and content = "\<lambda>m. m",
      OF tick.clock_law_axioms reference.matching_memory_axioms TrueI _ m r,
      where k = 0 and k' = 5 and cap = "\<lambda>_. 0" and cap' = "\<lambda>_. 0" and tm = list_tree_map and
        capm = "\<lambda>_. 0" and caps = "\<lambda>_. 0" and capr = "\<lambda>_. 0" and capo = "\<lambda>_. 0" and tm' = list_tree_map]
  show ?thesis by blast
qed

end
