(* ===== verification/C_Interface.thy ===== *)
theory C_Interface
  imports Memory_Maps Connector_Inventory
begin

text \<open>
  The functions the crate \<open>memflow-ffi\<close> exports to C: memory, processes, connectors and
  architectures. A pointer to a buffer is the list of its values, which the function returns
  written; a pointer to a new object is \<open>Some\<close> of it and the null pointer \<open>None\<close>, below the
  \<open>None\<close> of a panic where the function can panic. Text has been decoded from C before.
\<close>

type_synonym i32 = "32 word"

section \<open>\<open>util.rs\<close>\<close>

definition inspect_err :: "'e \<Rightarrow> 'e" where "inspect_err e = e"

definition to_heap :: "'a \<Rightarrow> 'a" where "to_heap a = a"

definition int_result :: "'e + 'a \<Rightarrow> i32" where
  "int_result r = (case r of Inr _ \<Rightarrow> 0 | Inl _ \<Rightarrow> - 1)"

definition int_result_logged :: "'e + 'a \<Rightarrow> i32" where
  "int_result_logged r = (case r of Inl e \<Rightarrow> - 1 | Inr _ \<Rightarrow> 0)"

text \<open>\<open>.map_err(inspect_err).ok()\<close>, and with \<open>.map(to_heap)\<close> after it.\<close>

definition inspect_ok :: "'e + 'a \<Rightarrow> 'a option" where
  "inspect_ok r = (case map_sum inspect_err id r of Inl _ \<Rightarrow> None | Inr a \<Rightarrow> Some a)"

definition heap_or_null :: "'e + 'a \<Rightarrow> 'a option" where
  "heap_or_null r = map_option to_heap (inspect_ok r)"

text \<open>\<open>unwrap_or_default\<close> of a number.\<close>

definition value_or_zero :: "'e + 'a::zero \<Rightarrow> 'a" where
  "value_or_zero r = (case r of Inl _ \<Rightarrow> 0 | Inr a \<Rightarrow> a)"

lemma heap_or_null_simps [simp]:
  "heap_or_null (Inl e) = None" "heap_or_null (Inr a) = Some a"
  "inspect_ok (Inl e) = None" "inspect_ok (Inr a) = Some a"
  by (simp_all add: heap_or_null_def inspect_ok_def to_heap_def)

section \<open>Logging\<close>

datatype log_level = Level_Error | Level_Warn | Level_Info | Level_Debug | Level_Trace

definition log_level_of :: "i32 \<Rightarrow> log_level" where
  "log_level_of n =
     (if n = 0 then Level_Error else if n = 1 then Level_Warn else if n = 2 then Level_Info
      else if n = 3 then Level_Debug else if n = 4 then Level_Trace else Level_Trace)"

section \<open>Physical memory\<close>

definition c_phys_read_raw_list ::
  "'m phys_mem \<Rightarrow> 'm \<Rightarrow> phys_read_data list \<Rightarrow> (i32 \<times> u8 list list \<times> 'm) option" where
  "c_phys_read_raw_list pm m data =
     map_option (\<lambda>(r, bufs, m). (int_result r, bufs, m)) (pm_read_raw_list pm m data)"

definition c_phys_write_raw_list :: "'m phys_mem \<Rightarrow> 'm \<Rightarrow> phys_write_data list \<Rightarrow> (i32 \<times> 'm) option" where
  "c_phys_write_raw_list pm m data = map_option (map_prod int_result id) (pm_write_raw_list pm m data)"

definition c_phys_metadata :: "'m phys_mem \<Rightarrow> 'm \<Rightarrow> phys_mem_metadata option" where
  "c_phys_metadata pm m = pm_metadata pm m"

definition c_phys_read_raw ::
  "'m phys_mem \<Rightarrow> 'm \<Rightarrow> phys_addr \<Rightarrow> u8 list \<Rightarrow> (i32 \<times> u8 list \<times> 'm) option" where
  "c_phys_read_raw pm m addr out =
     map_option (\<lambda>(r, out, m). (int_result r, out, m)) (phys_read_raw_into pm m addr out)"

text \<open>\<open>uninit\<close> are at least eight uninitialised bytes a value is read over.\<close>

definition c_phys_read_u32 :: "'m phys_mem \<Rightarrow> 'm \<Rightarrow> u8 list \<Rightarrow> phys_addr \<Rightarrow> (u32 \<times> 'm) option" where
  "c_phys_read_u32 pm m uninit addr =
     map_option (\<lambda>(r, m). (value_or_zero (map_sum id from_le_bytes r), m)) (phys_read pm m (take 4 uninit) addr)"

definition c_phys_read_u64 :: "'m phys_mem \<Rightarrow> 'm \<Rightarrow> u8 list \<Rightarrow> phys_addr \<Rightarrow> (u64 \<times> 'm) option" where
  "c_phys_read_u64 pm m uninit addr =
     map_option (\<lambda>(r, m). (value_or_zero (map_sum id from_le_bytes r), m)) (phys_read pm m (take 8 uninit) addr)"

definition c_phys_write_raw :: "'m phys_mem \<Rightarrow> 'm \<Rightarrow> phys_addr \<Rightarrow> u8 list \<Rightarrow> (i32 \<times> 'm) option" where
  "c_phys_write_raw pm m addr input = map_option (map_prod int_result id) (phys_write_raw pm m addr input)"

definition c_phys_write_u32 :: "'m phys_mem \<Rightarrow> 'm \<Rightarrow> phys_addr \<Rightarrow> u32 \<Rightarrow> (i32 \<times> 'm) option" where
  "c_phys_write_u32 pm m addr val = map_option (map_prod int_result id) (phys_write pm m addr (to_le_bytes val))"

definition c_phys_write_u64 :: "'m phys_mem \<Rightarrow> 'm \<Rightarrow> phys_addr \<Rightarrow> u64 \<Rightarrow> (i32 \<times> 'm) option" where
  "c_phys_write_u64 pm m addr val = map_option (map_prod int_result id) (phys_write pm m addr (to_le_bytes val))"

section \<open>Virtual memory\<close>

definition c_virt_read_raw_list ::
  "'v virt_mem \<Rightarrow> 'v \<Rightarrow> virt_read_data list \<Rightarrow> (i32 \<times> u8 list list \<times> 'v) option" where
  "c_virt_read_raw_list vm s data =
     map_option (\<lambda>(r, bufs, s). (int_result (pr_data_part r), bufs, s)) (vm_read_raw_list vm s data)"

definition c_virt_write_raw_list :: "'v virt_mem \<Rightarrow> 'v \<Rightarrow> virt_write_data list \<Rightarrow> (i32 \<times> 'v) option" where
  "c_virt_write_raw_list vm s data =
     map_option (\<lambda>(r, s). (int_result (pr_data_part r), s)) (vm_write_raw_list vm s data)"

definition c_virt_read_raw_into ::
  "'v virt_mem \<Rightarrow> 'v \<Rightarrow> address \<Rightarrow> u8 list \<Rightarrow> (i32 \<times> u8 list \<times> 'v) option" where
  "c_virt_read_raw_into vm s addr out =
     map_option (\<lambda>(r, out, s). (int_result (pr_data_part r), out, s)) (virt_read_raw_into vm s addr out)"

definition c_virt_read_u32 :: "'v virt_mem \<Rightarrow> 'v \<Rightarrow> u8 list \<Rightarrow> address \<Rightarrow> (u32 \<times> 'v) option" where
  "c_virt_read_u32 vm s uninit addr =
     map_option (\<lambda>(r, s). (value_or_zero (map_sum id from_le_bytes r), s)) (virt_read vm s (take 4 uninit) addr)"

definition c_virt_read_u64 :: "'v virt_mem \<Rightarrow> 'v \<Rightarrow> u8 list \<Rightarrow> address \<Rightarrow> (u64 \<times> 'v) option" where
  "c_virt_read_u64 vm s uninit addr =
     map_option (\<lambda>(r, s). (value_or_zero (map_sum id from_le_bytes r), s)) (virt_read vm s (take 8 uninit) addr)"

definition c_virt_write_raw :: "'v virt_mem \<Rightarrow> 'v \<Rightarrow> address \<Rightarrow> u8 list \<Rightarrow> (i32 \<times> 'v) option" where
  "c_virt_write_raw vm s addr input =
     map_option (\<lambda>(r, s). (int_result (pr_data_part r), s)) (virt_write_raw vm s addr input)"

definition c_virt_write_u32 :: "'v virt_mem \<Rightarrow> 'v \<Rightarrow> address \<Rightarrow> u32 \<Rightarrow> (i32 \<times> 'v) option" where
  "c_virt_write_u32 vm s addr val =
     map_option (\<lambda>(r, s). (int_result (pr_data_part r), s)) (virt_write vm s addr (to_le_bytes val))"

definition c_virt_write_u64 :: "'v virt_mem \<Rightarrow> 'v \<Rightarrow> address \<Rightarrow> u64 \<Rightarrow> (i32 \<times> 'v) option" where
  "c_virt_write_u64 vm s addr val =
     map_option (\<lambda>(r, s). (int_result (pr_data_part r), s)) (virt_write vm s addr (to_le_bytes val))"

section \<open>Processes and modules\<close>

text \<open>
  The accessors of a process or a module call those of the trait object, whose implementations
  are in \<open>Win32_Process\<close>. A name is copied into a buffer of \<open>max_len\<close> bytes: the slice taken
  of the buffer, the copy, and the zero in its last byte. An index below zero panics.
\<close>

definition copy_name :: "u8 list \<Rightarrow> u8 list \<Rightarrow> usize \<Rightarrow> (usize \<times> u8 list) option" where
  "copy_name name_bytes out max_len =
     (let n = min (unat max_len) (length name_bytes + 1);
          out_bytes = take n out in
      if n = 0 then None
      else
        let out_bytes = take (n - 1) name_bytes @ drop (n - 1) out_bytes;
            out_bytes = out_bytes[n - 1 := 0]
        in Some (of_nat n, out_bytes @ drop n out))"

definition c_process_name :: "('o \<Rightarrow> u8 list) \<Rightarrow> 'o \<Rightarrow> u8 list \<Rightarrow> usize \<Rightarrow> (usize \<times> u8 list) option" where
  "c_process_name name obj out max_len = copy_name (name obj) out max_len"

definition c_module_name :: "('o \<Rightarrow> u8 list) \<Rightarrow> 'o \<Rightarrow> u8 list \<Rightarrow> usize \<Rightarrow> (usize \<times> u8 list) option" where
  "c_module_name name obj out max_len = copy_name (name obj) out max_len"

section \<open>Architectures\<close>

definition c_arch_bits :: "x86_architecture \<Rightarrow> u8" where "c_arch_bits arch = arch_bits arch"
definition c_arch_endianess :: "x86_architecture \<Rightarrow> endianess" where "c_arch_endianess arch = arch_endianess arch"
definition c_page_size :: "x86_architecture \<Rightarrow> usize option" where "c_page_size arch = arch_page_size arch"
definition c_arch_size_addr :: "x86_architecture \<Rightarrow> usize" where "c_arch_size_addr arch = arch_size_addr arch"

definition c_arch_address_space_bits :: "x86_architecture \<Rightarrow> u8" where
  "c_arch_address_space_bits arch = arch_address_space_bits arch"

definition X86_32 :: architecture_obj where "X86_32 = X32_ARCH"
definition X86_32_PAE :: architecture_obj where "X86_32_PAE = X32_PAE_ARCH"
definition X86_64 :: architecture_obj where "X86_64 = X64_ARCH"

definition c_is_x86_arch :: "architecture_obj \<Rightarrow> bool" where "c_is_x86_arch arch = is_x86_arch arch"

section \<open>Connectors\<close>

definition inventory_try_new :: "('l, 'c) host_env \<Rightarrow> ('l, 'c) inventory option" where
  "inventory_try_new env = heap_or_null (try_new env)"

definition inventory_with_path :: "('l, 'c) host_env \<Rightarrow> path_names \<Rightarrow> ('l, 'c) inventory option" where
  "inventory_with_path env path = heap_or_null (with_path env path)"

definition inventory_add_dir :: "('l, 'c) host_env \<Rightarrow> ('l, 'c) inventory \<Rightarrow> path_names \<Rightarrow> i32 \<times> ('l, 'c) inventory" where
  "inventory_add_dir env ivy dir = map_prod int_result_logged id (add_dir env dir ivy)"

text \<open>\<open>args\<close> is \<open>None\<close> for the null pointer.\<close>

definition inventory_create_connector ::
  "('l, 'c) inventory \<Rightarrow> string \<Rightarrow> string option \<Rightarrow> ('l, 'c) connector_instance option" where
  "inventory_create_connector ivy name args =
     (case args of
        None \<Rightarrow> map_option to_heap (heap_or_null (create_connector_default ivy name))
      | Some args \<Rightarrow> do {
          conn_args \<leftarrow> inspect_ok (ca_parse args);
          map_option to_heap (heap_or_null (create_connector ivy name conn_args))
        })"

section \<open>What a caller sees\<close>

text \<open>
  The name a C program reads back is the process name up to its first zero, cut to the
  buffer; the bytes behind the returned length keep their values. A buffer of no bytes
  panics.
\<close>

lemma copy_name_step:
  assumes "n = min (unat max_len) (length s + 1)" and "0 < n" and "n \<le> length out"
  shows "copy_name s out max_len = Some (of_nat n, take (n - 1) s @ 0 # drop n out)"
proof -
  obtain k where k: "n = Suc k" using assms(2) by (cases n) auto
  have l: "length (take k s) = k" using assms(1) k by simp
  have d: "drop k (take (Suc k) out) = [out ! k]"
    using assms(3) k by (simp add: take_Suc_conv_app_nth)
  have "(take k s @ drop k (take (Suc k) out))[k := 0] = take k s @ [0]"
    unfolding d by (simp only: list_update_append l less_irrefl if_False diff_self_eq_0 list_update_code)
  then show ?thesis
    unfolding copy_name_def Let_def assms(1) [symmetric] k by simp
qed

lemma copy_name_empty: "copy_name s out 0 = None"
  by (simp add: copy_name_def)

lemma copy_name_read_back:
  assumes "unat max_len \<le> length out" and "0 < max_len"
  shows "\<exists>n out'. copy_name s out max_len = Some (n, out') \<and> n \<le> max_len \<and> length out' = length out \<and>
     takeWhile (\<lambda>c. c \<noteq> 0) out' = takeWhile (\<lambda>c. c \<noteq> 0) (take (unat max_len - 1) s) \<and>
     drop (unat n) out' = drop (unat n) out"
proof -
  define n where "n = min (unat max_len) (length s + 1)"
  have n: "0 < n" "n \<le> unat max_len" "n \<le> length out"
    using assms by (auto simp: word_less_nat_alt n_def)
  have unat_bound: "unat max_len < 2 ^ 64" using unsigned_less [of max_len] by simp
  have "n < 2 ^ 64" using n(2) by (rule le_less_trans) (simp add: unat_bound)
  then have u: "unat (of_nat n :: usize) = n" by (simp add: unat_of_nat)
  have t: "takeWhile (\<lambda>c. c \<noteq> 0) (t @ 0 # xs) = takeWhile (\<lambda>c. c \<noteq> 0) t" for t xs :: "u8 list"
    by (induction t) auto
  have "n - 1 = min (unat max_len - 1) (length s)" unfolding n_def by simp
  then have s: "take (n - 1) s = take (unat max_len - 1) s" "length (take (n - 1) s) = n - 1"
    by (simp_all add: min_def)
  have "length (take (n - 1) s @ 0 # drop n out) = length out" using n s(2) by simp
  moreover have "drop n (take (n - 1) s @ 0 # drop n out) = drop n out"
    using n(1) s(2) by (cases n) simp_all
  moreover have "(of_nat n :: usize) \<le> max_len" using n(2) by (simp add: word_le_nat_alt u)
  ultimately show ?thesis
    using copy_name_step [OF n_def n(1,3)]
    by (intro exI [of _ "of_nat n"] exI [of _ "take (n - 1) s @ 0 # drop n out"])
      (simp add: u t s(1) [unfolded One_nat_def])
qed

text \<open>Leaving the arguments out is not the same as an empty text, except that both set no value.\<close>

lemma create_connector_no_args:
  "inventory_create_connector ivy name (Some '''') = inventory_create_connector ivy name None"
  by (simp add: inventory_create_connector_def create_connector_default_def ca_parse_def parse_entry_def
      ca_default_def ca_new_def)

text \<open>
  A code of zero covers a partial result: bytes that could not be read, and for a write what
  was not written because its address has no translation.
\<close>

lemma c_read_code:
  "c_virt_read_raw_into vm s addr out = Some (0, out', s') \<longleftrightarrow>
     virt_read_raw_into vm s addr out = Some (Inr (), out', s') \<or>
     virt_read_raw_into vm s addr out = Some (Inl (PartialVirtualRead ()), out', s')"
proof -
  have "int_result (pr_data_part r) = 0 \<longleftrightarrow> r = Inr () \<or> r = Inl (PartialVirtualRead ())" for r :: "unit partial_result"
    by (cases r rule: pr_data_part.cases) (auto simp: int_result_def)
  then show ?thesis
    by (cases "virt_read_raw_into vm s addr out") (auto simp: c_virt_read_raw_into_def)
qed

lemma c_unmapped_write_code:
  assumes "va_slice vat (vd_translator self) (vd_vat self) (vd_phys_mem self) [(addr, input)] [] [] =
     Some ([], fails, w, m)" and "pm_write_raw_list pm m [] = Some (Inr (), m')"
  shows "c_virt_write_raw (virtual_dma_mem vat pm cot cop) self addr input =
     Some (0, self\<lparr>vd_vat := w, vd_phys_mem := m'\<rparr>)"
  using assms
  by (simp add: c_virt_write_raw_def virt_write_raw_def virtual_dma_mem_def vd_write_raw_list_def int_result_def)

text \<open>
  C35. A read through the C interface hides what could not be translated. Over any physical
  memory that answers with its bytes, on the three x86 modes, for one buffer that is not
  empty, at most half as long as the virtual address range, does not wrap and whose walks
  stay inside backed tables and end at aligned large pages: the call returns the code of a
  success whether or not every page is mapped, and every byte of the buffer is the one the
  memory has where the page walk leads to (nothing is said of a frame without memory) or a
  zero. A program in C can not tell a byte that is missing from a zero of the target, where
  the Rust interface reports a partial read.
\<close>

theorem c_read_always_succeeds:
  assumes "matching_memory pm mem_ok content" and "mem_ok (vd_phys_mem self)"
    and "arch \<in> {x64_spec, x32_spec, x32_pae_spec}" and "vd_translator self = xst_new arch dtb"
    and "walkable arch (content (vd_phys_mem self)) dtb a (length buf)"
  shows "\<exists>buf' self'. c_virt_read_raw_into
       (virtual_dma_mem (direct_ops capm caps capr capo tm pm) pm cot cop) self a buf = Some (0, buf', self') \<and>
     length buf' = length buf \<and> content (vd_phys_mem self') = content (vd_phys_mem self) \<and>
     (\<forall>j < length buf. virt_holds arch (content (vd_phys_mem self)) dtb (a + of_nat j) (buf' ! j) \<or> buf' ! j = 0)"
proof -
  have "arch \<in> x86_archs" using assms(3) by (simp add: x86_archs_def)
  from dma_read_one [OF assms(1,2) this assms(4,5), of capm caps capr capo tm]
  obtain r buf' m' where run: "vd_read_raw_list (direct_ops capm caps capr capo tm pm) pm self [(a, buf)] =
      Some (r, [buf'], self\<lparr>vd_phys_mem := m'\<rparr>)" "r = Inr () \<or> r = Inl (PartialVirtualRead ())"
    "content m' = content (vd_phys_mem self)" "length buf' = length buf"
    "\<forall>j < length buf. virt_holds arch (content (vd_phys_mem self)) dtb (a + of_nat j) (buf' ! j) \<or> buf' ! j = 0"
    by blast
  have "virt_read_raw_into (virtual_dma_mem (direct_ops capm caps capr capo tm pm) pm cot cop) self a buf =
      Some (r, buf', self\<lparr>vd_phys_mem := m'\<rparr>)"
    by (simp add: virt_read_raw_into_def virtual_dma_mem_def run(1))
  then have "c_virt_read_raw_into (virtual_dma_mem (direct_ops capm caps capr capo tm pm) pm cot cop) self a buf =
      Some (0, buf', self\<lparr>vd_phys_mem := m'\<rparr>)"
    unfolding c_read_code using run(2) by auto
  then show ?thesis using run(3-5) by auto
qed

text \<open>The last page of the range has no frame: both bytes read there are zeros.\<close>

lemma c_read_always_succeeds_witness:
  "\<exists>buf' self'. c_virt_read_raw_into
     (virtual_dma_mem (direct_ops (\<lambda>_. 0) (\<lambda>_. 0) (\<lambda>_. 0) (\<lambda>_. 0) list_tree_map reference_memory) reference_memory
       coalesce_ref coalesce_ref)
     (vd_new (example_tables 0xB0) x64_spec (xst_new x64_spec 0x1000)) 0x1FFF [7, 7] = Some (0, buf', self') \<and> length buf' = 2"
proof -
  let ?self = "vd_new (example_tables 0xB0) x64_spec (xst_new x64_spec 0x1000)"
  have s: "vd_phys_mem ?self = example_tables 0xB0" "vd_translator ?self = xst_new x64_spec 0x1000"
    by (simp_all add: vd_new_def)
  have r: "walkable x64_spec (vd_phys_mem ?self) 0x1000 0x1FFF (length [7 :: u8, 7])"
    using readable_part [OF example_readable [of "0x2000"], of "0xFFF" 2] by (simp add: numeral_2_eq_2 s(1) readable_range_def)
  from c_read_always_succeeds [OF reference.matching_memory_axioms, where self = ?self and arch = x64_spec
        and dtb = "0x1000" and a = "0x1FFF" and buf = "[7, 7]", OF TrueI _ s(2) r,
      where capm = "\<lambda>_. 0" and caps = "\<lambda>_. 0" and capr = "\<lambda>_. 0" and capo = "\<lambda>_. 0" and tm = list_tree_map
        and cot = coalesce_ref and cop = coalesce_ref]
  show ?thesis by auto
qed

end
