(* ===== verification/C_Win32.thy ===== *)
theory C_Win32
  imports C_Interface Win32_Builder Win32_Lists Iter_Adaptors
begin

text \<open>
  The functions the crate \<open>memflow-win32-ffi\<close> exports to C: building a kernel with its caches,
  lists of processes and modules, and what is known of a process. An array of a C program is
  the list of its \<open>max_size\<close> elements, which the function returns written. The lemmas say
  what the arrays hold afterwards, in terms of the lists of the Rust interface.
\<close>

section \<open>Arrays\<close>

text \<open>The closure that fills an array: the count is what it has stored so far.\<close>

definition store_next :: "usize \<Rightarrow> 'a \<Rightarrow> usize \<times> 'a list \<Rightarrow> usize \<times> 'a list" where
  "store_next max_size x = (\<lambda>(ret, buffer).
     if ret < max_size then (ret + 1, buffer[unat ret := x]) else (ret, buffer))"

text \<open>What an \<open>extend\<close> of the Rust interface gave is passed to the closure item by item.\<close>

definition fill_array :: "usize \<Rightarrow> 'a list \<Rightarrow> 'a list \<Rightarrow> usize \<times> 'a list" where
  "fill_array max_size buffer items = fold (store_next max_size) items (0, buffer)"

definition array_result ::
  "usize \<Rightarrow> 'a list \<Rightarrow> ('e + unit) \<times> 'a list \<times> 's \<Rightarrow> usize \<times> 'a list \<times> 's" where
  "array_result max_size buffer = (\<lambda>(r, items, s).
     (let (ret, buffer) = fill_array max_size buffer items
      in (case inspect_ok r of None \<Rightarrow> 0 | Some _ \<Rightarrow> ret, buffer, s)))"

section \<open>Building a kernel\<close>

record c_start_block =
  csb_kernel_hint :: address
  csb_dtb :: address

definition c_start_block_from :: "start_block \<Rightarrow> c_start_block" where
  "c_start_block_from sb = \<lparr>csb_kernel_hint = sb_kernel_hint sb, csb_dtb = sb_dtb sb\<rparr>"

text \<open>The two closures of \<open>kernel_build_custom\<close>, which unwrap the result of a builder.\<close>

definition custom_page_cache ::
  "('k, 'i, 'd) clock \<Rightarrow> 'k \<Rightarrow> u64 \<Rightarrow> page_type \<Rightarrow> usize \<Rightarrow> 't \<Rightarrow> x86_architecture
     \<Rightarrow> ('t, ('k, 'i, 'd) timed_validator) cached_memory_access option" where
  "custom_page_cache ck k time_ms flags size_kb connector arch =
     Option.bind (cmb_with_arch arch (cm_builder ck k connector)) (\<lambda>b.
     Option.bind (cmb_build (timed_ops ck)
       (cmb_with_cache_size (kb size_kb) (cmb_with_page_type_mask flags
         (cmb_with_validator (timed_new ck k (ck_from_millis ck (unat time_ms))) b)))) unwrap)"

definition custom_vat_cache ::
  "('k, 'i, 'd) clock \<Rightarrow> 'k \<Rightarrow> u64 \<Rightarrow> usize \<Rightarrow> unit \<Rightarrow> x86_architecture
     \<Rightarrow> (unit, ('k, 'i, 'd) timed_validator) cached_vat option" where
  "custom_vat_cache ck k time_ms entries vat arch =
     unwrap (cvb_build (timed_ops ck) (cvb_with_entries entries
       (cvb_with_validator (timed_new ck k (ck_from_millis ck (unat time_ms)))
         (cvb_with_arch arch (cached_vat_builder ck k vat)))))"

text \<open>The file system is the state; the outer \<open>None\<close> is a panic, the inner one the null pointer.\<close>

definition build_result :: "(('p, 'a) w32_result \<times> file_system) option \<Rightarrow> ('a option \<times> file_system) option" where
  "build_result = map_option (map_prod heap_or_null id)"

definition kernel_build where
  "kernel_build ck k pe pm dm vm u files pdb_with get home_dir mem fs =
     Option.bind (kernel_builder home_dir mem) (\<lambda>b.
       build_result (kb_build pe pm dm vm u files pdb_with get home_dir (kb_build_default_caches ck k b) fs))"

definition kernel_build_custom where
  "kernel_build_custom ck k pe pm dm vm u files pdb_with get home_dir mem
     page_cache_time_ms page_cache_flags page_cache_size_kb vat_cache_time_ms vat_cache_entries fs =
     Option.bind (kernel_builder home_dir mem) (\<lambda>b.
       build_result (kb_build pe pm dm vm u files pdb_with get home_dir
         (kb_with_vat_cache
           (kb_with_page_cache b (custom_page_cache ck k page_cache_time_ms page_cache_flags page_cache_size_kb))
           (custom_vat_cache ck k vat_cache_time_ms vat_cache_entries)) fs))"

definition c_kernel_destroy :: "(('t, 'v) cached_memory_access, 'w) kernel \<Rightarrow> 't" where
  "c_kernel_destroy krn = cm_destroy (kernel_destroy krn)"

definition kernel_start_block :: "('m, 'w) kernel \<Rightarrow> c_start_block" where
  "kernel_start_block krn = c_start_block_from (ki_start_block (k_kernel_info krn))"

definition kernel_winver :: "('m, 'w) kernel \<Rightarrow> win32_version" where
  "kernel_winver krn = mask_build_number (ki_kernel_winver (k_kernel_info krn))"

definition kernel_winver_unmasked :: "('m, 'w) kernel \<Rightarrow> win32_version" where
  "kernel_winver_unmasked krn = ki_kernel_winver (k_kernel_info krn)"

section \<open>Lists\<close>

definition kernel_eprocess_list ::
  "('m, 'w) win32_dma virt_mem \<Rightarrow> u8 list \<Rightarrow> ('m, 'w) kernel \<Rightarrow> address list \<Rightarrow> usize
     \<Rightarrow> (usize \<times> address list \<times> ('m, 'w) kernel) option" where
  "kernel_eprocess_list vm u krn buffer max_size =
     map_option (array_result max_size buffer)
       (eprocess_list_extend vm u [] krn :: ((unit, unit) w32_result \<times> _) option)"

definition kernel_process_info_list ::
  "('m, 'w) win32_dma virt_mem \<Rightarrow> ('m, unit) win32_dma virt_mem \<Rightarrow> u8 list \<Rightarrow> ('m, 'w) kernel
     \<Rightarrow> win32_process_info list \<Rightarrow> usize \<Rightarrow> (usize \<times> win32_process_info list \<times> ('m, 'w) kernel) option" where
  "kernel_process_info_list vm dm u krn buffer max_size =
     map_option (array_result max_size buffer)
       (process_info_list_extend vm dm u [] krn :: ((unit, unit) w32_result \<times> _) option)"

definition process_module_list ::
  "'s widestring \<Rightarrow> 'v virt_mem \<Rightarrow> u8 list \<Rightarrow> 'v win32_process \<Rightarrow> win32_module_info list \<Rightarrow> usize
     \<Rightarrow> (usize \<times> win32_module_info list \<times> 'v win32_process) option" where
  "process_module_list ws vm u process out max_len =
     map_option (array_result max_len out)
       (module_list_extend ws vm u process [] :: ((unit, unit) w32_result \<times> _) option)"

section \<open>Processes\<close>

definition kernel_kernel_process_info where
  "kernel_kernel_process_info pe vm u krn = map_option (map_prod heap_or_null id) (kernel_process_info pe vm u krn)"

definition kernel_process_info_from_eprocess where
  "kernel_process_info_from_eprocess vm dm u krn eprocess =
     map_option (map_prod heap_or_null id) (process_info_from_eprocess vm dm u eprocess krn)"

definition c_kernel_process_info where
  "c_kernel_process_info lower ws vm dm u krn name =
     map_option (map_prod heap_or_null id) (process_info lower ws vm dm u name krn)"

definition kernel_process_info_pid where
  "kernel_process_info_pid pe vm dm u krn pid =
     map_option (map_prod heap_or_null id) (process_info_pid pe vm dm u pid krn)"

definition kernel_into_process where
  "kernel_into_process lower ws vm dm u krn name = map_option heap_or_null (into_process lower ws vm dm u name krn)"

definition kernel_into_process_pid where
  "kernel_into_process_pid pe vm dm u krn pid = map_option heap_or_null (into_process_pid pe vm dm u pid krn)"

definition kernel_into_kernel_process where
  "kernel_into_kernel_process pe vm u krn = map_option heap_or_null (into_kernel_process pe vm u krn)"

definition process_with_kernel :: "('m, 'w) kernel \<Rightarrow> win32_process_info \<Rightarrow> ('m, 'w) win32_dma win32_process" where
  "process_with_kernel krn proc_info = to_heap (with_kernel krn proc_info)"

definition process_virt_mem :: "'v win32_process \<Rightarrow> 'v" where
  "process_virt_mem process = to_heap (wpr_virt_mem process)"

definition process_clone :: "'v win32_process \<Rightarrow> 'v win32_process" where
  "process_clone process = to_heap (wpr_clone process)"

definition process_module_info where
  "process_module_info ws vm u process name =
     map_option (map_prod heap_or_null id) (find_module_info ws vm u name process)"

definition process_info_dtb :: "win32_process_info \<Rightarrow> address" where "process_info_dtb info = pi_dtb info"

definition process_info_section_base :: "win32_process_info \<Rightarrow> address" where
  "process_info_section_base info = pi_section_base info"

definition process_info_wow64 :: "win32_process_info \<Rightarrow> address" where "process_info_wow64 info = wp_wow64 info"
definition process_info_peb :: "win32_process_info \<Rightarrow> address" where "process_info_peb info = wp_peb info"

definition process_info_peb_native :: "win32_process_info \<Rightarrow> address" where
  "process_info_peb_native info = wp_peb_native info"

text \<open>\<open>unwrap_or_default\<close> of an address gives the null address.\<close>

definition address_or_default :: "address option \<Rightarrow> address" where
  "address_or_default a = (case a of Some a \<Rightarrow> a | None \<Rightarrow> address_default)"

definition process_info_peb_wow64 :: "win32_process_info \<Rightarrow> address" where
  "process_info_peb_wow64 info = address_or_default (wp_peb_wow64 info)"

definition process_info_teb :: "win32_process_info \<Rightarrow> address" where
  "process_info_teb info = address_or_default (pi_teb info)"

definition process_info_teb_wow64 :: "win32_process_info \<Rightarrow> address" where
  "process_info_teb_wow64 info = address_or_default (pi_teb_wow64 info)"

definition process_info_module_info :: "win32_process_info \<Rightarrow> win32_module_list_info option" where
  "process_info_module_info info = wp_module_info info"

definition process_info_module_info_native :: "win32_process_info \<Rightarrow> win32_module_list_info" where
  "process_info_module_info_native info = wp_module_info_native info"

section \<open>What the arrays hold\<close>

lemma fold_store_next:
  assumes "length buffer = unat max_size" and "unat ret \<le> unat max_size"
  shows "fold (store_next max_size) xs (ret, buffer) =
     (let n = min (unat max_size) (unat ret + length xs) in
       (of_nat n, take (unat ret) buffer @ take (n - unat ret) xs @ drop n buffer))"
  using assms
proof (induction xs arbitrary: ret buffer)
  case (Cons x xs)
  show ?case
  proof (cases "ret < max_size")
    case True
    then have r: "unat ret < unat max_size" by (simp add: word_less_nat_alt)
    then have r1: "unat (ret + 1) = Suc (unat ret)"
      using unat_lt_64 [of max_size] by (simp add: unat_word_ariths del: unat_lt_64)
    let ?b = "buffer[unat ret := x]"
    have b: "take (Suc (unat ret)) ?b = take (unat ret) buffer @ [x]" "drop m ?b = drop m buffer" if "unat ret < m" for m
      using r Cons.prems(1) that by (simp_all add: take_Suc_conv_app_nth)
    let ?n = "min (unat max_size) (unat ret + length (x # xs))"
    have n: "?n = min (unat max_size) (unat (ret + 1) + length xs)" "unat ret < ?n"
      using r r1 by auto
    have "take (?n - unat ret) (x # xs) = x # take (?n - Suc (unat ret)) xs"
      by (simp only: Suc_diff_Suc [OF n(2), symmetric] take_Suc_Cons)
    then show ?thesis
      using Cons.IH [of ?b "ret + 1"] Cons.prems r1 r n b [OF n(2)] True
      by (simp add: store_next_def Let_def)
  next
    case False
    then have m: "unat ret = unat max_size" "ret = max_size"
      using Cons.prems(2) by (simp_all add: word_less_nat_alt word_unat_eq_iff)
    have "fold (store_next max_size) (x # xs) (ret, buffer) = fold (store_next max_size) xs (ret, buffer)"
      using False by (simp add: store_next_def)
    then show ?thesis using Cons.IH [OF Cons.prems] m Cons.prems(1) by (simp add: Let_def)
  qed
qed simp

text \<open>The array has the first items, as many as fit, and keeps its other elements.\<close>

lemma fill_array_items:
  assumes "length buffer = unat max_size"
  shows "fill_array max_size buffer xs =
     (let n = min (unat max_size) (length xs) in (of_nat n, take n xs @ drop n buffer))"
  using fold_store_next [OF assms, of 0 xs] by (simp add: fill_array_def Let_def)

text \<open>The closure is the function an \<open>FnExtend\<close> calls for every item.\<close>

lemma fill_array_extend:
  assumes "yields next it xs it'"
  shows "fn_extend next (\<lambda>x f. Some (store_next max_size x f)) it (0, buffer) = Some (fill_array max_size buffer xs)"
  using fn_extend_fold [OF assms, of "store_next max_size"] by (simp add: fill_array_def)

text \<open>How the outcome of a C function with an array relates to that of a Rust function with a list.\<close>

definition holds_list ::
  "usize \<Rightarrow> 'a list \<Rightarrow> (('e + 'a list) \<times> 's) option \<Rightarrow> (usize \<times> 'a list \<times> 's) option \<Rightarrow> bool" where
  "holds_list max_size buffer rust c =
     (case rust of
        None \<Rightarrow> c = None
      | Some (Inr xs, s) \<Rightarrow>
          (let n = min (unat max_size) (length xs) in c = Some (of_nat n, take n xs @ drop n buffer, s))
      | Some (Inl _, s) \<Rightarrow>
          (case c of Some (ret, b, s') \<Rightarrow> ret = 0 \<and> length b = length buffer \<and> s' = s | None \<Rightarrow> False))"

lemma array_result_holds:
  assumes "length buffer = unat max_size"
  shows "holds_list max_size buffer
     (map_option (\<lambda>(r, xs, s). (case r of Inl e \<Rightarrow> Inl e | Inr _ \<Rightarrow> Inr xs, s)) run)
     (map_option (array_result max_size buffer) run)"
  by (cases run)
    (auto simp: holds_list_def array_result_def fill_array_items [OF assms] Let_def assms split: sum.splits)

text \<open>
  C13. A C program gets the lists of the Rust interface. For an array of \<open>max_size\<close> elements
  the lists of process addresses, of processes and of modules behave like the Rust functions
  with the same names: they panic when those do, leave the target in the same state, and
  return on success the number of items stored, which are the first ones of the Rust list in
  its order, as many as the array holds, with the other elements as they were; on an error
  they return zero, and the array still has its length.
\<close>

theorem c_lists_are_rust_lists:
  assumes "length addrs = unat max_size" and "length infos = unat max_size" and "length mods = unat max_size"
  shows "holds_list max_size addrs (eprocess_list vm u krn :: ((unit, _) w32_result \<times> _) option)
       (kernel_eprocess_list vm u krn addrs max_size) \<and>
     holds_list max_size infos (process_info_list vm dm u krn :: ((unit, _) w32_result \<times> _) option)
       (kernel_process_info_list vm dm u krn infos max_size) \<and>
     holds_list max_size mods (module_list ws pvm u process :: ((unit, _) w32_result \<times> _) option)
       (process_module_list ws pvm u process mods max_size)"
  unfolding eprocess_list_def kernel_eprocess_list_def process_info_list_def kernel_process_info_list_def
    module_list_def process_module_list_def
  by (intro conjI array_result_holds assms)

text \<open>The ring of the processes 0x1100 and 0x1200, and an array of one element.\<close>

definition linked_vm :: "'v virt_mem" where
  "linked_vm = \<lparr>
     vm_read_raw_list = (\<lambda>s data. Some (Inr (), map (\<lambda>(a, _). to_le_bytes (linked_word (a + 0x8000))) data, s)),
     vm_write_raw_list = (\<lambda>s data. Some (Inr (), s)), vm_page_info = (\<lambda>s a. None),
     vm_translation_map_range = (\<lambda>s a b. None), vm_page_map_range = (\<lambda>s n a b. None)\<rparr>"

lemma linked_vm_addr:
  "Win32_Process.read_addr linked_vm u x64_spec a s = Some (Inr (linked_word (a + 0x8000)) :: ('p, _) w32_result, s)"
proof -
  have "arch_bits x64_spec = 64" by (simp add: arch_bits_def x64_spec_def)
  then show ?thesis
    by (simp add: Win32_Process.read_addr_def w32_partial_def virt_read_addr_arch_def virt_read_addr64_def virt_read_def
        virt_read_into_def virt_read_raw_into_def linked_vm_def from_to_le_bytes address_from_u64_def)
qed

lemma linked_eprocesses:
  "eprocess_list linked_vm u linked_kernel = Some (Inr [0x1100, 0x1200] :: (unit, _) w32_result, linked_kernel)"
proof -
  have m: "MAX_ITER_COUNT = Suc (Suc (Suc 65533))" by (simp add: MAX_ITER_COUNT_def)
  have k: "kernel_arch linked_kernel = x64_spec" "list_blink (k_offsets linked_kernel) = 8"
    "eproc_link (k_offsets linked_kernel) = 0x10" "ki_eprocess_base (k_kernel_info linked_kernel) = 0x1100"
    "give_back (kernel_reader linked_kernel) linked_kernel = linked_kernel"
    by (simp_all add: linked_kernel_def kernel_arch_def list_blink_def eproc_link_def give_back_def kernel_reader_def
        borrow_kernel_def vd_with_vat_def)
  have run: "eprocess_loop linked_vm u x64_spec (k_offsets linked_kernel) 0x1110 (Suc (Suc (Suc n))) 0x1110 [] s =
      Some (Inr () :: (unit, _) w32_result, [0x1100, 0x1200], s)" for n s
    by (simp add: k linked_vm_addr linked_words address_add_def address_sub_def is_null_def)
  have loop: "eprocess_loop linked_vm u x64_spec (k_offsets linked_kernel) 0x1110 MAX_ITER_COUNT 0x1110 [] s =
      Some (Inr () :: (unit, _) w32_result, [0x1100, 0x1200], s)" for s
    unfolding m by (rule run)
  show ?thesis
    by (simp del: eprocess_loop.simps add: eprocess_list_def eprocess_list_extend_def k loop address_add_def Let_def)
qed

lemma c_lists_are_rust_lists_witness:
  "kernel_eprocess_list linked_vm [0, 0, 0, 0, 0, 0, 0, 0] linked_kernel [7] 1 = Some (1, [0x1100], linked_kernel)"
  using conjunct1 [OF c_lists_are_rust_lists [where addrs = "[7]" and infos = "[undefined]" and mods = "[undefined]"
        and max_size = 1 and krn = linked_kernel and vm = linked_vm
        and u = "[0, 0, 0, 0, 0, 0, 0, 0]"]]
  by (simp add: linked_eprocesses holds_list_def)

section \<open>A translation cache without entries\<close>

text \<open>
  A kernel can be built with a translation cache of no entries. The next translation of one
  address through it panics, as the comment of \<open>kernel_build_custom\<close> says; a request of at
  least a page is too long for the cache and goes to the walk, so it does not.
\<close>

lemma custom_vat_cache_entries:
  "\<exists>vat. custom_vat_cache ck k time_ms entries () arch = Some vat \<and> cvat_arch vat = arch \<and>
     length (tlb_entries (cvat_tlb vat)) = unat entries"
  by (simp add: custom_vat_cache_def cvb_build_def cvb_with_entries_def cvb_with_validator_def cvb_with_arch_def
      cached_vat_builder_def cvb_new_def unwrap_def cached_vat_new_def tlb_new_def)

lemma empty_vat_cache_panics:
  assumes "arch \<in> x86_archs" and "tlb_entries tlb = []"
  shows "cached_requests vops usize_ops tlb tt arch [(v, 1)] run = None"
proof -
  have ps: "arch_page_size arch = Some 0x1000" using assms(1) by (rule x86_page_size)
  have "try_entry vops tlb tt v arch = None"
    by (simp add: try_entry_def ps get_cache_index_def assms(2) as_page_aligned_def)
  moreover have "is_read_too_long tlb arch 1 = Some False"
    by (simp add: is_read_too_long_def ps assms(2))
  moreover have "so_length usize_ops 1 = 1" by (simp add: usize_ops_def)
  ultimately show ?thesis by (simp add: cached_request_def one_chunk ps cached_chunk_def)
qed

lemma empty_vat_cache_long_read:
  assumes "arch \<in> x86_archs" and "tlb_entries tlb = []" and "0x1000 \<le> so_length ops buf"
  shows "cached_requests vops ops tlb tt arch [(v, buf)] run =
     Some (run\<lparr>cr_uncached_in := cr_uncached_in run @ [(v, buf)]\<rparr>)"
proof -
  have ps: "arch_page_size arch = Some 0x1000" using assms(1) by (rule x86_page_size)
  have "0x1000 \<le> unat (so_length ops buf)" using assms(3) by (simp add: word_le_nat_alt)
  then have "0 < unat (so_length ops buf) div 0x1000" by (simp add: div_greater_zero_iff)
  then have "0 < so_length ops buf div 0x1000" by (simp add: word_less_nat_alt unat_div)
  then show ?thesis by (simp add: cached_request_def is_read_too_long_def ps assms(2))
qed

end
