(* ===== verification/Cache_Failures.thy ===== *)
theory Cache_Failures
  imports Cached_Memory
begin

text \<open>
  What \<open>CachedMemoryAccess\<close> of \<open>memflow/src/mem/cache/cached_memory_access.rs\<close> and
  \<open>cached_read\<close> of \<open>page_cache.rs\<close> leave behind when the memory below fails: a failed
  read drops the buffer of the page that was taken out of the cache, a failed write leaves
  its bytes in the cached page. Both are shown for every state of the cache that the
  invariant of \<open>Page_Cache_Reads\<close> allows, every validator that meets the contract and every
  memory that fails, for a request inside one page.
\<close>

section \<open>Requests inside one page\<close>

definition in_cached_page :: "'v page_cache \<Rightarrow> phys_addr \<Rightarrow> u8 list \<Rightarrow> bool" where
  "in_cached_page c pa buf \<longleftrightarrow> is_cached_page_type c (pa_page_type pa) \<and>
     unat (pa_address pa) mod unat (pc_page_size c) + length buf \<le> unat (pc_page_size c)"

lemma page_room_le: "a mod p + n \<le> p \<Longrightarrow> n \<le> page_room p a"
  by (simp add: page_room_def)

context split_index
begin

lemma single_page_chunk:
  assumes "unat p dvd 18446744073709551616" and "p \<noteq> 0" and "ok buf"
    and "unat a mod unat p + length (cells buf) \<le> unat p"
  shows "\<exists>buf'. page_chunks_list ops buf a p = Some [(a, buf')] \<and> cells buf' = cells buf"
proof -
  obtain chunks where ch: "page_chunks_list ops buf a p = Some chunks"
    "map (apsnd cells) chunks = map (apfst of_nat) (page_split (unat p) (unat a) (cells buf))"
    using page_chunks_collect_mod [OF assms(1-3) refl, of "unat a" a] by auto
  have "page_split (unat p) (unat a) (cells buf) = [(unat a, cells buf)]"
    by (rule page_split_last [OF page_room_le [OF assms(4)]])
  with ch(2) have "map (apsnd cells) chunks = [(a, cells buf)]" by simp
  then have "\<exists>buf'. chunks = [(a, buf')] \<and> cells buf' = cells buf" by auto
  with ch(1) show ?thesis by auto
qed

end

text \<open>Reading one buffer is one request; the read ends with one flush.\<close>

lemma cached_read_one:
  assumes "read_request vops (pa, \<lparr>ms_alloc = 0, ms_ptr = 0, ms_len = len_usize buf\<rparr>)
       \<lparr>ru_cache = cm_update_validity vops (cm_cache cm), ru_mem = cm_mem cm, ru_store = [buf],
        ru_clist = [], ru_wlist = [], ru_wlistcache = []\<rparr> = Some ru"
    and "flush vops pm ru = Some (r, ru')"
  shows "cm_read_raw_list vops pm cm [(pa, buf)] =
     Some (r, ru_store ru', \<lparr>cm_mem = ru_mem ru', cm_cache = ru_cache ru'\<rparr>)"
  using assms
  by (cases r) (simp_all add: cm_read_raw_list_def cached_read_def read_slices_def Let_def)

lemma read_request_page:
  assumes shape: "pc_shape v_ok slots (ru_cache ru)" and page: "in_cached_page (ru_cache ru) pa buf"
  shows "\<exists>s'. read_request vops (pa, \<lparr>ms_alloc = 0, ms_ptr = 0, ms_len = len_usize buf\<rparr>) ru =
       read_chunk vops pa (pa_address pa, s') ru \<and>
     mut_slice_cells s' = map (Pair 0) [0..<length buf]"
proof -
  let ?s = "\<lparr>ms_alloc = 0, ms_ptr = 0, ms_len = len_usize buf\<rparr>" and ?c = "ru_cache ru"
  have c: "unat (pc_page_size ?c) dvd 18446744073709551616" "pc_page_size ?c \<noteq> 0"
    "unat (pc_page_size ?c) < 9223372036854775808"
    using shape by (simp_all add: pc_shape_def)
  have n: "length buf < 9223372036854775808" using page c(3) by (simp add: in_cached_page_def)
  then have s: "mut_slice_ok ?s" "mut_slice_cells ?s = map (Pair 0) [0..<length buf]"
    by (simp_all add: mut_slice_ok_def mut_slice_cells_def len_usize_def unat_of_nat_64)
  have "unat (pa_address pa) mod unat (pc_page_size ?c) + length (mut_slice_cells ?s) \<le> unat (pc_page_size ?c)"
    using page by (simp add: s(2) in_cached_page_def)
  from mut_slice_split.single_page_chunk [OF c(1,2) s(1) this]
  obtain s' where "page_chunks_list mut_slice_ops ?s (pa_address pa) (pc_page_size ?c) = Some [(pa_address pa, s')]"
    "mut_slice_cells s' = mut_slice_cells ?s" by blast
  with page s(2) show ?thesis
    by (intro exI [of _ s'], cases "read_chunk vops pa (pa_address pa, s') ru")
      (simp_all add: read_request_def in_cached_page_def)
qed

lemma put_page_block:
  "put_page (c\<lparr>pc_block := b\<rparr>) a p = map_option (\<lambda>c. c\<lparr>pc_block := b\<rparr>) (put_page c a p)"
  by (auto simp: put_page_def page_index_def bind_eq_None_conv split: Option.bind_splits)

section \<open>A failed read\<close>

text \<open>Later reads of one buffer each: their results and buffers.\<close>

fun later_reads ::
  "'v validator_ops \<Rightarrow> 'm phys_mem \<Rightarrow> phys_read_data list \<Rightarrow> ('m, 'v) cached_memory_access
     \<Rightarrow> ((unit result \<times> u8 list list) list \<times> ('m, 'v) cached_memory_access) option" where
  "later_reads vops pm [] cm = Some ([], cm)"
| "later_reads vops pm (rd # rds) cm = do {
     (r, bufs, cm) \<leftarrow> cm_read_raw_list vops pm cm [rd];
     (rs, cm) \<leftarrow> later_reads vops pm rds cm;
     Some ((r, bufs) # rs, cm)
   }"

context cache_validator
begin

lemma update_shape:
  "pc_shape v_ok slots c \<Longrightarrow> pc_shape v_ok slots (cm_update_validity ops c)"
  "pages_out c pend \<Longrightarrow> pages_out (cm_update_validity ops c) pend"
  using update by (simp_all add: pc_shape_def pages_out_def page_slot_def cm_update_validity_def)

text \<open>A page that is not in the cache, or not valid any more: the failing read drops it.\<close>

lemma failed_read_drops:
  assumes ok: "pc_shape v_ok slots (cm_cache cm)" "pages_out (cm_cache cm) []"
    and page: "in_cached_page (cm_cache cm) pa buf"
  defines "i \<equiv> page_slot (cm_cache cm) (pa_address pa)"
    and "A \<equiv> page_align (pa_address pa) (pc_page_size (cm_cache cm))"
  assumes stale: "pc_address (cm_cache cm) ! i \<noteq> A \<or>
       cv_is_slot_valid ops (cv_update_validity ops (pc_validator (cm_cache cm))) i \<noteq> Some True"
    and fails: "pm_read_raw_list pm (cm_mem cm) [(pa_from_address A, pc_block (cm_cache cm) ! i)] = Some (Inl e, [b], m')"
      "length b = unat (pc_page_size (cm_cache cm))"
  shows "\<exists>c'. cm_read_raw_list ops pm cm [(pa, buf)] = Some (Inl e, [buf], \<lparr>cm_mem = m', cm_cache = c'\<rparr>) \<and>
     pc_shape v_ok slots c' \<and> pages_out c' [(pa_from_address A, i)] \<and>
     pc_page_size c' = pc_page_size (cm_cache cm) \<and> pc_page_type_mask c' = pc_page_type_mask (cm_cache cm) \<and>
     length (pc_address c') = length (pc_address (cm_cache cm))"
proof -
  let ?c = "cm_update_validity ops (cm_cache cm)"
  let ?ru = "\<lparr>ru_cache = ?c, ru_mem = cm_mem cm, ru_store = [buf], ru_clist = [], ru_wlist = [], ru_wlistcache = []\<rparr>"
  have same: "pc_page_size ?c = pc_page_size (cm_cache cm)" "pc_address ?c = pc_address (cm_cache cm)"
    "pc_block ?c = pc_block (cm_cache cm)" "pc_page_type_mask ?c = pc_page_type_mask (cm_cache cm)"
    "page_slot ?c (pa_address pa) = i" "page_align (pa_address pa) (pc_page_size ?c) = A"
    "pc_validator ?c = cv_update_validity ops (pc_validator (cm_cache cm))"
    by (simp_all add: cm_update_validity_def page_slot_def i_def A_def)
  have shape: "pc_shape v_ok slots ?c" "pages_out ?c []"
    using update_shape ok by blast+
  have i: "i < length (pc_address ?c)" "length (pc_page_refs ?c) = length (pc_address ?c)"
    "length (pc_block ?c) = length (pc_address ?c)"
    using page_index_slot(2) [OF shape(1), of "pa_address pa"] shape(1) by (simp_all add: same(5) pc_shape_def)
  have refs: "pc_page_refs ?c ! i = Some i" using pages_out_all [OF shape(2) i(1)] by simp
  have "in_cached_page ?c pa buf"
    using page by (simp add: in_cached_page_def is_cached_page_type_def same)
  then obtain s' where req: "read_request ops (pa, \<lparr>ms_alloc = 0, ms_ptr = 0, ms_len = len_usize buf\<rparr>) ?ru =
       read_chunk ops pa (pa_address pa, s') ?ru"
    using read_request_page [of v_ok slots ?ru pa buf ops] shape(1) by auto
  obtain v where v: "cv_is_slot_valid ops (pc_validator ?c) i = Some v"
    "cached_page_mut ops ?c (pa_address pa) False = Some (\<lparr>en_address = A, en_validity =
       (if pc_page_refs ?c ! i = None
        then (if pc_address_once_validated ?c ! i = A then ToBeValidated else Invalid)
        else if pc_address ?c ! i = A \<and> v then Valid i else Validatable i)\<rparr>,
       ?c\<lparr>pc_page_refs := (pc_page_refs ?c)[i := None]\<rparr>)"
    using cached_page_cases [OF shape, of "pa_address pa"] unfolding same(5,6) by blast
  have val: "\<not> (pc_address ?c ! i = A \<and> v)" using stale v(1) by (auto simp: same)
  let ?c1 = "?c\<lparr>pc_page_refs := (pc_page_refs ?c)[i := None],
      pc_address_once_validated := (pc_address_once_validated ?c)[i := A]\<rparr>"
  have slotA: "page_slot ?c A = i" "page_align A (pc_page_size ?c) = A"
    using page_slot_align [of ?c "pa_address pa"] page_align_idem [of "pa_address pa" "pc_page_size ?c"]
    by (simp_all only: same(5,6))
  have "mark_page_for_validation (?c\<lparr>pc_page_refs := (pc_page_refs ?c)[i := None]\<rparr>) A = Some ?c1"
    using mark_page_slot [of v_ok slots "?c\<lparr>pc_page_refs := (pc_page_refs ?c)[i := None]\<rparr>" A] shape(1) slotA by simp
  then obtain prd where chunk: "read_chunk ops pa (pa_address pa, s') ?ru =
      Some (?ru\<lparr>ru_clist := [prd], ru_wlistcache := [(pa_from_address A, i)], ru_cache := ?c1\<rparr>)"
    using v(2) val refs by (simp add: read_chunk_def)
  let ?c2 = "?c1\<lparr>pc_block := (pc_block ?c)[i := b]\<rparr>"
  have fl: "flush ops pm (?ru\<lparr>ru_clist := [prd], ru_wlistcache := [(pa_from_address A, i)], ru_cache := ?c1\<rparr>) =
      Some (Inl e, ?ru\<lparr>ru_clist := [prd], ru_wlistcache := [(pa_from_address A, i)], ru_mem := m', ru_cache := ?c2\<rparr>)"
    using fails(1) i by (simp add: flush_def flush_wlist_def flush_pages_def Let_def same)
  have out: "pages_out ?c1 [(pa_from_address A, i)]"
    using pages_out_update [OF shape(2) same(5) [symmetric] _ shape(1)] refs by (simp add: same(6))
  have "pc_shape v_ok slots ?c2"
    using shape(1) fails(2) i unfolding pc_shape_def by (auto simp: same dest!: set_update_subset_insert [THEN subsetD])
  moreover have "pages_out ?c2 [(pa_from_address A, i)]"
    using out by (simp add: pages_out_def page_slot_def)
  moreover have "cm_read_raw_list ops pm cm [(pa, buf)] = Some (Inl e, [buf], \<lparr>cm_mem = m', cm_cache = ?c2\<rparr>)"
    using cached_read_one [OF req [THEN trans, OF chunk] fl] by simp
  ultimately show ?thesis
    by (intro exI [of _ ?c2]) (simp add: same(1,2,4))
qed

text \<open>Once dropped, the page stays marked as being read, and a read of it does nothing.\<close>

lemma lost_page_read:
  assumes ok: "pc_shape v_ok slots (cm_cache cm)" "pages_out (cm_cache cm) [(pa_from_address A, i)]"
    and page: "in_cached_page (cm_cache cm) pa buf"
    and A: "page_align (pa_address pa) (pc_page_size (cm_cache cm)) = A" "page_slot (cm_cache cm) A = i"
  shows "cm_read_raw_list ops pm cm [(pa, buf)] =
     Some (Inr (), [buf], cm\<lparr>cm_cache := cm_update_validity ops (cm_cache cm)\<rparr>)"
proof -
  let ?c = "cm_update_validity ops (cm_cache cm)"
  let ?ru = "\<lparr>ru_cache = ?c, ru_mem = cm_mem cm, ru_store = [buf], ru_clist = [], ru_wlist = [], ru_wlistcache = []\<rparr>"
  have shape: "pc_shape v_ok slots ?c" "pages_out ?c [(pa_from_address A, i)]"
    using update_shape ok by blast+
  have same: "page_align (pa_address pa) (pc_page_size ?c) = A" "page_slot ?c (pa_address pa) = i"
    using A page_slot_align [of "cm_cache cm" "pa_address pa"]
    by (simp_all add: cm_update_validity_def page_slot_def)
  have "in_cached_page ?c pa buf"
    using page by (simp add: in_cached_page_def is_cached_page_type_def cm_update_validity_def)
  then obtain s' where req: "read_request ops (pa, \<lparr>ms_alloc = 0, ms_ptr = 0, ms_len = len_usize buf\<rparr>) ?ru =
       read_chunk ops pa (pa_address pa, s') ?ru"
    using read_request_page [of v_ok slots ?ru pa buf ops] shape(1) by auto
  have out: "i < length (pc_address ?c)" "pc_page_refs ?c ! i = None" "pc_address_once_validated ?c ! i = A"
    using pages_out_pend [OF shape(2), of "pa_from_address A" i] by (simp_all add: pa_from_address_def)
  have "length (pc_page_refs ?c) = length (pc_address ?c)" "pc_page_size ?c \<noteq> 0"
    using shape(1) by (simp_all add: pc_shape_def)
  then have keep: "?c\<lparr>pc_page_refs := (pc_page_refs ?c)[i := None]\<rparr> = ?c" "pc_page_size ?c \<noteq> 0"
    using out(1,2) by (simp_all add: list_update_same_conv [THEN iffD2])
  have wait: "cached_page_mut ops ?c (pa_address pa) False = Some (\<lparr>en_address = A, en_validity = ToBeValidated\<rparr>, ?c)"
    using cached_page_cases [OF shape, of "pa_address pa"] out(2,3) unfolding same keep by auto
  let ?prd = "(pa_with_page (pa_address pa) (pa_page_type pa) (pa_page_size pa), s')"
  have chunk: "read_chunk ops pa (pa_address pa, s') ?ru = Some (?ru\<lparr>ru_clist := [?prd]\<rparr>)"
    using wait by (simp add: read_chunk_def)
  have fl: "flush ops pm (?ru\<lparr>ru_clist := [?prd]\<rparr>) = Some (Inr (), ?ru)"
    using wait keep(2) by (simp add: flush_def flush_wlist_def flush_pages_def as_page_aligned_def)
  show ?thesis
    using cached_read_one [OF req [THEN trans, OF chunk] fl] by simp
qed

lemma lost_page_reads:
  assumes "pc_shape v_ok slots (cm_cache cm)" and "pages_out (cm_cache cm) [(pa_from_address A, i)]"
    and "page_slot (cm_cache cm) A = i"
    and "\<forall>(pa, buf) \<in> set rds. in_cached_page (cm_cache cm) pa buf \<and>
       page_align (pa_address pa) (pc_page_size (cm_cache cm)) = A"
  shows "\<exists>cm'. later_reads ops pm rds cm = Some (map (\<lambda>(_, buf). (Inr (), [buf])) rds, cm')"
  using assms
proof (induction rds arbitrary: cm)
  case (Cons rd rds)
  obtain pa buf where rd: "rd = (pa, buf)" by (cases rd)
  let ?cm = "cm\<lparr>cm_cache := cm_update_validity ops (cm_cache cm)\<rparr>"
  have one: "cm_read_raw_list ops pm cm [rd] = Some (Inr (), [buf], ?cm)"
    unfolding rd using Cons.prems by (intro lost_page_read [where A = A and i = i]) (auto simp: rd)
  have "\<exists>cm'. later_reads ops pm rds ?cm = Some (map (\<lambda>(_, buf). (Inr (), [buf])) rds, cm')"
    using Cons.prems update_shape
    by (intro Cons.IH)
      (auto simp: cm_update_validity_def page_slot_def in_cached_page_def is_cached_page_type_def)
  with one show ?case by (auto simp: rd)
qed simp

section \<open>A failed write\<close>

lemma failed_write_stays:
  assumes ok: "pc_shape v_ok slots (cm_cache cm)" "pages_out (cm_cache cm) []"
    and page: "in_cached_page (cm_cache cm) pa bs" and "bs \<noteq> []"
  defines "i \<equiv> page_slot (cm_cache cm) (pa_address pa)"
  assumes cached: "pc_address (cm_cache cm) ! i = page_align (pa_address pa) (pc_page_size (cm_cache cm))"
    and valid: "cv_is_slot_valid ops (cv_update_validity ops (pc_validator (cm_cache cm))) i = Some True"
    and fails: "pm_write_raw_list pm (cm_mem cm) [(pa, bs)] = Some (Inl e, m')"
  shows "\<exists>c'. cm_write_raw_list ops pm cm [(pa, bs)] = Some (Inl e, \<lparr>cm_mem = m', cm_cache = c'\<rparr>) \<and>
     pc_shape v_ok slots c' \<and> pages_out c' [] \<and> pc_address c' = pc_address (cm_cache cm) \<and>
     pc_page_size c' = pc_page_size (cm_cache cm) \<and> pc_page_type_mask c' = pc_page_type_mask (cm_cache cm) \<and>
     pc_validator c' = cv_update_validity ops (pc_validator (cm_cache cm)) \<and>
     take (length bs) (drop (unat (pa_address pa) mod unat (pc_page_size c')) (pc_block c' ! i)) = bs"
proof -
  let ?c = "cm_update_validity ops (cm_cache cm)" and ?a = "pa_address pa"
  let ?A = "page_align ?a (pc_page_size (cm_cache cm))" and ?o = "unat ?a mod unat (pc_page_size (cm_cache cm))"
  have same: "pc_page_size ?c = pc_page_size (cm_cache cm)" "pc_address ?c = pc_address (cm_cache cm)"
    "pc_block ?c = pc_block (cm_cache cm)" "pc_page_type_mask ?c = pc_page_type_mask (cm_cache cm)"
    "page_slot ?c ?a = i" "pc_validator ?c = cv_update_validity ops (pc_validator (cm_cache cm))"
    by (simp_all add: cm_update_validity_def page_slot_def i_def)
  have shape: "pc_shape v_ok slots ?c" "pages_out ?c []"
    using update_shape ok by blast+
  have i: "i < length (pc_address ?c)" "length (pc_page_refs ?c) = length (pc_address ?c)"
    "length (pc_block ?c) = length (pc_address ?c)" "length (pc_block ?c ! i) = unat (pc_page_size ?c)"
    using page_index_slot(2) [OF shape(1), of ?a] shape(1) by (simp_all add: same(5) pc_shape_def)
  have p: "unat (pc_page_size ?c) dvd 18446744073709551616" "pc_page_size ?c \<noteq> 0"
    "unat (pc_page_size ?c) < 9223372036854775808"
    using shape(1) by (simp_all add: pc_shape_def)
  have refs: "pc_page_refs ?c ! i = Some i" using pages_out_all [OF shape(2) i(1)] by simp
  have fit: "?o + length bs \<le> unat (pc_page_size ?c)" "is_cached_page_type ?c (pa_page_type pa)"
    using page by (simp_all add: in_cached_page_def is_cached_page_type_def same)
  then have "slice_ok bs" using p(3) by (simp add: slice_ok_def)
  from slice_split.single_page_chunk [OF p(1,2) this, of ?a] fit(1)
  have chunks: "page_chunks_list slice_ops bs ?a (pc_page_size ?c) = Some [(?a, bs)]" by (simp add: same)
  let ?taken = "?c\<lparr>pc_page_refs := (pc_page_refs ?c)[i := None]\<rparr>"
  have taken: "cached_page_mut ops ?c ?a False = Some (\<lparr>en_address = ?A, en_validity = Valid i\<rparr>, ?taken)"
    using cached_page_cases [OF shape, of ?a] refs cached valid unfolding same(5) by (auto simp: same)
  have off: "unat (address_sub_addr ?a ?A) = ?o" by (simp add: address_sub_addr_def page_align_off)
  let ?page = "take ?o (pc_block ?c ! i) @ bs @ drop (?o + length bs) (pc_block ?c ! i)"
  let ?c1 = "?c\<lparr>pc_block := (pc_block ?c)[i := ?page]\<rparr>"
  have len: "length ?page = unat (pc_page_size ?c)" using fit(1) i(4) by simp
  have wr: "write_page (pc_block ?taken) i (address_sub_addr ?a ?A) bs = Some ((pc_block ?c)[i := ?page])"
    using fit(1) i by (simp add: write_page_def off)
  have "page_slot ?taken ?A = i"
    using page_slot_align [of "cm_cache cm" ?a] by (simp add: cm_update_validity_def page_slot_def i_def)
  then have "put_page ?taken ?A i = Some ?c"
    using put_page_slot [of v_ok slots ?taken ?A i] shape(1) refs i(1,2)
    by (simp add: list_update_same_conv [THEN iffD2])
  then have put: "put_page (?taken\<lparr>pc_block := (pc_block ?c)[i := ?page]\<rparr>) ?A i = Some ?c1"
    by (simp only: put_page_block option.map)
  have "write_chunk ops (?a, bs) ?c = Some ?c1"
    using taken wr put by (simp add: write_chunk_def put_entry_def)
  then have "cm_write_raw_list ops pm cm [(pa, bs)] = Some (Inl e, \<lparr>cm_mem = m', cm_cache = ?c1\<rparr>)"
    using chunks fit(2) fails by (simp add: cm_write_raw_list_def)
  moreover have "pc_shape v_ok slots ?c1"
    using shape(1) i len unfolding pc_shape_def by (auto dest!: set_update_subset_insert [THEN subsetD])
  moreover have "pages_out ?c1 []"
    using shape(2) by (simp add: pages_out_def page_slot_def)
  moreover have "take (length bs) (drop ?o (pc_block ?c1 ! i)) = bs"
    using fit(1) i by simp
  ultimately show ?thesis by (intro exI [of _ ?c1]) (simp add: same)
qed

text \<open>A valid page answers a read with its bytes, and the memory is not asked.\<close>

lemma valid_page_read:
  assumes ok: "pc_shape v_ok slots (cm_cache cm)" "pages_out (cm_cache cm) []"
    and page: "in_cached_page (cm_cache cm) pa buf" and "buf \<noteq> []"
  defines "i \<equiv> page_slot (cm_cache cm) (pa_address pa)"
  assumes cached: "pc_address (cm_cache cm) ! i = page_align (pa_address pa) (pc_page_size (cm_cache cm))"
    and valid: "cv_is_slot_valid ops (cv_update_validity ops (pc_validator (cm_cache cm))) i = Some True"
  shows "cm_read_raw_list ops pm cm [(pa, buf)] =
     Some (Inr (), [take (length buf) (drop (unat (pa_address pa) mod unat (pc_page_size (cm_cache cm)))
       (pc_block (cm_cache cm) ! i))], cm\<lparr>cm_cache := cm_update_validity ops (cm_cache cm)\<rparr>)"
proof -
  let ?c = "cm_update_validity ops (cm_cache cm)" and ?a = "pa_address pa"
  let ?A = "page_align ?a (pc_page_size (cm_cache cm))" and ?o = "unat ?a mod unat (pc_page_size (cm_cache cm))"
  let ?ru = "\<lparr>ru_cache = ?c, ru_mem = cm_mem cm, ru_store = [buf], ru_clist = [], ru_wlist = [], ru_wlistcache = []\<rparr>"
  have same: "pc_page_size ?c = pc_page_size (cm_cache cm)" "pc_address ?c = pc_address (cm_cache cm)"
    "pc_block ?c = pc_block (cm_cache cm)" "page_slot ?c ?a = i"
    "pc_validator ?c = cv_update_validity ops (pc_validator (cm_cache cm))"
    by (simp_all add: cm_update_validity_def page_slot_def i_def)
  have shape: "pc_shape v_ok slots ?c" "pages_out ?c []"
    using update_shape ok by blast+
  have i: "i < length (pc_address ?c)" "length (pc_page_refs ?c) = length (pc_address ?c)"
    "length (pc_block ?c) = length (pc_address ?c)" "length (pc_block ?c ! i) = unat (pc_page_size ?c)"
    "pc_page_size ?c \<noteq> 0"
    using page_index_slot(2) [OF shape(1), of ?a] shape(1) by (simp_all add: same(4) pc_shape_def)
  have refs: "pc_page_refs ?c ! i = Some i" using pages_out_all [OF shape(2) i(1)] by simp
  have pg: "in_cached_page ?c pa buf"
    using page by (simp add: in_cached_page_def is_cached_page_type_def cm_update_validity_def)
  then have fit: "?o + length buf \<le> unat (pc_page_size ?c)" by (simp add: in_cached_page_def same)
  obtain s' where req: "read_request ops (pa, \<lparr>ms_alloc = 0, ms_ptr = 0, ms_len = len_usize buf\<rparr>) ?ru =
       read_chunk ops pa (?a, s') ?ru" and cells: "mut_slice_cells s' = map (Pair 0) [0..<length buf]"
    using read_request_page [of v_ok slots ?ru pa buf ops] shape(1) pg by auto
  have len: "unat (ms_len s') = length buf"
    using arg_cong [OF cells, of length] by (simp add: length_mut_slice_cells)
  have s': "ms_alloc s' = 0" "ms_ptr s' = 0"
    using arg_cong [OF cells, of hd] len \<open>buf \<noteq> []\<close> by (simp_all add: mut_slice_cells_def hd_map upt_conv_Cons)
  let ?taken = "?c\<lparr>pc_page_refs := (pc_page_refs ?c)[i := None]\<rparr>"
  have taken: "cached_page_mut ops ?c ?a False = Some (\<lparr>en_address = ?A, en_validity = Valid i\<rparr>, ?taken)"
    using cached_page_cases [OF shape, of ?a] refs cached valid unfolding same(4) by (auto simp: same)
  have off: "unat (address_sub_addr ?a ?A) = ?o" by (simp add: address_sub_addr_def page_align_off)
  let ?got = "take (length buf) (drop ?o (pc_block (cm_cache cm) ! i))"
  have "length ?got = length buf" using fit i(4) by (simp add: same)
  then have copy: "copy_from_page (pc_block ?taken) i (address_sub_addr ?a ?A) s' [buf] = Some [?got]"
    using fit i len s' by (simp add: copy_from_page_def copy_from_slice_def off same)
  have "page_slot ?taken ?A = i"
    using page_slot_align [of "cm_cache cm" ?a] by (simp add: cm_update_validity_def page_slot_def i_def)
  then have put: "put_page ?taken ?A i = Some ?c"
    using put_page_slot [of v_ok slots ?taken ?A i] shape(1) refs i(1,2)
    by (simp add: list_update_same_conv [THEN iffD2])
  have chunk: "read_chunk ops pa (?a, s') ?ru = Some (?ru\<lparr>ru_store := [?got]\<rparr>)"
    using taken copy put i(5) by (simp add: read_chunk_def as_page_aligned_def same)
  have fl: "flush ops pm (?ru\<lparr>ru_store := [?got]\<rparr>) = Some (Inr (), ?ru\<lparr>ru_store := [?got]\<rparr>)"
    by (simp add: flush_def flush_wlist_def flush_pages_def)
  show ?thesis
    using cached_read_one [OF req [THEN trans, OF chunk] fl] by simp
qed

end

section \<open>Properties\<close>

text \<open>
  C37. A failed read loses the page. For every state of the cache that successful reads lead
  to, every validator that meets the contract and a read of one buffer inside one page of a
  cached type, where the page is not in the cache or not valid any more: when the memory
  fails to read the page (and keeps the length of the buffer of the page), the error is
  returned and the buffer is as it was. In any sequence of later reads, each of one buffer
  inside that page and through any memory, which may work again, every read reports success
  and leaves its buffer as it was: the page was dropped with the list of pages to read, and
  stays marked as being read.
\<close>

theorem failed_read_loses_page:
  assumes "cache_validator vops v_ok slots" and "cm_ok v_ok slots mem_ok content cm"
    and "in_cached_page (cm_cache cm) pa buf"
    and "pc_address (cm_cache cm) ! page_slot (cm_cache cm) (pa_address pa) \<noteq>
         page_align (pa_address pa) (pc_page_size (cm_cache cm)) \<or>
       cv_is_slot_valid vops (cv_update_validity vops (pc_validator (cm_cache cm)))
         (page_slot (cm_cache cm) (pa_address pa)) \<noteq> Some True"
    and "pm_read_raw_list pm (cm_mem cm) [(pa_from_address (page_align (pa_address pa) (pc_page_size (cm_cache cm))),
         pc_block (cm_cache cm) ! page_slot (cm_cache cm) (pa_address pa))] = Some (Inl e, [b], m')"
    and "length b = unat (pc_page_size (cm_cache cm))"
    and "\<forall>(pa', buf') \<in> set later. in_cached_page (cm_cache cm) pa' buf' \<and>
       page_align (pa_address pa') (pc_page_size (cm_cache cm)) = page_align (pa_address pa) (pc_page_size (cm_cache cm))"
  shows "\<exists>cm' cm''. cm_read_raw_list vops pm cm [(pa, buf)] = Some (Inl e, [buf], cm') \<and> cm_mem cm' = m' \<and>
     later_reads vops pm' later cm' = Some (map (\<lambda>(_, buf'). (Inr (), [buf'])) later, cm'')"
proof -
  let ?c = "cm_cache cm" and ?a = "pa_address pa"
  let ?i = "page_slot ?c ?a" and ?A = "page_align ?a (pc_page_size ?c)"
  have ok: "pc_shape v_ok slots ?c" "pages_out ?c []"
    using assms(2) by (simp_all add: cm_ok_def cache_ok_def)
  obtain c' where c': "cm_read_raw_list vops pm cm [(pa, buf)] = Some (Inl e, [buf], \<lparr>cm_mem = m', cm_cache = c'\<rparr>)"
    "pc_shape v_ok slots c'" "pages_out c' [(pa_from_address ?A, ?i)]"
    "pc_page_size c' = pc_page_size ?c" "pc_page_type_mask c' = pc_page_type_mask ?c"
    "length (pc_address c') = length (pc_address ?c)"
    using cache_validator.failed_read_drops [OF assms(1) ok assms(3-6)] by blast
  let ?cm = "\<lparr>cm_mem = m', cm_cache = c'\<rparr>"
  have slot: "page_slot c' ?A = ?i" using c'(4,6) page_slot_align [of ?c ?a] by (simp add: page_slot_def)
  have "\<exists>cm''. later_reads vops pm' later ?cm = Some (map (\<lambda>(_, buf'). (Inr (), [buf'])) later, cm'')"
    by (rule cache_validator.lost_page_reads [OF assms(1), where A = ?A and i = ?i])
      (use c' slot assms(7) in \<open>auto simp: in_cached_page_def is_cached_page_type_def\<close>)
  with c'(1) show ?thesis by auto
qed

text \<open>
  C38. A failed write is read back. For every state of the cache that successful reads lead
  to, every validator that meets the contract and a write of some bytes inside one page of a
  cached type that is in the cache and stays valid: when the memory refuses the write, the
  error is returned, but the bytes are in the cached page, and a read of them while the page
  is valid returns them without asking the memory.
\<close>

theorem failed_write_is_read_back:
  assumes "cache_validator vops v_ok slots" and "cm_ok v_ok slots mem_ok content cm"
    and "in_cached_page (cm_cache cm) pa bs" and "bs \<noteq> []"
    and "pc_address (cm_cache cm) ! page_slot (cm_cache cm) (pa_address pa) =
       page_align (pa_address pa) (pc_page_size (cm_cache cm))"
    and "cv_is_slot_valid vops (cv_update_validity vops (pc_validator (cm_cache cm)))
       (page_slot (cm_cache cm) (pa_address pa)) = Some True"
    and "cv_is_slot_valid vops (cv_update_validity vops (cv_update_validity vops (pc_validator (cm_cache cm))))
       (page_slot (cm_cache cm) (pa_address pa)) = Some True"
    and "pm_write_raw_list pm (cm_mem cm) [(pa, bs)] = Some (Inl e, m')" and "length buf = length bs"
  shows "\<exists>cm' cm''. cm_write_raw_list vops pm cm [(pa, bs)] = Some (Inl e, cm') \<and> cm_mem cm' = m' \<and>
     cm_read_raw_list vops pm' cm' [(pa, buf)] = Some (Inr (), [bs], cm'') \<and> cm_mem cm'' = m'"
proof -
  let ?c = "cm_cache cm" and ?a = "pa_address pa"
  let ?i = "page_slot ?c ?a"
  have ok: "pc_shape v_ok slots ?c" "pages_out ?c []"
    using assms(2) by (simp_all add: cm_ok_def cache_ok_def)
  obtain c' where c': "cm_write_raw_list vops pm cm [(pa, bs)] = Some (Inl e, \<lparr>cm_mem = m', cm_cache = c'\<rparr>)"
    "pc_shape v_ok slots c'" "pages_out c' []" "pc_address c' = pc_address ?c"
    "pc_page_size c' = pc_page_size ?c" "pc_page_type_mask c' = pc_page_type_mask ?c"
    "pc_validator c' = cv_update_validity vops (pc_validator ?c)"
    "take (length bs) (drop (unat ?a mod unat (pc_page_size c')) (pc_block c' ! ?i)) = bs"
    using cache_validator.failed_write_stays [OF assms(1) ok assms(3-6,8)] by blast
  let ?cm = "\<lparr>cm_mem = m', cm_cache = c'\<rparr>"
  have slot: "page_slot c' ?a = ?i" by (simp add: page_slot_def c'(4,5))
  have "buf \<noteq> []" using assms(4,9) by auto
  then have "cm_read_raw_list vops pm' ?cm [(pa, buf)] =
      Some (Inr (), [bs], ?cm\<lparr>cm_cache := cm_update_validity vops c'\<rparr>)"
    using cache_validator.valid_page_read [OF assms(1), where cm = ?cm and pa = pa and buf = buf and pm = pm']
      c' slot assms(3-5,7,9)
    by (simp add: in_cached_page_def is_cached_page_type_def)
  with c'(1) show ?thesis by auto
qed

section \<open>The properties at a small cache\<close>

lemma example_cache_is:
  "example_cache 10 = Some \<lparr>pc_address = [ADDRESS_INVALID], pc_page_refs = [Some 0],
     pc_address_once_validated = [ADDRESS_INVALID], pc_page_size = 4, pc_page_type_mask = PT_READ_ONLY,
     pc_validator = count_allocate_slots (count_new 10) 1, pc_block = [[0, 0, 0, 0]]\<rparr>"
  by code_simp

lemma example_cache_ok:
  assumes "example_cache 10 = Some c"
  shows "cm_ok (\<lambda>v. cc_valid_count v \<noteq> 0) (\<lambda>v. length (cc_count v)) (\<lambda>_. True) (\<lambda>_ _. None) (cm_new m c)"
proof -
  have "cache_ok (\<lambda>v. cc_valid_count v \<noteq> 0) (\<lambda>v. length (cc_count v)) (\<lambda>_. None) c []"
    using assms unfolding example_cache_def by (rule count.fresh_cache_ok [rotated]) (simp_all add: count_new_def)
  then show ?thesis by (simp add: cm_ok_def cm_new_def)
qed

text \<open>One read fails; two later reads of the page report success, although the memory works.\<close>

theorem failed_read_loses_page_witness:
  "\<exists>c cm' cm''. example_cache 10 = Some c \<and>
     cm_read_raw_list count_ops flaky_memory (cm_new 1 c) [(example_addr 1, [0, 0])] =
       Some (Inl (Connector ''read failed''), [[0, 0]], cm') \<and>
     pm_read_raw_list flaky_memory (cm_mem cm') [(example_addr 1, [0, 0])] = Some (Inr (), [[0xAB, 0xAB]], 0) \<and>
     later_reads count_ops flaky_memory [(example_addr 1, [0, 0]), (example_addr 3, [5])] cm' =
       Some ([(Inr (), [[0, 0]]), (Inr (), [[5]])], cm'')"
proof -
  obtain c where c: "example_cache 10 = Some c" using example_cache_is by blast
  let ?cm = "cm_new 1 c :: (nat, count_validator) cached_memory_access"
  have c': "c = \<lparr>pc_address = [ADDRESS_INVALID], pc_page_refs = [Some 0],
     pc_address_once_validated = [ADDRESS_INVALID], pc_page_size = 4, pc_page_type_mask = PT_READ_ONLY,
     pc_validator = count_allocate_slots (count_new 10) 1, pc_block = [[0, 0, 0, 0]]\<rparr>"
    using c by (simp add: example_cache_is)
  have f: "cm_cache ?cm = c" "cm_mem ?cm = 1" "pc_page_size c = 4" "page_slot c a = 0"
    "pc_address c ! 0 = ADDRESS_INVALID" "pc_block c ! 0 = [0, 0, 0, 0]" for a
    by (simp_all add: cm_new_def c' page_slot_def)
  have al: "page_align 1 4 = (0 :: u64)" "page_align 3 4 = (0 :: u64)" "(0 :: u64) \<noteq> ADDRESS_INVALID"
    by code_simp+
  have one: "in_cached_page c (example_addr 1) [0, 0]" "in_cached_page c (example_addr 3) [5]"
    unfolding c' by code_simp+
  have a: "pa_address (example_addr x) = x" for x by (simp add: example_addr_def)
  have fl: "pm_read_raw_list flaky_memory 1 [(pa_from_address 0, [0, 0, 0, 0])] =
      Some (Inl (Connector ''read failed''), [[0, 0, 0, 0]], 0)"
    "pm_read_raw_list flaky_memory 0 [(example_addr 1, [0, 0])] = Some (Inr (), [[0xAB, 0xAB]], 0)"
    by code_simp+
  from failed_read_loses_page [OF count.cache_validator_axioms example_cache_ok [OF c, of 1], where
      pa = "example_addr 1" and buf = "[0, 0]" and pm = flaky_memory and pm' = flaky_memory and
      e = "Connector ''read failed''" and b = "[0, 0, 0, 0]" and m' = 0 and
      later = "[(example_addr 1, [0, 0]), (example_addr 3, [5])]", unfolded f a al]
    one fl al(3)
  show ?thesis using c by (auto simp: a al simp del: later_reads.simps)
qed

text \<open>A cache whose page was read, and holds the bytes of the memory.\<close>

definition warm_cache :: "(nat, count_validator) cached_memory_access" where
  "warm_cache = cm_new 0 \<lparr>pc_address = [0], pc_page_refs = [Some 0],
     pc_address_once_validated = [ADDRESS_INVALID], pc_page_size = 4, pc_page_type_mask = PT_READ_ONLY,
     pc_validator = \<lparr>cc_count = [1], cc_valid_count = 10, cc_last_count = 1\<rparr>,
     pc_block = [[0xAB, 0xAB, 0xAB, 0xAB]]\<rparr>"

lemma warm_cache_is:
  "Option.bind (example_cache 10) (\<lambda>c. cm_read_raw_list count_ops flaky_memory (cm_new 0 c) [(example_addr 1, [0])]) =
     Some (Inr (), [[0xAB]], warm_cache)"
  by code_simp

lemma warm_cache_ok:
  "cm_ok (\<lambda>v. cc_valid_count v \<noteq> 0) (\<lambda>v. length (cc_count v)) (\<lambda>_. True) (\<lambda>_ _. None) warm_cache"
proof -
  have "page_align ADDRESS_INVALID 4 \<noteq> ADDRESS_INVALID" by code_simp
  then show ?thesis
    by (simp add: cm_ok_def cache_ok_def warm_cache_def cm_new_def pc_shape_def pc_holds_def pages_out_def
        src_matches_def byte_at_unat)
qed

text \<open>The write of a seven fails, and is read back from the cache.\<close>

theorem failed_write_is_read_back_witness:
  "\<exists>cm' cm''. cm_write_raw_list count_ops flaky_memory warm_cache [(example_addr 1, [7])] =
       Some (Inl (Connector ''not writeable''), cm') \<and>
     cm_read_raw_list count_ops flaky_memory cm' [(example_addr 1, [0])] = Some (Inr (), [[7]], cm'') \<and>
     pm_read_raw_list flaky_memory (cm_mem cm'') [(example_addr 1, [0])] = Some (Inr (), [[0xAB]], 0)"
proof -
  have c: "in_cached_page (cm_cache warm_cache) (example_addr 1) [7]"
    "pc_address (cm_cache warm_cache) ! page_slot (cm_cache warm_cache) (pa_address (example_addr 1)) =
       page_align (pa_address (example_addr 1)) (pc_page_size (cm_cache warm_cache))"
    "cv_is_slot_valid count_ops (cv_update_validity count_ops (pc_validator (cm_cache warm_cache)))
       (page_slot (cm_cache warm_cache) (pa_address (example_addr 1))) = Some True"
    "cv_is_slot_valid count_ops (cv_update_validity count_ops (cv_update_validity count_ops
         (pc_validator (cm_cache warm_cache))))
       (page_slot (cm_cache warm_cache) (pa_address (example_addr 1))) = Some True"
    "pm_write_raw_list flaky_memory (cm_mem warm_cache) [(example_addr 1, [7])] =
       Some (Inl (Connector ''not writeable''), 0)"
    "pm_read_raw_list flaky_memory 0 [(example_addr 1, [0])] = Some (Inr (), [[0xAB]], 0)"
    by code_simp+
  from failed_write_is_read_back [OF count.cache_validator_axioms warm_cache_ok c(1) _ c(2-5), of "[0]" flaky_memory]
  show ?thesis using c(6) by auto
qed

end
