(* ===== verification/File_Writes.thy ===== *)
theory File_Writes
  imports Connectors "HOL-Library.Sublist"
begin

text \<open>
  Writing through the file connector, \<open>phys_write_raw_list\<close> of
  \<open>memflow/src/connector/fileio.rs\<close>. The locale states what \<open>Seek\<close> and \<open>Write\<close> promise:
  \<open>write\<close> stores a part of the buffer at the position and returns its length. The
  connector does not look at that length.
\<close>

section \<open>A writer that may write a part\<close>

locale seek_write =
  fixes rd :: "'r reader_ops"
    and rd_ok :: "'r \<Rightarrow> bool"
    and rd_data :: "'r \<Rightarrow> u8 list"
    and rd_pos :: "'r \<Rightarrow> u64"
  assumes seek_law: "rd_ok r \<Longrightarrow> \<exists>r'. rd_seek rd r p = (True, r') \<and> rd_ok r' \<and>
      rd_data r' = rd_data r \<and> rd_pos r' = p"
    and write_law: "rd_ok r \<Longrightarrow> buf = [] \<or> unat (rd_pos r) + length buf \<le> length (rd_data r) \<Longrightarrow>
      \<exists>n r'. rd_write rd r buf = (Some n, r') \<and> rd_ok r' \<and> unat n \<le> length buf \<and>
        rd_data r' = take (unat (rd_pos r)) (rd_data r) @ take (unat n) buf @
          drop (unat (rd_pos r) + unat n) (rd_data r)"

text \<open>
  \<open>std::io::Cursor<&mut [u8]>\<close>: bytes behind the end are not written. At most \<open>limit\<close>
  bytes are written by a call.
\<close>

definition slice_cursor_ops :: "nat \<Rightarrow> cursor reader_ops" where
  "slice_cursor_ops limit = (cursor_ops limit)\<lparr>
     rd_write := (\<lambda>r buf.
        let p = unat (cur_pos r); n = min limit (min (length buf) (length (cur_data r) - p))
        in (Some (of_nat n), \<lparr>cur_data = take p (cur_data r) @ take n buf @ drop (p + n) (cur_data r),
                              cur_pos = cur_pos r + of_nat n\<rparr>))\<rparr>"

definition cursor_fits :: "cursor \<Rightarrow> bool" where
  "cursor_fits r \<longleftrightarrow> length (cur_data r) < 9223372036854775808"

interpretation slice_cursor: seek_write "slice_cursor_ops limit" cursor_fits cur_data cur_pos for limit
proof
  fix r p
  assume "cursor_fits r"
  then show "\<exists>r'. rd_seek (slice_cursor_ops limit) r p = (True, r') \<and> cursor_fits r' \<and>
      cur_data r' = cur_data r \<and> cur_pos r' = p"
    by (simp add: slice_cursor_ops_def cursor_ops_def cursor_fits_def)
next
  fix r and buf :: "u8 list"
  assume r: "cursor_fits r"
  define n where "n = min limit (min (length buf) (length (cur_data r) - unat (cur_pos r)))"
  have len: "length (cur_data r) < 9223372036854775808" using r by (simp add: cursor_fits_def)
  have le: "n \<le> length buf" "n \<le> length (cur_data r) - unat (cur_pos r)" by (simp_all add: n_def)
  then have n: "unat (of_nat n :: u64) = n" using len by (simp add: unat_of_nat_64)
  let ?d = "take (unat (cur_pos r)) (cur_data r) @ take n buf @ drop (unat (cur_pos r) + n) (cur_data r)"
  have "length ?d = length (cur_data r)" using le by (cases "n = 0") auto
  then have "cursor_fits \<lparr>cur_data = ?d, cur_pos = cur_pos r + of_nat n\<rparr>"
    using len by (simp only: cursor_fits_def cursor.simps)
  moreover have "rd_write (slice_cursor_ops limit) r buf = (Some (of_nat n), \<lparr>cur_data = ?d, cur_pos = cur_pos r + of_nat n\<rparr>)"
    by (simp only: slice_cursor_ops_def cursor_ops_def reader_ops.simps Let_def n_def)
  ultimately show "\<exists>n r'. rd_write (slice_cursor_ops limit) r buf = (Some n, r') \<and> cursor_fits r' \<and>
        unat n \<le> length buf \<and>
        cur_data r' = take (unat (cur_pos r)) (cur_data r) @ take (unat n) buf @
          drop (unat (cur_pos r) + unat n) (cur_data r)"
    using le(1) n by (intro exI [of _ "of_nat n"] exI [of _ "\<lparr>cur_data = ?d, cur_pos = cur_pos r + of_nat n\<rparr>"]) simp
qed

section \<open>The pieces of a write\<close>

text \<open>One byte of a file, and a part of a piece as bytes of the file.\<close>

definition file_cell :: "u8 list \<Rightarrow> (address \<times> unit) \<times> u8 \<Rightarrow> u8 list" where
  "file_cell data c = data[unat (fst (fst c)) := snd c]"

lemma length_file_cells [simp]: "length (foldl file_cell data cs) = length data"
  by (induction cs arbitrary: data) (simp_all add: file_cell_def)

lemma overwrite_cells:
  assumes "\<And>k. k < length bs \<Longrightarrow> unat (fst (cs ! k)) = p + k" and "length cs = length bs"
    and "p + length bs \<le> length data"
  shows "foldl file_cell data (zip cs bs) = take p data @ bs @ drop (p + length bs) data"
  using assms
proof (induction bs arbitrary: cs rule: rev_induct)
  case (snoc b bs)
  obtain cs' c where cs: "cs = cs' @ [c]" "length cs' = length bs"
    using snoc.prems(2) by (cases cs rule: rev_cases) auto
  have at: "unat (fst (cs' ! k)) = p + k" if "k < length bs" for k
    using snoc.prems(1) [of k] that by (simp add: cs nth_append)
  have c: "unat (fst c) = p + length bs"
    using snoc.prems(1) [of "length bs"] by (simp add: cs nth_append)
  have "foldl file_cell data (zip cs' bs) = take p data @ bs @ drop (p + length bs) data"
    by (rule snoc.IH [OF at cs(2)]) (use snoc.prems(3) in auto)
  then have "foldl file_cell data (zip cs (bs @ [b])) =
      (take p data @ bs @ drop (p + length bs) data)[p + length bs := b]"
    by (simp add: cs file_cell_def c)
  also have "\<dots> = take p data @ bs @ (drop (p + length bs) data)[0 := b]"
    using snoc.prems(3) by (simp add: list_update_append)
  also have "(drop (p + length bs) data)[0 := b] = b # drop (Suc (p + length bs)) data"
    using snoc.prems(3) by (simp add: Cons_nth_drop_Suc [symmetric])
  finally show ?case by simp
qed simp

context seek_write
begin

text \<open>The writer stores all of what it is given, when there is room.\<close>

definition writes_all :: bool where
  "writes_all \<longleftrightarrow> (\<forall>r buf. rd_ok r \<longrightarrow> unat (rd_pos r) + length buf \<le> length (rd_data r) \<longrightarrow>
     fst (rd_write rd r buf) = Some (len_usize buf))"

lemma fio_write_body_ok:
  assumes r: "rd_ok r" "length (rd_data r) < 9223372036854775808"
    and m: "\<forall>c \<in> set (pair_cells usize_cells m). unat (fst c) < length (rd_data r)"
    and l: "length (pair_cells usize_cells m) = length t"
  shows "\<exists>n r'. fio_write_body rd (m, t) r = Some (None, r') \<and> rd_ok r' \<and>
     rd_data r' = foldl file_cell (rd_data r) (take n (zip (pair_cells usize_cells m) t)) \<and>
     (writes_all \<longrightarrow> length t \<le> n)"
proof -
  obtain off len where mn: "m = (off, len)" by (cases m)
  have n: "unat len = length t" using l by (simp add: mn pair_cells_def usize_cells_def)
  obtain r1 where r1: "rd_seek rd r off = (True, r1)" "rd_ok r1" "rd_data r1 = rd_data r" "rd_pos r1 = off"
    using seek_law [OF r(1), of off] by auto
  have fit: "t = [] \<or> unat off + length t \<le> length (rd_data r)"
    using file_range(2) [OF m [unfolded mn] r(2)] n by (cases t) auto
  from write_law [OF r1(2), of t] fit obtain k r2 where
    r2: "rd_write rd r1 t = (Some k, r2)" "rd_ok r2" "unat k \<le> length t"
    "rd_data r2 = take (unat off) (rd_data r) @ take (unat k) t @ drop (unat off + unat k) (rd_data r)"
    unfolding r1(3,4) by blast
  let ?cs = "take (unat k) (pair_cells usize_cells (off, len))"
  have cells: "rd_data r2 = foldl file_cell (rd_data r) (zip ?cs (take (unat k) t))"
  proof (cases "t = []")
    case True
    then show ?thesis using r2(3,4) by simp
  next
    case False
    then have pos: "0 < unat len" by (simp add: n)
    have "foldl file_cell (rd_data r) (zip ?cs (take (unat k) t)) =
        take (unat off) (rd_data r) @ take (unat k) t @ drop (unat off + length (take (unat k) t)) (rd_data r)"
    proof (rule overwrite_cells)
      fix j assume "j < length (take (unat k) t)"
      then have j: "j < unat k" "j < unat len" using r2(3) n by simp_all
      then show "unat (fst (?cs ! j)) = unat off + j"
        using file_range(1) [OF m [unfolded mn] r(2) pos j(2)]
        by (simp add: pair_cells_def usize_cells_def addr_cells_nth)
    next
      show "length ?cs = length (take (unat k) t)" using l by (simp add: mn)
      show "unat off + length (take (unat k) t) \<le> length (rd_data r)" using fit False by auto
    qed
    then show ?thesis using r2(3,4) by (simp add: min_absorb2)
  qed
  have full: "unat k = length t" if writes_all
  proof (cases "t = []")
    case False
    then have "unat (rd_pos r1) + length t \<le> length (rd_data r1)" using fit r1(3,4) by simp
    then have "fst (rd_write rd r1 t) = Some (len_usize t)"
      using that r1(2) unfolding writes_all_def by blast
    then have "k = len_usize t" using r2(1) by simp
    moreover have "length t < 18446744073709551616" using n unat_lt_64 [of len] by simp
    ultimately show ?thesis by (simp add: len_usize_def unat_of_nat_64)
  qed (use r2(3) in simp)
  show ?thesis
    using r1(1) r2(1,2) cells full
    by (intro exI [of _ "unat k"] exI [of _ r2])
      (simp add: fio_write_body_def mn as_u64_def take_zip)
qed

lemma each_fio_write:
  assumes "rd_ok r" and "length (rd_data r) < 9223372036854775808"
    and "\<forall>(m, t) \<in> set outs. length (pair_cells usize_cells m) = length t \<and>
      (\<forall>c \<in> set (pair_cells usize_cells m). unat (fst c) < length (rd_data r))"
  shows "\<exists>hs r'. each (fio_write_body rd) outs r = Some (None, r') \<and> rd_ok r' \<and>
     subseq hs (out_view (pair_cells usize_cells) (\<lambda>b. b) outs) \<and> rd_data r' = foldl file_cell (rd_data r) hs \<and>
     (writes_all \<longrightarrow> hs = out_view (pair_cells usize_cells) (\<lambda>b. b) outs)"
  using assms
proof (induction outs arbitrary: r)
  case (Cons x outs)
  obtain m t where x: "x = (m, t)" by (cases x)
  obtain n r1 where r1: "fio_write_body rd (m, t) r = Some (None, r1)" "rd_ok r1"
    "rd_data r1 = foldl file_cell (rd_data r) (take n (zip (pair_cells usize_cells m) t))"
    "writes_all \<longrightarrow> length t \<le> n"
    using fio_write_body_ok [OF Cons.prems(1,2), of m t] Cons.prems(3) by (auto simp: x)
  have len: "length (rd_data r1) = length (rd_data r)" by (simp add: r1(3))
  obtain hs r2 where r2: "each (fio_write_body rd) outs r1 = Some (None, r2)" "rd_ok r2"
    "subseq hs (out_view (pair_cells usize_cells) (\<lambda>b. b) outs)" "rd_data r2 = foldl file_cell (rd_data r1) hs"
    "writes_all \<longrightarrow> hs = out_view (pair_cells usize_cells) (\<lambda>b. b) outs"
    using Cons.IH [OF r1(2)] Cons.prems(2,3) len by auto
  let ?p = "zip (pair_cells usize_cells m) t"
  have view: "out_view (pair_cells usize_cells) (\<lambda>b. b) (x # outs) =
      ?p @ out_view (pair_cells usize_cells) (\<lambda>b. b) outs"
    by (simp add: out_view_def x)
  have "subseq (take n ?p @ hs) (out_view (pair_cells usize_cells) (\<lambda>b. b) (x # outs))"
    unfolding view by (intro list_emb_append_mono r2(3) prefix_imp_subseq take_is_prefix)
  moreover have "writes_all \<longrightarrow> take n ?p @ hs = out_view (pair_cells usize_cells) (\<lambda>b. b) (x # outs)"
    unfolding view using r1(4) r2(5) by auto
  ultimately show ?case
    using r1(1) r2(1,2,4) r1(3) by (intro exI [of _ "take n ?p @ hs"] exI [of _ r2]) (simp add: x)
qed (rule exI [of _ "[]"], simp add: out_view_def)

lemma fio_write_stores:
  assumes "rd_ok (fio_reader m)" and wf: "mm_wf (pair_ok (\<lambda>_. True)) (pair_cells usize_cells) (fio_map m)"
    and ins: "inside_file (rd_data (fio_reader m)) (fio_map m)" and bufs: "bufs_ok ws"
  shows "\<exists>hs r'. fio_write_raw_list rd m ws = Some (Inr (), m\<lparr>fio_reader := r'\<rparr>) \<and> rd_ok r' \<and>
     rd_data r' = foldl file_cell (rd_data (fio_reader m)) hs \<and>
     subseq hs (req_hits (pair_cells usize_cells) (\<lambda>b. b) (fio_map m) (write_reqs ws)) \<and>
     (writes_all \<longrightarrow> hs = req_hits (pair_cells usize_cells) (\<lambda>b. b) (fio_map m) (write_reqs ws))"
proof -
  let ?maps = "fio_map m" and ?r = "fio_reader m"
  have q: "\<forall>r \<in> set (write_reqs ws). slice_ok (snd r)"
    using bufs by (auto simp: write_reqs_def bufs_ok_def slice_ok_def)
  obtain outs fs s' where y: "yields (mi_next (pair_ops usize_ops) slice_ops) (mi_new ?maps (write_reqs ws) []) outs s'"
    "mi_fail s' = [] @ fs" "mi_map s' = ?maps"
    "\<forall>(c, t) \<in> set outs. pair_ok (\<lambda>_. True) c \<and> slice_ok t \<and> length (pair_cells usize_cells c) = length t"
    "out_view (pair_cells usize_cells) (\<lambda>b. b) outs = req_hits (pair_cells usize_cells) (\<lambda>b. b) ?maps (write_reqs ws)"
    "fail_view (\<lambda>b. b) fs = req_misses (pair_cells usize_cells) (\<lambda>b. b) ?maps (write_reqs ws)"
    by (rule remap_write.map_yields [OF wf q])
  have ok: "length (pair_cells usize_cells e) = length t \<and>
      (\<forall>c \<in> set (pair_cells usize_cells e). unat (fst c) < length (rd_data ?r))"
    if mt: "(e, t) \<in> set outs" for e t
  proof (intro conjI ballI)
    show l: "length (pair_cells usize_cells e) = length t" using y(4) mt by blast
    fix c assume c: "c \<in> set (pair_cells usize_cells e)"
    from out_view_mapped [where mcells = "pair_cells usize_cells" and tcells = "\<lambda>b. b", OF mt l c]
    obtain d where "(c, d) \<in> set (req_hits (pair_cells usize_cells) (\<lambda>b. b) ?maps (write_reqs ws))"
      unfolding y(5) by blast
    from req_hits_mapped [OF this] obtain x where "mm_at (pair_cells usize_cells) ?maps x = Some c"
      by blast
    then show "unat (fst c) < length (rd_data ?r)"
      using ins unfolding inside_file_def by (cases c) auto
  qed
  have d: "length (rd_data ?r) < 9223372036854775808" using ins by (simp add: inside_file_def)
  obtain hs r' where r': "each (fio_write_body rd) outs ?r = Some (None, r')" "rd_ok r'"
    "subseq hs (out_view (pair_cells usize_cells) (\<lambda>b. b) outs)" "rd_data r' = foldl file_cell (rd_data ?r) hs"
    "writes_all \<longrightarrow> hs = out_view (pair_cells usize_cells) (\<lambda>b. b) outs"
    using each_fio_write [OF assms(1) d, of outs] ok by blast
  have "fio_write_raw_list rd m ws = Some (Inr (), m\<lparr>fio_reader := r'\<rparr>)"
    using r'(1) yields_for_loop [OF y(1), of "fio_write_body rd" ?r] y(3)
    by (simp add: fio_write_raw_list_def mm_map_iter_def write_reqs_def case_prod_unfold fio_result_def)
  with r'(2-5) show ?thesis unfolding y(5) by blast
qed

end

section \<open>Properties\<close>

text \<open>
  C39. A write through the file connector reports success whatever was written. Over any
  file that seeks as the standard trait promises and whose \<open>write\<close> stores a part of what it is
  given and returns its length, with a map in ascending order of regions that are not empty
  and end below the end of the address space, whose offsets lie inside the file, and buffers
  no longer than the largest size of an allocation: the write succeeds and keeps the map; the
  bytes it stores are some of the mapped bytes of the requests, in their order, and nothing
  else of the file changes. When every call stores all it is given, they are all the mapped
  bytes of the requests.
\<close>

theorem file_connector_writes:
  assumes "seek_write rd rd_ok rd_data rd_pos" and "rd_ok (fio_reader m)"
    and "mm_wf (pair_ok (\<lambda>_. True)) (pair_cells usize_cells) (fio_map m)"
    and "inside_file (rd_data (fio_reader m)) (fio_map m)" and "bufs_ok ws"
  shows "\<exists>hs r'. fio_write_raw_list rd m ws = Some (Inr (), m\<lparr>fio_reader := r'\<rparr>) \<and>
     rd_data r' = foldl (\<lambda>data ((off, _), b). data[unat off := b]) (rd_data (fio_reader m)) hs \<and>
     subseq hs (req_hits (pair_cells usize_cells) (\<lambda>b. b) (fio_map m) (write_reqs ws)) \<and>
     ((\<forall>r buf. rd_ok r \<longrightarrow> unat (rd_pos r) + length buf \<le> length (rd_data r) \<longrightarrow>
          fst (rd_write rd r buf) = Some (len_usize buf)) \<longrightarrow>
        hs = req_hits (pair_cells usize_cells) (\<lambda>b. b) (fio_map m) (write_reqs ws))"
proof -
  have f: "(\<lambda>data ((off, _), b). data[unat off := b]) = file_cell"
    by (auto simp: fun_eq_iff file_cell_def)
  show ?thesis
    using seek_write.fio_write_stores [OF assms] unfolding f seek_write.writes_all_def [OF assms(1)] by blast
qed

text \<open>A file that takes one byte per call: the write of two bytes succeeds.\<close>

theorem file_connector_writes_witness:
  "(\<exists>r'. fio_write_raw_list (slice_cursor_ops 1) example_file [(pa_from_address 0x10, [7, 8])] =
      Some (Inr (), example_file\<lparr>fio_reader := r'\<rparr>))"
proof -
  have r: "cursor_fits (fio_reader example_file)" by (simp add: example_file_def cursor_fits_def)
  from file_connector_writes [OF slice_cursor.seek_write_axioms r example_file_ok,
      of "[(pa_from_address 0x10, [7, 8])]" 1]
  show ?thesis by (auto simp: bufs_ok_def)
qed

lemma short_write_succeeds:
  "map_option (\<lambda>(r, m). (r, cur_data (fio_reader m)))
     (fio_write_raw_list (slice_cursor_ops 1) example_file [(pa_from_address 0x10, [7, 8])]) =
   Some (Inr (), [1, 7, 3])"
  by code_simp

end
