(* ===== verification/Spec2Isabelle.thy ===== *)
theory Spec2Isabelle
  imports Memflow_Prelude Mmu_Walk Pointer_Ops Connectors Cached_Vat Cached_Memory Memory_Maps X86_Paging Win32_Lists Win32_Keyboard Win32_Builder Connector_Inventory Iter_Adaptors Dummy_Memory Default_Caches C_Win32 Cache_Failures File_Writes
begin

text \<open>
  A verification development for memflow, the memory introspection library of this
  repository: the crates \<open>memflow\<close> (under \<open>src/memflow/src\<close>), \<open>memflow-win32\<close> (under
  \<open>src/memflow-win32/src\<close>) and the functions their layers \<open>memflow-ffi\<close> and
  \<open>memflow-win32-ffi\<close> export to C.

  The program and its parts. memflow reads and writes the memory of a running machine from
  outside. A connector gives the physical memory of the target; a translator walks the page
  tables of the target, so that virtual addresses can be read; caches sit between them; and
  \<open>memflow-win32\<close> finds a Windows kernel in that memory and lists its processes and modules.
  A call goes down as follows: \<open>VirtualDMA\<close> (\<open>Virtual_Dma\<close>) gets a batch of reads at virtual
  addresses; it hands them to a \<open>VirtualTranslate\<close>, which is the page walk itself
  (\<open>Mmu_Translate\<close>) or the cache in front of it (\<open>Cached_Vat\<close> over \<open>Tlb_Cache\<close>); the walk
  reads the page tables through a \<open>PhysicalMemory\<close> (\<open>Phys_Mem\<close>), cutting the requests at page
  borders with the chunk iterator (\<open>Page_Chunks\<close>) of the buffers it was given
  (\<open>Split_Index\<close>); the translated pieces are then read from the same physical memory, which
  is a page cache (\<open>Page_Cache\<close>, \<open>Cached_Memory\<close>) or a connector (\<open>Connectors\<close>) that finds
  the backing bytes of each piece in a memory map (\<open>Mem_Map\<close>).

  The theories and the code they model (paths below the \<open>src\<close> of the crate).
  \<^item> \<open>Memflow_Prelude\<close>: machine integers, outcomes, generic facts on words and lists.
    \<open>Iter_Loops\<close>: \<open>for\<close> loops over iterators. \<open>Buf_Store\<close>: the buffers of a read list as a
    store, and the exclusive slices cut from them.
  \<^item> Types: \<open>Address_Ops\<close> (\<open>types/address.rs\<close>, \<open>size.rs\<close>), \<open>Page_Info\<close> (\<open>types/page.rs\<close>,
    \<open>physical_address.rs\<close>), \<open>Byte_Order\<close> (\<open>types/byte_swap.rs\<close>), \<open>Pointer_Ops\<close>
    (\<open>types/pointer32.rs\<close>, \<open>pointer64.rs\<close>), \<open>Result_Types\<close> (\<open>error.rs\<close>).
  \<^item> Iterators: \<open>Split_Index\<close> and \<open>Page_Chunks\<close> (\<open>iter/page_chunks.rs\<close>, \<open>iter/mod.rs\<close>),
    \<open>Iter_Adaptors\<close> (\<open>iter/double_buffered_iterator.rs\<close>, \<open>doublepeek.rs\<close>, \<open>void.rs\<close>).
  \<^item> Translation: \<open>Translate_Data\<close> (\<open>architecture/mmu_spec/translate_data.rs\<close>), \<open>Mmu_Spec\<close>
    (the address arithmetic of \<open>architecture/mmu_spec.rs\<close>, the three modes in
    \<open>architecture/x86\<close>), \<open>Mmu_Translate\<close> (the batched walk \<open>virt_to_phys_iter\<close> and its entry
    points in \<open>architecture/mod.rs\<close> and \<open>mem/virt_translate.rs\<close>). Proofs only: \<open>Walk_Cells\<close>,
    \<open>Mmu_Walk\<close>, \<open>Walk_Frames\<close>, \<open>Walk_Pieces\<close>, \<open>X86_Paging\<close>.
  \<^item> Memory: \<open>Phys_Mem\<close> (\<open>mem/phys_mem.rs\<close> and its batcher), \<open>Virt_Mem\<close> (\<open>mem/virt_mem.rs\<close>
    and its batcher), \<open>Virtual_Dma\<close> (\<open>mem/virt_mem/virtual_dma.rs\<close>), \<open>Mem_Map\<close>
    (\<open>mem/mem_map.rs\<close>), \<open>Dummy_Memory\<close> (\<open>mem/dummy.rs\<close>). Proofs only: \<open>Page_Reads\<close>,
    \<open>Memory_Maps\<close>.
  \<^item> Caches: \<open>Cache_Validators\<close> (\<open>mem/cache/mod.rs\<close>, \<open>count_validator.rs\<close>,
    \<open>timed_validator.rs\<close>), \<open>Tlb_Cache\<close> (\<open>tlb_cache.rs\<close>), \<open>Cached_Vat\<close> (\<open>cached_vat.rs\<close>),
    \<open>Page_Cache\<close> (\<open>page_cache.rs\<close>) with the proofs of \<open>Page_Cache_Reads\<close>, \<open>Cached_Memory\<close>
    (\<open>cached_memory_access.rs\<close>). Proofs only: \<open>Cache_Failures\<close>.
  \<^item> Connectors: \<open>Connectors\<close> (\<open>connector/mmap.rs\<close>, \<open>filemap.rs\<close>, \<open>fileio.rs\<close>),
    \<open>Connector_Inventory\<close> (\<open>connector/args.rs\<close>, \<open>inventory.rs\<close>). Proofs only: \<open>File_Writes\<close>.
  \<^item> Windows: \<open>Win32_Base\<close> (\<open>error.rs\<close>, \<open>kernel/mod.rs\<close>, the start block), \<open>Win32_Ntos\<close>
    (\<open>kernel/ntos\<close>, \<open>kernel/sysproc.rs\<close>), \<open>Win32_Kernel_Info\<close> (\<open>win32/vat.rs\<close>,
    \<open>kernel_info.rs\<close>), \<open>Win32_Symstore\<close> and \<open>Win32_Offsets\<close> (\<open>offsets\<close>), \<open>Win32_Process\<close>
    (\<open>win32/unicode_string.rs\<close>, \<open>module.rs\<close>, \<open>process.rs\<close>), \<open>Win32_Kernel\<close>
    (\<open>win32/kernel.rs\<close>), \<open>Win32_Keyboard\<close> (\<open>keyboard.rs\<close>), \<open>Win32_Builder\<close>
    (\<open>kernel_builder.rs\<close>). Proofs only: \<open>Win32_Lists\<close>, \<open>Default_Caches\<close>.
  \<^item> Functions for C: \<open>C_Interface\<close> (\<open>util.rs\<close>, \<open>mem\<close>, \<open>process.rs\<close>, \<open>connectors\<close> and
    \<open>architecture\<close> of \<open>memflow-ffi\<close>), \<open>C_Win32\<close> (\<open>win32\<close> and \<open>kernel\<close> of
    \<open>memflow-win32-ffi\<close>).

  How state and operations correspond. A struct is a record with a field prefix of its own, an
  enum a datatype; a method takes the state and returns it updated. A trait that the code is
  generic over is a record of its methods on a state type (\<open>split_ops\<close>, \<open>phys_mem\<close>,
  \<open>virt_mem\<close>, \<open>validator_ops\<close>, \<open>reader_ops\<close>), and what its clients rely on is a locale
  (\<open>split_index\<close>, \<open>phys_memory_total\<close>, \<open>matching_memory\<close>, \<open>readable_memory\<close>, \<open>virtual_memory\<close>,
  \<open>cache_validator\<close>, \<open>expiring_validator\<close>, \<open>memory_mapping\<close>, \<open>seek_read\<close>, \<open>seek_write\<close>, \<open>clock_law\<close>,
  \<open>pointer_memory\<close>), interpreted on the models of the implementations: the split contract on
  lengths, slices, exclusive slices, pairs and translation requests; readable memory on the
  shared and the exclusive mapping and on the file connector; matching memory, which says
  nothing of unmapped bytes, on every readable memory and on a page cache over any matching
  memory; the virtual memory contract on \<open>VirtualDMA\<close>; the pointer contract on the virtual memory of a Windows kernel. The walk is
  proved in two locales that join a buffer and a memory (\<open>batch_walk\<close>, \<open>mapped_walk\<close>).
  Exclusive borrows of buffers are places in a store, so that writes through several slices of
  one buffer act on one list of bytes. The bump arenas of the walk and of the caches are lists.
  A result \<open>None\<close> of an operation is a panic or a call that does not return, a Rust \<open>Result\<close>
  is a sum with the error on the left.

  What the lemmas show.
  \<^item> The walk: on the three x86 modes the batched walk of one address is the page walk of the
    processor manual, except for addresses whose walk meets an entry that points back to its
    own table, which the code refuses (\<open>X86_Paging\<close>); for a request of up to half the virtual
    range each piece it returns lies where the walk of each byte says (\<open>Mmu_Walk\<close>,
    \<open>Walk_Pieces\<close>); it always returns, and no byte of a batch is lost or duplicated
    (\<open>Walk_Cells\<close>). A batch is not the walk of each request when entries are shared (the
    exact rule is a property of \<open>Mmu_Walk\<close>) or when requests leave gaps (an example there).
    The walks are assumed to stay inside backed tables, and large pages to have no bits set
    below their size; \<open>walkable\<close> says so for a range.
  \<^item> Reading: a virtual read of a walkable range has the bytes the page tables lead to and zeroes elsewhere, a string
    read ends at its zero byte (\<open>Virtual_Dma\<close>); the memory maps of an address space are the
    walk (\<open>Memory_Maps\<close>); a lookup in a memory map whose regions are in order is complete and in
    order, and pushing a region above another one keeps that (\<open>Mem_Map\<close>); over such a map the
    connectors read and write the mapped bytes and no others, and a map of a file is cut at its
    end or refused (\<open>Connectors\<close>, \<open>File_Writes\<close>); a batch of physical reads and writes is
    executed once (\<open>Phys_Mem\<close>).
  \<^item> Caches: hits of the translation cache are translations, for every history of stores and
    expirations, so that the cached translator refines the walk (\<open>Tlb_Cache\<close>, \<open>Cached_Vat\<close>);
    a read through the page cache has the bytes of the memory, with the invariant of a run over
    its slots and pending lists (\<open>Page_Cache_Reads\<close>, \<open>Cached_Memory\<close>); the two caches stacked as
    the builder of a kernel does change no translation and no read (\<open>Default_Caches\<close>); exact
    lifetimes of the validators; and the failures of the memory after which a cached page is
    lost or differs from it (\<open>Cache_Failures\<close>).
  \<^item> Windows: the list of processes is the ring of the kernel, in order, and the list of modules
    reaches every module and ends, also for damaged links (\<open>Win32_Lists\<close>); the search for the
    kernel around a hint ends; files of offsets and symbols are found, kept and read back;
    key codes select their bits.
  \<^item> Functions for C: an array of a C program gets the first items of the Rust list, a name is cut
    to its buffer and ends with a zero, and the code of a virtual read never tells that bytes are
    missing.
  \<^item> Support: what the iterator adaptors yield, which library a connector comes from, the texts of
    arguments, and which frames the allocator of the dummy memory hands out.

  Bounds and fuel. \<open>usize\<close> has 64 bits, the host is little endian, the build is a release build
  (wrapping arithmetic, masked shifts, no debug assertions). Loops that may not end are
  \<open>partial_function (option)\<close>: the chunk iterator, the lookup iterator of a memory map, loops
  over iterators, the search around a hint and the mapping of dummy pages; that they return is
  proved where a property rests on it (by \<open>yields\<close> for iterators, by a measure for the search).
  The only fuel is the code's own: the lists of processes and modules stop after
  \<open>MAX_ITER_COUNT\<close> = 65536 entries, which their properties mention. The other recursions are
  structural or have a termination proof (the binary search, the UTF-8 decoders, the page list
  of the dummy memory). Requests of more than half the address space are excluded from the
  conservation of a batch, because their end wraps.

  Parameters. Code outside the repository is an argument of the definitions that use it, with
  its documented behaviour as a hypothesis: the ordered map of \<open>vector_trees\<close>, \<open>coalesce\<close> of
  \<open>itertools\<close>, the image parser \<open>pelite\<close>, the decoder \<open>widestring\<close>, the symbol parser \<open>pdb\<close>,
  the server of the symbol store, lower-casing, the clock, the map of a file by \<open>memmap\<close>, the
  generators of \<open>rand\<close> (a shuffle permutes), the page tables of \<open>x86_64\<close>, the loader of shared
  libraries with the directories of the host, and the bytes of memory that is not initialised.

  Not modelled. \<open>offsets/pdb_struct/data.rs\<close> and the function that opens a symbol file walk the
  type records of the package \<open>pdb\<close>, which is not in the repository. The clone of the dummy
  memory shares its buffer with the original. The functions for C that free or
  clone a heap object, and the logger they start, have no counterpart in a model of values;
  \<open>memflow-derive\<close> is a procedural macro; \<open>memflow-win32/build.rs\<close> packs files at build time;
  the benchmarks, examples and the C client \<open>jiaa-src\<close> use the library. Formatting, logging,
  serialisation by \<open>serde\<close> and the size hints of the map and adaptor iterators are left out; locks and
  reference counts are not visible in a model of one thread.
\<close>

end
